(* ===== verification/Susi_Prelude.thy ===== *)
theory Susi_Prelude
  imports
    Main
    "HOL-Library.Word"
    "HOL-Library.Char_ord"
    "HOL-Library.List_Lexorder"
    "HOL-Library.Sublist"
    "HOL-Library.Multiset"
begin

text \<open>
  Shared vocabulary of the development.

  \<^item> Machine integers: Rust's \<open>u32\<close>, \<open>u64\<close> and \<open>u128\<close> as words of that width, with the
    saturating, checked and rounding operations of the standard library. Every operation has a
    lemma in the collection \<open>unats\<close> that reads its result as a natural number, so component
    proofs reduce to linear arithmetic over \<open>nat\<close>.
  \<^item> Strings: a Rust string is the list of its UTF-8 bytes, the type \<open>string\<close>. The
    standard-library functions the sources call (\<open>trim\<close>, \<open>split\<close>, \<open>split_once\<close>,
    \<open>strip_prefix\<close>, \<open>to_ascii_lowercase\<close>, decimal \<open>parse\<close> and printing) are defined here.
  \<^item> Ordered maps: \<open>BTreeMap\<close> as an association list that is strictly sorted by key, with the
    interface \<open>keyed_store\<close> every client of a map relies on.
  \<^item> Errors: fallible functions return \<open>'e + 'a\<close>, \<open>Inl\<close> for the error.
\<close>

named_theorems unats \<open>results of machine-integer operations, read as natural numbers\<close>
named_theorems btree \<open>lookup and invariant laws of ordered maps\<close>

section \<open>Machine integers\<close>

type_synonym u8 = "8 word"
type_synonym u32 = "32 word"
type_synonym u64 = "64 word"
type_synonym u128 = "128 word"

text \<open>The sources are built for 64-bit hosts, where \<open>usize\<close> has 64 bits.\<close>

type_synonym usize = "64 word"

definition sat_add :: "'a::len word \<Rightarrow> 'a word \<Rightarrow> 'a word" where
  "sat_add a b = (if unat a + unat b < 2 ^ LENGTH('a) then a + b else - 1)"

definition sat_sub :: "'a::len word \<Rightarrow> 'a word \<Rightarrow> 'a word" where
  "sat_sub a b = (if b \<le> a then a - b else 0)"

definition sat_mul :: "'a::len word \<Rightarrow> 'a word \<Rightarrow> 'a word" where
  "sat_mul a b = (if unat a * unat b < 2 ^ LENGTH('a) then a * b else - 1)"

definition checked_add_w :: "'a::len word \<Rightarrow> 'a word \<Rightarrow> 'a word option" where
  "checked_add_w a b = (if unat a + unat b < 2 ^ LENGTH('a) then Some (a + b) else None)"

definition checked_sub_w :: "'a::len word \<Rightarrow> 'a word \<Rightarrow> 'a word option" where
  "checked_sub_w a b = (if b \<le> a then Some (a - b) else None)"

definition checked_mul_w :: "'a::len word \<Rightarrow> 'a word \<Rightarrow> 'a word option" where
  "checked_mul_w a b = (if unat a * unat b < 2 ^ LENGTH('a) then Some (a * b) else None)"

definition checked_div_w :: "'a::len word \<Rightarrow> 'a word \<Rightarrow> 'a word option" where
  "checked_div_w a b = (if b = 0 then None else Some (a div b))"

text \<open>\<open>div_ceil\<close> of the standard library: the quotient, plus one when there is a remainder.
  Every call in the sources has a divisor that is not zero.\<close>

definition div_ceil :: "'a::len word \<Rightarrow> 'a word \<Rightarrow> 'a word" where
  "div_ceil a b = (let q = a div b; r = a mod b in if 0 < r then q + 1 else q)"

text \<open>\<open>u64::try_from(x).unwrap_or(u64::MAX)\<close> for a wider \<open>x\<close>.\<close>

definition clamp_to :: "'a::len word \<Rightarrow> 'b::len word" where
  "clamp_to x = (if unat x < 2 ^ LENGTH('b) then of_nat (unat x) else - 1)"

lemma unat_max_word: "unat (- 1 :: 'a::len word) = 2 ^ LENGTH('a) - 1"
  by (simp add: unsigned_minus_1_eq_mask mask_eq_exp_minus_1)

lemma unat_less_pow: "unat (a :: 'a::len word) < 2 ^ LENGTH('a)"
  by (rule unsigned_less)

lemma unat_le_max: "unat (a :: 'a::len word) \<le> 2 ^ LENGTH('a) - 1"
  using unat_less_pow [of a] by linarith

lemma unat_of_nat_less: "n < 2 ^ LENGTH('a) \<Longrightarrow> unat (of_nat n :: 'a::len word) = n"
  by (simp add: unat_of_nat)

lemma unat_sat_add [unats]:
  "unat (sat_add a b) = min (unat a + unat b) (2 ^ LENGTH('a) - 1)" for a b :: "'a::len word"
  by (auto simp: sat_add_def unat_max_word unat_word_ariths)

lemma unat_sat_sub [unats]: "unat (sat_sub a b) = unat a - unat b"
  by (auto simp: sat_sub_def unat_sub word_le_nat_alt)

lemma unat_sat_mul [unats]:
  "unat (sat_mul a b) = min (unat a * unat b) (2 ^ LENGTH('a) - 1)" for a b :: "'a::len word"
  by (auto simp: sat_mul_def unat_max_word unat_word_ariths)

lemma unat_div_word [unats]: "unat (a div b) = unat a div unat b"
  by (rule unat_div_distrib)

lemma unat_mod_word [unats]: "unat (a mod b) = unat a mod unat b"
  by (rule unat_mod_distrib)

lemma unat_max [unats]: "unat (max a b) = max (unat a) (unat b)"
  by (simp add: max_def word_le_nat_alt)

lemma unat_min [unats]: "unat (min a b) = min (unat a) (unat b)"
  by (simp add: min_def word_le_nat_alt)

lemma unat_clamp_to [unats]:
  "unat (clamp_to a :: 'b::len word) = min (unat a) (2 ^ LENGTH('b) - 1)"
  by (auto simp: clamp_to_def unat_max_word unsigned_ucast_eq take_bit_nat_eq_self)

lemma checked_add_w_Some:
  "checked_add_w a b = Some c \<longleftrightarrow> unat c = unat a + unat b" for a :: "'a::len word"
proof (cases "unat a + unat b < 2 ^ LENGTH('a)")
  case True
  then show ?thesis by (auto simp: checked_add_w_def word_unat_eq_iff unat_word_ariths)
next
  case False
  then have "unat c \<noteq> unat a + unat b" using unat_less_pow [of c] by linarith
  with False show ?thesis by (simp add: checked_add_w_def)
qed

lemma checked_add_w_None:
  "checked_add_w a b = None \<longleftrightarrow> 2 ^ LENGTH('a) \<le> unat a + unat b" for a :: "'a::len word"
  by (auto simp: checked_add_w_def)

lemma checked_sub_w_Some:
  "checked_sub_w a b = Some c \<longleftrightarrow> unat b \<le> unat a \<and> unat c = unat a - unat b"
  by (auto simp: checked_sub_w_def word_le_nat_alt unat_sub word_unat_eq_iff)

lemma checked_sub_w_None: "checked_sub_w a b = None \<longleftrightarrow> unat a < unat b"
  by (auto simp: checked_sub_w_def word_le_nat_alt)

lemma checked_mul_w_Some:
  "checked_mul_w a b = Some c \<longleftrightarrow> unat c = unat a * unat b" for a :: "'a::len word"
proof (cases "unat a * unat b < 2 ^ LENGTH('a)")
  case True
  then show ?thesis by (auto simp: checked_mul_w_def word_unat_eq_iff unat_word_ariths)
next
  case False
  then have "unat c \<noteq> unat a * unat b" using unat_less_pow [of c] by linarith
  with False show ?thesis by (simp add: checked_mul_w_def)
qed

lemma checked_mul_w_None:
  "checked_mul_w a b = None \<longleftrightarrow> 2 ^ LENGTH('a) \<le> unat a * unat b" for a :: "'a::len word"
  by (auto simp: checked_mul_w_def)

lemmas checked_iffs = checked_add_w_Some checked_add_w_None checked_sub_w_Some checked_sub_w_None
  checked_mul_w_Some checked_mul_w_None

text \<open>The ceiling of a quotient, over the natural numbers.\<close>

definition ceil_div :: "nat \<Rightarrow> nat \<Rightarrow> nat" where
  "ceil_div a b = (if a mod b = 0 then a div b else a div b + 1)"

lemma unat_div_ceil [unats]:
  assumes "1 < unat b \<or> unat a mod unat b = 0"
  shows "unat (div_ceil a b) = ceil_div (unat a) (unat b)"
proof (cases "unat a mod unat b = 0")
  case True
  then show ?thesis
    by (simp add: div_ceil_def ceil_div_def Let_def word_less_nat_alt unats)
next
  case False
  then have b: "1 < unat b" and a: "0 < unat a" using assms by (auto intro: gr0I)
  have "unat a div unat b < unat a" using a b by simp
  moreover have "unat a < 2 ^ LENGTH('a)" by (rule unat_less_pow)
  ultimately have "unat a div unat b + 1 < 2 ^ LENGTH('a)" by linarith
  then have "unat (a div b + 1) = unat a div unat b + 1"
    by (simp add: unat_word_ariths unats)
  then show ?thesis using False
    by (simp add: div_ceil_def ceil_div_def Let_def word_less_nat_alt unats)
qed

lemma ceil_div_ge: "0 < b \<Longrightarrow> a \<le> ceil_div a b * b"
proof -
  assume b: "0 < b"
  have e: "a div b * b + a mod b = a" by (rule div_mult_mod_eq)
  have m: "a mod b < b" using b by simp
  show "a \<le> ceil_div a b * b"
  proof (cases "a mod b = 0")
    case True
    with e show ?thesis by (simp add: ceil_div_def)
  next
    case False
    then have "ceil_div a b * b = a div b * b + b" by (simp add: ceil_div_def)
    with e m show ?thesis by linarith
  qed
qed

lemma ceil_div_least: "0 < b \<Longrightarrow> a \<le> n * b \<Longrightarrow> ceil_div a b \<le> n"
proof -
  assume b: "0 < b" and le: "a \<le> n * b"
  have d: "a div b \<le> n" using le b div_le_mono [of a "n * b" b] by simp
  show "ceil_div a b \<le> n"
  proof (cases "a mod b = 0")
    case True
    with d show ?thesis by (simp add: ceil_div_def)
  next
    case False
    have "a div b * b + a mod b \<le> n * b" using le by simp
    with False have "a div b * b < n * b" by linarith
    then have "a div b < n" by simp
    with False show ?thesis by (simp add: ceil_div_def)
  qed
qed

lemma ceil_div_mono: "0 < c \<Longrightarrow> a \<le> b \<Longrightarrow> ceil_div a c \<le> ceil_div b c"
  by (rule ceil_div_least) (use ceil_div_ge [of c b] in auto)

section \<open>Lists\<close>

lemma sum_list_mset_cong:
  assumes "mset xs = mset ys"
  shows "(\<Sum>x\<leftarrow>xs. f x) = (\<Sum>x\<leftarrow>ys. (f x :: nat))"
proof -
  have "mset (map f xs) = mset (map f ys)" using assms by simp
  then have "sum_mset (mset (map f xs)) = sum_mset (mset (map f ys))" by simp
  then show ?thesis by (simp only: sum_mset_sum_list)
qed

lemma sum_list_partition:
  "(\<Sum>x\<leftarrow>filter P xs. f x) + (\<Sum>x\<leftarrow>filter (\<lambda>x. \<not> P x) xs. f x) = (\<Sum>x\<leftarrow>xs. (f x :: nat))"
  by (induction xs) auto

lemma unat_Suc_word: "(x :: 'a::len word) \<noteq> - 1 \<Longrightarrow> unat (x + 1) = unat x + 1"
proof -
  assume "x \<noteq> - 1"
  then have "unat x \<noteq> 2 ^ LENGTH('a) - 1" by (metis unat_max_word word_unat_eq_iff)
  then have "unat x + 1 < 2 ^ LENGTH('a)" using unat_le_max [of x] unat_less_pow [of x] by linarith
  then show ?thesis by (simp add: unat_word_ariths)
qed

lemma subseq_distinct: "subseq xs ys \<Longrightarrow> distinct ys \<Longrightarrow> distinct xs"
  by (induction xs ys rule: list_emb.induct) (auto dest: list_emb_set)

end
