(* ===== verification/Susi_Strings.thy ===== *)
theory Susi_Strings
  imports Susi_Prelude
begin

text \<open>
  Rust's \<open>str\<close> as the list of its UTF-8 bytes. The functions are those of the standard library
  that the modelled sources call, each named after its Rust counterpart. Whitespace is Unicode's
  \<open>White_Space\<close> property, as in \<open>str::trim\<close>, so the multi-byte encodings are listed too.
\<close>

section \<open>ASCII classes\<close>

definition is_ascii_digit :: "char \<Rightarrow> bool" where
  "is_ascii_digit c \<longleftrightarrow> 48 \<le> (of_char c :: nat) \<and> (of_char c :: nat) \<le> 57"

definition is_ascii_upper :: "char \<Rightarrow> bool" where
  "is_ascii_upper c \<longleftrightarrow> 65 \<le> (of_char c :: nat) \<and> (of_char c :: nat) \<le> 90"

definition is_ascii_lower :: "char \<Rightarrow> bool" where
  "is_ascii_lower c \<longleftrightarrow> 97 \<le> (of_char c :: nat) \<and> (of_char c :: nat) \<le> 122"

definition is_ascii_whitespace :: "char \<Rightarrow> bool" where
  "is_ascii_whitespace c = ((of_char c :: nat) \<in> {9, 10, 12, 13, 32})"

definition is_ascii_alphanumeric :: "char \<Rightarrow> bool" where
  "is_ascii_alphanumeric c \<longleftrightarrow> is_ascii_digit c \<or> is_ascii_upper c \<or> is_ascii_lower c"

definition is_ascii_hexdigit :: "char \<Rightarrow> bool" where
  "is_ascii_hexdigit c \<longleftrightarrow> is_ascii_digit c
     \<or> (65 \<le> (of_char c :: nat) \<and> (of_char c :: nat) \<le> 70)
     \<or> (97 \<le> (of_char c :: nat) \<and> (of_char c :: nat) \<le> 102)"

definition to_ascii_lower_char :: "char \<Rightarrow> char" where
  "to_ascii_lower_char c = (if is_ascii_upper c then char_of (of_char c + 32 :: nat) else c)"

definition to_ascii_lowercase :: "string \<Rightarrow> string" where
  "to_ascii_lowercase = map to_ascii_lower_char"

definition eq_ignore_ascii_case :: "string \<Rightarrow> string \<Rightarrow> bool" where
  "eq_ignore_ascii_case a b \<longleftrightarrow> to_ascii_lowercase a = to_ascii_lowercase b"

definition is_ascii_graphic :: "char \<Rightarrow> bool" where
  "is_ascii_graphic c \<longleftrightarrow> 33 \<le> (of_char c :: nat) \<and> (of_char c :: nat) \<le> 126"

lemma of_char_to_lower:
  "of_char (to_ascii_lower_char c) = (if is_ascii_upper c then of_char c + 32 else (of_char c :: nat))"
  by (auto simp: to_ascii_lower_char_def is_ascii_upper_def)

lemma to_ascii_lower_char_idem [simp]:
  "to_ascii_lower_char (to_ascii_lower_char c) = to_ascii_lower_char c"
proof -
  have "\<not> is_ascii_upper (to_ascii_lower_char c)"
    using of_char_to_lower [of c] by (auto simp: is_ascii_upper_def split: if_splits)
  then show ?thesis by (simp add: to_ascii_lower_char_def [of "to_ascii_lower_char c"])
qed

lemma to_ascii_lowercase_idem [simp]:
  "to_ascii_lowercase (to_ascii_lowercase s) = to_ascii_lowercase s"
  by (simp add: to_ascii_lowercase_def)

lemma to_ascii_lower_char_eq_iff:
  assumes "\<not> is_ascii_upper d" and "\<not> is_ascii_lower d"
  shows "to_ascii_lower_char c = d \<longleftrightarrow> c = d"
proof
  assume eq: "to_ascii_lower_char c = d"
  have "\<not> is_ascii_upper c"
  proof
    assume up: "is_ascii_upper c"
    then have "(of_char d :: nat) = of_char c + 32" using eq of_char_to_lower [of c] by simp
    with up have "is_ascii_lower d" by (simp add: is_ascii_upper_def is_ascii_lower_def)
    with assms(2) show False ..
  qed
  with eq show "c = d" by (simp add: to_ascii_lower_char_def)
next
  assume "c = d"
  with assms(1) show "to_ascii_lower_char c = d" by (simp add: to_ascii_lower_char_def)
qed

section \<open>Trimming\<close>

definition ws_seqs :: "string list" where
  "ws_seqs = map (map char_of)
    [[9], [10], [11], [12], [13], [32 :: nat],
     [194, 133], [194, 160], [225, 154, 128],
     [226, 128, 128], [226, 128, 129], [226, 128, 130], [226, 128, 131], [226, 128, 132],
     [226, 128, 133], [226, 128, 134], [226, 128, 135], [226, 128, 136], [226, 128, 137],
     [226, 128, 138], [226, 128, 168], [226, 128, 169], [226, 128, 175], [226, 129, 159],
     [227, 128, 128]]"

function drop_seqs :: "string list \<Rightarrow> string \<Rightarrow> string" where
  "drop_seqs ws s =
     (case find (\<lambda>w. w \<noteq> [] \<and> prefix w s) ws of
        None \<Rightarrow> s
      | Some w \<Rightarrow> drop_seqs ws (drop (length w) s))"
  by pat_completeness auto
termination
  by (relation "measure (\<lambda>(ws, s). length s)") (auto simp: find_Some_iff prefix_def)

declare drop_seqs.simps [simp del]

definition trim_start :: "string \<Rightarrow> string" where
  "trim_start = drop_seqs ws_seqs"

definition trim_end :: "string \<Rightarrow> string" where
  "trim_end s = rev (drop_seqs (map rev ws_seqs) (rev s))"

definition trim :: "string \<Rightarrow> string" where
  "trim s = trim_end (trim_start s)"

text \<open>\<open>s.trim().is_empty()\<close>, the blank test of the validators.\<close>

definition blank :: "string \<Rightarrow> bool" where
  "blank s \<longleftrightarrow> trim s = []"

lemma drop_seqs_suffix: "suffix (drop_seqs ws s) s"
proof (induction ws s rule: drop_seqs.induct)
  case (1 ws s)
  show ?case
  proof (cases "find (\<lambda>w. w \<noteq> [] \<and> prefix w s) ws")
    case None
    then show ?thesis by (subst drop_seqs.simps) simp
  next
    case (Some w)
    then have "suffix (drop_seqs ws (drop (length w) s)) (drop (length w) s)" by (rule "1.IH")
    then have "suffix (drop_seqs ws (drop (length w) s)) s"
      using suffix_drop suffix_order.trans by blast
    with Some show ?thesis by (subst drop_seqs.simps) simp
  qed
qed

lemma drop_seqs_id: "(\<And>w. w \<in> set ws \<Longrightarrow> w \<noteq> [] \<Longrightarrow> \<not> prefix w s) \<Longrightarrow> drop_seqs ws s = s"
  by (subst drop_seqs.simps) (auto simp: find_None_iff split: option.splits dest!: find_Some_iff [THEN iffD1] nth_mem)

lemma ws_seqs_first: "w \<in> set ws_seqs \<Longrightarrow> w \<noteq> [] \<and> \<not> is_ascii_graphic (hd w)"
  by (auto simp: ws_seqs_def is_ascii_graphic_def)

lemma ws_seqs_last: "w \<in> set ws_seqs \<Longrightarrow> w \<noteq> [] \<and> \<not> is_ascii_graphic (last w)"
  by (auto simp: ws_seqs_def is_ascii_graphic_def)

lemma trim_start_graphic: "s = [] \<or> is_ascii_graphic (hd s) \<Longrightarrow> trim_start s = s"
  unfolding trim_start_def
  by (rule drop_seqs_id) (auto simp: prefix_def dest!: ws_seqs_first)

lemma trim_end_graphic: "s = [] \<or> is_ascii_graphic (last s) \<Longrightarrow> trim_end s = s"
proof -
  assume a: "s = [] \<or> is_ascii_graphic (last s)"
  have "drop_seqs (map rev ws_seqs) (rev s) = rev s"
  proof (rule drop_seqs_id)
    fix w assume "w \<in> set (map rev ws_seqs)" and ne: "w \<noteq> []"
    then have w: "\<not> is_ascii_graphic (hd w)"
      using ws_seqs_last by (auto simp: hd_rev)
    show "\<not> prefix w (rev s)"
    proof
      assume "prefix w (rev s)"
      then have "rev s \<noteq> []" and "hd (rev s) = hd w" using ne by (auto simp: prefix_def)
      with a w show False by (auto simp: hd_rev)
    qed
  qed
  then show ?thesis by (simp add: trim_end_def)
qed

text \<open>Text that starts and ends with a printing ASCII byte is already trimmed.\<close>

lemma trim_graphic: "s = [] \<or> is_ascii_graphic (hd s) \<and> is_ascii_graphic (last s) \<Longrightarrow> trim s = s"
  by (auto simp: trim_def trim_start_graphic trim_end_graphic)

lemma digit_graphic: "is_ascii_digit c \<Longrightarrow> is_ascii_graphic c"
  by (simp add: is_ascii_digit_def is_ascii_graphic_def)

section \<open>Splitting and joining\<close>

fun split_once :: "char \<Rightarrow> string \<Rightarrow> (string \<times> string) option" where
  "split_once c [] = None"
| "split_once c (x # xs) =
     (if x = c then Some ([], xs)
      else case split_once c xs of None \<Rightarrow> None | Some (a, b) \<Rightarrow> Some (x # a, b))"

lemma split_once_append: "c \<notin> set a \<Longrightarrow> split_once c (a @ c # b) = Some (a, b)"
  by (induction a) auto

lemma split_once_None: "split_once c s = None \<longleftrightarrow> c \<notin> set s"
  by (induction s) (auto split: option.splits)

lemma split_once_Some: "split_once c s = Some (a, b) \<Longrightarrow> s = a @ c # b \<and> c \<notin> set a"
  by (induction s arbitrary: a) (auto split: if_splits option.splits)

fun split_on :: "char \<Rightarrow> string \<Rightarrow> string list" where
  "split_on c [] = [[]]"
| "split_on c (x # xs) =
     (if x = c then [] # split_on c xs
      else case split_on c xs of [] \<Rightarrow> [[x]] | p # ps \<Rightarrow> (x # p) # ps)"

fun join :: "string \<Rightarrow> string list \<Rightarrow> string" where
  "join sep [] = []"
| "join sep [p] = p"
| "join sep (p # q # ps) = p @ sep @ join sep (q # ps)"

lemma split_on_ne: "split_on c s \<noteq> []"
  by (induction s) (auto split: list.splits)

lemma split_on_no_sep: "p \<in> set (split_on c s) \<Longrightarrow> c \<notin> set p"
  by (induction s arbitrary: p) (auto split: if_splits list.splits)

lemma join_Cons: "ps \<noteq> [] \<Longrightarrow> join sep (p # ps) = p @ sep @ join sep ps"
  by (cases ps) auto

lemma split_on_plain: "c \<notin> set p \<Longrightarrow> split_on c p = [p]"
  by (induction p) auto

lemma split_on_sep: "c \<notin> set p \<Longrightarrow> split_on c (p @ c # s) = p # split_on c s"
  by (induction p) (auto split: list.splits)

lemma split_on_join:
  assumes "ps \<noteq> []" and "\<And>p. p \<in> set ps \<Longrightarrow> c \<notin> set p"
  shows "split_on c (join [c] ps) = ps"
  using assms
proof (induction ps)
  case (Cons p ps)
  show ?case
  proof (cases "ps = []")
    case True
    with Cons.prems show ?thesis by (simp add: split_on_plain)
  next
    case False
    with Cons have "split_on c (join [c] ps) = ps" and "c \<notin> set p" by auto
    with False show ?thesis by (simp add: join_Cons split_on_sep)
  qed
qed simp

lemma split_on_append_sep: "split_on c (a @ c # b) = split_on c a @ split_on c b"
proof (induction a)
  case (Cons x a)
  then show ?case using split_on_ne [of c a] by (auto split: list.splits)
qed simp

lemma join_split: "join [c] (split_on c s) = s"
proof (induction s)
  case (Cons x s)
  obtain q qs where q: "split_on c s = q # qs" using split_on_ne by (metis neq_Nil_conv)
  then show ?case using Cons by (cases qs) auto
qed simp

lemma join_append: "ps \<noteq> [] \<Longrightarrow> qs \<noteq> [] \<Longrightarrow> join sep (ps @ qs) = join sep ps @ sep @ join sep qs"
proof (induction ps)
  case (Cons p ps)
  then show ?case by (cases "ps = []") (auto simp: join_Cons)
qed simp

definition replace_char :: "char \<Rightarrow> char \<Rightarrow> string \<Rightarrow> string" where
  "replace_char a b = map (\<lambda>c. if c = a then b else c)"

definition strip_prefix :: "string \<Rightarrow> string \<Rightarrow> string option" where
  "strip_prefix p s = (if prefix p s then Some (drop (length p) s) else None)"

lemma strip_prefix_Some: "strip_prefix p s = Some r \<longleftrightarrow> s = p @ r"
  by (auto simp: strip_prefix_def prefix_def)

text \<open>\<open>split_whitespace\<close> on text whose only whitespace is the blank.\<close>

definition split_blanks :: "string \<Rightarrow> string list" where
  "split_blanks s = filter (\<lambda>w. w \<noteq> []) (split_on CHR '' '' s)"

section \<open>Decimal numbers\<close>

definition digit_val :: "char \<Rightarrow> nat" where
  "digit_val c = of_char c - 48"

definition dec_val :: "string \<Rightarrow> nat" where
  "dec_val s = foldl (\<lambda>v c. v * 10 + digit_val c) 0 s"

text \<open>\<open>str::parse::<u64>\<close>: an optional \<open>+\<close>, then at least one digit, no overflow.\<close>

definition parse_u64 :: "string \<Rightarrow> u64 option" where
  "parse_u64 s =
     (let d = (if s \<noteq> [] \<and> hd s = CHR ''+'' then tl s else s)
      in if d \<noteq> [] \<and> list_all is_ascii_digit d \<and> dec_val d < 2 ^ 64
         then Some (of_nat (dec_val d)) else None)"

definition digit_char :: "nat \<Rightarrow> char" where
  "digit_char d = char_of (48 + d)"

fun show_nat :: "nat \<Rightarrow> string" where
  "show_nat n = (if n < 10 then [digit_char n] else show_nat (n div 10) @ [digit_char (n mod 10)])"

declare show_nat.simps [simp del]

lemma dec_val_Nil [simp]: "dec_val [] = 0"
  by (simp add: dec_val_def)

lemma dec_val_snoc [simp]: "dec_val (s @ [c]) = dec_val s * 10 + digit_val c"
  by (simp add: dec_val_def)

lemma dec_val_append: "dec_val (a @ b) = dec_val a * 10 ^ length b + dec_val b"
proof (induction b rule: rev_induct)
  case (snoc c b)
  have "dec_val (a @ b @ [c]) = dec_val (a @ b) * 10 + digit_val c"
    using dec_val_snoc [of "a @ b" c] by simp
  with snoc show ?case by (simp add: algebra_simps)
qed simp

lemma dec_val_zeros: "dec_val (replicate n CHR ''0'') = 0"
proof (induction n)
  case (Suc n)
  have "replicate (Suc n) CHR ''0'' = replicate n CHR ''0'' @ [CHR ''0'']"
    by (simp add: replicate_append_same)
  with Suc show ?case by (simp add: digit_val_def del: replicate_Suc)
qed simp

lemma of_char_digit_char: "d < 10 \<Longrightarrow> (of_char (digit_char d) :: nat) = 48 + d"
  by (simp add: digit_char_def)

lemma digit_val_digit_char: "d < 10 \<Longrightarrow> digit_val (digit_char d) = d"
  by (simp add: digit_val_def of_char_digit_char)

lemma is_digit_digit_char: "d < 10 \<Longrightarrow> is_ascii_digit (digit_char d)"
  by (simp add: is_ascii_digit_def of_char_digit_char)

lemma digit_val_less: "is_ascii_digit c \<Longrightarrow> digit_val c < 10"
  by (auto simp: is_ascii_digit_def digit_val_def)

lemma dec_val_bound: "list_all is_ascii_digit s \<Longrightarrow> dec_val s < 10 ^ length s"
proof (induction s rule: rev_induct)
  case (snoc c s)
  then have "dec_val s < 10 ^ length s" and "digit_val c < 10" by (auto simp: digit_val_less)
  then show ?case by simp
qed simp

lemma show_nat_props: "show_nat n \<noteq> [] \<and> list_all is_ascii_digit (show_nat n) \<and> dec_val (show_nat n) = n"
proof (induction n rule: show_nat.induct)
  case (1 n)
  show ?case
  proof (cases "n < 10")
    case True
    then show ?thesis
      using dec_val_snoc [of "[]" "digit_char n"]
      by (simp add: show_nat.simps [of n] is_digit_digit_char digit_val_digit_char)
  next
    case False
    with "1.IH" show ?thesis
      by (simp add: show_nat.simps [of n] is_digit_digit_char digit_val_digit_char)
  qed
qed

lemma show_nat_length: "n < 10 ^ k \<Longrightarrow> 0 < k \<Longrightarrow> length (show_nat n) \<le> k"
proof (induction n arbitrary: k rule: show_nat.induct)
  case (1 n)
  show ?case
  proof (cases "n < 10")
    case True
    with 1 show ?thesis by (simp add: show_nat.simps [of n])
  next
    case False
    obtain j where k: "k = Suc j" using "1.prems" by (cases k) auto
    have "0 < j" using "1.prems"(1) False k by (cases j) auto
    note j = k this
    then have "n div 10 < 10 ^ j" using "1.prems" by (simp add: less_mult_imp_div_less mult.commute)
    with "1.IH" False j show ?thesis by (simp add: show_nat.simps [of n])
  qed
qed

lemma parse_u64_digits:
  assumes "d \<noteq> []" and "list_all is_ascii_digit d"
  shows "parse_u64 d = (if dec_val d < 2 ^ 64 then Some (of_nat (dec_val d)) else None)"
proof -
  have "is_ascii_digit (hd d)" using assms by (cases d) auto
  then have "hd d \<noteq> CHR ''+''" by (auto simp: is_ascii_digit_def)
  with assms show ?thesis by (simp add: parse_u64_def)
qed

text \<open>A byte that continues a UTF-8 sequence.\<close>

definition is_continuation :: "char \<Rightarrow> bool" where
  "is_continuation c = (128 \<le> (of_char c :: nat) \<and> (of_char c :: nat) < 192)"

text \<open>\<open>hex::encode\<close>: two lower-case digits for each byte.\<close>

definition hex_digit :: "nat \<Rightarrow> char" where
  "hex_digit n = (if n < 10 then char_of (48 + n) else char_of (87 + n))"

definition hex_encode :: "string \<Rightarrow> string" where
  "hex_encode s = concat (map (\<lambda>b. [hex_digit (of_char b div 16), hex_digit (of_char b mod 16)]) s)"

lemma hex_digit_inj: "m < 16 \<Longrightarrow> n < 16 \<Longrightarrow> hex_digit m = hex_digit n \<Longrightarrow> m = n"
proof -
  have "\<forall>m \<in> set [0..<16]. \<forall>n \<in> set [0..<16]. hex_digit m = hex_digit n \<longrightarrow> m = n" by code_simp
  then show "m < 16 \<Longrightarrow> n < 16 \<Longrightarrow> hex_digit m = hex_digit n \<Longrightarrow> m = n" by simp
qed

lemma byte_less: "(of_char c :: nat) < 256"
  by (metis mod_less_divisor of_char_mod_256 zero_less_numeral)

lemma byte_halves: "(of_char c :: nat) div 16 < 16" "(of_char c :: nat) mod 16 < 16"
  using byte_less [of c] by (simp_all add: div_less_iff_less_mult)

lemma hex_encode_inj: "hex_encode s = hex_encode t \<Longrightarrow> s = t"
proof (induction s arbitrary: t)
  case Nil
  then show ?case by (cases t) (simp_all add: hex_encode_def)
next
  case (Cons a s)
  then obtain b u where t: "t = b # u" by (cases t) (auto simp: hex_encode_def)
  with Cons.prems have h: "hex_digit (of_char a div 16) = hex_digit (of_char b div 16)" "hex_digit (of_char a mod 16) = hex_digit (of_char b mod 16)"
    and rest: "hex_encode s = hex_encode u" by (simp_all add: hex_encode_def)
  then have "(of_char a :: nat) = of_char b"
    using hex_digit_inj byte_halves by (metis div_mult_mod_eq)
  then have "a = b" by (simp add: of_char_eq_iff)
  with Cons.IH [OF rest] t show ?case by simp
qed

end
