(* ===== verification/Money.thy ===== *)
theory Money
  imports Susi_Strings
begin

text \<open>
  \<open>crates/susi-harness/src/money.rs\<close>: amounts of money in micro-USD, a \<open>u64\<close> behind a newtype.
  \<open>usd\<close> reads an amount as a natural number; the lemmas in \<open>money\<close> describe every operation
  through it. The theory proves that decimal printing and parsing agree and that parsing is exact.
\<close>

named_theorems money \<open>operations on amounts, read as natural numbers\<close>

section \<open>The type and its operations\<close>

datatype micro_usd = MicroUsd (micros: u64)

instantiation micro_usd :: linorder
begin

definition less_eq_micro_usd :: "micro_usd \<Rightarrow> micro_usd \<Rightarrow> bool" where
  "less_eq_micro_usd a b \<longleftrightarrow> micros a \<le> micros b"

definition less_micro_usd :: "micro_usd \<Rightarrow> micro_usd \<Rightarrow> bool" where
  "less_micro_usd a b \<longleftrightarrow> micros a < micros b"

instance
  by standard
    (auto simp: less_eq_micro_usd_def less_micro_usd_def intro: micro_usd.expand)

end

definition usd_zero :: micro_usd where
  "usd_zero = MicroUsd 0"

definition usd_max :: micro_usd where
  "usd_max = MicroUsd (- 1)"

definition from_micros :: "u64 \<Rightarrow> micro_usd" where
  "from_micros m = MicroUsd m"

definition is_zero :: "micro_usd \<Rightarrow> bool" where
  "is_zero a \<longleftrightarrow> micros a = 0"

definition usd_checked_add :: "micro_usd \<Rightarrow> micro_usd \<Rightarrow> micro_usd option" where
  "usd_checked_add a b = map_option MicroUsd (checked_add_w (micros a) (micros b))"

definition usd_checked_sub :: "micro_usd \<Rightarrow> micro_usd \<Rightarrow> micro_usd option" where
  "usd_checked_sub a b = map_option MicroUsd (checked_sub_w (micros a) (micros b))"

definition usd_saturating_add :: "micro_usd \<Rightarrow> micro_usd \<Rightarrow> micro_usd" where
  "usd_saturating_add a b = MicroUsd (sat_add (micros a) (micros b))"

definition usd_saturating_mul :: "micro_usd \<Rightarrow> u64 \<Rightarrow> micro_usd" where
  "usd_saturating_mul a n = MicroUsd (sat_mul (micros a) n)"

definition usd_min :: "micro_usd \<Rightarrow> micro_usd \<Rightarrow> micro_usd" where
  "usd_min a b = (if micros a < micros b then a else b)"

definition parse_usd :: "string \<Rightarrow> micro_usd option" where
  "parse_usd text0 =
     (let text = trim text0;
          (dollars, cents) = (case split_once CHR ''.'' text of Some p \<Rightarrow> p | None \<Rightarrow> (text, []))
      in if dollars = [] \<and> cents = [] then None
         else if \<not> list_all is_ascii_digit dollars \<or> \<not> list_all is_ascii_digit cents
              \<or> 6 < length cents then None
         else case (if dollars = [] then Some 0 else parse_u64 dollars) of
             None \<Rightarrow> None
           | Some d \<Rightarrow>
               let micros_text = cents @ replicate (6 - length cents) CHR ''0''
               in case parse_u64 micros_text of
                   None \<Rightarrow> None
                 | Some c \<Rightarrow>
                     (case checked_mul_w d 1000000 of
                        None \<Rightarrow> None
                      | Some m \<Rightarrow> map_option MicroUsd (checked_add_w m c)))"

definition pad_left :: "nat \<Rightarrow> string \<Rightarrow> string" where
  "pad_left n s = replicate (n - length s) CHR ''0'' @ s"

definition show_usd :: "micro_usd \<Rightarrow> string" where
  "show_usd a = ''$'' @ show_nat (unat (micros a div 1000000)) @ ''.''
     @ pad_left 6 (show_nat (unat (micros a mod 1000000)))"

section \<open>Amounts as natural numbers\<close>

definition usd :: "micro_usd \<Rightarrow> nat" where
  "usd a = unat (micros a)"

lemma usd_bound: "usd a < 2 ^ 64"
  using unat_less_pow [of "micros a"] by (simp add: usd_def)

lemma usd_eq_iff [money]: "a = b \<longleftrightarrow> usd a = usd b"
  by (cases a; cases b) (simp add: usd_def word_unat_eq_iff)

lemma usd_le_iff [money]: "a \<le> b \<longleftrightarrow> usd a \<le> usd b"
  by (simp add: less_eq_micro_usd_def usd_def word_le_nat_alt)

lemma usd_less_iff [money]: "a < b \<longleftrightarrow> usd a < usd b"
  by (simp add: less_micro_usd_def usd_def word_less_nat_alt)

lemma usd_zero [money, simp]: "usd usd_zero = 0"
  by (simp add: usd_def usd_zero_def)

lemma usd_max [money]: "usd usd_max = 2 ^ 64 - 1"
  by (simp add: usd_def usd_max_def unat_max_word)

lemma usd_checked_add_Some [money]: "usd_checked_add a b = Some c \<longleftrightarrow> usd c = usd a + usd b"
  by (cases c) (auto simp: usd_checked_add_def usd_def checked_iffs)

lemma usd_checked_add_None [money]: "usd_checked_add a b = None \<longleftrightarrow> 2 ^ 64 \<le> usd a + usd b"
  by (simp add: usd_checked_add_def usd_def checked_iffs)

lemma usd_checked_sub_Some [money]:
  "usd_checked_sub a b = Some c \<longleftrightarrow> usd b \<le> usd a \<and> usd c = usd a - usd b"
  by (cases c) (auto simp: usd_checked_sub_def usd_def checked_iffs)

lemma usd_checked_sub_None [money]: "usd_checked_sub a b = None \<longleftrightarrow> usd a < usd b"
  by (simp add: usd_checked_sub_def usd_def checked_iffs)

lemma usd_saturating_add [money]: "usd (usd_saturating_add a b) = min (usd a + usd b) (2 ^ 64 - 1)"
  by (simp add: usd_saturating_add_def usd_def unats)

lemma usd_saturating_mul [money]: "usd (usd_saturating_mul a n) = min (usd a * unat n) (2 ^ 64 - 1)"
  by (simp add: usd_saturating_mul_def usd_def unats)

lemma usd_max_ab [money]: "usd (max a b) = max (usd a) (usd b)"
  by (simp add: max_def usd_le_iff)

text \<open>\<open>a.checked_add(b).unwrap_or(MicroUsd::from_micros(u64::MAX))\<close>, the ledger's sum.\<close>

definition usd_add_or_max :: "micro_usd \<Rightarrow> micro_usd \<Rightarrow> micro_usd" where
  "usd_add_or_max a b = (case usd_checked_add a b of Some c \<Rightarrow> c | None \<Rightarrow> usd_max)"

lemma usd_add_or_max [money]: "usd (usd_add_or_max a b) = min (usd a + usd b) (2 ^ 64 - 1)"
proof (cases "usd_checked_add a b")
  case None
  then have "2 ^ 64 \<le> usd a + usd b" by (simp only: usd_checked_add_None)
  with None show ?thesis by (simp add: usd_add_or_max_def usd_max)
next
  case (Some c)
  then have "usd c = usd a + usd b" by (simp only: usd_checked_add_Some)
  with Some usd_bound [of c] show ?thesis by (simp add: usd_add_or_max_def)
qed

text \<open>\<open>a.checked_sub(b).unwrap_or(MicroUsd::ZERO)\<close>.\<close>

definition usd_sub_or_zero :: "micro_usd \<Rightarrow> micro_usd \<Rightarrow> micro_usd" where
  "usd_sub_or_zero a b = (case usd_checked_sub a b of Some c \<Rightarrow> c | None \<Rightarrow> usd_zero)"

lemma usd_sub_or_zero [money]: "usd (usd_sub_or_zero a b) = usd a - usd b"
  by (auto simp: usd_sub_or_zero_def usd_checked_sub_Some usd_checked_sub_None split: option.split)

section \<open>Parsing and printing\<close>

lemma parse_micros_text:
  assumes "list_all is_ascii_digit cents" and "length cents \<le> 6"
  shows "parse_u64 (cents @ replicate (6 - length cents) CHR ''0'') =
    Some (of_nat (dec_val cents * 10 ^ (6 - length cents)))"
proof -
  let ?t = "cents @ replicate (6 - length cents) CHR ''0''"
  have digits: "list_all is_ascii_digit ?t"
    using assms(1) by (auto simp: list_all_iff is_ascii_digit_def)
  have len: "length ?t = 6" using assms(2) by simp
  then have ne: "?t \<noteq> []" by (metis list.size(3) zero_neq_numeral)
  have val: "dec_val ?t = dec_val cents * 10 ^ (6 - length cents)"
    by (simp add: dec_val_append dec_val_zeros)
  have "dec_val ?t < 10 ^ 6" using dec_val_bound [OF digits] by (simp only: len)
  then have "dec_val ?t < 2 ^ 64" by simp
  with parse_u64_digits [OF ne digits] show ?thesis by (simp add: val)
qed

text \<open>The value a decimal dollar amount denotes, in micro-dollars.\<close>

definition dollars_value :: "string \<Rightarrow> string \<Rightarrow> nat" where
  "dollars_value dollars cents = dec_val dollars * 1000000 + dec_val cents * 10 ^ (6 - length cents)"

lemma cents_bound: "list_all is_ascii_digit cents \<Longrightarrow> length cents \<le> 6 \<Longrightarrow>
    dec_val cents * 10 ^ (6 - length cents) < 1000000"
proof -
  assume "list_all is_ascii_digit cents" and le: "length cents \<le> 6"
  then have "dec_val cents < 10 ^ length cents" by (simp add: dec_val_bound)
  then have "dec_val cents * 10 ^ (6 - length cents) < 10 ^ length cents * 10 ^ (6 - length cents)"
    by simp
  also have "\<dots> = 10 ^ 6" using le by (simp add: power_add [symmetric])
  finally show ?thesis by simp
qed

lemma parse_usd_split:
  assumes split: "(case split_once CHR ''.'' (trim text) of Some p \<Rightarrow> p | None \<Rightarrow> (trim text, [])) = (d, c)"
    and ne: "d \<noteq> [] \<or> c \<noteq> []"
    and digits: "list_all is_ascii_digit d" "list_all is_ascii_digit c" "length c \<le> 6"
  shows "parse_usd text =
    (if dollars_value d c < 2 ^ 64 then Some (MicroUsd (of_nat (dollars_value d c))) else None)"
proof -
  define C where "C = dec_val c * 10 ^ (6 - length c)"
  have C: "C < 1000000" unfolding C_def by (rule cents_bound [OF digits(2,3)])
  have uc: "unat (of_nat C :: u64) = C" by (rule unat_of_nat_less) (use C in simp)
  have total: "dollars_value d c = dec_val d * 1000000 + C" by (simp add: dollars_value_def C_def)
  have dp: "(if d = [] then Some 0 else parse_u64 d) =
      (if dec_val d < 2 ^ 64 then Some (of_nat (dec_val d)) else None)"
    using digits(1) by (auto simp: parse_u64_digits)
  have cp: "parse_u64 (c @ replicate (6 - length c) CHR ''0'') = Some (of_nat C)"
    using parse_micros_text [OF digits(2,3)] by (simp only: C_def)
  show ?thesis
  proof (cases "dec_val d < 2 ^ 64")
    case False
    then have "\<not> dollars_value d c < 2 ^ 64" by (simp add: total)
    with False show ?thesis using ne digits by (simp add: parse_usd_def split dp)
  next
    case True
    then have ud: "unat (of_nat (dec_val d) :: u64) = dec_val d" by (simp add: unat_of_nat_less)
    have eval: "parse_usd text = (case checked_mul_w (of_nat (dec_val d)) 1000000 of
        None \<Rightarrow> None | Some m \<Rightarrow> map_option MicroUsd (checked_add_w m (of_nat C)))"
      using True ne digits by (auto simp: parse_usd_def split dp cp)
    show ?thesis
    proof (cases "checked_mul_w (of_nat (dec_val d)) (1000000 :: u64)")
      case None
      then have "2 ^ 64 \<le> dec_val d * 1000000" by (simp add: checked_mul_w_None ud)
      with None eval show ?thesis by (simp add: total)
    next
      case (Some m)
      then have m: "unat m = dec_val d * 1000000" by (simp add: checked_mul_w_Some ud)
      show ?thesis
      proof (cases "dollars_value d c < 2 ^ 64")
        case True
        then have "unat (of_nat (dollars_value d c) :: u64) = dollars_value d c"
          by (simp add: unat_of_nat_less)
        then have "checked_add_w m (of_nat C) = Some (of_nat (dollars_value d c))"
          by (simp only: checked_add_w_Some m uc total)
        with True Some eval show ?thesis by simp
      next
        case False
        then have "checked_add_w m (of_nat C) = None" by (simp add: checked_add_w_None m uc total)
        with False Some eval show ?thesis by simp
      qed
    qed
  qed
qed

lemma show_nat_digits: "list_all is_ascii_digit (show_nat n)"
  using show_nat_props [of n] by simp

lemma digits_no_dot: "list_all is_ascii_digit s \<Longrightarrow> CHR ''.'' \<notin> set s"
  by (auto simp: list_all_iff is_ascii_digit_def)

lemma digits_graphic_ends:
  assumes "list_all is_ascii_digit d" "list_all is_ascii_digit c" "d \<noteq> []" "c \<noteq> []"
  shows "trim (d @ ''.'' @ c) = d @ ''.'' @ c"
proof -
  have "is_ascii_digit (hd d)" "is_ascii_digit (last c)"
    using assms by (auto simp: list_all_iff)
  then show ?thesis using assms(3,4)
    by (intro trim_graphic) (auto simp: digit_graphic)
qed

lemma pad_left_props:
  assumes "n < 10 ^ k" and "0 < k"
  shows "length (pad_left k (show_nat n)) = k" "list_all is_ascii_digit (pad_left k (show_nat n))"
    "dec_val (pad_left k (show_nat n)) = n"
proof -
  have "length (show_nat n) \<le> k" using assms by (rule show_nat_length)
  then show "length (pad_left k (show_nat n)) = k" by (simp add: pad_left_def)
  show "list_all is_ascii_digit (pad_left k (show_nat n))"
    using show_nat_digits [of n] by (auto simp: pad_left_def list_all_iff is_ascii_digit_def)
  show "dec_val (pad_left k (show_nat n)) = n"
    using show_nat_props [of n] by (simp add: pad_left_def dec_val_append dec_val_zeros)
qed

text \<open>Round trip: an amount printed by \<open>Display\<close> (as \<open>$d.cccccc\<close>), with the dollar sign
  dropped, parses back to the same amount, for every \<open>u64\<close>.\<close>

theorem parse_usd_show_usd: "parse_usd (tl (show_usd a)) = Some a"
proof -
  let ?q = "unat (micros a) div 1000000" and ?r = "unat (micros a) mod 1000000"
  let ?d = "show_nat ?q" and ?c = "pad_left 6 (show_nat ?r)"
  have shown: "tl (show_usd a) = ?d @ ''.'' @ ?c" by (simp add: show_usd_def unats)
  have d: "?d \<noteq> []" "list_all is_ascii_digit ?d" "dec_val ?d = ?q"
    using show_nat_props [of ?q] by auto
  have c: "length ?c = 6" "list_all is_ascii_digit ?c" "dec_val ?c = ?r"
    by (rule pad_left_props; simp)+
  then have "?c \<noteq> []" by auto
  then have "trim (?d @ ''.'' @ ?c) = ?d @ ''.'' @ ?c"
    using d c by (intro digits_graphic_ends)
  moreover have "split_once CHR ''.'' (?d @ ''.'' @ ?c) = Some (?d, ?c)"
    using split_once_append [OF digits_no_dot [OF d(2)], of ?c] by simp
  moreover have "dollars_value ?d ?c = unat (micros a)" by (simp add: dollars_value_def d c)
  ultimately have "parse_usd (?d @ ''.'' @ ?c) = Some (MicroUsd (of_nat (unat (micros a))))"
    using parse_usd_split [of "?d @ ''.'' @ ?c" ?d ?c] d c unat_less_pow [of "micros a"] by simp
  then show ?thesis by (simp add: shown)
qed

text \<open>Parsing is exact: what \<open>parse_usd\<close> accepts is a decimal with at most six places, and the
  amount it returns is that decimal in micro-dollars, neither rounded nor wrapped.\<close>

theorem parse_usd_exact:
  assumes "parse_usd text = Some a"
  shows "\<exists>d c. (trim text = d \<and> c = [] \<or> trim text = d @ ''.'' @ c)
    \<and> list_all is_ascii_digit (d @ c) \<and> d @ c \<noteq> [] \<and> length c \<le> 6
    \<and> usd a * 10 ^ length c = dec_val (d @ c) * 10 ^ 6"
proof -
  obtain d c where split:
      "(case split_once CHR ''.'' (trim text) of Some p \<Rightarrow> p | None \<Rightarrow> (trim text, [])) = (d, c)"
    by fastforce
  have shape: "trim text = d \<and> c = [] \<or> trim text = d @ ''.'' @ c"
    using split by (auto split: option.splits dest: split_once_Some)
  have ok: "\<not> (d = [] \<and> c = [])" "list_all is_ascii_digit d" "list_all is_ascii_digit c" "length c \<le> 6"
    using assms by (auto simp: parse_usd_def split not_less split: if_splits)
  then have "parse_usd text =
      (if dollars_value d c < 2 ^ 64 then Some (MicroUsd (of_nat (dollars_value d c))) else None)"
    by (intro parse_usd_split [OF split]) auto
  with assms have "dollars_value d c < 2 ^ 64" "a = MicroUsd (of_nat (dollars_value d c))"
    by (auto split: if_splits)
  then have a: "usd a = dollars_value d c" by (simp add: usd_def unat_of_nat_less)
  have "10 ^ (6 - length c) * 10 ^ length c = (10 :: nat) ^ 6"
    using ok(4) by (simp add: power_add [symmetric])
  then have "dec_val c * 10 ^ (6 - length c) * 10 ^ length c = dec_val c * 10 ^ 6"
    by (metis mult.assoc)
  then have "usd a * 10 ^ length c = dec_val (d @ c) * 10 ^ 6"
    by (simp add: a dollars_value_def dec_val_append algebra_simps)
  with shape ok show ?thesis by (intro exI [of _ d] exI [of _ c]) auto
qed

theorem parse_usd_exact_witness:
  "parse_usd ''0.25'' = Some (MicroUsd 250000)
    \<and> (\<exists>d c. (trim ''0.25'' = d \<and> c = [] \<or> trim ''0.25'' = d @ ''.'' @ c)
      \<and> list_all is_ascii_digit (d @ c) \<and> d @ c \<noteq> [] \<and> length c \<le> 6
      \<and> usd (MicroUsd 250000) * 10 ^ length c = dec_val (d @ c) * 10 ^ 6)"
proof -
  have "trim ''0.25'' = ''0.25''" by (rule trim_graphic) (simp add: is_ascii_graphic_def)
  then have "parse_usd ''0.25'' = Some (MicroUsd 250000)"
    using parse_usd_split [of "''0.25''" "''0''" "''25''"]
    by (simp add: dollars_value_def dec_val_def digit_val_def is_ascii_digit_def)
  then show ?thesis using parse_usd_exact [of "''0.25''" "MicroUsd 250000"] by blast
qed

end
