(* ===== verification/Pricing.thy ===== *)
theory Pricing
  imports Money
begin

text \<open>
  \<open>crates/susi-harness/src/pricing.rs\<close>: token usage and the cost of a call. The product sum is
  computed in \<open>u128\<close> and wraps there, as the release profile (which has no overflow checks) does.
  \<open>exact_price\<close> is the sum over the natural numbers that the code means to compute.
\<close>

definition TOKENS_PER_PRICE_UNIT :: u64 where
  "TOKENS_PER_PRICE_UNIT = 1000000"

record token_usage =
  tu_input :: u64
  tu_cache_hit :: u64
  tu_output :: u64

record model_price =
  mp_input_miss :: micro_usd
  mp_input_hit :: micro_usd
  mp_output :: micro_usd

definition token_usage_new :: "u64 \<Rightarrow> u64 \<Rightarrow> u64 \<Rightarrow> token_usage" where
  "token_usage_new inp hit out =
     (let hit' = (if inp < hit then inp else hit)
      in \<lparr>tu_input = inp, tu_cache_hit = hit', tu_output = out\<rparr>)"

definition cache_miss :: "token_usage \<Rightarrow> u64" where
  "cache_miss u = sat_sub (tu_input u) (tu_cache_hit u)"

definition tokens_total :: "token_usage \<Rightarrow> u64" where
  "tokens_total u = sat_add (tu_input u) (tu_output u)"

definition cost :: "model_price \<Rightarrow> token_usage \<Rightarrow> micro_usd" where
  "cost p u =
     (let miss = ucast (cache_miss u) :: u128;
          hit = ucast (min (tu_cache_hit u) (tu_input u)) :: u128;
          out = ucast (tu_output u) :: u128;
          priced = miss * ucast (micros (mp_input_miss p))
                 + hit * ucast (micros (mp_input_hit p))
                 + out * ucast (micros (mp_output p));
          rounded = div_ceil priced (ucast TOKENS_PER_PRICE_UNIT)
      in from_micros (clamp_to rounded))"

section \<open>The exact price\<close>

definition exact_price :: "model_price \<Rightarrow> token_usage \<Rightarrow> nat" where
  "exact_price p u =
     (let hit = min (unat (tu_cache_hit u)) (unat (tu_input u))
      in (unat (tu_input u) - hit) * usd (mp_input_miss p)
         + hit * usd (mp_input_hit p) + unat (tu_output u) * usd (mp_output p))"

lemma unat_ucast_64_128 [unats]: "unat (ucast (x :: u64) :: u128) = unat x"
proof -
  have "unat x < 2 ^ 128" using unat_less_pow [of x] by simp
  then show ?thesis by (simp add: unsigned_ucast_eq take_bit_nat_eq_self)
qed

lemma unat_mult_64_128: "unat (ucast x * ucast y :: u128) = unat x * unat y" for x y :: u64
proof -
  have "unat x * unat y < 2 ^ 64 * 2 ^ 64"
    by (rule mult_strict_mono) (use unat_less_pow [of x] unat_less_pow [of y] in auto)
  then show ?thesis by (simp add: unat_word_ariths unats)
qed

lemma cost_exact_lemma:
  assumes "exact_price p u < 2 ^ 128"
  shows "usd (cost p u) = min (ceil_div (exact_price p u) 1000000) (2 ^ 64 - 1)"
proof -
  let ?m = "ucast (cache_miss u) * ucast (micros (mp_input_miss p)) :: u128"
  let ?h = "ucast (min (tu_cache_hit u) (tu_input u)) * ucast (micros (mp_input_hit p)) :: u128"
  let ?o = "ucast (tu_output u) * ucast (micros (mp_output p)) :: u128"
  have miss: "unat (cache_miss u) = unat (tu_input u) - min (unat (tu_cache_hit u)) (unat (tu_input u))"
    by (simp add: cache_miss_def unats)
  have sum: "unat ?m + unat ?h + unat ?o = exact_price p u"
    by (simp add: unat_mult_64_128 exact_price_def usd_def miss unats Let_def)
  have "unat (?m + ?h) = unat ?m + unat ?h"
    using assms sum by (simp add: unat_word_ariths(1))
  then have priced: "unat (?m + ?h + ?o) = exact_price p u"
    using assms sum by (simp add: unat_word_ariths(1))
  have unit: "unat (ucast TOKENS_PER_PRICE_UNIT :: u128) = 1000000"
    by (simp add: TOKENS_PER_PRICE_UNIT_def)
  have "unat (div_ceil (?m + ?h + ?o) (ucast TOKENS_PER_PRICE_UNIT)) =
      ceil_div (unat (?m + ?h + ?o)) (unat (ucast TOKENS_PER_PRICE_UNIT :: u128))"
    by (rule unat_div_ceil) (simp only: unit, simp)
  then show ?thesis
    unfolding cost_def Let_def from_micros_def usd_def micro_usd.sel unat_clamp_to
    by (simp only: priced unit) simp
qed

text \<open>Token counts below \<open>2 ^ 63\<close> never overflow the \<open>u128\<close> sum.\<close>

lemma exact_price_fits:
  assumes "unat (tu_input u) < 2 ^ 63" "unat (tu_output u) < 2 ^ 63"
  shows "exact_price p u < 2 ^ 128"
proof -
  let ?h = "min (unat (tu_cache_hit u)) (unat (tu_input u))"
  have "(unat (tu_input u) - ?h) * usd (mp_input_miss p) + ?h * usd (mp_input_hit p)
      \<le> (unat (tu_input u) - ?h) * 2 ^ 64 + ?h * 2 ^ 64"
    by (intro add_mono mult_left_mono less_imp_le [OF usd_bound]) auto
  also have "\<dots> = unat (tu_input u) * 2 ^ 64"
    by (metis add_mult_distrib le_add_diff_inverse2 min.cobounded2)
  finally have a: "(unat (tu_input u) - ?h) * usd (mp_input_miss p) + ?h * usd (mp_input_hit p)
      \<le> unat (tu_input u) * 2 ^ 64" .
  have b: "unat (tu_output u) * usd (mp_output p) \<le> unat (tu_output u) * 2 ^ 64"
    by (intro mult_left_mono less_imp_le [OF usd_bound]) auto
  have c: "unat (tu_input u) * 2 ^ 64 + unat (tu_output u) * 2 ^ 64 < 2 ^ 128"
    using assms by simp
  show ?thesis unfolding exact_price_def Let_def using a b c by linarith
qed

lemma exact_price_le:
  assumes "unat (tu_input u) \<le> i" "unat (tu_output u) \<le> out"
    and "usd (mp_input_hit p) \<le> usd (mp_input_miss p)"
  shows "exact_price p u \<le> i * usd (mp_input_miss p) + out * usd (mp_output p)"
proof -
  let ?h = "min (unat (tu_cache_hit u)) (unat (tu_input u))"
  have "(unat (tu_input u) - ?h) * usd (mp_input_miss p) + ?h * usd (mp_input_hit p)
      \<le> (unat (tu_input u) - ?h) * usd (mp_input_miss p) + ?h * usd (mp_input_miss p)"
    using assms(3) by simp
  also have "\<dots> = unat (tu_input u) * usd (mp_input_miss p)"
    by (metis add_mult_distrib le_add_diff_inverse2 min.cobounded2)
  also have "\<dots> \<le> i * usd (mp_input_miss p)" using assms(1) by simp
  finally show ?thesis
    using assms(2) by (simp add: exact_price_def Let_def add_mono)
qed

text \<open>A call is charged its exact price rounded up to the micro-dollar, and an unaffordable one
  saturates at the largest amount: never less than the price, whenever the exact sum fits the
  \<open>u128\<close> the code computes in.\<close>

theorem cost_is_ceiling:
  assumes "exact_price p u < 2 ^ 128"
  shows "usd (cost p u) = min (ceil_div (exact_price p u) 1000000) (2 ^ 64 - 1)
    \<and> (cost p u = usd_max \<or> exact_price p u \<le> usd (cost p u) * 1000000)"
proof -
  have eq: "usd (cost p u) = min (ceil_div (exact_price p u) 1000000) (2 ^ 64 - 1)"
    using assms by (rule cost_exact_lemma)
  have "exact_price p u \<le> ceil_div (exact_price p u) 1000000 * 1000000" by (rule ceil_div_ge) simp
  then show ?thesis using eq by (auto simp: usd_eq_iff [of _ usd_max] usd_max min_def)
qed

definition flash_price :: model_price where
  "flash_price = \<lparr>mp_input_miss = MicroUsd 150000, mp_input_hit = MicroUsd 3000,
     mp_output = MicroUsd 600000\<rparr>"

theorem cost_is_ceiling_witness:
  "exact_price flash_price (token_usage_new 3000000 2400000 200000) < 2 ^ 128
    \<and> usd (cost flash_price (token_usage_new 3000000 2400000 200000)) = 217200"
proof -
  let ?u = "token_usage_new 3000000 2400000 200000"
  have e: "exact_price flash_price ?u = 217200000000"
    by (simp add: exact_price_def flash_price_def token_usage_new_def usd_def)
  then have small: "exact_price flash_price ?u < 2 ^ 128" by simp
  show ?thesis using small cost_is_ceiling [OF small] by (simp add: e ceil_div_def)
qed

text \<open>Where the exact sum does not fit, the \<open>u128\<close> addition wraps and the charge with it: an
  input of \<open>u64::MAX\<close> tokens at \<open>u64::MAX\<close> per million and \<open>2 ^ 33\<close> output tokens at
  \<open>2 ^ 32\<close> cost one micro-dollar, although the source says an absurd price saturates.\<close>

theorem cost_wraps_in_u128:
  "cost \<lparr>mp_input_miss = MicroUsd 18446744073709551615, mp_input_hit = MicroUsd 0,
       mp_output = MicroUsd 4294967296\<rparr>
     \<lparr>tu_input = 18446744073709551615, tu_cache_hit = 0, tu_output = 8589934592\<rparr> = MicroUsd 1"
  by (simp add: cost_def cache_miss_def sat_sub_def div_ceil_def
      TOKENS_PER_PRICE_UNIT_def from_micros_def clamp_to_def Let_def min_def)

end
