(* ===== verification/Usage.thy ===== *)
theory Usage
  imports Pricing
begin

text \<open>
  \<open>crates/susi-harness/src/usage.rs\<close>: the token usage a provider reports, read from its JSON
  body. A JSON document is the value \<open>serde_json\<close> parses it to; a finite binary float is its
  mantissa and exponent. \<open>provider_cost_from_json\<close>, which computes in \<open>f64\<close>, is not modelled.
\<close>

datatype json_number = PosInt u64 | NegInt int | Float int int

datatype json =
    JNull
  | JBool bool
  | JNumber json_number
  | JString string
  | JArray "json list"
  | JObject "(string \<times> json) list"

fun json_get :: "json \<Rightarrow> string \<Rightarrow> json option" where
  "json_get (JObject kvs) k = map_of kvs k"
| "json_get _ k = None"

fun as_u64 :: "json \<Rightarrow> u64 option" where
  "as_u64 (JNumber (PosInt n)) = Some n"
| "as_u64 _ = None"

datatype usage_error = NoUsageObject | UsageMissing string

definition optional_u64 :: "json \<Rightarrow> string \<Rightarrow> u64 option" where
  "optional_u64 value field = Option.bind (json_get value field) as_u64"

definition required_u64 :: "json \<Rightarrow> string \<Rightarrow> usage_error + u64" where
  "required_u64 value field =
     (case optional_u64 value field of Some n \<Rightarrow> Inr n | None \<Rightarrow> Inl (UsageMissing field))"

definition billed_output :: "u64 \<Rightarrow> u64 option \<Rightarrow> u64 \<Rightarrow> u64" where
  "billed_output out tot inp = (case tot of None \<Rightarrow> out | Some t \<Rightarrow> max out (sat_sub t inp))"

definition unwrap_or :: "'a option \<Rightarrow> 'a \<Rightarrow> 'a" where
  "unwrap_or x d = (case x of Some v \<Rightarrow> v | None \<Rightarrow> d)"

definition openai_hit :: "json \<Rightarrow> u64 option" where
  "openai_hit usage =
     (case optional_u64 usage ''prompt_cache_hit_tokens'' of
        Some h \<Rightarrow> Some h
      | None \<Rightarrow>
          Option.bind (json_get usage ''prompt_tokens_details'')
            (\<lambda>details. Option.bind (json_get details ''cached_tokens'') as_u64))"

definition openai_usage :: "json \<Rightarrow> usage_error + token_usage" where
  "openai_usage usage =
     (case required_u64 usage ''prompt_tokens'' of
        Inl e \<Rightarrow> Inl e
      | Inr inp \<Rightarrow>
          let out = unwrap_or (optional_u64 usage ''completion_tokens'') 0
          in Inr (token_usage_new inp (unwrap_or (openai_hit usage) 0)
                   (billed_output out (optional_u64 usage ''total_tokens'') inp)))"

definition gemini_usage :: "json \<Rightarrow> usage_error + token_usage" where
  "gemini_usage usage =
     (case required_u64 usage ''promptTokenCount'' of
        Inl e \<Rightarrow> Inl e
      | Inr inp \<Rightarrow>
          let out = sat_add (unwrap_or (optional_u64 usage ''candidatesTokenCount'') 0)
                      (unwrap_or (optional_u64 usage ''thoughtsTokenCount'') 0);
              hit = optional_u64 usage ''cachedContentTokenCount''
          in Inr (token_usage_new inp (unwrap_or hit 0)
                   (billed_output out (optional_u64 usage ''totalTokenCount'') inp)))"

definition token_usage_from_json :: "json \<Rightarrow> usage_error + token_usage" where
  "token_usage_from_json body =
     (case json_get body ''usage'' of
        Some usage \<Rightarrow> openai_usage usage
      | None \<Rightarrow>
          (case json_get body ''usageMetadata'' of
             Some usage \<Rightarrow> gemini_usage usage
           | None \<Rightarrow> Inl NoUsageObject))"

section \<open>What is extracted\<close>

text \<open>The total a body states, whichever provider shape it has.\<close>

definition stated_total :: "json \<Rightarrow> u64 option" where
  "stated_total body =
     (case json_get body ''usage'' of
        Some usage \<Rightarrow> optional_u64 usage ''total_tokens''
      | None \<Rightarrow> Option.bind (json_get body ''usageMetadata'')
                  (\<lambda>usage. optional_u64 usage ''totalTokenCount''))"

lemma token_usage_new_inv: "tu_cache_hit (token_usage_new i h out) \<le> i"
  by (auto simp: token_usage_new_def Let_def)

lemma token_usage_new_sel [simp]:
  "tu_input (token_usage_new i h out) = i" "tu_output (token_usage_new i h out) = out"
  by (simp_all add: token_usage_new_def)

lemma billed_output_total: "tot = Some t \<Longrightarrow> unat t \<le> unat inp + unat (billed_output out tot inp)"
  by (simp add: billed_output_def unats)

lemma usage_shape:
  assumes "token_usage_from_json body = Inr u"
  obtains i h out where "u = token_usage_new i h (billed_output out (stated_total body) i)"
  using assms
  by (auto simp: token_usage_from_json_def openai_usage_def gemini_usage_def stated_total_def
      Let_def split: option.splits sum.splits)

text \<open>Every usage the extractor returns is well formed (the cache hit is part of the input), so
  hit and miss split the input exactly, and it never bills fewer tokens than the total the provider
  states: hidden reasoning tokens reported only in the total are billed as output.\<close>

theorem token_usage_from_json_sound:
  assumes "token_usage_from_json body = Inr u"
  shows "unat (cache_miss u) + unat (tu_cache_hit u) = unat (tu_input u)
    \<and> (case stated_total body of None \<Rightarrow> True | Some t \<Rightarrow> unat t \<le> unat (tu_input u) + unat (tu_output u))"
proof -
  obtain i h out where u: "u = token_usage_new i h (billed_output out (stated_total body) i)"
    using assms by (rule usage_shape)
  have "unat (tu_cache_hit u) \<le> unat (tu_input u)"
    using token_usage_new_inv by (simp add: u word_le_nat_alt)
  then have "unat (cache_miss u) + unat (tu_cache_hit u) = unat (tu_input u)"
    by (simp add: cache_miss_def unats)
  then show ?thesis
    using billed_output_total [of "stated_total body" _ i out] by (auto simp: u split: option.split)
qed

theorem token_usage_from_json_sound_witness:
  "token_usage_from_json (JObject [(''usage'', JObject [(''prompt_tokens'', JNumber (PosInt 8)),
       (''completion_tokens'', JNumber (PosInt 1)), (''total_tokens'', JNumber (PosInt 88))])])
     = Inr (token_usage_new 8 0 80)
   \<and> unat (cache_miss (token_usage_new 8 0 80)) + unat (tu_cache_hit (token_usage_new 8 0 80)) = 8"
proof -
  let ?b = "JObject [(''usage'', JObject [(''prompt_tokens'', JNumber (PosInt 8)),
       (''completion_tokens'', JNumber (PosInt 1)), (''total_tokens'', JNumber (PosInt 88))])]"
  have e: "token_usage_from_json ?b = Inr (token_usage_new 8 0 80)"
    by (simp add: token_usage_from_json_def openai_usage_def required_u64_def optional_u64_def
        openai_hit_def unwrap_or_def billed_output_def sat_sub_def)
  show ?thesis using e token_usage_from_json_sound [OF e] by simp
qed

end
