(* ===== verification/Ledger.thy ===== *)
theory Ledger
  imports Usage
begin

text \<open>
  \<open>crates/susi-harness/src/ledger.rs\<close>: the append-only spend ledger. A ledger file is the list of
  its bytes (\<open>None\<close> when it cannot be read). JSON encoding and decoding of a row belong to
  \<open>serde_json\<close>: they are the parameters \<open>enc\<close> and \<open>dec\<close> of the functions that use them.
  The in-process append lock makes each append atomic, so an append is one function of the bytes.
\<close>

datatype failure_class =
  RateLimited | FTimeout | NoCredit | MalformedOutput | ToolError | OtherFailure

datatype outcome =
    Completed
  | Accepted
  | ModelFailed failure_class
  | Rejected string
  | Cancelled

record dispatch =
  d_mission :: string
  d_task :: string
  d_attempt :: u32
  d_model :: string
  d_provider :: string
  d_usage :: token_usage
  d_price :: model_price
  d_started :: u64
  d_ended :: u64
  d_outcome :: outcome

record ledger_entry =
  e_mission :: string
  e_task :: string
  e_attempt :: u32
  e_model :: string
  e_provider :: string
  e_usage :: token_usage
  e_price :: model_price
  e_cost :: micro_usd
  e_cached :: bool
  e_reported :: bool
  e_started :: u64
  e_ended :: u64
  e_outcome :: outcome

definition settle :: "dispatch \<Rightarrow> ledger_entry" where
  "settle d =
     (let c = cost (d_price d) (d_usage d)
      in \<lparr>e_mission = d_mission d, e_task = d_task d, e_attempt = d_attempt d,
          e_model = d_model d, e_provider = d_provider d, e_usage = d_usage d,
          e_price = d_price d, e_cost = c, e_cached = False, e_reported = False,
          e_started = d_started d, e_ended = d_ended d, e_outcome = d_outcome d\<rparr>)"

definition at_provider_cost :: "ledger_entry \<Rightarrow> micro_usd option \<Rightarrow> ledger_entry" where
  "at_provider_cost e stated =
     (case stated of Some c \<Rightarrow> e\<lparr>e_cost := c, e_reported := True\<rparr> | None \<Rightarrow> e)"

definition as_cached :: "ledger_entry \<Rightarrow> ledger_entry" where
  "as_cached e = e\<lparr>e_cached := True, e_cost := usd_zero\<rparr>"

definition latency_ms :: "ledger_entry \<Rightarrow> u64" where
  "latency_ms e = sat_sub (e_ended e) (e_started e)"

section \<open>The file\<close>

definition newline :: char where
  "newline = CHR 0x0A"

definition append_row :: "string \<Rightarrow> string \<Rightarrow> string" where
  "append_row bytes line =
     (let needs_leading_newline = (bytes \<noteq> [] \<and> last bytes \<noteq> newline);
          row = (if needs_leading_newline then [newline] else []) @ line @ [newline]
      in bytes @ row)"

definition append_entry :: "('r \<Rightarrow> string) \<Rightarrow> string \<Rightarrow> 'r \<Rightarrow> string" where
  "append_entry enc bytes entry = append_row bytes (enc entry)"

definition trim_ascii :: "string \<Rightarrow> string" where
  "trim_ascii s = rev (dropWhile is_ascii_whitespace (rev (dropWhile is_ascii_whitespace s)))"

fun first_some :: "('a \<Rightarrow> 'b option) \<Rightarrow> 'a list \<Rightarrow> 'b option" where
  "first_some f [] = None"
| "first_some f (x # xs) = (case f x of Some y \<Rightarrow> Some y | None \<Rightarrow> first_some f xs)"

definition glued_row :: "(string \<Rightarrow> 'r option) \<Rightarrow> string \<Rightarrow> 'r option" where
  "glued_row dec line =
     first_some (\<lambda>start. dec (drop start line))
       (filter (\<lambda>start. line ! start = CHR ''{'') [1..<length line])"

fun read_lines_lenient :: "(string \<Rightarrow> 'r option) \<Rightarrow> string list \<Rightarrow> 'r list \<times> nat" where
  "read_lines_lenient dec [] = ([], 0)"
| "read_lines_lenient dec (line # lines) =
     (let (rows, skipped) = read_lines_lenient dec lines
      in case dec line of
           Some row \<Rightarrow> (row # rows, skipped)
         | None \<Rightarrow>
             (case glued_row dec line of
                Some row \<Rightarrow> (row # rows, skipped + 1)
              | None \<Rightarrow> (rows, skipped + 1)))"

definition ledger_lines :: "string \<Rightarrow> string list" where
  "ledger_lines bytes = filter (\<lambda>l. l \<noteq> []) (map trim_ascii (split_on newline bytes))"

definition read_rows_lenient :: "(string \<Rightarrow> 'r option) \<Rightarrow> string option \<Rightarrow> 'r list \<times> nat" where
  "read_rows_lenient dec file =
     (case file of None \<Rightarrow> ([], 0) | Some bytes \<Rightarrow> read_lines_lenient dec (ledger_lines bytes))"

definition read_entries_reporting :: "(string \<Rightarrow> 'r option) \<Rightarrow> string option \<Rightarrow> 'r list" where
  "read_entries_reporting dec file = fst (read_rows_lenient dec file)"

section \<open>Sums and integrity\<close>

definition total_cost :: "ledger_entry list \<Rightarrow> micro_usd" where
  "total_cost entries = foldl (\<lambda>s e. usd_add_or_max s (e_cost e)) usd_zero entries"

definition cost_for :: "ledger_entry list \<Rightarrow> string \<Rightarrow> string \<Rightarrow> micro_usd" where
  "cost_for entries mission task =
     foldl (\<lambda>s e. usd_add_or_max s (e_cost e)) usd_zero
       (filter (\<lambda>e. e_mission e = mission \<and> e_task e = task) entries)"

record integrity_report =
  valid_entries :: nat
  corrupted_lines :: nat
  report_total :: micro_usd
  non_monotonic :: nat

fun count_non_monotonic :: "u64 option \<Rightarrow> ledger_entry list \<Rightarrow> nat" where
  "count_non_monotonic prev [] = 0"
| "count_non_monotonic prev (e # es) =
     (let inverted_span = e_ended e < e_started e;
          regressed_start = (case prev of Some p \<Rightarrow> e_started e < p | None \<Rightarrow> False)
      in (if inverted_span \<or> regressed_start then 1 else 0)
         + count_non_monotonic (Some (e_started e)) es)"

definition verify_integrity :: "(string \<Rightarrow> ledger_entry option) \<Rightarrow> string option \<Rightarrow> integrity_report" where
  "verify_integrity dec file =
     (let (entries, corrupted) = read_rows_lenient dec file
      in \<lparr>valid_entries = length entries, corrupted_lines = corrupted,
          report_total = total_cost entries,
          non_monotonic = count_non_monotonic None entries\<rparr>)"

definition is_clean :: "integrity_report \<Rightarrow> bool" where
  "is_clean r \<longleftrightarrow> corrupted_lines r = 0 \<and> non_monotonic r = 0"

section \<open>Summing saturates once\<close>

lemma usd_foldl_add:
  "usd (foldl (\<lambda>s e. usd_add_or_max s (f e)) s0 es) = min (usd s0 + (\<Sum>e\<leftarrow>es. usd (f e))) (2 ^ 64 - 1)"
proof (induction es arbitrary: s0)
  case Nil
  then show ?case using usd_bound [of s0] by simp
qed (simp add: usd_add_or_max)

lemma usd_total_cost [money]: "usd (total_cost es) = min (\<Sum>e\<leftarrow>es. usd (e_cost e)) (2 ^ 64 - 1)"
  by (simp add: total_cost_def usd_foldl_add)

lemma usd_cost_for [money]: "usd (cost_for es m t) =
    min (\<Sum>e\<leftarrow>filter (\<lambda>e. e_mission e = m \<and> e_task e = t) es. usd (e_cost e)) (2 ^ 64 - 1)"
  by (simp add: cost_for_def usd_foldl_add)

text \<open>The ledger's total is the exact sum of its rows, saturated once at \<open>u64::MAX\<close>, whatever
  the order in which concurrent writers appended them; and what one role of one mission is charged
  is the same sum over its own rows, so it never exceeds the total.\<close>

theorem total_cost_order_free:
  assumes "mset es = mset es'"
  shows "total_cost es = total_cost es' \<and> cost_for es m t = cost_for es' m t
    \<and> usd (total_cost es) = min (\<Sum>e\<leftarrow>es. usd (e_cost e)) (2 ^ 64 - 1)
    \<and> cost_for es m t \<le> total_cost es"
proof -
  have sums: "(\<Sum>e\<leftarrow>es. usd (e_cost e)) = (\<Sum>e\<leftarrow>es'. usd (e_cost e))"
    by (rule sum_list_mset_cong [OF assms])
  let ?P = "\<lambda>e. e_mission e = m \<and> e_task e = t"
  have "mset (filter ?P es) = mset (filter ?P es')" using assms by simp
  then have parts: "(\<Sum>e\<leftarrow>filter ?P es. usd (e_cost e)) = (\<Sum>e\<leftarrow>filter ?P es'. usd (e_cost e))"
    by (rule sum_list_mset_cong)
  have "(\<Sum>e\<leftarrow>filter ?P es. usd (e_cost e)) \<le> (\<Sum>e\<leftarrow>es. usd (e_cost e))"
    using sum_list_partition [of "\<lambda>e. usd (e_cost e)" ?P es] by linarith
  then have "cost_for es m t \<le> total_cost es"
    unfolding usd_le_iff usd_cost_for usd_total_cost by (rule min.mono) simp
  moreover have "cost_for es m t = cost_for es' m t"
    unfolding usd_eq_iff usd_cost_for parts ..
  moreover have "total_cost es = total_cost es'" unfolding usd_eq_iff usd_total_cost sums ..
  ultimately show ?thesis by (simp add: usd_total_cost sums)
qed

definition sample_dispatch :: dispatch where
  "sample_dispatch = \<lparr>d_mission = ''m'', d_task = ''t'', d_attempt = 1, d_model = ''deepseek-flash'',
     d_provider = ''deepseek'', d_usage = token_usage_new 3000000 2400000 200000,
     d_price = flash_price, d_started = 10, d_ended = 20, d_outcome = Completed\<rparr>"

theorem total_cost_order_free_witness:
  "mset [settle sample_dispatch, as_cached (settle sample_dispatch)] =
     mset [as_cached (settle sample_dispatch), settle sample_dispatch]
   \<and> total_cost [settle sample_dispatch, as_cached (settle sample_dispatch)] =
     total_cost [as_cached (settle sample_dispatch), settle sample_dispatch]"
proof -
  let ?a = "settle sample_dispatch" and ?b = "as_cached (settle sample_dispatch)"
  have m: "mset [?a, ?b] = mset [?b, ?a]" by simp
  show ?thesis using m total_cost_order_free [OF m, of "[]" "[]"] by blast
qed

section \<open>Appending after a torn write\<close>

lemma split_on_snoc_sep: "split_on c (s @ [c]) = split_on c s @ [[]]"
proof (induction s)
  case (Cons x s)
  then show ?case using split_on_ne [of c s] by (auto split: list.splits)
qed simp

lemma split_on_append_plain:
  "c \<notin> set line \<Longrightarrow> split_on c (s @ c # line) = split_on c s @ [line]"
proof (induction s)
  case Nil
  then show ?case by (simp add: split_on_plain)
next
  case (Cons x s)
  then show ?case using split_on_ne [of c s] by (auto split: list.splits)
qed

lemma split_on_row:
  assumes "c \<notin> set line"
  shows "split_on c (s @ c # line @ [c]) = split_on c s @ [line, []]"
  using split_on_snoc_sep [of c "s @ c # line"] split_on_append_plain [OF assms, of s] by simp

lemma trim_ascii_Nil [simp]: "trim_ascii [] = []"
  by (simp add: trim_ascii_def)

lemma ledger_lines_append_row:
  assumes "newline \<notin> set line" and "trim_ascii line = line" and "line \<noteq> []"
  shows "ledger_lines (append_row bytes line) = ledger_lines bytes @ [line]"
proof -
  consider (empty) "bytes = []" | (closed) b where "bytes = b @ [newline]"
    | (torn) "bytes \<noteq> []" "last bytes \<noteq> newline"
    by (metis append_butlast_last_id)
  then show ?thesis
  proof cases
    case empty
    then show ?thesis using assms
      by (simp add: append_row_def ledger_lines_def split_on_snoc_sep split_on_plain)
  next
    case closed
    then have "append_row bytes line = b @ newline # line @ [newline]" by (simp add: append_row_def)
    then have "split_on newline (append_row bytes line) = split_on newline b @ [line, []]"
      by (simp only: split_on_row [OF assms(1)])
    with closed assms show ?thesis by (simp add: ledger_lines_def split_on_snoc_sep)
  next
    case torn
    then have "append_row bytes line = bytes @ newline # line @ [newline]" by (simp add: append_row_def)
    then have "split_on newline (append_row bytes line) = split_on newline bytes @ [line, []]"
      by (simp only: split_on_row [OF assms(1)])
    with assms show ?thesis by (simp add: ledger_lines_def)
  qed
qed

lemma read_lines_lenient_append:
  "read_lines_lenient dec (xs @ ys) =
     (fst (read_lines_lenient dec xs) @ fst (read_lines_lenient dec ys),
      snd (read_lines_lenient dec xs) + snd (read_lines_lenient dec ys))"
  by (induction xs) (auto split: option.split prod.split)

text \<open>An append never loses a charge, and never loses one to an earlier crash: whatever bytes the
  file holds, a torn last line included, the lenient reader returns after the append the rows it
  returned before and then the new row, and counts no further line as skipped. The codec promises
  what JSON does: an encoded row is one line with no blank at its ends, and it decodes to the row.\<close>

theorem append_entry_read_lenient:
  assumes "newline \<notin> set (enc entry)" and "trim_ascii (enc entry) = enc entry" and "enc entry \<noteq> []"
    and "dec (enc entry) = Some entry"
  shows "read_rows_lenient dec (Some (append_entry enc bytes entry)) =
    (fst (read_rows_lenient dec (Some bytes)) @ [entry], snd (read_rows_lenient dec (Some bytes)))"
  using assms(4)
  by (simp add: read_rows_lenient_def append_entry_def ledger_lines_append_row [OF assms(1-3)]
      read_lines_lenient_append)

text \<open>A codec for the witnesses: a row is its mission name in braces.\<close>

definition demo_enc :: "string \<Rightarrow> string" where
  "demo_enc r = ''{'' @ r @ ''}''"

definition demo_dec :: "string \<Rightarrow> string option" where
  "demo_dec s = (if s = ''{a}'' then Some ''a'' else if s = ''{b}'' then Some ''b'' else None)"

theorem append_entry_read_lenient_witness:
  "read_rows_lenient demo_dec (Some (append_entry demo_enc (''{b}'' @ [newline] @ ''{a'') ''a'')) =
     ([''b'', ''a''], 1)"
proof -
  have "newline \<notin> set (demo_enc ''a'')" "trim_ascii (demo_enc ''a'') = demo_enc ''a''"
    "demo_enc ''a'' \<noteq> []" "demo_dec (demo_enc ''a'') = Some ''a''"
    by (simp_all add: demo_enc_def demo_dec_def newline_def trim_ascii_def is_ascii_whitespace_def)
  then have "read_rows_lenient demo_dec (Some (append_entry demo_enc (''{b}'' @ [newline] @ ''{a'') ''a'')) =
    (fst (read_rows_lenient demo_dec (Some (''{b}'' @ [newline] @ ''{a''))) @ [''a''],
     snd (read_rows_lenient demo_dec (Some (''{b}'' @ [newline] @ ''{a''))))"
    by (rule append_entry_read_lenient)
  then show ?thesis
    by (simp add: read_rows_lenient_def ledger_lines_def demo_dec_def newline_def trim_ascii_def
        is_ascii_whitespace_def glued_row_def upt_rec)
qed

lemma count_non_monotonic_zero:
  "count_non_monotonic prev es = 0 \<longleftrightarrow>
     list_all (\<lambda>e. e_started e \<le> e_ended e) es \<and> sorted (map e_started es)
     \<and> (case prev of None \<Rightarrow> True | Some p \<Rightarrow> list_all (\<lambda>e. p \<le> e_started e) es)"
proof (induction es arbitrary: prev)
  case (Cons e es)
  have "(case prev of None \<Rightarrow> True | Some p \<Rightarrow> p \<le> e_started e) \<Longrightarrow>
      list_all (\<lambda>x. e_started e \<le> e_started x) es \<Longrightarrow>
      (case prev of None \<Rightarrow> True | Some p \<Rightarrow> list_all (\<lambda>x. p \<le> e_started x) es)"
    by (auto simp: list_all_iff split: option.splits)
  then show ?case
    using Cons [of "Some (e_started e)"]
    by (auto simp: list_all_iff not_less Let_def split: option.splits if_splits)
qed (simp split: option.split)

text \<open>The integrity report is clean exactly when every line decodes, no row ends before it starts
  and the rows' start times never go back.\<close>

theorem verify_integrity_clean_iff:
  "is_clean (verify_integrity dec file) \<longleftrightarrow>
     snd (read_rows_lenient dec file) = 0
     \<and> list_all (\<lambda>e. e_started e \<le> e_ended e) (fst (read_rows_lenient dec file))
     \<and> sorted (map e_started (fst (read_rows_lenient dec file)))"
  by (auto simp: is_clean_def verify_integrity_def count_non_monotonic_zero split: prod.split)

end
