(* ===== verification/Budget.thy ===== *)
theory Budget
  imports Ledger
begin

text \<open>
  \<open>crates/susi-harness/src/budget.rs\<close>: the mission budget and the guard that concurrent attempts
  share. The guard's mutex makes each of its operations atomic, so an operation is a function on
  \<open>guard_state\<close>. The concurrent use the scheduler makes of it is the step relation
  \<open>mission_step\<close>: the ledger is read outside the lock, so the value an operation is given may be
  older than the ledger it acts on.
\<close>

definition CHARS_PER_TOKEN :: u64 where
  "CHARS_PER_TOKEN = 4"

definition DEFAULT_OUTPUT_RESERVE :: u64 where
  "DEFAULT_OUTPUT_RESERVE = 8192"

record budget =
  b_limit :: micro_usd
  b_output_reserve :: u64

record spend =
  s_calls :: u64
  s_total :: micro_usd

definition budget_new :: "micro_usd \<Rightarrow> budget" where
  "budget_new limit = \<lparr>b_limit = limit, b_output_reserve = DEFAULT_OUTPUT_RESERVE\<rparr>"

definition spent_any :: "ledger_entry list \<Rightarrow> string list \<Rightarrow> spend" where
  "spent_any entries missions =
     foldl (\<lambda>s e. \<lparr>s_calls = sat_add (s_calls s) 1, s_total = usd_add_or_max (s_total s) (e_cost e)\<rparr>)
       \<lparr>s_calls = 0, s_total = usd_zero\<rparr>
       (filter (\<lambda>e. e_mission e \<in> set missions) entries)"

definition spent :: "ledger_entry list \<Rightarrow> string \<Rightarrow> spend" where
  "spent entries mission = spent_any entries [mission]"

definition u64_of_len :: "nat \<Rightarrow> u64" where
  "u64_of_len n = (if n < 2 ^ 64 then of_nat n else - 1)"

definition estimate_tokens :: "model_price \<Rightarrow> string \<Rightarrow> u64 \<Rightarrow> micro_usd" where
  "estimate_tokens price prompt output_reserve =
     (let prompt_bytes = u64_of_len (length prompt);
          input_tokens = div_ceil prompt_bytes CHARS_PER_TOKEN
      in cost price (token_usage_new input_tokens 0 output_reserve))"

definition estimate :: "budget \<Rightarrow> model_price \<Rightarrow> string \<Rightarrow> micro_usd" where
  "estimate b price prompt = estimate_tokens price prompt (b_output_reserve b)"

definition admits :: "budget \<Rightarrow> spend \<Rightarrow> micro_usd \<Rightarrow> micro_usd \<Rightarrow> bool" where
  "admits b s reserved est =
     (case Option.bind (usd_checked_add (s_total s) reserved) (\<lambda>c. usd_checked_add c est) of
        None \<Rightarrow> False
      | Some tot \<Rightarrow> tot \<le> b_limit b)"

definition remaining :: "budget \<Rightarrow> spend \<Rightarrow> micro_usd" where
  "remaining b s = usd_sub_or_zero (b_limit b) (s_total s)"

definition at_risk :: "budget \<Rightarrow> spend \<Rightarrow> bool" where
  "at_risk b s \<longleftrightarrow> sat_mul (micros (b_limit b)) 4 \<le> sat_mul (micros (s_total s)) 5"

section \<open>The guard\<close>

datatype admission =
    Allowed
  | Exhausted (ex_spent: micro_usd) (ex_estimate: micro_usd) (ex_limit: micro_usd)

record guard_state =
  g_committed :: micro_usd
  g_reserved :: micro_usd

definition guard_new :: guard_state where
  "guard_new = \<lparr>g_committed = usd_zero, g_reserved = usd_zero\<rparr>"

definition admit :: "budget \<Rightarrow> guard_state \<Rightarrow> spend \<Rightarrow> micro_usd \<Rightarrow> admission \<times> guard_state" where
  "admit b g ledger_spent est =
     (let committed = max (g_committed g) (s_total ledger_spent);
          g1 = g\<lparr>g_committed := committed\<rparr>
      in case usd_checked_add (g_reserved g1) est of
           None \<Rightarrow> (Exhausted committed est (b_limit b), g1)
         | Some next_reserved \<Rightarrow>
             (let fits = (case usd_checked_add committed next_reserved of
                            None \<Rightarrow> False
                          | Some tot \<Rightarrow> tot \<le> b_limit b)
              in if \<not> fits then (Exhausted committed est (b_limit b), g1)
                 else (Allowed, g1\<lparr>g_reserved := next_reserved\<rparr>)))"

definition guard_settle :: "guard_state \<Rightarrow> spend \<Rightarrow> micro_usd \<Rightarrow> guard_state" where
  "guard_settle g ledger_spent est =
     \<lparr>g_committed = max (g_committed g) (s_total ledger_spent),
      g_reserved = usd_sub_or_zero (g_reserved g) est\<rparr>"

definition release_unsettled :: "guard_state \<Rightarrow> micro_usd \<Rightarrow> guard_state" where
  "release_unsettled g est = g\<lparr>g_reserved := usd_sub_or_zero (g_reserved g) est\<rparr>"

record budget_reservation =
  r_estimate :: micro_usd
  r_settled :: bool

definition reserve ::
  "budget \<Rightarrow> guard_state \<Rightarrow> spend \<Rightarrow> micro_usd \<Rightarrow> (admission + budget_reservation) \<times> guard_state" where
  "reserve b g ledger_spent est =
     (case admit b g ledger_spent est of
        (Allowed, g') \<Rightarrow> (Inr \<lparr>r_estimate = est, r_settled = False\<rparr>, g')
      | (Exhausted s e l, g') \<Rightarrow> (Inl (Exhausted s e l), g'))"

definition drop_reservation :: "guard_state \<Rightarrow> budget_reservation \<Rightarrow> guard_state" where
  "drop_reservation g r = (if \<not> r_settled r then release_unsettled g (r_estimate r) else g)"

text \<open>\<open>BudgetReservation::settle\<close> consumes the reservation: it is marked settled, folded into the
  guard, and then dropped.\<close>

definition settle_reservation :: "guard_state \<Rightarrow> budget_reservation \<Rightarrow> spend \<Rightarrow> guard_state" where
  "settle_reservation g r ledger_spent =
     (let r' = r\<lparr>r_settled := True\<rparr>
      in drop_reservation (guard_settle g ledger_spent (r_estimate r')) r')"

definition committed_total :: "guard_state \<Rightarrow> micro_usd" where
  "committed_total g = max (g_committed g) (g_reserved g)"

section \<open>Single operations\<close>

lemma admit_Allowed:
  assumes "admit b g s est = (Allowed, g')"
  shows "usd (g_committed g') = max (usd (g_committed g)) (usd (s_total s))"
    and "usd (g_reserved g') = usd (g_reserved g) + usd est"
    and "usd (g_committed g') + usd (g_reserved g') \<le> usd (b_limit b)"
  using assms
  by (auto simp: admit_def Let_def usd_max_ab usd_checked_add_Some usd_le_iff
      split: option.splits if_splits)

lemma admit_Exhausted:
  assumes "admit b g s est = (Exhausted sp e l, g')"
  shows "usd (g_committed g') = max (usd (g_committed g)) (usd (s_total s))"
    and "g_reserved g' = g_reserved g"
    and "usd (b_limit b) < usd (g_committed g') + usd (g_reserved g) + usd est"
proof -
  show "usd (g_committed g') = max (usd (g_committed g)) (usd (s_total s))" "g_reserved g' = g_reserved g"
    using assms by (auto simp: admit_def Let_def usd_max_ab split: option.splits if_splits)
  let ?c = "max (g_committed g) (s_total s)"
  have c: "g_committed g' = ?c"
    using assms by (auto simp: admit_def Let_def split: option.splits if_splits)
  consider "usd_checked_add (g_reserved g) est = None"
    | r where "usd_checked_add (g_reserved g) est = Some r" "usd_checked_add ?c r = None"
    | r t where "usd_checked_add (g_reserved g) est = Some r" "usd_checked_add ?c r = Some t" "\<not> t \<le> b_limit b"
    using assms by (auto simp: admit_def Let_def split: option.splits if_splits)
  then have "usd (b_limit b) < usd ?c + usd (g_reserved g) + usd est"
    using usd_bound [of "b_limit b"]
    by cases (auto simp: usd_checked_add_Some usd_checked_add_None usd_le_iff)
  then show "usd (b_limit b) < usd (g_committed g') + usd (g_reserved g) + usd est" by (simp add: c)
qed

lemma guard_settle_usd [money]:
  "usd (g_committed (guard_settle g s est)) = max (usd (g_committed g)) (usd (s_total s))"
  "usd (g_reserved (guard_settle g s est)) = usd (g_reserved g) - usd est"
  by (simp_all add: guard_settle_def usd_max_ab usd_sub_or_zero)

lemma release_unsettled_usd [money]:
  "g_committed (release_unsettled g est) = g_committed g"
  "usd (g_reserved (release_unsettled g est)) = usd (g_reserved g) - usd est"
  by (simp_all add: release_unsettled_def usd_sub_or_zero)

lemma settle_reservation_eq: "settle_reservation g r s = guard_settle g s (r_estimate r)"
  by (simp add: settle_reservation_def drop_reservation_def)

lemma spent_any_total:
  "usd (s_total (spent_any es ms)) =
     min (\<Sum>e\<leftarrow>filter (\<lambda>e. e_mission e \<in> set ms) es. usd (e_cost e)) (2 ^ 64 - 1)"
proof -
  have "s_total (foldl (\<lambda>s e. \<lparr>s_calls = sat_add (s_calls s) 1,
      s_total = usd_add_or_max (s_total s) (e_cost e)\<rparr>) s0 xs) =
    foldl (\<lambda>s e. usd_add_or_max s (e_cost e)) (s_total s0) xs" for s0 :: spend and xs :: "ledger_entry list"
    by (induction xs arbitrary: s0) simp_all
  then show ?thesis by (simp add: spent_any_def usd_foldl_add)
qed

text \<open>Admission is decided exactly: an attempt is admitted if and only if the larger of the
  committed and the ledger's spend, plus what is reserved, plus its own estimate, is within the
  limit, over the natural numbers (no overflow can admit it). A refusal reserves nothing.\<close>

theorem admit_iff_fits:
  "(fst (admit b g s est) = Allowed \<longleftrightarrow>
      max (usd (g_committed g)) (usd (s_total s)) + usd (g_reserved g) + usd est \<le> usd (b_limit b))
   \<and> usd (g_reserved (snd (admit b g s est))) =
      usd (g_reserved g) + (if fst (admit b g s est) = Allowed then usd est else 0)"
proof (cases "admit b g s est")
  case (Pair r g')
  show ?thesis
  proof (cases r)
    case Allowed
    with Pair have a: "admit b g s est = (Allowed, g')" by simp
    show ?thesis using admit_Allowed [OF a] a by (simp add: add.assoc)
  next
    case (Exhausted sp e l)
    with Pair have a: "admit b g s est = (Exhausted sp e l, g')" by simp
    show ?thesis using admit_Exhausted [OF a] a by simp
  qed
qed

lemma unat_u64_of_len: "unat (u64_of_len n) = min n (2 ^ 64 - 1)"
  by (auto simp: u64_of_len_def unat_of_nat_less unat_max_word)

lemma estimate_input_tokens:
  "unat (div_ceil (u64_of_len n) CHARS_PER_TOKEN) = ceil_div (min n (2 ^ 64 - 1)) 4"
proof -
  have "unat CHARS_PER_TOKEN = 4" by (simp add: CHARS_PER_TOKEN_def)
  moreover from this have "unat (div_ceil (u64_of_len n) CHARS_PER_TOKEN) =
      ceil_div (unat (u64_of_len n)) (unat CHARS_PER_TOKEN)"
    by (intro unat_div_ceil) simp
  ultimately show ?thesis by (simp only: unat_u64_of_len)
qed

text \<open>The estimate a turn is admitted on is pessimistic: a call that reads no more tokens than
  the prompt is estimated at and answers within the reserve costs at most the estimate, however much
  of it the provider's cache serves, as long as a cached token is not dearer than an uncached one
  and the token counts are below \<open>2 ^ 63\<close>.\<close>

theorem estimate_covers_cost:
  assumes "unat (tu_input u) \<le> ceil_div (length prompt) 4"
    and "tu_output u \<le> b_output_reserve b"
    and "mp_input_hit p \<le> mp_input_miss p"
    and "length prompt < 2 ^ 63" and "unat (b_output_reserve b) < 2 ^ 63"
  shows "cost p u \<le> estimate b p prompt"
proof -
  let ?v = "token_usage_new (div_ceil (u64_of_len (length prompt)) CHARS_PER_TOKEN) 0 (b_output_reserve b)"
  have tokens: "unat (tu_input ?v) = ceil_div (length prompt) 4"
    using assms(4) by (simp add: estimate_input_tokens)
  have few: "ceil_div (length prompt) 4 \<le> length prompt" by (rule ceil_div_least) auto
  have out: "unat (tu_output u) \<le> unat (b_output_reserve b)" using assms(2) by (simp add: word_le_nat_alt)
  have exact_v: "exact_price p ?v =
      ceil_div (length prompt) 4 * usd (mp_input_miss p) + unat (b_output_reserve b) * usd (mp_output p)"
    using tokens by (simp add: exact_price_def token_usage_new_def Let_def)
  have le: "exact_price p u \<le> exact_price p ?v"
    unfolding exact_v by (rule exact_price_le) (use assms out in \<open>auto simp: usd_le_iff\<close>)
  have fv: "exact_price p ?v < 2 ^ 128"
    by (rule exact_price_fits) (use tokens few assms in simp_all)
  have fu: "exact_price p u < 2 ^ 128" using le fv by simp
  have "ceil_div (exact_price p u) 1000000 \<le> ceil_div (exact_price p ?v) 1000000"
    by (rule ceil_div_mono) (use le in auto)
  then show ?thesis
    unfolding estimate_def estimate_tokens_def Let_def usd_le_iff
      cost_exact_lemma [OF fu] cost_exact_lemma [OF fv] by (rule min.mono) simp
qed

theorem estimate_covers_cost_witness:
  "cost flash_price (token_usage_new 1 1 20) \<le> estimate (budget_new (MicroUsd 1000)) flash_price ''abcde''"
proof (rule estimate_covers_cost)
  show "unat (tu_input (token_usage_new 1 1 20)) \<le> ceil_div (length ''abcde'') 4"
    by (simp add: ceil_div_def)
qed (simp_all add: budget_new_def DEFAULT_OUTPUT_RESERVE_def flash_price_def less_eq_micro_usd_def)

end
