(* ===== verification/Budget_Run.thy ===== *)
theory Budget_Run
  imports Budget
begin

text \<open>
  The budget guard under the scheduler's concurrency (\<open>run_task\<close> of
  \<open>crates/susi-harness/src/scheduler.rs\<close>, several worker threads on one guard and one ledger).

  An attempt reserves its estimate, its calls are charged to the ledger while it runs, then the
  ledger is read and the reservation settled with what was read. The read and the guard operation
  are separate steps: between them other attempts may charge, settle or reserve. An admission is
  therefore given any reading between the ledger at the mission's start and the ledger now.

  The charges are natural numbers and the ledger their exact sum; a reading is that sum saturated at
  \<open>u64::MAX\<close>, as \<open>Budget::spent\<close> computes it (lemma \<open>spent_any_total\<close>). \<open>ms_settled\<close>
  and \<open>ms_overrun\<close> are ghost fields: what settled attempts charged (with the spend the mission
  started from), and by how much they exceeded their estimates.
\<close>

record attempt_run =
  a_est :: micro_usd
  a_charged :: nat
  a_read :: "micro_usd option"

record mission_state =
  ms_guard :: guard_state
  ms_inflight :: "attempt_run list"
  ms_ledger :: nat
  ms_settled :: nat
  ms_overrun :: nat

definition u64_cap :: nat where
  "u64_cap = 2 ^ 64 - 1"

definition reading :: "nat \<Rightarrow> micro_usd" where
  "reading n = MicroUsd (of_nat (min n u64_cap))"

definition spend_of :: "micro_usd \<Rightarrow> spend" where
  "spend_of v = \<lparr>s_calls = 0, s_total = v\<rparr>"

definition attempt_new :: "micro_usd \<Rightarrow> attempt_run" where
  "attempt_new est = \<lparr>a_est = est, a_charged = 0, a_read = None\<rparr>"

definition mission_start :: "nat \<Rightarrow> mission_state" where
  "mission_start spent0 = \<lparr>ms_guard = guard_new, ms_inflight = [], ms_ledger = spent0,
     ms_settled = spent0, ms_overrun = 0\<rparr>"

definition admit_state :: "mission_state \<Rightarrow> guard_state \<Rightarrow> micro_usd \<Rightarrow> mission_state" where
  "admit_state s g est = s\<lparr>ms_guard := g, ms_inflight := ms_inflight s @ [attempt_new est]\<rparr>"

definition charge_state ::
  "mission_state \<Rightarrow> attempt_run list \<Rightarrow> attempt_run \<Rightarrow> attempt_run list \<Rightarrow> nat \<Rightarrow> mission_state" where
  "charge_state s xs a ys c =
     s\<lparr>ms_ledger := ms_ledger s + c, ms_inflight := xs @ a\<lparr>a_charged := a_charged a + c\<rparr> # ys\<rparr>"

definition read_state ::
  "mission_state \<Rightarrow> attempt_run list \<Rightarrow> attempt_run \<Rightarrow> attempt_run list \<Rightarrow> mission_state" where
  "read_state s xs a ys =
     s\<lparr>ms_inflight := xs @ a\<lparr>a_read := Some (reading (ms_ledger s))\<rparr> # ys\<rparr>"

definition settle_state ::
  "mission_state \<Rightarrow> attempt_run list \<Rightarrow> attempt_run \<Rightarrow> attempt_run list \<Rightarrow> micro_usd \<Rightarrow> mission_state" where
  "settle_state s xs a ys r =
     s\<lparr>ms_guard := guard_settle (ms_guard s) (spend_of r) (a_est a), ms_inflight := xs @ ys,
       ms_settled := ms_settled s + a_charged a,
       ms_overrun := ms_overrun s + (a_charged a - usd (a_est a))\<rparr>"

definition drop_state ::
  "mission_state \<Rightarrow> attempt_run list \<Rightarrow> attempt_run \<Rightarrow> attempt_run list \<Rightarrow> mission_state" where
  "drop_state s xs a ys =
     s\<lparr>ms_guard := release_unsettled (ms_guard s) (a_est a), ms_inflight := xs @ ys,
       ms_settled := ms_settled s + a_charged a,
       ms_overrun := ms_overrun s + (a_charged a - usd (a_est a))\<rparr>"

text \<open>\<open>idle_only\<close> says whether a reservation may be dropped unsettled only before its attempt has
  charged anything (\<open>True\<close>), or at any time (\<open>False\<close>).\<close>

inductive mission_step :: "bool \<Rightarrow> budget \<Rightarrow> nat \<Rightarrow> mission_state \<Rightarrow> mission_state \<Rightarrow> bool"
  for idle_only :: bool and b :: budget and spent0 :: nat
where
  step_admit: "mission_step idle_only b spent0 s (admit_state s g est)"
    if "min spent0 u64_cap \<le> usd v" and "usd v \<le> ms_ledger s"
      and "admit b (ms_guard s) (spend_of v) est = (Allowed, g)"
| step_refuse: "mission_step idle_only b spent0 s (s\<lparr>ms_guard := g\<rparr>)"
    if "min spent0 u64_cap \<le> usd v" and "usd v \<le> ms_ledger s"
      and "admit b (ms_guard s) (spend_of v) est = (Exhausted sp e l, g)"
| step_charge: "mission_step idle_only b spent0 s (charge_state s xs a ys c)"
    if "ms_inflight s = xs @ a # ys" and "a_read a = None"
| step_read: "mission_step idle_only b spent0 s (read_state s xs a ys)"
    if "ms_inflight s = xs @ a # ys" and "a_read a = None"
| step_settle: "mission_step idle_only b spent0 s (settle_state s xs a ys r)"
    if "ms_inflight s = xs @ a # ys" and "a_read a = Some r"
| step_drop: "mission_step idle_only b spent0 s (drop_state s xs a ys)"
    if "ms_inflight s = xs @ a # ys" and "idle_only \<longrightarrow> a_charged a = 0"

inductive mission_reachable :: "bool \<Rightarrow> budget \<Rightarrow> nat \<Rightarrow> mission_state \<Rightarrow> bool"
  for idle_only :: bool and b :: budget and spent0 :: nat
where
  reach_start: "mission_reachable idle_only b spent0 (mission_start spent0)"
| reach_step: "mission_reachable idle_only b spent0 s \<Longrightarrow> mission_step idle_only b spent0 s s'
    \<Longrightarrow> mission_reachable idle_only b spent0 s'"

section \<open>The invariant\<close>

text \<open>What the attempts that have read the ledger, and read at most \<open>t\<close>, charged.\<close>

definition read_charges :: "nat \<Rightarrow> attempt_run list \<Rightarrow> nat" where
  "read_charges t as =
     (\<Sum>a\<leftarrow>as. case a_read a of Some r \<Rightarrow> if usd r \<le> t then a_charged a else 0 | None \<Rightarrow> 0)"

definition est_total :: "attempt_run list \<Rightarrow> nat" where
  "est_total as = (\<Sum>a\<leftarrow>as. usd (a_est a))"

definition charged_total :: "attempt_run list \<Rightarrow> nat" where
  "charged_total as = (\<Sum>a\<leftarrow>as. a_charged a)"

definition overrun_total :: "attempt_run list \<Rightarrow> nat" where
  "overrun_total as = (\<Sum>a\<leftarrow>as. a_charged a - usd (a_est a))"

definition reserved_exact :: "mission_state \<Rightarrow> bool" where
  "reserved_exact s \<longleftrightarrow> usd (g_reserved (ms_guard s)) = est_total (ms_inflight s)"

definition ledger_exact :: "mission_state \<Rightarrow> bool" where
  "ledger_exact s \<longleftrightarrow> ms_ledger s = ms_settled s + charged_total (ms_inflight s)"

text \<open>Any bound that covers the guard's committed amount and the mission's starting spend also covers
  everything settled together with what is about to be settled under readings up to that bound.\<close>

definition commits_cover :: "nat \<Rightarrow> mission_state \<Rightarrow> bool" where
  "commits_cover spent0 s \<longleftrightarrow>
     (\<forall>t \<ge> max (usd (g_committed (ms_guard s))) (min spent0 u64_cap).
        min (ms_settled s + read_charges t (ms_inflight s)) u64_cap \<le> t)"

definition within_limit :: "budget \<Rightarrow> nat \<Rightarrow> mission_state \<Rightarrow> bool" where
  "within_limit b spent0 s \<longleftrightarrow>
     ms_settled s + est_total (ms_inflight s) \<le> max (usd (b_limit b)) spent0 + ms_overrun s"

definition mission_inv :: "budget \<Rightarrow> nat \<Rightarrow> mission_state \<Rightarrow> bool" where
  "mission_inv b spent0 s \<longleftrightarrow>
     reserved_exact s \<and> ledger_exact s \<and> commits_cover spent0 s \<and> within_limit b spent0 s"

lemmas run_sums = read_charges_def est_total_def charged_total_def overrun_total_def

lemma usd_reading: "usd (reading n) = min n u64_cap"
  by (simp add: reading_def usd_def u64_cap_def unat_of_nat_less)

lemma usd_le_cap: "usd a \<le> u64_cap"
  using usd_bound [of a] by (simp add: u64_cap_def)

lemma read_charges_le: "read_charges t as \<le> charged_total as"
  by (induction as) (auto simp: run_sums split: option.split)

lemma commits_coverD:
  "commits_cover spent0 s \<Longrightarrow> usd (g_committed (ms_guard s)) \<le> t \<Longrightarrow> min spent0 u64_cap \<le> t
    \<Longrightarrow> min (ms_settled s + read_charges t (ms_inflight s)) u64_cap \<le> t"
  by (simp add: commits_cover_def)

lemma mission_inv_start: "mission_inv b spent0 (mission_start spent0)"
  by (auto simp: mission_inv_def mission_start_def reserved_exact_def ledger_exact_def
      commits_cover_def within_limit_def guard_new_def run_sums)

lemma mission_inv_admit:
  assumes inv: "mission_inv b spent0 s" and low: "min spent0 u64_cap \<le> usd v"
    and ok: "admit b (ms_guard s) (spend_of v) est = (Allowed, g)"
  shows "mission_inv b spent0 (admit_state s g est)"
proof -
  note a = admit_Allowed [OF ok]
  have c: "usd (g_committed (ms_guard s)) \<le> usd (g_committed g)"
    and v: "min spent0 u64_cap \<le> usd (g_committed g)"
    using a(1) low by (simp_all add: spend_of_def)
  have res: "usd (g_reserved g) = est_total (ms_inflight s) + usd est"
    using a(2) inv by (simp add: mission_inv_def reserved_exact_def)
  have cover: "commits_cover spent0 s" using inv by (simp add: mission_inv_def)
  have "commits_cover spent0 (admit_state s g est)"
    unfolding commits_cover_def
  proof (intro allI impI)
    fix t assume t: "max (usd (g_committed (ms_guard (admit_state s g est)))) (min spent0 u64_cap) \<le> t"
    have "read_charges t (ms_inflight (admit_state s g est)) = read_charges t (ms_inflight s)"
      by (simp add: admit_state_def attempt_new_def run_sums)
    then show "min (ms_settled (admit_state s g est)
        + read_charges t (ms_inflight (admit_state s g est))) u64_cap \<le> t"
      using commits_coverD [OF cover, of t] c t by (simp add: admit_state_def)
  qed
  moreover have "within_limit b spent0 (admit_state s g est)"
  proof (cases "ms_settled s \<le> u64_cap")
    case True
    have "min (ms_settled s + read_charges (usd (g_committed g)) (ms_inflight s)) u64_cap
        \<le> usd (g_committed g)"
      using cover c v by (rule commits_coverD)
    with True have "ms_settled s \<le> usd (g_committed g)" by simp
    with a(3) res show ?thesis
      by (simp add: within_limit_def admit_state_def attempt_new_def run_sums)
  next
    case False
    have "min (ms_settled s + read_charges (usd (g_committed g)) (ms_inflight s)) u64_cap
        \<le> usd (g_committed g)"
      using cover c v by (rule commits_coverD)
    with False have "u64_cap \<le> usd (g_committed g)" by simp
    with a(3) res usd_le_cap [of "b_limit b"] have "est_total (ms_inflight s) + usd est = 0" by linarith
    with inv show ?thesis
      by (simp add: mission_inv_def within_limit_def admit_state_def attempt_new_def run_sums)
  qed
  ultimately show ?thesis
    using inv res
    by (simp add: mission_inv_def reserved_exact_def ledger_exact_def admit_state_def attempt_new_def
        run_sums)
qed

lemma mission_inv_refuse:
  assumes inv: "mission_inv b spent0 s"
    and no: "admit b (ms_guard s) (spend_of v) est = (Exhausted sp e l, g)"
  shows "mission_inv b spent0 (s\<lparr>ms_guard := g\<rparr>)"
proof -
  note a = admit_Exhausted [OF no]
  have "usd (g_committed (ms_guard s)) \<le> usd (g_committed g)" using a(1) by simp
  with inv a(2) show ?thesis
    by (auto simp: mission_inv_def reserved_exact_def ledger_exact_def within_limit_def commits_cover_def)
qed

lemma mission_inv_charge:
  assumes "mission_inv b spent0 s" "ms_inflight s = xs @ a # ys" "a_read a = None"
  shows "mission_inv b spent0 (charge_state s xs a ys c)"
  using assms
  by (simp add: mission_inv_def reserved_exact_def ledger_exact_def within_limit_def commits_cover_def
      charge_state_def run_sums)

lemma mission_inv_read:
  assumes inv: "mission_inv b spent0 s" and fl: "ms_inflight s = xs @ a # ys" and run: "a_read a = None"
  shows "mission_inv b spent0 (read_state s xs a ys)"
proof -
  have cover: "commits_cover spent0 s" using inv by (simp add: mission_inv_def)
  have led: "ms_ledger s = ms_settled s + charged_total (xs @ a # ys)"
    using inv fl by (simp add: mission_inv_def ledger_exact_def)
  have "commits_cover spent0 (read_state s xs a ys)"
    unfolding commits_cover_def
  proof (intro allI impI)
    let ?s' = "read_state s xs a ys"
    fix t assume t: "max (usd (g_committed (ms_guard ?s'))) (min spent0 u64_cap) \<le> t"
    show "min (ms_settled ?s' + read_charges t (ms_inflight ?s')) u64_cap \<le> t"
    proof (cases "min (ms_ledger s) u64_cap \<le> t")
      case True
      have "read_charges t (ms_inflight ?s') \<le> charged_total (ms_inflight ?s')"
        by (rule read_charges_le)
      also have "\<dots> = charged_total (xs @ a # ys)" by (simp add: read_state_def run_sums)
      finally have "ms_settled ?s' + read_charges t (ms_inflight ?s') \<le> ms_ledger s"
        using led by (simp add: read_state_def)
      then show ?thesis using True by linarith
    next
      case False
      then have "read_charges t (ms_inflight ?s') = read_charges t (ms_inflight s)"
        using fl run by (simp add: read_state_def run_sums usd_reading)
      with commits_coverD [OF cover, of t] t show ?thesis by (simp add: read_state_def)
    qed
  qed
  with inv fl show ?thesis
    by (simp add: mission_inv_def reserved_exact_def ledger_exact_def within_limit_def read_state_def
        run_sums)
qed

lemma mission_inv_settle:
  assumes inv: "mission_inv b spent0 s" and fl: "ms_inflight s = xs @ a # ys" and r: "a_read a = Some r"
  shows "mission_inv b spent0 (settle_state s xs a ys r)"
proof -
  have cover: "commits_cover spent0 s" using inv by (simp add: mission_inv_def)
  let ?s' = "settle_state s xs a ys r"
  have "commits_cover spent0 ?s'"
    unfolding commits_cover_def
  proof (intro allI impI)
    fix t assume t: "max (usd (g_committed (ms_guard ?s'))) (min spent0 u64_cap) \<le> t"
    then have "usd (g_committed (ms_guard s)) \<le> t" "usd r \<le> t" "min spent0 u64_cap \<le> t"
      by (simp_all add: settle_state_def guard_settle_usd spend_of_def)
    then have "min (ms_settled s + read_charges t (ms_inflight s)) u64_cap \<le> t"
      using commits_coverD [OF cover, of t] by simp
    moreover have "ms_settled ?s' + read_charges t (ms_inflight ?s') =
        ms_settled s + read_charges t (ms_inflight s)"
      using fl r \<open>usd r \<le> t\<close> by (simp add: settle_state_def run_sums)
    ultimately show "min (ms_settled ?s' + read_charges t (ms_inflight ?s')) u64_cap \<le> t" by simp
  qed
  with inv fl show ?thesis
    by (auto simp: mission_inv_def reserved_exact_def ledger_exact_def within_limit_def settle_state_def
        run_sums guard_settle_usd)
qed

lemma mission_inv_drop:
  assumes inv: "mission_inv b spent0 s" and fl: "ms_inflight s = xs @ a # ys" and "a_charged a = 0"
  shows "mission_inv b spent0 (drop_state s xs a ys)"
proof -
  have "read_charges t (xs @ a # ys) = read_charges t (xs @ ys)" for t
    using assms(3) by (simp add: run_sums split: option.split)
  with assms show ?thesis
    by (auto simp: mission_inv_def reserved_exact_def ledger_exact_def within_limit_def
        commits_cover_def drop_state_def release_unsettled_usd run_sums)
qed

lemma mission_inv_step:
  assumes "mission_step True b spent0 s s'" and "mission_inv b spent0 s"
  shows "mission_inv b spent0 s'"
  using assms
  by (cases rule: mission_step.cases)
    (auto intro: mission_inv_admit mission_inv_refuse mission_inv_charge mission_inv_read
      mission_inv_settle mission_inv_drop)

lemma mission_reachable_inv: "mission_reachable True b spent0 s \<Longrightarrow> mission_inv b spent0 s"
  by (induction rule: mission_reachable.induct) (auto intro: mission_inv_start mission_inv_step)

section \<open>Safety\<close>

lemma charged_le_est_overrun: "charged_total as \<le> est_total as + overrun_total as"
  by (induction as) (auto simp: run_sums)


definition ten_budget :: budget where
  "ten_budget = budget_new (MicroUsd 10)"

lemma admit_six:
  "admit ten_budget guard_new (spend_of (MicroUsd 0)) (MicroUsd 6) =
     (Allowed, \<lparr>g_committed = MicroUsd 0, g_reserved = MicroUsd 6\<rparr>)"
  by (simp add: admit_def ten_budget_def budget_new_def guard_new_def usd_zero_def spend_of_def
      usd_checked_add_def checked_add_w_def max_def less_eq_micro_usd_def)

definition one_attempt :: mission_state where
  "one_attempt = admit_state (mission_start 0) \<lparr>g_committed = MicroUsd 0, g_reserved = MicroUsd 6\<rparr> (MicroUsd 6)"

lemma one_attempt_reachable: "mission_reachable idle ten_budget 0 one_attempt"
  unfolding one_attempt_def
  by (rule reach_step [OF reach_start], rule step_admit [where v = "MicroUsd 0"])
    (simp_all add: admit_six mission_start_def usd_def)

definition charged_attempt :: mission_state where
  "charged_attempt = charge_state one_attempt [] (attempt_new (MicroUsd 6)) [] 6"

lemma charged_attempt_reachable: "mission_reachable idle ten_budget 0 charged_attempt"
  unfolding charged_attempt_def
  by (rule reach_step [OF one_attempt_reachable], rule step_charge)
    (simp_all add: one_attempt_def admit_state_def mission_start_def attempt_new_def)


text \<open>C32. A reservation dropped after its attempt has charged (\<open>release_unsettled\<close> folds in no
  ledger spend) breaks the bound: with a limit of 10, an admission that read the ledger before the
  first attempt charged 6 and was dropped is granted another 6, and the mission spends 12 although
  every attempt stayed within its estimate.\<close>

theorem unsettled_drop_overspends:
  "\<exists>s. mission_reachable False ten_budget 0 s \<and> usd (b_limit ten_budget) < ms_ledger s
     \<and> ms_overrun s + overrun_total (ms_inflight s) = 0"
proof -
  let ?a = "attempt_new (MicroUsd 6)\<lparr>a_charged := 6\<rparr>"
  let ?d = "drop_state charged_attempt [] ?a []"
  have d: "mission_reachable False ten_budget 0 ?d"
    by (rule reach_step [OF charged_attempt_reachable], rule step_drop)
      (simp_all add: charged_attempt_def charge_state_def attempt_new_def)
  have gd: "ms_guard ?d = guard_new"
    by (simp add: drop_state_def charged_attempt_def charge_state_def one_attempt_def admit_state_def
        release_unsettled_def attempt_new_def usd_sub_or_zero_def usd_checked_sub_def
        checked_sub_w_def guard_new_def usd_zero_def)
  let ?e = "admit_state ?d \<lparr>g_committed = MicroUsd 0, g_reserved = MicroUsd 6\<rparr> (MicroUsd 6)"
  have e: "mission_reachable False ten_budget 0 ?e"
    by (rule reach_step [OF d], rule step_admit [where v = "MicroUsd 0"])
      (simp_all add: gd admit_six usd_def)
  let ?f = "charge_state ?e [] (attempt_new (MicroUsd 6)) [] 6"
  have "mission_reachable False ten_budget 0 ?f"
    by (rule reach_step [OF e], rule step_charge)
      (simp_all add: admit_state_def drop_state_def attempt_new_def)
  moreover have "ms_ledger ?f = 12" "ms_overrun ?f + overrun_total (ms_inflight ?f) = 0"
    by (simp_all add: charge_state_def admit_state_def drop_state_def charged_attempt_def one_attempt_def
        mission_start_def attempt_new_def overrun_total_def usd_def)
  ultimately show ?thesis
    by (intro exI [of _ ?f]) (simp add: ten_budget_def budget_new_def usd_def)
qed

end
