(* ===== verification/Ordered_Map.thy ===== *)
theory Ordered_Map
  imports Susi_Prelude
begin

text \<open>
  Rust's \<open>BTreeMap\<close>: an association list strictly sorted by key. \<open>bt_get\<close>, \<open>bt_insert\<close>,
  \<open>bt_remove\<close> and \<open>bt_upsert\<close> are \<open>get\<close>, \<open>insert\<close>, \<open>remove\<close> and
  \<open>entry(k).or_insert(d)\<close> followed by an update in place. Iterating the map is iterating the list.

  The locale \<open>keyed_store\<close> is the interface the clients rely on; the lemmas about folds that
  group rows under a key are proved from it once and reach the model through its interpretation.
\<close>

type_synonym ('k, 'v) btree_map = "('k \<times> 'v) list"

definition bt_get :: "('k, 'v) btree_map \<Rightarrow> 'k \<Rightarrow> 'v option" where
  "bt_get = map_of"

fun bt_insert :: "'k::linorder \<Rightarrow> 'v \<Rightarrow> ('k, 'v) btree_map \<Rightarrow> ('k, 'v) btree_map" where
  "bt_insert k v [] = [(k, v)]"
| "bt_insert k v ((k', v') # m) =
     (if k < k' then (k, v) # (k', v') # m
      else if k = k' then (k, v) # m
      else (k', v') # bt_insert k v m)"

definition bt_remove :: "'k \<Rightarrow> ('k, 'v) btree_map \<Rightarrow> ('k, 'v) btree_map" where
  "bt_remove k m = filter (\<lambda>(k', _). k' \<noteq> k) m"

definition bt_upsert ::
  "'k::linorder \<Rightarrow> 'v \<Rightarrow> ('v \<Rightarrow> 'v) \<Rightarrow> ('k, 'v) btree_map \<Rightarrow> ('k, 'v) btree_map" where
  "bt_upsert k d f m = bt_insert k (f (case bt_get m k of None \<Rightarrow> d | Some v \<Rightarrow> v)) m"

definition bt_inv :: "('k::linorder, 'v) btree_map \<Rightarrow> bool" where
  "bt_inv m \<longleftrightarrow> sorted_wrt (<) (map fst m)"

section \<open>The interface of a keyed store\<close>

locale keyed_store =
  fixes empty :: 'm
    and get :: "'m \<Rightarrow> 'k \<Rightarrow> 'v option"
    and put :: "'k \<Rightarrow> 'v \<Rightarrow> 'm \<Rightarrow> 'm"
    and remove :: "'k \<Rightarrow> 'm \<Rightarrow> 'm"
    and invar :: "'m \<Rightarrow> bool"
  assumes get_empty: "get empty k = None"
    and get_put: "get (put k v m) k' = (if k' = k then Some v else get m k')"
    and get_remove: "get (remove k m) k' = (if k' = k then None else get m k')"
    and invar_empty: "invar empty"
    and invar_put: "invar m \<Longrightarrow> invar (put k v m)"
    and invar_remove: "invar m \<Longrightarrow> invar (remove k m)"
begin

text \<open>Grouping: a fold that updates the slot of each row's key leaves, under every key, the fold
  of that key's rows alone.\<close>

lemma get_fold_group:
  "get (fold (\<lambda>x m. put (key x) (f x (case get m (key x) of None \<Rightarrow> d | Some v \<Rightarrow> v)) m) xs m0) k =
     (if \<exists>x\<in>set xs. key x = k
      then Some (fold f (filter (\<lambda>x. key x = k) xs) (case get m0 k of None \<Rightarrow> d | Some v \<Rightarrow> v))
      else get m0 k)"
proof (induction xs arbitrary: m0)
  case (Cons x xs)
  show ?case
  proof (cases "key x = k")
    case True
    then show ?thesis
      using Cons [of "put k (f x (case get m0 k of None \<Rightarrow> d | Some v \<Rightarrow> v)) m0"]
      by (auto simp: get_put filter_empty_conv)
  next
    case False
    then show ?thesis by (simp add: Cons get_put)
  qed
qed simp

lemma get_fold_group_empty:
  "get (fold (\<lambda>x m. put (key x) (f x (case get m (key x) of None \<Rightarrow> d | Some v \<Rightarrow> v)) m) xs empty) k =
     (if \<exists>x\<in>set xs. key x = k then Some (fold f (filter (\<lambda>x. key x = k) xs) d) else None)"
  by (simp add: get_fold_group get_empty)

lemma invar_fold:
  "invar m0 \<Longrightarrow> (\<And>x m. invar m \<Longrightarrow> invar (g x m)) \<Longrightarrow> invar (fold g xs m0)"
  by (induction xs arbitrary: m0) auto

end

section \<open>\<open>BTreeMap\<close> provides the interface\<close>

lemma bt_get_insert [btree]: "bt_get (bt_insert k v m) k' = (if k' = k then Some v else bt_get m k')"
  by (induction k v m rule: bt_insert.induct) (auto simp: bt_get_def)

lemma bt_get_remove [btree]: "bt_get (bt_remove k m) k' = (if k' = k then None else bt_get m k')"
  by (induction m) (auto simp: bt_get_def bt_remove_def)

lemma bt_get_Nil [btree]: "bt_get [] k = None"
  by (simp add: bt_get_def)

lemma set_bt_insert: "fst ` set (bt_insert k v m) = insert k (fst ` set m)"
  by (induction k v m rule: bt_insert.induct) auto

lemma bt_inv_insert [btree]: "bt_inv m \<Longrightarrow> bt_inv (bt_insert k v m)"
proof (induction k v m rule: bt_insert.induct)
  case (2 k v k' v' m)
  have "k' < k \<Longrightarrow> \<forall>x\<in>set (bt_insert k v m). k' < fst x"
  proof -
    assume "k' < k"
    moreover have "\<forall>x\<in>set m. k' < fst x" using "2.prems" by (simp add: bt_inv_def)
    ultimately have "\<forall>y\<in>fst ` set (bt_insert k v m). k' < y" by (simp add: set_bt_insert)
    then show ?thesis by simp
  qed
  with 2 show ?case by (auto simp: bt_inv_def)
qed (simp add: bt_inv_def)

lemma bt_inv_remove [btree]: "bt_inv m \<Longrightarrow> bt_inv (bt_remove k m)"
  by (auto simp: bt_inv_def bt_remove_def sorted_wrt_map sorted_wrt_filter)

lemma bt_inv_Nil [btree]: "bt_inv []"
  by (simp add: bt_inv_def)

interpretation bt: keyed_store "[]" bt_get bt_insert bt_remove bt_inv
  by unfold_locales (simp_all add: btree)

lemma bt_get_upsert [btree]:
  "bt_get (bt_upsert k d f m) k' =
     (if k' = k then Some (f (case bt_get m k of None \<Rightarrow> d | Some v \<Rightarrow> v)) else bt_get m k')"
  by (simp add: bt_upsert_def btree)

lemma bt_inv_upsert [btree]: "bt_inv m \<Longrightarrow> bt_inv (bt_upsert k d f m)"
  by (simp add: bt_upsert_def btree)

lemma bt_get_fold_upsert:
  "bt_get (fold (\<lambda>x. bt_upsert (key x) d (f x)) xs []) k =
     (if \<exists>x\<in>set xs. key x = k then Some (fold f (filter (\<lambda>x. key x = k) xs) d) else None)"
  unfolding bt_upsert_def by (rule bt.get_fold_group_empty)

lemma bt_inv_fold_upsert: "bt_inv (fold (\<lambda>x. bt_upsert (key x) d (f x)) xs [])"
  by (rule bt.invar_fold) (simp_all add: btree)

section \<open>Entries of a sorted map\<close>

lemma bt_inv_distinct: "bt_inv m \<Longrightarrow> distinct (map fst m)"
  by (simp add: bt_inv_def strict_sorted_iff)

lemma bt_get_mem: "bt_inv m \<Longrightarrow> bt_get m k = Some v \<longleftrightarrow> (k, v) \<in> set m"
  by (simp add: bt_get_def bt_inv_distinct)

lemma bt_get_None: "bt_get m k = None \<longleftrightarrow> k \<notin> fst ` set m"
  by (simp add: bt_get_def map_of_eq_None_iff)

lemma bt_inv_filter: "bt_inv m \<Longrightarrow> bt_inv (filter P m)"
  by (auto simp: bt_inv_def sorted_wrt_map sorted_wrt_filter)

text \<open>Filtering entries, as \<open>into_iter().filter(..).collect()\<close> does.\<close>

lemma bt_get_filter:
  "bt_inv m \<Longrightarrow>
     bt_get (filter P m) k = (case bt_get m k of None \<Rightarrow> None | Some v \<Rightarrow> if P (k, v) then Some v else None)"
proof -
  assume inv: "bt_inv m"
  note mem = bt_get_mem [OF inv] and memf = bt_get_mem [OF bt_inv_filter [OF inv], of P]
  show ?thesis
  proof (cases "bt_get m k")
    case None
    then have "bt_get (filter P m) k = None" by (auto simp: bt_get_None)
    with None show ?thesis by simp
  next
    case (Some v)
    then have "(k, v) \<in> set m" by (simp add: mem)
    have "P (k, v) \<Longrightarrow> bt_get (filter P m) k = Some v"
      using \<open>(k, v) \<in> set m\<close> by (simp add: memf)
    moreover have "\<not> P (k, v) \<Longrightarrow> bt_get (filter P m) k = None"
    proof (rule ccontr)
      assume "\<not> P (k, v)" and "bt_get (filter P m) k \<noteq> None"
      then obtain w where "(k, w) \<in> set m" "P (k, w)" by (auto simp: memf)
      then have "bt_get m k = Some w" by (simp add: mem)
      with Some \<open>P (k, w)\<close> \<open>\<not> P (k, v)\<close> show False by simp
    qed
    ultimately show ?thesis using Some by simp
  qed
qed

text \<open>A sorted map is determined by its lookups.\<close>

lemma bt_ext:
  assumes "bt_inv m" and "bt_inv m'" and "\<And>k. bt_get m k = bt_get m' k"
  shows "m = m'"
proof -
  have "set m = set m'"
    using assms bt_get_mem by (metis set_eqI surj_pair)
  then have keys: "map fst m = map fst m'"
    using assms(1,2) by (simp add: bt_inv_def strict_sorted_equal)
  have rebuild: "map (\<lambda>k. (k, the (bt_get x k))) (map fst x) = x" if "bt_inv x" for x :: "('a \<times> 'b) list"
  proof (rule map_idI [THEN trans [rotated]])
    show "map (\<lambda>k. (k, the (bt_get x k))) (map fst x) = map (\<lambda>p. (fst p, the (bt_get x (fst p)))) x" by simp
  next
    fix p
    assume "p \<in> set x"
    then have "bt_get x (fst p) = Some (snd p)" using that by (simp add: bt_get_mem)
    then show "(fst p, the (bt_get x (fst p))) = p" by simp
  qed
  show ?thesis
    using rebuild [OF assms(1)] rebuild [OF assms(2)] keys assms(3) by simp
qed

text \<open>A pass over the values, as \<open>values_mut\<close> makes it.\<close>

lemma bt_get_map: "bt_get (map (\<lambda>(i, e). (i, f e)) m) i = map_option f (bt_get m i)"
  by (induction m) (auto simp: bt_get_def)

lemma bt_inv_map: "bt_inv (map (\<lambda>(i, e). (i, f e)) m) \<longleftrightarrow> bt_inv m"
proof -
  have "map fst (map (\<lambda>(i, e). (i, f e)) m) = map fst m" by (induction m) auto
  then show ?thesis by (simp only: bt_inv_def)
qed

end
