(* ===== verification/Ratelimit.thy ===== *)
theory Ratelimit
  imports Susi_Strings Ordered_Map
begin

text \<open>
  \<open>crates/susi-harness/src/ratelimit.rs\<close>: per-provider pacing. A lane is one provider's limits and
  recent traffic; the pacer maps provider names to lanes. The pacer's mutex makes each operation
  atomic. Limits that are not given are read from the environment, which is the parameter
  \<open>configured\<close>. A reservation that is dropped without \<open>keep\<close> calls \<open>release\<close>.
\<close>

definition WINDOW_MS :: u64 where
  "WINDOW_MS = 60000"

definition MAX_PAUSE_MS :: u64 where
  "MAX_PAUSE_MS = 120000"

record limits =
  l_rpm :: "u32 option"
  l_tpm :: "u64 option"

record lane =
  ln_limits :: "limits option"
  ln_calls :: "u64 list"
  ln_tokens :: "(u64 \<times> u64) list"
  ln_paused_until :: u64

definition lane_default :: lane where
  "lane_default = \<lparr>ln_limits = None, ln_calls = [], ln_tokens = [], ln_paused_until = 0\<rparr>"

definition prune_calls :: "u64 \<Rightarrow> u64 list \<Rightarrow> u64 list" where
  "prune_calls horizon = dropWhile (\<lambda>start. start < horizon)"

definition prune_tokens :: "u64 \<Rightarrow> (u64 \<times> u64) list \<Rightarrow> (u64 \<times> u64) list" where
  "prune_tokens horizon = dropWhile (\<lambda>(at, _). at < horizon)"

definition rpm_start :: "u32 option \<Rightarrow> u64 list \<Rightarrow> u64 \<Rightarrow> u64" where
  "rpm_start rpm_opt calls start =
     (case rpm_opt of
        None \<Rightarrow> start
      | Some rpm \<Rightarrow>
          if rpm = 0 then start
          else if unat rpm \<le> length calls
          then max start (sat_add (calls ! (length calls - unat rpm)) WINDOW_MS)
          else start)"

fun age_tokens :: "u64 \<Rightarrow> u64 \<Rightarrow> u64 \<Rightarrow> (u64 \<times> u64) list \<Rightarrow> u64" where
  "age_tokens tpm used start [] = start"
| "age_tokens tpm used start ((at, tokens) # rest) =
     (if used < tpm then start
      else age_tokens tpm (sat_sub used tokens) (max start (sat_add at WINDOW_MS)) rest)"

definition tpm_start :: "u64 option \<Rightarrow> (u64 \<times> u64) list \<Rightarrow> u64 \<Rightarrow> u64" where
  "tpm_start tpm_opt tokens start =
     (case tpm_opt of
        None \<Rightarrow> start
      | Some tpm \<Rightarrow> if tpm = 0 then start else age_tokens tpm (\<Sum>(_, n)\<leftarrow>tokens. n) start tokens)"

definition next_start :: "limits \<Rightarrow> lane \<Rightarrow> u64 \<Rightarrow> limits option \<Rightarrow> u64 \<times> lane" where
  "next_start configured lane0 now_ms given =
     (let lim = (case ln_limits lane0 of Some l \<Rightarrow> l
                 | None \<Rightarrow> (case given of Some l \<Rightarrow> l | None \<Rightarrow> configured));
          horizon = sat_sub now_ms WINDOW_MS;
          lane1 = lane0\<lparr>ln_limits := Some lim, ln_calls := prune_calls horizon (ln_calls lane0),
                        ln_tokens := prune_tokens horizon (ln_tokens lane0)\<rparr>;
          start = max now_ms (ln_paused_until lane1);
          start1 = rpm_start (l_rpm lim) (ln_calls lane1) start;
          start2 = tpm_start (l_tpm lim) (ln_tokens lane1) start1
      in (start2, lane1))"

text \<open>\<open>partition_point\<close> on a sorted queue: how many leading elements satisfy the predicate.\<close>

definition partition_point :: "('a \<Rightarrow> bool) \<Rightarrow> 'a list \<Rightarrow> nat" where
  "partition_point P xs = length (takeWhile P xs)"

definition insert_at :: "nat \<Rightarrow> 'a \<Rightarrow> 'a list \<Rightarrow> 'a list" where
  "insert_at n x xs = take n xs @ x # drop n xs"

definition drop_at :: "nat \<Rightarrow> 'a list \<Rightarrow> 'a list" where
  "drop_at n xs = take n xs @ drop (Suc n) xs"

definition take_slot :: "lane \<Rightarrow> u64 \<Rightarrow> lane" where
  "take_slot l start =
     l\<lparr>ln_calls := insert_at (partition_point (\<lambda>reserved. reserved \<le> start) (ln_calls l)) start (ln_calls l)\<rparr>"

type_synonym pacer = "(string, lane) btree_map"

definition lane_of :: "pacer \<Rightarrow> string \<Rightarrow> lane" where
  "lane_of p provider = (case bt_get p provider of Some l \<Rightarrow> l | None \<Rightarrow> lane_default)"

text \<open>A reservation: its provider, its start and how long the call waits for it.\<close>

record reservation =
  rv_provider :: string
  rv_start :: u64
  rv_wait_ms :: u64

definition reservation_new :: "string \<Rightarrow> u64 \<Rightarrow> u64 \<Rightarrow> reservation" where
  "reservation_new provider start now_ms =
     \<lparr>rv_provider = provider, rv_start = start, rv_wait_ms = sat_sub start now_ms\<rparr>"

definition hold ::
  "(string \<Rightarrow> limits) \<Rightarrow> pacer \<Rightarrow> string \<Rightarrow> u64 \<Rightarrow> limits option \<Rightarrow> reservation \<times> pacer" where
  "hold configured p provider now_ms given =
     (let (start, l) = next_start (configured provider) (lane_of p provider) now_ms given
      in (reservation_new provider start now_ms, bt_insert provider (take_slot l start) p))"

definition hold_within ::
  "(string \<Rightarrow> limits) \<Rightarrow> pacer \<Rightarrow> string \<Rightarrow> u64 \<Rightarrow> limits option \<Rightarrow> u64 \<Rightarrow> (u64 + reservation) \<times> pacer" where
  "hold_within configured p provider now_ms given max_wait_ms =
     (let (start, l) = next_start (configured provider) (lane_of p provider) now_ms given;
          wait_ms = sat_sub start now_ms
      in if max_wait_ms < wait_ms then (Inl wait_ms, bt_insert provider l p)
         else (Inr (reservation_new provider start now_ms), bt_insert provider (take_slot l start) p))"

definition reserve_wait ::
  "(string \<Rightarrow> limits) \<Rightarrow> pacer \<Rightarrow> string \<Rightarrow> u64 \<Rightarrow> limits option \<Rightarrow> u64 \<times> pacer" where
  "reserve_wait configured p provider now_ms given =
     (let (r, p') = hold configured p provider now_ms given in (rv_wait_ms r, p'))"

definition release_slot :: "lane \<Rightarrow> u64 \<Rightarrow> lane" where
  "release_slot l start =
     (let position = partition_point (\<lambda>reserved. reserved < start) (ln_calls l)
      in if position < length (ln_calls l) \<and> ln_calls l ! position = start
         then l\<lparr>ln_calls := drop_at position (ln_calls l)\<rparr> else l)"

definition release :: "pacer \<Rightarrow> string \<Rightarrow> u64 \<Rightarrow> pacer" where
  "release p provider start =
     (case bt_get p provider of
        None \<Rightarrow> p
      | Some l \<Rightarrow> bt_insert provider (release_slot l start) p)"

definition record_tokens :: "pacer \<Rightarrow> string \<Rightarrow> u64 \<Rightarrow> u64 \<Rightarrow> pacer" where
  "record_tokens p provider at_ms tokens =
     (let l = lane_of p provider;
          position = partition_point (\<lambda>(seen, _). seen \<le> at_ms) (ln_tokens l)
      in bt_insert provider (l\<lparr>ln_tokens := insert_at position (at_ms, tokens) (ln_tokens l)\<rparr>) p)"

definition pause :: "pacer \<Rightarrow> string \<Rightarrow> u64 \<Rightarrow> u64 \<Rightarrow> pacer" where
  "pause p provider now_ms retry_after =
     (let l = lane_of p provider;
          until = sat_add now_ms (min retry_after MAX_PAUSE_MS)
      in bt_insert provider (l\<lparr>ln_paused_until := max (ln_paused_until l) until\<rparr>) p)"

fun take_millis :: "nat \<Rightarrow> u64 \<Rightarrow> string \<Rightarrow> u64 \<times> string" where
  "take_millis 0 millis rest = (millis, rest)"
| "take_millis (Suc n) millis [] = take_millis n (millis * 10) []"
| "take_millis (Suc n) millis (c # rest) = take_millis n (millis * 10 + of_nat (digit_val c)) rest"

definition retry_after_ms :: "string \<Rightarrow> u64 option" where
  "retry_after_ms value =
     (let text = trim value;
          (whole, fraction) = (case split_once CHR ''.'' text of Some p \<Rightarrow> p | None \<Rightarrow> (text, []))
      in if whole = [] \<or> \<not> list_all is_ascii_digit whole \<or> \<not> list_all is_ascii_digit fraction then None
         else case parse_u64 whole of
             None \<Rightarrow> None
           | Some seconds \<Rightarrow>
               let (millis, rest) = take_millis 3 0 fraction;
                   millis' = (if \<not> list_all (\<lambda>c. c = CHR ''0'') rest then millis + 1 else millis)
               in Some (sat_add (sat_mul seconds 1000) millis'))"

section \<open>Sorted queues\<close>

lemma take_partition: "take (partition_point P xs) xs = takeWhile P xs"
  unfolding partition_point_def by (rule takeWhile_eq_take [symmetric])

lemma drop_partition: "drop (partition_point P xs) xs = dropWhile P xs"
  unfolding partition_point_def by (rule dropWhile_eq_drop [symmetric])

lemma insert_at_partition: "insert_at (partition_point P xs) x xs = takeWhile P xs @ x # dropWhile P xs"
  by (simp add: insert_at_def take_partition drop_partition)

lemma takeWhile_le_sorted: "sorted xs \<Longrightarrow> x \<in> set (dropWhile (\<lambda>y. y \<le> s) xs) \<Longrightarrow> s < x"
  for s :: "'a::linorder"
proof (induction xs)
  case (Cons a xs)
  then show ?case by (cases "a \<le> s") (auto simp: not_le intro: less_le_trans)
qed simp

lemma sorted_insert_at:
  fixes s :: "'a::linorder"
  assumes "sorted xs"
  shows "sorted (insert_at (partition_point (\<lambda>y. y \<le> s) xs) s xs)"
proof -
  have split: "takeWhile (\<lambda>y. y \<le> s) xs @ dropWhile (\<lambda>y. y \<le> s) xs = xs" by simp
  then have "sorted (takeWhile (\<lambda>y. y \<le> s) xs)" "sorted (dropWhile (\<lambda>y. y \<le> s) xs)"
    using assms by (metis sorted_append)+
  moreover have "\<forall>x\<in>set (dropWhile (\<lambda>y. y \<le> s) xs). s < x"
    using takeWhile_le_sorted [OF assms] by blast
  moreover have "\<forall>x\<in>set (takeWhile (\<lambda>y. y \<le> s) xs). x \<le> s" by (auto dest: set_takeWhileD)
  ultimately show ?thesis
    by (force simp: insert_at_partition sorted_append)
qed

lemma mset_insert_at: "mset (insert_at n x xs) = add_mset x (mset xs)"
proof -
  have "mset (take n xs) + mset (drop n xs) = mset xs" by (metis append_take_drop_id mset_append)
  then show ?thesis by (simp add: insert_at_def)
qed

lemma sorted_mono_map: "mono f \<Longrightarrow> sorted xs \<Longrightarrow> sorted (map f xs)"
  by (induction xs) (auto dest: monoD)

lemma mono_unat: "mono (unat :: 'a::len word \<Rightarrow> nat)"
  by (rule monoI) (simp add: word_le_nat_alt)

lemma nth_mem_drop: "k \<le> j \<Longrightarrow> j < length xs \<Longrightarrow> xs ! j \<in> set (drop k xs)"
  using nth_mem [of "j - k" "drop k xs"] by simp

section \<open>The sliding window\<close>

text \<open>\<open>paced m w r xs\<close>: of an ascending list, any element is at least \<open>w\<close> after the one \<open>r\<close>
  places before it, the sum capped at \<open>m\<close> as the saturating addition caps it.\<close>

definition paced :: "nat \<Rightarrow> nat \<Rightarrow> nat \<Rightarrow> nat list \<Rightarrow> bool" where
  "paced m w r xs \<longleftrightarrow> (\<forall>i. i + r < length xs \<longrightarrow> min m (xs ! i + w) \<le> xs ! (i + r))"

lemma pacedD: "paced m w r xs \<Longrightarrow> i + r < length xs \<Longrightarrow> min m (xs ! i + w) \<le> xs ! (i + r)"
  by (simp add: paced_def)

lemma filter_window_sorted:
  "sorted (xs :: nat list) \<Longrightarrow>
     filter (\<lambda>s. t \<le> s \<and> s < u) xs = takeWhile (\<lambda>s. s < u) (dropWhile (\<lambda>s. s < t) xs)"
proof (induction xs)
  case (Cons a xs)
  show ?case
  proof (cases "a < t")
    case False
    have d: "dropWhile (\<lambda>s. s < t) xs = xs"
      using Cons.prems False by (cases xs) auto
    have "u \<le> a \<Longrightarrow> filter (\<lambda>s. t \<le> s \<and> s < u) xs = []"
      using Cons.prems by (auto simp: filter_empty_conv)
    with False Cons d show ?thesis by auto
  qed (use Cons in simp)
qed simp

text \<open>A paced list has at most \<open>r\<close> elements in any window of width \<open>w\<close>.\<close>

lemma paced_window_count:
  assumes "sorted xs" and "paced m w r xs" and cap: "t + w \<le> m"
  shows "length (filter (\<lambda>s. t \<le> s \<and> s < t + w) xs) \<le> r"
proof (rule ccontr)
  let ?d = "length (takeWhile (\<lambda>s. s < t) xs)"
  let ?ys = "takeWhile (\<lambda>s. s < t + w) (dropWhile (\<lambda>s. s < t) xs)"
  assume "\<not> ?thesis"
  then have len: "r < length ?ys" by (simp add: filter_window_sorted [OF assms(1)])
  have drop: "dropWhile (\<lambda>s. s < t) xs = drop ?d xs" by (rule dropWhile_eq_drop)
  have "length ?ys \<le> length (drop ?d xs)" unfolding drop by (rule length_takeWhile_le)
  with len have bound: "?d + r < length xs" by simp
  have "?ys ! r = drop ?d xs ! r" using len by (simp add: takeWhile_nth drop)
  moreover have "?ys ! r < t + w" using len by (metis nth_mem set_takeWhileD)
  ultimately have hi: "xs ! (?d + r) < t + w" using bound by simp
  have "0 < length ?ys" using len by linarith
  then have "drop ?d xs \<noteq> []" using drop by auto
  then have "\<not> hd (dropWhile (\<lambda>s. s < t) xs) < t" using drop hd_dropWhile by metis
  then have lo: "t \<le> xs ! ?d" using bound by (simp add: drop hd_drop_conv_nth)
  from pacedD [OF assms(2) bound] lo hi cap show False by (simp add: min_def split: if_splits)
qed

text \<open>Inserting a start that is late enough keeps the pace, wherever it lands.\<close>

lemma paced_insert:
  assumes sorted: "sorted xs" and paced: "paced m w r xs"
    and late: "r \<le> length xs \<Longrightarrow> min m (xs ! (length xs - r) + w) \<le> s" and r: "0 < r"
    and cap: "\<forall>x\<in>set xs. x \<le> m"
  shows "paced m w r (insert_at (partition_point (\<lambda>y. y \<le> s) xs) s xs)"
  unfolding paced_def
proof (intro allI impI)
  let ?k = "partition_point (\<lambda>y. y \<le> s) xs" and ?n = "length xs"
  let ?ys = "insert_at ?k s xs"
  fix i assume i: "i + r < length ?ys"
  have k: "?k \<le> ?n" by (simp add: partition_point_def length_takeWhile_le)
  have len: "length ?ys = Suc ?n" using k by (simp add: insert_at_def)
  have below: "?ys ! j = xs ! j" if "j < ?k" for j using that k by (simp add: insert_at_def nth_append)
  have at: "?ys ! ?k = s" using k by (simp add: insert_at_def nth_append)
  have above: "?ys ! j = xs ! (j - 1)" if kj: "?k < j" "j < Suc ?n" for j
  proof -
    obtain d where d: "j = ?k + Suc d" using less_imp_Suc_add [OF kj(1)] by auto
    then show ?thesis using k kj(2) by (simp add: insert_at_def nth_append)
  qed
  have rn: "r \<le> ?n" using i len r by simp
  note late' = late [OF rn]
  have mono: "xs ! a \<le> xs ! b" if "a \<le> b" "b < ?n" for a b
    using sorted that by (rule sorted_nth_mono)
  have past: "?n - r < ?k"
  proof (rule ccontr)
    assume "\<not> ?n - r < ?k"
    then have "xs ! (?n - r) \<in> set (drop ?k xs)"
      using rn r by (intro nth_mem_drop) auto
    then have "s < xs ! (?n - r)"
      using takeWhile_le_sorted [OF sorted] by (simp add: drop_partition)
    moreover have "xs ! (?n - r) \<le> m" using cap rn r by simp
    ultimately show False using late' by simp
  qed
  then have ik: "i < ?k" using i len by linarith
  have xi: "xs ! i \<le> xs ! (?n - r)" using i len rn r by (intro mono) auto
  show "min m (?ys ! i + w) \<le> ?ys ! (i + r)"
  proof (cases "i + r < ?k")
    case True
    with paced k show ?thesis using pacedD [OF paced, of i] by (simp add: below ik)
  next
    case False
    show ?thesis
    proof (cases "i + r = ?k")
      case True
      with xi late' show ?thesis using at by (simp add: below ik)
    next
      case b: False
      with False have gt: "?k < i + r" by simp
      have "xs ! (i + r - 1) \<in> set (drop ?k xs)"
        using gt i len by (intro nth_mem_drop) auto
      then have "s < xs ! (i + r - 1)"
        using takeWhile_le_sorted [OF sorted] by (simp add: drop_partition)
      with xi late' above [OF gt] i len show ?thesis by (simp add: below ik)
    qed
  qed
qed

text \<open>Removing an element keeps the pace: what was \<open>r\<close> places apart is now further apart.\<close>

lemma paced_remove:
  assumes sorted: "sorted xs" and paced: "paced m w r xs" and j: "j < length xs"
  shows "paced m w r (drop_at j xs)"
  unfolding paced_def
proof (intro allI impI)
  fix i assume i: "i + r < length (drop_at j xs)"
  let ?ix = "\<lambda>i. if i < j then i else Suc i"
  have nth: "drop_at j xs ! a = xs ! ?ix a" if "a < length (drop_at j xs)" for a
    using that j by (auto simp: drop_at_def nth_append min_def)
  have len: "?ix (i + r) < length xs" using i j by (auto simp: drop_at_def)
  have far: "?ix i + r \<le> ?ix (i + r)" by simp
  have "min m (xs ! ?ix i + w) \<le> xs ! (?ix i + r)"
    using pacedD [OF paced] far len by (meson le_less_trans)
  also have "\<dots> \<le> xs ! ?ix (i + r)" using sorted far len by (rule sorted_nth_mono)
  finally show "min m (drop_at j xs ! i + w) \<le> drop_at j xs ! (i + r)"
    using i nth [of i] nth [of "i + r"] by simp
qed

lemma sorted_remove_at: "sorted xs \<Longrightarrow> sorted (drop_at j xs)"
proof -
  assume "sorted xs"
  then have "sorted (take j xs @ drop j xs)" by simp
  then have "sorted (take j xs)" "\<forall>x\<in>set (take j xs). \<forall>y\<in>set (drop j xs). x \<le> y"
    unfolding sorted_append by blast+
  moreover have "set (drop (Suc j) xs) \<subseteq> set (drop j xs)" by (rule set_drop_subset_set_drop) simp
  ultimately show ?thesis
    using \<open>sorted xs\<close> sorted_wrt_drop [of "(\<le>)" xs "Suc j"]
    by (auto simp: drop_at_def sorted_append)
qed

lemma mset_remove_at: "j < length xs \<Longrightarrow> mset (drop_at j xs) = mset xs - {#xs ! j#}"
proof -
  assume j: "j < length xs"
  have "mset xs = mset (take j xs @ xs ! j # drop (Suc j) xs)" using id_take_nth_drop [OF j] by simp
  then show ?thesis by (simp add: drop_at_def)
qed

lemma map_insert_at: "map f (insert_at n x xs) = insert_at n (f x) (map f xs)"
  by (simp add: insert_at_def take_map drop_map)

lemma map_remove_at: "map f (drop_at n xs) = drop_at n (map f xs)"
  by (simp add: drop_at_def take_map drop_map)

lemma remove_at_append: "drop_at (length ys + n) (ys @ xs) = ys @ drop_at n xs"
  by (simp add: drop_at_def)

lemma insert_at_append: "insert_at (length ys + n) x (ys @ xs) = ys @ insert_at n x xs"
  by (simp add: insert_at_def)

lemma partition_point_append:
  "\<forall>y\<in>set ys. P y \<Longrightarrow> partition_point P (ys @ xs) = length ys + partition_point P xs"
  by (simp add: partition_point_def)

lemma partition_point_map: "partition_point P (map f xs) = partition_point (\<lambda>x. P (f x)) xs"
  by (simp add: partition_point_def takeWhile_map o_def)

text \<open>\<open>partition_point\<close> of the strict order finds an element of a sorted list.\<close>

lemma partition_point_finds:
  fixes s :: "'a::linorder"
  assumes "sorted xs" and "s \<in> set xs"
  shows "partition_point (\<lambda>y. y < s) xs < length xs \<and> xs ! partition_point (\<lambda>y. y < s) xs = s"
  using assms
proof (induction xs)
  case (Cons a xs)
  then show ?case by (cases "a < s") (auto simp: partition_point_def)
qed simp

end
