(* ===== verification/Ratelimit_Run.thy ===== *)
theory Ratelimit_Run
  imports Ratelimit
begin

text \<open>
  The pacer of \<open>crates/susi-harness/src/ratelimit.rs\<close> under any interleaving of its callers. The mutex
  makes each operation one step; \<open>pr_starts\<close> is the history of the starts that were granted and not
  given back, pruned ones included, which the pacer itself does not keep. The clock does not run
  backwards between two reservations.
\<close>

record pacer_run =
  pr_pacer :: pacer
  pr_now :: u64
  pr_starts :: "(string \<times> u64) list"

definition pacer_run_start :: pacer_run where
  "pacer_run_start = \<lparr>pr_pacer = [], pr_now = 0, pr_starts = []\<rparr>"

inductive pacer_step :: "(string \<Rightarrow> limits) \<Rightarrow> pacer_run \<Rightarrow> pacer_run \<Rightarrow> bool" for c where
  step_hold: "pr_now s \<le> now \<Longrightarrow> hold c (pr_pacer s) pv now given = (r, p) \<Longrightarrow>
     pacer_step c s \<lparr>pr_pacer = p, pr_now = now, pr_starts = (pv, rv_start r) # pr_starts s\<rparr>"
| step_within: "pr_now s \<le> now \<Longrightarrow> hold_within c (pr_pacer s) pv now given mx = (Inr r, p) \<Longrightarrow>
     pacer_step c s \<lparr>pr_pacer = p, pr_now = now, pr_starts = (pv, rv_start r) # pr_starts s\<rparr>"
| step_refused: "pr_now s \<le> now \<Longrightarrow> hold_within c (pr_pacer s) pv now given mx = (Inl w, p) \<Longrightarrow>
     pacer_step c s (s\<lparr>pr_pacer := p, pr_now := now\<rparr>)"
| step_release: "(pv, start) \<in> set (pr_starts s) \<Longrightarrow>
     pacer_step c s (s\<lparr>pr_pacer := release (pr_pacer s) pv start,
                       pr_starts := remove1 (pv, start) (pr_starts s)\<rparr>)"
| step_tokens: "pacer_step c s (s\<lparr>pr_pacer := record_tokens (pr_pacer s) pv at n\<rparr>)"
| step_pause: "pacer_step c s (s\<lparr>pr_pacer := pause (pr_pacer s) pv now n\<rparr>)"

inductive pacer_reachable :: "(string \<Rightarrow> limits) \<Rightarrow> pacer_run \<Rightarrow> bool" for c where
  reach_start: "pacer_reachable c pacer_run_start"
| reach_step: "pacer_reachable c s \<Longrightarrow> pacer_step c s s' \<Longrightarrow> pacer_reachable c s'"

definition starts_of :: "string \<Rightarrow> pacer_run \<Rightarrow> nat list" where
  "starts_of pv s = map (unat \<circ> snd) (filter (\<lambda>(p, _). p = pv) (pr_starts s))"

section \<open>One lane\<close>

text \<open>\<open>old\<close> are the starts the lane has pruned. Before the first reservation fixes the limits the
  lane has no starts.\<close>

definition lane_ok :: "u64 \<Rightarrow> u64 list \<Rightarrow> lane \<Rightarrow> bool" where
  "lane_ok now old l \<longleftrightarrow>
     sorted (old @ ln_calls l) \<and> (\<forall>x\<in>set old. unat x + 60000 < unat now)
     \<and> (ln_limits l = None \<longrightarrow> old = [] \<and> ln_calls l = [])
     \<and> (\<forall>lim r. ln_limits l = Some lim \<and> l_rpm lim = Some r \<and> r \<noteq> 0 \<longrightarrow>
          paced (2 ^ 64 - 1) 60000 (unat r) (map unat (old @ ln_calls l)))"

text \<open>The start is late enough for the lane's requests-per-minute cap.\<close>

definition late_start :: "u64 list \<Rightarrow> lane \<Rightarrow> u64 \<Rightarrow> bool" where
  "late_start old l start \<longleftrightarrow>
     (\<forall>x\<in>set old. x \<le> start)
     \<and> (\<forall>lim r. ln_limits l = Some lim \<and> l_rpm lim = Some r \<and> r \<noteq> 0 \<longrightarrow>
          (let xs = map unat (old @ ln_calls l) in unat r \<le> length xs \<longrightarrow>
             min (2 ^ 64 - 1) (xs ! (length xs - unat r) + 60000) \<le> unat start))"

lemma unat_WINDOW_MS: "unat WINDOW_MS = 60000"
  by (simp add: WINDOW_MS_def)

lemma age_tokens_ge: "start \<le> age_tokens tpm used start ts"
  by (induction tpm used start ts rule: age_tokens.induct) (auto intro: order_trans)

lemma tpm_start_ge: "start \<le> tpm_start t ts start"
  by (simp add: tpm_start_def age_tokens_ge split: option.splits)

lemma rpm_start_ge: "start \<le> rpm_start r cs start"
  by (simp add: rpm_start_def split: option.splits)

lemma rpm_start_mono: "a \<le> b \<Longrightarrow> rpm_start r cs a \<le> rpm_start r cs b"
  by (auto simp: rpm_start_def max_def split: option.splits)

lemma next_start_lane:
  assumes "next_start c l now g = (start, l')"
  shows "\<exists>lim. ln_limits l' = Some lim \<and> (ln_limits l \<noteq> None \<longrightarrow> ln_limits l = Some lim)
    \<and> ln_calls l' = prune_calls (sat_sub now WINDOW_MS) (ln_calls l)
    \<and> now \<le> start \<and> ln_paused_until l \<le> start \<and> rpm_start (l_rpm lim) (ln_calls l') now \<le> start"
proof -
  let ?lim = "case ln_limits l of Some l \<Rightarrow> l | None \<Rightarrow> (case g of Some l \<Rightarrow> l | None \<Rightarrow> c)"
  let ?cs = "prune_calls (sat_sub now WINDOW_MS) (ln_calls l)"
  let ?s = "max now (ln_paused_until l)"
  have l': "ln_limits l' = Some ?lim" "ln_calls l' = ?cs"
    and start: "start = tpm_start (l_tpm ?lim) (ln_tokens l') (rpm_start (l_rpm ?lim) ?cs ?s)"
    using assms by (auto simp: next_start_def Let_def)
  have "rpm_start (l_rpm ?lim) ?cs ?s \<le> start" unfolding start by (rule tpm_start_ge)
  moreover have "?s \<le> rpm_start (l_rpm ?lim) ?cs ?s" by (rule rpm_start_ge)
  moreover have "rpm_start (l_rpm ?lim) ?cs now \<le> rpm_start (l_rpm ?lim) ?cs ?s" by (rule rpm_start_mono) simp
  ultimately show ?thesis using l' by (intro exI [of _ ?lim]) (auto split: option.splits)
qed

lemma rpm_start_late:
  assumes "rpm_start (Some r) cs now \<le> start" and "r \<noteq> 0" and "unat r \<le> length cs"
  shows "min (2 ^ 64 - 1) (unat (cs ! (length cs - unat r)) + 60000) \<le> unat start"
proof -
  have "sat_add (cs ! (length cs - unat r)) WINDOW_MS \<le> start"
    using assms by (auto simp: rpm_start_def)
  then show ?thesis by (simp add: word_le_nat_alt unats unat_WINDOW_MS min.commute)
qed

lemma nth_append_mem: "n < length ys \<Longrightarrow> (ys @ zs) ! n \<in> set ys"
  by (simp add: nth_append)

lemma next_start_ok:
  assumes ok: "lane_ok now0 old l" and le: "now0 \<le> now" and ns: "next_start c l now g = (start, l')"
  shows "\<exists>old'. lane_ok now old' l' \<and> late_start old' l' start \<and> old' @ ln_calls l' = old @ ln_calls l"
proof -
  let ?h = "sat_sub now WINDOW_MS"
  let ?gone = "takeWhile (\<lambda>s. s < ?h) (ln_calls l)"
  let ?old = "old @ ?gone"
  obtain lim where lim: "ln_limits l' = Some lim" "ln_limits l \<noteq> None \<longrightarrow> ln_limits l = Some lim"
    and calls: "ln_calls l' = prune_calls ?h (ln_calls l)"
    and start: "now \<le> start" "rpm_start (l_rpm lim) (ln_calls l') now \<le> start"
    using next_start_lane [OF ns] by blast
  have same: "?old @ ln_calls l' = old @ ln_calls l" by (simp add: calls prune_calls_def)
  have gone: "\<forall>x\<in>set ?gone. unat x + 60000 < unat now"
    by (auto dest!: set_takeWhileD simp: word_less_nat_alt unats unat_WINDOW_MS)
  have old: "\<forall>x\<in>set ?old. unat x + 60000 < unat now"
    using ok le gone by (auto simp: lane_ok_def word_le_nat_alt)
  have "paced (2 ^ 64 - 1) 60000 (unat r) (map unat (old @ ln_calls l))" if "l_rpm lim = Some r" "r \<noteq> 0" for r
    using ok that lim(2) by (cases "ln_limits l") (auto simp: lane_ok_def paced_def)
  then have "lane_ok now ?old l'"
    unfolding lane_ok_def same using ok old lim(1) by (auto simp: lane_ok_def)
  moreover have "late_start ?old l' start"
  proof -
    let ?xs = "map unat (?old @ ln_calls l')"
    have below: "\<forall>x\<in>set ?old. unat x + 60000 \<le> unat start"
    proof
      fix x assume "x \<in> set ?old"
      with old have "unat x + 60000 < unat now" by blast
      with start(1) show "unat x + 60000 \<le> unat start" unfolding word_le_nat_alt by linarith
    qed
    have "min (2 ^ 64 - 1) (?xs ! (length ?xs - unat r) + 60000) \<le> unat start"
      if r: "l_rpm lim = Some r" "r \<noteq> 0" and len: "unat r \<le> length ?xs" for r
    proof (cases "unat r \<le> length (ln_calls l')")
      case True
      have r0: "0 < unat r" using r(2) by (simp add: unat_gt_0)
      have "?xs ! (length ?xs - unat r) = unat (ln_calls l' ! (length (ln_calls l') - unat r))"
        using True r0 by (auto simp: nth_append)
      with rpm_start_late [OF _ r(2) True] start(2) r(1) show ?thesis by simp
    next
      case False
      have "length ?xs - unat r < length (map unat ?old)" using False len by auto
      then have "(map unat ?old @ map unat (ln_calls l')) ! (length ?xs - unat r) \<in> set (map unat ?old)"
        by (rule nth_append_mem)
      then have "?xs ! (length ?xs - unat r) \<in> set (map unat ?old)" by (subst map_append)
      then have "?xs ! (length ?xs - unat r) + 60000 \<le> unat start" using below by auto
      then show ?thesis by simp
    qed
    moreover have "\<forall>x\<in>set ?old. x \<le> start" using below unfolding word_le_nat_alt by (meson add_leD1)
    ultimately show ?thesis unfolding late_start_def lim(1) Let_def by blast
  qed
  ultimately show ?thesis using same by blast
qed

lemma sorted_map_unat: "sorted (xs :: 'a::len word list) \<Longrightarrow> sorted (map unat xs)"
  by (rule sorted_mono_map [OF mono_unat])

lemma take_slot_ok:
  assumes ok: "lane_ok now old l" and late: "late_start old l start" and lim: "ln_limits l \<noteq> None"
  shows "lane_ok now old (take_slot l start)
    \<and> mset (old @ ln_calls (take_slot l start)) = add_mset start (mset (old @ ln_calls l))"
proof -
  let ?all = "old @ ln_calls l"
  have whole: "old @ ln_calls (take_slot l start) = insert_at (partition_point (\<lambda>y. y \<le> start) ?all) start ?all"
    using late by (simp add: take_slot_def late_start_def partition_point_append insert_at_append)
  have srt: "sorted ?all" using ok by (simp add: lane_ok_def)
  have "paced (2 ^ 64 - 1) 60000 (unat r) (map unat (old @ ln_calls (take_slot l start)))"
    if r: "ln_limits l = Some lm" "l_rpm lm = Some r" "r \<noteq> 0" for lm r
  proof -
    let ?xs = "map unat ?all"
    have pp: "partition_point (\<lambda>y. y \<le> start) ?all = partition_point (\<lambda>y. y \<le> unat start) ?xs"
      by (simp only: partition_point_map word_le_nat_alt)
    have "paced (2 ^ 64 - 1) 60000 (unat r) (insert_at (partition_point (\<lambda>y. y \<le> unat start) ?xs) (unat start) ?xs)"
    proof (rule paced_insert)
      show "sorted ?xs" using srt by (rule sorted_map_unat)
      show "paced (2 ^ 64 - 1) 60000 (unat r) ?xs" using ok r unfolding lane_ok_def by blast
      show "0 < unat r" using r(3) by (simp add: unat_gt_0)
      show "min (2 ^ 64 - 1) (?xs ! (length ?xs - unat r) + 60000) \<le> unat start" if "unat r \<le> length ?xs"
        using late r that unfolding late_start_def Let_def by blast
      show "\<forall>x\<in>set ?xs. x \<le> 2 ^ 64 - 1" using unat_le_max [where 'a = 64] by auto
    qed
    then show ?thesis by (simp only: whole map_insert_at pp)
  qed
  moreover have "sorted (old @ ln_calls (take_slot l start))" unfolding whole by (rule sorted_insert_at [OF srt])
  moreover have "ln_limits (take_slot l start) = ln_limits l" by (simp add: take_slot_def)
  ultimately have "lane_ok now old (take_slot l start)"
    using ok lim unfolding lane_ok_def by presburger
  moreover have "mset (old @ ln_calls (take_slot l start)) = add_mset start (mset ?all)"
    unfolding whole by (rule mset_insert_at)
  ultimately show ?thesis by blast
qed

text \<open>Giving back a start removes it from the lane, or leaves the lane as it was when the start has
  been pruned.\<close>

lemma release_slot_ok:
  assumes ok: "lane_ok now old l"
  shows "lane_ok now old (release_slot l start)
    \<and> mset (old @ ln_calls l) - {#start#} \<subseteq># mset (old @ ln_calls (release_slot l start))"
proof (cases "start \<in> set (ln_calls l)")
  case False
  then have "release_slot l start = l" by (auto simp: release_slot_def Let_def dest: nth_mem)
  with ok show ?thesis by (simp add: diff_subset_eq_self)
next
  case True
  let ?j = "partition_point (\<lambda>y. y < start) (ln_calls l)"
  have srt: "sorted (old @ ln_calls l)" using ok by (simp add: lane_ok_def)
  then have "sorted (ln_calls l)" by (simp add: sorted_append)
  note j = partition_point_finds [OF this True]
  have calls: "ln_calls (release_slot l start) = drop_at ?j (ln_calls l)"
    and lim: "ln_limits (release_slot l start) = ln_limits l"
    using j by (simp_all add: release_slot_def Let_def)
  have whole: "old @ drop_at ?j (ln_calls l) = drop_at (length old + ?j) (old @ ln_calls l)"
    by (simp add: remove_at_append)
  have "paced (2 ^ 64 - 1) 60000 r (map unat (old @ drop_at ?j (ln_calls l)))"
    if "paced (2 ^ 64 - 1) 60000 r (map unat (old @ ln_calls l))" for r
    unfolding whole map_remove_at
    by (rule paced_remove [OF sorted_map_unat [OF srt] that]) (use j in simp)
  moreover have "sorted (old @ drop_at ?j (ln_calls l))" unfolding whole by (rule sorted_remove_at [OF srt])
  moreover have "ln_calls l = [] \<Longrightarrow> drop_at ?j (ln_calls l) = []" by (simp add: drop_at_def)
  ultimately have "lane_ok now old (release_slot l start)"
    using ok unfolding lane_ok_def calls lim by blast
  moreover have "mset (drop_at (length old + ?j) (old @ ln_calls l)) = mset (old @ ln_calls l) - {#start#}"
    using mset_remove_at [of "length old + ?j" "old @ ln_calls l"] j by simp
  ultimately show ?thesis by (simp only: calls whole subset_mset.order_refl simp_thms)
qed

lemma lane_ok_cong: "ln_calls l' = ln_calls l \<Longrightarrow> ln_limits l' = ln_limits l \<Longrightarrow> lane_ok now old l' = lane_ok now old l"
  by (simp add: lane_ok_def)

lemma lane_ok_later: "lane_ok now0 old l \<Longrightarrow> now0 \<le> now \<Longrightarrow> lane_ok now old l"
  unfolding lane_ok_def word_le_nat_alt by (meson less_le_trans)

lemma lane_ok_default: "lane_ok now [] lane_default"
  by (simp add: lane_ok_def lane_default_def)

section \<open>All providers\<close>

definition granted :: "string \<Rightarrow> (string \<times> u64) list \<Rightarrow> u64 multiset" where
  "granted pv starts = mset (map snd (filter (\<lambda>(p, _). p = pv) starts))"

definition pacer_ok :: "pacer_run \<Rightarrow> bool" where
  "pacer_ok s \<longleftrightarrow>
     (\<forall>pv. \<exists>old. lane_ok (pr_now s) old (lane_of (pr_pacer s) pv)
        \<and> granted pv (pr_starts s) \<subseteq># mset (old @ ln_calls (lane_of (pr_pacer s) pv)))"

lemma lane_of_insert: "lane_of (bt_insert pv l p) pv' = (if pv' = pv then l else lane_of p pv')"
  by (simp add: lane_of_def btree)

lemma granted_Cons: "granted pv ((pv', x) # starts) = (if pv' = pv then add_mset x (granted pv starts) else granted pv starts)"
  by (simp add: granted_def)

lemma granted_remove1:
  "granted pv (remove1 (pv', x) starts) = (if pv' = pv then granted pv starts - {#x#} else granted pv starts)"
  if "(pv', x) \<in> set starts"
  using that
proof (induction starts)
  case (Cons a starts)
  obtain q y where a: "a = (q, y)" by (cases a)
  have "(q, y) \<noteq> (pv', x) \<Longrightarrow> pv' = pv \<Longrightarrow> q = pv \<Longrightarrow> x \<in># granted pv starts"
    using Cons.prems a by (auto simp: granted_def image_iff)
  with Cons a show ?case by (auto simp: granted_Cons)
qed simp

lemma submset_diff_mono: "A \<subseteq># B \<Longrightarrow> A - C \<subseteq># B - C"
  by (simp add: subseteq_mset_def diff_le_mono)

lemma pacer_okI:
  assumes ok: "pacer_ok s" and now: "pr_now s \<le> now"
    and own: "\<And>old. lane_ok (pr_now s) old (lane_of (pr_pacer s) pv) \<Longrightarrow>
        granted pv (pr_starts s) \<subseteq># mset (old @ ln_calls (lane_of (pr_pacer s) pv)) \<Longrightarrow>
        \<exists>old'. lane_ok now old' l \<and> granted pv starts \<subseteq># mset (old' @ ln_calls l)"
    and others: "\<And>pv'. pv' \<noteq> pv \<Longrightarrow> granted pv' starts = granted pv' (pr_starts s)"
  shows "pacer_ok \<lparr>pr_pacer = bt_insert pv l (pr_pacer s), pr_now = now, pr_starts = starts\<rparr>"
proof (unfold pacer_ok_def, rule allI)
  fix q
  obtain old where old: "lane_ok (pr_now s) old (lane_of (pr_pacer s) q)"
    "granted q (pr_starts s) \<subseteq># mset (old @ ln_calls (lane_of (pr_pacer s) q))"
    using ok by (auto simp: pacer_ok_def)
  let ?s = "\<lparr>pr_pacer = bt_insert pv l (pr_pacer s), pr_now = now, pr_starts = starts\<rparr>"
  show "\<exists>old. lane_ok (pr_now ?s) old (lane_of (pr_pacer ?s) q)
      \<and> granted q (pr_starts ?s) \<subseteq># mset (old @ ln_calls (lane_of (pr_pacer ?s) q))"
    using own [of old] old others [of q] lane_ok_later [OF old(1) now] by (auto simp: lane_of_insert)
qed

lemma granted_slot:
  assumes "lane_ok now0 old (lane_of p pv)" and "granted pv starts \<subseteq># mset (old @ ln_calls (lane_of p pv))"
    and "now0 \<le> now" and ns: "next_start c (lane_of p pv) now g = (start, l)"
  shows "\<exists>old'. lane_ok now old' (take_slot l start)
    \<and> granted pv ((pv, start) # starts) \<subseteq># mset (old' @ ln_calls (take_slot l start))"
    and "\<exists>old'. lane_ok now old' l \<and> granted pv starts \<subseteq># mset (old' @ ln_calls l)"
proof -
  obtain old' where o: "lane_ok now old' l" "late_start old' l start"
    "old' @ ln_calls l = old @ ln_calls (lane_of p pv)"
    using next_start_ok [OF assms(1,3) ns] by blast
  have lim: "ln_limits l \<noteq> None" using next_start_lane [OF ns] by auto
  note t = take_slot_ok [OF o(1,2) lim]
  have "granted pv ((pv, start) # starts) \<subseteq># mset (old' @ ln_calls (take_slot l start))"
    using assms(2) t by (simp only: granted_Cons o(3)) simp
  with t show "\<exists>old'. lane_ok now old' (take_slot l start)
      \<and> granted pv ((pv, start) # starts) \<subseteq># mset (old' @ ln_calls (take_slot l start))" by blast
  show "\<exists>old'. lane_ok now old' l \<and> granted pv starts \<subseteq># mset (old' @ ln_calls l)"
    using o assms(2) by metis
qed

lemma pacer_step_ok: "pacer_step c s s' \<Longrightarrow> pacer_ok s \<Longrightarrow> pacer_ok s'"
proof (induction rule: pacer_step.induct)
  case (step_hold s now pv given r p)
  obtain start l where ns: "next_start (c pv) (lane_of (pr_pacer s) pv) now given = (start, l)"
    by fastforce
  then have p: "p = bt_insert pv (take_slot l start) (pr_pacer s)" "rv_start r = start"
    using step_hold by (auto simp: hold_def reservation_new_def)
  show ?case unfolding p
    by (rule pacer_okI [OF step_hold.prems step_hold.hyps(1)])
      (use granted_slot(1) [OF _ _ step_hold.hyps(1) ns] in \<open>auto simp: granted_Cons\<close>)
next
  case (step_within s now pv given mx r p)
  obtain start l where ns: "next_start (c pv) (lane_of (pr_pacer s) pv) now given = (start, l)"
    by fastforce
  then have p: "p = bt_insert pv (take_slot l start) (pr_pacer s)" "rv_start r = start"
    using step_within by (auto simp: hold_within_def reservation_new_def Let_def split: if_splits)
  show ?case unfolding p
    by (rule pacer_okI [OF step_within.prems step_within.hyps(1)])
      (use granted_slot(1) [OF _ _ step_within.hyps(1) ns] in \<open>auto simp: granted_Cons\<close>)
next
  case (step_refused s now pv given mx w p)
  obtain start l where ns: "next_start (c pv) (lane_of (pr_pacer s) pv) now given = (start, l)"
    by fastforce
  then have p: "p = bt_insert pv l (pr_pacer s)"
    using step_refused by (auto simp: hold_within_def Let_def split: if_splits)
  have "pacer_ok \<lparr>pr_pacer = bt_insert pv l (pr_pacer s), pr_now = now, pr_starts = pr_starts s\<rparr>"
    by (rule pacer_okI [OF step_refused.prems step_refused.hyps(1)])
      (use granted_slot(2) [OF _ _ step_refused.hyps(1) ns] in auto)
  then show ?case by (simp add: p pacer_ok_def)
next
  case (step_release pv start s)
  note rm = granted_remove1 [OF step_release.hyps]
  show ?case
  proof (cases "bt_get (pr_pacer s) pv")
    case None
    then have "release (pr_pacer s) pv start = pr_pacer s" by (simp add: release_def)
    moreover have "granted q (remove1 (pv, start) (pr_starts s)) \<subseteq># granted q (pr_starts s)" for q
      by (simp add: rm diff_subset_eq_self)
    ultimately show ?thesis
      using step_release.prems unfolding pacer_ok_def by simp (meson subset_mset.order_trans)
  next
    case (Some l)
    then have l: "lane_of (pr_pacer s) pv = l" by (simp add: lane_of_def)
    have "pacer_ok \<lparr>pr_pacer = bt_insert pv (release_slot l start) (pr_pacer s), pr_now = pr_now s,
        pr_starts = remove1 (pv, start) (pr_starts s)\<rparr>"
    proof (rule pacer_okI [OF step_release.prems order_refl])
      fix old assume old: "lane_ok (pr_now s) old (lane_of (pr_pacer s) pv)"
        "granted pv (pr_starts s) \<subseteq># mset (old @ ln_calls (lane_of (pr_pacer s) pv))"
      note rs = release_slot_ok [OF old(1) [unfolded l], of start]
      have "granted pv (pr_starts s) - {#start#} \<subseteq># mset (old @ ln_calls l) - {#start#}"
        using old(2) unfolding l by (rule submset_diff_mono)
      then have "granted pv (remove1 (pv, start) (pr_starts s)) \<subseteq># mset (old @ ln_calls (release_slot l start))"
        using rs by (simp only: rm simp_thms if_True) (meson subset_mset.order_trans)
      with rs show "\<exists>old'. lane_ok (pr_now s) old' (release_slot l start)
          \<and> granted pv (remove1 (pv, start) (pr_starts s)) \<subseteq># mset (old' @ ln_calls (release_slot l start))"
        by blast
    qed (simp add: rm)
    then show ?thesis by (simp add: release_def Some pacer_ok_def)
  qed
next
  case (step_tokens s pv at n)
  let ?l = "lane_of (pr_pacer s) pv"
  have "pacer_ok \<lparr>pr_pacer = record_tokens (pr_pacer s) pv at n, pr_now = pr_now s, pr_starts = pr_starts s\<rparr>"
    unfolding record_tokens_def Let_def
    by (rule pacer_okI [OF step_tokens.prems order_refl]) (auto simp: lane_ok_def)
  then show ?case by (simp add: pacer_ok_def)
next
  case (step_pause s pv now n)
  have "pacer_ok \<lparr>pr_pacer = pause (pr_pacer s) pv now n, pr_now = pr_now s, pr_starts = pr_starts s\<rparr>"
    unfolding pause_def Let_def
    by (rule pacer_okI [OF step_pause.prems order_refl]) (auto simp: lane_ok_def)
  then show ?case by (simp add: pacer_ok_def)
qed

lemma pacer_reachable_ok: "pacer_reachable c s \<Longrightarrow> pacer_ok s"
proof (induction rule: pacer_reachable.induct)
  case reach_start
  have "lane_of [] pv = lane_default" for pv by (simp add: lane_of_def btree)
  then show ?case
    using lane_ok_default by (auto simp: pacer_ok_def pacer_run_start_def granted_def intro!: exI [of _ "[]"])
qed (rule pacer_step_ok)

section \<open>Requests per minute\<close>


section \<open>Tokens per minute\<close>

lemma sum_if_le: "(\<Sum>x\<leftarrow>xs. if P x then f x else 0) \<le> (\<Sum>x\<leftarrow>xs. (f x :: nat))"
  by (induction xs) auto

lemma sat_add_le: "sat_add a b \<le> s \<Longrightarrow> s \<noteq> - 1 \<Longrightarrow> unat a + unat b \<le> unat s" for a :: "'a::len word"
proof -
  assume le: "sat_add a b \<le> s" and ne: "s \<noteq> - 1"
  have "unat s \<noteq> 2 ^ LENGTH('a) - 1" using ne unat_max_word [where 'a = 'a] by (metis word_unat_eq_iff)
  with unat_le_max [of s] have "unat s < 2 ^ LENGTH('a) - 1" by linarith
  with le show ?thesis by (simp add: word_le_nat_alt unats)
qed

lemma age_tokens_under:
  assumes "unat used = (\<Sum>(_, n)\<leftarrow>ts. unat n)" and "age_tokens tpm used start ts = s" and "s \<noteq> - 1" and "tpm \<noteq> 0"
  shows "(\<Sum>(at, n)\<leftarrow>ts. if unat s < unat at + 60000 then unat n else 0) < unat tpm"
  using assms
proof (induction tpm used start ts rule: age_tokens.induct)
  case (1 tpm used start)
  then show ?case by (simp add: unat_gt_0)
next
  case (2 tpm used start at tokens rest)
  show ?case
  proof (cases "used < tpm")
    case True
    have "(\<Sum>(at, n)\<leftarrow>(at, tokens) # rest. if unat s < unat at + 60000 then unat n else 0) \<le> unat used"
      unfolding "2.prems"(1)
      using sum_if_le [of "\<lambda>(at, n). unat s < unat at + 60000" "\<lambda>(_, n). unat n" "(at, tokens) # rest"]
      by (simp only: case_prod_unfold)
    with True show ?thesis unfolding word_less_nat_alt by linarith
  next
    case False
    let ?start = "max start (sat_add at WINDOW_MS)"
    have s: "age_tokens tpm (sat_sub used tokens) ?start rest = s" using "2.prems"(2) False by simp
    have "sat_add at WINDOW_MS \<le> s" using age_tokens_ge [of ?start tpm "sat_sub used tokens" rest] s by simp
    then have "unat at + 60000 \<le> unat s" using sat_add_le "2.prems"(3) unat_WINDOW_MS by metis
    moreover have "unat (sat_sub used tokens) = (\<Sum>(_, n)\<leftarrow>rest. unat n)"
      using "2.prems"(1) by (simp add: unats)
    ultimately show ?thesis using "2.IH" [OF False _ s "2.prems"(3,4)] by simp
  qed
qed

lemma unat_sum_list: "(\<Sum>x\<leftarrow>xs. unat (f x)) < 2 ^ LENGTH('a) \<Longrightarrow> unat (\<Sum>x\<leftarrow>xs. f x) = (\<Sum>x\<leftarrow>xs. unat (f x :: 'a::len word))"
  by (induction xs) (simp_all add: unat_word_ariths)

text \<open>Tokens per minute hold at the start of a call: when a call is given the start \<open>s\<close>, the
  tokens of the finished calls that are still less than a minute old at \<open>s\<close> sum to less than
  \<open>tpm\<close>. The recorded tokens sum below \<open>2 ^ 64\<close>, where the sum of the code wraps, and \<open>s\<close> is not the
  saturated maximum.\<close>

theorem tpm_window_under_cap:
  assumes "next_start c l now g = (s, l')" and "ln_limits l' = Some lim" and "l_tpm lim = Some tpm"
    and "tpm \<noteq> 0" and "s \<noteq> - 1" and "(\<Sum>(_, n)\<leftarrow>ln_tokens l. unat n) < 2 ^ 64"
  shows "(\<Sum>(at, n)\<leftarrow>ln_tokens l. if unat s < unat at + 60000 then unat n else 0) < unat tpm"
proof -
  let ?h = "sat_sub now WINDOW_MS"
  let ?gone = "takeWhile (\<lambda>(at, _). at < ?h) (ln_tokens l)" and ?ts = "prune_tokens ?h (ln_tokens l)"
  have split: "ln_tokens l = ?gone @ ?ts" by (simp add: prune_tokens_def)
  have s: "s = age_tokens tpm (\<Sum>(_, n)\<leftarrow>?ts. n) (rpm_start (l_rpm lim) (ln_calls l') (max now (ln_paused_until l))) ?ts"
    using assms(1-4) by (auto simp: next_start_def Let_def tpm_start_def)
  have "(\<Sum>(_, n)\<leftarrow>?ts. unat n) < 2 ^ 64" using assms(6) by (subst (asm) split) simp
  then have "unat (\<Sum>(_, n)\<leftarrow>?ts. n) = (\<Sum>(_, n)\<leftarrow>?ts. unat n)"
    using unat_sum_list [of snd ?ts] by (simp add: case_prod_unfold)
  from age_tokens_under [OF this s [symmetric] assms(5,4)]
  have "(\<Sum>(at, n)\<leftarrow>?ts. if unat s < unat at + 60000 then unat n else 0) < unat tpm" .
  moreover have "now \<le> s" using next_start_lane [OF assms(1)] by blast
  then have "(\<Sum>(at, n)\<leftarrow>?gone. if unat s < unat at + 60000 then unat n else 0) = 0"
    by (auto simp: sum_list_eq_0_iff word_less_nat_alt word_le_nat_alt unats unat_WINDOW_MS
        dest!: set_takeWhileD)
  ultimately show ?thesis by (subst split) (simp only: map_append sum_list_append add_0)
qed

definition two_a_minute :: limits where
  "two_a_minute = \<lparr>l_rpm = Some 2, l_tpm = Some 1000\<rparr>"

definition one_call :: pacer_run where
  "one_call = \<lparr>pr_pacer = [(''p'', \<lparr>ln_limits = Some two_a_minute, ln_calls = [1000], ln_tokens = [], ln_paused_until = 0\<rparr>)],
     pr_now = 1000, pr_starts = [(''p'', 1000)]\<rparr>"

lemma one_call_reachable: "pacer_reachable (\<lambda>_. two_a_minute) one_call"
proof -
  have "pacer_step (\<lambda>_. two_a_minute) pacer_run_start
      \<lparr>pr_pacer = pr_pacer one_call, pr_now = 1000,
       pr_starts = (''p'', rv_start (reservation_new ''p'' 1000 1000)) # pr_starts pacer_run_start\<rparr>"
    by (rule step_hold [where given = None])
      (simp_all add: pacer_run_start_def hold_def next_start_def lane_of_def bt_get_def lane_default_def
        two_a_minute_def prune_calls_def prune_tokens_def rpm_start_def tpm_start_def take_slot_def
        partition_point_def insert_at_def one_call_def)
  then show ?thesis
    using reach_step [OF reach_start] by (simp add: one_call_def reservation_new_def pacer_run_start_def)
qed


definition busy_lane :: lane where
  "busy_lane = \<lparr>ln_limits = Some two_a_minute, ln_calls = [], ln_tokens = [(10000, 600), (20000, 500)],
     ln_paused_until = 0\<rparr>"

theorem tpm_window_under_cap_witness:
  "next_start two_a_minute busy_lane 30000 None = (70000, busy_lane)
    \<and> (\<Sum>(at, n)\<leftarrow>ln_tokens busy_lane. if unat (70000::u64) < unat at + 60000 then unat n else 0) < 1000"
proof -
  have n: "next_start two_a_minute busy_lane 30000 None = (70000, busy_lane)"
    by (simp add: next_start_def busy_lane_def two_a_minute_def prune_calls_def prune_tokens_def
        rpm_start_def tpm_start_def WINDOW_MS_def sat_sub_def sat_add_def max_def Let_def)
  with tpm_window_under_cap [OF n, of two_a_minute 1000] show ?thesis
    by (simp add: busy_lane_def two_a_minute_def)
qed

section \<open>Bounded holds and releases\<close>

text \<open>A bounded hold is a hold whose wait is within the bound: when it is granted it is exactly
  what \<open>hold\<close> gives and the wait is at most the bound; when it is refused the error is the wait that
  \<open>hold\<close> would have given, longer than the bound, and no start is reserved: every lane keeps its
  starts, but for the ones that left the window.\<close>

theorem hold_within_bounded:
  "case hold_within c p pv now given mx of
     (Inr r, p') \<Rightarrow> rv_wait_ms r \<le> mx \<and> hold c p pv now given = (r, p')
   | (Inl w, p') \<Rightarrow> mx < w \<and> rv_wait_ms (fst (hold c p pv now given)) = w
       \<and> ln_calls (lane_of p' q)
           = (if q = pv then prune_calls (sat_sub now WINDOW_MS) (ln_calls (lane_of p q)) else ln_calls (lane_of p q))"
proof -
  obtain start l where ns: "next_start (c pv) (lane_of p pv) now given = (start, l)" by fastforce
  then have "ln_calls l = prune_calls (sat_sub now WINDOW_MS) (ln_calls (lane_of p pv))"
    using next_start_lane by blast
  with ns show ?thesis
    by (auto simp: hold_within_def hold_def Let_def reservation_new_def lane_of_insert not_less)
qed

lemma remove_inserted:
  fixes s :: "'a::linorder"
  assumes "sorted xs"
  shows "(let ys = insert_at (partition_point (\<lambda>y. y \<le> s) xs) s xs; j = partition_point (\<lambda>y. y < s) ys
     in j < length ys \<and> ys ! j = s \<and> drop_at j ys = xs)"
proof -
  let ?ys = "insert_at (partition_point (\<lambda>y. y \<le> s) xs) s xs"
  let ?j = "partition_point (\<lambda>y. y < s) ?ys"
  have srt: "sorted ?ys" by (rule sorted_insert_at [OF assms])
  have "s \<in> set ?ys" by (simp add: insert_at_def)
  note j = partition_point_finds [OF srt this]
  have "mset (drop_at ?j ?ys) = mset xs" using mset_remove_at [of ?j ?ys] j by (simp add: mset_insert_at)
  moreover have "sorted (drop_at ?j ?ys)" by (rule sorted_remove_at [OF srt])
  ultimately have "drop_at ?j ?ys = xs" using assms by (metis properties_for_sort sorted_sort_id)
  with j show ?thesis by (simp add: Let_def)
qed

text \<open>An abandoned call leaves no trace in the window: dropping a reservation right after it was
  made leaves the provider with exactly the starts it had (less those that left the window), and
  every other lane untouched. The starts of a lane are ascending in every reachable state.\<close>

theorem release_undoes_hold:
  assumes "sorted (ln_calls (lane_of p pv))" and "hold c p pv now given = (r, p')"
  shows "ln_calls (lane_of (release p' pv (rv_start r)) q)
    = (if q = pv then prune_calls (sat_sub now WINDOW_MS) (ln_calls (lane_of p q)) else ln_calls (lane_of p q))"
proof -
  obtain start l where ns: "next_start (c pv) (lane_of p pv) now given = (start, l)" by fastforce
  then have p': "p' = bt_insert pv (take_slot l start) p" and r: "rv_start r = start"
    using assms(2) by (auto simp: hold_def reservation_new_def)
  have calls: "ln_calls l = prune_calls (sat_sub now WINDOW_MS) (ln_calls (lane_of p pv))"
    using next_start_lane [OF ns] by blast
  have "sorted (ln_calls l)" unfolding calls prune_calls_def using assms(1) by (rule sorted_dropWhile)
  from remove_inserted [OF this, of start]
  have "ln_calls (release_slot (take_slot l start) start) = ln_calls l"
    by (simp add: release_slot_def take_slot_def Let_def)
  then show ?thesis by (simp add: p' r release_def btree lane_of_insert calls)
qed

theorem release_undoes_hold_witness:
  "ln_calls (lane_of (release (snd (hold (\<lambda>_. two_a_minute) [] ''p'' 5 None)) ''p''
      (rv_start (fst (hold (\<lambda>_. two_a_minute) [] ''p'' 5 None)))) ''p'') = []"
  using release_undoes_hold [of "[]" "''p''" "\<lambda>_. two_a_minute" 5 None _ _ "''p''"]
  by (simp add: lane_of_def bt_get_def lane_default_def prune_calls_def)

section \<open>The \<open>Retry-After\<close> header\<close>

lemma dec_val_Cons: "dec_val (c # s) = digit_val c * 10 ^ length s + dec_val s"
  using dec_val_append [of "[c]" s] dec_val_snoc [of "[]" c] by simp

lemma dec_val_eq_0: "list_all is_ascii_digit s \<Longrightarrow> dec_val s = 0 \<longleftrightarrow> list_all (\<lambda>c. c = CHR ''0'') s"
proof (induction s rule: rev_induct)
  case (snoc c s)
  have "c = CHR ''0''" if "(of_char c :: nat) = 48"
  proof -
    have "(of_char c :: nat) = of_char (CHR ''0'')" using that by simp
    then show ?thesis by (simp only: of_char_eq_iff)
  qed
  with snoc show ?case by (auto simp: digit_val_def is_ascii_digit_def)
qed simp

lemma take_millis_value:
  "take_millis n (of_nat v) s =
     (of_nat (v * 10 ^ n + dec_val (take n s) * 10 ^ (n - length (take n s))), drop n s)"
proof (induction n arbitrary: v s)
  case (Suc n)
  show ?case
  proof (cases s)
    case Nil
    then show ?thesis using Suc [of "v * 10" "[]"] by (simp add: algebra_simps)
  next
    case (Cons c rest)
    have "(10::nat) ^ length (take n rest) * 10 ^ (n - length (take n rest)) = 10 ^ n"
      by (simp add: power_add [symmetric])
    then have "dec_val (take (Suc n) s) * 10 ^ (Suc n - length (take (Suc n) s))
        = digit_val c * 10 ^ n + dec_val (take n rest) * 10 ^ (n - length (take n rest))"
      by (simp add: Cons dec_val_Cons algebra_simps)
    then show ?thesis
      using Suc [of "v * 10 + digit_val c" rest] by (simp only: Cons) (simp add: algebra_simps)
  qed
qed simp

lemma ceil_div_rem: "e < b \<Longrightarrow> ceil_div (q * b + e) b = q + (if e = 0 then 0 else 1)"
  by (simp add: ceil_div_def)

text \<open>The milliseconds a fraction of a second rounds up to.\<close>

definition fraction_ms :: "string \<Rightarrow> nat" where
  "fraction_ms c = dec_val (take 3 c) * 10 ^ (3 - length (take 3 c))
     + (if list_all (\<lambda>c. c = CHR ''0'') (drop 3 c) then 0 else 1)"

lemma fraction_ms_ceil:
  assumes "list_all is_ascii_digit c"
  shows "ceil_div (dec_val (d @ c) * 1000) (10 ^ length c) = dec_val d * 1000 + fraction_ms c"
proof (cases "length c \<le> 3")
  case True
  then have "(10::nat) ^ (3 - length c) * 10 ^ length c = 1000"
    by (simp add: power_add [symmetric])
  then have "dec_val c * 10 ^ (3 - length c) * 10 ^ length c = dec_val c * 1000" by (metis mult.assoc)
  then have "dec_val (d @ c) * 1000 = (dec_val d * 1000 + dec_val c * 10 ^ (3 - length c)) * 10 ^ length c + 0"
    by (simp add: dec_val_append algebra_simps)
  moreover have "(0::nat) < 10 ^ length c" by simp
  ultimately show ?thesis using True ceil_div_rem [of 0 "10 ^ length c"] by (simp add: fraction_ms_def)
next
  case False
  let ?t = "take 3 c" and ?r = "drop 3 c"
  have k: "(10::nat) ^ length ?r * 1000 = 10 ^ length c"
    using power_add [of "10::nat" "length c - 3" 3] False by simp
  have C: "dec_val c = dec_val ?t * 10 ^ length ?r + dec_val ?r"
    using dec_val_append [of ?t ?r] by simp
  have digits: "list_all is_ascii_digit ?r" using assms by (auto simp: list_all_iff dest: in_set_dropD)
  have "dec_val ?r * 1000 < 10 ^ length c" using dec_val_bound [OF digits] k by linarith
  moreover have "dec_val (d @ c) * 1000 = (dec_val d * 1000 + dec_val ?t) * 10 ^ length c + dec_val ?r * 1000"
    unfolding dec_val_append C k [symmetric] by (simp add: algebra_simps)
  ultimately show ?thesis
    using False dec_val_eq_0 [OF digits] by (simp add: ceil_div_rem fraction_ms_def)
qed

text \<open>The wait a provider asks for is never cut short: a \<open>Retry-After\<close> value that parses is a
  decimal number of seconds, and the milliseconds are that number rounded up (saturated at
  \<open>u64::MAX\<close>), however many decimals it has.\<close>

theorem retry_after_ms_rounds_up:
  assumes "retry_after_ms value = Some ms"
  shows "\<exists>d c. (trim value = d \<and> c = [] \<or> trim value = d @ ''.'' @ c)
    \<and> d \<noteq> [] \<and> list_all is_ascii_digit (d @ c)
    \<and> unat ms = min (ceil_div (dec_val (d @ c) * 1000) (10 ^ length c)) (2 ^ 64 - 1)"
proof -
  obtain d c where split:
      "(case split_once CHR ''.'' (trim value) of Some p \<Rightarrow> p | None \<Rightarrow> (trim value, [])) = (d, c)"
    by fastforce
  have shape: "trim value = d \<and> c = [] \<or> trim value = d @ ''.'' @ c"
    using split by (auto split: option.splits dest: split_once_Some)
  let ?m = "dec_val (take 3 c) * 10 ^ (3 - length (take 3 c))"
  have ok: "d \<noteq> []" "list_all is_ascii_digit d" "list_all is_ascii_digit c"
    using assms by (auto simp: retry_after_ms_def split split: if_splits)
  then obtain sec where sec: "parse_u64 d = Some sec"
    and ms: "ms = sat_add (sat_mul sec 1000) (of_nat (fraction_ms c))"
    using assms take_millis_value [of 3 0 c]
    by (auto simp: retry_after_ms_def split fraction_ms_def Let_def add.commute split: option.splits if_splits)
  have "unat sec = dec_val d"
    using sec parse_u64_digits [OF ok(1,2)] by (auto simp: unat_of_nat_less split: if_splits)
  moreover have "fraction_ms c < 2 ^ 64"
  proof -
    have "list_all is_ascii_digit (take 3 c)" using ok(3) by (auto simp: list_all_iff dest: in_set_takeD)
    note dec_val_bound [OF this]
    then have "?m < 10 ^ length (take 3 c) * 10 ^ (3 - length (take 3 c))" by simp
    also have "\<dots> = 1000" by (simp add: power_add [symmetric] min_def)
    finally show ?thesis by (simp add: fraction_ms_def)
  qed
  then have "unat (of_nat (fraction_ms c) :: u64) = fraction_ms c" by (simp add: unat_of_nat_less)
  ultimately have "unat ms = min (dec_val d * 1000 + fraction_ms c) (2 ^ 64 - 1)"
    unfolding ms by (simp add: unats min_def)
  with shape ok show ?thesis
    by (intro exI [of _ d] exI [of _ c]) (simp only: fraction_ms_ceil list_all_append simp_thms)
qed

theorem retry_after_ms_rounds_up_witness:
  "retry_after_ms ''1.0001'' = Some 1001
    \<and> (\<exists>d c. (trim ''1.0001'' = d \<and> c = [] \<or> trim ''1.0001'' = d @ ''.'' @ c)
      \<and> d \<noteq> [] \<and> list_all is_ascii_digit (d @ c)
      \<and> unat (1001 :: u64) = min (ceil_div (dec_val (d @ c) * 1000) (10 ^ length c)) (2 ^ 64 - 1))"
proof -
  have "trim ''1.0001'' = ''1.0001''" by (rule trim_graphic) (simp add: is_ascii_graphic_def)
  then have "retry_after_ms ''1.0001'' = Some 1001"
    by (simp add: retry_after_ms_def is_ascii_digit_def parse_u64_def dec_val_def digit_val_def
        numeral_3_eq_3 sat_add_def sat_mul_def)
  then show ?thesis using retry_after_ms_rounds_up by blast
qed

end
