(* ===== verification/Scopes.thy ===== *)
theory Scopes
  imports Susi_Strings
begin

text \<open>
  The scope algebra of \<open>crates/susi-harness/src/workflow.rs\<close>: \<open>normalize_scope\<close> brings a reserved path
  to a canonical spelling, \<open>scopes_overlap\<close> compares two of them as strings. The specification
  they are checked against is ownership: a scope owns a path (a list of components) when its
  components are a prefix of it.

  The locale \<open>batch_selection\<close> is the contract that the two batch planners of the harness
  (\<open>next_wave\<close> here, \<open>plan_batch\<close> of \<open>queue.rs\<close>) share: a scan that takes a task only when its scopes
  are free of everything reserved so far.
\<close>

datatype scope_error = NotRelative string | NamesDrive string | DotComponent string | EmptyScope string

definition slash :: char where "slash = CHR ''/''"

definition backslash :: char where "backslash = CHR 0x5C"

text \<open>\<open>while let Some(stripped) = rest.strip_prefix("./")\<close>\<close>

fun strip_dot_slash :: "string \<Rightarrow> string" where
  "strip_dot_slash (a # b # rest) =
     (if a = CHR ''.'' \<and> b = CHR ''/'' then strip_dot_slash rest else a # b # rest)"
| "strip_dot_slash s = s"

text \<open>The loop over the components; \<open>None\<close> is the early return for \<open>.\<close> and \<open>..\<close>.\<close>

fun scope_parts :: "string list \<Rightarrow> string list option" where
  "scope_parts [] = Some []"
| "scope_parts (part # rest) =
     (if part = [] then scope_parts rest
      else if part = ''.'' \<or> part = ''..'' then None
      else case scope_parts rest of None \<Rightarrow> None | Some ps \<Rightarrow> Some (to_ascii_lowercase part # ps))"

definition normalize_scope :: "string \<Rightarrow> scope_error + string" where
  "normalize_scope raw =
     (let slashed = replace_char backslash slash (trim raw)
      in if slashed \<noteq> [] \<and> hd slashed = slash then Inl (NotRelative raw)
         else if 1 < length slashed \<and> slashed ! 1 = CHR '':'' then Inl (NamesDrive raw)
         else case scope_parts (split_on slash (strip_dot_slash slashed)) of
             None \<Rightarrow> Inl (DotComponent raw)
           | Some parts \<Rightarrow> if parts = [] then Inl (EmptyScope raw) else Inr (join [slash] parts))"

definition starts_with_slash :: "string option \<Rightarrow> bool" where
  "starts_with_slash r = (case r of None \<Rightarrow> False | Some rest \<Rightarrow> rest \<noteq> [] \<and> hd rest = slash)"

definition scopes_overlap :: "string \<Rightarrow> string \<Rightarrow> bool" where
  "scopes_overlap a b \<longleftrightarrow>
     a = b \<or> starts_with_slash (strip_prefix a b) \<or> starts_with_slash (strip_prefix b a)"

fun normalize_all :: "string list \<Rightarrow> scope_error + string list" where
  "normalize_all [] = Inr []"
| "normalize_all (s # ss) =
     (case normalize_scope s of
        Inl e \<Rightarrow> Inl e
      | Inr n \<Rightarrow> (case normalize_all ss of Inl e \<Rightarrow> Inl e | Inr ns \<Rightarrow> Inr (n # ns)))"

definition disjoint_scopes :: "string list \<Rightarrow> string list \<Rightarrow> bool" where
  "disjoint_scopes a b \<longleftrightarrow> \<not> list_ex (\<lambda>left. list_ex (scopes_overlap left) b) a"

definition task_scopes_disjoint :: "string list \<Rightarrow> string list \<Rightarrow> bool" where
  "task_scopes_disjoint a_scopes b_scopes =
     (case (normalize_all a_scopes, normalize_all b_scopes) of
        (Inr a, Inr b) \<Rightarrow> disjoint_scopes a b
      | _ \<Rightarrow> False)"

section \<open>Canonical scopes\<close>

text \<open>A canonical component: not empty, no separator, not a dot component, lower case.\<close>

definition canonical_part :: "string \<Rightarrow> bool" where
  "canonical_part p \<longleftrightarrow> p \<noteq> [] \<and> slash \<notin> set p \<and> backslash \<notin> set p \<and> p \<noteq> ''.'' \<and> p \<noteq> ''..''
     \<and> to_ascii_lowercase p = p"

definition canonical_scope :: "string \<Rightarrow> bool" where
  "canonical_scope s \<longleftrightarrow> list_all canonical_part (split_on slash s)"

definition owns :: "string \<Rightarrow> string list \<Rightarrow> bool" where
  "owns s path \<longleftrightarrow> prefix (split_on slash s) path"

lemma lower_chars:
  "to_ascii_lower_char c = CHR ''.'' \<longleftrightarrow> c = CHR ''.''"
  "to_ascii_lower_char c = slash \<longleftrightarrow> c = slash"
  "to_ascii_lower_char c = backslash \<longleftrightarrow> c = backslash"
  unfolding slash_def backslash_def
  by (rule to_ascii_lower_char_eq_iff; simp add: is_ascii_upper_def is_ascii_lower_def)+

lemma lower_dots: "to_ascii_lowercase p = ''.'' \<longleftrightarrow> p = ''.''" "to_ascii_lowercase p = ''..'' \<longleftrightarrow> p = ''..''"
  by (simp_all add: to_ascii_lowercase_def map_eq_Cons_conv lower_chars)

lemma lower_mem:
  "slash \<in> set (to_ascii_lowercase p) \<longleftrightarrow> slash \<in> set p"
  "backslash \<in> set (to_ascii_lowercase p) \<longleftrightarrow> backslash \<in> set p"
  unfolding to_ascii_lowercase_def set_map image_iff by (metis lower_chars)+

lemma canonical_part_lower:
  "p \<noteq> [] \<Longrightarrow> slash \<notin> set p \<Longrightarrow> backslash \<notin> set p \<Longrightarrow> p \<noteq> ''.'' \<Longrightarrow> p \<noteq> ''..'' \<Longrightarrow>
     canonical_part (to_ascii_lowercase p)"
  by (simp add: canonical_part_def lower_mem lower_dots) (simp add: to_ascii_lowercase_def)

lemma scope_parts_canonical:
  "scope_parts ps = Some qs \<Longrightarrow> (\<And>p. p \<in> set ps \<Longrightarrow> slash \<notin> set p \<and> backslash \<notin> set p) \<Longrightarrow>
     list_all canonical_part qs"
proof (induction ps arbitrary: qs rule: scope_parts.induct)
  case (2 part rest)
  then show ?case by (auto simp: canonical_part_lower split: if_splits option.splits)
qed simp

lemma scope_parts_id: "list_all canonical_part ps \<Longrightarrow> scope_parts ps = Some ps"
  by (induction ps) (auto simp: canonical_part_def)

lemma set_split_on: "p \<in> set (split_on c s) \<Longrightarrow> set p \<subseteq> set s"
proof (induction s arbitrary: p)
  case (Cons x s)
  obtain q qs where q: "split_on c s = q # qs" using split_on_ne by (metis neq_Nil_conv)
  have IH: "\<And>r. r = q \<or> r \<in> set qs \<Longrightarrow> set r \<subseteq> set s" using Cons.IH q by auto
  from Cons.prems show ?case by (auto simp: q split: if_splits dest: IH [THEN subsetD, rotated])
qed simp

lemma set_strip_dot_slash: "set (strip_dot_slash s) \<subseteq> set s"
  by (induction s rule: strip_dot_slash.induct) auto

lemma normalize_scope_parts:
  assumes "normalize_scope raw = Inr s"
  shows "\<exists>ps. ps \<noteq> [] \<and> list_all canonical_part ps \<and> s = join [slash] ps"
proof -
  let ?b = "strip_dot_slash (replace_char backslash slash (trim raw))"
  obtain ps where ps: "scope_parts (split_on slash ?b) = Some ps" "ps \<noteq> []" "s = join [slash] ps"
    using assms by (auto simp: normalize_scope_def Let_def split: if_splits option.splits)
  have "backslash \<notin> set ?b"
    using set_strip_dot_slash [of "replace_char backslash slash (trim raw)"]
    by (auto simp: replace_char_def backslash_def slash_def)
  then have "slash \<notin> set p \<and> backslash \<notin> set p" if "p \<in> set (split_on slash ?b)" for p
    using that split_on_no_sep set_split_on by blast
  with ps scope_parts_canonical show ?thesis by blast
qed

lemma split_join_canonical: "ps \<noteq> [] \<Longrightarrow> list_all canonical_part ps \<Longrightarrow> split_on slash (join [slash] ps) = ps"
  by (rule split_on_join) (auto simp: list_all_iff canonical_part_def)

lemma normalize_scope_canonical: "normalize_scope raw = Inr s \<Longrightarrow> canonical_scope s"
  using normalize_scope_parts [of raw s] by (auto simp: canonical_scope_def split_join_canonical)

text \<open>The string test \<open>strip_prefix(..).starts_with('/')\<close> is strict prefix of components.\<close>

lemma starts_with_slash_iff: "starts_with_slash (strip_prefix a b) \<longleftrightarrow> strict_prefix (split_on slash a) (split_on slash b)"
proof
  assume "starts_with_slash (strip_prefix a b)"
  then obtain r where "b = a @ slash # r"
    by (cases "strip_prefix a b") (auto simp: starts_with_slash_def strip_prefix_Some neq_Nil_conv)
  then show "strict_prefix (split_on slash a) (split_on slash b)"
    using split_on_ne [of slash r] by (simp add: split_on_append_sep strict_prefix_def)
next
  assume "strict_prefix (split_on slash a) (split_on slash b)"
  then obtain qs where qs: "split_on slash b = split_on slash a @ qs" "qs \<noteq> []"
    by (auto elim: strict_prefixE')
  then have "b = a @ slash # join [slash] qs"
    using join_append [OF split_on_ne qs(2), of "[slash]" slash a] join_split [of slash b] join_split [of slash a]
    by simp
  then have "strip_prefix a b = Some (slash # join [slash] qs)" by (simp add: strip_prefix_Some)
  then show "starts_with_slash (strip_prefix a b)" by (simp add: starts_with_slash_def)
qed

lemma split_on_inj: "split_on c a = split_on c b \<Longrightarrow> a = b"
  by (metis join_split)

lemma scopes_overlap_prefix:
  "scopes_overlap a b \<longleftrightarrow> prefix (split_on slash a) (split_on slash b) \<or> prefix (split_on slash b) (split_on slash a)"
  unfolding scopes_overlap_def starts_with_slash_iff by (auto simp: strict_prefix_def dest: split_on_inj)

lemma prefix_common: "(\<exists>p. prefix a p \<and> prefix b p) \<longleftrightarrow> prefix a b \<or> prefix b a"
  by (meson prefix_order.refl prefix_same_cases)

text \<open>Two scopes overlap exactly when some path lies in both: the string comparison
  decides whether the sets of paths the two scopes own, themselves and everything below, meet. It
  compares whole components, so a scope never overlaps a sibling whose name merely starts with it.\<close>

theorem scopes_overlap_iff_shared_path: "scopes_overlap a b \<longleftrightarrow> (\<exists>path. owns a path \<and> owns b path)"
  unfolding scopes_overlap_prefix owns_def by (rule prefix_common [symmetric])

lemma scopes_overlap_sym: "scopes_overlap a b = scopes_overlap b a"
  by (auto simp: scopes_overlap_def)

lemma scopes_overlap_refl: "scopes_overlap a a"
  by (simp add: scopes_overlap_def)

lemma disjoint_scopes_iff: "disjoint_scopes a b \<longleftrightarrow> (\<forall>x\<in>set a. \<forall>y\<in>set b. \<not> scopes_overlap x y)"
  by (auto simp: disjoint_scopes_def list_ex_iff)

lemma disjoint_scopes_sym: "disjoint_scopes a b = disjoint_scopes b a"
  unfolding disjoint_scopes_iff using scopes_overlap_sym by blast

lemma disjoint_scopes_append [simp]:
  "disjoint_scopes a (b @ c) \<longleftrightarrow> disjoint_scopes a b \<and> disjoint_scopes a c"
  "disjoint_scopes a []"
  by (auto simp: disjoint_scopes_iff)

lemma normalize_all_Inr: "normalize_all ss = Inr ns \<longleftrightarrow> map normalize_scope ss = map Inr ns"
proof (induction ss arbitrary: ns)
  case (Cons s ss)
  show ?case
  proof (cases ns)
    case (Cons n ms)
    then show ?thesis using Cons.IH [of ms] by (cases "normalize_all ss") (auto split: sum.splits)
  qed (auto split: sum.splits)
qed auto

text \<open>What a raw scope reserves; one that cannot be read is no reservation anyone may rely on.\<close>

definition readable :: "string \<Rightarrow> bool" where
  "readable raw \<longleftrightarrow> (case normalize_scope raw of Inl _ \<Rightarrow> False | Inr _ \<Rightarrow> True)"

definition reserves :: "string \<Rightarrow> string list \<Rightarrow> bool" where
  "reserves raw path \<longleftrightarrow> (case normalize_scope raw of Inl _ \<Rightarrow> True | Inr s \<Rightarrow> owns s path)"

lemma normalize_all_readable: "(\<exists>ns. normalize_all ss = Inr ns) \<longleftrightarrow> list_all readable ss"
proof (induction ss)
  case (Cons s ss)
  then show ?case by (cases "normalize_scope s"; cases "normalize_all ss") (auto simp: readable_def)
qed simp

lemma normalize_all_reserves:
  "normalize_all ss = Inr ns \<Longrightarrow> (\<exists>s\<in>set ss. reserves s path) \<longleftrightarrow> (\<exists>n\<in>set ns. owns n path)"
proof (induction ss arbitrary: ns)
  case (Cons s ss)
  then show ?case by (auto simp: reserves_def split: sum.splits)
qed simp

definition shared_path :: "string list \<Rightarrow> string list \<Rightarrow> bool" where
  "shared_path a b \<longleftrightarrow> (\<exists>path. list_ex (\<lambda>s. reserves s path) a \<and> list_ex (\<lambda>s. reserves s path) b)"

lemma disjoint_scopes_shared:
  assumes n: "normalize_all a = Inr ns" "normalize_all b = Inr ms"
  shows "disjoint_scopes ns ms \<longleftrightarrow> \<not> shared_path a b"
proof -
  have "disjoint_scopes ns ms \<longleftrightarrow> \<not> (\<exists>path. (\<exists>x\<in>set ns. owns x path) \<and> (\<exists>y\<in>set ms. owns y path))"
    by (auto simp: disjoint_scopes_iff scopes_overlap_prefix owns_def prefix_common [symmetric])
  then show ?thesis
    by (simp only: shared_path_def normalize_all_reserves [OF n(1), symmetric]
        normalize_all_reserves [OF n(2), symmetric] list_ex_iff)
qed

text \<open>Two reservations are reported disjoint exactly when every scope of both can be read and no
  path is reserved by both: an unreadable scope is never reported as free.\<close>

theorem task_scopes_disjoint_iff:
  "task_scopes_disjoint a b \<longleftrightarrow>
     list_all readable (a @ b) \<and> \<not> shared_path a b"
proof (cases "list_all readable (a @ b)")
  case True
  then obtain ns ms where n: "normalize_all a = Inr ns" "normalize_all b = Inr ms"
    using normalize_all_readable [of a] normalize_all_readable [of b] by auto
  then show ?thesis using True disjoint_scopes_shared [OF n] by (simp add: task_scopes_disjoint_def)
next
  case False
  then have "(\<exists>e. normalize_all a = Inl e) \<or> (\<exists>e. normalize_all b = Inl e)"
    using normalize_all_readable [of a] normalize_all_readable [of b]
    by (metis list_all_append sum.exhaust)
  with False show ?thesis by (auto simp: task_scopes_disjoint_def split: sum.splits)
qed

lemma strip_dot_slash_id: "\<not> prefix ''./'' s \<Longrightarrow> strip_dot_slash s = s"
  by (induction s rule: strip_dot_slash.induct) auto

lemma replace_char_id: "a \<notin> set s \<Longrightarrow> replace_char a b s = s"
  unfolding replace_char_def by (rule map_idI) auto

lemma canonical_no_backslash: "canonical_scope s \<Longrightarrow> backslash \<notin> set s"
proof -
  assume c: "canonical_scope s"
  have "set (join [slash] ps) \<subseteq> \<Union> (set ` set ps) \<union> {slash}" for ps
  proof (induction ps)
    case (Cons p ps)
    then show ?case by (cases "ps = []") (auto simp: join_Cons)
  qed simp
  then have "set s \<subseteq> \<Union> (set ` set (split_on slash s)) \<union> {slash}" using join_split [of slash s] by metis
  with c show ?thesis by (auto simp: canonical_scope_def list_all_iff canonical_part_def slash_def backslash_def)
qed

lemma canonical_first: "canonical_scope s \<Longrightarrow> s \<noteq> [] \<and> hd s \<noteq> slash \<and> \<not> prefix ''./'' s"
proof -
  assume c: "canonical_scope s"
  obtain q qs where q: "split_on slash s = q # qs" using split_on_ne by (metis neq_Nil_conv)
  then have "canonical_part q" using c by (simp add: canonical_scope_def)
  moreover have "s = q \<or> (\<exists>r. s = q @ slash # r)"
    using join_split [of slash s] q by (cases qs) auto
  ultimately show ?thesis
    by (cases q) (auto simp: canonical_part_def slash_def Cons_eq_append_conv prefix_def append_eq_Cons_conv)
qed

lemma normalize_canonical:
  assumes c: "canonical_scope s" and "trim s = s" and "\<not> (1 < length s \<and> s ! 1 = CHR '':'')"
  shows "normalize_scope s = Inr s"
proof -
  have "scope_parts (split_on slash s) = Some (split_on slash s)"
    using c by (simp add: canonical_scope_def scope_parts_id)
  then show ?thesis
    using assms(2,3) canonical_first [OF c] split_on_ne [of slash s]
    by (simp add: normalize_scope_def Let_def replace_char_id canonical_no_backslash [OF c] strip_dot_slash_id join_split)
qed

text \<open>A normalized scope is canonical: components that are not empty, not \<open>.\<close> or \<open>..\<close>, lower case,
  with no separator left over; and normalizing it again gives it back, provided that it has no
  outer blank and no colon in second place.\<close>

theorem normalize_scope_idempotent:
  assumes "normalize_scope raw = Inr s" and "trim s = s" and "\<not> (1 < length s \<and> s ! 1 = CHR '':'')"
  shows "canonical_scope s \<and> normalize_scope s = Inr s"
  using normalize_scope_canonical [OF assms(1)] normalize_canonical assms(2,3) by blast

lemma normalize_plain:
  "trim raw = raw \<Longrightarrow> backslash \<notin> set raw \<Longrightarrow> raw \<noteq> [] \<Longrightarrow> hd raw \<noteq> slash \<Longrightarrow>
     \<not> (1 < length raw \<and> raw ! 1 = CHR '':'') \<Longrightarrow>
     normalize_scope raw =
       (case scope_parts (split_on slash (strip_dot_slash raw)) of
          None \<Rightarrow> Inl (DotComponent raw)
        | Some parts \<Rightarrow> if parts = [] then Inl (EmptyScope raw) else Inr (join [slash] parts))"
  unfolding normalize_scope_def Let_def by (simp only: replace_char_id simp_thms if_False)

lemma lower_docs: "to_ascii_lowercase ''Docs'' = ''docs''" "to_ascii_lowercase ''a.md'' = ''a.md''"
    "to_ascii_lowercase ''C:'' = ''c:''" "to_ascii_lowercase ''x'' = ''x''"
  by (simp_all add: to_ascii_lowercase_def to_ascii_lower_char_def is_ascii_upper_def char_of_def bit_0 bit_Suc)

theorem normalize_scope_idempotent_witness:
  "normalize_scope ''./Docs//a.md'' = Inr ''docs/a.md'' \<and> canonical_scope ''docs/a.md''
    \<and> normalize_scope ''docs/a.md'' = Inr ''docs/a.md''"
proof -
  have "trim ''./Docs//a.md'' = ''./Docs//a.md''" by (rule trim_graphic) (simp add: is_ascii_graphic_def)
  then have n: "normalize_scope ''./Docs//a.md'' = Inr ''docs/a.md''"
    by (subst normalize_plain) (simp_all add: lower_docs slash_def backslash_def)
  have "trim ''docs/a.md'' = ''docs/a.md''" by (rule trim_graphic) (simp add: is_ascii_graphic_def)
  with n normalize_scope_idempotent [OF n] show ?thesis by simp
qed

text \<open>A drive letter behind \<open>./\<close> is not rejected: the drive test looks only at the second byte of
  the spelling before \<open>./\<close> is stripped, so \<open>./C:/x\<close> is accepted and normalized to \<open>c:/x\<close>, a scope
  that is itself rejected as naming a drive.\<close>

theorem normalize_scope_drive_after_dot:
  "normalize_scope ''./C:/x'' = Inr ''c:/x'' \<and> normalize_scope ''c:/x'' = Inl (NamesDrive ''c:/x'')"
proof -
  have t: "trim ''./C:/x'' = ''./C:/x''" "trim ''c:/x'' = ''c:/x''"
    by (rule trim_graphic; simp add: is_ascii_graphic_def)+
  have "normalize_scope ''./C:/x'' = Inr ''c:/x''"
    using t by (subst normalize_plain) (simp_all add: lower_docs slash_def backslash_def)
  moreover have "normalize_scope ''c:/x'' = Inl (NamesDrive ''c:/x'')"
    using t by (simp add: normalize_scope_def replace_char_def slash_def backslash_def)
  ultimately show ?thesis by simp
qed

section \<open>Batches of tasks with disjoint scopes\<close>

text \<open>A scan over tasks in order, \<open>pick n reserved tasks\<close>, that may stop, skip a task, or take a task
  whose scopes are free of what is reserved and reserve them.\<close>

locale batch_selection =
  fixes free :: "'s \<Rightarrow> 's \<Rightarrow> bool"
    and scopes :: "'a \<Rightarrow> 's"
    and pick :: "nat \<Rightarrow> 'a list \<Rightarrow> 'a list \<Rightarrow> 'a list"
  assumes free_sym: "free a b = free b a"
    and pick_Nil: "pick n taken [] = []"
    and pick_Cons: "pick n taken (x # xs) = [] \<or> pick n taken (x # xs) = pick n taken xs
      \<or> (0 < n \<and> list_all (\<lambda>y. free (scopes x) (scopes y)) taken
         \<and> pick n taken (x # xs) = x # pick (n - 1) (taken @ [x]) xs)"
begin

lemma pick_subseq: "subseq (pick n taken xs) xs"
proof (induction xs arbitrary: n taken)
  case (Cons x xs)
  from pick_Cons [of n taken x xs] Cons show ?case by (auto intro: subseq_Cons')
qed (simp add: pick_Nil)

lemma pick_length: "length (pick n taken xs) \<le> n"
proof (induction xs arbitrary: n taken)
  case (Cons x xs)
  from pick_Cons [of n taken x xs] Cons [of n taken] Cons [of "n - 1" "taken @ [x]"] show ?case by auto
qed (simp add: pick_Nil)

lemma pick_free_taken: "x \<in> set (pick n taken xs) \<Longrightarrow> y \<in> set taken \<Longrightarrow> free (scopes x) (scopes y)"
proof (induction xs arbitrary: n taken)
  case (Cons z xs)
  from pick_Cons [of n taken z xs] Cons.prems Cons.IH [of n taken] Cons.IH [of "n - 1" "taken @ [z]"]
  show ?case by (auto simp: list_all_iff)
qed (simp add: pick_Nil)

lemma pick_pairwise_free: "sorted_wrt (\<lambda>a b. free (scopes a) (scopes b)) (pick n taken xs)"
proof (induction xs arbitrary: n taken)
  case (Cons x xs)
  have "\<forall>y\<in>set (pick (n - 1) (taken @ [x]) xs). free (scopes x) (scopes y)"
    using pick_free_taken [of _ "n - 1" "taken @ [x]" xs x] free_sym by auto
  with pick_Cons [of n taken x xs] Cons [of n taken] Cons [of "n - 1" "taken @ [x]"] show ?case by auto
qed (simp add: pick_Nil)

end

end
