(* ===== verification/Claims.thy ===== *)
theory Claims
  imports Susi_Strings
begin

text \<open>
  The native coordinator's records as \<open>crates/susi-harness/src/workflow.rs\<close> reads them
  (\<open>inspect_repo_workflow\<close>): claims, verification slots and the integration head. The file system is
  an argument: a directory entry comes with what the code asks of it (extension, stem, whether it is
  a symbolic link, its text, \<open>None\<close> where the call fails).
\<close>

definition newline_char :: char where "newline_char = CHR 0x0A"

definition carriage_return :: char where "carriage_return = CHR 0x0D"

text \<open>\<open>str::lines\<close>: a line ends with a line feed, with a carriage return before it or not; the last
  line need not end; an empty rest is no line.\<close>

definition strip_cr :: "string \<Rightarrow> string" where
  "strip_cr l = (if l \<noteq> [] \<and> last l = carriage_return then butlast l else l)"

definition str_lines :: "string \<Rightarrow> string list" where
  "str_lines s =
     (let ps = split_on newline_char s
      in map strip_cr (butlast ps) @ (if last ps = [] then [] else [last ps]))"

definition CLAIM_HEADER :: string where
  "CLAIM_HEADER = ''susi-local-claim-v2''"

definition INTEGRATION_REF :: string where
  "INTEGRATION_REF = ''refs/susi/integration/current''"

record claim_record =
  cl_name :: string
  cl_worktree :: string
  cl_base :: string
  cl_scopes :: "string list"

record slot_record =
  sl_agent :: string
  sl_pid :: "u32 option"
  sl_scope_key :: "string option"

record workflow_snapshot =
  sn_claims :: "claim_record list"
  sn_active_slots :: "slot_record list"
  sn_integration_head :: "string option"

datatype claim_error =
    StatFailed | Symlink | ReadFailed | NotClaim | MissingName | NameMismatch | MissingWorktree
  | BadBase | NoScopes | ListingFailed

definition is_oid :: "string \<Rightarrow> bool" where
  "is_oid t \<longleftrightarrow> (length t = 40 \<or> length t = 64) \<and> list_all is_ascii_hexdigit t"

definition claimed_scopes :: "workflow_snapshot \<Rightarrow> string list" where
  "claimed_scopes s = concat (map cl_scopes (sn_claims s))"

text \<open>\<open>parse_claim\<close>: the file's stem, whether it is a link, and its text.\<close>

definition parse_claim_lines :: "string option \<Rightarrow> string list \<Rightarrow> claim_error + claim_record" where
  "parse_claim_lines stem ls0 =
     (case ls0 of
        [] \<Rightarrow> Inl NotClaim
      | header # ls1 \<Rightarrow>
          if header \<noteq> CLAIM_HEADER then Inl NotClaim
          else case ls1 of
              [] \<Rightarrow> Inl MissingName
            | name # ls2 \<Rightarrow>
                if blank name then Inl MissingName
                else if stem \<noteq> Some name then Inl NameMismatch
                else case ls2 of
                    [] \<Rightarrow> Inl MissingWorktree
                  | worktree # ls3 \<Rightarrow>
                      if blank worktree then Inl MissingWorktree
                      else case ls3 of
                          [] \<Rightarrow> Inl BadBase
                        | base # ls4 \<Rightarrow>
                            if \<not> is_oid base then Inl BadBase
                            else
                              let scopes = filter (\<lambda>l. \<not> blank l) ls4
                              in if scopes = [] then Inl NoScopes
                                 else Inr \<lparr>cl_name = name, cl_worktree = worktree, cl_base = base, cl_scopes = scopes\<rparr>)"

record dir_entry =
  de_extension :: "string option"
  de_name :: "string option"
  de_stem :: "string option"
  de_symlink :: "bool option"
  de_text :: "string option"

definition parse_claim :: "dir_entry \<Rightarrow> claim_error + claim_record" where
  "parse_claim entry =
     (case de_symlink entry of
        None \<Rightarrow> Inl StatFailed
      | Some True \<Rightarrow> Inl Symlink
      | Some False \<Rightarrow>
          (case de_text entry of
             None \<Rightarrow> Inl ReadFailed
           | Some data \<Rightarrow> parse_claim_lines (de_stem entry) (str_lines data)))"

fun parse_claims :: "dir_entry list \<Rightarrow> claim_error + claim_record list" where
  "parse_claims [] = Inr []"
| "parse_claims (entry # rest) =
     (if de_extension entry \<noteq> Some ''claim'' then parse_claims rest
      else case parse_claim entry of
          Inl e \<Rightarrow> Inl e
        | Inr c \<Rightarrow> (case parse_claims rest of Inl e \<Rightarrow> Inl e | Inr cs \<Rightarrow> Inr (c # cs)))"

definition read_claims :: "dir_entry list \<Rightarrow> claim_error + claim_record list" where
  "read_claims entries =
     (case parse_claims entries of Inl e \<Rightarrow> Inl e | Inr cs \<Rightarrow> Inr (sort_key cl_name cs))"

definition parse_u32 :: "string \<Rightarrow> u32 option" where
  "parse_u32 s = (case parse_u64 s of None \<Rightarrow> None | Some n \<Rightarrow> if unat n < 2 ^ 32 then Some (ucast n) else None)"

definition slot_line :: "string \<Rightarrow> slot_record \<Rightarrow> slot_record" where
  "slot_line line slot =
     (case split_once CHR ''='' line of
        None \<Rightarrow> slot
      | Some (k, v) \<Rightarrow>
          let key = trim k; value = trim v
          in if key = ''pid'' then slot\<lparr>sl_pid := parse_u32 value\<rparr>
             else if key = ''agent'' \<and> value \<noteq> [] then slot\<lparr>sl_agent := value\<rparr>
             else if (key = ''scope'' \<or> key = ''scope_key'') \<and> value \<noteq> [] then slot\<lparr>sl_scope_key := Some value\<rparr>
             else slot)"

definition parse_slot :: "string \<Rightarrow> string \<Rightarrow> slot_record" where
  "parse_slot name txt =
     fold slot_line (str_lines txt) \<lparr>sl_agent = name, sl_pid = None, sl_scope_key = None\<rparr>"

definition read_slots :: "dir_entry list \<Rightarrow> slot_record list" where
  "read_slots entries =
     sort_key sl_agent
       (List.map_filter
          (\<lambda>entry.
             if de_extension entry = Some ''lock'' then None
             else case (de_name entry, de_text entry) of
                 (Some name, Some txt) \<Rightarrow> Some (parse_slot name txt)
               | _ \<Rightarrow> None)
          entries)"

fun first_map :: "('a \<Rightarrow> 'b option) \<Rightarrow> 'a list \<Rightarrow> 'b option" where
  "first_map f [] = None"
| "first_map f (x # xs) = (case f x of None \<Rightarrow> first_map f xs | Some y \<Rightarrow> Some y)"

definition packed_head :: "string \<Rightarrow> string option" where
  "packed_head line =
     (case split_once CHR '' '' line of
        None \<Rightarrow> None
      | Some (oid, reference) \<Rightarrow> if trim reference = INTEGRATION_REF \<and> is_oid oid then Some oid else None)"

definition read_integration_head :: "string option \<Rightarrow> string option \<Rightarrow> string option" where
  "read_integration_head loose packed =
     (case (case loose of None \<Rightarrow> None | Some t \<Rightarrow> if is_oid (trim t) then Some (trim t) else None) of
        Some oid \<Rightarrow> Some oid
      | None \<Rightarrow> (case packed of None \<Rightarrow> None | Some t \<Rightarrow> first_map packed_head (str_lines t)))"

definition inspect_repo_workflow :: "dir_entry list \<Rightarrow> dir_entry list \<Rightarrow> string option \<Rightarrow> string option
    \<Rightarrow> claim_error + workflow_snapshot" where
  "inspect_repo_workflow claim_entries slot_entries loose packed =
     (case read_claims claim_entries of
        Inl e \<Rightarrow> Inl e
      | Inr claims \<Rightarrow> Inr \<lparr>sn_claims = claims, sn_active_slots = read_slots slot_entries,
                         sn_integration_head = read_integration_head loose packed\<rparr>)"

section \<open>Lines\<close>

lemma split_on_terminated:
  "\<forall>l\<in>set ls. c \<notin> set l \<Longrightarrow> split_on c (concat (map (\<lambda>l. l @ [c]) ls)) = ls @ [[]]"
  by (induction ls) (auto simp: split_on_sep)

text \<open>A line is plain when it has no line feed and does not end in a carriage return.\<close>

definition plain_line :: "string \<Rightarrow> bool" where
  "plain_line l \<longleftrightarrow> newline_char \<notin> set l \<and> (l = [] \<or> last l \<noteq> carriage_return)"

lemma str_lines_terminated:
  assumes "list_all plain_line ls"
  shows "str_lines (concat (map (\<lambda>l. l @ [newline_char]) ls)) = ls"
proof -
  have "map strip_cr ls = ls"
    by (rule map_idI) (use assms in \<open>auto simp: list_all_iff plain_line_def strip_cr_def\<close>)
  then show ?thesis
    using assms by (simp add: str_lines_def split_on_terminated list_all_iff plain_line_def)
qed

lemma join_terminated: "ls \<noteq> [] \<Longrightarrow> join [c] ls @ [c] = concat (map (\<lambda>l. l @ [c]) ls)"
proof (induction ls)
  case (Cons l ls)
  then show ?case by (cases "ls = []") (auto simp: join_Cons)
qed simp

end
