(* ===== verification/Coordinator.thy ===== *)
theory Coordinator
  imports Scopes Claims Ordered_Map
begin

text \<open>
  The native coordinator of \<open>xtask/src/bin/local-workflow.rs\<close>: the claim files under
  \<open>susi-local-workflow/claims\<close> and the operations that change them (\<open>start\<close>, \<open>update_scopes\<close>,
  \<open>release\<close>, and the removal at the end of an integration). The store maps a claimant to the text of
  \<open><claimant>.claim\<close>; each operation holds the coordinator's lock from its first read to its last
  write, so it is one step. What an operation learns from git or from the file system is the record
  \<open>start_env\<close> or an argument.
\<close>

section \<open>Names and scopes\<close>

datatype coord_error =
    BadName string | BadScopeShape | UnsafeScope string | NoScope | AlreadyClaimed string
  | Overlap string string | ClaimError claim_error | RelativeWorktree | ControlCharacters
  | GitError | DestinationExists | NotInWorktree | Dirty | NotHeld | LastScope | NotIntegrated

definition is_control_byte :: "char \<Rightarrow> bool" where
  "is_control_byte c \<longleftrightarrow> (of_char c :: nat) < 32 \<or> (of_char c :: nat) = 127"

definition is_ascii_byte :: "char \<Rightarrow> bool" where
  "is_ascii_byte c \<longleftrightarrow> (of_char c :: nat) < 128"

definition reserved :: "string \<Rightarrow> bool" where
  "reserved value =
     (let first = to_ascii_lowercase (hd (split_on CHR ''.'' value))
      in first \<in> set [''con'', ''prn'', ''aux'', ''nul'']
       \<or> (length first = 4 \<and> (take 3 first = ''com'' \<or> take 3 first = ''lpt'')
          \<and> is_ascii_digit (first ! 3) \<and> first ! 3 \<noteq> CHR ''0''))"

definition coord_name :: "string \<Rightarrow> coord_error + unit" where
  "coord_name value =
     (if value = [] \<or> 48 < length value
         \<or> \<not> list_all (\<lambda>c. is_ascii_lower c \<or> is_ascii_digit c \<or> c = CHR ''-'') value
         \<or> hd value = CHR ''-'' \<or> last value = CHR ''-''
      then Inl (BadName value)
      else if reserved value then Inl (BadName value)
      else Inr ())"

definition unsafe_char :: "char \<Rightarrow> bool" where
  "unsafe_char c \<longleftrightarrow> is_control_byte c
     \<or> c \<in> set [CHR '':'', CHR ''*'', CHR ''?'', CHR 0x22, CHR ''<'', CHR ''>'', CHR ''|'']"

definition unsafe_component :: "string \<Rightarrow> bool" where
  "unsafe_component c \<longleftrightarrow>
     c = [] \<or> c = ''.'' \<or> c = ''..'' \<or> eq_ignore_ascii_case c ''.git''
     \<or> last c = CHR ''.'' \<or> last c = CHR '' '' \<or> reserved c \<or> list_ex unsafe_char c"

definition coord_scope :: "string \<Rightarrow> coord_error + string" where
  "coord_scope raw =
     (let value = replace_char backslash slash raw
      in if value = [] \<or> \<not> list_all is_ascii_byte value \<or> hd value = slash \<or> last value = slash
         then Inl BadScopeShape
         else if list_ex unsafe_component (split_on slash value) then Inl (UnsafeScope value)
         else Inr (to_ascii_lowercase value))"

definition overlaps :: "string \<Rightarrow> string \<Rightarrow> bool" where
  "overlaps a b \<longleftrightarrow>
     a = b \<or> starts_with_slash (strip_prefix b a) \<or> starts_with_slash (strip_prefix a b)"

fun coord_scopes :: "string list \<Rightarrow> coord_error + string list" where
  "coord_scopes [] = Inr []"
| "coord_scopes (s # ss) =
     (case coord_scope s of
        Inl e \<Rightarrow> Inl e
      | Inr n \<Rightarrow> (case coord_scopes ss of Inl e \<Rightarrow> Inl e | Inr ns \<Rightarrow> Inr (n # ns)))"

section \<open>Claim files\<close>

text \<open>\<open>sort\<close> and \<open>dedup\<close> of the scopes, then the text of the file.\<close>

definition sort_dedup :: "string list \<Rightarrow> string list" where
  "sort_dedup xs = remdups_adj (sort xs)"

definition claim_text :: "claim_record \<Rightarrow> string" where
  "claim_text c =
     ''susi-local-claim-v2'' @ [newline_char] @ cl_name c @ [newline_char] @ cl_worktree c @ [newline_char]
     @ cl_base c @ [newline_char] @ join [newline_char] (cl_scopes c) @ [newline_char]"

definition valid_oid :: "string \<Rightarrow> bool" where
  "valid_oid value \<longleftrightarrow> (length value = 40 \<or> length value = 64) \<and> list_all is_ascii_hexdigit value"

definition read_claim :: "(string \<Rightarrow> bool) \<Rightarrow> string \<Rightarrow> string \<Rightarrow> coord_error + claim_record" where
  "read_claim is_absolute stem data =
     (case str_lines data of
        [] \<Rightarrow> Inl (ClaimError NotClaim)
      | header # ls1 \<Rightarrow>
          if header \<noteq> ''susi-local-claim-v2'' then Inl (ClaimError NotClaim)
          else case ls1 of
              [] \<Rightarrow> Inl (ClaimError MissingName)
            | claimant # ls2 \<Rightarrow>
                (case coord_name claimant of
                   Inl e \<Rightarrow> Inl e
                 | Inr _ \<Rightarrow>
                     (case ls2 of
                        [] \<Rightarrow> Inl (ClaimError MissingWorktree)
                      | worktree # ls3 \<Rightarrow>
                          if \<not> is_absolute worktree then Inl RelativeWorktree
                          else case ls3 of
                              [] \<Rightarrow> Inl (ClaimError BadBase)
                            | base # ls4 \<Rightarrow>
                                if \<not> valid_oid base then Inl (ClaimError BadBase)
                                else case coord_scopes ls4 of
                                    Inl e \<Rightarrow> Inl e
                                  | Inr scopes \<Rightarrow>
                                      if scopes = [] then Inl (ClaimError NoScopes)
                                      else if stem \<noteq> claimant then Inl (ClaimError NameMismatch)
                                      else Inr \<lparr>cl_name = claimant, cl_worktree = worktree, cl_base = base,
                                                cl_scopes = scopes\<rparr>)))"

type_synonym claim_store = "(string, string) btree_map"

fun read_all :: "(string \<Rightarrow> bool) \<Rightarrow> claim_store \<Rightarrow> coord_error + claim_record list" where
  "read_all is_absolute [] = Inr []"
| "read_all is_absolute ((stem, data) # rest) =
     (case read_claim is_absolute stem data of
        Inl e \<Rightarrow> Inl e
      | Inr c \<Rightarrow> (case read_all is_absolute rest of Inl e \<Rightarrow> Inl e | Inr cs \<Rightarrow> Inr (c # cs)))"

definition claims :: "(string \<Rightarrow> bool) \<Rightarrow> claim_store \<Rightarrow> coord_error + claim_record list" where
  "claims is_absolute store =
     (case read_all is_absolute store of Inl e \<Rightarrow> Inl e | Inr cs \<Rightarrow> Inr (sort_key cl_name cs))"

section \<open>Operations\<close>

text \<open>\<open>char::is_control\<close> on UTF-8: the ASCII controls and the two-byte controls \<open>C2 80\<close> to \<open>C2 9F\<close>.\<close>

fun has_control :: "string \<Rightarrow> bool" where
  "has_control [] = False"
| "has_control (c # s) =
     (is_control_byte c
      \<or> (of_char c = (0xC2 :: nat) \<and> s \<noteq> [] \<and> (0x80 :: nat) \<le> of_char (hd s) \<and> of_char (hd s) \<le> (0x9F :: nat))
      \<or> has_control s)"

text \<open>The scan over the live claims: the first conflict, if any.\<close>

fun first_conflict :: "string \<Rightarrow> string list \<Rightarrow> claim_record list \<Rightarrow> coord_error option" where
  "first_conflict claimant scopes [] = None"
| "first_conflict claimant scopes (active # rest) =
     (if cl_name active = claimant then Some (AlreadyClaimed claimant)
      else case List.find (\<lambda>requested. list_ex (\<lambda>held. overlaps requested held) (cl_scopes active)) scopes of
          Some requested \<Rightarrow> Some (Overlap requested (cl_name active))
        | None \<Rightarrow> first_conflict claimant scopes rest)"

text \<open>What \<open>start\<close> learns from git and the file system. \<open>se_worktree\<close> and \<open>se_base\<close> are \<open>None\<close> where the
  query fails; \<open>se_reusable\<close> is the answer of \<open>reusable_worktree\<close>.\<close>

record start_env =
  se_history_ok :: bool
  se_worktree :: "string option"
  se_base :: "string option"
  se_exists :: bool
  se_reusable :: "bool option"
  se_git_ok :: bool
  se_left_behind :: bool
  se_target_ok :: bool

definition start :: "(string \<Rightarrow> bool) \<Rightarrow> start_env \<Rightarrow> string \<Rightarrow> string list \<Rightarrow> claim_store
    \<Rightarrow> (coord_error + string) \<times> claim_store" where
  "start is_absolute env claimant raw_scopes store =
     (if \<not> se_history_ok env then (Inl GitError, store)
      else case coord_name claimant of
          Inl e \<Rightarrow> (Inl e, store)
        | Inr _ \<Rightarrow>
      (case coord_scopes raw_scopes of
          Inl e \<Rightarrow> (Inl e, store)
        | Inr parsed \<Rightarrow>
      if parsed = [] then (Inl NoScope, store)
      else let scopes = sort_dedup parsed in
      (case claims is_absolute store of
          Inl e \<Rightarrow> (Inl e, store)
        | Inr live \<Rightarrow>
      (case first_conflict claimant scopes live of
          Some e \<Rightarrow> (Inl e, store)
        | None \<Rightarrow>
      (case (se_worktree env, se_base env) of
          (Some worktree, Some base_oid) \<Rightarrow>
            if has_control worktree then (Inl ControlCharacters, store)
            else
              let written = bt_insert claimant
                    (claim_text \<lparr>cl_name = claimant, cl_worktree = worktree, cl_base = base_oid,
                                 cl_scopes = scopes\<rparr>) store
              in if se_exists env
                 then (case se_reusable env of
                         None \<Rightarrow> (Inl GitError, store)
                       | Some False \<Rightarrow> (Inl DestinationExists, store)
                       | Some True \<Rightarrow>
                           if \<not> se_git_ok env then (Inl GitError, bt_remove claimant written)
                           else if \<not> se_target_ok env then (Inl GitError, written)
                           else (Inr worktree, written))
                 else if \<not> se_git_ok env
                 then (Inl GitError, if se_left_behind env then written else bt_remove claimant written)
                 else if \<not> se_target_ok env then (Inl GitError, written)
                 else (Inr worktree, written)
        | _ \<Rightarrow> (Inl GitError, store))))))"

datatype scope_change = Extend | Shrink

text \<open>\<open>here\<close>: the call runs inside the claimed branch and worktree; \<open>clean\<close>: that worktree is clean;
  \<open>at_base\<close>: its head is the claim's base; \<open>source_ok\<close>: \<open>check_source\<close> accepts the proposed claim.\<close>

record update_env =
  ue_history_ok :: bool
  ue_here :: bool
  ue_clean :: bool
  ue_at_base :: bool
  ue_source_ok :: bool

definition read_file :: "(string \<Rightarrow> bool) \<Rightarrow> claim_store \<Rightarrow> string \<Rightarrow> coord_error + claim_record" where
  "read_file is_absolute store claimant =
     (case bt_get store claimant of
        None \<Rightarrow> Inl (ClaimError StatFailed)
      | Some data \<Rightarrow> read_claim is_absolute claimant data)"

definition changed_scopes :: "(string \<Rightarrow> bool) \<Rightarrow> update_env \<Rightarrow> claim_store \<Rightarrow> string \<Rightarrow> string list
    \<Rightarrow> scope_change \<Rightarrow> string list \<Rightarrow> coord_error + string list" where
  "changed_scopes is_absolute env store claimant requested change held_scopes =
     (case change of
        Extend \<Rightarrow>
          (case claims is_absolute store of
             Inl e \<Rightarrow> Inl e
           | Inr live \<Rightarrow>
               (case List.find (\<lambda>active. cl_name active \<noteq> claimant
                       \<and> list_ex (\<lambda>new. list_ex (\<lambda>held. overlaps new held) (cl_scopes active)) requested) live of
                  Some active \<Rightarrow> Inl (Overlap [] (cl_name active))
                | None \<Rightarrow> Inr (held_scopes @ requested)))
      | Shrink \<Rightarrow>
          if list_ex (\<lambda>s. s \<notin> set held_scopes) requested then Inl NotHeld
          else
            let kept = filter (\<lambda>s. s \<notin> set requested) held_scopes
            in if kept = [] then Inl LastScope
               else if \<not> ue_at_base env \<and> \<not> ue_source_ok env then Inl GitError
               else Inr kept)"

definition update_scopes :: "(string \<Rightarrow> bool) \<Rightarrow> update_env \<Rightarrow> string \<Rightarrow> string list \<Rightarrow> scope_change \<Rightarrow> claim_store
    \<Rightarrow> (coord_error + unit) \<times> claim_store" where
  "update_scopes is_absolute env claimant raw_scopes change store =
     (if \<not> ue_history_ok env then (Inl GitError, store)
      else case coord_name claimant of
          Inl e \<Rightarrow> (Inl e, store)
        | Inr _ \<Rightarrow>
      (case coord_scopes raw_scopes of
          Inl e \<Rightarrow> (Inl e, store)
        | Inr requested \<Rightarrow>
      if requested = [] then (Inl NoScope, store)
      else (case read_file is_absolute store claimant of
          Inl e \<Rightarrow> (Inl e, store)
        | Inr claim \<Rightarrow>
      if \<not> ue_here env then (Inl NotInWorktree, store)
      else if \<not> ue_clean env then (Inl Dirty, store)
      else (case changed_scopes is_absolute env store claimant requested change (cl_scopes claim) of
          Inl e \<Rightarrow> (Inl e, store)
        | Inr scopes \<Rightarrow>
            (Inr (), bt_insert claimant (claim_text (claim\<lparr>cl_scopes := sort_dedup scopes\<rparr>)) store)))))"

text \<open>\<open>integrated\<close>: the head is the claim's base, or an ancestor of the accepted integration.\<close>

record release_env =
  re_same_state :: bool
  re_branch_ok :: bool
  re_clean :: bool
  re_integrated :: bool

definition release_claim :: "(string \<Rightarrow> bool) \<Rightarrow> release_env \<Rightarrow> string \<Rightarrow> claim_store
    \<Rightarrow> (coord_error + unit) \<times> claim_store" where
  "release_claim is_absolute env claimant store =
     (case coord_name claimant of
        Inl e \<Rightarrow> (Inl e, store)
      | Inr _ \<Rightarrow>
          (case read_file is_absolute store claimant of
             Inl e \<Rightarrow> (Inl e, store)
           | Inr _ \<Rightarrow>
               if \<not> re_same_state env \<or> \<not> re_branch_ok env then (Inl NotInWorktree, store)
               else if \<not> re_clean env then (Inl Dirty, store)
               else if \<not> re_integrated env then (Inl NotIntegrated, store)
               else (Inr (), bt_remove claimant store)))"

text \<open>The end of an accepted integration removes the claims it took in.\<close>

definition remove_integrated :: "string list \<Rightarrow> claim_store \<Rightarrow> claim_store" where
  "remove_integrated claimants store = fold bt_remove claimants store"

end
