(* ===== verification/Coordinator_Inv.thy ===== *)
theory Coordinator_Inv
  imports Coordinator
begin

text \<open>
  What the coordinator of \<open>xtask/src/bin/local-workflow.rs\<close> keeps: every claim file can be read back,
  and no two live claims reserve a common path.
\<close>

section \<open>Canonical coordinator scopes\<close>

lemma split_on_map:
  "(\<And>x. f x = c \<longleftrightarrow> x = c) \<Longrightarrow> split_on c (map f s) = map (map f) (split_on c s)"
proof (induction s)
  case (Cons x s)
  then show ?case using split_on_ne [of c s] by (auto split: list.splits)
qed simp

lemma split_on_lower:
  "split_on slash (to_ascii_lowercase s) = map to_ascii_lowercase (split_on slash s)"
  "split_on CHR ''.'' (to_ascii_lowercase s) = map to_ascii_lowercase (split_on CHR ''.'' s)"
  unfolding to_ascii_lowercase_def by (rule split_on_map, rule lower_chars)+

lemma lower_special:
  "to_ascii_lower_char c = CHR '' '' \<longleftrightarrow> c = CHR '' ''"
  "to_ascii_lower_char c = CHR '':'' \<longleftrightarrow> c = CHR '':''" "to_ascii_lower_char c = CHR ''*'' \<longleftrightarrow> c = CHR ''*''"
  "to_ascii_lower_char c = CHR ''?'' \<longleftrightarrow> c = CHR ''?''" "to_ascii_lower_char c = CHR 0x22 \<longleftrightarrow> c = CHR 0x22"
  "to_ascii_lower_char c = CHR ''<'' \<longleftrightarrow> c = CHR ''<''" "to_ascii_lower_char c = CHR ''>'' \<longleftrightarrow> c = CHR ''>''"
  "to_ascii_lower_char c = CHR ''|'' \<longleftrightarrow> c = CHR ''|''"
  by (rule to_ascii_lower_char_eq_iff; simp add: is_ascii_upper_def is_ascii_lower_def)+

lemma is_control_lower: "is_control_byte (to_ascii_lower_char c) = is_control_byte c"
  by (auto simp: is_control_byte_def of_char_to_lower is_ascii_upper_def)

lemma unsafe_char_lower: "unsafe_char (to_ascii_lower_char c) = unsafe_char c"
  unfolding unsafe_char_def by (simp add: is_control_lower lower_special)

lemma reserved_lower: "reserved (to_ascii_lowercase c) = reserved c"
  unfolding reserved_def split_on_lower by (simp add: hd_map split_on_ne)

lemma lower_eq_Nil: "to_ascii_lowercase c = [] \<longleftrightarrow> c = []"
  by (simp add: to_ascii_lowercase_def)

lemma unsafe_component_lower: "unsafe_component (to_ascii_lowercase c) = unsafe_component c"
proof -
  have "last (to_ascii_lowercase c) = to_ascii_lower_char (last c)" if "c \<noteq> []"
    using that by (simp add: to_ascii_lowercase_def last_map)
  moreover have "list_ex unsafe_char (to_ascii_lowercase c) = list_ex unsafe_char c"
    by (simp add: to_ascii_lowercase_def list_ex_iff unsafe_char_lower)
  ultimately show ?thesis
    unfolding unsafe_component_def eq_ignore_ascii_case_def
    by (cases "c = []") (simp_all add: lower_dots reserved_lower lower_eq_Nil lower_chars lower_special)
qed

text \<open>A scope the coordinator keeps in a claim.\<close>

definition coord_canonical :: "string \<Rightarrow> bool" where
  "coord_canonical s \<longleftrightarrow>
     s \<noteq> [] \<and> list_all is_ascii_byte s \<and> backslash \<notin> set s \<and> to_ascii_lowercase s = s
     \<and> hd s \<noteq> slash \<and> last s \<noteq> slash \<and> \<not> list_ex unsafe_component (split_on slash s)"

lemma is_ascii_lower_byte: "is_ascii_byte (to_ascii_lower_char c) = is_ascii_byte c"
  by (auto simp: is_ascii_byte_def of_char_to_lower is_ascii_upper_def)

lemma coord_scope_canonical:
  assumes "coord_scope raw = Inr s"
  shows "coord_canonical s"
proof -
  let ?v = "replace_char backslash slash raw"
  have v: "?v \<noteq> []" "list_all is_ascii_byte ?v" "hd ?v \<noteq> slash" "last ?v \<noteq> slash"
    "\<not> list_ex unsafe_component (split_on slash ?v)" and s: "s = to_ascii_lowercase ?v"
    using assms by (auto simp: coord_scope_def Let_def split: if_splits)
  have "backslash \<notin> set ?v" by (auto simp: replace_char_def backslash_def slash_def)
  then show ?thesis
    using v unfolding coord_canonical_def s split_on_lower
    by (simp add: lower_mem lower_eq_Nil list_ex_iff unsafe_component_lower)
      (simp add: to_ascii_lowercase_def hd_map last_map lower_chars list_all_iff is_ascii_lower_byte)
qed

lemma coord_scope_id: "coord_canonical s \<Longrightarrow> coord_scope s = Inr s"
  by (simp add: coord_canonical_def coord_scope_def Let_def replace_char_id)

lemma coord_scopes_canonical: "coord_scopes raws = Inr ss \<Longrightarrow> list_all coord_canonical ss \<and> (ss = [] \<longleftrightarrow> raws = [])"
  by (induction raws arbitrary: ss) (auto split: sum.splits dest: coord_scope_canonical)

lemma coord_scopes_id: "list_all coord_canonical ss \<Longrightarrow> coord_scopes ss = Inr ss"
  by (induction ss) (auto simp: coord_scope_id)

lemma split_on_mem: "c \<in> set s \<Longrightarrow> c \<noteq> sep \<Longrightarrow> \<exists>p\<in>set (split_on sep s). c \<in> set p"
proof (induction s)
  case (Cons x s)
  then show ?case using split_on_ne [of sep s] by (auto split: list.splits)
qed simp

lemma coord_canonical_chars: "coord_canonical s \<Longrightarrow> c \<in> set s \<Longrightarrow> \<not> unsafe_char c"
proof -
  assume s: "coord_canonical s" and c: "c \<in> set s"
  show ?thesis
  proof (cases "c = slash")
    case False
    then obtain p where "p \<in> set (split_on slash s)" "c \<in> set p" using split_on_mem [OF c] by blast
    with s show ?thesis by (auto simp: coord_canonical_def list_ex_iff unsafe_component_def)
  qed (simp add: slash_def unsafe_char_def is_control_byte_def)
qed

lemma coord_canonical_no_control: "coord_canonical s \<Longrightarrow> c \<in> set s \<Longrightarrow> \<not> is_control_byte c"
  by (auto dest: coord_canonical_chars simp: unsafe_char_def)

section \<open>Reading a claim file back\<close>

lemma claim_text_lines:
  "cl_scopes c \<noteq> [] \<Longrightarrow>
     claim_text c = concat (map (\<lambda>l. l @ [newline_char])
       (''susi-local-claim-v2'' # cl_name c # cl_worktree c # cl_base c # cl_scopes c))"
  by (simp add: claim_text_def join_terminated [symmetric])

lemma no_control_plain: "(\<And>c. c \<in> set l \<Longrightarrow> \<not> is_control_byte c) \<Longrightarrow> plain_line l"
proof -
  assume l: "\<And>c. c \<in> set l \<Longrightarrow> \<not> is_control_byte c"
  have "is_control_byte newline_char" "is_control_byte carriage_return"
    by (simp_all add: is_control_byte_def newline_char_def carriage_return_def)
  then show ?thesis using l last_in_set [of l] unfolding plain_line_def by metis
qed

lemma has_control_bytes: "\<not> has_control s \<Longrightarrow> c \<in> set s \<Longrightarrow> \<not> is_control_byte c"
  by (induction s) auto

lemma coord_name_plain: "coord_name n = Inr () \<Longrightarrow> plain_line n"
  by (rule no_control_plain)
    (fastforce simp: coord_name_def list_all_iff is_ascii_lower_def is_ascii_digit_def is_control_byte_def
      split: if_splits)

lemma valid_oid_plain: "valid_oid n \<Longrightarrow> plain_line n"
  by (rule no_control_plain)
    (fastforce simp: valid_oid_def list_all_iff is_ascii_hexdigit_def is_ascii_digit_def is_control_byte_def)

definition claim_ok :: "(string \<Rightarrow> bool) \<Rightarrow> claim_record \<Rightarrow> bool" where
  "claim_ok is_absolute c \<longleftrightarrow>
     coord_name (cl_name c) = Inr () \<and> is_absolute (cl_worktree c) \<and> plain_line (cl_worktree c)
     \<and> valid_oid (cl_base c) \<and> cl_scopes c \<noteq> [] \<and> list_all coord_canonical (cl_scopes c)"

lemma claim_lines:
  assumes "claim_ok is_absolute c"
  shows "str_lines (claim_text c) = ''susi-local-claim-v2'' # cl_name c # cl_worktree c # cl_base c # cl_scopes c"
proof -
  have "plain_line ''susi-local-claim-v2''"
    by (simp add: plain_line_def newline_char_def carriage_return_def)
  moreover have "list_all plain_line (cl_scopes c)"
    using assms by (auto simp: claim_ok_def list_all_iff intro!: no_control_plain dest: coord_canonical_no_control)
  ultimately show ?thesis
    using assms unfolding claim_ok_def
    by (subst claim_text_lines, simp, intro str_lines_terminated) (simp add: coord_name_plain valid_oid_plain)
qed

text \<open>The claim file round trip: what the coordinator writes it reads back.\<close>

lemma read_claim_text: "claim_ok is_absolute c \<Longrightarrow> read_claim is_absolute (cl_name c) (claim_text c) = Inr c"
  by (simp add: read_claim_def claim_lines) (simp add: claim_ok_def coord_scopes_id)

section \<open>The store of live claims\<close>

definition live :: "(string \<Rightarrow> bool) \<Rightarrow> claim_store \<Rightarrow> claim_record \<Rightarrow> bool" where
  "live is_absolute store c \<longleftrightarrow> claim_ok is_absolute c \<and> bt_get store (cl_name c) = Some (claim_text c)"

definition coord_inv :: "(string \<Rightarrow> bool) \<Rightarrow> claim_store \<Rightarrow> bool" where
  "coord_inv is_absolute store \<longleftrightarrow>
     bt_inv store
     \<and> (\<forall>n t. bt_get store n = Some t \<longrightarrow> (\<exists>c. live is_absolute store c \<and> cl_name c = n))
     \<and> (\<forall>c d. live is_absolute store c \<and> live is_absolute store d \<and> cl_name c \<noteq> cl_name d \<longrightarrow>
          disjoint_scopes (cl_scopes c) (cl_scopes d))"

lemma live_unique: "live a store c \<Longrightarrow> live a store d \<Longrightarrow> cl_name c = cl_name d \<Longrightarrow> c = d"
  unfolding live_def by (metis option.inject read_claim_text sum.inject(2))

lemma overlaps_scopes_overlap: "overlaps a b = scopes_overlap a b"
  by (auto simp: overlaps_def scopes_overlap_def)

lemma read_all_live:
  "(\<And>n t. (n, t) \<in> set xs \<Longrightarrow> \<exists>c. claim_ok a c \<and> cl_name c = n \<and> t = claim_text c) \<Longrightarrow>
     \<exists>cs. read_all a xs = Inr cs \<and> set cs = {c. claim_ok a c \<and> (cl_name c, claim_text c) \<in> set xs}"
proof (induction xs)
  case (Cons x xs)
  obtain n t where x: "x = (n, t)" by (cases x)
  obtain c where c: "claim_ok a c" "cl_name c = n" "t = claim_text c" using Cons.prems [of n t] x by auto
  obtain cs where cs: "read_all a xs = Inr cs" "set cs = {c. claim_ok a c \<and> (cl_name c, claim_text c) \<in> set xs}"
    using Cons.IH Cons.prems by auto
  have rc: "read_claim a n t = Inr c" using read_claim_text [OF c(1)] c by simp
  have same: "d = c" if "claim_ok a d" "cl_name d = n" "claim_text d = t" for d
    using read_claim_text [OF that(1)] that rc by simp
  have "(cl_name c, claim_text c) = (n, t)" using c by simp
  with same c(1) have "{c. claim_ok a c \<and> (cl_name c, claim_text c) \<in> set ((n, t) # xs)} = insert c (set cs)"
    unfolding cs(2) list.set by blast
  moreover have "read_all a ((n, t) # xs) = Inr (c # cs)" by (simp only: read_all.simps rc cs(1) sum.case)
  ultimately show ?case unfolding x by (intro exI [of _ "c # cs"]) (simp only: list.set simp_thms)
qed simp

lemma claims_live:
  assumes "coord_inv a store"
  shows "\<exists>cs. claims a store = Inr cs \<and> set cs = {c. live a store c}"
proof -
  have mem: "bt_get store n = Some t \<longleftrightarrow> (n, t) \<in> set store" for n t
    using assms by (simp add: coord_inv_def bt_get_mem)
  have "\<exists>c. claim_ok a c \<and> cl_name c = n \<and> t = claim_text c" if nt: "(n, t) \<in> set store" for n t
  proof -
    have t: "bt_get store n = Some t" using nt mem by simp
    then obtain c where "live a store c" "cl_name c = n" using assms unfolding coord_inv_def by blast
    with t show ?thesis by (auto simp: live_def)
  qed
  from read_all_live [OF this] obtain cs where
    "read_all a store = Inr cs" "set cs = {c. claim_ok a c \<and> (cl_name c, claim_text c) \<in> set store}" by blast
  then show ?thesis by (simp add: claims_def live_def mem)
qed

lemma coord_inv_Nil: "coord_inv a []"
  by (simp add: coord_inv_def btree live_def)

lemma coord_inv_remove:
  assumes "coord_inv a store"
  shows "coord_inv a (bt_remove n store)"
proof -
  have live: "live a (bt_remove n store) c \<longleftrightarrow> live a store c \<and> cl_name c \<noteq> n" for c
    by (auto simp: live_def btree)
  have "\<exists>c. live a (bt_remove n store) c \<and> cl_name c = m" if "bt_get (bt_remove n store) m = Some t" for m t
  proof -
    have "m \<noteq> n" "bt_get store m = Some t" using that by (auto simp: btree split: if_splits)
    then show ?thesis using assms unfolding live coord_inv_def by blast
  qed
  moreover have "bt_inv (bt_remove n store)" using assms by (simp add: coord_inv_def btree)
  ultimately show ?thesis using assms unfolding coord_inv_def live by blast
qed

lemma coord_inv_insert:
  assumes inv: "coord_inv a store" and ok: "claim_ok a c"
    and free: "\<And>d. live a store d \<Longrightarrow> cl_name d \<noteq> cl_name c \<Longrightarrow> disjoint_scopes (cl_scopes c) (cl_scopes d)"
  shows "coord_inv a (bt_insert (cl_name c) (claim_text c) store)"
proof -
  let ?s = "bt_insert (cl_name c) (claim_text c) store"
  have self: "live a ?s c" using ok by (simp add: live_def btree)
  have live: "live a ?s d \<longleftrightarrow> d = c \<or> live a store d \<and> cl_name d \<noteq> cl_name c" for d
    using live_unique [OF self, of d] self by (auto simp: live_def btree split: if_splits)
  have "\<exists>d. live a ?s d \<and> cl_name d = n" if "bt_get ?s n = Some t" for n t
  proof (cases "n = cl_name c")
    case True
    with self show ?thesis by blast
  next
    case False
    then have "bt_get store n = Some t" using that by (simp add: btree)
    with False show ?thesis using inv unfolding live coord_inv_def by blast
  qed
  moreover have "bt_inv ?s" using inv by (simp add: coord_inv_def btree)
  moreover have "disjoint_scopes (cl_scopes x) (cl_scopes y)"
    if "live a ?s x" "live a ?s y" "cl_name x \<noteq> cl_name y" for x y
    using that inv free disjoint_scopes_sym unfolding live coord_inv_def by metis
  ultimately show ?thesis unfolding coord_inv_def by blast
qed

section \<open>Every operation keeps the claims disjoint\<close>

lemma first_conflict_None:
  "first_conflict n scopes cs = None \<Longrightarrow> c \<in> set cs \<Longrightarrow> cl_name c \<noteq> n \<and> disjoint_scopes scopes (cl_scopes c)"
  by (induction cs)
    (auto simp: find_None_iff disjoint_scopes_def list_ex_iff overlaps_scopes_overlap split: if_splits option.splits)

lemma set_sort_dedup [simp]: "set (sort_dedup xs) = set xs"
  by (simp add: sort_dedup_def)

lemma sort_dedup_Nil [simp]: "sort_dedup xs = [] \<longleftrightarrow> xs = []"
  by (metis set_empty set_sort_dedup)

lemma list_all_sort_dedup: "list_all P (sort_dedup xs) = list_all P xs"
  by (simp add: list_all_iff)

lemma disjoint_sort_dedup: "disjoint_scopes (sort_dedup xs) ys = disjoint_scopes xs ys"
  by (simp add: disjoint_scopes_iff)

text \<open>What git answers: the worktree path is absolute, a commit id is a commit id.\<close>

definition env_ok :: "(string \<Rightarrow> bool) \<Rightarrow> start_env \<Rightarrow> bool" where
  "env_ok is_absolute env \<longleftrightarrow>
     (case se_worktree env of None \<Rightarrow> True | Some w \<Rightarrow> is_absolute w)
     \<and> (case se_base env of None \<Rightarrow> True | Some b \<Rightarrow> valid_oid b)"

text \<open>The three stores a start can leave behind.\<close>

lemma start_cases:
  assumes "start a env n raw store = (r, store')"
  shows "(store' = store \<and> (\<exists>e. r = Inl e))
    \<or> (\<exists>parsed cs w b. coord_name n = Inr () \<and> coord_scopes raw = Inr parsed \<and> parsed \<noteq> []
         \<and> claims a store = Inr cs \<and> first_conflict n (sort_dedup parsed) cs = None
         \<and> se_worktree env = Some w \<and> se_base env = Some b \<and> \<not> has_control w
         \<and> (let written = bt_insert n (claim_text \<lparr>cl_name = n, cl_worktree = w, cl_base = b, cl_scopes = sort_dedup parsed\<rparr>) store
            in store' = written \<or> store' = bt_remove n written \<and> (\<exists>e. r = Inl e)))"
  using assms
  by (auto simp: start_def Let_def split: if_splits sum.splits option.splits bool.splits)

lemma coord_inv_start:
  assumes inv: "coord_inv a store" and env: "env_ok a env" and st: "start a env n raw store = (r, store')"
  shows "coord_inv a store'"
proof (cases "store' = store")
  case False
  then obtain parsed cs w b where ok: "coord_name n = Inr ()" "coord_scopes raw = Inr parsed" "parsed \<noteq> []"
      "claims a store = Inr cs" "first_conflict n (sort_dedup parsed) cs = None"
      "se_worktree env = Some w" "se_base env = Some b" "\<not> has_control w"
    and store': "(let written = bt_insert n (claim_text \<lparr>cl_name = n, cl_worktree = w, cl_base = b, cl_scopes = sort_dedup parsed\<rparr>) store
            in store' = written \<or> store' = bt_remove n written \<and> (\<exists>e. r = Inl e))"
    using start_cases [OF st] by blast
  let ?c = "\<lparr>cl_name = n, cl_worktree = w, cl_base = b, cl_scopes = sort_dedup parsed\<rparr>"
  have "plain_line w" by (rule no_control_plain) (rule has_control_bytes [OF ok(8)])
  then have "claim_ok a ?c"
    using ok(1,3,6,7) env coord_scopes_canonical [OF ok(2)]
    by (simp add: claim_ok_def env_ok_def list_all_sort_dedup)
  moreover have "disjoint_scopes (cl_scopes ?c) (cl_scopes d)" if "live a store d" for d
    using first_conflict_None [OF ok(5)] claims_live [OF inv] ok(4) that by auto
  ultimately have "coord_inv a (bt_insert n (claim_text ?c) store)"
    using coord_inv_insert [OF inv, of ?c] by simp
  with store' coord_inv_remove show ?thesis by (auto simp: Let_def)
qed (use inv in simp)

lemma read_file_live:
  assumes "coord_inv a store" and "read_file a store n = Inr c"
  shows "live a store c \<and> cl_name c = n"
proof -
  obtain t where t: "bt_get store n = Some t" "read_claim a n t = Inr c"
    using assms(2) by (auto simp: read_file_def split: option.splits)
  then obtain d where d: "live a store d" "cl_name d = n" using assms(1) unfolding coord_inv_def by blast
  then have "t = claim_text d" using t by (simp add: live_def)
  then have "read_claim a n t = Inr d" using d read_claim_text [of a d] by (simp add: live_def)
  with t d show ?thesis by simp
qed

lemma changed_scopes_ok:
  assumes inv: "coord_inv a store" and c: "live a store c" and req: "list_all coord_canonical requested"
    and ch: "changed_scopes a env store (cl_name c) requested change (cl_scopes c) = Inr scopes"
  shows "scopes \<noteq> [] \<and> list_all coord_canonical scopes
    \<and> (\<forall>d. live a store d \<and> cl_name d \<noteq> cl_name c \<longrightarrow> disjoint_scopes scopes (cl_scopes d))"
proof -
  have ok: "cl_scopes c \<noteq> []" "list_all coord_canonical (cl_scopes c)"
    using c by (simp_all add: live_def claim_ok_def)
  have free: "disjoint_scopes (cl_scopes c) (cl_scopes d)" if "live a store d" "cl_name d \<noteq> cl_name c" for d
    using inv c that unfolding coord_inv_def by metis
  show ?thesis
  proof (cases change)
    case Extend
    obtain cs where cs: "claims a store = Inr cs" "set cs = {c. live a store c}" using claims_live [OF inv] by blast
    have scopes: "scopes = cl_scopes c @ requested"
      and none: "\<And>d. live a store d \<Longrightarrow> cl_name d \<noteq> cl_name c \<Longrightarrow> disjoint_scopes requested (cl_scopes d)"
      using ch Extend cs
      by (auto simp: changed_scopes_def find_None_iff disjoint_scopes_def list_ex_iff overlaps_scopes_overlap
          split: option.splits)
    show ?thesis using ok req free none unfolding scopes by (auto simp: disjoint_scopes_iff)
  next
    case Shrink
    then have "scopes = filter (\<lambda>s. s \<notin> set requested) (cl_scopes c)" "scopes \<noteq> []"
      using ch by (auto simp: changed_scopes_def Let_def split: if_splits)
    then show ?thesis using ok free by (auto simp: disjoint_scopes_iff list_all_iff)
  qed
qed

lemma coord_inv_update:
  assumes inv: "coord_inv a store" and up: "update_scopes a env n raw change store = (r, store')"
  shows "coord_inv a store'"
proof (cases "store' = store")
  case False
  then obtain requested c scopes where
      ok: "coord_scopes raw = Inr requested" "read_file a store n = Inr c"
        "changed_scopes a env store n requested change (cl_scopes c) = Inr scopes"
      and store': "store' = bt_insert n (claim_text (c\<lparr>cl_scopes := sort_dedup scopes\<rparr>)) store"
    using up by (auto simp: update_scopes_def split: if_splits sum.splits)
  note c = read_file_live [OF inv ok(2)]
  have req: "list_all coord_canonical requested" using coord_scopes_canonical [OF ok(1)] by simp
  note ch = changed_scopes_ok [OF inv conjunct1 [OF c] req, of env change scopes]
  let ?c = "c\<lparr>cl_scopes := sort_dedup scopes\<rparr>"
  have "claim_ok a c" using c by (simp add: live_def)
  moreover have "scopes \<noteq> []" "list_all coord_canonical scopes" using ch c ok(3) by simp_all
  ultimately have "claim_ok a ?c" by (simp add: claim_ok_def list_all_sort_dedup)
  moreover have "disjoint_scopes (cl_scopes ?c) (cl_scopes d)" if "live a store d" "cl_name d \<noteq> cl_name ?c" for d
    using ch c ok(3) that by (simp add: disjoint_sort_dedup)
  ultimately show ?thesis using coord_inv_insert [OF inv, of ?c] c store' by simp
qed (use inv in simp)

inductive coord_step :: "(string \<Rightarrow> bool) \<Rightarrow> claim_store \<Rightarrow> claim_store \<Rightarrow> bool" for a where
  step_start: "env_ok a env \<Longrightarrow> start a env n raw store = (r, store') \<Longrightarrow> coord_step a store store'"
| step_update: "update_scopes a uenv n raw change store = (r, store') \<Longrightarrow> coord_step a store store'"
| step_release: "release_claim a renv n store = (r, store') \<Longrightarrow> coord_step a store store'"
| step_integrate: "coord_step a store (remove_integrated ns store)"

inductive coord_reachable :: "(string \<Rightarrow> bool) \<Rightarrow> claim_store \<Rightarrow> bool" for a where
  reach_empty: "coord_reachable a []"
| reach_step: "coord_reachable a store \<Longrightarrow> coord_step a store store' \<Longrightarrow> coord_reachable a store'"

lemma coord_inv_integrate: "coord_inv a store \<Longrightarrow> coord_inv a (remove_integrated ns store)"
  unfolding remove_integrated_def by (induction ns arbitrary: store) (auto simp: coord_inv_remove)

lemma coord_inv_step: "coord_step a store store' \<Longrightarrow> coord_inv a store \<Longrightarrow> coord_inv a store'"
proof (induction rule: coord_step.induct)
  case (step_release renv n store r store')
  then have "store' = store \<or> store' = bt_remove n store"
    by (auto simp: release_claim_def split: if_splits sum.splits)
  then show ?case using step_release.prems coord_inv_remove by blast
qed (auto intro: coord_inv_start coord_inv_update coord_inv_integrate)

lemma coord_reachable_inv: "coord_reachable a store \<Longrightarrow> coord_inv a store"
  by (induction rule: coord_reachable.induct) (auto intro: coord_inv_Nil coord_inv_step)

definition claim_owns :: "claim_record \<Rightarrow> string list \<Rightarrow> bool" where
  "claim_owns c path \<longleftrightarrow> list_ex (\<lambda>s. owns s path) (cl_scopes c)"

lemma read_claim_name: "read_claim a n t = Inr c \<Longrightarrow> cl_name c = n"
  by (auto simp: read_claim_def split: list.splits if_splits sum.splits)

lemma read_all_names: "read_all a xs = Inr cs \<Longrightarrow> map cl_name cs = map fst xs"
proof (induction xs arbitrary: cs)
  case (Cons x xs)
  obtain n t where x: "x = (n, t)" by (cases x)
  obtain c ds where "read_claim a n t = Inr c" "read_all a xs = Inr ds" "cs = c # ds"
    using Cons.prems by (auto simp: x split: sum.splits)
  then show ?case using Cons.IH read_claim_name by (simp add: x)
qed simp

lemma distinct_at_most_one:
  "distinct xs \<Longrightarrow> (\<And>x y. x \<in> set xs \<Longrightarrow> y \<in> set xs \<Longrightarrow> x = y) \<Longrightarrow> length xs \<le> 1"
  using card_le_Suc0_iff_eq [of "set xs"] distinct_card [of xs] by simp

text \<open>C7. No two live claims own a common path: after any sequence of starts, scope changes, releases
  and integrations, successful or refused, every claim file of the coordinator reads back, no
  claimant has two claims, and every path is owned by at most one live claim.\<close>

theorem coordinator_claims_exclusive:
  assumes "coord_reachable a store"
  shows "\<exists>cs. claims a store = Inr cs \<and> distinct (map cl_name cs)
    \<and> length (filter (\<lambda>c. claim_owns c path) cs) \<le> 1"
proof -
  note inv = coord_reachable_inv [OF assms]
  obtain cs where cs: "claims a store = Inr cs" "set cs = {c. live a store c}" using claims_live [OF inv] by blast
  obtain xs where xs: "read_all a store = Inr xs" "cs = sort_key cl_name xs"
    using cs(1) by (auto simp: claims_def split: sum.splits)
  have "distinct (map cl_name xs)"
    unfolding read_all_names [OF xs(1)] using inv by (intro bt_inv_distinct) (simp add: coord_inv_def)
  then have dist: "distinct (map cl_name cs)" unfolding xs(2) by (simp add: distinct_map)
  have "length (filter (\<lambda>c. claim_owns c path) cs) \<le> 1"
  proof (rule distinct_at_most_one)
    show "distinct (filter (\<lambda>c. claim_owns c path) cs)" using dist by (simp add: distinct_map)
    fix x y assume "x \<in> set (filter (\<lambda>c. claim_owns c path) cs)" "y \<in> set (filter (\<lambda>c. claim_owns c path) cs)"
    then have xy: "live a store x" "live a store y" "claim_owns x path" "claim_owns y path" using cs(2) by auto
    then have "\<not> disjoint_scopes (cl_scopes x) (cl_scopes y)"
      unfolding claim_owns_def disjoint_scopes_iff list_ex_iff scopes_overlap_prefix owns_def
      using prefix_common by blast
    then have "cl_name x = cl_name y" using inv xy(1,2) unfolding coord_inv_def by metis
    then show "x = y" using live_unique xy(1,2) by blast
  qed
  with cs(1) dist show ?thesis by blast
qed

definition sample_env :: start_env where
  "sample_env = \<lparr>se_history_ok = True, se_worktree = Some ''/w'', se_base = Some (replicate 40 CHR ''a''),
     se_exists = False, se_reusable = None, se_git_ok = True, se_left_behind = False, se_target_ok = True\<rparr>"

definition sample_claim :: claim_record where
  "sample_claim = \<lparr>cl_name = ''a'', cl_worktree = ''/w'', cl_base = replicate 40 CHR ''a'', cl_scopes = [''docs'']\<rparr>"

lemma coord_scope_docs: "coord_scope ''docs'' = Inr ''docs''"
  by (simp add: coord_scope_def replace_char_def slash_def backslash_def is_ascii_byte_def unsafe_component_def
      eq_ignore_ascii_case_def reserved_def unsafe_char_def is_control_byte_def to_ascii_lowercase_def
      to_ascii_lower_char_def is_ascii_upper_def)

lemma coord_name_a: "coord_name ''a'' = Inr ()"
  by (simp add: coord_name_def reserved_def is_ascii_lower_def to_ascii_lowercase_def to_ascii_lower_char_def
      is_ascii_upper_def)

lemma sample_start: "start (\<lambda>_. True) sample_env ''a'' [''docs''] [] = (Inr ''/w'', [(''a'', claim_text sample_claim)])"
  by (simp add: start_def sample_env_def coord_name_a coord_scope_docs claims_def sort_dedup_def is_control_byte_def
      sample_claim_def)

lemma sample_reachable: "coord_reachable (\<lambda>_. True) [(''a'', claim_text sample_claim)]"
  by (rule reach_step [OF reach_empty step_start [OF _ sample_start]])
    (simp add: env_ok_def sample_env_def valid_oid_def list_all_iff is_ascii_hexdigit_def is_ascii_digit_def)

theorem coordinator_claims_exclusive_witness:
  "coord_reachable (\<lambda>_. True) [(''a'', claim_text sample_claim)]
    \<and> (\<exists>cs. claims (\<lambda>_. True) [(''a'', claim_text sample_claim)] = Inr cs \<and> distinct (map cl_name cs)
       \<and> length (filter (\<lambda>c. claim_owns c [''docs'', ''a.md'']) cs) \<le> 1)"
  using sample_reachable coordinator_claims_exclusive [OF sample_reachable] by blast

section \<open>The harness and the coordinator agree\<close>

lemma canonical_byte_graphic:
  "is_ascii_byte c \<Longrightarrow> \<not> is_control_byte c \<Longrightarrow> c \<noteq> CHR '' '' \<Longrightarrow> is_ascii_graphic c"
proof -
  assume c: "is_ascii_byte c" "\<not> is_control_byte c" "c \<noteq> CHR '' ''"
  have "(of_char c :: nat) \<noteq> of_char (CHR '' '')" using c(3) by (simp only: of_char_eq_iff simp_thms)
  with c(1,2) show ?thesis by (simp add: is_ascii_byte_def is_control_byte_def is_ascii_graphic_def)
qed

lemma last_join: "ps \<noteq> [] \<Longrightarrow> last ps \<noteq> [] \<Longrightarrow> join sep ps \<noteq> [] \<and> last (join sep ps) = last (last ps)"
proof (induction ps)
  case (Cons p ps)
  then show ?case by (cases "ps = []") (auto simp: join_Cons)
qed simp

lemma last_split_on: "last (split_on c s) \<noteq> [] \<Longrightarrow> last s = last (last (split_on c s))"
  using last_join [OF split_on_ne, of c s "[c]"] by (simp add: join_split)

lemma scope_parts_lower:
  "\<not> list_ex unsafe_component ps \<Longrightarrow> scope_parts ps = Some (map to_ascii_lowercase ps)"
  by (induction ps) (auto simp: unsafe_component_def)

lemma join_lower: "to_ascii_lowercase (join [slash] ps) = join [slash] (map to_ascii_lowercase ps)"
proof (induction ps)
  case (Cons p ps)
  have "to_ascii_lower_char slash = slash" by (simp add: lower_chars)
  with Cons show ?case by (cases "ps = []") (auto simp: join_Cons to_ascii_lowercase_def)
qed (simp add: to_ascii_lowercase_def)

text \<open>Where the coordinator accepts a scope that does not begin with a blank, the harness
  normalizes it to the same string.\<close>

lemma coord_scope_normalize:
  assumes "coord_scope raw = Inr s" and "hd raw \<noteq> CHR '' ''"
  shows "normalize_scope raw = Inr s"
proof -
  let ?v = "replace_char backslash slash raw"
  have v: "?v \<noteq> []" "list_all is_ascii_byte ?v" "hd ?v \<noteq> slash" "last ?v \<noteq> slash"
    and safe: "\<not> list_ex unsafe_component (split_on slash ?v)" and s: "s = to_ascii_lowercase ?v"
    using assms(1) by (auto simp: coord_scope_def Let_def split: if_splits)
  have ch: "is_ascii_byte c \<and> \<not> unsafe_char c" if mem: "c \<in> set ?v" for c
  proof (cases "c = slash")
    case False
    then obtain p where "p \<in> set (split_on slash ?v)" "c \<in> set p" using split_on_mem [OF mem] by blast
    with safe mem v(2) show ?thesis by (auto simp: list_ex_iff unsafe_component_def list_all_iff)
  qed (use v(2) mem in \<open>auto simp: list_all_iff slash_def unsafe_char_def is_control_byte_def\<close>)
  have raw: "raw \<noteq> []" using v(1) by (auto simp: replace_char_def)
  have graphic: "is_ascii_graphic (f raw)"
    if "f raw \<in> set raw" "f raw \<noteq> CHR '' ''" for f :: "string \<Rightarrow> char"
  proof (cases "f raw = backslash")
    case False
    then have "f raw \<in> set ?v" using that(1) by (force simp: replace_char_def)
    with ch that(2) show ?thesis by (intro canonical_byte_graphic) (auto simp: unsafe_char_def)
  qed (simp add: backslash_def is_ascii_graphic_def)
  have lastc: "last (split_on slash ?v) \<in> set (split_on slash ?v)" using split_on_ne by (rule last_in_set)
  then have "last (split_on slash ?v) \<noteq> []" "last (last (split_on slash ?v)) \<noteq> CHR '' ''"
    using safe by (auto simp: list_ex_iff unsafe_component_def)
  then have "last ?v \<noteq> CHR '' ''" using last_split_on [of slash ?v] by simp
  then have "last raw \<noteq> CHR '' ''" using raw by (auto simp: replace_char_def last_map backslash_def)
  then have trim: "trim raw = raw"
    using raw graphic [of hd] graphic [of last] assms(2) by (intro trim_graphic) auto
  have "\<not> (1 < length ?v \<and> ?v ! 1 = CHR '':'')"
  proof
    assume "1 < length ?v \<and> ?v ! 1 = CHR '':''"
    then have "CHR '':'' \<in> set ?v" by (metis nth_mem)
    with ch show False by (auto simp: unsafe_char_def)
  qed
  moreover have "\<not> prefix ''./'' ?v"
  proof
    assume "prefix ''./'' ?v"
    then obtain r where "?v = ''.'' @ slash # r" by (auto simp: prefix_def slash_def)
    then have "''.'' \<in> set (split_on slash ?v)" by (simp add: split_on_append_sep slash_def)
    with safe show False by (auto simp: list_ex_iff unsafe_component_def)
  qed
  moreover have "scope_parts (split_on slash ?v) = Some (map to_ascii_lowercase (split_on slash ?v))"
    by (rule scope_parts_lower [OF safe])
  moreover have "join [slash] (map to_ascii_lowercase (split_on slash ?v)) = s"
    unfolding s join_lower [symmetric] join_split ..
  ultimately show ?thesis
    using v(1,3) split_on_ne [of slash ?v]
    by (simp add: normalize_scope_def Let_def trim strip_dot_slash_id)
qed

end
