(* ===== verification/Policy.thy ===== *)
theory Policy
  imports Ledger Ordered_Map "HOL-Library.Product_Lexorder"
begin

text \<open>
  \<open>crates/susi-harness/src/policy.rs\<close>, first half: what the ledger teaches about models and providers
  (\<open>history\<close>, \<open>cooling_providers\<close>, \<open>failed_models\<close>), and the orders derived from it (\<open>arrange\<close>,
  \<open>rank_models\<close>). \<open>canonical\<close> stands for \<open>Registry::builtin().canonical_id\<close>, whose table is a
  generated document; the price catalogue of \<open>catalog.rs\<close> is a map from model ids to prices.
\<close>

record usage_profile =
  up_input :: u64
  up_cached :: u64
  up_output :: u64

definition profile_agent :: usage_profile where
  "profile_agent = \<lparr>up_input = 200000, up_cached = 150000, up_output = 20000\<rparr>"

definition profile_usage :: "usage_profile \<Rightarrow> bool \<Rightarrow> token_usage" where
  "profile_usage p caches = token_usage_new (up_input p) (if caches then up_cached p else 0) (up_output p)"

record model_history =
  h_calls :: u64
  h_failures :: u64
  h_cost :: micro_usd
  h_input :: u64
  h_cache_hit :: u64
  h_latency_ms :: u64
  h_timed_calls :: u64

definition history_default :: model_history where
  "history_default = \<lparr>h_calls = 0, h_failures = 0, h_cost = usd_zero, h_input = 0, h_cache_hit = 0,
     h_latency_ms = 0, h_timed_calls = 0\<rparr>"

definition RELIABILITY_EVIDENCE :: u64 where
  "RELIABILITY_EVIDENCE = 3"

definition successes :: "model_history \<Rightarrow> u64" where
  "successes h = sat_sub (h_calls h) (h_failures h)"

definition cache_share_permille :: "model_history \<Rightarrow> u64 option" where
  "cache_share_permille h = checked_div_w (sat_mul (h_cache_hit h) 1000) (h_input h)"

definition mean_latency_ms :: "model_history \<Rightarrow> u64 option" where
  "mean_latency_ms h = checked_div_w (h_latency_ms h) (h_timed_calls h)"

definition unreliable :: "model_history \<Rightarrow> bool" where
  "unreliable h \<longleftrightarrow> RELIABILITY_EVIDENCE \<le> h_calls h \<and> sat_mul (successes h) 2 < h_calls h"

section \<open>History\<close>

type_synonym attempt_key = "string \<times> string \<times> u32 \<times> string"

definition attempt_key :: "ledger_entry \<Rightarrow> attempt_key" where
  "attempt_key e = (e_mission e, e_task e, e_attempt e, e_model e)"

definition is_failure_row :: "ledger_entry \<Rightarrow> bool" where
  "is_failure_row e = (case e_outcome e of ModelFailed _ \<Rightarrow> True | Rejected _ \<Rightarrow> True | _ \<Rightarrow> False)"

definition count_row :: "ledger_entry \<Rightarrow> model_history \<Rightarrow> model_history" where
  "count_row e slot =
     (let slot1 = slot\<lparr>h_calls := 1, h_cost := usd_add_or_max (h_cost slot) (e_cost e)\<rparr>;
          slot2 = (if is_failure_row e then slot1\<lparr>h_failures := 1\<rparr> else slot1)
      in if e_cached e then slot2
         else
           let slot3 = slot2\<lparr>h_input := sat_add (h_input slot2) (tu_input (e_usage e)),
                             h_cache_hit := sat_add (h_cache_hit slot2) (tu_cache_hit (e_usage e))\<rparr>
           in if e_outcome e = Completed
              then slot3\<lparr>h_latency_ms := sat_add (h_latency_ms slot3) (sat_sub (e_ended e) (e_started e)),
                         h_timed_calls := sat_add (h_timed_calls slot3) 1\<rparr>
              else slot3)"

definition add_attempt :: "model_history \<Rightarrow> model_history \<Rightarrow> model_history" where
  "add_attempt attempt slot =
     slot\<lparr>h_calls := sat_add (h_calls slot) (h_calls attempt),
          h_failures := sat_add (h_failures slot) (h_failures attempt),
          h_cost := usd_add_or_max (h_cost slot) (h_cost attempt),
          h_input := sat_add (h_input slot) (h_input attempt),
          h_cache_hit := sat_add (h_cache_hit slot) (h_cache_hit attempt),
          h_latency_ms := sat_add (h_latency_ms slot) (h_latency_ms attempt),
          h_timed_calls := sat_add (h_timed_calls slot) (h_timed_calls attempt)\<rparr>"

definition attempts_of :: "ledger_entry list \<Rightarrow> (attempt_key, model_history) btree_map" where
  "attempts_of entries = fold (\<lambda>e. bt_upsert (attempt_key e) history_default (count_row e)) entries []"

definition key_model :: "attempt_key \<Rightarrow> string" where
  "key_model k = snd (snd (snd k))"

definition history :: "ledger_entry list \<Rightarrow> (string, model_history) btree_map" where
  "history entries =
     fold (\<lambda>(k, attempt). bt_upsert (key_model k) history_default (add_attempt attempt)) (attempts_of entries) []"

definition latencies :: "(string \<Rightarrow> string) \<Rightarrow> ledger_entry list \<Rightarrow> (string, u64) btree_map" where
  "latencies canonical entries =
     (let timed = fold (\<lambda>(model, record).
                bt_upsert (canonical model) (0, 0)
                  (\<lambda>(total, calls). (sat_add total (h_latency_ms record), sat_add calls (h_timed_calls record))))
              (history entries) []
      in List.map_filter
           (\<lambda>(model, total, calls). map_option (Pair model) (checked_div_w total calls)) timed)"

section \<open>Failures\<close>

definition COOLDOWN_MS :: u64 where
  "COOLDOWN_MS = 10 * 60 * 1000"

text \<open>One row's effect on a provider's streak: how many failures in a row, and whether one of them
  was a refusal that will not pass by itself.\<close>

definition cool_row :: "ledger_entry \<Rightarrow> (string, u32 \<times> bool) btree_map \<Rightarrow> (string, u32 \<times> bool) btree_map" where
  "cool_row e streaks =
     (case e_outcome e of
        ModelFailed c \<Rightarrow>
          bt_upsert (e_provider e) (0, False)
            (\<lambda>(n, hard). (sat_add n 1, hard \<or> c = NoCredit \<or> c = RateLimited)) streaks
      | Completed \<Rightarrow> if e_cached e then streaks else bt_remove (e_provider e) streaks
      | _ \<Rightarrow> streaks)"

definition recent_rows :: "ledger_entry list \<Rightarrow> u64 \<Rightarrow> ledger_entry list" where
  "recent_rows entries now =
     sort_key e_ended (filter (\<lambda>e. now \<le> sat_add (e_ended e) COOLDOWN_MS) entries)"

definition cooling_providers :: "ledger_entry list \<Rightarrow> u64 \<Rightarrow> string set" where
  "cooling_providers entries now =
     set (map fst (filter (\<lambda>(_, n, hard). hard \<or> 2 \<le> n) (fold cool_row (recent_rows entries now) [])))"

record model_failure =
  mf_at :: u64
  mf_class :: failure_class

definition definitive :: "model_failure \<Rightarrow> bool" where
  "definitive f \<longleftrightarrow> mf_class f = NoCredit"

text \<open>\<open>None\<close>: the row is no real call. \<open>Some None\<close>: a call that completed.\<close>

definition real_call :: "ledger_entry \<Rightarrow> failure_class option option" where
  "real_call e =
     (case e_outcome e of
        Completed \<Rightarrow> if e_cached e then None else Some None
      | ModelFailed c \<Rightarrow> Some (Some c)
      | _ \<Rightarrow> None)"

definition last_row :: "(string \<Rightarrow> string) \<Rightarrow> ledger_entry \<Rightarrow> (string, u64 \<times> failure_class option) btree_map
    \<Rightarrow> (string, u64 \<times> failure_class option) btree_map" where
  "last_row canonical e slots =
     (case real_call e of
        None \<Rightarrow> slots
      | Some failure \<Rightarrow>
          bt_upsert (canonical (e_model e)) (0, None)
            (\<lambda>slot. if fst slot \<le> e_ended e then (e_ended e, failure) else slot) slots)"

definition failed_models :: "(string \<Rightarrow> string) \<Rightarrow> ledger_entry list \<Rightarrow> (string, model_failure) btree_map" where
  "failed_models canonical entries =
     List.map_filter
       (\<lambda>(model, at, class). case class of None \<Rightarrow> None | Some c \<Rightarrow> Some (model, \<lparr>mf_at = at, mf_class = c\<rparr>))
       (fold (last_row canonical) entries [])"

definition in_force :: "(string, model_failure) btree_map \<Rightarrow> u64 \<Rightarrow> (string, model_failure) btree_map" where
  "in_force failures now = filter (\<lambda>(_, f). definitive f \<or> now \<le> sat_add (mf_at f) COOLDOWN_MS) failures"

section \<open>Orders\<close>

definition escalation_order :: "string list \<Rightarrow> (string \<Rightarrow> bool) \<Rightarrow> string list" where
  "escalation_order ladder strong = (let (fixers, workers) = partition strong ladder in fixers @ workers)"

record standing =
  st_history :: "(string, model_history) btree_map"
  st_cooling :: "string set"
  st_failed :: "(string, model_failure) btree_map"

fun push_new :: "string list \<Rightarrow> string list \<Rightarrow> string list" where
  "push_new models [] = models"
| "push_new models (m # ladder) = push_new (if m \<in> set models then models else models @ [m]) ladder"

definition failure_of :: "(string \<Rightarrow> string) \<Rightarrow> standing \<Rightarrow> string \<Rightarrow> model_failure option" where
  "failure_of canonical st model = bt_get (st_failed st) (canonical model)"

definition standing_rank :: "(string \<Rightarrow> string) \<Rightarrow> standing \<Rightarrow> (string \<Rightarrow> string option) \<Rightarrow> string \<Rightarrow> nat" where
  "standing_rank canonical st provider_of model =
     (if failure_of canonical st model \<noteq> None
         \<or> (case provider_of model of None \<Rightarrow> False | Some p \<Rightarrow> p \<in> st_cooling st) then 2
      else if (case bt_get (st_history st) model of None \<Rightarrow> False | Some r \<Rightarrow> unreliable r) then 1
      else 0)"

definition is_definitive :: "(string \<Rightarrow> string) \<Rightarrow> standing \<Rightarrow> string \<Rightarrow> bool" where
  "is_definitive canonical st model =
     (case failure_of canonical st model of None \<Rightarrow> False | Some f \<Rightarrow> definitive f)"

definition arrange :: "(string \<Rightarrow> string) \<Rightarrow> string \<Rightarrow> string list \<Rightarrow> standing \<Rightarrow> (string \<Rightarrow> string option) \<Rightarrow> string list" where
  "arrange canonical preferred ladder st provider_of =
     sort_key (standing_rank canonical st provider_of)
       (filter (\<lambda>m. \<not> is_definitive canonical st m) (push_new [preferred] ladder))"

record candidate =
  ca_model :: string
  ca_expected :: micro_usd

definition expected_cost :: "micro_usd \<Rightarrow> model_history \<Rightarrow> micro_usd" where
  "expected_cost base h =
     (if h_calls h = 0 then base
      else if successes h = 0 then usd_saturating_mul base (sat_add (h_calls h) 1)
      else
        let average = div_ceil (micros (h_cost h)) (h_calls h);
            attempts = div_ceil (h_calls h) (successes h)
        in MicroUsd (clamp_to (min (sat_mul (ucast average :: u128) (ucast attempts)) (ucast (- 1 :: u64)))))"

text \<open>\<open>catalogue.price(model)\<close>: under the model's own name, else under its registry id.\<close>

type_synonym price_catalogue = "(string, model_price) btree_map"

definition catalogue_price :: "(string \<Rightarrow> string) \<Rightarrow> price_catalogue \<Rightarrow> string \<Rightarrow> model_price option" where
  "catalogue_price canonical catalogue model =
     (case bt_get catalogue model of Some p \<Rightarrow> Some p | None \<Rightarrow> bt_get catalogue (canonical model))"

definition candidate_cost :: "(string \<Rightarrow> string) \<Rightarrow> price_catalogue \<Rightarrow> usage_profile
    \<Rightarrow> (string, model_history) btree_map \<Rightarrow> string \<Rightarrow> micro_usd" where
  "candidate_cost canonical catalogue profile hist model =
     (let record = (case bt_get hist model of Some r \<Rightarrow> r | None \<Rightarrow> history_default)
      in case catalogue_price canonical catalogue model of
           Some price \<Rightarrow>
             let cached = (case cache_share_permille record of
                             None \<Rightarrow> 0 | Some share \<Rightarrow> sat_mul (up_input profile) share div 1000)
             in expected_cost (cost price (token_usage_new (up_input profile) cached (up_output profile))) record
         | None \<Rightarrow> MicroUsd (- 1))"

fun seen_once :: "string set \<Rightarrow> string list \<Rightarrow> string list" where
  "seen_once seen [] = []"
| "seen_once seen (m # ms) = (if m \<in> seen then seen_once seen ms else m # seen_once (insert m seen) ms)"

definition rank_models :: "(string \<Rightarrow> string) \<Rightarrow> price_catalogue \<Rightarrow> string list \<Rightarrow> usage_profile
    \<Rightarrow> (string, model_history) btree_map \<Rightarrow> candidate list option" where
  "rank_models canonical catalogue candidates profile hist =
     (if candidates = [] then None
      else Some (sort_key (\<lambda>c. (ca_expected c, ca_model c))
             (map (\<lambda>m. \<lparr>ca_model = m, ca_expected = candidate_cost canonical catalogue profile hist m\<rparr>)
                (seen_once {} candidates))))"

end
