(* ===== verification/Policy_Facts.thy ===== *)
theory Policy_Facts
  imports Policy
begin

text \<open>
  What the rankings of \<open>crates/susi-harness/src/policy.rs\<close> promise: \<open>arrange\<close> is a stable regrouping that
  drops only definitive failures, \<open>rank_models\<close> sorts every candidate once, and the learned records
  (\<open>history\<close>, \<open>cooling_providers\<close>, \<open>failed_models\<close>) are what the ledger's rows say.
\<close>

section \<open>Arranging a task's models\<close>

lemma push_new_props: "distinct models \<Longrightarrow> distinct (push_new models ladder) \<and> set (push_new models ladder) = set models \<union> set ladder"
  by (induction models ladder rule: push_new.induct) auto

lemma push_new_prefix: "prefix models (push_new models ladder)"
  by (induction models ladder rule: push_new.induct) (auto intro: prefix_order.trans [OF prefixI [OF refl]])

lemma sort_key_three:
  assumes "\<And>x. f x \<le> (2::nat)"
  shows "sort_key f xs = filter (\<lambda>x. f x = 0) xs @ filter (\<lambda>x. f x = 1) xs @ filter (\<lambda>x. f x = 2) xs"
proof (rule properties_for_sort_key)
  show "mset (filter (\<lambda>x. f x = 0) xs @ filter (\<lambda>x. f x = 1) xs @ filter (\<lambda>x. f x = 2) xs) = mset xs"
  proof (induction xs)
    case (Cons x xs)
    moreover have "f x = 0 \<or> f x = 1 \<or> f x = 2" using assms [of x] by auto
    ultimately show ?case by auto
  qed simp
  fix k
  have "f k = 0 \<or> f k = 1 \<or> f k = 2" using assms [of k] by auto
  moreover have "filter (\<lambda>x. f k = f x) (filter (\<lambda>x. f x = i) xs) = (if f k = i then filter (\<lambda>x. f k = f x) xs else [])" for i
    by (auto simp: filter_empty_conv intro: filter_cong)
  ultimately show "filter (\<lambda>x. f k = f x) (filter (\<lambda>x. f x = 0) xs @ filter (\<lambda>x. f x = 1) xs @ filter (\<lambda>x. f x = 2) xs)
      = filter (\<lambda>x. f k = f x) xs"
    unfolding filter_append by (elim disjE) simp_all
  have const: "sorted (map f (filter (\<lambda>x. f x = i) xs))" for i
    by (induction xs) auto
  show "sorted (map f (filter (\<lambda>x. f x = 0) xs @ filter (\<lambda>x. f x = 1) xs @ filter (\<lambda>x. f x = 2) xs))"
    unfolding map_append sorted_append using const by auto
qed

text \<open>The order a task tries its models in: exactly the preferred model and the ladder's models
  without those whose last real call failed definitively, each once; the healthy ones first, then
  the unreliable ones, then those that cool down or failed transiently; within each group the order
  of the fleet is kept. A transient failure never takes a model off.\<close>

theorem arrange_stable_groups:
  "let ms = filter (\<lambda>m. \<not> is_definitive canonical st m) (push_new [preferred] ladder);
       rank = standing_rank canonical st provider_of;
       order = arrange canonical preferred ladder st provider_of
   in order = filter (\<lambda>m. rank m = 0) ms @ filter (\<lambda>m. rank m = 1) ms @ filter (\<lambda>m. rank m = 2) ms
      \<and> distinct order
      \<and> set order = {m. (m = preferred \<or> m \<in> set ladder) \<and> \<not> is_definitive canonical st m}"
proof -
  have "standing_rank canonical st provider_of m \<le> 2" for m by (simp add: standing_rank_def)
  note three = sort_key_three [OF this]
  have p: "distinct (push_new [preferred] ladder)" "set (push_new [preferred] ladder) = insert preferred (set ladder)"
    using push_new_props [of "[preferred]" ladder] by auto
  have "distinct (arrange canonical preferred ladder st provider_of)"
    using p(1) by (simp add: arrange_def)
  moreover have "set (arrange canonical preferred ladder st provider_of)
      = {m. (m = preferred \<or> m \<in> set ladder) \<and> \<not> is_definitive canonical st m}"
    unfolding arrange_def set_sort set_filter p(2) by auto
  ultimately show ?thesis by (simp add: arrange_def three)
qed

section \<open>Ranking by expected cost\<close>

lemma seen_once_props: "distinct (seen_once seen ms) \<and> set (seen_once seen ms) = set ms - seen"
  by (induction seen ms rule: seen_once.induct) auto

lemma candidate_cost_unpriced:
  "catalogue_price canonical catalogue m = None \<Longrightarrow> usd (candidate_cost canonical catalogue profile hist m) = 2 ^ 64 - 1"
  by (simp add: candidate_cost_def Let_def usd_def unat_max_word)

text \<open>Ranking loses no model: when there is a candidate the ranking lists every candidate exactly
  once, at its expected cost, cheapest first and by name among equals; a candidate without a price
  is listed at the largest amount, so it never comes before a cheaper one.\<close>

theorem rank_models_sorted:
  assumes "rank_models canonical catalogue candidates profile hist = Some ranked"
  shows "candidates \<noteq> [] \<and> distinct (map ca_model ranked) \<and> set (map ca_model ranked) = set candidates
    \<and> sorted (map (\<lambda>c. (ca_expected c, ca_model c)) ranked)
    \<and> list_all (\<lambda>c. ca_expected c = candidate_cost canonical catalogue profile hist (ca_model c)
         \<and> (catalogue_price canonical catalogue (ca_model c) \<noteq> None \<or> usd (ca_expected c) = 2 ^ 64 - 1)) ranked"
proof -
  let ?mk = "\<lambda>m. \<lparr>ca_model = m, ca_expected = candidate_cost canonical catalogue profile hist m\<rparr>"
  let ?ms = "map ?mk (seen_once {} candidates)"
  have ranked: "candidates \<noteq> []" "ranked = sort_key (\<lambda>c. (ca_expected c, ca_model c)) ?ms"
    using assms by (auto simp: rank_models_def split: if_splits)
  have "map ca_model ?ms = seen_once {} candidates" by (simp add: comp_def)
  then have "distinct (map ca_model ?ms)" "set (map ca_model ?ms) = set candidates"
    using seen_once_props [of "{}" candidates] by auto
  moreover have "mset (map ca_model ranked) = mset (map ca_model ?ms)" by (simp add: ranked(2) multiset.map_comp)
  ultimately have "distinct (map ca_model ranked)" "set (map ca_model ranked) = set candidates"
    by (metis mset_eq_imp_distinct_iff, metis mset_eq_setD)
  moreover have "list_all (\<lambda>c. ca_expected c = candidate_cost canonical catalogue profile hist (ca_model c)
      \<and> (catalogue_price canonical catalogue (ca_model c) \<noteq> None \<or> usd (ca_expected c) = 2 ^ 64 - 1)) ranked"
    using candidate_cost_unpriced [of canonical catalogue _ profile hist]
    by (auto simp: ranked(2) list_all_iff)
  moreover have "sorted (map (\<lambda>c. (ca_expected c, ca_model c)) ranked)" unfolding ranked(2) by (rule sorted_sort_key)
  ultimately show ?thesis using ranked(1) by blast
qed

theorem rank_models_sorted_witness:
  "rank_models id [] [''b'', ''a'', ''b''] profile_agent [] =
      Some [\<lparr>ca_model = ''a'', ca_expected = MicroUsd (- 1)\<rparr>, \<lparr>ca_model = ''b'', ca_expected = MicroUsd (- 1)\<rparr>]
    \<and> set (map ca_model [\<lparr>ca_model = ''a'', ca_expected = MicroUsd (- 1)\<rparr>, \<lparr>ca_model = ''b'', ca_expected = MicroUsd (- 1)\<rparr>])
        = set [''b'', ''a'', ''b'']"
proof -
  have r: "rank_models id [] [''b'', ''a'', ''b''] profile_agent [] =
      Some [\<lparr>ca_model = ''a'', ca_expected = MicroUsd (- 1)\<rparr>, \<lparr>ca_model = ''b'', ca_expected = MicroUsd (- 1)\<rparr>]"
    by (simp add: rank_models_def candidate_cost_def catalogue_price_def bt_get_def insort_key_def less_eq_char_def)
  show ?thesis using r rank_models_sorted [OF r] by blast
qed

section \<open>Cooling providers\<close>

definition completes :: "ledger_entry \<Rightarrow> bool" where
  "completes e \<longleftrightarrow> e_outcome e = Completed \<and> \<not> e_cached e"

definition failure_class_of :: "ledger_entry \<Rightarrow> failure_class option" where
  "failure_class_of e = (case e_outcome e of ModelFailed c \<Rightarrow> Some c | _ \<Rightarrow> None)"

text \<open>The failures of a provider since its last completed call.\<close>

definition failure_streak :: "ledger_entry list \<Rightarrow> failure_class list" where
  "failure_streak rows = List.map_filter failure_class_of (rev (takeWhile (\<lambda>e. \<not> completes e) (rev rows)))"

definition hard_failure :: "failure_class \<Rightarrow> bool" where
  "hard_failure c \<longleftrightarrow> c = NoCredit \<or> c = RateLimited"

text \<open>A counter of 32 bits that saturates.\<close>

definition count32 :: "nat \<Rightarrow> u32" where
  "count32 n = (if n < 2 ^ 32 then of_nat n else - 1)"

lemma unat_count32: "unat (count32 n) = min n (2 ^ 32 - 1)"
  by (simp add: count32_def unat_max_word unat_of_nat_less)

lemma count32_Suc: "sat_add (count32 n) 1 = count32 (Suc n)"
  unfolding word_unat_eq_iff unat_sat_add unat_count32 by simp

lemma count32_1: "count32 (Suc 0) = 1"
  by (simp add: count32_def)

lemma count32_ge_2: "2 \<le> count32 n \<longleftrightarrow> 2 \<le> n"
  by (simp add: word_le_nat_alt unat_count32)

definition streak_state :: "failure_class list \<Rightarrow> (u32 \<times> bool) option" where
  "streak_state fs =
     (if fs = [] then None
      else Some (count32 (length fs), list_ex hard_failure fs))"

lemma failure_streak_snoc:
  "failure_streak (rows @ [e]) =
     (if completes e then [] else failure_streak rows @ (case failure_class_of e of None \<Rightarrow> [] | Some c \<Rightarrow> [c]))"
  by (auto simp: failure_streak_def List.map_filter_def split: option.splits)

lemma bt_get_cool_row:
  "bt_get (cool_row e m) p =
     (if e_provider e \<noteq> p then bt_get m p
      else case failure_class_of e of
          Some c \<Rightarrow> Some (case bt_get m p of None \<Rightarrow> (1, hard_failure c) | Some (n, h) \<Rightarrow> (sat_add n 1, h \<or> hard_failure c))
        | None \<Rightarrow> if completes e then None else bt_get m p)"
  by (auto simp: cool_row_def failure_class_of_def completes_def hard_failure_def btree sat_add_def
      split: outcome.splits option.splits)

lemma cool_rows_state:
  "bt_get (fold cool_row rows []) p = streak_state (failure_streak (filter (\<lambda>e. e_provider e = p) rows))"
proof (induction rows rule: rev_induct)
  case Nil
  show ?case by (simp add: btree streak_state_def failure_streak_def List.map_filter_def)
next
  case (snoc e rows)
  let ?rows = "filter (\<lambda>e. e_provider e = p) rows"
  show ?case
  proof (cases "e_provider e = p")
    case False
    with snoc show ?thesis by (simp add: bt_get_cool_row)
  next
    case True
    show ?thesis
    proof (cases "failure_class_of e")
      case None
      with True snoc show ?thesis by (simp add: bt_get_cool_row failure_streak_snoc streak_state_def)
    next
      case (Some c)
      then have "\<not> completes e" by (auto simp: failure_class_of_def completes_def)
      with True Some snoc show ?thesis
        by (cases "failure_streak ?rows = []")
          (simp_all add: bt_get_cool_row failure_streak_snoc streak_state_def count32_Suc count32_1)
    qed
  qed
qed

lemma cool_rows_inv: "bt_inv m \<Longrightarrow> bt_inv (fold cool_row rows m)"
  by (induction rows arbitrary: m) (auto simp: cool_row_def btree split: outcome.splits)

lemma streak_cools:
  "(\<exists>n h. streak_state fs = Some (n, h) \<and> (h \<or> 2 \<le> n)) \<longleftrightarrow> list_ex hard_failure fs \<or> 2 \<le> length fs"
  by (auto simp: streak_state_def count32_ge_2)

text \<open>A provider cools down exactly when, among its rows of the last ten minutes in the order they
  ended and after its last call that completed, there is an exhausted credit or a rate limit, or at
  least two failures of any kind. Rejected work and answers from the gateway's cache do not
  count.\<close>

theorem cooling_providers_iff:
  "p \<in> cooling_providers entries now \<longleftrightarrow>
     (let fs = failure_streak (filter (\<lambda>e. e_provider e = p) (recent_rows entries now))
      in list_ex hard_failure fs \<or> 2 \<le> length fs)"
proof -
  let ?m = "fold cool_row (recent_rows entries now) []"
  have "bt_inv ?m" by (rule cool_rows_inv) (simp add: btree)
  note mem = bt_get_mem [OF this]
  have "p \<in> cooling_providers entries now \<longleftrightarrow> (\<exists>n h. (p, n, h) \<in> set ?m \<and> (h \<or> 2 \<le> n))"
    by (force simp: cooling_providers_def)
  also have "\<dots> \<longleftrightarrow> (\<exists>n h. bt_get ?m p = Some (n, h) \<and> (h \<or> 2 \<le> n))" by (simp only: mem)
  finally show ?thesis by (simp only: cool_rows_state streak_cools Let_def)
qed

section \<open>The last real call\<close>

definition is_latest :: "ledger_entry \<Rightarrow> ledger_entry list \<Rightarrow> bool" where
  "is_latest e rows \<longleftrightarrow>
     (\<exists>pre post. rows = pre @ e # post \<and> (\<forall>x\<in>set pre. e_ended x \<le> e_ended e) \<and> (\<forall>x\<in>set post. e_ended x < e_ended e))"

definition real_rows :: "(string \<Rightarrow> string) \<Rightarrow> string \<Rightarrow> ledger_entry list \<Rightarrow> ledger_entry list" where
  "real_rows canonical k entries = filter (\<lambda>e. canonical (e_model e) = k \<and> real_call e \<noteq> None) entries"

lemma is_latest_snoc_new:
  "is_latest b rows \<Longrightarrow> e_ended b \<le> e_ended e \<Longrightarrow> is_latest e (rows @ [e])"
proof -
  assume b: "is_latest b rows" and le: "e_ended b \<le> e_ended e"
  have "\<forall>x\<in>set rows. e_ended x \<le> e_ended e"
  proof
    fix x assume "x \<in> set rows"
    then have "e_ended x \<le> e_ended b" using b unfolding is_latest_def by (fastforce intro: less_imp_le)
    then show "e_ended x \<le> e_ended e" using le by (rule order_trans)
  qed
  then show ?thesis unfolding is_latest_def by (intro exI [of _ rows] exI [of _ "[]"]) simp
qed

lemma is_latest_snoc_old:
  "is_latest b rows \<Longrightarrow> \<not> e_ended b \<le> e_ended e \<Longrightarrow> is_latest b (rows @ [e])"
proof -
  assume "is_latest b rows" and lt: "\<not> e_ended b \<le> e_ended e"
  then obtain pre post where r: "rows = pre @ b # post" "\<forall>x\<in>set pre. e_ended x \<le> e_ended b"
    "\<forall>x\<in>set post. e_ended x < e_ended b" unfolding is_latest_def by blast
  with lt show ?thesis unfolding is_latest_def by (intro exI [of _ pre] exI [of _ "post @ [e]"]) (simp add: not_le)
qed

lemma bt_get_last_row:
  "real_call e = Some f \<Longrightarrow> canonical (e_model e) = k \<Longrightarrow>
     bt_get (last_row canonical e m) k =
       Some (let slot = (case bt_get m k of None \<Rightarrow> (0, None) | Some v \<Rightarrow> v)
             in if fst slot \<le> e_ended e then (e_ended e, f) else slot)"
  by (simp add: last_row_def btree Let_def)

lemma last_rows_state:
  "case bt_get (fold (last_row canonical) entries []) k of
     None \<Rightarrow> real_rows canonical k entries = []
   | Some slot \<Rightarrow> (\<exists>e. is_latest e (real_rows canonical k entries) \<and> slot = (e_ended e, the (real_call e)))"
proof (induction entries rule: rev_induct)
  case Nil
  show ?case by (simp add: btree real_rows_def)
next
  case (snoc e entries)
  let ?m = "fold (last_row canonical) entries []"
  show ?case
  proof (cases "canonical (e_model e) = k \<and> real_call e \<noteq> None")
    case False
    then have "bt_get (last_row canonical e ?m) k = bt_get ?m k"
      by (auto simp: last_row_def btree split: option.splits)
    moreover have "real_rows canonical k (entries @ [e]) = real_rows canonical k entries"
      using False by (auto simp: real_rows_def)
    ultimately show ?thesis using snoc by (cases "bt_get ?m k") simp_all
  next
    case True
    then obtain f where f: "real_call e = Some f" and k: "canonical (e_model e) = k" by auto
    have rows: "real_rows canonical k (entries @ [e]) = real_rows canonical k entries @ [e]"
      using True by (simp add: real_rows_def)
    show ?thesis
    proof (cases "bt_get ?m k")
      case None
      then have "real_rows canonical k entries = []" using snoc by simp
      then have "is_latest e (real_rows canonical k (entries @ [e]))" unfolding rows is_latest_def by (intro exI [of _ "[]"]) simp
      with None f show ?thesis by (auto simp: bt_get_last_row [where canonical = canonical, OF f k])
    next
      case (Some slot)
      then obtain b where b: "is_latest b (real_rows canonical k entries)" "slot = (e_ended b, the (real_call b))"
        using snoc by auto
      show ?thesis
      proof (cases "e_ended b \<le> e_ended e")
        case True
        with is_latest_snoc_new [OF b(1) True] Some f k b(2) show ?thesis
          unfolding rows by (auto simp: bt_get_last_row [where canonical = canonical, OF f k])
      next
        case False
        with is_latest_snoc_old [OF b(1) False] Some f k b(2) show ?thesis
          unfolding rows by (auto simp: bt_get_last_row [where canonical = canonical, OF f k])
      qed
    qed
  qed
qed

lemma is_latest_unique:
  assumes "is_latest e rows" and "is_latest e' rows"
  shows "e = e'"
proof -
  obtain pre post pre' post' where r: "rows = pre @ e # post" "rows = pre' @ e' # post'"
    and le: "\<forall>x\<in>set pre. e_ended x \<le> e_ended e" "\<forall>x\<in>set post. e_ended x < e_ended e"
      "\<forall>x\<in>set pre'. e_ended x \<le> e_ended e'" "\<forall>x\<in>set post'. e_ended x < e_ended e'"
    using assms unfolding is_latest_def by blast
  have "pre @ e # post = pre' @ e' # post'" using r by simp
  then consider us where "pre = pre' @ us" "us @ e # post = e' # post'"
    | us where "pre' = pre @ us" "us @ e' # post' = e # post"
    by (auto simp: append_eq_append_conv2)
  then show ?thesis
  proof cases
    case 1
    then show ?thesis using le by (cases us) (auto simp: not_less [symmetric])
  next
    case 2
    then show ?thesis using le by (cases us) (auto simp: not_less [symmetric])
  qed
qed

lemma last_rows_inv: "bt_inv m \<Longrightarrow> bt_inv (fold (last_row canonical) entries m)"
  by (induction entries arbitrary: m) (auto simp: last_row_def btree split: option.splits)

lemma bt_get_map_filter:
  assumes "bt_inv m"
  shows "bt_get (List.map_filter (\<lambda>(k, v). map_option (Pair k) (f v)) m) k = Option.bind (bt_get m k) f"
  using assms
proof (induction m)
  case (Cons x m)
  obtain k' v where x: "x = (k', v)" by (cases x)
  have "bt_inv m" "k' \<notin> fst ` set m" using Cons.prems by (auto simp: x bt_inv_def)
  then have "bt_get m k' = None" by (simp add: bt_get_None)
  with Cons.IH \<open>bt_inv m\<close> show ?case
    by (cases "f v") (auto simp: x List.map_filter_def bt_get_def)
qed (simp add: btree List.map_filter_def)

text \<open>The calls decide whether a model works: a model is listed as failed exactly when the last of
  its real calls (in order of their end, the later row among equals, under whatever alias it was
  called) failed, with that call's time and class; task verdicts and answers from the gateway's
  cache do not count.\<close>

theorem failed_models_last_call:
  "bt_get (failed_models canonical entries) k = Some f \<longleftrightarrow>
     (\<exists>e. is_latest e (real_rows canonical k entries) \<and> real_call e = Some (Some (mf_class f)) \<and> mf_at f = e_ended e)"
proof -
  let ?m = "fold (last_row canonical) entries []"
  let ?f = "\<lambda>(at, class). map_option (\<lambda>c. \<lparr>mf_at = at, mf_class = c\<rparr>) class"
  have eq: "(\<lambda>(model, at, class). case class of None \<Rightarrow> None | Some c \<Rightarrow> Some (model, \<lparr>mf_at = at, mf_class = c\<rparr>))
      = (\<lambda>(k, v). map_option (Pair k) (?f v))"
    by (auto simp: fun_eq_iff split: option.splits)
  have "bt_inv ?m" by (rule last_rows_inv) (simp add: btree)
  then have get: "bt_get (failed_models canonical entries) k = Option.bind (bt_get ?m k) ?f"
    unfolding failed_models_def eq by (rule bt_get_map_filter)
  show ?thesis
  proof (cases "bt_get ?m k")
    case None
    then have "real_rows canonical k entries = []" using last_rows_state [of canonical k entries] by simp
    then show ?thesis using None by (simp add: get is_latest_def)
  next
    case (Some slot)
    then obtain e where e: "is_latest e (real_rows canonical k entries)" "slot = (e_ended e, the (real_call e))"
      using last_rows_state [of canonical k entries] by auto
    have "e \<in> set (real_rows canonical k entries)" using e(1) by (auto simp: is_latest_def)
    then obtain c where c: "real_call e = Some c" by (auto simp: real_rows_def)
    have "bt_get (failed_models canonical entries) k = map_option (\<lambda>c. \<lparr>mf_at = e_ended e, mf_class = c\<rparr>) c"
      using Some e(2) c by (simp add: get)
    moreover have "(\<exists>x. is_latest x (real_rows canonical k entries) \<and> real_call x = Some (Some (mf_class f)) \<and> mf_at f = e_ended x)
        \<longleftrightarrow> c = Some (mf_class f) \<and> mf_at f = e_ended e"
      using is_latest_unique [OF e(1)] e(1) c by (metis option.inject)
    ultimately show ?thesis by (cases c) auto
  qed
qed

section \<open>The record of a model\<close>

lemma count_row_fields:
  "h_calls (count_row e h) = 1"
  "h_failures (count_row e h) = (if is_failure_row e then 1 else h_failures h)"
  "h_cost (count_row e h) = usd_add_or_max (h_cost h) (e_cost e)"
  by (simp_all add: count_row_def Let_def)

lemma fold_count_rows:
  "h_calls (fold count_row rs h) = (if rs = [] then h_calls h else 1)"
  "h_failures (fold count_row rs h) = (if list_ex is_failure_row rs then 1 else h_failures h)"
  "usd (h_cost (fold count_row rs h)) = min (usd (h_cost h) + (\<Sum>e\<leftarrow>rs. usd (e_cost e))) (2 ^ 64 - 1)"
proof (induction rs arbitrary: h)
  case Nil
  case 1 show ?case by simp
  case 2 show ?case by simp
  case 3 show ?case using usd_bound [of "h_cost h"] by simp
next
  case (Cons e rs)
  case 1 show ?case by (simp add: Cons count_row_fields)
  case 2 show ?case by (simp add: Cons count_row_fields)
  case 3 show ?case by (simp add: Cons count_row_fields usd_add_or_max min_def)
qed

lemma add_attempt_fields:
  "h_calls (add_attempt a h) = sat_add (h_calls h) (h_calls a)"
  "h_failures (add_attempt a h) = sat_add (h_failures h) (h_failures a)"
  "h_cost (add_attempt a h) = usd_add_or_max (h_cost h) (h_cost a)"
  by (simp_all add: add_attempt_def)

lemma fold_add_attempts:
  "unat (h_calls (fold (\<lambda>x. add_attempt (snd x)) xs h)) = min (unat (h_calls h) + (\<Sum>x\<leftarrow>xs. unat (h_calls (snd x)))) (2 ^ 64 - 1)"
  "unat (h_failures (fold (\<lambda>x. add_attempt (snd x)) xs h)) = min (unat (h_failures h) + (\<Sum>x\<leftarrow>xs. unat (h_failures (snd x)))) (2 ^ 64 - 1)"
  "usd (h_cost (fold (\<lambda>x. add_attempt (snd x)) xs h)) = min (usd (h_cost h) + (\<Sum>x\<leftarrow>xs. usd (h_cost (snd x)))) (2 ^ 64 - 1)"
proof (induction xs arbitrary: h)
  case Nil
  case 1 show ?case using unat_le_max [of "h_calls h"] by simp
  case 2 show ?case using unat_le_max [of "h_failures h"] by simp
  case 3 show ?case using usd_bound [of "h_cost h"] by simp
next
  case (Cons x xs)
  case 1 show ?case by (simp add: Cons add_attempt_fields unats min_def)
  case 2 show ?case by (simp add: Cons add_attempt_fields unats min_def)
  case 3 show ?case by (simp add: Cons add_attempt_fields usd_add_or_max min_def)
qed

lemma sum_min: "finite K \<Longrightarrow> min (\<Sum>k\<in>K. min (f k) M) M = min (\<Sum>k\<in>K. f k) (M :: nat)"
proof (induction rule: finite_induct)
  case (insert k K)
  then show ?case by (simp add: min_def split: if_splits)
qed simp

lemma sum_by_key:
  "finite K \<Longrightarrow> (\<Sum>k\<in>K. \<Sum>e\<leftarrow>filter (\<lambda>e. g e = k) es. c e) = (\<Sum>e\<leftarrow>filter (\<lambda>e. g e \<in> K) es. (c e :: nat))"
proof (induction es)
  case (Cons e es)
  have "(\<Sum>k\<in>K. \<Sum>x\<leftarrow>filter (\<lambda>x. g x = k) (e # es). c x) = (\<Sum>k\<in>K. (if k = g e then c e else 0) + (\<Sum>x\<leftarrow>filter (\<lambda>x. g x = k) es. c x))"
    by (intro sum.cong) auto
  also have "\<dots> = (if g e \<in> K then c e else 0) + (\<Sum>x\<leftarrow>filter (\<lambda>e. g e \<in> K) es. c x)"
    using Cons by (simp add: sum.distrib)
  finally show ?case by simp
qed simp

lemma attempts_inv: "bt_inv (attempts_of es)"
  unfolding attempts_of_def by (rule bt_inv_fold_upsert)

lemma attempts_mem:
  "(k, v) \<in> set (attempts_of es) \<longleftrightarrow>
     k \<in> attempt_key ` set es \<and> v = fold count_row (filter (\<lambda>e. attempt_key e = k) es) history_default"
  unfolding bt_get_mem [OF attempts_inv, symmetric] unfolding attempts_of_def bt_get_fold_upsert by auto

definition model_keys :: "string \<Rightarrow> ledger_entry list \<Rightarrow> attempt_key set" where
  "model_keys m es = attempt_key ` {e \<in> set es. e_model e = m}"

lemma model_keys_iff: "k \<in> model_keys m es \<longleftrightarrow> k \<in> attempt_key ` set es \<and> key_model k = m"
  by (auto simp: model_keys_def key_model_def attempt_key_def)

text \<open>A sum over the attempts of a model is a sum over its keys.\<close>

lemma sum_attempts:
  "(\<Sum>x\<leftarrow>filter (\<lambda>x. key_model (fst x) = m) (attempts_of es). f (snd x)) =
     (\<Sum>k\<in>model_keys m es. f (fold count_row (filter (\<lambda>e. attempt_key e = k) es) history_default) :: nat)"
proof -
  let ?xs = "filter (\<lambda>x. key_model (fst x) = m) (attempts_of es)"
  let ?v = "\<lambda>k. fold count_row (filter (\<lambda>e. attempt_key e = k) es) history_default"
  have dist: "distinct (map fst ?xs)" using bt_inv_distinct [OF attempts_inv] by (rule distinct_map_filter)
  have val: "snd x = ?v (fst x)" if "x \<in> set ?xs" for x
    using that attempts_mem [of "fst x" "snd x" es] by simp
  have keys: "set (map fst ?xs) = model_keys m es"
  proof (intro set_eqI iffI)
    fix k assume "k \<in> set (map fst ?xs)"
    then show "k \<in> model_keys m es" using attempts_mem [of k _ es] by (force simp: model_keys_iff)
  next
    fix k assume "k \<in> model_keys m es"
    then have "(k, ?v k) \<in> set ?xs" by (simp add: model_keys_iff attempts_mem)
    then show "k \<in> set (map fst ?xs)" by force
  qed
  have "(\<Sum>x\<leftarrow>?xs. f (snd x)) = (\<Sum>x\<leftarrow>?xs. f (?v (fst x)))"
    by (intro arg_cong [of _ _ sum_list] map_cong) (simp_all only: val)
  also have "\<dots> = (\<Sum>k\<leftarrow>map fst ?xs. f (?v k))" by (simp add: comp_def)
  also have "\<dots> = (\<Sum>k\<in>model_keys m es. f (?v k))" using dist keys by (simp only: sum_list_distinct_conv_sum_set)
  finally show ?thesis .
qed

text \<open>A model is judged on attempts, not on calls: its record counts each mission, task, attempt
  number and model once however many rows it has, counts an attempt as failed when any of its rows
  is a provider failure or rejected work, and its cost is the sum over all its rows; all saturate at
  \<open>u64::MAX\<close>.\<close>

theorem history_counts_attempts:
  assumes "bt_get (history es) m = Some h"
  shows "unat (h_calls h) = min (card (model_keys m es)) (2 ^ 64 - 1)
    \<and> unat (h_failures h) = min (card (model_keys m (filter is_failure_row es))) (2 ^ 64 - 1)
    \<and> usd (h_cost h) = min (\<Sum>e\<leftarrow>filter (\<lambda>e. e_model e = m) es. usd (e_cost e)) (2 ^ 64 - 1)"
proof -
  let ?xs = "filter (\<lambda>x. key_model (fst x) = m) (attempts_of es)"
  let ?rows = "\<lambda>k. filter (\<lambda>e. attempt_key e = k) es"
  have h: "h = fold (\<lambda>x. add_attempt (snd x)) ?xs history_default"
    using assms unfolding history_def case_prod_unfold bt_get_fold_upsert by (auto split: if_splits)
  have fin: "finite (model_keys m es)" by (simp add: model_keys_def)
  have rows: "?rows k \<noteq> []" if "k \<in> model_keys m es" for k
    using that by (auto simp: model_keys_def filter_empty_conv)
  have zero: "unat (h_calls history_default) = 0" "unat (h_failures history_default) = 0" "usd (h_cost history_default) = 0"
    by (simp_all add: history_default_def)
  have "(\<Sum>x\<leftarrow>?xs. unat (h_calls (snd x))) = (\<Sum>k\<in>model_keys m es. 1)"
    unfolding sum_attempts [where f = "\<lambda>h. unat (h_calls h)"] using rows by (intro sum.cong) (simp_all add: fold_count_rows)
  moreover have "(\<Sum>x\<leftarrow>?xs. unat (h_failures (snd x))) = card (model_keys m (filter is_failure_row es))"
  proof -
    have "(\<Sum>x\<leftarrow>?xs. unat (h_failures (snd x))) = (\<Sum>k\<in>model_keys m es. if list_ex is_failure_row (?rows k) then 1 else 0)"
      unfolding sum_attempts [where f = "\<lambda>h. unat (h_failures h)"] by (intro sum.cong) (simp_all add: fold_count_rows history_default_def)
    also have "\<dots> = card {k \<in> model_keys m es. list_ex is_failure_row (?rows k)}"
      using fin by (simp add: sum.If_cases Int_def)
    also have "{k \<in> model_keys m es. list_ex is_failure_row (?rows k)} = model_keys m (filter is_failure_row es)"
      by (force simp: model_keys_def list_ex_iff attempt_key_def image_iff)
    finally show ?thesis .
  qed
  moreover have "min (\<Sum>x\<leftarrow>?xs. usd (h_cost (snd x))) (2 ^ 64 - 1)
      = min (\<Sum>e\<leftarrow>filter (\<lambda>e. e_model e = m) es. usd (e_cost e)) (2 ^ 64 - 1)"
  proof -
    have "(\<Sum>x\<leftarrow>?xs. usd (h_cost (snd x))) = (\<Sum>k\<in>model_keys m es. min (\<Sum>e\<leftarrow>?rows k. usd (e_cost e)) (2 ^ 64 - 1))"
      unfolding sum_attempts [where f = "\<lambda>h. usd (h_cost h)"] fold_count_rows zero by simp
    moreover have "(\<Sum>k\<in>model_keys m es. \<Sum>e\<leftarrow>?rows k. usd (e_cost e)) = (\<Sum>e\<leftarrow>filter (\<lambda>e. attempt_key e \<in> model_keys m es) es. usd (e_cost e))"
      by (rule sum_by_key [OF fin])
    moreover have "filter (\<lambda>e. attempt_key e \<in> model_keys m es) es = filter (\<lambda>e. e_model e = m) es"
      by (intro filter_cong) (auto simp: model_keys_def attempt_key_def)
    ultimately show ?thesis by (simp only: sum_min [OF fin])
  qed
  ultimately show ?thesis unfolding h fold_add_attempts zero by simp
qed

theorem history_counts_attempts_witness:
  "\<exists>h. bt_get (history [settle sample_dispatch, settle sample_dispatch]) (d_model sample_dispatch) = Some h
    \<and> unat (h_calls h) = 1"
proof -
  let ?es = "[settle sample_dispatch, settle sample_dispatch]" and ?m = "d_model sample_dispatch"
  have "?m \<in> fst ` set (history ?es)"
  proof (rule ccontr)
    assume "\<not> ?thesis"
    then have "bt_get (history ?es) ?m = None" by (simp add: bt_get_None)
    then show False
      using attempts_mem [of "attempt_key (settle sample_dispatch)" _ ?es]
      unfolding history_def case_prod_unfold bt_get_fold_upsert
      by (force simp: key_model_def attempt_key_def settle_def split: if_splits)
  qed
  then obtain h where h: "bt_get (history ?es) ?m = Some h"
    by (metis bt_get_None option.exhaust)
  have "model_keys ?m ?es = {attempt_key (settle sample_dispatch)}"
    by (auto simp: model_keys_def settle_def)
  with h history_counts_attempts [OF h] show ?thesis by auto
qed

end
