(* ===== verification/Ladder.thy ===== *)
theory Ladder
  imports Susi_Strings Ordered_Map
begin

text \<open>
  \<open>crates/susi-harness/src/policy.rs\<close>, second half: how a failure is classified and signed, and the
  escalation ladder of one task. The counters of the ladder are \<open>usize\<close>; they stay below the attempt
  cap and the length of the ladder, so they are natural numbers here.
\<close>

datatype failure_kind = Transient | TimeoutKind | Semantic | ContextOverflow | ExecutorKind

fun contains :: "string \<Rightarrow> string \<Rightarrow> bool" where
  "contains needle [] = (needle = [])"
| "contains needle (c # s) = (prefix needle (c # s) \<or> contains needle s)"

definition TRANSIENT :: "string list" where
  "TRANSIENT = [''rate limit'', ''rate_limit'', ''429'', ''overloaded'', ''temporarily'', ''unavailable'',
     ''connection'', ''network'', ''502'', ''503'', ''504'']"

definition TIMEOUT :: "string list" where
  "TIMEOUT = [''timed out'', ''timeout'', ''deadline exceeded'']"

definition CONTEXT :: "string list" where
  "CONTEXT = [''context_length_exceeded'', ''context length'', ''maximum context'', ''context window'',
     ''prompt is too long'', ''input is too long'', ''exceeds the maximum number of tokens'', ''input token count'']"

definition classify :: "string \<Rightarrow> failure_kind" where
  "classify message =
     (let t = to_ascii_lowercase message
      in if list_ex (\<lambda>needle. contains needle t) CONTEXT then ContextOverflow
         else if list_ex (\<lambda>needle. contains needle t) TIMEOUT then TimeoutKind
         else if list_ex (\<lambda>needle. contains needle t) TRANSIENT then Transient
         else Semantic)"

definition kind_prefix :: "failure_kind \<Rightarrow> string" where
  "kind_prefix kind =
     (case kind of Transient \<Rightarrow> ''transient'' | TimeoutKind \<Rightarrow> ''timeout'' | Semantic \<Rightarrow> ''semantic''
      | ContextOverflow \<Rightarrow> ''context'' | ExecutorKind \<Rightarrow> ''executor'')"

text \<open>After the map every byte is an ASCII letter, a digit or a blank, so \<open>split_whitespace\<close> splits at
  blanks and the first 160 characters are the first 160 bytes.\<close>

definition signature :: "failure_kind \<Rightarrow> string \<Rightarrow> string" where
  "signature kind message =
     (if kind = TimeoutKind then kind_prefix kind
      else
        let normalised = map (\<lambda>c. if is_ascii_alphanumeric c \<or> c = CHR '' '' then c else CHR '' '')
                           (to_ascii_lowercase message);
            condensed = join '' '' (split_blanks normalised);
            tail = take 160 condensed
        in if tail = [] then kind_prefix kind else kind_prefix kind @ '': '' @ tail)"

record policy =
  p_max_attempts :: nat
  p_max_same_model :: nat
  p_retry_transient :: bool
  p_stop_on_repeat :: bool

definition policy_default :: policy where
  "policy_default = \<lparr>p_max_attempts = 4, p_max_same_model = 2, p_retry_transient = True, p_stop_on_repeat = True\<rparr>"

record attempt =
  at_model :: string
  at_number :: u32

datatype stop_reason = LadderExhausted | Stuck string

datatype next_attempt = Attempt attempt | Stop stop_reason

record ladder =
  la_ranked :: "string list"
  la_policy :: policy
  la_index :: nat
  la_used :: nat
  la_same_model :: nat
  la_pending_same :: bool
  la_signatures :: "(string, string) btree_map"
  la_stuck :: "string option"
  la_contexts :: "(string, u64) btree_map"

definition ladder_new :: "string list \<Rightarrow> policy \<Rightarrow> ladder" where
  "ladder_new ranked p = \<lparr>la_ranked = ranked, la_policy = p, la_index = 0, la_used = 0, la_same_model = 0,
     la_pending_same = False, la_signatures = [], la_stuck = None, la_contexts = []\<rparr>"

definition with_contexts :: "ladder \<Rightarrow> (string, u64) btree_map \<Rightarrow> ladder" where
  "with_contexts l contexts = l\<lparr>la_contexts := contexts\<rparr>"

definition current_model :: "ladder \<Rightarrow> string option" where
  "current_model l = (if la_index l < length (la_ranked l) then Some (la_ranked l ! la_index l) else None)"

definition ladder_arrange :: "ladder \<Rightarrow> string list \<Rightarrow> ladder" where
  "ladder_arrange l ranked = l\<lparr>la_ranked := ranked, la_index := 0, la_pending_same := False\<rparr>"

definition attempt_number :: "nat \<Rightarrow> u32" where
  "attempt_number n = (if int n < 2 ^ 32 then word_of_int (int n) else - 1)"

definition next_attempt :: "ladder \<Rightarrow> next_attempt \<times> ladder" where
  "next_attempt l =
     (case la_stuck l of
        Some sig \<Rightarrow> (Stop (Stuck sig), l)
      | None \<Rightarrow>
          if p_max_attempts (la_policy l) \<le> la_used l \<or> length (la_ranked l) \<le> la_index l
          then (Stop LadderExhausted, l)
          else
            let model = la_ranked l ! la_index l;
                l1 = l\<lparr>la_used := la_used l + 1\<rparr>;
                l2 = (if la_pending_same l1
                      then l1\<lparr>la_same_model := la_same_model l1 + 1, la_pending_same := False\<rparr>
                      else l1\<lparr>la_same_model := 1\<rparr>)
            in (Attempt \<lparr>at_model = model, at_number = attempt_number (la_used l2)\<rparr>, l2))"

text \<open>The first later model whose window is unknown or larger.\<close>

definition next_larger :: "ladder \<Rightarrow> u64 \<Rightarrow> nat option" where
  "next_larger l held =
     List.find (\<lambda>i. case bt_get (la_contexts l) (la_ranked l ! i) of None \<Rightarrow> True | Some window \<Rightarrow> held < window)
       [Suc (la_index l)..<length (la_ranked l)]"

definition record_failure :: "ladder \<Rightarrow> string \<Rightarrow> failure_kind \<Rightarrow> string \<Rightarrow> ladder" where
  "record_failure l model kind message =
     (if kind = ExecutorKind then l\<lparr>la_stuck := Some ''executor''\<rparr>
      else if kind = ContextOverflow then
        (let held = (case bt_get (la_contexts l) model of None \<Rightarrow> 0 | Some w \<Rightarrow> w)
         in case next_larger l held of
              Some position \<Rightarrow> l\<lparr>la_index := position, la_same_model := 0\<rparr>
            | None \<Rightarrow> l\<lparr>la_stuck := Some (''context: no model on the ladder has a larger window than '' @ model)\<rparr>)
      else
        let sig = signature kind message;
            repeated = p_stop_on_repeat (la_policy l)
              \<and> (case bt_get (la_signatures l) sig of None \<Rightarrow> False | Some previous \<Rightarrow> previous \<noteq> model)
        in if repeated then l\<lparr>la_stuck := Some sig\<rparr>
           else
             let l1 = (if p_stop_on_repeat (la_policy l) \<and> bt_get (la_signatures l) sig = None
                       then l\<lparr>la_signatures := bt_insert sig model (la_signatures l)\<rparr> else l);
                 retry_same = (kind = Transient \<and> p_retry_transient (la_policy l1)
                               \<and> la_same_model l1 < p_max_same_model (la_policy l1))
             in if retry_same then l1\<lparr>la_pending_same := True\<rparr>
                else l1\<lparr>la_index := la_index l1 + 1, la_same_model := 0\<rparr>)"

section \<open>What the ladder keeps\<close>

lemma next_attempt_Attempt:
  "next_attempt l = (Attempt a, l') \<longleftrightarrow>
     la_stuck l = None \<and> la_used l < p_max_attempts (la_policy l) \<and> la_index l < length (la_ranked l)
     \<and> a = \<lparr>at_model = la_ranked l ! la_index l, at_number = attempt_number (Suc (la_used l))\<rparr>
     \<and> l' = l\<lparr>la_used := Suc (la_used l),
             la_same_model := (if la_pending_same l then Suc (la_same_model l) else 1),
             la_pending_same := False\<rparr>"
  by (auto simp: next_attempt_def Let_def split: option.splits)

lemma record_failure_fixed:
  "la_ranked (record_failure l m k msg) = la_ranked l" "la_policy (record_failure l m k msg) = la_policy l"
  "la_used (record_failure l m k msg) = la_used l" "la_contexts (record_failure l m k msg) = la_contexts l"
  by (auto simp: record_failure_def Let_def split: option.splits)

lemma next_larger_Some:
  assumes "next_larger l held = Some i"
  shows "la_index l < i \<and> i < length (la_ranked l)"
proof -
  have "i \<in> set [Suc (la_index l)..<length (la_ranked l)]"
    using assms unfolding next_larger_def find_Some_iff by (metis nth_mem)
  then show ?thesis by auto
qed

end
