(* ===== verification/Scheduler.thy ===== *)
theory Scheduler
  imports Ladder Policy Budget
begin

text \<open>
  \<open>crates/susi-harness/src/scheduler.rs\<close>: one task tried along its ladder (\<open>run_task\<close>) and the report of
  a mission (\<open>run_mission\<close>). The runner is behind a trait, and the ledger and the budget guard are
  shared with the other tasks: what an attempt meets is the record \<open>attempt_world\<close>, one per attempt of
  the task. The guard and its bound over all interleavings are in \<open>Budget_Run\<close>. The event feed, a log for
  the operator that nothing reads back, is left out.
\<close>

datatype run_result =
    RunSucceeded string
  | RunFailed string
  | RunTimedOut
  | RunError string
  | RunPanicked string

datatype attempt_outcome =
    Succeeded string
  | Failed string
  | TimedOut
  | AttemptError string
  | Skipped string

record attempt_result =
  ar_model :: string
  ar_outcome :: attempt_outcome
  ar_elapsed_ms :: u64
  ar_estimate :: "micro_usd option"

datatype task_stop = BudgetStop | LadderStop stop_reason

record task_result =
  tr_task :: string
  tr_attempts :: "attempt_result list"
  tr_succeeded :: bool
  tr_stopped :: "task_stop option"

record task_spec =
  ts_id :: string
  ts_prompt :: string

record mission_config =
  mc_id :: string
  mc_tasks :: "task_spec list"
  mc_candidates :: "string list"
  mc_budget :: "budget option"
  mc_policy :: policy
  mc_usage :: usage_profile
  mc_catalogue :: "price_catalogue option"

record attempt_world =
  aw_guard :: guard_state
  aw_ledger :: "ledger_entry list"
  aw_result :: run_result
  aw_elapsed_ms :: u64

definition attempt_estimate :: "(string \<Rightarrow> string) \<Rightarrow> mission_config \<Rightarrow> task_spec \<Rightarrow> string \<Rightarrow> micro_usd option" where
  "attempt_estimate canonical config task model =
     (case (mc_budget config,
            Option.bind (mc_catalogue config) (\<lambda>catalogue. catalogue_price canonical catalogue model)) of
        (Some b, Some price) \<Rightarrow> Some (estimate b price (ts_prompt task))
      | _ \<Rightarrow> None)"

text \<open>The reason an attempt is not dispatched, if the guard refuses it.\<close>

definition refused :: "mission_config \<Rightarrow> attempt_world \<Rightarrow> micro_usd option \<Rightarrow> string option" where
  "refused config w est =
     (case (mc_budget config, est) of
        (Some b, Some e) \<Rightarrow>
          (case fst (reserve b (aw_guard w) (spent (aw_ledger w) (mc_id config)) e) of
             Inl (Exhausted s _ l) \<Rightarrow> Some (''budget: spent '' @ show_usd s @ '' of '' @ show_usd l)
           | _ \<Rightarrow> None)
      | _ \<Rightarrow> None)"

definition outcome_of :: "run_result \<Rightarrow> attempt_outcome" where
  "outcome_of r =
     (case r of
        RunSucceeded t \<Rightarrow> Succeeded t
      | RunFailed message \<Rightarrow> Failed message
      | RunTimedOut \<Rightarrow> TimedOut
      | RunError message \<Rightarrow> AttemptError message
      | RunPanicked message \<Rightarrow> AttemptError (''runner panicked: '' @ message))"

text \<open>What the ladder is told about an attempt that did not succeed.\<close>

definition failure_of_outcome :: "attempt_outcome \<Rightarrow> (failure_kind \<times> string) option" where
  "failure_of_outcome outcome =
     (case outcome of
        Failed message \<Rightarrow> Some (classify message, message)
      | TimedOut \<Rightarrow> Some (TimeoutKind, ''timed out'')
      | AttemptError message \<Rightarrow> Some (ExecutorKind, message)
      | _ \<Rightarrow> None)"

lemma next_attempt_measure:
  "next_attempt l = (Attempt a, l') \<Longrightarrow>
     p_max_attempts (la_policy l') - la_used l' < p_max_attempts (la_policy l) - la_used l"
  by (auto simp: next_attempt_Attempt)

function run_loop :: "(string \<Rightarrow> string) \<Rightarrow> mission_config \<Rightarrow> task_spec \<Rightarrow> (nat \<Rightarrow> attempt_world) \<Rightarrow> ladder
    \<Rightarrow> attempt_result list \<Rightarrow> task_result" where
  "run_loop canonical config task world l attempts =
     (case next_attempt l of
        (Stop reason, _) \<Rightarrow>
          \<lparr>tr_task = ts_id task, tr_attempts = attempts, tr_succeeded = False,
           tr_stopped = Some (LadderStop reason)\<rparr>
      | (Attempt a, l1) \<Rightarrow>
          let w = world (la_used l1);
              est = attempt_estimate canonical config task (at_model a)
          in case refused config w est of
               Some reason \<Rightarrow>
                 \<lparr>tr_task = ts_id task,
                  tr_attempts = attempts @ [\<lparr>ar_model = at_model a, ar_outcome = Skipped reason,
                                            ar_elapsed_ms = 0, ar_estimate = est\<rparr>],
                  tr_succeeded = False, tr_stopped = Some BudgetStop\<rparr>
             | None \<Rightarrow>
                 let result = \<lparr>ar_model = at_model a, ar_outcome = outcome_of (aw_result w),
                               ar_elapsed_ms = aw_elapsed_ms w, ar_estimate = est\<rparr>
                 in case failure_of_outcome (ar_outcome result) of
                      None \<Rightarrow>
                        \<lparr>tr_task = ts_id task, tr_attempts = attempts @ [result], tr_succeeded = True,
                         tr_stopped = None\<rparr>
                    | Some (kind, message) \<Rightarrow>
                        run_loop canonical config task world
                          (record_failure l1 (at_model a) kind message) (attempts @ [result]))"
  by pat_completeness auto
termination
  by (relation "measure (\<lambda>(canonical, config, task, world, l, attempts). p_max_attempts (la_policy l) - la_used l)")
    (auto simp: record_failure_fixed dest: next_attempt_measure [OF sym])

declare run_loop.simps [simp del]

definition run_task :: "(string \<Rightarrow> string) \<Rightarrow> mission_config \<Rightarrow> string list \<Rightarrow> (nat \<Rightarrow> attempt_world) \<Rightarrow> task_spec
    \<Rightarrow> task_result" where
  "run_task canonical config ranked world task =
     run_loop canonical config task world (ladder_new ranked (mc_policy config)) []"

definition budget_stopped :: "task_result \<Rightarrow> bool" where
  "budget_stopped r \<longleftrightarrow> tr_stopped r = Some BudgetStop"

fun last_final_text :: "attempt_result list \<Rightarrow> string option" where
  "last_final_text [] = None"
| "last_final_text (a # as) = (case ar_outcome a of Succeeded t \<Rightarrow> Some t | _ \<Rightarrow> last_final_text as)"

definition final_text :: "task_result \<Rightarrow> string option" where
  "final_text r = last_final_text (rev (tr_attempts r))"

datatype mission_error = BudgetWithoutCatalogue | NoCandidates

record mission_report =
  mr_mission :: string
  mr_results :: "task_result list"
  mr_succeeded :: nat
  mr_failed :: nat
  mr_total_cost :: micro_usd
  mr_budget_limit :: "micro_usd option"
  mr_budget_exhausted :: bool
  mr_stuck :: nat

definition mission_cost :: "ledger_entry list \<Rightarrow> string \<Rightarrow> micro_usd" where
  "mission_cost entries mission =
     foldl (\<lambda>s e. usd_add_or_max s (e_cost e)) usd_zero (filter (\<lambda>e. e_mission e = mission) entries)"

definition mission_ranking :: "(string \<Rightarrow> string) \<Rightarrow> mission_config \<Rightarrow> ledger_entry list \<Rightarrow> mission_error + string list" where
  "mission_ranking canonical config entries =
     (if mc_budget config \<noteq> None \<and> mc_catalogue config = None then Inl BudgetWithoutCatalogue
      else
        case (case mc_catalogue config of
                Some catalogue \<Rightarrow>
                  map_option (map ca_model)
                    (rank_models canonical catalogue (mc_candidates config) (mc_usage config) (history entries))
              | None \<Rightarrow> Some (mc_candidates config)) of
          None \<Rightarrow> Inl NoCandidates
        | Some ranked \<Rightarrow> if ranked = [] then Inl NoCandidates else Inr ranked)"

text \<open>\<open>order\<close>: the tasks in the order their workers finish; \<open>before\<close> and \<open>after\<close>: the readable rows of
  the ledger when the mission starts and when it ends.\<close>

definition run_mission :: "(string \<Rightarrow> string) \<Rightarrow> mission_config \<Rightarrow> ledger_entry list \<Rightarrow> ledger_entry list
    \<Rightarrow> (string \<Rightarrow> nat \<Rightarrow> attempt_world) \<Rightarrow> task_spec list \<Rightarrow> mission_error + mission_report" where
  "run_mission canonical config before after worlds order =
     (case mission_ranking canonical config before of
        Inl e \<Rightarrow> Inl e
      | Inr ranked \<Rightarrow>
          let results = sort_key tr_task
                (map (\<lambda>task. run_task canonical config ranked (worlds (ts_id task)) task) order);
              succeeded = length (filter tr_succeeded results)
          in Inr \<lparr>mr_mission = mc_id config, mr_results = results, mr_succeeded = succeeded,
                 mr_failed = length results - succeeded,
                 mr_total_cost = mission_cost after (mc_id config),
                 mr_budget_limit = map_option b_limit (mc_budget config),
                 mr_budget_exhausted = list_ex budget_stopped results,
                 mr_stuck = length (filter (\<lambda>r. case tr_stopped r of Some (LadderStop _) \<Rightarrow> True | _ \<Rightarrow> False) results)\<rparr>)"

section \<open>What a run of the ladder keeps\<close>

text \<open>The signature a failed attempt leaves on the ladder.\<close>

definition sig_of :: "attempt_result \<Rightarrow> string option" where
  "sig_of r =
     (case failure_of_outcome (ar_outcome r) of
        None \<Rightarrow> None
      | Some (kind, message) \<Rightarrow>
          if kind = ExecutorKind \<or> kind = ContextOverflow then None else Some (signature kind message))"

text \<open>Two different models failed the same way.\<close>

definition repeats :: "attempt_result list \<Rightarrow> nat \<Rightarrow> nat \<Rightarrow> string \<Rightarrow> bool" where
  "repeats hist i j sig \<longleftrightarrow> i < j \<and> j < length hist \<and> sig_of (hist ! i) = Some sig \<and> sig_of (hist ! j) = Some sig
     \<and> ar_model (hist ! i) \<noteq> ar_model (hist ! j)"

definition tries :: "attempt_result list \<Rightarrow> string \<Rightarrow> nat" where
  "tries hist m = count_list (map ar_model hist) m"

definition climb_inv :: "ladder \<Rightarrow> attempt_result list \<Rightarrow> bool" where
  "climb_inv l hist \<longleftrightarrow>
     length hist = la_used l \<and> la_used l \<le> p_max_attempts (la_policy l)
     \<and> list_all (\<lambda>r. failure_of_outcome (ar_outcome r) \<noteq> None) hist"

definition position_inv :: "ladder \<Rightarrow> attempt_result list \<Rightarrow> bool" where
  "position_inv l hist \<longleftrightarrow>
     (\<forall>m. tries hist m \<le> max 1 (p_max_same_model (la_policy l)))
     \<and> (la_stuck l = None \<longrightarrow>
         set (map ar_model hist) \<subseteq> set (take (if la_pending_same l then Suc (la_index l) else la_index l) (la_ranked l))
         \<and> (la_pending_same l \<longrightarrow> tries hist (la_ranked l ! la_index l) = la_same_model l
               \<and> la_same_model l < p_max_same_model (la_policy l)))"

definition sig_inv :: "ladder \<Rightarrow> attempt_result list \<Rightarrow> bool" where
  "sig_inv l hist \<longleftrightarrow>
     (case la_stuck l of
        None \<Rightarrow> \<forall>r\<in>set hist. \<forall>sig. sig_of r = Some sig \<longrightarrow> bt_get (la_signatures l) sig = Some (ar_model r)
      | Some s \<Rightarrow> \<forall>i j sig. repeats hist i j sig \<longrightarrow> Suc j = length hist \<and> s = sig)"

lemma climb_inv_step:
  assumes "climb_inv l hist" and "next_attempt l = (Attempt a, l1)" and "failure_of_outcome (ar_outcome r) = Some (k, msg)"
  shows "climb_inv (record_failure l1 (at_model a) k msg) (hist @ [r])"
  using assms by (auto simp: climb_inv_def next_attempt_Attempt record_failure_fixed)

lemma tries_snoc: "tries (hist @ [r]) m = tries hist m + (if ar_model r = m then 1 else 0)"
  by (simp add: tries_def)

lemma tries_zero: "m \<notin> set (map ar_model hist) \<Longrightarrow> tries hist m = 0"
  by (simp add: tries_def count_notin)

text \<open>How a failure moves the ladder: it ends it, keeps its place for a retry, or moves past it.\<close>

lemma record_failure_moves:
  assumes "\<not> la_pending_same l"
  shows "(\<exists>s. la_stuck (record_failure l m k msg) = Some s)
    \<or> la_index (record_failure l m k msg) = la_index l \<and> la_pending_same (record_failure l m k msg)
        \<and> la_same_model (record_failure l m k msg) = la_same_model l \<and> la_same_model l < p_max_same_model (la_policy l)
    \<or> la_index l < la_index (record_failure l m k msg) \<and> \<not> la_pending_same (record_failure l m k msg)"
proof (cases "k = ContextOverflow")
  case True
  then show ?thesis using assms by (auto simp: record_failure_def Let_def dest: next_larger_Some split: option.splits)
next
  case False
  then show ?thesis using assms by (auto simp: record_failure_def Let_def)
qed

lemma record_failure_cases:
  assumes "\<not> la_pending_same l"
  obtains (stuck) s where "la_stuck (record_failure l m k msg) = Some s"
  | (retry) "la_index (record_failure l m k msg) = la_index l" "la_pending_same (record_failure l m k msg)"
      "la_same_model (record_failure l m k msg) = la_same_model l" "la_same_model l < p_max_same_model (la_policy l)"
  | (move) "la_index l < la_index (record_failure l m k msg)" "\<not> la_pending_same (record_failure l m k msg)"
  using record_failure_moves [OF assms] by blast

lemma position_inv_step:
  assumes inv: "position_inv l hist" and na: "next_attempt l = (Attempt a, l1)" and r: "ar_model r = at_model a"
    and dist: "distinct (la_ranked l)"
  shows "position_inv (record_failure l1 (at_model a) k msg) (hist @ [r])"
proof -
  let ?m = "la_ranked l ! la_index l" and ?S = "p_max_same_model (la_policy l)"
  let ?l = "record_failure l1 (at_model a) k msg"
  have l1: "la_index l < length (la_ranked l)" "la_stuck l = None" "at_model a = ?m"
    "\<not> la_pending_same l1" "la_index l1 = la_index l" "la_ranked l1 = la_ranked l" "la_policy l1 = la_policy l"
    "la_same_model l1 = (if la_pending_same l then Suc (la_same_model l) else 1)"
    using na by (auto simp: next_attempt_Attempt)
  have old: "set (map ar_model hist) \<subseteq> set (take (if la_pending_same l then Suc (la_index l) else la_index l) (la_ranked l))"
    "la_pending_same l \<Longrightarrow> tries hist ?m = la_same_model l \<and> la_same_model l < ?S"
    "\<And>m. tries hist m \<le> max 1 ?S"
    using inv l1(2) by (auto simp: position_inv_def)
  have fresh: "tries hist ?m = 0" if "\<not> la_pending_same l"
  proof (rule tries_zero)
    have "?m \<notin> set (take (la_index l) (la_ranked l))"
      using dist l1(1) by (auto simp: in_set_conv_nth nth_eq_iff_index_eq)
    with old(1) that show "?m \<notin> set (map ar_model hist)" by auto
  qed
  have tm: "tries (hist @ [r]) ?m = la_same_model l1"
    using old(2) fresh l1 r by (auto simp: tries_snoc)
  have bound: "tries (hist @ [r]) m \<le> max 1 ?S" for m
    using old(2,3) [of] old(3) [of m] fresh tm l1 r by (cases "m = ?m") (auto simp: tries_snoc)
  have "set (map ar_model (hist @ [r])) \<subseteq> set (take (Suc (la_index l)) (la_ranked l))"
    using old(1) l1 r by (auto simp: take_Suc_conv_app_nth split: if_splits)
  then have sub: "set (map ar_model (hist @ [r])) \<subseteq> set (take n (la_ranked l))" if "la_index l < n" for n
    using that set_take_subset_set_take [of "Suc (la_index l)" n "la_ranked l"] by fastforce
  from l1(4) show ?thesis
  proof (cases rule: record_failure_cases [of l1 "at_model a" k msg])
    case (stuck s)
    then show ?thesis using bound l1(7) by (simp add: position_inv_def record_failure_fixed)
  next
    case retry
    then show ?thesis using bound tm sub [of "Suc (la_index l)"] l1
      by (simp add: position_inv_def record_failure_fixed)
  next
    case move
    then show ?thesis using bound sub [of "la_index ?l"] l1
      by (simp add: position_inv_def record_failure_fixed)
  qed
qed

lemma sig_inv_no_repeats:
  assumes "sig_inv l hist" "la_stuck l = None"
  shows "\<not> repeats hist i j sig"
proof
  assume rep: "repeats hist i j sig"
  then have ij: "hist ! i \<in> set hist" "hist ! j \<in> set hist" by (auto simp: repeats_def)
  with rep assms have "bt_get (la_signatures l) sig = Some (ar_model (hist ! i))"
    "bt_get (la_signatures l) sig = Some (ar_model (hist ! j))"
    by (simp_all add: sig_inv_def repeats_def)
  with rep show False by (simp add: repeats_def)
qed

lemma repeats_snoc:
  "repeats (hist @ [r]) i j sig \<longleftrightarrow>
     repeats hist i j sig
     \<or> j = length hist \<and> i < j \<and> sig_of (hist ! i) = Some sig \<and> sig_of r = Some sig \<and> ar_model (hist ! i) \<noteq> ar_model r"
  by (auto simp: repeats_def nth_append less_Suc_eq)

lemma sig_inv_step:
  assumes inv: "sig_inv l hist" and na: "next_attempt l = (Attempt a, l1)" and r: "ar_model r = at_model a"
    and f: "failure_of_outcome (ar_outcome r) = Some (k, msg)" and stop: "p_stop_on_repeat (la_policy l)"
  shows "sig_inv (record_failure l1 (at_model a) k msg) (hist @ [r])"
proof -
  let ?l = "record_failure l1 (at_model a) k msg" and ?sig = "signature k msg" and ?m = "at_model a"
  have l1: "la_stuck l = None" "la_stuck l1 = None" "la_signatures l1 = la_signatures l" "p_stop_on_repeat (la_policy l1)"
    using na stop by (auto simp: next_attempt_Attempt)
  have none: "\<not> repeats hist i j sig" for i j sig
    using sig_inv_no_repeats inv l1(1) by blast
  have old: "\<forall>q\<in>set hist. \<forall>sig. sig_of q = Some sig \<longrightarrow> bt_get (la_signatures l) sig = Some (ar_model q)"
    using inv l1(1) by (simp add: sig_inv_def)
  consider (quiet) "k = ExecutorKind \<or> k = ContextOverflow"
    | (repeated) p where "k \<noteq> ExecutorKind" "k \<noteq> ContextOverflow" "bt_get (la_signatures l) ?sig = Some p" "p \<noteq> ?m"
    | (known) "k \<noteq> ExecutorKind" "k \<noteq> ContextOverflow" "bt_get (la_signatures l) ?sig = Some ?m"
    | (new) "k \<noteq> ExecutorKind" "k \<noteq> ContextOverflow" "bt_get (la_signatures l) ?sig = None"
    by (cases "bt_get (la_signatures l) ?sig") auto
  then show ?thesis
  proof cases
    case quiet
    then have "sig_of r = None" by (auto simp: sig_of_def f)
    moreover have "la_signatures ?l = la_signatures l"
      using quiet l1 by (auto simp: record_failure_def Let_def split: option.splits)
    ultimately show ?thesis using none old by (auto simp: sig_inv_def repeats_snoc split: option.splits)
  next
    case repeated
    then have "la_stuck ?l = Some ?sig" "sig_of r = Some ?sig"
      using l1 by (auto simp: record_failure_def Let_def sig_of_def f)
    then show ?thesis using none by (simp add: sig_inv_def repeats_snoc)
  next
    case known
    then have "la_stuck ?l = None" "la_signatures ?l = la_signatures l" "sig_of r = Some ?sig"
      using l1 by (auto simp: record_failure_def Let_def sig_of_def f)
    then show ?thesis using old known r by (simp add: sig_inv_def)
  next
    case new
    then have "la_stuck ?l = None" "la_signatures ?l = bt_insert ?sig ?m (la_signatures l)" "sig_of r = Some ?sig"
      using l1 by (auto simp: record_failure_def Let_def sig_of_def f)
    then show ?thesis using old new r by (auto simp: sig_inv_def bt_get_insert)
  qed
qed

text \<open>How a run ends: the ladder stops it, or its last attempt was refused or succeeded.\<close>

definition ended :: "(ladder \<Rightarrow> attempt_result list \<Rightarrow> bool) \<Rightarrow> task_result \<Rightarrow> bool" where
  "ended P t \<longleftrightarrow>
     (\<exists>l hist reason l'. P l hist \<and> next_attempt l = (Stop reason, l') \<and> tr_attempts t = hist
        \<and> \<not> tr_succeeded t \<and> tr_stopped t = Some (LadderStop reason))
     \<or> (\<exists>l hist a l' r. P l hist \<and> next_attempt l = (Attempt a, l') \<and> ar_model r = at_model a
        \<and> tr_attempts t = hist @ [r] \<and> failure_of_outcome (ar_outcome r) = None
        \<and> ((\<exists>s. ar_outcome r = Succeeded s) \<and> tr_succeeded t \<and> tr_stopped t = None
           \<or> (\<exists>s. ar_outcome r = Skipped s) \<and> \<not> tr_succeeded t \<and> tr_stopped t = Some BudgetStop))"

lemma failure_of_outcome_None:
  "failure_of_outcome (outcome_of x) = None \<longleftrightarrow> (\<exists>s. outcome_of x = Succeeded s)"
  by (cases x) (auto simp: failure_of_outcome_def outcome_of_def)

lemma run_loop_ended:
  assumes "P l hist"
    and step: "\<And>l hist a l1 r k msg. P l hist \<Longrightarrow> next_attempt l = (Attempt a, l1) \<Longrightarrow> ar_model r = at_model a \<Longrightarrow>
      failure_of_outcome (ar_outcome r) = Some (k, msg) \<Longrightarrow> P (record_failure l1 (at_model a) k msg) (hist @ [r])"
  shows "ended P (run_loop canonical config task world l hist)"
  using assms(1)
proof (induction canonical config task world l hist rule: run_loop.induct)
  case (1 canonical config task world l hist)
  obtain n l1 where na: "next_attempt l = (n, l1)" by fastforce
  show ?case
  proof (cases n)
    case (Stop reason)
    then have "run_loop canonical config task world l hist =
        \<lparr>tr_task = ts_id task, tr_attempts = hist, tr_succeeded = False, tr_stopped = Some (LadderStop reason)\<rparr>"
      using na by (simp add: run_loop.simps)
    then show ?thesis unfolding ended_def using 1(2) na Stop by auto
  next
    case (Attempt a)
    define w where "w = world (la_used l1)"
    define est where "est = attempt_estimate canonical config task (at_model a)"
    define r where "r = \<lparr>ar_model = at_model a, ar_outcome = outcome_of (aw_result w), ar_elapsed_ms = aw_elapsed_ms w,
      ar_estimate = est\<rparr>"
    have na': "next_attempt l = (Attempt a, l1)" using na Attempt by simp
    show ?thesis
    proof (cases "refused config w est")
      case (Some reason)
      let ?r = "\<lparr>ar_model = at_model a, ar_outcome = Skipped reason, ar_elapsed_ms = 0, ar_estimate = est\<rparr>"
      have "run_loop canonical config task world l hist =
        \<lparr>tr_task = ts_id task, tr_attempts = hist @ [?r], tr_succeeded = False, tr_stopped = Some BudgetStop\<rparr>"
        by (subst run_loop.simps) (use Some na' in \<open>simp add: Let_def flip: w_def est_def\<close>)
      then show ?thesis unfolding ended_def using 1(2) na' by (auto simp: failure_of_outcome_def)
    next
      case None
      show ?thesis
      proof (cases "failure_of_outcome (ar_outcome r)")
        case None2: None
        have "run_loop canonical config task world l hist =
          \<lparr>tr_task = ts_id task, tr_attempts = hist @ [r], tr_succeeded = True, tr_stopped = None\<rparr>"
          by (subst run_loop.simps) (use None None2 na' in \<open>simp add: Let_def flip: w_def est_def r_def\<close>)
        moreover have "\<exists>s. ar_outcome r = Succeeded s"
          using None2 failure_of_outcome_None by (simp add: r_def)
        ultimately show ?thesis unfolding ended_def using 1(2) na' None2 by (auto simp: r_def)
      next
        case (Some f)
        obtain k msg where f: "f = (k, msg)" by fastforce
        have "run_loop canonical config task world l hist =
          run_loop canonical config task world (record_failure l1 (at_model a) k msg) (hist @ [r])"
          by (subst run_loop.simps) (use None Some f na' in \<open>simp add: Let_def flip: w_def est_def r_def\<close>)
        moreover have "P (record_failure l1 (at_model a) k msg) (hist @ [r])"
          using step [OF 1(2) na' _ Some [unfolded f]] by (simp add: r_def)
        ultimately show ?thesis
          using 1(1) [OF na' [symmetric] refl w_def est_def None r_def Some f [symmetric]] by simp
      qed
    qed
  qed
qed

lemma ended_mono: "ended P t \<Longrightarrow> (\<And>l hist. P l hist \<Longrightarrow> Q l hist) \<Longrightarrow> ended Q t"
  unfolding ended_def by blast

lemma run_task_climb:
  "ended (\<lambda>l hist. climb_inv l hist \<and> la_policy l = mc_policy config) (run_task canonical config ranked world task)"
  unfolding run_task_def
proof (rule run_loop_ended)
  show "climb_inv (ladder_new ranked (mc_policy config)) [] \<and> la_policy (ladder_new ranked (mc_policy config)) = mc_policy config"
    by (simp add: climb_inv_def ladder_new_def)
next
  fix l hist a l1 k msg and r :: attempt_result
  assume inv: "climb_inv l hist \<and> la_policy l = mc_policy config" and na: "next_attempt l = (Attempt a, l1)"
    and r: "failure_of_outcome (ar_outcome r) = Some (k, msg)"
  have "la_policy l1 = la_policy l" using na by (auto simp: next_attempt_Attempt)
  then show "climb_inv (record_failure l1 (at_model a) k msg) (hist @ [r])
    \<and> la_policy (record_failure l1 (at_model a) k msg) = mc_policy config"
    using climb_inv_step [OF _ na r] inv by (simp add: record_failure_fixed)
qed

lemma run_task_position:
  assumes "distinct ranked"
  shows "ended (\<lambda>l hist. position_inv l hist \<and> la_ranked l = ranked \<and> la_policy l = mc_policy config)
    (run_task canonical config ranked world task)"
  unfolding run_task_def
proof (rule run_loop_ended)
  show "position_inv (ladder_new ranked (mc_policy config)) [] \<and> la_ranked (ladder_new ranked (mc_policy config)) = ranked
    \<and> la_policy (ladder_new ranked (mc_policy config)) = mc_policy config"
    by (simp add: position_inv_def ladder_new_def tries_def)
next
  fix l hist a l1 k msg and r :: attempt_result
  assume inv: "position_inv l hist \<and> la_ranked l = ranked \<and> la_policy l = mc_policy config"
    and na: "next_attempt l = (Attempt a, l1)" and r: "ar_model r = at_model a"
  have "la_ranked l1 = la_ranked l" "la_policy l1 = la_policy l" using na by (auto simp: next_attempt_Attempt)
  then show "position_inv (record_failure l1 (at_model a) k msg) (hist @ [r])
    \<and> la_ranked (record_failure l1 (at_model a) k msg) = ranked
    \<and> la_policy (record_failure l1 (at_model a) k msg) = mc_policy config"
    using position_inv_step [OF _ na r] inv assms by (simp add: record_failure_fixed)
qed

lemma run_task_sig:
  assumes "p_stop_on_repeat (mc_policy config)"
  shows "ended (\<lambda>l hist. sig_inv l hist \<and> p_stop_on_repeat (la_policy l)) (run_task canonical config ranked world task)"
  unfolding run_task_def
proof (rule run_loop_ended)
  show "sig_inv (ladder_new ranked (mc_policy config)) [] \<and> p_stop_on_repeat (la_policy (ladder_new ranked (mc_policy config)))"
    using assms by (simp add: sig_inv_def ladder_new_def)
next
  fix l hist a l1 k msg and r :: attempt_result
  assume inv: "sig_inv l hist \<and> p_stop_on_repeat (la_policy l)" and na: "next_attempt l = (Attempt a, l1)"
    and r: "ar_model r = at_model a" "failure_of_outcome (ar_outcome r) = Some (k, msg)"
  have "la_policy l1 = la_policy l" using na by (auto simp: next_attempt_Attempt)
  then show "sig_inv (record_failure l1 (at_model a) k msg) (hist @ [r])
    \<and> p_stop_on_repeat (la_policy (record_failure l1 (at_model a) k msg))"
    using sig_inv_step [OF _ na r] inv by (simp add: record_failure_fixed)
qed

text \<open>C31. A task never runs more attempts than its policy allows; every attempt but the last one failed;
  the task counts as succeeded exactly when its last attempt did, and it carries a stop reason exactly when
  it did not succeed.\<close>

theorem run_task_bounded:
  "let t = run_task canonical config ranked world task
   in length (tr_attempts t) \<le> p_max_attempts (mc_policy config)
      \<and> list_all (\<lambda>r. failure_of_outcome (ar_outcome r) \<noteq> None) (butlast (tr_attempts t))
      \<and> (tr_succeeded t \<longleftrightarrow> tr_attempts t \<noteq> [] \<and> (\<exists>s. ar_outcome (last (tr_attempts t)) = Succeeded s))
      \<and> (tr_succeeded t \<longleftrightarrow> tr_stopped t = None)"
proof -
  define t where "t = run_task canonical config ranked world task"
  have end_t: "ended (\<lambda>l hist. climb_inv l hist \<and> la_policy l = mc_policy config) t"
    using run_task_climb by (simp add: t_def)
  have failed: "\<not> (\<exists>s. ar_outcome (last hist) = Succeeded s)"
    if h: "list_all (\<lambda>r. failure_of_outcome (ar_outcome r) \<noteq> None) hist" "hist \<noteq> []" for hist
  proof -
    have "failure_of_outcome (ar_outcome (last hist)) \<noteq> None" using h by (simp add: list_all_iff)
    then show ?thesis by (auto simp: failure_of_outcome_def)
  qed
  have sub: "list_all Q hist \<Longrightarrow> list_all Q (butlast hist)" for Q and hist :: "attempt_result list"
    by (auto simp: list_all_iff dest: in_set_butlastD)
  have "length (tr_attempts t) \<le> p_max_attempts (mc_policy config)
      \<and> list_all (\<lambda>r. failure_of_outcome (ar_outcome r) \<noteq> None) (butlast (tr_attempts t))
      \<and> (tr_succeeded t \<longleftrightarrow> tr_attempts t \<noteq> [] \<and> (\<exists>s. ar_outcome (last (tr_attempts t)) = Succeeded s))
      \<and> (tr_succeeded t \<longleftrightarrow> tr_stopped t = None)"
    using end_t failed sub unfolding ended_def climb_inv_def by (auto simp: next_attempt_Attempt)
  then show ?thesis unfolding t_def Let_def .
qed

text \<open>On a ladder that lists no model twice, a task tries each model at most \<open>max_same_model\<close> times, and
  at most once when that cap is zero.\<close>

theorem run_task_same_model:
  assumes "distinct ranked"
  shows "tries (tr_attempts (run_task canonical config ranked world task)) m \<le> max 1 (p_max_same_model (mc_policy config))"
proof -
  let ?S = "max 1 (p_max_same_model (mc_policy config))"
  have grow: "tries (hist @ [r]) m \<le> ?S"
    if h: "position_inv l hist" "la_ranked l = ranked" "la_policy l = mc_policy config"
      "next_attempt l = (Attempt a, l')" "ar_model r = at_model a" for l hist a l' r
    using position_inv_step [OF h(1,4,5), of ExecutorKind "[]"] assms h
    by (auto simp: position_inv_def record_failure_fixed next_attempt_Attempt)
  have stay: "tries hist m \<le> ?S" if h: "position_inv l hist" "la_policy l = mc_policy config" for l hist
    using h by (simp add: position_inv_def)
  have "ended (\<lambda>l hist. position_inv l hist \<and> la_ranked l = ranked \<and> la_policy l = mc_policy config)
    (run_task canonical config ranked world task)" by (rule run_task_position [OF assms])
  then show ?thesis unfolding ended_def
    by (elim disjE exE conjE) (auto dest: stay grow)
qed

text \<open>A ladder of three models on which every attempt fails the same, transient way.\<close>

definition sample_config :: mission_config where
  "sample_config = \<lparr>mc_id = ''m'', mc_tasks = [], mc_candidates = [''a'', ''b'', ''c''], mc_budget = None,
     mc_policy = policy_default, mc_usage = profile_agent, mc_catalogue = None\<rparr>"

definition sample_task :: task_spec where
  "sample_task = \<lparr>ts_id = ''t'', ts_prompt = ''p''\<rparr>"

definition sample_world :: "nat \<Rightarrow> attempt_world" where
  "sample_world n = \<lparr>aw_guard = guard_new, aw_ledger = [], aw_result = RunFailed ''HTTP 503'', aw_elapsed_ms = 1\<rparr>"

lemma sample_failure:
  "classify ''HTTP 503'' = Transient" "signature Transient ''HTTP 503'' = ''transient: http 503''"
  by code_simp+

lemma sample_refused:
  "attempt_estimate id sample_config sample_task m = None" "refused sample_config w None = None"
  "mc_policy sample_config = policy_default" "ts_id sample_task = ''t''"
  by (simp_all add: attempt_estimate_def refused_def sample_config_def sample_task_def)

lemma sample_run:
  "run_task id sample_config [''a'', ''b'', ''c''] sample_world sample_task =
     \<lparr>tr_task = ''t'',
      tr_attempts = map (\<lambda>m. \<lparr>ar_model = m, ar_outcome = Failed ''HTTP 503'', ar_elapsed_ms = 1, ar_estimate = None\<rparr>)
        [''a'', ''a'', ''b''],
      tr_succeeded = False, tr_stopped = Some (LadderStop (Stuck ''transient: http 503''))\<rparr>"
  by (simp add: run_task_def run_loop.simps next_attempt_def ladder_new_def record_failure_def sample_failure sample_refused
      sample_world_def outcome_of_def failure_of_outcome_def Let_def bt_get_def policy_default_def bt_insert.simps numeral_2_eq_2)

lemma run_task_same_model_witness:
  "distinct [''a'', ''b'', ''c''] \<and> tries (tr_attempts (run_task id sample_config [''a'', ''b'', ''c''] sample_world sample_task)) ''a'' = 2
   \<and> 2 \<le> max 1 (p_max_same_model (mc_policy sample_config))"
  using run_task_same_model [of "[''a'', ''b'', ''c'']" id sample_config sample_world sample_task "''a''"]
  by (simp add: tries_def sample_run sample_refused policy_default_def)

text \<open>Under \<open>stop_on_repeat\<close>, once two different models have failed with the same signature the task
  is over: the second of them is its last attempt and the task is reported stuck on that signature.\<close>

theorem run_task_stops_on_repeat:
  assumes "p_stop_on_repeat (mc_policy config)"
    and "repeats (tr_attempts (run_task canonical config ranked world task)) i j sig"
  shows "length (tr_attempts (run_task canonical config ranked world task)) = Suc j
    \<and> tr_stopped (run_task canonical config ranked world task) = Some (LadderStop (Stuck sig))"
proof -
  define t where "t = run_task canonical config ranked world task"
  have rep: "repeats (tr_attempts t) i j sig" using assms(2) by (simp add: t_def)
  have quiet: False if h: "sig_inv l hist" "next_attempt l = (Attempt a, l')" "tr_attempts t = hist @ [r]"
      "failure_of_outcome (ar_outcome r) = None" for l hist a l' r
  proof -
    have "sig_of r = None" "la_stuck l = None" using h by (auto simp: sig_of_def next_attempt_Attempt)
    then show False using sig_inv_no_repeats [OF h(1)] rep h(3) by (simp add: repeats_snoc)
  qed
  have stopped: "length hist = Suc j \<and> reason = Stuck sig"
    if h: "sig_inv l hist" "next_attempt l = (Stop reason, l')" "tr_attempts t = hist" for l hist reason l'
  proof (cases "la_stuck l")
    case None
    then show ?thesis using sig_inv_no_repeats [OF h(1)] rep h(3) by simp
  next
    case (Some s)
    then show ?thesis using h rep by (auto simp: sig_inv_def next_attempt_def)
  qed
  have "ended (\<lambda>l hist. sig_inv l hist \<and> p_stop_on_repeat (la_policy l)) t"
    using run_task_sig [OF assms(1)] by (simp add: t_def)
  then have "length (tr_attempts t) = Suc j \<and> tr_stopped t = Some (LadderStop (Stuck sig))"
    unfolding ended_def using quiet stopped by blast
  then show ?thesis by (simp add: t_def)
qed

lemma run_task_stops_on_repeat_witness:
  "let t = run_task id sample_config [''a'', ''b'', ''c''] sample_world sample_task
   in repeats (tr_attempts t) 0 2 ''transient: http 503'' \<and> length (tr_attempts t) = 3
      \<and> tr_stopped t = Some (LadderStop (Stuck ''transient: http 503''))"
proof -
  have "repeats (tr_attempts (run_task id sample_config [''a'', ''b'', ''c''] sample_world sample_task)) 0 2 ''transient: http 503''"
    by (simp add: repeats_def sample_run sig_of_def failure_of_outcome_def sample_failure)
  then show ?thesis
    using run_task_stops_on_repeat [of sample_config id "[''a'', ''b'', ''c'']" sample_world sample_task 0 2]
    by (simp add: sample_refused policy_default_def)
qed

end
