(* ===== verification/Dependencies.thy ===== *)
theory Dependencies
  imports Susi_Strings Ordered_Map
begin

text \<open>
  \<open>validate_dependencies\<close> of \<open>crates/susi-harness/src/workflow.rs\<close>: an iterative depth-first search with
  marks (0 unvisited, 1 on the current path, 2 finished). The two vectors \<open>path\<close> and \<open>cursor\<close>, which
  the code pushes and pops together, are one stack of pairs with the top first. The trait
  \<open>WorkflowTask\<close> is the record \<open>workflow_task\<close>; the plan's tasks extend it.
\<close>

record workflow_task =
  t_key :: string
  t_deps :: "string list"
  t_scopes :: "string list"

datatype dependency_error =
    UnknownDependency string string
  | DependencyCycle "string list"

definition key_index :: "('a workflow_task_scheme) list \<Rightarrow> (string, nat) btree_map" where
  "key_index tasks = fold (\<lambda>(position, t) m. bt_insert (t_key t) position m) (zip [0..<length tasks] tasks) []"

definition find_unknown :: "(string, nat) btree_map \<Rightarrow> ('a workflow_task_scheme) list \<Rightarrow> (string \<times> string) option" where
  "find_unknown index tasks =
     List.find (\<lambda>(_, d). bt_get index d = None) (concat (map (\<lambda>t. map (Pair (t_key t)) (t_deps t)) tasks))"

definition deps_at :: "('a workflow_task_scheme) list \<Rightarrow> nat \<Rightarrow> string list" where
  "deps_at tasks node = (if node < length tasks then t_deps (tasks ! node) else [])"

text \<open>The names of a cycle: from the repeated node on the path to the top, then the repeated
  dependency.\<close>

definition cycle_names :: "('a workflow_task_scheme) list \<Rightarrow> (nat \<times> nat) list \<Rightarrow> nat \<Rightarrow> string \<Rightarrow> string list" where
  "cycle_names tasks stack child dep =
     map (\<lambda>m. t_key (tasks ! m))
       (filter (\<lambda>m. m < length tasks) (dropWhile (\<lambda>m. m \<noteq> child) (rev (map fst stack)))) @ [dep]"

text \<open>Each turn of the loop visits a new node, or moves a cursor, or pops the stack.\<close>

definition todo :: "('a workflow_task_scheme) list \<Rightarrow> (nat \<times> nat) list \<Rightarrow> nat" where
  "todo tasks stack = (\<Sum>(node, nxt)\<leftarrow>stack. Suc (length (deps_at tasks node) - nxt))"

lemma count_zero_update_le: "v \<noteq> (0::nat) \<Longrightarrow> count_list (xs[i := v]) 0 \<le> count_list xs 0"
proof (induction xs arbitrary: i)
  case (Cons x xs)
  then show ?case by (cases i) (auto simp: le_SucI)
qed simp

lemma count_zero_update_less:
  "i < length xs \<Longrightarrow> xs ! i = (0::nat) \<Longrightarrow> v \<noteq> 0 \<Longrightarrow> count_list (xs[i := v]) 0 < count_list xs 0"
proof (induction xs arbitrary: i)
  case (Cons x xs)
  then show ?case by (cases i) auto
qed simp

function dfs :: "('a workflow_task_scheme) list \<Rightarrow> (string, nat) btree_map \<Rightarrow> nat list \<Rightarrow> (nat \<times> nat) list
    \<Rightarrow> dependency_error + nat list" where
  "dfs tasks index mark [] = Inr mark"
| "dfs tasks index mark ((node, nxt) # stack) =
     (if length (deps_at tasks node) \<le> nxt then dfs tasks index (mark[node := 2]) stack
      else
        let dep = deps_at tasks node ! nxt; stack' = (node, Suc nxt) # stack
        in case bt_get index dep of
             None \<Rightarrow> dfs tasks index mark stack'
           | Some child \<Rightarrow>
               if child < length mark \<and> mark ! child = 0
               then dfs tasks index (mark[child := 1]) ((child, 0) # stack')
               else if child < length mark \<and> mark ! child = 1
               then Inl (DependencyCycle (cycle_names tasks stack' child dep))
               else dfs tasks index mark stack')"
  by pat_completeness auto

termination
proof (relation "measures [\<lambda>(tasks, index, mark, stack). count_list mark 0,
                           \<lambda>(tasks, index, mark, stack). todo tasks stack]")
  fix tasks :: "('a workflow_task_scheme) list" and index :: "(string, nat) btree_map"
    and mark :: "nat list" and node nxt stack
  assume "length (deps_at tasks node) \<le> nxt"
  then show "((tasks, index, mark[node := 2], stack), (tasks, index, mark, (node, nxt) # stack))
      \<in> measures [\<lambda>(tasks, index, mark, stack). count_list mark 0,
                  \<lambda>(tasks, index, mark, stack). todo tasks stack]"
    using count_zero_update_le [of 2 mark node] by (auto simp: todo_def)
qed (auto simp: todo_def count_zero_update_less)

declare dfs.simps(2) [simp del]

fun dfs_roots :: "('a workflow_task_scheme) list \<Rightarrow> (string, nat) btree_map \<Rightarrow> nat list \<Rightarrow> nat list
    \<Rightarrow> dependency_error + nat list" where
  "dfs_roots tasks index mark [] = Inr mark"
| "dfs_roots tasks index mark (root # roots) =
     (if mark ! root \<noteq> 0 then dfs_roots tasks index mark roots
      else case dfs tasks index (mark[root := 1]) [(root, 0)] of
          Inl e \<Rightarrow> Inl e
        | Inr mark' \<Rightarrow> dfs_roots tasks index mark' roots)"

definition validate_dependencies :: "('a workflow_task_scheme) list \<Rightarrow> dependency_error + unit" where
  "validate_dependencies tasks =
     (let index = key_index tasks
      in case find_unknown index tasks of
           Some (k, d) \<Rightarrow> Inl (UnknownDependency k d)
         | None \<Rightarrow>
             (case dfs_roots tasks index (replicate (length tasks) 0) [0..<length tasks] of
                Inl e \<Rightarrow> Inl e
              | Inr _ \<Rightarrow> Inr ()))"

section \<open>The graph the search walks\<close>

definition dep_edges :: "('a workflow_task_scheme) list \<Rightarrow> (string, nat) btree_map \<Rightarrow> (nat \<times> nat) set" where
  "dep_edges tasks index =
     {(i, j). i < length tasks \<and> (\<exists>d\<in>set (t_deps (tasks ! i)). bt_get index d = Some j)}"

text \<open>\<open>up\<close> is the node right above on the stack. Dependencies before the cursor lead to finished
  nodes, or to that node.\<close>

definition seen_ok :: "(string, nat) btree_map \<Rightarrow> nat list \<Rightarrow> nat option \<Rightarrow> string list \<Rightarrow> nat \<Rightarrow> bool" where
  "seen_ok index mark up deps nxt \<longleftrightarrow>
     (\<forall>k<nxt. \<forall>j. bt_get index (deps ! k) = Some j \<longrightarrow> mark ! j = 2 \<or> up = Some j)"

fun stack_ok :: "(nat \<times> nat) set \<Rightarrow> ('a workflow_task_scheme) list \<Rightarrow> (string, nat) btree_map \<Rightarrow> nat list
    \<Rightarrow> nat option \<Rightarrow> (nat \<times> nat) list \<Rightarrow> bool" where
  "stack_ok E tasks index mark up [] = True"
| "stack_ok E tasks index mark up ((node, nxt) # stack) =
     (node < length tasks
      \<and> (case up of None \<Rightarrow> True | Some a \<Rightarrow> (node, a) \<in> E)
      \<and> seen_ok index mark up (t_deps (tasks ! node)) nxt
      \<and> stack_ok E tasks index mark (Some node) stack)"

definition gray_ok :: "nat list \<Rightarrow> nat list \<Rightarrow> bool" where
  "gray_ok mark nodes \<longleftrightarrow> distinct nodes \<and> (\<forall>i<length mark. mark ! i \<le> 2 \<and> (mark ! i = 1 \<longleftrightarrow> i \<in> set nodes))"

definition black_ok :: "(nat \<times> nat) set \<Rightarrow> nat list \<Rightarrow> bool" where
  "black_ok E mark \<longleftrightarrow>
     (\<forall>i<length mark. mark ! i = 2 \<longrightarrow> (i, i) \<notin> E\<^sup>+ \<and> (\<forall>j. (i, j) \<in> E \<longrightarrow> mark ! j = 2))"

definition dfs_inv :: "('a workflow_task_scheme) list \<Rightarrow> (string, nat) btree_map \<Rightarrow> nat list \<Rightarrow> (nat \<times> nat) list \<Rightarrow> bool" where
  "dfs_inv tasks index mark stack \<longleftrightarrow>
     length mark = length tasks \<and> gray_ok mark (map fst stack) \<and> black_ok (dep_edges tasks index) mark
     \<and> stack_ok (dep_edges tasks index) tasks index mark None stack"

lemma deps_at_in: "node < length tasks \<Longrightarrow> deps_at tasks node = t_deps (tasks ! node)"
  by (simp add: deps_at_def)

lemma seen_ok_mono:
  assumes "seen_ok index mark up deps nxt" and "\<And>j. mark ! j = 2 \<Longrightarrow> mark' ! j = 2"
    and "\<And>j. up = Some j \<Longrightarrow> up' = Some j \<or> mark' ! j = 2"
  shows "seen_ok index mark' up' deps nxt"
  using assms unfolding seen_ok_def by blast

lemma seen_ok_Suc:
  "seen_ok index mark up deps (Suc nxt) \<longleftrightarrow>
     seen_ok index mark up deps nxt \<and> (\<forall>j. bt_get index (deps ! nxt) = Some j \<longrightarrow> mark ! j = 2 \<or> up = Some j)"
  unfolding seen_ok_def by (auto simp: less_Suc_eq)

lemma stack_ok_mono:
  assumes "stack_ok E tasks index mark up stack" and "\<And>j. mark ! j = 2 \<Longrightarrow> mark' ! j = 2"
  shows "stack_ok E tasks index mark' up stack"
  using assms
proof (induction E tasks index mark up stack rule: stack_ok.induct)
  case (2 E tasks index mark up node nxt stack)
  have "seen_ok index mark up (t_deps (tasks ! node)) nxt" using "2.prems"(1) by simp
  from seen_ok_mono [OF this "2.prems"(2)] have "seen_ok index mark' up (t_deps (tasks ! node)) nxt" by blast
  moreover have "stack_ok E tasks index mark' (Some node) stack"
    by (rule "2.IH" [OF _ "2.prems"(2)]) (use "2.prems"(1) in simp)
  ultimately show ?case using "2.prems"(1) by (simp only: stack_ok.simps simp_thms)
qed simp

lemma stack_ok_pop:
  assumes "stack_ok E tasks index mark (Some n) stack" and "\<And>j. mark ! j = 2 \<Longrightarrow> mark' ! j = 2" and "mark' ! n = 2"
  shows "stack_ok E tasks index mark' None stack"
proof (cases stack)
  case (Cons a st)
  obtain node nxt where a: "a = (node, nxt)" by (cases a)
  have "seen_ok index mark (Some n) (t_deps (tasks ! node)) nxt" "stack_ok E tasks index mark (Some node) st"
    and n: "node < length tasks"
    using assms(1) by (simp_all add: Cons a)
  then have "stack_ok E tasks index mark' (Some node) st" "seen_ok index mark' None (t_deps (tasks ! node)) nxt"
    using stack_ok_mono [OF _ assms(2)] seen_ok_mono [OF _ assms(2)] assms(3) by blast+
  with n show ?thesis by (simp add: Cons a)
qed simp

lemma stack_chain: "stack_ok E tasks index mark up stack \<Longrightarrow> successively (\<lambda>a b. (b, a) \<in> E) (map fst stack)"
proof (induction E tasks index mark up stack rule: stack_ok.induct)
  case (2 E tasks index mark up node nxt stack)
  then show ?case by (cases stack) auto
qed simp

lemma black_reach:
  assumes "(i, j) \<in> E\<^sup>*" and "i < length mark" and "mark ! i = 2" and "black_ok E mark"
    and "\<And>i j. (i, j) \<in> E \<Longrightarrow> j < length mark"
  shows "mark ! j = 2 \<and> j < length mark"
  using assms(1)
proof (induction rule: rtrancl_induct)
  case base
  then show ?case using assms(2,3) by simp
next
  case (step y z)
  then show ?case using assms(4,5) unfolding black_ok_def by blast
qed

lemma gray_ok_finish: "gray_ok mark (node # nodes) \<Longrightarrow> gray_ok (mark[node := 2]) nodes"
proof -
  assume g: "gray_ok mark (node # nodes)"
  have "(mark[node := 2]) ! i \<le> 2 \<and> ((mark[node := 2]) ! i = 1 \<longleftrightarrow> i \<in> set nodes)" if "i < length mark" for i
    using g that by (cases "i = node") (auto simp: gray_ok_def)
  with g show ?thesis by (simp add: gray_ok_def)
qed

lemma gray_ok_push:
  "gray_ok mark nodes \<Longrightarrow> child < length mark \<Longrightarrow> mark ! child = 0 \<Longrightarrow> gray_ok (mark[child := 1]) (child # nodes)"
  by (auto simp: gray_ok_def nth_list_update)

lemma dep_edges_range:
  "(\<And>d j. bt_get index d = Some j \<Longrightarrow> j < length tasks) \<Longrightarrow> (i, j) \<in> dep_edges tasks index \<Longrightarrow> j < length tasks"
  by (auto simp: dep_edges_def)

lemma black_ok_finish:
  assumes black: "black_ok E mark" and kids: "\<And>j. (node, j) \<in> E \<Longrightarrow> mark ! j = 2"
    and node: "node < length mark" "mark ! node \<noteq> 2" and range: "\<And>i j. (i, j) \<in> E \<Longrightarrow> j < length mark"
  shows "black_ok E (mark[node := 2])"
proof -
  have "(node, node) \<notin> E\<^sup>+"
  proof
    assume "(node, node) \<in> E\<^sup>+"
    then obtain w where w: "(node, w) \<in> E" "(w, node) \<in> E\<^sup>*" by (meson tranclD)
    have "mark ! node = 2 \<and> node < length mark"
      by (rule black_reach [OF w(2) range [OF w(1)] kids [OF w(1)] black]) (rule range)
    with node(2) show False by blast
  qed
  moreover have "(mark[node := 2]) ! j = 2" if "mark ! j = 2" for j
    using that node by (cases "j = node") auto
  ultimately have "(i, i) \<notin> E\<^sup>+ \<and> (\<forall>j. (i, j) \<in> E \<longrightarrow> (mark[node := 2]) ! j = 2)"
    if "i < length mark" "(mark[node := 2]) ! i = 2" for i
    using that black kids unfolding black_ok_def by (cases "i = node") auto
  then show ?thesis by (simp add: black_ok_def)
qed

lemma black_ok_fresh:
  assumes black: "black_ok E mark" and c: "c < length mark" "mark ! c = 0"
  shows "black_ok E (mark[c := 1])"
proof (unfold black_ok_def, intro allI impI)
  let ?m = "mark[c := 1]"
  fix i assume i: "i < length ?m" "?m ! i = 2"
  have keep: "?m ! j = 2" if "mark ! j = 2" for j
    using that c by (cases "j = c") auto
  have "mark ! i = 2" "i < length mark" using i c by (auto simp: nth_list_update split: if_splits)
  with black keep show "(i, i) \<notin> E\<^sup>+ \<and> (\<forall>j. (i, j) \<in> E \<longrightarrow> ?m ! j = 2)"
    unfolding black_ok_def by blast
qed

lemma dfs_inv_finish:
  assumes inv: "dfs_inv tasks index mark ((node, nxt) # stack)" and full: "length (deps_at tasks node) \<le> nxt"
    and idx: "\<And>d j. bt_get index d = Some j \<Longrightarrow> j < length tasks"
  shows "dfs_inv tasks index (mark[node := 2]) stack"
proof -
  let ?E = "dep_edges tasks index"
  have len: "length mark = length tasks" and gray: "gray_ok mark (node # map fst stack)"
    and black: "black_ok ?E mark" and n: "node < length tasks"
    and seen: "seen_ok index mark None (t_deps (tasks ! node)) nxt"
    and st: "stack_ok ?E tasks index mark (Some node) stack"
    using inv by (simp_all add: dfs_inv_def)
  have kids: "mark ! j = 2" if edge: "(node, j) \<in> ?E" for j
  proof -
    obtain k where k: "k < length (t_deps (tasks ! node))" "bt_get index (t_deps (tasks ! node) ! k) = Some j"
      using edge by (auto simp: dep_edges_def in_set_conv_nth)
    then have "k < nxt" using full n by (simp add: deps_at_in)
    with seen k(2) show ?thesis by (simp add: seen_ok_def)
  qed
  have one: "mark ! node = 1" using gray n len by (simp add: gray_ok_def)
  have "(mark[node := 2]) ! j = 2" if "mark ! j = 2" for j
    using that one by (cases "j = node") auto
  then have "stack_ok ?E tasks index (mark[node := 2]) None stack"
    by (intro stack_ok_pop [OF st]) (simp_all add: n len)
  moreover have "black_ok ?E (mark[node := 2])"
    by (rule black_ok_finish [OF black kids])
      (use n len one dep_edges_range [OF idx] in auto)
  ultimately show ?thesis using len gray_ok_finish [OF gray] by (simp add: dfs_inv_def)
qed

lemma dfs_inv_advance:
  assumes "dfs_inv tasks index mark ((node, nxt) # stack)" and "nxt < length (deps_at tasks node)"
    and "\<And>j. bt_get index (deps_at tasks node ! nxt) = Some j \<Longrightarrow> mark ! j = 2"
  shows "dfs_inv tasks index mark ((node, Suc nxt) # stack)"
  using assms by (simp add: dfs_inv_def deps_at_in seen_ok_Suc)

lemma dfs_edge:
  assumes "dfs_inv tasks index mark ((node, nxt) # stack)" and "nxt < length (deps_at tasks node)"
    and "bt_get index (deps_at tasks node ! nxt) = Some child"
  shows "(node, child) \<in> dep_edges tasks index"
  using assms by (auto simp: dfs_inv_def dep_edges_def deps_at_in)

lemma dfs_inv_push:
  assumes inv: "dfs_inv tasks index mark ((node, nxt) # stack)" and more: "nxt < length (deps_at tasks node)"
    and child: "bt_get index (deps_at tasks node ! nxt) = Some child" "child < length mark" "mark ! child = 0"
  shows "dfs_inv tasks index (mark[child := 1]) ((child, 0) # (node, Suc nxt) # stack)"
proof -
  let ?E = "dep_edges tasks index" and ?m = "mark[child := 1]"
  have len: "length mark = length tasks" and gray: "gray_ok mark (node # map fst stack)"
    and black: "black_ok ?E mark" and n: "node < length tasks"
    and seen: "seen_ok index mark None (t_deps (tasks ! node)) nxt"
    and st: "stack_ok ?E tasks index mark (Some node) stack"
    using inv by (simp_all add: dfs_inv_def)
  have keep: "?m ! j = 2" if "mark ! j = 2" for j
    using that child by (cases "j = child") auto
  have "seen_ok index ?m (Some child) (t_deps (tasks ! node)) nxt"
    by (rule seen_ok_mono [OF seen keep]) auto
  then have "seen_ok index ?m (Some child) (t_deps (tasks ! node)) (Suc nxt)"
    using child(1) n by (simp add: seen_ok_Suc deps_at_in)
  moreover have "stack_ok ?E tasks index ?m (Some node) stack" using st keep by (rule stack_ok_mono)
  moreover have "black_ok ?E ?m" by (rule black_ok_fresh [OF black child(2,3)])
  ultimately show ?thesis
    using len n child(2) dfs_edge [OF inv more child(1)] gray_ok_push [OF gray child(2,3)]
    by (simp add: dfs_inv_def) (simp add: seen_ok_def)
qed

section \<open>The cycle that is reported\<close>

definition dep_rel :: "('a workflow_task_scheme) list \<Rightarrow> (string \<times> string) set" where
  "dep_rel tasks = {(k, d). \<exists>t\<in>set tasks. t_key t = k \<and> d \<in> set (t_deps t)}"

definition closed_chain :: "('k \<times> 'k) set \<Rightarrow> 'k list \<Rightarrow> bool" where
  "closed_chain R names \<longleftrightarrow> 2 \<le> length names \<and> hd names = last names \<and> successively (\<lambda>a b. (a, b) \<in> R) names"

lemma chain_trancl: "successively (\<lambda>a b. (a, b) \<in> R) names \<Longrightarrow> 2 \<le> length names \<Longrightarrow> (hd names, last names) \<in> R\<^sup>+"
proof (induction "\<lambda>a b. (a, b) \<in> R" names rule: successively.induct)
  case (3 x y xs)
  then show ?case by (cases xs) (auto intro: trancl_into_trancl2)
qed auto

lemma closed_chain_cyclic: "closed_chain R names \<Longrightarrow> \<not> acyclic R"
  using chain_trancl [of R names] by (auto simp: closed_chain_def acyclic_def)

lemma stack_ok_range: "stack_ok E tasks index mark up stack \<Longrightarrow> \<forall>n\<in>fst ` set stack. n < length tasks"
  by (induction E tasks index mark up stack rule: stack_ok.induct) auto

definition index_ok :: "('a workflow_task_scheme) list \<Rightarrow> (string, nat) btree_map \<Rightarrow> bool" where
  "index_ok tasks index \<longleftrightarrow> (\<forall>d j. bt_get index d = Some j \<longrightarrow> j < length tasks \<and> t_key (tasks ! j) = d)"

lemma edge_dep_rel:
  "index_ok tasks index \<Longrightarrow> (i, j) \<in> dep_edges tasks index \<Longrightarrow> (t_key (tasks ! i), t_key (tasks ! j)) \<in> dep_rel tasks"
  unfolding index_ok_def dep_edges_def dep_rel_def by (auto intro: nth_mem)

lemma cycle_names_closed:
  assumes inv: "dfs_inv tasks index mark ((node, nxt) # stack)" and idx: "index_ok tasks index"
    and more: "nxt < length (deps_at tasks node)" and dep: "bt_get index (deps_at tasks node ! nxt) = Some child"
    and gray: "child < length mark" "mark ! child = 1"
  shows "closed_chain (dep_rel tasks) (cycle_names tasks ((node, Suc nxt) # stack) child (deps_at tasks node ! nxt))"
proof -
  let ?E = "dep_edges tasks index" and ?path = "rev (map fst ((node, nxt) # stack))"
  let ?q = "dropWhile (\<lambda>m. m \<noteq> child) ?path" and ?d = "deps_at tasks node ! nxt"
  have st: "stack_ok ?E tasks index mark None ((node, nxt) # stack)" using inv by (simp add: dfs_inv_def)
  have mem: "child \<in> set ?path" using inv gray by (simp add: dfs_inv_def gray_ok_def)
  have split: "?path = takeWhile (\<lambda>m. m \<noteq> child) ?path @ ?q" by (simp only: takeWhile_dropWhile_id)
  have q: "?q \<noteq> []" using mem unfolding dropWhile_eq_Nil_conv by blast
  have hd: "hd ?q = child" using hd_dropWhile [OF q] by blast
  have "last ?path = last ?q" by (rule trans [OF arg_cong [OF split, of last] last_appendR [OF q]])
  then have last: "last ?q = node" by (simp only: list.map rev.simps last_snoc fst_conv)
  have "successively (\<lambda>a b. (a, b) \<in> ?E) ?path"
    unfolding successively_rev by (rule stack_chain [OF st])
  then have "successively (\<lambda>a b. (a, b) \<in> ?E) (takeWhile (\<lambda>m. m \<noteq> child) ?path @ ?q)"
    by (simp only: takeWhile_dropWhile_id)
  then have chain: "successively (\<lambda>a b. (a, b) \<in> ?E) ?q" unfolding successively_append_iff by blast
  have range: "\<forall>m\<in>set ?q. m < length tasks"
    using stack_ok_range [OF st] set_dropWhileD [of _ "\<lambda>m. m \<noteq> child" ?path] by auto
  let ?names = "map (\<lambda>m. t_key (tasks ! m)) ?q"
  have names: "cycle_names tasks ((node, Suc nxt) # stack) child ?d = ?names @ [?d]"
    using range by (simp add: cycle_names_def filter_id_conv)
  have key: "t_key (tasks ! child) = ?d" using idx dep by (simp add: index_ok_def)
  have "successively (\<lambda>a b. (a, b) \<in> dep_rel tasks) ?names"
    unfolding successively_map by (rule successively_mono [OF chain]) (rule edge_dep_rel [OF idx])
  moreover have "(t_key (tasks ! node), ?d) \<in> dep_rel tasks"
    using edge_dep_rel [OF idx dfs_edge [OF inv more dep]] key by simp
  ultimately have "successively (\<lambda>a b. (a, b) \<in> dep_rel tasks) (?names @ [?d])"
    using q last by (simp add: successively_append_iff last_map)
  moreover have "hd (?names @ [?d]) = ?d" using q hd key by (simp add: hd_map hd_append)
  moreover have "2 \<le> length (?names @ [?d])" using q by (cases ?q) auto
  ultimately show ?thesis unfolding names closed_chain_def by simp
qed

section \<open>The search decides acyclicity\<close>

definition dfs_post :: "('a workflow_task_scheme) list \<Rightarrow> (string, nat) btree_map \<Rightarrow> nat list
    \<Rightarrow> dependency_error + nat list \<Rightarrow> bool" where
  "dfs_post tasks index mark r =
     (case r of
        Inl e \<Rightarrow> (\<exists>names. e = DependencyCycle names \<and> closed_chain (dep_rel tasks) names)
      | Inr m \<Rightarrow> dfs_inv tasks index m [] \<and> (\<forall>i<length mark. mark ! i \<noteq> 0 \<longrightarrow> m ! i \<noteq> 0))"

lemma dfs_post_update: "dfs_post tasks index (mark[i := v]) r \<Longrightarrow> v \<noteq> 0 \<Longrightarrow> dfs_post tasks index mark r"
  by (auto simp: dfs_post_def nth_list_update split: sum.splits) (metis nth_list_update_eq nth_list_update_neq)

lemma dfs_correct:
  "dfs_inv tasks index mark stack \<Longrightarrow> index_ok tasks index \<Longrightarrow> dfs_post tasks index mark (dfs tasks index mark stack)"
proof (induction tasks index mark stack rule: dfs.induct)
  case (1 tasks index mark)
  then show ?case by (simp add: dfs_post_def)
next
  case (2 tasks index mark node nxt stack)
  note inv = "2.prems"(1) and idx = "2.prems"(2)
  have range: "j < length tasks" if "bt_get index d = Some j" for d j using idx that by (simp add: index_ok_def)
  show ?case
  proof (cases "length (deps_at tasks node) \<le> nxt")
    case True
    have "dfs_inv tasks index (mark[node := 2]) stack" by (rule dfs_inv_finish [OF inv True]) (rule range)
    from "2.IH"(1) [OF True this idx]
    have "dfs_post tasks index mark (dfs tasks index (mark[node := 2]) stack)" by (rule dfs_post_update) simp
    with True show ?thesis by (simp add: dfs.simps(2))
  next
    case False
    then have more: "nxt < length (deps_at tasks node)" by simp
    note unfold = dfs.simps(2) [of tasks index mark node nxt stack] Let_def if_not_P [OF False]
    let ?d = "deps_at tasks node ! nxt"
    show ?thesis
    proof (cases "bt_get index ?d")
      case None
      then show ?thesis
        using "2.IH"(2) [OF False refl refl None dfs_inv_advance [OF inv more] idx] by (simp add: unfold)
    next
      case (Some child)
      have len: "child < length mark" using range [OF Some] inv by (simp add: dfs_inv_def)
      have "mark ! child \<le> 2" using inv len by (simp add: dfs_inv_def gray_ok_def)
      then consider "mark ! child = 0" | "mark ! child = 1" | "mark ! child = 2" by linarith
      then show ?thesis
      proof cases
        case 1
        have c: "child < length mark \<and> mark ! child = 0" using len 1 by blast
        from "2.IH"(3) [OF False refl refl Some c dfs_inv_push [OF inv more Some len 1] idx]
        have "dfs_post tasks index mark (dfs tasks index (mark[child := 1]) ((child, 0) # (node, Suc nxt) # stack))"
          by (rule dfs_post_update) simp
        with c Some show ?thesis by (simp add: unfold)
      next
        case 2
        with cycle_names_closed [OF inv idx more Some len 2] Some len show ?thesis
          by (simp add: unfold dfs_post_def)
      next
        case 3
        have c: "\<not> (child < length mark \<and> mark ! child = 0)" "\<not> (child < length mark \<and> mark ! child = 1)"
          using 3 by auto
        have "dfs_inv tasks index mark ((node, Suc nxt) # stack)"
          by (rule dfs_inv_advance [OF inv more]) (use 3 Some in simp)
        from "2.IH"(4) [OF False refl refl Some c this idx] 3 Some show ?thesis by (simp add: unfold)
      qed
    qed
  qed
qed

lemma dfs_roots_correct:
  "dfs_inv tasks index mark [] \<Longrightarrow> index_ok tasks index \<Longrightarrow> set roots \<subseteq> {..<length tasks} \<Longrightarrow>
     case dfs_roots tasks index mark roots of
       Inl e \<Rightarrow> \<exists>names. e = DependencyCycle names \<and> closed_chain (dep_rel tasks) names
     | Inr m \<Rightarrow> dfs_inv tasks index m [] \<and> (\<forall>i<length tasks. mark ! i \<noteq> 0 \<or> i \<in> set roots \<longrightarrow> m ! i \<noteq> 0)"
proof (induction roots arbitrary: mark)
  case (Cons root roots)
  show ?case
  proof (cases "mark ! root = 0")
    case False
    with Cons.IH [OF Cons.prems(1,2)] Cons.prems(3) show ?thesis by (auto split: sum.splits)
  next
    case True
    have root: "root < length mark" "length mark = length tasks" using Cons.prems by (auto simp: dfs_inv_def)
    have "gray_ok (mark[root := 1]) [root]"
      using Cons.prems(1) True root by (intro gray_ok_push) (simp_all add: dfs_inv_def)
    moreover have "black_ok (dep_edges tasks index) (mark[root := 1])"
      using Cons.prems(1) True root by (intro black_ok_fresh) (simp_all add: dfs_inv_def)
    ultimately have "dfs_inv tasks index (mark[root := 1]) [(root, 0)]"
      using root by (simp add: dfs_inv_def seen_ok_def)
    note post = dfs_correct [OF this Cons.prems(2)]
    show ?thesis
    proof (cases "dfs tasks index (mark[root := 1]) [(root, 0)]")
      case (Inl e)
      with post True show ?thesis by (simp add: dfs_post_def)
    next
      case (Inr m)
      then have m: "dfs_inv tasks index m []" "\<forall>i<length mark. (mark[root := 1]) ! i \<noteq> 0 \<longrightarrow> m ! i \<noteq> 0"
        using post by (simp_all add: dfs_post_def)
      have keep: "m ! i \<noteq> 0" if "i < length tasks" "mark ! i \<noteq> 0 \<or> i = root" for i
        using m(2) that root by (auto simp: nth_list_update)
      show ?thesis
        using Cons.IH [OF m(1) Cons.prems(2)] Cons.prems(3) keep True Inr by (auto split: sum.splits)
    qed
  qed
qed simp

lemma fold_index:
  fixes zs :: "(nat \<times> 'a workflow_task_scheme) list"
  assumes "bt_get (fold (\<lambda>(p, t) m. bt_insert (t_key t) p m) zs m) d = Some j"
  shows "(\<exists>t. (j, t) \<in> set zs \<and> t_key t = d) \<or> bt_get m d = Some j"
  using assms
proof (induction zs arbitrary: m)
  case (Cons z zs)
  obtain p t where z: "z = (p, t)" by (cases z)
  from Cons.IH [of "bt_insert (t_key t) p m"] Cons.prems
  have "(\<exists>t. (j, t) \<in> set zs \<and> t_key t = d) \<or> bt_get (bt_insert (t_key t) p m) d = Some j" by (simp add: z)
  then show ?case by (cases "d = t_key t") (auto simp: z btree)
qed simp

lemma fold_index_None:
  fixes zs :: "(nat \<times> 'a workflow_task_scheme) list"
  shows "bt_get (fold (\<lambda>(p, t) m. bt_insert (t_key t) p m) zs m) d = None \<longleftrightarrow>
     d \<notin> t_key ` set (map snd zs) \<and> bt_get m d = None"
proof (induction zs arbitrary: m)
  case (Cons z zs)
  obtain p t where z: "z = (p, t)" by (cases z)
  show ?case using Cons [of "bt_insert (t_key t) p m"] by (auto simp: z btree)
qed simp

lemma key_index_ok: "index_ok tasks (key_index tasks)"
  unfolding index_ok_def key_index_def
proof (intro allI impI)
  fix d j assume "bt_get (fold (\<lambda>(p, t) m. bt_insert (t_key t) p m) (zip [0..<length tasks] tasks) []) d = Some j"
  from fold_index [OF this] obtain t where "(j, t) \<in> set (zip [0..<length tasks] tasks)" "t_key t = d"
    by (auto simp: btree)
  then show "j < length tasks \<and> t_key (tasks ! j) = d" by (auto simp: set_zip)
qed

lemma key_index_None: "bt_get (key_index tasks) d = None \<longleftrightarrow> d \<notin> t_key ` set tasks"
  unfolding key_index_def fold_index_None by (simp add: btree)

lemma set_dep_pairs: "set (concat (map (\<lambda>t. map (Pair (t_key t)) (t_deps t)) tasks)) = dep_rel tasks"
  by (force simp: dep_rel_def)

lemma find_unknown_None: "find_unknown (key_index tasks) tasks = None \<longleftrightarrow> Range (dep_rel tasks) \<subseteq> t_key ` set tasks"
  unfolding find_unknown_def find_None_iff set_dep_pairs by (auto simp: key_index_None)

lemma find_unknown_Some:
  assumes "find_unknown (key_index tasks) tasks = Some (k, d)"
  shows "(k, d) \<in> dep_rel tasks \<and> d \<notin> t_key ` set tasks"
proof -
  have "(k, d) \<in> set (concat (map (\<lambda>t. map (Pair (t_key t)) (t_deps t)) tasks))" "bt_get (key_index tasks) d = None"
    using assms unfolding find_unknown_def find_Some_iff by (metis nth_mem, auto)
  then show ?thesis by (simp only: set_dep_pairs key_index_None simp_thms)
qed

text \<open>With distinct keys, a cycle among keys is a cycle among positions.\<close>

lemma dep_rel_trancl:
  assumes known: "Range (dep_rel tasks) \<subseteq> t_key ` set tasks" and dist: "distinct (map t_key tasks)"
    and "(a, b) \<in> (dep_rel tasks)\<^sup>+"
  shows "\<exists>i j. i < length tasks \<and> j < length tasks \<and> t_key (tasks ! i) = a \<and> t_key (tasks ! j) = b
    \<and> (i, j) \<in> (dep_edges tasks (key_index tasks))\<^sup>+"
proof -
  let ?E = "dep_edges tasks (key_index tasks)"
  have edge: "\<exists>i j. i < length tasks \<and> j < length tasks \<and> t_key (tasks ! i) = a \<and> t_key (tasks ! j) = b \<and> (i, j) \<in> ?E"
    if ab: "(a, b) \<in> dep_rel tasks" for a b
  proof -
    obtain i where i: "i < length tasks" "t_key (tasks ! i) = a" "b \<in> set (t_deps (tasks ! i))"
      using ab unfolding dep_rel_def by (auto simp: in_set_conv_nth [of _ tasks])
    have "b \<in> t_key ` set tasks" using ab known by blast
    then obtain j where j: "bt_get (key_index tasks) b = Some j" using key_index_None [of tasks b] by auto
    then have "j < length tasks" "t_key (tasks ! j) = b" using key_index_ok [of tasks] by (auto simp: index_ok_def)
    moreover have "(i, j) \<in> ?E" using i j by (auto simp: dep_edges_def)
    ultimately show ?thesis using i by blast
  qed
  have same: "i = j" if "i < length tasks" "j < length tasks" "t_key (tasks ! i) = t_key (tasks ! j)" for i j
    using dist that by (simp add: distinct_conv_nth) blast
  show ?thesis using assms(3)
  proof (induction rule: trancl_induct)
    case (base y)
    then show ?case using edge by blast
  next
    case (step y z)
    then show ?case using edge [OF step.hyps(2)] same by (metis trancl.trancl_into_trancl)
  qed
qed

definition validation_spec :: "('a workflow_task_scheme) list \<Rightarrow> dependency_error + unit \<Rightarrow> bool" where
  "validation_spec tasks r =
     (case r of
        Inr _ \<Rightarrow> Range (dep_rel tasks) \<subseteq> t_key ` set tasks \<and> acyclic (dep_rel tasks)
      | Inl (UnknownDependency k d) \<Rightarrow> (k, d) \<in> dep_rel tasks \<and> d \<notin> t_key ` set tasks
      | Inl (DependencyCycle names) \<Rightarrow> closed_chain (dep_rel tasks) names \<and> \<not> acyclic (dep_rel tasks))"

lemma validate_dependencies_spec:
  assumes "distinct (map t_key tasks)"
  shows "validation_spec tasks (validate_dependencies tasks)"
proof (cases "find_unknown (key_index tasks) tasks")
  case (Some kd)
  obtain k d where "kd = (k, d)" by (cases kd)
  with Some find_unknown_Some [of tasks k d] show ?thesis by (simp add: validate_dependencies_def validation_spec_def)
next
  case None
  let ?i = "key_index tasks"
  have known: "Range (dep_rel tasks) \<subseteq> t_key ` set tasks" using None by (simp only: find_unknown_None)
  have "dfs_inv tasks ?i (replicate (length tasks) 0) []"
    by (simp add: dfs_inv_def gray_ok_def black_ok_def)
  moreover have "set [0..<length tasks] \<subseteq> {..<length tasks}" by auto
  ultimately have roots: "case dfs_roots tasks ?i (replicate (length tasks) 0) [0..<length tasks] of
      Inl e \<Rightarrow> \<exists>names. e = DependencyCycle names \<and> closed_chain (dep_rel tasks) names
    | Inr m \<Rightarrow> dfs_inv tasks ?i m [] \<and> (\<forall>i<length tasks. replicate (length tasks) 0 ! i \<noteq> (0::nat) \<or> i \<in> set [0..<length tasks] \<longrightarrow> m ! i \<noteq> 0)"
    by (rule dfs_roots_correct [OF _ key_index_ok])
  show ?thesis
  proof (cases "dfs_roots tasks ?i (replicate (length tasks) 0) [0..<length tasks]")
    case (Inl e)
    then obtain names where "e = DependencyCycle names" "closed_chain (dep_rel tasks) names"
      using roots by auto
    with None Inl closed_chain_cyclic show ?thesis by (simp add: validate_dependencies_def validation_spec_def)
  next
    case (Inr m)
    then have m: "dfs_inv tasks ?i m []" "\<forall>i<length tasks. m ! i \<noteq> 0" using roots by auto
    have black: "m ! i = 2" if "i < length tasks" for i
    proof -
      have "m ! i \<le> 2" "m ! i \<noteq> 1" using m(1) that by (simp_all add: dfs_inv_def gray_ok_def)
      with m(2) that show ?thesis by (metis One_nat_def Suc_1 le_SucE le_zero_eq)
    qed
    have no_loop: "(i, i) \<notin> (dep_edges tasks ?i)\<^sup>+" if "i < length tasks" for i
      using m(1) black [OF that] that unfolding dfs_inv_def black_ok_def by metis
    have "acyclic (dep_rel tasks)"
    proof (rule acyclicI, rule allI, rule notI)
      fix k assume "(k, k) \<in> (dep_rel tasks)\<^sup>+"
      then obtain i j where "i < length tasks" "j < length tasks" "t_key (tasks ! i) = k" "t_key (tasks ! j) = k"
        "(i, j) \<in> (dep_edges tasks ?i)\<^sup>+"
        using dep_rel_trancl [OF known assms] by blast
      moreover have "i = j" using assms calculation(1-4) nth_eq_iff_index_eq [of "map t_key tasks" i j] by simp
      ultimately show False using no_loop by blast
    qed
    with known None Inr show ?thesis by (simp add: validate_dependencies_def validation_spec_def)
  qed
qed

text \<open>C25. Dependency validation decides the plan's graph: for tasks with distinct keys the iterative
  depth-first search always ends; it accepts exactly when every dependency names a task and the
  dependency relation is acyclic. A rejection for an unknown dependency names a task and a
  dependency of it that is no task; a rejection for a cycle names a real cycle: a chain of
  dependencies from a key back to itself.\<close>

theorem validate_dependencies_correct:
  assumes "distinct (map t_key tasks)"
  shows "case validate_dependencies tasks of
      Inr _ \<Rightarrow> Range (dep_rel tasks) \<subseteq> t_key ` set tasks \<and> acyclic (dep_rel tasks)
    | Inl (UnknownDependency k d) \<Rightarrow> (k, d) \<in> dep_rel tasks \<and> d \<notin> t_key ` set tasks
    | Inl (DependencyCycle names) \<Rightarrow> closed_chain (dep_rel tasks) names \<and> \<not> acyclic (dep_rel tasks)"
  using validate_dependencies_spec [OF assms] unfolding validation_spec_def .

definition diamond :: "workflow_task list" where
  "diamond = [\<lparr>t_key = ''c'', t_deps = [''a'', ''b''], t_scopes = [''z'']\<rparr>, \<lparr>t_key = ''a'', t_deps = [], t_scopes = [''x'']\<rparr>,
     \<lparr>t_key = ''b'', t_deps = [''a''], t_scopes = [''y'']\<rparr>]"

lemma diamond_valid: "validate_dependencies diamond = Inr ()"
  by (simp add: validate_dependencies_def diamond_def key_index_def find_unknown_def bt_get_def deps_at_def
      dfs.simps(2) upt_rec numeral_eq_Suc)

theorem validate_dependencies_correct_witness:
  "validate_dependencies diamond = Inr () \<and> acyclic (dep_rel diamond)"
  using validate_dependencies_correct [of diamond] diamond_valid by (simp add: diamond_def)

end
