(* ===== verification/Workflow.thy ===== *)
theory Workflow
  imports Scopes Dependencies
begin

text \<open>
  The waves of \<open>crates/susi-harness/src/workflow.rs\<close>: \<open>next_wave\<close> chooses the tasks that may prepare at
  the same time, \<open>WorkflowSchedule::build\<close> partitions a whole plan, and the records of the native
  coordinator (claims, verification slots, the integration head) are parsed from the text of their
  files. Reading the directory is left to the caller: a file's text is an argument, and \<open>None\<close> where
  the file cannot be read. A \<open>BTreeSet\<close> of keys is a set.
\<close>

datatype workflow_error =
    BadScope scope_error
  | TaskScope string scope_error
  | BadDependencies dependency_error

record 'a workflow_wave =
  w_index :: nat
  w_tasks :: "'a list"

record 'a workflow_schedule =
  s_waves :: "'a workflow_wave list"
  s_blocked :: "'a list"

fun wave_loop :: "string set \<Rightarrow> string list \<Rightarrow> nat \<Rightarrow> string list \<Rightarrow> ('a workflow_task_scheme) list
    \<Rightarrow> ('a workflow_task_scheme) list \<Rightarrow> workflow_error + ('a workflow_task_scheme) list" where
  "wave_loop completed external limit reserved wave [] = Inr wave"
| "wave_loop completed external limit reserved wave (task # pending) =
     (if limit \<le> length wave then Inr wave
      else if \<not> list_all (\<lambda>dep. dep \<in> completed) (t_deps task)
      then wave_loop completed external limit reserved wave pending
      else case normalize_all (t_scopes task) of
          Inl error \<Rightarrow> Inl (TaskScope (t_key task) error)
        | Inr scopes \<Rightarrow>
            if \<not> disjoint_scopes scopes external \<or> \<not> disjoint_scopes scopes reserved
            then wave_loop completed external limit reserved wave pending
            else wave_loop completed external limit (reserved @ scopes) (wave @ [task]) pending)"

definition next_wave :: "('a workflow_task_scheme) list \<Rightarrow> string set \<Rightarrow> string list \<Rightarrow> nat
    \<Rightarrow> workflow_error + ('a workflow_task_scheme) list" where
  "next_wave pending completed active_claimed_scopes max_parallel =
     (case normalize_all active_claimed_scopes of
        Inl e \<Rightarrow> Inl (BadScope e)
      | Inr external \<Rightarrow> wave_loop completed external (max max_parallel 1) [] [] pending)"

lemma wave_loop_prefix: "wave_loop completed external limit reserved wave pending = Inr w \<Longrightarrow> prefix wave w"
proof (induction completed external limit reserved wave pending rule: wave_loop.induct)
  case (2 completed external limit reserved wave task pending)
  then show ?case
    by (auto split: if_splits sum.splits intro: prefix_order.trans [of wave "wave @ [task]" w])
qed simp

lemma wave_loop_mem:
  "wave_loop completed external limit reserved wave pending = Inr w \<Longrightarrow> t \<in> set w \<Longrightarrow>
     t \<in> set wave \<or> (t \<in> set pending \<and> set (t_deps t) \<subseteq> completed
       \<and> (\<exists>s. normalize_all (t_scopes t) = Inr s \<and> disjoint_scopes s external))"
proof (induction completed external limit reserved wave pending rule: wave_loop.induct)
  case (2 completed external limit reserved wave task pending)
  then show ?case by (fastforce simp: list_all_iff split: if_splits sum.splits)
qed simp

lemma next_wave_mem:
  assumes "next_wave pending completed claims mx = Inr w" and "t \<in> set w"
  shows "t \<in> set pending \<and> set (t_deps t) \<subseteq> completed
    \<and> (\<exists>s c. normalize_all (t_scopes t) = Inr s \<and> normalize_all claims = Inr c \<and> disjoint_scopes s c)"
  using assms wave_loop_mem [of completed _ "max mx 1" "[]" "[]" pending w t]
  by (auto simp: next_wave_def split: sum.splits)

lemma admitted_shrinks:
  assumes "next_wave pending completed claims mx = Inr wave" and "wave \<noteq> []"
  shows "length (filter (\<lambda>t. t_key t \<notin> t_key ` set wave) pending) < length pending"
proof -
  obtain t where "t \<in> set wave" using assms(2) by (cases wave) auto
  then show ?thesis using next_wave_mem [OF assms(1)] by (intro length_filter_less [of t]) auto
qed

function schedule_loop :: "string list \<Rightarrow> nat \<Rightarrow> string set \<Rightarrow> ('a workflow_task_scheme) list
    \<Rightarrow> ('a workflow_task_scheme) workflow_wave list
    \<Rightarrow> workflow_error + ('a workflow_task_scheme) workflow_schedule" where
  "schedule_loop claims mx completed pending waves =
     (if pending = [] then Inr \<lparr>s_waves = waves, s_blocked = pending\<rparr>
      else case next_wave pending completed claims mx of
          Inl e \<Rightarrow> Inl e
        | Inr wave \<Rightarrow>
            if wave = [] then Inr \<lparr>s_waves = waves, s_blocked = pending\<rparr>
            else
              let admitted = t_key ` set wave
              in schedule_loop claims mx (completed \<union> admitted)
                   (filter (\<lambda>t. t_key t \<notin> admitted) pending)
                   (waves @ [\<lparr>w_index = length waves, w_tasks = wave\<rparr>]))"
  by pat_completeness auto

termination
  by (relation "measure (\<lambda>(claims, mx, completed, pending, waves). length pending)")
    (auto dest: admitted_shrinks)

declare schedule_loop.simps [simp del]

definition build :: "('a workflow_task_scheme) list \<Rightarrow> string set \<Rightarrow> string list \<Rightarrow> nat
    \<Rightarrow> workflow_error + ('a workflow_task_scheme) workflow_schedule" where
  "build tasks completed active_claimed_scopes max_parallel =
     (case validate_dependencies tasks of
        Inl e \<Rightarrow> Inl (BadDependencies e)
      | Inr _ \<Rightarrow>
          schedule_loop active_claimed_scopes max_parallel completed
            (filter (\<lambda>t. t_key t \<notin> completed) tasks) [])"

section \<open>A wave is a batch of disjoint scopes\<close>

definition task_reserved :: "('a workflow_task_scheme) \<Rightarrow> string list" where
  "task_reserved t = (case normalize_all (t_scopes t) of Inl _ \<Rightarrow> [] | Inr s \<Rightarrow> s)"

definition wave_pick :: "string set \<Rightarrow> string list \<Rightarrow> nat \<Rightarrow> ('a workflow_task_scheme) list
    \<Rightarrow> ('a workflow_task_scheme) list \<Rightarrow> ('a workflow_task_scheme) list" where
  "wave_pick completed external n taken xs =
     (case wave_loop completed external (n + length taken) (concat (map task_reserved taken)) taken xs of
        Inl _ \<Rightarrow> []
      | Inr w \<Rightarrow> drop (length taken) w)"

lemma disjoint_scopes_concat: "disjoint_scopes s (concat (map f xs)) \<longleftrightarrow> list_all (\<lambda>x. disjoint_scopes s (f x)) xs"
  by (induction xs) auto

lemma wave_pick_Cons:
  "wave_pick completed external n taken (x # xs) = [] \<or> wave_pick completed external n taken (x # xs) = wave_pick completed external n taken xs
   \<or> (0 < n \<and> list_all (\<lambda>y. disjoint_scopes (task_reserved x) (task_reserved y)) taken
      \<and> wave_pick completed external n taken (x # xs) = x # wave_pick completed external (n - 1) (taken @ [x]) xs)"
proof (cases "n = 0 \<or> \<not> list_all (\<lambda>dep. dep \<in> completed) (t_deps x)")
  case True
  then show ?thesis by (auto simp: wave_pick_def)
next
  case False
  let ?res = "concat (map task_reserved taken)" and ?l = "n + length taken"
  show ?thesis
  proof (cases "normalize_all (t_scopes x)")
    case (Inl e)
    with False show ?thesis by (simp add: wave_pick_def)
  next
    case (Inr s)
    then have s: "task_reserved x = s" by (simp add: task_reserved_def)
    show ?thesis
    proof (cases "disjoint_scopes s external \<and> disjoint_scopes s ?res")
      case d: False
      with False Inr show ?thesis by (auto simp: wave_pick_def)
    next
      case d: True
      let ?r = "wave_loop completed external ?l (?res @ s) (taken @ [x]) xs"
      have step: "wave_loop completed external ?l ?res taken (x # xs) = ?r"
        using False Inr d by simp
      have "wave_pick completed external (n - 1) (taken @ [x]) xs =
          (case ?r of Inl _ \<Rightarrow> [] | Inr w \<Rightarrow> drop (Suc (length taken)) w)"
        using False by (cases ?r) (simp_all add: wave_pick_def s)
      moreover have "drop (length taken) w = x # drop (Suc (length taken)) w" if "?r = Inr w" for w
        using wave_loop_prefix [OF that] by (auto simp: prefix_def)
      moreover have "wave_pick completed external n taken (x # xs) = (case ?r of Inl _ \<Rightarrow> [] | Inr w \<Rightarrow> drop (length taken) w)"
        by (simp only: wave_pick_def step)
      ultimately show ?thesis
        using False d by (cases ?r) (auto simp: s disjoint_scopes_concat)
    qed
  qed
qed

interpretation wave: batch_selection disjoint_scopes task_reserved "wave_pick completed external"
  for completed external
  by unfold_locales (rule disjoint_scopes_sym, simp add: wave_pick_def, rule wave_pick_Cons)

lemma next_wave_pick:
  "next_wave pending completed claims mx = Inr w \<Longrightarrow> \<exists>c. normalize_all claims = Inr c \<and> w = wave_pick completed c (max mx 1) [] pending"
  by (auto simp: next_wave_def wave_pick_def split: sum.splits)

definition wave_ok :: "string set \<Rightarrow> string list \<Rightarrow> nat \<Rightarrow> ('a workflow_task_scheme) list \<Rightarrow> bool" where
  "wave_ok completed claims mx w \<longleftrightarrow>
     length w \<le> max mx 1 \<and> list_all (\<lambda>t. set (t_deps t) \<subseteq> completed) w
     \<and> list_all (\<lambda>t. task_scopes_disjoint (t_scopes t) claims) w
     \<and> sorted_wrt (\<lambda>a b. task_scopes_disjoint (t_scopes a) (t_scopes b)) w"

lemma next_wave_ok:
  assumes nw: "next_wave pending completed claims mx = Inr w"
  shows "subseq w pending \<and> wave_ok completed claims mx w"
proof -
  obtain c where c: "normalize_all claims = Inr c" and w: "w = wave_pick completed c (max mx 1) [] pending"
    using next_wave_pick [OF nw] by blast
  have norm: "normalize_all (t_scopes t) = Inr (task_reserved t)" if "t \<in> set w" for t
    using next_wave_mem [OF nw that] by (auto simp: task_reserved_def)
  have "list_all (\<lambda>t. set (t_deps t) \<subseteq> completed) w" using next_wave_mem [OF nw] by (auto simp: list_all_iff)
  moreover have "list_all (\<lambda>t. task_scopes_disjoint (t_scopes t) claims) w"
    using next_wave_mem [OF nw] by (fastforce simp: list_all_iff task_scopes_disjoint_def)
  moreover have "sorted_wrt (\<lambda>a b. disjoint_scopes (task_reserved a) (task_reserved b)) w"
    unfolding w by (rule wave.pick_pairwise_free)
  then have "sorted_wrt (\<lambda>a b. task_scopes_disjoint (t_scopes a) (t_scopes b)) w"
    by (rule sorted_wrt_mono_rel [rotated]) (simp add: task_scopes_disjoint_def norm)
  moreover have "subseq w pending" "length w \<le> max mx 1"
    unfolding w by (rule wave.pick_subseq, rule wave.pick_length)
  ultimately show ?thesis unfolding wave_ok_def by blast
qed

text \<open>A task that is left behind when nothing is admitted is held by a dependency or by a claim.\<close>

lemma wave_loop_stuck:
  "wave_loop completed external limit [] [] pending = Inr [] \<Longrightarrow> 0 < limit \<Longrightarrow> t \<in> set pending \<Longrightarrow>
     \<not> set (t_deps t) \<subseteq> completed \<or> (\<exists>s. normalize_all (t_scopes t) = Inr s \<and> \<not> disjoint_scopes s external)"
proof (induction pending)
  case (Cons x pending)
  have "\<not> prefix [x] []" by simp
  with Cons show ?case
    by (auto simp: list_all_iff split: if_splits sum.splits dest: wave_loop_prefix)
qed simp

lemma next_wave_stuck:
  assumes "next_wave pending completed claims mx = Inr []" and "t \<in> set pending"
  shows "\<not> set (t_deps t) \<subseteq> completed \<or> shared_path (t_scopes t) claims"
proof -
  obtain c where c: "normalize_all claims = Inr c" "wave_loop completed c (max mx 1) [] [] pending = Inr []"
    using assms(1) by (auto simp: next_wave_def split: sum.splits)
  have "0 < max mx (1::nat)" by simp
  from wave_loop_stuck [OF c(2) this assms(2)] disjoint_scopes_shared [OF _ c(1)] show ?thesis by blast
qed

text \<open>A wave is safe to start: it takes pending tasks in plan order, at most \<open>max_parallel\<close> of them
  (one at least is allowed), all their dependencies have landed, no two of them reserve a common
  path, and none reserves a path of a live claim. When a wave is empty, every pending task waits
  for a dependency that has not landed or collides with a claim.\<close>

theorem next_wave_safe:
  assumes "next_wave pending completed claims mx = Inr w"
  shows "subseq w pending \<and> wave_ok completed claims mx w
    \<and> (w \<noteq> [] \<or> list_all (\<lambda>t. \<not> set (t_deps t) \<subseteq> completed \<or> shared_path (t_scopes t) claims) pending)"
  using next_wave_ok [OF assms] next_wave_stuck [of pending completed claims mx] assms
  by (auto simp: list_all_iff)

lemma normalize_letter:
  assumes "is_ascii_lower c"
  shows "normalize_scope [c] = Inr [c]"
proof -
  have g: "is_ascii_graphic c" using assms by (simp add: is_ascii_lower_def is_ascii_graphic_def)
  have "\<not> is_ascii_upper c" using assms by (simp add: is_ascii_lower_def is_ascii_upper_def)
  moreover have "c \<noteq> slash" "c \<noteq> backslash" "c \<noteq> CHR ''.''"
    using assms by (auto simp: is_ascii_lower_def slash_def backslash_def)
  ultimately have "canonical_scope [c]"
    by (simp add: canonical_scope_def split_on_plain canonical_part_def to_ascii_lowercase_def to_ascii_lower_char_def)
  moreover have "trim [c] = [c]" by (rule trim_graphic) (simp add: g)
  ultimately show ?thesis by (rule normalize_canonical) simp
qed

lemma normalize_xyz: "normalize_scope ''x'' = Inr ''x''" "normalize_scope ''y'' = Inr ''y''" "normalize_scope ''z'' = Inr ''z''"
  by (rule normalize_letter; simp add: is_ascii_lower_def)+

theorem next_wave_safe_witness:
  "next_wave diamond {} [''y''] 2 = Inr [diamond ! 1] \<and> wave_ok {} [''y''] 2 [diamond ! 1]"
proof -
  have w: "next_wave diamond {} [''y''] 2 = Inr [diamond ! 1]"
    by (simp add: next_wave_def diamond_def normalize_xyz disjoint_scopes_def scopes_overlap_def
        strip_prefix_def starts_with_slash_def)
  show ?thesis using w next_wave_safe [OF w] by blast
qed

section \<open>Schedules\<close>

text \<open>\<open>waves_ok\<close>: each wave is safe given what landed before it. \<open>landed\<close> are the keys of a list of
  waves.\<close>

fun waves_ok :: "string list \<Rightarrow> nat \<Rightarrow> string set \<Rightarrow> ('a workflow_task_scheme) list list \<Rightarrow> bool" where
  "waves_ok claims mx completed [] = True"
| "waves_ok claims mx completed (w # ws) =
     (w \<noteq> [] \<and> wave_ok completed claims mx w \<and> waves_ok claims mx (completed \<union> t_key ` set w) ws)"

definition landed :: "('a workflow_task_scheme) list list \<Rightarrow> string set" where
  "landed ws = t_key ` set (concat ws)"

definition schedule_post :: "string list \<Rightarrow> nat \<Rightarrow> string set \<Rightarrow> ('a workflow_task_scheme) list
    \<Rightarrow> ('a workflow_task_scheme) list list \<Rightarrow> ('a workflow_task_scheme) list \<Rightarrow> bool" where
  "schedule_post claims mx completed pending ws blocked \<longleftrightarrow>
     waves_ok claims mx completed ws
     \<and> mset (concat ws) + mset blocked = mset pending
     \<and> list_all (\<lambda>t. \<not> set (t_deps t) \<subseteq> completed \<union> landed ws \<or> shared_path (t_scopes t) claims) blocked"

lemma subseq_set: "subseq xs ys \<Longrightarrow> set xs \<subseteq> set ys"
  by (induction xs ys rule: list_emb.induct) auto

lemma subseq_distinct_filter:
  assumes "subseq w pending" and "distinct (map t_key pending)"
  shows "mset w + mset (filter (\<lambda>t. t_key t \<notin> t_key ` set w) pending) = mset pending"
proof -
  have inj: "inj_on t_key (set pending)" and dist: "distinct pending" using assms(2) by (auto simp: distinct_map)
  have sub: "set w \<subseteq> set pending" by (rule subseq_set [OF assms(1)])
  have "filter (\<lambda>t. t_key t \<notin> t_key ` set w) pending = filter (\<lambda>t. t \<notin> set w) pending"
    using inj sub by (intro filter_cong) (auto simp: inj_on_def)
  moreover have "distinct w" using assms(1) dist by (rule subseq_distinct)
  then have "mset w = mset (filter (\<lambda>t. t \<in> set w) pending)"
    using dist sub by (intro set_eq_iff_mset_eq_distinct [THEN iffD1]) auto
  ultimately show ?thesis by (simp only: mset_filter) (simp add: multiset_partition [symmetric] add.commute)
qed

lemma schedule_loop_post:
  "schedule_loop claims mx completed pending waves = Inr s \<Longrightarrow> distinct (map t_key pending) \<Longrightarrow>
     \<exists>ws. map w_tasks (s_waves s) = map w_tasks waves @ ws \<and> schedule_post claims mx completed pending ws (s_blocked s)"
proof (induction claims mx completed pending waves rule: schedule_loop.induct)
  case (1 claims mx completed pending waves)
  note unfold = schedule_loop.simps [of claims mx completed pending waves]
  show ?case
  proof (cases "pending = []")
    case True
    with "1.prems"(1) have "s = \<lparr>s_waves = waves, s_blocked = []\<rparr>" by (simp add: schedule_loop.simps)
    with True show ?thesis by (simp add: schedule_post_def)
  next
    case ne: False
    then obtain wave where w: "next_wave pending completed claims mx = Inr wave"
      using "1.prems" by (auto simp: unfold split: sum.splits)
    note ok = next_wave_ok [OF w]
    show ?thesis
    proof (cases "wave = []")
      case True
      with "1.prems"(1) ne w have "s = \<lparr>s_waves = waves, s_blocked = pending\<rparr>" by (simp add: unfold)
      with True w next_wave_stuck [of pending completed claims mx] show ?thesis
        by (simp add: schedule_post_def landed_def list_all_iff)
    next
      case False
      let ?a = "t_key ` set wave"
      let ?p = "filter (\<lambda>t. t_key t \<notin> ?a) pending"
      have "schedule_loop claims mx (completed \<union> ?a) ?p (waves @ [\<lparr>w_index = length waves, w_tasks = wave\<rparr>]) = Inr s"
        using "1.prems"(1) ne w False by (simp add: unfold Let_def)
      from "1.IH" [OF ne w False refl this distinct_map_filter [OF "1.prems"(2)]]
      obtain ws where ws: "map w_tasks (s_waves s) = map w_tasks waves @ wave # ws"
        "schedule_post claims mx (completed \<union> ?a) ?p ws (s_blocked s)" by auto
      have "mset wave + mset ?p = mset pending" using ok "1.prems"(2) by (intro subseq_distinct_filter) auto
      with ws(2) have "mset wave + (mset (concat ws) + mset (s_blocked s)) = mset pending"
        unfolding schedule_post_def by metis
      moreover have "completed \<union> ?a \<union> landed ws = completed \<union> landed (wave # ws)" by (auto simp: landed_def)
      ultimately have "schedule_post claims mx completed pending (wave # ws) (s_blocked s)"
        using ok ws(2) False unfolding schedule_post_def by (simp add: add.assoc)
      with ws(1) show ?thesis by blast
    qed
  qed
qed

text \<open>A plan whose graph was validated cannot be stuck on dependencies alone: some waiting task has
  all its dependencies landed.\<close>

lemma acyclic_ready:
  assumes acyclic: "acyclic (dep_rel tasks)" and known: "Range (dep_rel tasks) \<subseteq> t_key ` set tasks"
    and wait: "W \<subseteq> set tasks" "W \<noteq> {}" and rest: "\<And>t. t \<in> set tasks \<Longrightarrow> t \<notin> W \<Longrightarrow> t_key t \<in> D"
  shows "\<exists>t\<in>W. set (t_deps t) \<subseteq> D"
proof (rule ccontr)
  assume none: "\<not> ?thesis"
  have "finite (dep_rel tasks)"
  proof (rule finite_subset)
    show "dep_rel tasks \<subseteq> t_key ` set tasks \<times> (\<Union>t\<in>set tasks. set (t_deps t))" by (auto simp: dep_rel_def)
  qed simp
  then have "wf ((dep_rel tasks)\<inverse>)" using acyclic by (rule finite_acyclic_wf_converse)
  moreover obtain k where "k \<in> t_key ` W" using wait(2) by blast
  ultimately obtain z where z: "z \<in> t_key ` W" "\<And>y. (y, z) \<in> (dep_rel tasks)\<inverse> \<Longrightarrow> y \<notin> t_key ` W"
    by (rule wfE_min) blast
  then obtain t where t: "t \<in> W" "t_key t = z" by blast
  then obtain d where d: "d \<in> set (t_deps t)" "d \<notin> D" using none by blast
  have rel: "(z, d) \<in> dep_rel tasks" using t d wait(1) by (auto simp: dep_rel_def)
  then obtain u where "u \<in> set tasks" "t_key u = d" using known by blast
  with rest d(2) have "d \<in> t_key ` W" by blast
  with z(2) [of d] rel show False by blast
qed

lemma build_loop:
  assumes "build tasks completed claims mx = Inr s" and "distinct (map t_key tasks)"
  shows "\<exists>ws. map w_tasks (s_waves s) = ws
    \<and> schedule_post claims mx completed (filter (\<lambda>t. t_key t \<notin> completed) tasks) ws (s_blocked s)"
proof -
  have "schedule_loop claims mx completed (filter (\<lambda>t. t_key t \<notin> completed) tasks) [] = Inr s"
    using assms(1) by (auto simp: build_def split: sum.splits)
  from schedule_loop_post [OF this distinct_map_filter [OF assms(2)]] show ?thesis by simp
qed

text \<open>A schedule is a partition of the plan in a safe order: every task that is not completed is in
  exactly one wave or is blocked, each wave is safe given what the waves before it landed, and every
  blocked task waits for a dependency that never lands or reserves a path of a live claim.\<close>

theorem build_partitions_plan:
  assumes "build tasks completed claims mx = Inr s" and "distinct (map t_key tasks)"
  shows "schedule_post claims mx completed (filter (\<lambda>t. t_key t \<notin> completed) tasks)
    (map w_tasks (s_waves s)) (s_blocked s)"
  using build_loop [OF assms] by blast

text \<open>No task is lost: when no claim holds a scope, a validated plan is scheduled completely. The
  loop ends with no blocked task, so every task that was not completed is in a wave.\<close>

theorem build_schedules_everything:
  assumes "build tasks completed [] mx = Inr s" and "distinct (map t_key tasks)"
  shows "s_blocked s = [] \<and> mset (concat (map w_tasks (s_waves s))) = mset (filter (\<lambda>t. t_key t \<notin> completed) tasks)"
proof -
  let ?pend = "filter (\<lambda>t. t_key t \<notin> completed) tasks" and ?ws = "map w_tasks (s_waves s)"
  have post: "schedule_post [] mx completed ?pend ?ws (s_blocked s)" using build_loop [OF assms] by blast
  have parts: "mset (concat ?ws) + mset (s_blocked s) = mset ?pend"
    and held: "\<And>t. t \<in> set (s_blocked s) \<Longrightarrow>
      \<not> set (t_deps t) \<subseteq> completed \<union> landed ?ws"
    using post by (auto simp: schedule_post_def list_all_iff shared_path_def)
  have sets: "set (concat ?ws) \<union> set (s_blocked s) = set ?pend"
    using arg_cong [OF parts, of set_mset] by simp
  have "s_blocked s = []"
  proof (rule ccontr)
    assume "s_blocked s \<noteq> []"
    moreover have "validate_dependencies tasks = Inr ()" using assms(1) by (auto simp: build_def split: sum.splits)
    then have "acyclic (dep_rel tasks)" "Range (dep_rel tasks) \<subseteq> t_key ` set tasks"
      using validate_dependencies_spec [OF assms(2)] by (auto simp: validation_spec_def)
    moreover have "t_key t \<in> completed \<union> landed ?ws" if "t \<in> set tasks" "t \<notin> set (s_blocked s)" for t
    proof (cases "t_key t \<in> completed")
      case False
      then have "t \<in> set (concat ?ws)" using that sets by auto
      then show ?thesis unfolding landed_def by blast
    qed simp
    moreover have "set (s_blocked s) \<subseteq> set tasks" using sets by auto
    ultimately obtain t where t: "t \<in> set (s_blocked s)" "set (t_deps t) \<subseteq> completed \<union> landed ?ws"
      using acyclic_ready [of tasks "set (s_blocked s)" "completed \<union> landed ?ws"] by auto
    with held show False by blast
  qed
  with parts show ?thesis by simp
qed

lemma build_diamond: "build diamond {} [] 2 = Inr \<lparr>s_waves = [\<lparr>w_index = 0, w_tasks = [diamond ! 1]\<rparr>,
    \<lparr>w_index = 1, w_tasks = [diamond ! 2]\<rparr>, \<lparr>w_index = 2, w_tasks = [diamond ! 0]\<rparr>], s_blocked = []\<rparr>"
  by (simp add: build_def diamond_valid)
    (simp add: diamond_def schedule_loop.simps next_wave_def normalize_xyz disjoint_scopes_def)

theorem build_partitions_plan_witness:
  "waves_ok [] 2 {} [[diamond ! 1], [diamond ! 2], [diamond ! 0]]"
  using build_partitions_plan [OF build_diamond] by (simp add: schedule_post_def diamond_def)

theorem build_schedules_everything_witness:
  "mset (concat [[diamond ! 1], [diamond ! 2], [diamond ! 0]]) = mset diamond"
  using build_schedules_everything [OF build_diamond] by (simp add: diamond_def)

end
