(* ===== verification/Control.thy ===== *)
theory Control
  imports Claims Money Ordered_Map
begin

text \<open>
  \<open>crates/susi-harness/src/control.rs\<close> and the commands of \<open>api.rs\<close>: what an operator may ask, how a command
  is checked, answered and logged, and the standing intent the supervisor reads back from the log.
  \<open>serde_json\<close> is the pair of parameters \<open>enc\<close> and \<open>dec\<close>; the log is its text, \<open>None\<close> where it cannot be
  read as UTF-8 or is missing. The clock is an argument.
\<close>

record mission_spec =
  ms_id :: string
  ms_title :: string
  ms_roadmap :: "string option"

datatype control_command =
    StartMission mission_spec
  | Pause string
  | Resume string
  | Abort string
  | Redirect string u8
  | TopUp string micro_usd
  | Decide string string

datatype command_error =
    FieldRequired string
  | IdTooLong
  | IdCharacters
  | PriorityRange
  | AmountZero

definition require_field :: "string \<Rightarrow> string \<Rightarrow> command_error + unit" where
  "require_field v field = (if trim v = [] then Inl (FieldRequired field) else Inr ())"

definition mission_spec_validate :: "mission_spec \<Rightarrow> command_error + unit" where
  "mission_spec_validate spec =
     (if trim (ms_id spec) = [] then Inl (FieldRequired ''mission id'')
      else if 64 < length (ms_id spec) then Inl IdTooLong
      else if \<not> list_all (\<lambda>c. is_ascii_alphanumeric c \<or> c \<in> {CHR ''-'', CHR ''_'', CHR ''.''}) (ms_id spec) then Inl IdCharacters
      else if trim (ms_title spec) = [] then Inl (FieldRequired ''mission title'')
      else Inr ())"

definition mission_id :: "control_command \<Rightarrow> string option" where
  "mission_id command =
     (case command of
        StartMission spec \<Rightarrow> Some (ms_id spec)
      | Pause i \<Rightarrow> Some i
      | Resume i \<Rightarrow> Some i
      | Abort i \<Rightarrow> Some i
      | Redirect i _ \<Rightarrow> Some i
      | TopUp _ _ \<Rightarrow> None
      | Decide _ _ \<Rightarrow> None)"

definition command_validate :: "control_command \<Rightarrow> command_error + unit" where
  "command_validate command =
     (case command of
        StartMission spec \<Rightarrow> mission_spec_validate spec
      | Pause i \<Rightarrow> require_field i ''mission_id''
      | Resume i \<Rightarrow> require_field i ''mission_id''
      | Abort i \<Rightarrow> require_field i ''mission_id''
      | Redirect i priority \<Rightarrow>
          (case require_field i ''mission_id'' of
             Inl e \<Rightarrow> Inl e
           | Inr _ \<Rightarrow> if 9 < priority then Inl PriorityRange else Inr ())
      | TopUp provider amount \<Rightarrow>
          (case require_field provider ''provider'' of
             Inl e \<Rightarrow> Inl e
           | Inr _ \<Rightarrow> if is_zero amount then Inl AmountZero else Inr ())
      | Decide decision_id choice \<Rightarrow>
          (case require_field decision_id ''decision_id'' of
             Inl e \<Rightarrow> Inl e
           | Inr _ \<Rightarrow> require_field choice ''choice''))"

record control_record =
  cr_at :: u64
  cr_command :: control_command
  cr_accepted :: bool
  cr_message :: string

definition command_message :: "command_error \<Rightarrow> string" where
  "command_message e =
     (case e of
        FieldRequired field \<Rightarrow> field @ '' is required''
      | IdTooLong \<Rightarrow> ''mission id must be at most 64 characters''
      | IdCharacters \<Rightarrow> ''mission id may contain only ASCII letters, digits, '' @ [CHR 0x27, CHR ''-'', CHR 0x27] @ '', ''
          @ [CHR 0x27, CHR ''_'', CHR 0x27] @ '' and '' @ [CHR 0x27, CHR ''.'', CHR 0x27]
      | PriorityRange \<Rightarrow> ''priority must be 0-9''
      | AmountZero \<Rightarrow> ''top-up amount must be positive'')"

text \<open>\<open>Display\<close> of \<open>EaiError::config\<close> is the function \<open>display\<close>.\<close>

definition answer :: "(string \<Rightarrow> string) \<Rightarrow> u64 \<Rightarrow> control_command \<Rightarrow> control_record" where
  "answer display now command =
     (case command_validate command of
        Inr _ \<Rightarrow> \<lparr>cr_at = now, cr_command = command, cr_accepted = True, cr_message = ''accepted''\<rparr>
      | Inl e \<Rightarrow> \<lparr>cr_at = now, cr_command = command, cr_accepted = False, cr_message = display (command_message e)\<rparr>)"

definition append_record :: "(control_record \<Rightarrow> string) \<Rightarrow> string \<Rightarrow> control_record \<Rightarrow> string" where
  "append_record enc log record = log @ enc record @ [newline_char]"

definition read_records :: "(string \<Rightarrow> control_record option) \<Rightarrow> string option \<Rightarrow> control_record list" where
  "read_records dec log =
     (case log of
        None \<Rightarrow> []
      | Some txt \<Rightarrow> List.map_filter dec (filter (\<lambda>line. trim line \<noteq> []) (str_lines txt)))"

record control_state =
  cs_paused :: bool
  cs_aborted :: bool
  cs_priority :: "u8 option"
  cs_topups :: "(string, micro_usd) btree_map"
  cs_decisions :: "(string, string) btree_map"

definition control_default :: control_state where
  "control_default = \<lparr>cs_paused = False, cs_aborted = False, cs_priority = None, cs_topups = [], cs_decisions = []\<rparr>"

definition apply_command :: "control_command \<Rightarrow> control_state \<Rightarrow> control_state" where
  "apply_command command s =
     (case command of
        Pause _ \<Rightarrow> s\<lparr>cs_paused := True\<rparr>
      | Resume _ \<Rightarrow> s\<lparr>cs_paused := False\<rparr>
      | Abort _ \<Rightarrow> s\<lparr>cs_aborted := True, cs_paused := False\<rparr>
      | Redirect _ priority \<Rightarrow> s\<lparr>cs_priority := Some priority\<rparr>
      | TopUp provider amount \<Rightarrow>
          s\<lparr>cs_topups := bt_upsert provider usd_zero (\<lambda>slot. usd_saturating_add slot amount) (cs_topups s)\<rparr>
      | Decide decision_id choice \<Rightarrow> s\<lparr>cs_decisions := bt_insert decision_id choice (cs_decisions s)\<rparr>
      | StartMission _ \<Rightarrow> s)"

definition from_records :: "control_record list \<Rightarrow> control_state" where
  "from_records records = fold apply_command (map cr_command (filter cr_accepted records)) control_default"

definition control_load :: "(string \<Rightarrow> control_record option) \<Rightarrow> string option \<Rightarrow> control_state" where
  "control_load dec log = from_records (read_records dec log)"

definition blocks_new_work :: "control_state \<Rightarrow> bool" where
  "blocks_new_work s \<longleftrightarrow> cs_paused s \<or> cs_aborted s"

record control_ack =
  ack_accepted :: bool
  ack_message :: string

definition submit :: "(string \<Rightarrow> string) \<Rightarrow> (control_record \<Rightarrow> string) \<Rightarrow> u64 \<Rightarrow> string \<Rightarrow> control_command
    \<Rightarrow> control_ack \<times> string" where
  "submit display enc now log command =
     (let record = answer display now command
      in (\<lparr>ack_accepted = cr_accepted record, ack_message = cr_message record\<rparr>, append_record enc log record))"

section \<open>The standing intent\<close>

definition is_abort :: "control_command \<Rightarrow> bool" where
  "is_abort c = (case c of Abort _ \<Rightarrow> True | _ \<Rightarrow> False)"

definition is_pause :: "control_command \<Rightarrow> bool" where
  "is_pause c = (case c of Pause _ \<Rightarrow> True | _ \<Rightarrow> False)"

definition is_run_order :: "control_command \<Rightarrow> bool" where
  "is_run_order c = (case c of Pause _ \<Rightarrow> True | Resume _ \<Rightarrow> True | Abort _ \<Rightarrow> True | _ \<Rightarrow> False)"

definition topup_of :: "string \<Rightarrow> control_command \<Rightarrow> nat" where
  "topup_of p c = (case c of TopUp q amount \<Rightarrow> if q = p then usd amount else 0 | _ \<Rightarrow> 0)"

text \<open>The same command for another mission.\<close>

definition retarget :: "(string \<Rightarrow> string) \<Rightarrow> control_command \<Rightarrow> control_command" where
  "retarget f c =
     (case c of
        Pause i \<Rightarrow> Pause (f i)
      | Resume i \<Rightarrow> Resume (f i)
      | Abort i \<Rightarrow> Abort (f i)
      | Redirect i priority \<Rightarrow> Redirect (f i) priority
      | _ \<Rightarrow> c)"

definition topped_up :: "control_state \<Rightarrow> string \<Rightarrow> nat" where
  "topped_up s p = (case bt_get (cs_topups s) p of None \<Rightarrow> 0 | Some amount \<Rightarrow> usd amount)"

lemma apply_retarget: "apply_command (retarget f c) s = apply_command c s"
  by (cases c) (simp_all add: apply_command_def retarget_def)

lemma fold_retarget: "fold apply_command (map (retarget f) cs) s = fold apply_command cs s"
  by (induction cs arbitrary: s) (simp_all add: apply_retarget)

lemma fold_aborted: "cs_aborted (fold apply_command cs control_default) \<longleftrightarrow> list_ex is_abort cs"
proof (induction cs rule: rev_induct)
  case (snoc c cs)
  then show ?case by (cases c) (auto simp: apply_command_def is_abort_def)
qed (simp add: control_default_def)

lemma fold_paused:
  "cs_paused (fold apply_command cs control_default) \<longleftrightarrow>
     (case rev (filter is_run_order cs) of [] \<Rightarrow> False | c # _ \<Rightarrow> is_pause c)"
proof (induction cs rule: rev_induct)
  case (snoc c cs)
  then show ?case by (cases c) (auto simp: apply_command_def is_run_order_def is_pause_def)
qed (simp add: control_default_def)

lemma fold_topped_up:
  "topped_up (fold apply_command cs control_default) p = min (\<Sum>c\<leftarrow>cs. topup_of p c) (2 ^ 64 - 1)"
proof (induction cs rule: rev_induct)
  case Nil
  then show ?case by (simp add: topped_up_def control_default_def bt_get_def)
next
  case (snoc c cs)
  let ?s = "fold apply_command cs control_default"
  have other: "topped_up (apply_command c ?s) p = topped_up ?s p + topup_of p c \<or> (\<exists>q a. c = TopUp q a)"
    by (cases c) (simp_all add: apply_command_def topped_up_def topup_of_def)
  show ?case
  proof (cases "\<exists>q a. c = TopUp q a")
    case True
    then obtain q a where c: "c = TopUp q a" by blast
    have "topped_up (apply_command c ?s) p = (if q = p then min (topped_up ?s p + usd a) (2 ^ 64 - 1) else topped_up ?s p)"
      by (auto simp: c apply_command_def topped_up_def bt_get_upsert money split: option.splits)
    then show ?thesis using snoc by (auto simp: c topup_of_def)
  next
    case False
    then have "topup_of p c = 0" by (cases c) (auto simp: topup_of_def)
    then show ?thesis using snoc other False by simp
  qed
qed

text \<open>What the supervisor obeys: the mission is aborted once any abort was accepted and never again
  resumes; it is paused exactly when the last accepted pause, resume or abort is a pause; a provider's
  top-ups add up, saturating. Refused commands change nothing, and the mission a command names plays no
  part: sent to any other mission, the log means the same.\<close>

theorem control_standing_intent:
  "let st = from_records rs; cs = map cr_command (filter cr_accepted rs)
   in (cs_aborted st \<longleftrightarrow> list_ex is_abort cs)
      \<and> (cs_paused st \<longleftrightarrow> (case rev (filter is_run_order cs) of [] \<Rightarrow> False | c # _ \<Rightarrow> is_pause c))
      \<and> topped_up st p = min (\<Sum>c\<leftarrow>cs. topup_of p c) (2 ^ 64 - 1)
      \<and> st = from_records (map (cr_command_update (retarget f)) rs)"
proof -
  have "map cr_command (filter cr_accepted (map (cr_command_update (retarget f)) rs)) =
      map (retarget f) (map cr_command (filter cr_accepted rs))"
    by (induction rs) auto
  then show ?thesis
    by (simp only: Let_def from_records_def fold_aborted fold_paused fold_topped_up fold_retarget simp_thms)
qed

end
