(* ===== verification/Supervisor.thy ===== *)
theory Supervisor
  imports Workflow Control
begin

text \<open>
  \<open>crates/susi-harness/src/supervisor.rs\<close>: a plan, its validation, and the supervisor's loop over the waves
  of \<open>workflow::next_wave\<close>. The executor is a trait; \<open>sup_world\<close> holds what it and the file system answer:
  \<open>w_prepare\<close> per task, \<open>w_land\<close> per prepared task, the \<open>n\<close>-th answer of \<open>budget_exhausted\<close>, the standing
  operator intent at the \<open>n\<close>-th turn of the loop (\<open>None\<close> without a control log) and whether the \<open>n\<close>-th write
  of the state file succeeds. The state file is \<open>sp_saved\<close>: it is what a later run starts from, also
  when this run ends in an error. A panic of \<open>prepare\<close> on its own thread is an error of that task; a
  wave of one task prepares on the supervisor's thread, where the panic ends the run.
\<close>

record plan_task = workflow_task +
  pt_title :: string
  pt_accept :: string
  pt_model :: "string option"
  pt_task :: "string option"
  pt_prompt :: string

record plan =
  pl_mission :: string
  pl_tasks :: "plan_task list"

datatype plan_error =
    MissionRequired
  | NoTasks
  | KeyRequired
  | NoTitle string
  | NoAcceptance string
  | NoPrompt string
  | NoScopes string
  | PlanScope string scope_error
  | KeyTwice string
  | PlanDependencies dependency_error

fun validate_tasks :: "string set \<Rightarrow> plan_task list \<Rightarrow> plan_error + unit" where
  "validate_tasks keys [] = Inr ()"
| "validate_tasks keys (task # tasks) =
     (if trim (t_key task) = [] then Inl KeyRequired
      else if trim (pt_title task) = [] then Inl (NoTitle (t_key task))
      else if trim (pt_accept task) = [] then Inl (NoAcceptance (t_key task))
      else if trim (pt_prompt task) = [] then Inl (NoPrompt (t_key task))
      else if t_scopes task = [] then Inl (NoScopes (t_key task))
      else case normalize_all (t_scopes task) of
          Inl e \<Rightarrow> Inl (PlanScope (t_key task) e)
        | Inr _ \<Rightarrow>
            if t_key task \<in> keys then Inl (KeyTwice (t_key task))
            else validate_tasks (insert (t_key task) keys) tasks)"

definition plan_validate :: "plan \<Rightarrow> plan_error + unit" where
  "plan_validate p =
     (if trim (pl_mission p) = [] then Inl MissionRequired
      else if pl_tasks p = [] then Inl NoTasks
      else case validate_tasks {} (pl_tasks p) of
          Inl e \<Rightarrow> Inl e
        | Inr _ \<Rightarrow>
            (case validate_dependencies (pl_tasks p) of Inl e \<Rightarrow> Inl (PlanDependencies e) | Inr _ \<Rightarrow> Inr ()))"

datatype task_status = DoneStatus string | FailedStatus string

record state_record =
  st_status :: string
  st_task :: "string option"
  st_reason :: "string option"

type_synonym sup_records = "(string, state_record) btree_map"

record supervisor_report =
  sr_mission :: string
  sr_done :: "string list"
  sr_failed :: "(string \<times> string) list"
  sr_skipped :: "string list"
  sr_unstarted :: "string list"
  sr_budget_exhausted :: bool
  sr_paused :: bool
  sr_aborted :: bool

datatype 'p prepare_result = Prepared 'p | PrepareError string | PreparePanic

record 'p sup_world =
  w_prepare :: "plan_task \<Rightarrow> 'p prepare_result"
  w_land :: "'p \<Rightarrow> string + task_status"
  w_exhausted :: "nat \<Rightarrow> bool"
  w_controls :: "nat \<Rightarrow> control_state option"
  w_saves :: "nat \<Rightarrow> bool"

record sup =
  sp_records :: sup_records
  sp_saved :: sup_records
  sp_writes :: nat
  sp_polls :: nat
  sp_done :: "string list"
  sp_failed :: "(string \<times> string) list"
  sp_completed :: "string set"
  sp_failed_keys :: "string set"
  sp_unstarted :: "string list"
  sp_exhausted :: bool

datatype sup_end =
    Report supervisor_report
  | StateError
  | WaveError workflow_error
  | DependencyError dependency_error
  | Panicked

definition stored_record :: "task_status \<Rightarrow> state_record" where
  "stored_record status =
     (case status of
        DoneStatus i \<Rightarrow> \<lparr>st_status = ''done'', st_task = Some i, st_reason = None\<rparr>
      | FailedStatus r \<Rightarrow> \<lparr>st_status = ''failed'', st_task = None, st_reason = Some r\<rparr>)"

text \<open>\<open>record\<close>: \<open>Inl\<close> when the state file cannot be written.\<close>

definition record_status :: "'p sup_world \<Rightarrow> sup \<Rightarrow> plan_task \<Rightarrow> task_status \<Rightarrow> sup + sup" where
  "record_status w s task status =
     (let s1 = s\<lparr>sp_records := bt_insert (t_key task) (stored_record status) (sp_records s), sp_writes := Suc (sp_writes s)\<rparr>
      in if \<not> w_saves w (sp_writes s) then Inl s1
         else
           let s2 = s1\<lparr>sp_saved := sp_records s1\<rparr>
           in Inr (case status of
                DoneStatus _ \<Rightarrow> s2\<lparr>sp_done := sp_done s2 @ [t_key task]\<rparr>
              | FailedStatus r \<Rightarrow> s2\<lparr>sp_failed := sp_failed s2 @ [(t_key task, r)]\<rparr>))"

text \<open>The first remaining task with a failed dependency, and that dependency.\<close>

fun find_blocked :: "string set \<Rightarrow> plan_task list \<Rightarrow> (nat \<times> string) option" where
  "find_blocked failed [] = None"
| "find_blocked failed (task # tasks) =
     (case List.find (\<lambda>d. d \<in> failed) (t_deps task) of
        Some dep \<Rightarrow> Some (0, dep)
      | None \<Rightarrow> map_option (\<lambda>(i, d). (Suc i, d)) (find_blocked failed tasks))"

lemma find_blocked_bound: "find_blocked failed tasks = Some (i, d) \<Longrightarrow> i < length tasks"
  by (induction tasks arbitrary: i) (auto split: option.splits)

definition remove_at :: "nat \<Rightarrow> 'a list \<Rightarrow> 'a list" where
  "remove_at i xs = take i xs @ drop (Suc i) xs"

lemma length_remove_at: "i < length xs \<Longrightarrow> length (remove_at i xs) < length xs"
  by (auto simp: remove_at_def)

function fail_dependents :: "'p sup_world \<Rightarrow> sup \<Rightarrow> plan_task list \<Rightarrow> sup + sup \<times> plan_task list" where
  "fail_dependents w s remaining =
     (case find_blocked (sp_failed_keys s) remaining of
        None \<Rightarrow> Inr (s, remaining)
      | Some (position, dep) \<Rightarrow>
          let task = remaining ! position;
              status = FailedStatus (''dependency '' @ dep @ '' did not complete'')
          in case record_status w s task status of
               Inl s' \<Rightarrow> Inl s'
             | Inr s' \<Rightarrow>
                 fail_dependents w (s'\<lparr>sp_failed_keys := insert (t_key task) (sp_failed_keys s')\<rparr>)
                   (remove_at position remaining))"
  by pat_completeness auto
termination
  by (relation "measure (\<lambda>(w, s, remaining). length remaining)")
    (auto dest!: find_blocked_bound [OF sym] intro: length_remove_at intro!: length_remove_at dest: find_blocked_bound)

declare fail_dependents.simps [simp del]

definition prepare_batch :: "'p sup_world \<Rightarrow> plan_task list \<Rightarrow> (plan_task \<times> 'p prepare_result) list option" where
  "prepare_batch w batch =
     (case batch of
        [task] \<Rightarrow>
          (case w_prepare w task of
             PreparePanic \<Rightarrow> None
           | r \<Rightarrow> Some [(task, r)])
      | _ \<Rightarrow>
          Some (map (\<lambda>task. (task, case w_prepare w task of
                                     PreparePanic \<Rightarrow> PrepareError ''prepare thread panicked''
                                   | r \<Rightarrow> r)) batch))"

definition landing :: "'p sup_world \<Rightarrow> 'p prepare_result \<Rightarrow> task_status" where
  "landing w result =
     (case result of
        Prepared p \<Rightarrow> (case w_land w p of Inr status \<Rightarrow> status | Inl e \<Rightarrow> FailedStatus e)
      | PrepareError e \<Rightarrow> FailedStatus e
      | PreparePanic \<Rightarrow> FailedStatus ''prepare thread panicked'')"

definition has_landed :: "task_status \<Rightarrow> bool" where
  "has_landed status = (case status of DoneStatus _ \<Rightarrow> True | FailedStatus _ \<Rightarrow> False)"

definition land_one :: "'p sup_world \<Rightarrow> sup \<Rightarrow> plan_task \<Rightarrow> task_status \<Rightarrow> sup + sup" where
  "land_one w s task status =
     (if sp_exhausted s then
        if has_landed status then
          (case record_status w s task status of
             Inl s' \<Rightarrow> Inl s'
           | Inr s' \<Rightarrow> Inr (s'\<lparr>sp_completed := insert (t_key task) (sp_completed s')\<rparr>))
        else Inr (s\<lparr>sp_unstarted := sp_unstarted s @ [t_key task]\<rparr>)
      else
        let stop = w_exhausted w (sp_polls s)
        in case record_status w (s\<lparr>sp_polls := Suc (sp_polls s)\<rparr>) task status of
             Inl s' \<Rightarrow> Inl s'
           | Inr s' \<Rightarrow>
               Inr ((if has_landed status then s'\<lparr>sp_completed := insert (t_key task) (sp_completed s')\<rparr>
                     else s'\<lparr>sp_failed_keys := insert (t_key task) (sp_failed_keys s')\<rparr>)
                    \<lparr>sp_exhausted := stop\<rparr>))"

fun land_wave :: "'p sup_world \<Rightarrow> sup \<Rightarrow> (plan_task \<times> 'p prepare_result) list \<Rightarrow> sup + sup" where
  "land_wave w s [] = Inr s"
| "land_wave w s ((task, result) # rest) =
     (case land_one w s task (landing w result) of
        Inl s' \<Rightarrow> Inl s'
      | Inr s' \<Rightarrow> land_wave w s' rest)"

definition leave :: "sup \<Rightarrow> plan_task list \<Rightarrow> sup" where
  "leave s remaining = s\<lparr>sp_unstarted := sp_unstarted s @ map t_key remaining\<rparr>"

datatype loop_end = Stopped bool bool | LoopState | LoopWave workflow_error | LoopPanic

lemma fail_dependents_length: "fail_dependents w s remaining = Inr (s', remaining') \<Longrightarrow> length remaining' \<le> length remaining"
proof (induction w s remaining rule: fail_dependents.induct)
  case (1 w s remaining)
  show ?case
  proof (cases "find_blocked (sp_failed_keys s) remaining")
    case None
    then show ?thesis using 1(2) by (simp add: fail_dependents.simps)
  next
    case (Some b)
    obtain i d where b: "b = (i, d)" by fastforce
    let ?st = "FailedStatus (''dependency '' @ d @ '' did not complete'')"
    obtain s1 where s1: "record_status w s (remaining ! i) ?st = Inr s1"
      using 1(2) Some b by (cases "record_status w s (remaining ! i) ?st") (simp_all add: fail_dependents.simps Let_def)
    then have "length remaining' \<le> length (remove_at i remaining)"
      using 1(1) [OF Some b [symmetric] refl refl s1] 1(2) Some b by (simp add: fail_dependents.simps Let_def)
    moreover have "length (remove_at i remaining) < length remaining"
      using length_remove_at find_blocked_bound Some b by blast
    ultimately show ?thesis by linarith
  qed
qed

function sup_loop :: "'p sup_world \<Rightarrow> nat \<Rightarrow> nat \<Rightarrow> sup \<Rightarrow> plan_task list \<Rightarrow> sup \<times> loop_end" where
  "sup_loop w mx turn s remaining0 =
     (case fail_dependents w s remaining0 of
        Inl s' \<Rightarrow> (s', LoopState)
      | Inr (s1, remaining) \<Rightarrow>
          if remaining = [] then (s1, Stopped False False)
          else
            let controls = (case w_controls w turn of None \<Rightarrow> control_default | Some c \<Rightarrow> c)
            in if blocks_new_work controls then (leave s1 remaining, Stopped (cs_paused controls) (cs_aborted controls))
               else case next_wave remaining (sp_completed s1) [] mx of
                   Inl e \<Rightarrow> (s1, LoopWave e)
                 | Inr wave \<Rightarrow>
                     if wave = [] then (leave s1 remaining, Stopped False False)
                     else
                       let rest = filter (\<lambda>t. t_key t \<notin> t_key ` set wave) remaining
                       in case prepare_batch w wave of
                            None \<Rightarrow> (s1, LoopPanic)
                          | Some results \<Rightarrow>
                              (case land_wave w s1 results of
                                 Inl s' \<Rightarrow> (s', LoopState)
                               | Inr s2 \<Rightarrow>
                                   if sp_exhausted s2 then (leave s2 rest, Stopped False False)
                                   else sup_loop w mx (Suc turn) s2 rest))"
  by pat_completeness auto
termination
  by (relation "measure (\<lambda>(w, mx, turn, s, remaining). length remaining)")
    (auto dest!: fail_dependents_length admitted_shrinks)

declare sup_loop.simps [simp del]

definition is_finished :: "sup_records \<Rightarrow> string \<Rightarrow> bool" where
  "is_finished records k = (case bt_get records k of None \<Rightarrow> False | Some r \<Rightarrow> st_status r = ''done'')"

definition sup_start :: "sup_records \<Rightarrow> string list \<Rightarrow> sup" where
  "sup_start records skipped = \<lparr>sp_records = records, sp_saved = records, sp_writes = 0, sp_polls = 0, sp_done = [],
     sp_failed = [], sp_completed = set skipped, sp_failed_keys = {}, sp_unstarted = [], sp_exhausted = False\<rparr>"

definition finish :: "plan \<Rightarrow> string list \<Rightarrow> sup \<Rightarrow> loop_end \<Rightarrow> sup_end" where
  "finish p skipped s e =
     (case e of
        LoopState \<Rightarrow> StateError
      | LoopWave err \<Rightarrow> WaveError err
      | LoopPanic \<Rightarrow> Panicked
      | Stopped paused aborted \<Rightarrow>
          Report \<lparr>sr_mission = pl_mission p, sr_done = sp_done s, sr_failed = sp_failed s, sr_skipped = skipped,
            sr_unstarted = sp_unstarted s, sr_budget_exhausted = sp_exhausted s, sr_paused = paused,
            sr_aborted = aborted\<rparr>)"

text \<open>\<open>Supervisor::run\<close>. \<open>file\<close> is the state file: \<open>None\<close> when it cannot be read or parsed, empty when there is
  none. The result comes with the records the file holds afterwards.\<close>

definition supervise :: "'p sup_world \<Rightarrow> nat \<Rightarrow> plan \<Rightarrow> sup_records option \<Rightarrow> sup_end \<times> sup_records option" where
  "supervise w max_parallel p file =
     (case validate_dependencies (pl_tasks p) of
        Inl e \<Rightarrow> (DependencyError e, file)
      | Inr _ \<Rightarrow>
          (case file of
             None \<Rightarrow> (StateError, file)
           | Some records \<Rightarrow>
               let skipped = map t_key (filter (\<lambda>t. is_finished records (t_key t)) (pl_tasks p));
                   remaining = filter (\<lambda>t. \<not> is_finished records (t_key t)) (pl_tasks p);
                   (s, e) = sup_loop w (max max_parallel 1) 0 (sup_start records skipped) remaining
               in (finish p skipped s e, Some (sp_saved s))))"

end
