(* ===== verification/Supervisor_Inv.thy ===== *)
theory Supervisor_Inv
  imports Supervisor
begin

text \<open>
  What a run of the supervisor guarantees: every task of the plan ends in exactly one list of the
  report, tasks land only after their dependencies, and the state file a run leaves behind, however the
  run ends, makes the next run skip exactly what landed.
\<close>

definition done_keys :: "sup_records \<Rightarrow> string set" where
  "done_keys records = {k. is_finished records k}"

definition did_land :: "'p sup_world \<Rightarrow> plan_task \<Rightarrow> bool" where
  "did_land w t \<longleftrightarrow> (case w_prepare w t of Prepared p \<Rightarrow> (case w_land w p of Inr (DoneStatus _) \<Rightarrow> True | _ \<Rightarrow> False) | _ \<Rightarrow> False)"

text \<open>A key may land at a position: it names a task of the plan that the executor landed and whose
  dependencies landed before.\<close>

definition lands_after :: "'p sup_world \<Rightarrow> plan_task list \<Rightarrow> string set \<Rightarrow> string \<Rightarrow> bool" where
  "lands_after w ts before k \<longleftrightarrow> list_ex (\<lambda>t. t_key t = k \<and> did_land w t \<and> set (t_deps t) \<subseteq> before) ts"

definition landing_order :: "'p sup_world \<Rightarrow> plan_task list \<Rightarrow> string list \<Rightarrow> string list \<Rightarrow> bool" where
  "landing_order w ts skipped ks \<longleftrightarrow>
     list_all (\<lambda>i. lands_after w ts (set skipped \<union> set (take i ks)) (ks ! i)) [0..<length ks]"

text \<open>\<open>pend\<close>: the tasks not accounted for yet, those of the current wave included.\<close>

definition sup_inv :: "'p sup_world \<Rightarrow> plan_task list \<Rightarrow> sup_records \<Rightarrow> string list \<Rightarrow> sup \<Rightarrow> plan_task list \<Rightarrow> bool" where
  "sup_inv w ts records skipped s pend \<longleftrightarrow>
     mset (skipped @ sp_done s @ map fst (sp_failed s) @ sp_unstarted s @ map t_key pend) = mset (map t_key ts)
     \<and> set pend \<subseteq> set ts \<and> sp_completed s = set skipped \<union> set (sp_done s)
     \<and> sp_saved s = sp_records s \<and> done_keys (sp_records s) = done_keys records \<union> set (sp_done s)
     \<and> landing_order w ts skipped (sp_done s)"

lemma done_keys_insert:
  "done_keys (bt_insert k v m) = (if st_status v = ''done'' then insert k (done_keys m) else done_keys m - {k})"
  by (auto simp: done_keys_def is_finished_def bt_get_insert split: option.splits if_splits)

lemma landing_order_snoc:
  assumes "landing_order w ts skipped ks" and "lands_after w ts (set skipped \<union> set ks) k"
  shows "landing_order w ts skipped (ks @ [k])"
  using assms by (auto simp: landing_order_def list_all_iff nth_append less_Suc_eq)

lemma record_status_Inr:
  "record_status w s t status = Inr s' \<longleftrightarrow>
     w_saves w (sp_writes s)
     \<and> s' = s\<lparr>sp_records := bt_insert (t_key t) (stored_record status) (sp_records s),
              sp_saved := bt_insert (t_key t) (stored_record status) (sp_records s),
              sp_writes := Suc (sp_writes s),
              sp_done := (case status of DoneStatus _ \<Rightarrow> sp_done s @ [t_key t] | FailedStatus _ \<Rightarrow> sp_done s),
              sp_failed := (case status of DoneStatus _ \<Rightarrow> sp_failed s | FailedStatus r \<Rightarrow> sp_failed s @ [(t_key t, r)])\<rparr>"
  by (cases status) (auto simp: record_status_def Let_def)

lemma record_status_Inl:
  "record_status w s t status = Inl s' \<Longrightarrow> sp_saved s' = sp_saved s"
  by (auto simp: record_status_def Let_def split: if_splits)

text \<open>A pending task is not finished yet and is named only once.\<close>

lemma sup_inv_fresh:
  assumes inv: "sup_inv w ts records skipped s pend" and dist: "distinct (map t_key ts)"
    and skipped: "set skipped = t_key ` set ts \<inter> done_keys records" and t: "t \<in> set pend"
  shows "t_key t \<notin> done_keys records" "t_key t \<notin> set (sp_done s)"
proof -
  have "mset (skipped @ sp_done s @ map fst (sp_failed s) @ sp_unstarted s @ map t_key pend) = mset (map t_key ts)"
    using inv by (simp add: sup_inv_def)
  then have "distinct (skipped @ sp_done s @ map fst (sp_failed s) @ sp_unstarted s @ map t_key pend)"
    using dist mset_eq_imp_distinct_iff by blast
  then have "t_key t \<notin> set skipped" and d: "t_key t \<notin> set (sp_done s)" using t by auto
  moreover have "t_key t \<in> t_key ` set ts" using inv t by (auto simp: sup_inv_def)
  ultimately show "t_key t \<notin> done_keys records" "t_key t \<notin> set (sp_done s)" using skipped by auto
qed

lemma inv_failed:
  assumes inv: "sup_inv w ts records skipped s pend" and dist: "distinct (map t_key ts)"
    and skipped: "set skipped = t_key ` set ts \<inter> done_keys records" and pend: "mset pend = add_mset t (mset pend')"
    and s': "record_status w s t (FailedStatus r) = Inr s'"
  shows "sup_inv w ts records skipped s' pend'"
proof -
  have t: "t \<in> set pend" using pend by (metis set_mset_mset union_single_eq_member)
  have sub: "set pend' \<subseteq> set pend" using pend by (metis set_mset_add_mset_insert set_mset_mset subset_insertI)
  have keys: "mset (map t_key pend) = add_mset (t_key t) (mset (map t_key pend'))"
    using pend by (metis image_mset_add_mset mset_map)
  show ?thesis
    using inv sup_inv_fresh [OF inv dist skipped t] s' sub keys
    by (auto simp: sup_inv_def record_status_Inr done_keys_insert stored_record_def)
qed

lemma inv_done:
  assumes inv: "sup_inv w ts records skipped s pend" and pend: "mset pend = add_mset t (mset pend')"
    and s': "record_status w s t (DoneStatus i) = Inr s'" and land: "did_land w t" and deps: "set (t_deps t) \<subseteq> sp_completed s"
  shows "sup_inv w ts records skipped (s'\<lparr>sp_completed := insert (t_key t) (sp_completed s')\<rparr>) pend'"
proof -
  have t: "t \<in> set pend" using pend by (metis set_mset_mset union_single_eq_member)
  have sub: "set pend' \<subseteq> set pend" using pend by (metis set_mset_add_mset_insert set_mset_mset subset_insertI)
  have keys: "mset (map t_key pend) = add_mset (t_key t) (mset (map t_key pend'))"
    using pend by (metis image_mset_add_mset mset_map)
  have "lands_after w ts (set skipped \<union> set (sp_done s)) (t_key t)"
    using inv t land deps by (auto simp: lands_after_def list_ex_iff sup_inv_def)
  then have "landing_order w ts skipped (sp_done s @ [t_key t])"
    using inv landing_order_snoc by (auto simp: sup_inv_def)
  then show ?thesis
    using inv s' sub keys by (auto simp: sup_inv_def record_status_Inr done_keys_insert stored_record_def)
qed

lemma sup_inv_irrelevant [simp]:
  "sup_inv w ts records skipped (s\<lparr>sp_polls := n\<rparr>) pend = sup_inv w ts records skipped s pend"
  "sup_inv w ts records skipped (s\<lparr>sp_exhausted := b\<rparr>) pend = sup_inv w ts records skipped s pend"
  "sup_inv w ts records skipped (s\<lparr>sp_failed_keys := ks\<rparr>) pend = sup_inv w ts records skipped s pend"
  by (simp_all add: sup_inv_def)

lemma sup_inv_mset:
  assumes "sup_inv w ts records skipped s pend" and "mset pend = mset pend'"
  shows "sup_inv w ts records skipped s pend'"
proof -
  have "mset (map t_key pend) = mset (map t_key pend')" "set pend = set pend'"
    using assms(2) by (metis mset_map, metis set_mset_mset)
  then show ?thesis using assms(1) by (simp add: sup_inv_def)
qed

lemma sup_inv_leave:
  assumes "sup_inv w ts records skipped s (pend @ rest)"
  shows "sup_inv w ts records skipped (s\<lparr>sp_unstarted := sp_unstarted s @ map t_key pend\<rparr>) rest"
  using assms by (simp add: sup_inv_def ac_simps)

lemma landing_done:
  assumes "has_landed (landing w r)" and "prepare_batch w wave = Some rs" and "(t, r) \<in> set rs"
  shows "did_land w t"
proof -
  have "r = w_prepare w t \<or> r = PrepareError ''prepare thread panicked''"
    using assms(2,3) by (auto simp: prepare_batch_def split: list.splits prepare_result.splits)
  then show ?thesis
    using assms(1) by (auto simp: landing_def has_landed_def did_land_def split: prepare_result.splits sum.splits task_status.splits)
qed

lemma land_one_inv:
  assumes inv: "sup_inv w ts records skipped s (t # pend)" and dist: "distinct (map t_key ts)"
    and skipped: "set skipped = t_key ` set ts \<inter> done_keys records"
    and land: "has_landed status \<Longrightarrow> did_land w t" and deps: "set (t_deps t) \<subseteq> sp_completed s"
    and s': "land_one w s t status = Inr s'"
  shows "sup_inv w ts records skipped s' pend \<and> sp_completed s \<subseteq> sp_completed s'"
proof (cases status)
  case (DoneStatus i)
  define s0 where "s0 = (if sp_exhausted s then s else s\<lparr>sp_polls := Suc (sp_polls s)\<rparr>)"
  have inv0: "sup_inv w ts records skipped s0 (t # pend)" and c0: "sp_completed s0 = sp_completed s"
    using inv by (simp_all add: s0_def)
  obtain s1 where s1: "record_status w s0 t (DoneStatus i) = Inr s1"
    and end_s: "s' = s1\<lparr>sp_completed := insert (t_key t) (sp_completed s1)\<rparr>
      \<or> (\<exists>b. s' = s1\<lparr>sp_completed := insert (t_key t) (sp_completed s1)\<rparr>\<lparr>sp_exhausted := b\<rparr>)"
    using s' DoneStatus by (auto simp: land_one_def s0_def has_landed_def Let_def split: if_splits sum.splits)
  have "sup_inv w ts records skipped (s1\<lparr>sp_completed := insert (t_key t) (sp_completed s1)\<rparr>) pend"
    using inv_done [OF inv0 _ s1] land deps DoneStatus c0 by (simp add: has_landed_def)
  moreover have "sp_completed s1 = sp_completed s" using s1 c0 by (simp add: record_status_Inr)
  ultimately show ?thesis using end_s by (elim disjE exE) (simp_all, blast+)
next
  case (FailedStatus r)
  show ?thesis
  proof (cases "sp_exhausted s")
    case True
    then have "s' = s\<lparr>sp_unstarted := sp_unstarted s @ map t_key [t]\<rparr>"
      using s' FailedStatus by (simp add: land_one_def has_landed_def)
    then show ?thesis using sup_inv_leave [of w ts records skipped s "[t]" pend] inv by simp
  next
    case False
    have inv0: "sup_inv w ts records skipped (s\<lparr>sp_polls := Suc (sp_polls s)\<rparr>) (t # pend)" using inv by simp
    obtain s1 ks b where s1: "record_status w (s\<lparr>sp_polls := Suc (sp_polls s)\<rparr>) t (FailedStatus r) = Inr s1"
      and end_s: "s' = s1\<lparr>sp_failed_keys := ks\<rparr>\<lparr>sp_exhausted := b\<rparr>"
      using s' FailedStatus False by (auto simp: land_one_def has_landed_def Let_def split: sum.splits)
    have "sup_inv w ts records skipped s1 pend" by (rule inv_failed [OF inv0 dist skipped _ s1]) simp
    moreover have "sp_completed s1 = sp_completed s" using s1 by (simp add: record_status_Inr)
    ultimately show ?thesis using end_s by simp
  qed
qed

lemma land_wave_inv:
  assumes dist: "distinct (map t_key ts)" and skipped: "set skipped = t_key ` set ts \<inter> done_keys records"
  shows "sup_inv w ts records skipped s (map fst rs @ rest) \<Longrightarrow>
     list_all (\<lambda>(t, r). set (t_deps t) \<subseteq> sp_completed s \<and> (has_landed (landing w r) \<longrightarrow> did_land w t)) rs \<Longrightarrow>
     (case land_wave w s rs of
        Inr s' \<Rightarrow> sup_inv w ts records skipped s' rest
      | Inl s' \<Rightarrow> \<exists>q pend. sup_inv w ts records skipped q pend \<and> sp_saved s' = sp_saved q)"
proof (induction rs arbitrary: s)
  case (Cons x rs)
  obtain t r where x: "x = (t, r)" by fastforce
  show ?case
  proof (cases "land_one w s t (landing w r)")
    case (Inl s')
    then have "sp_saved s' = sp_saved s"
      by (auto simp: land_one_def Let_def split: if_splits sum.splits dest: record_status_Inl)
    then show ?thesis using Cons.prems(1) Inl x by auto
  next
    case (Inr s')
    have "sup_inv w ts records skipped s' (map fst rs @ rest) \<and> sp_completed s \<subseteq> sp_completed s'"
      by (rule land_one_inv [OF _ dist skipped _ _ Inr]) (use Cons.prems x in auto)
    moreover from this Cons.prems(2) have
      "list_all (\<lambda>(t, r). set (t_deps t) \<subseteq> sp_completed s' \<and> (has_landed (landing w r) \<longrightarrow> did_land w t)) rs"
      by (fastforce simp: list_all_iff)
    ultimately show ?thesis using Cons.IH [of s'] Inr x by simp
  qed
qed simp

lemma remove_at_mset: "i < length xs \<Longrightarrow> mset xs = add_mset (xs ! i) (mset (remove_at i xs))"
  by (subst id_take_nth_drop [of i xs]) (simp_all add: remove_at_def)

lemma fail_dependents_inv:
  assumes dist: "distinct (map t_key ts)" and skipped: "set skipped = t_key ` set ts \<inter> done_keys records"
  shows "sup_inv w ts records skipped s pend \<Longrightarrow>
     (case fail_dependents w s pend of
        Inr (s', pend') \<Rightarrow> sup_inv w ts records skipped s' pend' \<and> subseq pend' pend
      | Inl s' \<Rightarrow> \<exists>q pend. sup_inv w ts records skipped q pend \<and> sp_saved s' = sp_saved q)"
proof (induction w s pend rule: fail_dependents.induct)
  case (1 w s pend)
  show ?case
  proof (cases "find_blocked (sp_failed_keys s) pend")
    case None
    then show ?thesis using 1(2) by (simp add: fail_dependents.simps)
  next
    case (Some b)
    obtain i d where b: "b = (i, d)" by fastforce
    have i: "i < length pend" using find_blocked_bound Some b by blast
    let ?st = "FailedStatus (''dependency '' @ d @ '' did not complete'')"
    show ?thesis
    proof (cases "record_status w s (pend ! i) ?st")
      case (Inl s')
      then show ?thesis using 1(2) Some b record_status_Inl [OF Inl] by (auto simp: fail_dependents.simps Let_def)
    next
      case (Inr s')
      let ?s = "s'\<lparr>sp_failed_keys := insert (t_key (pend ! i)) (sp_failed_keys s')\<rparr>"
      have "sup_inv w ts records skipped ?s (remove_at i pend)"
        using inv_failed [OF 1(2) dist skipped remove_at_mset [OF i] Inr] by simp
      from 1(1) [OF Some b [symmetric] refl refl Inr this]
      have "case fail_dependents w ?s (remove_at i pend) of
        Inr (s', pend') \<Rightarrow> sup_inv w ts records skipped s' pend' \<and> subseq pend' (remove_at i pend)
      | Inl s' \<Rightarrow> \<exists>q pend. sup_inv w ts records skipped q pend \<and> sp_saved s' = sp_saved q" .
      moreover have "fail_dependents w s pend = fail_dependents w ?s (remove_at i pend)"
        by (subst fail_dependents.simps) (use Some b Inr in \<open>simp add: Let_def\<close>)
      moreover have "subseq (remove_at i pend) pend"
      proof -
        have "subseq (take i pend @ drop (Suc i) pend) (take i pend @ drop i pend)"
          using i by (intro list_emb_append_mono) (auto simp: Cons_nth_drop_Suc [symmetric])
        then show ?thesis by (simp add: remove_at_def)
      qed
      ultimately show ?thesis by (auto split: sum.splits intro: subseq_order.order_trans)
    qed
  qed
qed

definition loop_post :: "'p sup_world \<Rightarrow> plan_task list \<Rightarrow> sup_records \<Rightarrow> string list \<Rightarrow> sup \<times> loop_end \<Rightarrow> bool" where
  "loop_post w ts records skipped r \<longleftrightarrow>
     (case snd r of
        Stopped _ _ \<Rightarrow> sup_inv w ts records skipped (fst r) []
      | _ \<Rightarrow> \<exists>q pend. sup_inv w ts records skipped q pend \<and> sp_saved (fst r) = sp_saved q)"

lemma leave_post: "sup_inv w ts records skipped s pend \<Longrightarrow> loop_post w ts records skipped (leave s pend, Stopped a b)"
  using sup_inv_leave [of w ts records skipped s pend "[]"] by (simp add: loop_post_def leave_def)

lemma wave_results:
  assumes "prepare_batch w wave = Some rs" and "list_all (\<lambda>t. set (t_deps t) \<subseteq> completed) wave"
  shows "map fst rs = wave"
    "list_all (\<lambda>(t, r). set (t_deps t) \<subseteq> completed \<and> (has_landed (landing w r) \<longrightarrow> did_land w t)) rs"
proof -
  show fst: "map fst rs = wave"
    using assms(1) by (auto simp: prepare_batch_def comp_def split: list.splits prepare_result.splits)
  have "set (t_deps t) \<subseteq> completed \<and> (has_landed (landing w r) \<longrightarrow> did_land w t)" if x: "(t, r) \<in> set rs" for t r
  proof -
    have "t \<in> set wave" using x fst by (metis fst_conv image_eqI list.set_map)
    then show ?thesis using assms(2) landing_done [OF _ assms(1) x] by (auto simp: list_all_iff)
  qed
  then show "list_all (\<lambda>(t, r). set (t_deps t) \<subseteq> completed \<and> (has_landed (landing w r) \<longrightarrow> did_land w t)) rs"
    by (auto simp: list_all_iff)
qed

lemma sup_loop_post:
  assumes dist: "distinct (map t_key ts)" and skipped: "set skipped = t_key ` set ts \<inter> done_keys records"
  shows "sup_inv w ts records skipped s pend \<Longrightarrow> distinct (map t_key pend) \<Longrightarrow>
     loop_post w ts records skipped (sup_loop w mx turn s pend)"
proof (induction w mx turn s pend rule: sup_loop.induct)
  case (1 w mx turn s pend)
  note loop = sup_loop.simps [of w mx turn s pend]
  note fd = fail_dependents_inv [OF dist skipped 1(2)]
  show ?case
  proof (cases "fail_dependents w s pend")
    case (Inl s')
    then show ?thesis using fd by (simp add: loop loop_post_def)
  next
    case (Inr x)
    obtain s1 rem where x: "x = (s1, rem)" by fastforce
    have inv1: "sup_inv w ts records skipped s1 rem" and sub: "subseq rem pend" using fd Inr x by auto
    have drem: "distinct (map t_key rem)"
      using sub 1(3) subseq_distinct [OF subseq_map] by blast
    define c where "c = (case w_controls w turn of None \<Rightarrow> control_default | Some c \<Rightarrow> c)"
    show ?thesis
    proof (cases "rem = [] \<or> blocks_new_work c")
      case True
      then show ?thesis using inv1 leave_post [OF inv1]
        by (cases "rem = []") (simp_all add: loop Inr x loop_post_def flip: c_def)
    next
      case go: False
      show ?thesis
      proof (cases "next_wave rem (sp_completed s1) [] mx")
        case (Inl e)
        then show ?thesis using inv1 go by (auto simp: loop Inr x loop_post_def simp flip: c_def)
      next
        case wave: (Inr wave)
        let ?rest = "filter (\<lambda>t. t_key t \<notin> t_key ` set wave) rem"
        note ok = next_wave_ok [OF wave]
        have parts: "mset rem = mset (wave @ ?rest)" using subseq_distinct_filter [of wave rem] ok drem by simp
        show ?thesis
        proof (cases "wave = [] \<or> prepare_batch w wave = None")
          case True
          then show ?thesis using inv1 go leave_post [OF inv1] wave
            by (cases "wave = []") (auto simp: loop Inr x loop_post_def simp flip: c_def)
        next
          case False
          then obtain rs where rs: "prepare_batch w wave = Some rs" by auto
          have deps: "list_all (\<lambda>t. set (t_deps t) \<subseteq> sp_completed s1) wave" using ok by (simp add: wave_ok_def)
          note res = wave_results [OF rs deps]
          have "sup_inv w ts records skipped s1 (map fst rs @ ?rest)"
            using sup_inv_mset [OF inv1 parts] by (simp add: res(1))
          note lw = land_wave_inv [OF dist skipped this res(2)]
          show ?thesis
          proof (cases "land_wave w s1 rs")
            case (Inl s')
            then show ?thesis using lw go wave False rs by (simp add: loop Inr x loop_post_def flip: c_def)
          next
            case landed: (Inr s2)
            have inv2: "sup_inv w ts records skipped s2 ?rest" using lw landed by simp
            show ?thesis
            proof (cases "sp_exhausted s2")
              case True
              then show ?thesis using leave_post [OF inv2] go wave False rs landed
                by (simp add: loop Inr x flip: c_def)
            next
              case more: False
              have "loop_post w ts records skipped (sup_loop w mx (Suc turn) s2 ?rest)"
                using 1(1) [OF Inr x [symmetric] _ c_def _ wave _ refl rs landed more inv2] go False drem
                by (simp add: distinct_map_filter)
              then show ?thesis using go wave False rs landed more by (simp add: loop Inr x flip: c_def)
            qed
          qed
        qed
      qed
    qed
  qed
qed

lemma filter_split_mset: "mset (map f (filter P xs)) + mset (map f (filter (\<lambda>x. \<not> P x) xs)) = mset (map f xs)"
  by (induction xs) auto

definition skipped_keys :: "plan_task list \<Rightarrow> sup_records \<Rightarrow> string list" where
  "skipped_keys ts records = filter (\<lambda>k. k \<in> done_keys records) (map t_key ts)"

lemma skipped_keys_eq: "map t_key (filter (\<lambda>t. is_finished records (t_key t)) ts) = skipped_keys ts records"
  by (simp add: skipped_keys_def done_keys_def filter_map comp_def)

lemma supervise_loop:
  assumes dist: "distinct (map t_key (pl_tasks p))" and ok: "validate_dependencies (pl_tasks p) = Inr u"
  obtains s e where "loop_post w (pl_tasks p) records (skipped_keys (pl_tasks p) records) (s, e)"
    and "supervise w mp p (Some records) = (finish p (skipped_keys (pl_tasks p) records) s e, Some (sp_saved s))"
proof -
  let ?ts = "pl_tasks p" and ?sk = "skipped_keys (pl_tasks p) records"
  let ?rem = "filter (\<lambda>t. \<not> is_finished records (t_key t)) ?ts"
  obtain s e where l: "sup_loop w (max mp 1) 0 (sup_start records ?sk) ?rem = (s, e)" by fastforce
  have "set ?sk = t_key ` set ?ts \<inter> done_keys records" by (auto simp: skipped_keys_def)
  moreover have "sup_inv w ?ts records ?sk (sup_start records ?sk) ?rem"
    using filter_split_mset [of t_key "\<lambda>t. is_finished records (t_key t)" ?ts]
    by (simp add: sup_inv_def sup_start_def landing_order_def flip: skipped_keys_eq)
  ultimately have "loop_post w ?ts records ?sk (s, e)"
    using sup_loop_post [OF dist, of ?sk records w _ ?rem] dist l distinct_map_filter by metis
  then show thesis by (rule that) (simp add: supervise_def ok l [simplified] skipped_keys_eq Let_def)
qed

text \<open>C26. A report accounts for the whole plan and never lands out of order: when the keys of a plan are
  distinct, every task of the plan is in exactly one of the lists done, failed, skipped and unstarted, and
  every task reported done was landed by the executor after each of its dependencies had landed, in an
  earlier run or earlier in this one.\<close>

theorem supervise_accounts:
  assumes "distinct (map t_key (pl_tasks p))" and "supervise w mp p (Some records) = (Report r, file)"
  shows "mset (sr_done r @ map fst (sr_failed r) @ sr_skipped r @ sr_unstarted r) = mset (map t_key (pl_tasks p))
    \<and> landing_order w (pl_tasks p) (sr_skipped r) (sr_done r)"
proof -
  have "validate_dependencies (pl_tasks p) = Inr ()"
    using assms(2) by (cases "validate_dependencies (pl_tasks p)") (simp_all add: supervise_def)
  then obtain s e where post: "loop_post w (pl_tasks p) records (skipped_keys (pl_tasks p) records) (s, e)"
    and run: "supervise w mp p (Some records) = (finish p (skipped_keys (pl_tasks p) records) s e, Some (sp_saved s))"
    by (rule supervise_loop [OF assms(1)])
  then show ?thesis using assms(2)
    by (cases e) (auto simp: loop_post_def finish_def sup_inv_def ac_simps)
qed

lemma supervise_saves:
  assumes dist: "distinct (map t_key (pl_tasks p))" and run: "supervise w mp p (Some records) = (e, file)"
  obtains records' ks where "file = Some records'" "done_keys records' = done_keys records \<union> set ks"
    "landing_order w (pl_tasks p) (skipped_keys (pl_tasks p) records) ks"
    "case e of Report r \<Rightarrow> ks = sr_done r | _ \<Rightarrow> True"
proof (cases "validate_dependencies (pl_tasks p)")
  case (Inl err)
  then show thesis using run by (intro that [of records "[]"]) (auto simp: supervise_def landing_order_def)
next
  case (Inr u)
  then obtain s l where post: "loop_post w (pl_tasks p) records (skipped_keys (pl_tasks p) records) (s, l)"
    and eq: "supervise w mp p (Some records) = (finish p (skipped_keys (pl_tasks p) records) s l, Some (sp_saved s))"
    by (rule supervise_loop [OF dist])
  have "\<exists>q pend. sup_inv w (pl_tasks p) records (skipped_keys (pl_tasks p) records) q pend \<and> sp_saved s = sp_saved q
      \<and> (case e of Report r \<Rightarrow> sp_done q = sr_done r | _ \<Rightarrow> True)"
    using post run eq by (cases l) (auto simp: loop_post_def finish_def)
  then obtain q pend where q: "sup_inv w (pl_tasks p) records (skipped_keys (pl_tasks p) records) q pend"
    "sp_saved s = sp_saved q" "case e of Report r \<Rightarrow> sp_done q = sr_done r | _ \<Rightarrow> True" by blast
  show thesis
  proof (rule that [of "sp_saved s" "sp_done q"])
    show "file = Some (sp_saved s)" using run eq by simp
  qed (use q in \<open>auto simp: sup_inv_def split: sup_end.splits\<close>)
qed


section \<open>A mission that is interrupted\<close>

definition sample_task2 :: "string \<Rightarrow> string list \<Rightarrow> string \<Rightarrow> plan_task" where
  "sample_task2 k deps sc = \<lparr>t_key = k, t_deps = deps, t_scopes = [sc], pt_title = k, pt_accept = ''true'', pt_model = None,
     pt_task = None, pt_prompt = k\<rparr>"

definition sample_plan :: plan where
  "sample_plan = \<lparr>pl_mission = ''m'', pl_tasks = [sample_task2 ''b'' [''a''] ''x'', sample_task2 ''a'' [] ''y'']\<rparr>"

text \<open>Every task lands; the second write of the state file fails when \<open>broken\<close>.\<close>

definition sample_executor :: "bool \<Rightarrow> unit sup_world" where
  "sample_executor broken = \<lparr>w_prepare = (\<lambda>_. Prepared ()), w_land = (\<lambda>_. Inr (DoneStatus ''id'')), w_exhausted = (\<lambda>_. False),
     w_controls = (\<lambda>_. None), w_saves = (\<lambda>n. \<not> broken \<or> n = 0)\<rparr>"

lemma sample_valid: "validate_dependencies (pl_tasks sample_plan) = Inr ()"
  by code_simp

lemma sample_keys: "distinct (map t_key (pl_tasks sample_plan))"
  by code_simp

lemmas sample_defs = sample_plan_def sample_task2_def sample_executor_def sup_start_def is_finished_def bt_get_def
  find_blocked.simps next_wave_def normalize_xyz disjoint_scopes_def scopes_overlap_def strip_prefix_def starts_with_slash_def
  prepare_batch_def landing_def land_one_def has_landed_def record_status_def stored_record_def Let_def
  control_default_def blocks_new_work_def leave_def

definition landed_record :: state_record where
  "landed_record = \<lparr>st_status = ''done'', st_task = Some ''id'', st_reason = None\<rparr>"

lemma sample_broken: "supervise (sample_executor True) 2 sample_plan (Some []) = (StateError, Some [(''a'', landed_record)])"
  by (simp add: supervise_def sample_valid finish_def landed_record_def)
    (simp add: sample_defs sup_loop.simps fail_dependents.simps)

definition resumed_report :: supervisor_report where
  "resumed_report = \<lparr>sr_mission = ''m'', sr_done = [''b''], sr_failed = [], sr_skipped = [''a''], sr_unstarted = [],
     sr_budget_exhausted = False, sr_paused = False, sr_aborted = False\<rparr>"

lemma sample_resumed:
  "supervise (sample_executor False) 2 sample_plan (Some [(''a'', landed_record)]) =
     (Report resumed_report, Some [(''a'', landed_record), (''b'', landed_record)])"
  by (simp add: supervise_def sample_valid finish_def landed_record_def resumed_report_def)
    (simp add: sample_defs sup_loop.simps fail_dependents.simps)

theorem supervise_accounts_witness:
  "mset [''b'', ''a''] = mset (map t_key (pl_tasks sample_plan))
   \<and> landing_order (sample_executor False) (pl_tasks sample_plan) [''a''] [''b'']"
  using supervise_accounts [OF sample_keys sample_resumed] by (simp add: resumed_report_def)


end
