(* ===== verification/Queue.thy ===== *)
theory Queue
  imports Supervisor Ladder "HOL-Library.Product_Lexorder"
begin

text \<open>
  \<open>crates/susi-harness/src/queue.rs\<close>: a batch of the roadmap queue as a mission plan. The records of the
  task directory, the ids of \<open>done/\<close>, the roadmap's priorities and the crate names are read by the caller
  (\<open>queue_files\<close>); whether a path exists and \<open>str::to_lowercase\<close> are its last two fields. Strings are UTF-8
  bytes: a test on a \<open>char\<close> that only ASCII satisfies is a test on its bytes.
\<close>

datatype acceptance = Argv "string list" | AcceptText string

record task_record =
  q_id :: string
  q_title :: string
  q_goal :: string
  q_deps :: "string list"
  q_scopes :: "string list"
  q_accept :: "acceptance option"
  q_roadmap :: "string option"
  q_size :: "string option"
  q_created :: u64

record queue_files =
  qf_records :: "task_record list"
  qf_done :: "string set"
  qf_priorities :: "string \<Rightarrow> string option"
  qf_crates :: "string list"
  qf_exists :: "string \<Rightarrow> bool"
  qf_lower :: "string \<Rightarrow> string"

definition acceptance_command :: "acceptance \<Rightarrow> string option" where
  "acceptance_command a =
     (case a of
        Argv cmd \<Rightarrow> if cmd = [] then None else Some (join '' '' cmd)
      | AcceptText txt \<Rightarrow> if trim txt = [] then None else Some txt)"

definition task_command :: "task_record \<Rightarrow> string option" where
  "task_command t = Option.bind (q_accept t) acceptance_command"

section \<open>Text\<close>

definition quote_char :: char where
  "quote_char = CHR 0x22"

definition trim_end_char :: "(char \<Rightarrow> bool) \<Rightarrow> string \<Rightarrow> string" where
  "trim_end_char P s = rev (dropWhile P (rev s))"

text \<open>\<open>split\<close> at any of the byte sequences; \<open>split_whitespace\<close> drops the empty parts.\<close>

function split_seqs :: "string list \<Rightarrow> string \<Rightarrow> string \<Rightarrow> string list" where
  "split_seqs seps word s =
     (if s = [] then [word]
      else case find (\<lambda>w. w \<noteq> [] \<and> prefix w s) seps of
             Some w \<Rightarrow> word # split_seqs seps [] (drop (length w) s)
           | None \<Rightarrow> split_seqs seps (word @ [hd s]) (tl s))"
  by pat_completeness auto
termination
  by (relation "measure (\<lambda>(seps, word, s). length s)") (auto simp: find_Some_iff prefix_def)

declare split_seqs.simps [simp del]

definition split_whitespace :: "string \<Rightarrow> string list" where
  "split_whitespace s = filter (\<lambda>w. w \<noteq> []) (split_seqs ws_seqs [] s)"

definition todo_goal :: "string \<Rightarrow> string" where
  "todo_goal title = ''Deliver '' @ [quote_char] @ title @ [quote_char] @ ''.''"

definition requirement_order :: "string \<Rightarrow> string option" where
  "requirement_order accept =
     map_option (trim_end_char (\<lambda>c. \<not> is_ascii_alphanumeric c))
       (List.find (\<lambda>word. prefix ''gmcp_req_'' word \<or> prefix ''gmcp_vc_'' word) (split_whitespace accept))"

definition requirement_prefix :: "string \<Rightarrow> string" where
  "requirement_prefix name =
     (let parts = split_on CHR ''_'' name
      in if length parts < 4 then name else join ''_'' (take 4 parts) @ ''_'')"

definition default_order :: string where
  "default_order = ''Work in this order: read only what you need to identify the exact API you are changing, then make ''
     @ ''the edit. Your first write must happen before you have read more than ten files; do not survey the ''
     @ ''repository. After the first write, run the acceptance command and iterate on real output.''"

definition requirement_text :: "string \<Rightarrow> string" where
  "requirement_text name =
     ''Order (do not survey the repository): `git grep -n '' @ [quote_char] @ ''fn '' @ requirement_prefix name @ [quote_char]
     @ ''` finds the sibling ''
     @ ''test one requirement earlier; read only that function. In your FIRST five turns, add a new ''
     @ ''`#[test] fn '' @ name @ ''` to the END of tests/gmcp_requirements.rs with the append_to_file tool (the file ''
     @ ''is far larger than one answer can carry: never write_to_file it, and replace_file_content only to ''
     @ ''change a line you have read), copying the sibling'' @ [CHR 0x27] @ ''s shape and the real GMCP APIs it uses. Then run ''
     @ ''the acceptance command from the task file and iterate on the real output. Read no more than three ''
     @ ''windows over 200 lines.''"

definition prompt_for :: "task_record \<Rightarrow> string" where
  "prompt_for t =
     (let goal = (if trim (q_goal t) = [] then todo_goal (q_title t) else q_goal t);
          order = (case task_command t of
                     Some accept \<Rightarrow> (case requirement_order accept of None \<Rightarrow> default_order | Some name \<Rightarrow> requirement_text name)
                   | None \<Rightarrow> default_order)
      in ''Implement the queued task .agents/tasks/'' @ q_id t @ ''.json. Read that file first.'' @ [newline_char]
         @ ''Goal: '' @ trim goal @ [newline_char] @ order @ [newline_char]
         @ ''Work only inside the scopes it declares and make its acceptance command pass. If the goal names work ''
         @ ''outside those scopes, stop and report the gap instead of widening the change.'')"

definition priority_rank :: "(string \<Rightarrow> string option) \<Rightarrow> task_record \<Rightarrow> nat" where
  "priority_rank priorities t =
     (case Option.bind (q_roadmap t) priorities of
        None \<Rightarrow> 3
      | Some p \<Rightarrow>
          if eq_ignore_ascii_case p ''P0'' then 0
          else if eq_ignore_ascii_case p ''P1'' then 1
          else if eq_ignore_ascii_case p ''P2'' then 2
          else 3)"

definition size_rank :: "task_record \<Rightarrow> nat" where
  "size_rank t =
     (if q_size t = Some ''s'' then 0 else if q_size t = Some ''m'' then 1 else if q_size t = Some ''l'' then 2 else 3)"

text \<open>\<open>slug\<close> maps characters: the lead byte of a non-ASCII character stands for it, continuation bytes are
  dropped.\<close>

definition slug :: "string \<Rightarrow> string" where
  "slug i =
     (let mapped = map (\<lambda>c. if is_ascii_alphanumeric c then to_ascii_lower_char c else CHR ''-'')
                     (filter (\<lambda>c. \<not> is_continuation c) (drop_seqs [''T-''] i));
          trimmed = trim_end_char (\<lambda>c. c = CHR ''-'') (dropWhile (\<lambda>c. c = CHR ''-'') mapped)
      in take 48 trimmed)"

section \<open>Scopes\<close>

definition queue_normalize :: "string \<Rightarrow> string" where
  "queue_normalize path = trim_end_char (\<lambda>c. c = slash) (drop_seqs [''./''] (replace_char backslash slash path))"

definition paths_overlap :: "string \<Rightarrow> string \<Rightarrow> bool" where
  "paths_overlap a b \<longleftrightarrow>
     (let l = queue_normalize a; r = queue_normalize b
      in l = r \<or> prefix (r @ [slash]) l \<or> prefix (l @ [slash]) r)"

definition queue_overlap :: "string list \<Rightarrow> string list \<Rightarrow> bool" where
  "queue_overlap ls rs \<longleftrightarrow> list_ex (\<lambda>a. list_ex (\<lambda>b. paths_overlap a b) rs) ls"

text \<open>The scopes in order of length, then of text; one below a kept one is dropped.\<close>

fun reduce_loop :: "string list \<Rightarrow> string list \<Rightarrow> string list" where
  "reduce_loop reduced [] = reduced"
| "reduce_loop reduced (scope # rest) =
     (if list_ex (\<lambda>parent. scope = parent \<or> prefix (parent @ [slash]) scope) reduced then reduce_loop reduced rest
      else reduce_loop (reduced @ [scope]) rest)"

definition reduce_scopes :: "string list \<Rightarrow> string list" where
  "reduce_scopes scopes = reduce_loop [] (sort_key (\<lambda>s. (length s, s)) (remdups scopes))"

definition token_seps :: "string list" where
  "token_seps = ws_seqs @ map (\<lambda>c. [c]) [CHR 0x60, quote_char, CHR 0x27, CHR '','', CHR ''('', CHR '')'', CHR ''['', CHR '']'',
     CHR '':'', CHR '';'', CHR ''*'']"

definition token_scopes :: "string \<Rightarrow> string list" where
  "token_scopes txt =
     filter (\<lambda>token. 7 < length token \<and> \<not> contains ''..'' token
         \<and> list_ex (\<lambda>p. prefix p token) [''crates/'', ''tests/'', ''docs/'', ''deploy/'', ''scripts/'', ''.agents/''])
       (map (trim_end_char (\<lambda>c. c \<in> {CHR ''.'', CHR ''!'', CHR ''?'', slash})) (split_seqs token_seps [] txt))"

definition KEYWORDS :: "(string list \<times> string list) list" where
  "KEYWORDS =
     [([''gmcp'', ''mcp''], [''crates/susi-gmcp'', ''tests/gmcp_requirements.rs'', ''docs/gmcp'']),
      ([''gawd'', ''brain'', ''swarm''], [''crates/susi-gawd'', ''crates/susi-gawd-swarm'']),
      ([''gemi'', ''engine''], [''crates/susi-gemi'']),
      ([''model'', ''provider'', ''inference'', ''embedding''], [''crates/susi-vendor-models'']),
      ([''daemon''], [''crates/susi-daemon'']),
      ([''server''], [''crates/susi-server'']),
      ([''sandbox''], [''crates/susi-sandbox'']),
      ([''a2a''], [''crates/susi-gawd-a2a'']),
      ([''harness'', ''orchestr'', ''gateway'', ''native worker'', ''budget'', ''cockpit'', ''supervisor''],
       [''crates/susi-harness''])]"

definition keyword_scopes :: "(string \<Rightarrow> bool) \<Rightarrow> string \<Rightarrow> bool \<Rightarrow> bool \<Rightarrow> string list" where
  "keyword_scopes ex txt gmcp byok =
     concat (map (\<lambda>(needles, paths).
         if gmcp \<and> List.member needles ''model'' \<or> byok \<and> List.member needles ''budget'' then []
         else if list_ex (\<lambda>needle. contains needle txt) needles then filter ex paths
         else []) KEYWORDS)"

definition infer_scopes :: "queue_files \<Rightarrow> task_record \<Rightarrow> string list" where
  "infer_scopes files t =
     (let txt = qf_lower files (q_title t @ '' '' @ q_goal t @ '' '' @ (case q_roadmap t of None \<Rightarrow> [] | Some r \<Rightarrow> r));
          gmcp = (contains ''gmcp'' txt \<or> contains ''mcp'' txt);
          byok = (contains ''byok'' txt \<or> contains ''bring your own key'' txt)
      in reduce_scopes
           (token_scopes txt
            @ map (\<lambda>krate. ''crates/'' @ krate) (filter (\<lambda>krate. contains krate txt) (qf_crates files))
            @ keyword_scopes (qf_exists files) txt gmcp byok
            @ (if byok then [''crates/susi-vendor-models'', ''src/cli'', ''tests/byok_enhancements.rs''] else [])
            @ (case q_roadmap t of
                 None \<Rightarrow> []
               | Some r \<Rightarrow> [''.agents/roadmap-verdicts/'' @ r @ ''.json'', ''.agents/gmcp/evidence/'' @ r @ ''.jsonl''])
            @ [''.agents/tasks/'' @ q_id t @ ''.json'']))"

section \<open>The batch\<close>

datatype verdict = AlreadyDone | RoadmapFiltered | NoAccept | DepBlocked | Ready

definition verdict_of :: "queue_files \<Rightarrow> string option \<Rightarrow> task_record \<Rightarrow> verdict" where
  "verdict_of files only_roadmap t =
     (if q_id t \<in> qf_done files then AlreadyDone
      else if only_roadmap \<noteq> None \<and> q_roadmap t \<noteq> only_roadmap then RoadmapFiltered
      else if task_command t = None then NoAccept
      else if list_ex (\<lambda>d. d \<notin> qf_done files) (q_deps t) then DepBlocked
      else Ready)"

definition with_scopes :: "queue_files \<Rightarrow> task_record \<Rightarrow> task_record" where
  "with_scopes files t = (if q_scopes t = [] then t\<lparr>q_scopes := infer_scopes files t\<rparr> else t)"

definition ready_tasks :: "queue_files \<Rightarrow> string option \<Rightarrow> task_record list" where
  "ready_tasks files only_roadmap =
     map (with_scopes files) (filter (\<lambda>t. verdict_of files only_roadmap t = Ready) (qf_records files))"

definition queue_claimed_scopes :: "queue_files \<Rightarrow> task_record list \<Rightarrow> string list \<Rightarrow> string list list" where
  "queue_claimed_scopes files records claimed =
     map (\<lambda>t. q_scopes (with_scopes files t)) (List.map_filter (\<lambda>i. List.find (\<lambda>t. q_id t = i) records) claimed)"

definition queue_key :: "queue_files \<Rightarrow> task_record \<Rightarrow> nat \<times> nat \<times> nat \<times> string" where
  "queue_key files t = (priority_rank (qf_priorities files) t, size_rank t, 2 ^ 64 - unat (q_created t), q_id t)"

fun select_batch :: "string list list \<Rightarrow> nat \<Rightarrow> task_record list \<Rightarrow> task_record list \<Rightarrow> task_record list" where
  "select_batch claims n selected [] = []"
| "select_batch claims n selected (t # ts) =
     (if n = 0 then []
      else if list_ex (queue_overlap (q_scopes t)) claims then select_batch claims n selected ts
      else if list_ex (\<lambda>other. queue_overlap (q_scopes t) (q_scopes other)) selected then select_batch claims n selected ts
      else t # select_batch claims (n - 1) (selected @ [t]) ts)"

definition plan_entry :: "string list \<Rightarrow> nat \<Rightarrow> task_record \<Rightarrow> plan_task" where
  "plan_entry workers index t =
     \<lparr>t_key = slug (q_id t), t_deps = [], t_scopes = q_scopes t, pt_title = q_title t,
      pt_accept = (case task_command t of None \<Rightarrow> [] | Some c \<Rightarrow> c),
      pt_model = (if workers = [] then None else Some (workers ! (index mod length workers))),
      pt_task = Some (q_id t), pt_prompt = prompt_for t\<rparr>"

record batch_counts =
  bc_open :: nat
  bc_ready :: nat
  bc_done :: nat
  bc_no_accept :: nat
  bc_inferred :: nat
  bc_blocked :: nat
  bc_filtered :: nat

datatype queue_error = NoFreeTask batch_counts | InvalidPlan plan_error

definition batch_counts_of :: "queue_files \<Rightarrow> string option \<Rightarrow> string list list \<Rightarrow> batch_counts" where
  "batch_counts_of files only_roadmap claims =
     (let count = (\<lambda>v. length (filter (\<lambda>t. verdict_of files only_roadmap t = v) (qf_records files)));
          ready = ready_tasks files only_roadmap
      in \<lparr>bc_open = length (qf_records files), bc_ready = length ready, bc_done = count AlreadyDone,
          bc_no_accept = count NoAccept,
          bc_inferred = length (filter (\<lambda>t. verdict_of files only_roadmap t = Ready \<and> q_scopes t = []) (qf_records files)),
          bc_blocked = count DepBlocked + length (filter (\<lambda>t. list_ex (queue_overlap (q_scopes t)) claims) ready),
          bc_filtered = count RoadmapFiltered\<rparr>)"

definition batch_of :: "queue_files \<Rightarrow> nat \<Rightarrow> string option \<Rightarrow> string list \<Rightarrow> task_record list" where
  "batch_of files limit only_roadmap claimed =
     (let ready = ready_tasks files only_roadmap
      in select_batch (queue_claimed_scopes files ready claimed) (max limit 1) [] (sort_key (queue_key files) ready))"

definition plan_batch :: "queue_files \<Rightarrow> string \<Rightarrow> nat \<Rightarrow> string list \<Rightarrow> string option \<Rightarrow> string list \<Rightarrow> queue_error + plan" where
  "plan_batch files mission limit workers only_roadmap claimed =
     (let selected = batch_of files limit only_roadmap claimed
      in if selected = [] then
           Inl (NoFreeTask (batch_counts_of files only_roadmap
             (queue_claimed_scopes files (ready_tasks files only_roadmap) claimed)))
         else
           let p = \<lparr>pl_mission = mission,
                    pl_tasks = map (\<lambda>(i, t). plan_entry workers i t) (zip [0..<length selected] selected)\<rparr>
           in case plan_validate p of Inl e \<Rightarrow> Inl (InvalidPlan e) | Inr _ \<Rightarrow> Inr p)"

section \<open>What a batch promises\<close>

lemma paths_overlap_sym: "paths_overlap a b = paths_overlap b a"
  by (auto simp: paths_overlap_def Let_def)

lemma queue_overlap_sym: "queue_overlap a b = queue_overlap b a"
  unfolding queue_overlap_def list_ex_iff using paths_overlap_sym by blast

interpretation batch: batch_selection "\<lambda>a b. \<not> queue_overlap a b" q_scopes "select_batch claims"
  for claims
  by unfold_locales (simp add: queue_overlap_sym, simp, auto simp: list_all_iff list_ex_iff)

lemma select_batch_claims: "t \<in> set (select_batch claims n selected ts) \<Longrightarrow> \<not> list_ex (queue_overlap (q_scopes t)) claims"
  by (induction claims n selected ts rule: select_batch.induct) (auto split: if_splits)

definition batch_member :: "queue_files \<Rightarrow> string option \<Rightarrow> task_record \<Rightarrow> plan_task \<Rightarrow> bool" where
  "batch_member files only_roadmap r pt \<longleftrightarrow>
     verdict_of files only_roadmap r = Ready \<and> pt_task pt = Some (q_id r) \<and> t_key pt = slug (q_id r) \<and> t_deps pt = []
     \<and> Some (pt_accept pt) = task_command r
     \<and> t_scopes pt = (if q_scopes r = [] then infer_scopes files r else q_scopes r)"

lemma with_scopes_sel [simp]:
  "q_id (with_scopes files t) = q_id t" "task_command (with_scopes files t) = task_command t"
  "q_scopes (with_scopes files t) = (if q_scopes t = [] then infer_scopes files t else q_scopes t)"
  by (simp_all add: with_scopes_def task_command_def)

lemma with_scopes_idem: "q_scopes t \<noteq> [] \<Longrightarrow> with_scopes files t = t"
  by (simp add: with_scopes_def)

text \<open>A batch taken from the queue is ready and free of conflicts: its plan is valid and has at most
  \<open>limit\<close> tasks (one at least is allowed); every task stands for a queue record that is not done, belongs to
  the wanted roadmap vector, has an acceptance command and all its dependencies done; no two tasks share
  a path, and none shares a path with a claimed task that is itself among the ready ones.\<close>

theorem plan_batch_safe:
  assumes "plan_batch files mission limit workers only_roadmap claimed = Inr p"
  shows "plan_validate p = Inr () \<and> pl_tasks p \<noteq> [] \<and> length (pl_tasks p) \<le> max limit 1
    \<and> list_all (\<lambda>pt. list_ex (\<lambda>r. batch_member files only_roadmap r pt) (qf_records files)) (pl_tasks p)
    \<and> sorted_wrt (\<lambda>a b. \<not> queue_overlap (t_scopes a) (t_scopes b)) (pl_tasks p)
    \<and> list_all (\<lambda>pt. \<not> list_ex (queue_overlap (t_scopes pt))
         (queue_claimed_scopes files (ready_tasks files only_roadmap) claimed)) (pl_tasks p)"
proof -
  define sel where "sel = batch_of files limit only_roadmap claimed"
  define claims where "claims = queue_claimed_scopes files (ready_tasks files only_roadmap) claimed"
  define ready where "ready = sort_key (queue_key files) (ready_tasks files only_roadmap)"
  have sel: "sel = select_batch claims (max limit 1) [] ready"
    by (simp add: sel_def batch_of_def claims_def ready_def Let_def)
  define p' where "p' = \<lparr>pl_mission = mission, pl_tasks = map (\<lambda>(i, t). plan_entry workers i t) (zip [0..<length sel] sel)\<rparr>"
  have ne: "sel \<noteq> []" and p: "p = p'" and valid: "plan_validate p = Inr ()"
    using assms by (auto simp: plan_batch_def Let_def p'_def simp flip: sel_def split: if_splits sum.splits)
  have tasks: "pl_tasks p = map (\<lambda>(i, t). plan_entry workers i t) (zip [0..<length sel] sel)"
    by (simp add: p p'_def)
  have scopes: "map t_scopes (pl_tasks p) = map q_scopes sel"
    by (intro nth_equalityI) (simp_all add: tasks plan_entry_def)
  have mem: "\<exists>t\<in>set sel. \<exists>i. pt = plan_entry workers i t" if "pt \<in> set (pl_tasks p)" for pt
    using that by (auto simp: tasks dest: set_zip_rightD)
  have "sorted_wrt (\<lambda>a b. \<not> queue_overlap a b) (map q_scopes sel)"
    unfolding sel sorted_wrt_map by (rule batch.pick_pairwise_free)
  then have pw: "sorted_wrt (\<lambda>a b. \<not> queue_overlap (t_scopes a) (t_scopes b)) (pl_tasks p)"
    by (simp add: scopes [symmetric] sorted_wrt_map)
  have ready: "t \<in> set (ready_tasks files only_roadmap)" if "t \<in> set sel" for t
    using that subseq_set [OF batch.pick_subseq [of claims "max limit 1" "[]" ready]] by (auto simp: sel ready_def)
  have "list_ex (\<lambda>r. batch_member files only_roadmap r pt) (qf_records files)" if pt: "pt \<in> set (pl_tasks p)" for pt
  proof -
    obtain t i where t: "t \<in> set sel" "pt = plan_entry workers i t" using mem [OF pt] by blast
    then obtain r where r: "r \<in> set (qf_records files)" "verdict_of files only_roadmap r = Ready" "t = with_scopes files r"
      using ready [OF t(1)] by (auto simp: ready_tasks_def)
    then have "task_command r \<noteq> None" by (auto simp: verdict_of_def split: if_splits)
    then show ?thesis using r t(2) by (auto simp: list_ex_iff batch_member_def plan_entry_def intro!: bexI [of _ r])
  qed
  moreover have "\<not> list_ex (queue_overlap (t_scopes pt)) claims" if "pt \<in> set (pl_tasks p)" for pt
    using mem [OF that] select_batch_claims [of _ claims "max limit 1" "[]" ready] by (auto simp: sel plan_entry_def)
  moreover have "length (pl_tasks p) \<le> max limit 1"
    using batch.pick_length [of claims "max limit 1" "[]" ready] by (simp add: tasks sel)
  ultimately show ?thesis using valid pw ne tasks by (auto simp: list_all_iff claims_def)
qed

text \<open>Only claims of ready tasks are seen: a claimed task that is filtered out, done, blocked or without an
  acceptance command reserves nothing.\<close>

theorem claims_outside_ready_ignored:
  "batch_of files limit only_roadmap claimed =
     batch_of files limit only_roadmap (filter (\<lambda>i. list_ex (\<lambda>t. q_id t = i) (ready_tasks files only_roadmap)) claimed)"
proof -
  have "List.map_filter (\<lambda>i. List.find (\<lambda>t. q_id t = i) rs) cs =
      List.map_filter (\<lambda>i. List.find (\<lambda>t. q_id t = i) rs) (filter (\<lambda>i. list_ex (\<lambda>t. q_id t = i) rs) cs)"
    for rs :: "task_record list" and cs
    by (induction cs) (auto simp: List.map_filter_def find_None_iff list_ex_iff)
  then show ?thesis unfolding batch_of_def queue_claimed_scopes_def Let_def by metis
qed

section \<open>A queue with one ready task\<close>

definition sample_record :: "string \<Rightarrow> string list \<Rightarrow> string \<Rightarrow> task_record" where
  "sample_record i deps sc = \<lparr>q_id = i, q_title = ''t'', q_goal = ''g'', q_deps = deps, q_scopes = [sc], q_accept = Some (Argv [''true'']),
     q_roadmap = None, q_size = None, q_created = 0\<rparr>"

definition sample_queue :: queue_files where
  "sample_queue = \<lparr>qf_records = [sample_record ''T-2'' [''T-1''] ''y'', sample_record ''T-1'' [] ''x''], qf_done = {},
     qf_priorities = (\<lambda>_. None), qf_crates = [], qf_exists = (\<lambda>_. False), qf_lower = id\<rparr>"

lemma trim_letters: "trim ''m'' = ''m''" "trim ''1'' = ''1''" "trim ''t'' = ''t''" "trim ''g'' = ''g''" "trim ''true'' = ''true''"
  by (rule trim_graphic; simp add: is_ascii_graphic_def)+

lemma prompt_nonblank: "trim (prompt_for t) \<noteq> []"
proof -
  have "trim (prompt_for t) = prompt_for t"
    by (rule trim_graphic) (simp add: prompt_for_def Let_def is_ascii_graphic_def)
  then show ?thesis by (simp add: prompt_for_def Let_def)
qed

lemma sample_slug: "slug ''T-1'' = ''1''"
  by code_simp

definition sample_batch :: plan where
  "sample_batch = \<lparr>pl_mission = ''m'', pl_tasks = [plan_entry [] 0 (sample_record ''T-1'' [] ''x'')]\<rparr>"

lemma sample_selected: "batch_of sample_queue 3 None [''T-2''] = [sample_record ''T-1'' [] ''x'']"
  by (simp add: batch_of_def ready_tasks_def verdict_of_def sample_queue_def sample_record_def with_scopes_def
      queue_claimed_scopes_def task_command_def acceptance_command_def List.map_filter_def)

lemma sample_batch_valid: "plan_validate sample_batch = Inr ()"
proof -
  have "validate_dependencies (pl_tasks sample_batch) = Inr ()"
    by (simp add: validate_dependencies_def sample_batch_def plan_entry_def key_index_def find_unknown_def deps_at_def dfs.simps(2) upt_rec)
  then show ?thesis
    using prompt_nonblank
    by (simp add: plan_validate_def trim_letters) (simp add: sample_batch_def plan_entry_def sample_record_def sample_slug
        trim_letters normalize_xyz task_command_def acceptance_command_def)
qed

lemma sample_plan_batch: "plan_batch sample_queue ''m'' 3 [] None [''T-2''] = Inr sample_batch"
  using sample_batch_valid by (simp add: plan_batch_def sample_selected Let_def sample_batch_def)

theorem plan_batch_safe_witness:
  "list_all (\<lambda>pt. list_ex (\<lambda>r. batch_member sample_queue None r pt) (qf_records sample_queue)) (pl_tasks sample_batch)
   \<and> length (pl_tasks sample_batch) \<le> 3"
  using plan_batch_safe [OF sample_plan_batch] by simp

end
