(* ===== verification/Admission.thy ===== *)
theory Admission
  imports Susi_Strings Ordered_Map
begin

text \<open>
  \<open>crates/susi-gawd-swarm/src/parallel_admission.rs\<close> with the accelerator pool it asks
  (\<open>crates/susi-vendor-models/src/accel_reserve.rs\<close>): tickets for parallel model workers. The mutex makes
  every operation atomic, so an operation is a function on \<open>adm_state\<close>; the clock and the measured capacity
  are arguments. A ticket handle is its number: dropping the handle calls \<open>adm_release\<close>.
\<close>

record scope_request =
  sq_key :: string
  sq_requests :: u32
  sq_tokens :: u64

record local_capacity =
  lc_cpu :: u32
  lc_ram :: u32
  lc_vram :: u32
  lc_sub :: u32

record admit_request =
  aq_mission :: string
  aq_job :: string
  aq_scopes :: "scope_request list"
  aq_local :: local_capacity
  aq_slot :: bool

record scope_limits =
  lim_inflight :: u32
  lim_requests :: u32
  lim_tokens :: u64

record admission_limits =
  al_scope :: scope_limits
  al_overrides :: "(string, scope_limits) btree_map"
  al_local :: local_capacity
  al_global :: u32
  al_mission :: u32
  al_queue :: nat
  al_lease :: u64

definition scope_limits_default :: scope_limits where
  "scope_limits_default = \<lparr>lim_inflight = 4, lim_requests = 64, lim_tokens = - 1 div 4\<rparr>"

definition admission_limits_default :: admission_limits where
  "admission_limits_default =
     \<lparr>al_scope = scope_limits_default, al_overrides = [],
      al_local = \<lparr>lc_cpu = 64000, lc_ram = 256 * 1024, lc_vram = 64 * 1024, lc_sub = 32\<rparr>,
      al_global = 64, al_mission = 16, al_queue = 256, al_lease = 5 * 60000\<rparr>"

definition clamp_u32 :: "u64 \<Rightarrow> u32" where
  "clamp_u32 v = ucast (min v (ucast (- 1 :: u32)))"

text \<open>What \<open>AdmissionLimits::measured\<close> reads: the three overrides, the processors, the free memory and the
  accelerator probe, \<open>None\<close> where unset or unreadable.\<close>

definition limits_measured :: "u64 option \<Rightarrow> u64 option \<Rightarrow> u64 option \<Rightarrow> u64 option \<Rightarrow> u64 option \<Rightarrow> u64 option \<Rightarrow> admission_limits" where
  "limits_measured env_cpu env_ram env_vram host_cpus host_ram probe_vram =
     (let parallelism = (case host_cpus of None \<Rightarrow> 1 | Some n \<Rightarrow> n);
          first = (\<lambda>a b d. case a of Some v \<Rightarrow> v | None \<Rightarrow> (case b of Some v \<Rightarrow> v | None \<Rightarrow> d))
      in admission_limits_default\<lparr>al_local :=
           \<lparr>lc_cpu = clamp_u32 (first env_cpu None (parallelism * 1000)),
            lc_ram = clamp_u32 (first env_ram host_ram (ucast (- 1 :: u32))),
            lc_vram = clamp_u32 (first env_vram probe_vram 0),
            lc_sub = clamp_u32 parallelism\<rparr>\<rparr>)"

datatype backpressure =
    Queued nat
  | ScopeFull string
  | LocalExhausted
  | MissionFull
  | GlobalFull
  | QueueFull

section \<open>The accelerator pool\<close>

record accel_pool =
  ap_total :: u64
  ap_reserved :: u64

definition pool_free :: "accel_pool \<Rightarrow> u64" where
  "pool_free p = sat_sub (ap_total p) (ap_reserved p)"

definition pool_headroom :: "accel_pool \<Rightarrow> u64" where
  "pool_headroom p = ap_total p div 20"

definition pool_admit :: "accel_pool \<Rightarrow> u64 \<Rightarrow> u64 option \<times> accel_pool" where
  "pool_admit p need =
     (if need = 0 \<or> pool_free p < need then (None, p)
      else if pool_free p - need < pool_headroom p then (None, p)
      else (Some need, p\<lparr>ap_reserved := sat_add (ap_reserved p) need\<rparr>))"

definition pool_release :: "accel_pool \<Rightarrow> u64 \<Rightarrow> accel_pool" where
  "pool_release p reservation = p\<lparr>ap_reserved := sat_sub (ap_reserved p) reservation\<rparr>"

definition MIB :: u64 where
  "MIB = 1024 * 1024"

definition vram_admits :: "u32 \<Rightarrow> u32 \<Rightarrow> u32 \<Rightarrow> bool" where
  "vram_admits total_mb used_mb need_mb =
     (need_mb = 0 \<or>
      fst (pool_admit \<lparr>ap_total = ucast total_mb * MIB, ap_reserved = ucast used_mb * MIB\<rparr> (ucast need_mb * MIB)) \<noteq> None)"

section \<open>The controller\<close>

record held =
  ht_ticket :: u64
  ht_job :: string
  ht_mission :: string
  ht_slot :: bool
  ht_scopes :: "(string \<times> u32 \<times> u64) list"
  ht_local :: local_capacity
  ht_expires :: u64

record scope_use =
  su_inflight :: u32
  su_requests :: u32
  su_tokens :: u64

record adm_state =
  ad_scopes :: "(string, scope_use) btree_map"
  ad_local :: local_capacity
  ad_global :: u32
  ad_missions :: "(string, u32) btree_map"
  ad_queue :: "string list"
  ad_held :: "(u64, held) btree_map"
  ad_by_job :: "(string, u64) btree_map"
  ad_next :: u64

definition scope_use_default :: scope_use where
  "scope_use_default = \<lparr>su_inflight = 0, su_requests = 0, su_tokens = 0\<rparr>"

definition adm_default :: adm_state where
  "adm_default = \<lparr>ad_scopes = [], ad_local = \<lparr>lc_cpu = 0, lc_ram = 0, lc_vram = 0, lc_sub = 0\<rparr>, ad_global = 0,
     ad_missions = [], ad_queue = [], ad_held = [], ad_by_job = [], ad_next = 0\<rparr>"

definition scope_limits_of :: "admission_limits \<Rightarrow> string \<Rightarrow> scope_limits" where
  "scope_limits_of lim key = (case bt_get (al_overrides lim) key of None \<Rightarrow> al_scope lim | Some l \<Rightarrow> l)"

definition use_of :: "adm_state \<Rightarrow> string \<Rightarrow> scope_use" where
  "use_of st key = (case bt_get (ad_scopes st) key of None \<Rightarrow> scope_use_default | Some u \<Rightarrow> u)"

definition mission_jobs :: "adm_state \<Rightarrow> string \<Rightarrow> u32" where
  "mission_jobs st m = (case bt_get (ad_missions st) m of None \<Rightarrow> 0 | Some n \<Rightarrow> n)"

definition local_add :: "local_capacity \<Rightarrow> local_capacity \<Rightarrow> local_capacity" where
  "local_add a b = \<lparr>lc_cpu = sat_add (lc_cpu a) (lc_cpu b), lc_ram = sat_add (lc_ram a) (lc_ram b),
     lc_vram = sat_add (lc_vram a) (lc_vram b), lc_sub = sat_add (lc_sub a) (lc_sub b)\<rparr>"

definition local_sub :: "local_capacity \<Rightarrow> local_capacity \<Rightarrow> local_capacity" where
  "local_sub a b = \<lparr>lc_cpu = sat_sub (lc_cpu a) (lc_cpu b), lc_ram = sat_sub (lc_ram a) (lc_ram b),
     lc_vram = sat_sub (lc_vram a) (lc_vram b), lc_sub = sat_sub (lc_sub a) (lc_sub b)\<rparr>"

definition take_scope :: "string \<times> u32 \<times> u64 \<Rightarrow> (string, scope_use) btree_map \<Rightarrow> (string, scope_use) btree_map" where
  "take_scope = (\<lambda>(key, rq, tk). bt_upsert key scope_use_default
     (\<lambda>u. \<lparr>su_inflight = su_inflight u + 1, su_requests = sat_add (su_requests u) rq, su_tokens = sat_add (su_tokens u) tk\<rparr>))"

definition drop_scope :: "string \<times> u32 \<times> u64 \<Rightarrow> (string, scope_use) btree_map \<Rightarrow> (string, scope_use) btree_map" where
  "drop_scope = (\<lambda>(key, rq, tk) scopes.
     case bt_get scopes key of
       None \<Rightarrow> scopes
     | Some u \<Rightarrow> bt_insert key \<lparr>su_inflight = sat_sub (su_inflight u) 1, su_requests = sat_sub (su_requests u) rq,
                               su_tokens = sat_sub (su_tokens u) tk\<rparr> scopes)"

text \<open>The books of a ticket: \<open>take_held\<close> enters it, \<open>free_held\<close> strikes it.\<close>

definition take_held :: "held \<Rightarrow> adm_state \<Rightarrow> adm_state" where
  "take_held h st = st\<lparr>
     ad_scopes := fold take_scope (ht_scopes h) (ad_scopes st),
     ad_local := local_add (ad_local st) (ht_local h),
     ad_global := (if ht_slot h then ad_global st + 1 else ad_global st),
     ad_missions := (if ht_slot h then bt_upsert (ht_mission h) 0 (\<lambda>n. n + 1) (ad_missions st) else ad_missions st),
     ad_held := bt_insert (ht_ticket h) h (ad_held st),
     ad_by_job := bt_insert (ht_job h) (ht_ticket h) (ad_by_job st)\<rparr>"

definition free_held :: "held \<Rightarrow> adm_state \<Rightarrow> adm_state" where
  "free_held h st = st\<lparr>
     ad_scopes := fold drop_scope (ht_scopes h) (ad_scopes st),
     ad_local := local_sub (ad_local st) (ht_local h),
     ad_global := (if ht_slot h then sat_sub (ad_global st) 1 else ad_global st),
     ad_missions := (if ht_slot h then
         (case bt_get (ad_missions st) (ht_mission h) of
            None \<Rightarrow> ad_missions st
          | Some n \<Rightarrow> bt_insert (ht_mission h) (sat_sub n 1) (ad_missions st))
       else ad_missions st),
     ad_by_job := bt_remove (ht_job h) (ad_by_job st)\<rparr>"

definition adm_release :: "u64 \<Rightarrow> adm_state \<Rightarrow> adm_state" where
  "adm_release ticket st =
     (case bt_get (ad_held st) ticket of
        None \<Rightarrow> st
      | Some h \<Rightarrow> free_held h (st\<lparr>ad_held := bt_remove ticket (ad_held st)\<rparr>))"

definition purge_expired :: "u64 \<Rightarrow> adm_state \<Rightarrow> adm_state" where
  "purge_expired now st =
     fold adm_release (map fst (filter (\<lambda>(_, h). ht_expires h \<le> now) (ad_held st))) st"

definition scope_full :: "admission_limits \<Rightarrow> adm_state \<Rightarrow> scope_request \<Rightarrow> bool" where
  "scope_full lim st s =
     (let l = scope_limits_of lim (sq_key s); u = use_of st (sq_key s)
      in lim_inflight l \<le> su_inflight u \<or> lim_requests l < sat_add (su_requests u) (sq_requests s)
         \<or> lim_tokens l < sat_add (su_tokens u) (sq_tokens s))"

text \<open>Why a grant attempt fails; the order of the tests is the code's.\<close>

definition grant_denial :: "admission_limits \<Rightarrow> admit_request \<Rightarrow> adm_state \<Rightarrow> backpressure option" where
  "grant_denial lim req st =
     (if aq_slot req \<and> al_global lim \<le> ad_global st then Some GlobalFull
      else if aq_slot req \<and> al_mission lim \<le> mission_jobs st (aq_mission req) then Some MissionFull
      else
        let after = local_add (ad_local st) (aq_local req)
        in if lc_cpu (al_local lim) < lc_cpu after \<or> lc_ram (al_local lim) < lc_ram after
              \<or> \<not> vram_admits (lc_vram (al_local lim)) (lc_vram (ad_local st)) (lc_vram (aq_local req))
              \<or> lc_sub (al_local lim) < lc_sub after
           then Some LocalExhausted
           else map_option (\<lambda>s. ScopeFull (sq_key s)) (List.find (scope_full lim st) (aq_scopes req)))"

definition is_scope_full :: "backpressure \<Rightarrow> bool" where
  "is_scope_full b = (case b of ScopeFull _ \<Rightarrow> True | _ \<Rightarrow> False)"

definition held_of :: "admission_limits \<Rightarrow> u64 \<Rightarrow> admit_request \<Rightarrow> u64 \<Rightarrow> held" where
  "held_of lim now req i =
     \<lparr>ht_ticket = i, ht_job = aq_job req, ht_mission = aq_mission req, ht_slot = aq_slot req,
      ht_scopes = map (\<lambda>s. (sq_key s, sq_requests s, sq_tokens s)) (aq_scopes req),
      ht_local = aq_local req, ht_expires = sat_add now (al_lease lim)\<rparr>"

definition adm_admit :: "admission_limits \<Rightarrow> u64 \<Rightarrow> admit_request \<Rightarrow> adm_state \<Rightarrow> (backpressure + u64) \<times> adm_state" where
  "adm_admit lim now req st0 =
     (let st = purge_expired now st0
      in case bt_get (ad_by_job st) (aq_job req) of
           Some i \<Rightarrow> (Inr i, st)
         | None \<Rightarrow>
             let queued = List.member (ad_queue st) (aq_job req)
             in if aq_slot req \<and> \<not> queued \<and> ad_queue st \<noteq> [] then
                  if al_queue lim \<le> length (ad_queue st) then (Inl QueueFull, st)
                  else let q = ad_queue st @ [aq_job req] in (Inl (Queued (length q)), st\<lparr>ad_queue := q\<rparr>)
                else case grant_denial lim req st of
                    None \<Rightarrow>
                      let i = ad_next st + 1;
                          st' = take_held (held_of lim now req i) (st\<lparr>ad_next := i\<rparr>)
                      in (Inr i, st'\<lparr>ad_queue := remove1 (aq_job req) (ad_queue st')\<rparr>)
                  | Some denial \<Rightarrow>
                      if is_scope_full denial then (Inl denial, st)
                      else if aq_slot req \<and> \<not> queued then
                        if al_queue lim \<le> length (ad_queue st) then (Inl QueueFull, st)
                        else (Inl denial, st\<lparr>ad_queue := ad_queue st @ [aq_job req]\<rparr>)
                      else (Inl denial, st))"

text \<open>\<open>probe\<close> purges and otherwise leaves the state alone.\<close>

definition adm_probe :: "admission_limits \<Rightarrow> u64 \<Rightarrow> admit_request \<Rightarrow> adm_state \<Rightarrow> (backpressure + unit) \<times> adm_state" where
  "adm_probe lim now req st0 =
     (let st = purge_expired now st0
      in if aq_slot req \<and> ad_queue st \<noteq> [] then (Inl (Queued (length (ad_queue st) + 1)), st)
         else case grant_denial lim req st of
             Some denial \<Rightarrow> (Inl denial, st)
           | None \<Rightarrow> (Inr (), st))"

definition scope_free :: "admission_limits \<Rightarrow> adm_state \<Rightarrow> string \<Rightarrow> bool" where
  "scope_free lim st key =
     (case bt_get (ad_scopes st) key of
        None \<Rightarrow> True
      | Some u \<Rightarrow> su_inflight u < lim_inflight (scope_limits_of lim key))"

record persisted =
  ps_held :: "held list"
  ps_next :: u64

definition adm_persist :: "adm_state \<Rightarrow> persisted" where
  "adm_persist st = \<lparr>ps_held = map snd (ad_held st), ps_next = ad_next st\<rparr>"

definition load_persisted :: "u64 \<Rightarrow> persisted \<Rightarrow> adm_state" where
  "load_persisted now p =
     fold take_held (filter (\<lambda>h. now < ht_expires h) (ps_held p)) (adm_default\<lparr>ad_next := ps_next p\<rparr>)"

end
