(* ===== verification/Admission_Inv.thy ===== *)
theory Admission_Inv
  imports Admission
begin

text \<open>
  The counters of the admission controller implement sums over the live tickets. \<open>spec_admit\<close> is the
  controller a reader would write down: it knows only the tickets, the queue and the last number, and
  decides by the sums over the tickets in natural numbers. The invariant \<open>books\<close> ties the counters to the
  sums; it is kept by every operation, also by a restart from the persisted tickets.
\<close>

section \<open>Sums over tickets\<close>

definition sumh :: "(held \<Rightarrow> nat) \<Rightarrow> (u64, held) btree_map \<Rightarrow> nat" where
  "sumh f L = (\<Sum>e\<leftarrow>L. f (snd e))"

definition n_inflight :: "string \<Rightarrow> held \<Rightarrow> nat" where
  "n_inflight key h = (\<Sum>(k, rq, tk)\<leftarrow>ht_scopes h. of_bool (k = key))"

definition n_requests :: "string \<Rightarrow> held \<Rightarrow> nat" where
  "n_requests key h = (\<Sum>(k, rq, tk)\<leftarrow>ht_scopes h. if k = key then unat rq else 0)"

definition n_tokens :: "string \<Rightarrow> held \<Rightarrow> nat" where
  "n_tokens key h = (\<Sum>(k, rq, tk)\<leftarrow>ht_scopes h. if k = key then unat tk else 0)"

definition n_slot :: "held \<Rightarrow> nat" where
  "n_slot h = of_bool (ht_slot h)"

definition n_mission :: "string \<Rightarrow> held \<Rightarrow> nat" where
  "n_mission m h = of_bool (ht_slot h \<and> ht_mission h = m)"

definition n_local :: "(local_capacity \<Rightarrow> u32) \<Rightarrow> held \<Rightarrow> nat" where
  "n_local f h = unat (f (ht_local h))"

lemma sumh_insert: "i \<notin> fst ` set L \<Longrightarrow> sumh f (bt_insert i h L) = sumh f L + f h"
  by (induction i h L rule: bt_insert.induct) (auto simp: sumh_def)

lemma sumh_remove: "bt_inv L \<Longrightarrow> bt_get L i = Some h \<Longrightarrow> sumh f L = sumh f (bt_remove i L) + f h"
proof (induction L)
  case (Cons e L)
  have inv: "bt_inv L" and new: "fst e \<notin> fst ` set L"
    using Cons.prems(1) bt_inv_distinct [OF Cons.prems(1)] by (auto simp: bt_inv_def)
  show ?case
  proof (cases "fst e = i")
    case True
    then have "bt_remove i L = L" using new by (auto simp: bt_remove_def filter_id_conv image_iff split: prod.splits)
    with True Cons.prems(2) show ?thesis by (cases e) (simp add: sumh_def bt_remove_def bt_get_def)
  next
    case False
    with Cons.IH inv Cons.prems(2) show ?thesis by (cases e) (simp add: sumh_def bt_remove_def bt_get_def)
  qed
qed (simp add: bt_get_def)

lemma sumh_filter_le: "sumh f (filter P L) \<le> sumh f L"
  by (induction L) (auto simp: sumh_def)

section \<open>Counters and limits\<close>

text \<open>\<open>exact\<close>: the counter is the sum and the sum is within the limit. \<open>gauge\<close>: so it is, unless the limit is
  the largest number, which never refuses.\<close>

definition exact :: "'a::len word \<Rightarrow> 'a word \<Rightarrow> nat \<Rightarrow> bool" where
  "exact lim c s \<longleftrightarrow> unat c = s \<and> s \<le> unat lim"

definition gauge :: "'a::len word \<Rightarrow> 'a word \<Rightarrow> nat \<Rightarrow> bool" where
  "gauge lim c s \<longleftrightarrow> lim = - 1 \<or> exact lim c s"

definition fits :: "'a::len word \<Rightarrow> nat \<Rightarrow> bool" where
  "fits lim s \<longleftrightarrow> lim = - 1 \<or> s \<le> unat lim"

lemma gauge_add:
  fixes lim c c' :: "'a::len word"
  assumes "gauge lim c s" and "fits lim (s + n)" and "unat c' = min (unat c + n) (2 ^ LENGTH('a) - 1)"
  shows "gauge lim c' (s + n)"
  using assms unat_le_max [of lim] by (auto simp: gauge_def exact_def fits_def)

lemma gauge_sub:
  assumes "gauge lim c (s + n)" and "unat c' = unat c - n"
  shows "gauge lim c' s"
  using assms by (auto simp: gauge_def exact_def)

lemma exact_add:
  fixes lim c c' :: "'a::len word"
  assumes "exact lim c s" and "s + n \<le> unat lim" and "c' = c + of_nat n"
  shows "exact lim c' (s + n)"
proof -
  have "s + n < 2 ^ LENGTH('a)" using assms(2) unat_less_pow [of lim] by linarith
  then have "unat (c + of_nat n) = s + n"
    using assms(1) by (simp add: exact_def unat_word_ariths unat_of_nat_less)
  then show ?thesis using assms by (simp add: exact_def)
qed

lemma exact_sub:
  assumes "exact lim c (s + n)" and "unat c' = unat c - n"
  shows "exact lim c' s"
  using assms by (auto simp: exact_def)

lemma below_max: "lim \<noteq> - 1 \<Longrightarrow> unat lim < 2 ^ LENGTH('a) - 1" for lim :: "'a::len word"
  using unat_le_max [of lim] by (metis nat_less_le unat_max_word word_unat_eq_iff)

lemma gauge_over: "gauge lim c s \<Longrightarrow> lim < sat_add c x \<longleftrightarrow> \<not> fits lim (s + unat x)"
  for lim c x :: "'a::len word"
  using unat_le_max [of lim] below_max [of lim]
  by (cases "lim = - 1") (auto simp: gauge_def exact_def fits_def word_less_nat_alt unats unat_max_word)

lemma exact_full: "exact lim c s \<Longrightarrow> lim \<le> c \<longleftrightarrow> unat lim \<le> s"
  by (auto simp: exact_def word_le_nat_alt)

section \<open>The accelerator keeps its headroom\<close>

definition spec_vram :: "u32 \<Rightarrow> nat \<Rightarrow> u32 \<Rightarrow> bool" where
  "spec_vram tot used need \<longleftrightarrow>
     need = 0 \<or> (used + unat need) * 2 ^ 20 + (unat tot * 2 ^ 20) div 20 \<le> unat tot * 2 ^ 20"

definition vram_free :: "u32 \<Rightarrow> nat \<Rightarrow> bool" where
  "vram_free tot s \<longleftrightarrow> s = 0 \<or> s * 2 ^ 20 + (unat tot * 2 ^ 20) div 20 \<le> unat tot * 2 ^ 20"

lemma vram_free_mono: "vram_free tot s \<Longrightarrow> s' \<le> s \<Longrightarrow> vram_free tot s'"
  by (auto simp: vram_free_def)

lemma vram_free_le: "vram_free tot s \<Longrightarrow> s \<le> unat tot"
  by (auto simp: vram_free_def)

lemma unat_mib: "unat (ucast x * MIB) = unat x * 2 ^ 20" for x :: u32
proof -
  have "unat x * 2 ^ 20 < 2 ^ 64" using unat_less_pow [of x] by simp
  then show ?thesis by (simp add: MIB_def unat_word_ariths unsigned_ucast_eq take_bit_nat_eq_self)
qed

lemma vram_admits_spec:
  assumes "exact tot used s"
  shows "vram_admits tot used need \<longleftrightarrow> spec_vram tot s need"
proof (cases "need = 0")
  case True
  then show ?thesis by (simp add: vram_admits_def spec_vram_def)
next
  case False
  let ?t = "unat tot * 2 ^ 20" and ?n = "unat need * 2 ^ 20" and ?u = "s * 2 ^ 20"
  have n: "0 < unat need" using False by (simp add: unat_gt_0)
  have u: "unat used = s" and le: "?u \<le> ?t" using assms by (auto simp: exact_def)
  define p where "p = \<lparr>ap_total = ucast tot * MIB, ap_reserved = ucast used * MIB\<rparr>"
  have free: "unat (pool_free p) = ?t - ?u" by (simp add: p_def pool_free_def unats unat_mib u)
  have head: "unat (pool_headroom p) = ?t div 20" by (simp add: p_def pool_headroom_def unats unat_mib)
  have need0: "ucast need * MIB \<noteq> 0" using n unat_mib [of need] by (metis mult_is_0 unat_0 not_less0 power_not_zero zero_neq_numeral)
  have "vram_admits tot used need \<longleftrightarrow> \<not> (pool_free p < ucast need * MIB) \<and> \<not> (pool_free p - ucast need * MIB < pool_headroom p)"
    using False need0 by (simp add: vram_admits_def pool_admit_def flip: p_def)
  also have "\<dots> \<longleftrightarrow> ?n \<le> ?t - ?u \<and> ?t div 20 \<le> ?t - ?u - ?n"
    by (auto simp: word_less_nat_alt not_less unat_mib free head unat_sub word_le_nat_alt)
  also have "\<dots> \<longleftrightarrow> spec_vram tot s need"
    using False n le by (auto simp: spec_vram_def algebra_simps)
  finally show ?thesis .
qed

section \<open>Scope counters\<close>

definition use_in :: "(string, scope_use) btree_map \<Rightarrow> string \<Rightarrow> scope_use" where
  "use_in m key = (case bt_get m key of None \<Rightarrow> scope_use_default | Some u \<Rightarrow> u)"

lemma use_of_eq: "use_of st key = use_in (ad_scopes st) key"
  by (simp add: use_of_def use_in_def)

lemma use_in_take:
  "use_in (take_scope (k, rq, tk) m) key =
     (if k = key then \<lparr>su_inflight = su_inflight (use_in m key) + 1, su_requests = sat_add (su_requests (use_in m key)) rq,
                      su_tokens = sat_add (su_tokens (use_in m key)) tk\<rparr>
      else use_in m key)"
  by (auto simp: take_scope_def use_in_def bt_get_upsert)

lemma use_in_drop:
  "use_in (drop_scope (k, rq, tk) m) key =
     (if k = key then \<lparr>su_inflight = sat_sub (su_inflight (use_in m key)) 1, su_requests = sat_sub (su_requests (use_in m key)) rq,
                      su_tokens = sat_sub (su_tokens (use_in m key)) tk\<rparr>
      else use_in m key)"
  by (auto simp: drop_scope_def use_in_def bt_get_insert scope_use_default_def sat_sub_def split: option.splits)

lemma fold_take_scope:
  "su_inflight (use_in (fold take_scope ss m) key) = su_inflight (use_in m key) + of_nat (\<Sum>(k, rq, tk)\<leftarrow>ss. of_bool (k = key))"
  "unat (su_requests (use_in (fold take_scope ss m) key)) =
     min (unat (su_requests (use_in m key)) + (\<Sum>(k, rq, tk)\<leftarrow>ss. if k = key then unat rq else 0)) (2 ^ 32 - 1)"
  "unat (su_tokens (use_in (fold take_scope ss m) key)) =
     min (unat (su_tokens (use_in m key)) + (\<Sum>(k, rq, tk)\<leftarrow>ss. if k = key then unat tk else 0)) (2 ^ 64 - 1)"
proof (induction ss arbitrary: m)
  case Nil
  { case 1 show ?case by simp }
  { case 2 show ?case using unat_le_max [of "su_requests (use_in m key)"] by simp }
  { case 3 show ?case using unat_le_max [of "su_tokens (use_in m key)"] by simp }
next
  case (Cons s ss)
  obtain k rq tk where s: "s = (k, rq, tk)" by (cases s)
  { case 1 show ?case by (simp add: Cons.IH(1) s use_in_take) }
  { case 2 show ?case by (auto simp: Cons.IH(2) s use_in_take unats min_def) }
  { case 3 show ?case by (auto simp: Cons.IH(3) s use_in_take unats min_def) }
qed

lemma fold_drop_scope:
  "unat (su_inflight (use_in (fold drop_scope ss m) key)) = unat (su_inflight (use_in m key)) - (\<Sum>(k, rq, tk)\<leftarrow>ss. of_bool (k = key))"
  "unat (su_requests (use_in (fold drop_scope ss m) key)) =
     unat (su_requests (use_in m key)) - (\<Sum>(k, rq, tk)\<leftarrow>ss. if k = key then unat rq else 0)"
  "unat (su_tokens (use_in (fold drop_scope ss m) key)) =
     unat (su_tokens (use_in m key)) - (\<Sum>(k, rq, tk)\<leftarrow>ss. if k = key then unat tk else 0)"
proof (induction ss arbitrary: m)
  case (Cons s ss)
  obtain k rq tk where s: "s = (k, rq, tk)" by (cases s)
  { case 1 show ?case by (simp add: Cons.IH(1) s use_in_drop unats) }
  { case 2 show ?case by (simp add: Cons.IH(2) s use_in_drop unats) }
  { case 3 show ?case by (simp add: Cons.IH(3) s use_in_drop unats) }
qed simp_all

section \<open>The books\<close>

definition scope_books :: "admission_limits \<Rightarrow> adm_state \<Rightarrow> (u64, held) btree_map \<Rightarrow> string \<Rightarrow> bool" where
  "scope_books lim st L key \<longleftrightarrow>
     exact (lim_inflight (scope_limits_of lim key)) (su_inflight (use_of st key)) (sumh (n_inflight key) L)
     \<and> gauge (lim_requests (scope_limits_of lim key)) (su_requests (use_of st key)) (sumh (n_requests key) L)
     \<and> gauge (lim_tokens (scope_limits_of lim key)) (su_tokens (use_of st key)) (sumh (n_tokens key) L)"

definition local_books :: "local_capacity \<Rightarrow> local_capacity \<Rightarrow> (u64, held) btree_map \<Rightarrow> bool" where
  "local_books lim c L \<longleftrightarrow>
     gauge (lc_cpu lim) (lc_cpu c) (sumh (n_local lc_cpu) L) \<and> gauge (lc_ram lim) (lc_ram c) (sumh (n_local lc_ram) L)
     \<and> exact (lc_vram lim) (lc_vram c) (sumh (n_local lc_vram) L) \<and> vram_free (lc_vram lim) (sumh (n_local lc_vram) L)
     \<and> gauge (lc_sub lim) (lc_sub c) (sumh (n_local lc_sub) L)"

definition books :: "admission_limits \<Rightarrow> adm_state \<Rightarrow> (u64, held) btree_map \<Rightarrow> bool" where
  "books lim st L \<longleftrightarrow>
     (\<forall>key. scope_books lim st L key) \<and> local_books (al_local lim) (ad_local st) L
     \<and> exact (al_global lim) (ad_global st) (sumh n_slot L)
     \<and> (\<forall>m. exact (al_mission lim) (mission_jobs st m) (sumh (n_mission m) L))"

text \<open>There is room for one more ticket.\<close>

definition scope_room :: "admission_limits \<Rightarrow> (u64, held) btree_map \<Rightarrow> held \<Rightarrow> string \<Rightarrow> bool" where
  "scope_room lim L h key \<longleftrightarrow>
     sumh (n_inflight key) L + n_inflight key h \<le> unat (lim_inflight (scope_limits_of lim key))
     \<and> fits (lim_requests (scope_limits_of lim key)) (sumh (n_requests key) L + n_requests key h)
     \<and> fits (lim_tokens (scope_limits_of lim key)) (sumh (n_tokens key) L + n_tokens key h)"

definition local_room :: "local_capacity \<Rightarrow> (u64, held) btree_map \<Rightarrow> held \<Rightarrow> bool" where
  "local_room lim L h \<longleftrightarrow>
     fits (lc_cpu lim) (sumh (n_local lc_cpu) L + n_local lc_cpu h) \<and> fits (lc_ram lim) (sumh (n_local lc_ram) L + n_local lc_ram h)
     \<and> vram_free (lc_vram lim) (sumh (n_local lc_vram) L + n_local lc_vram h)
     \<and> fits (lc_sub lim) (sumh (n_local lc_sub) L + n_local lc_sub h)"

definition room :: "admission_limits \<Rightarrow> (u64, held) btree_map \<Rightarrow> held \<Rightarrow> bool" where
  "room lim L h \<longleftrightarrow>
     (\<forall>key. scope_room lim L h key) \<and> local_room (al_local lim) L h
     \<and> sumh n_slot L + n_slot h \<le> unat (al_global lim)
     \<and> (\<forall>m. sumh (n_mission m) L + n_mission m h \<le> unat (al_mission lim))"

lemma take_held_fields:
  "ad_scopes (take_held h st) = fold take_scope (ht_scopes h) (ad_scopes st)"
  "ad_local (take_held h st) = local_add (ad_local st) (ht_local h)"
  "ad_global (take_held h st) = ad_global st + of_nat (n_slot h)"
  "mission_jobs (take_held h st) m = mission_jobs st m + of_nat (n_mission m h)"
  by (auto simp: take_held_def n_slot_def n_mission_def mission_jobs_def bt_get_upsert)

lemma free_held_fields:
  "ad_scopes (free_held h st) = fold drop_scope (ht_scopes h) (ad_scopes st)"
  "ad_local (free_held h st) = local_sub (ad_local st) (ht_local h)"
  "unat (ad_global (free_held h st)) = unat (ad_global st) - n_slot h"
  "unat (mission_jobs (free_held h st) m) = unat (mission_jobs st m) - n_mission m h"
  by (auto simp: free_held_def n_slot_def n_mission_def mission_jobs_def bt_get_insert unats split: option.splits)

lemma books_take:
  assumes b: "books lim st L" and r: "room lim L h" and new: "ht_ticket h \<notin> fst ` set L"
  shows "books lim (take_held h st) (bt_insert (ht_ticket h) h L)"
proof -
  note sum = sumh_insert [OF new]
  have "scope_books lim (take_held h st) (bt_insert (ht_ticket h) h L) key" for key
  proof -
    have bk: "scope_books lim st L key" and rk: "scope_room lim L h key" using b r by (auto simp: books_def room_def)
    show ?thesis
      unfolding scope_books_def sum use_of_eq take_held_fields
    proof (intro conjI)
      show "exact (lim_inflight (scope_limits_of lim key))
          (su_inflight (use_in (fold take_scope (ht_scopes h) (ad_scopes st)) key)) (sumh (n_inflight key) L + n_inflight key h)"
        by (rule exact_add [OF _ _ fold_take_scope(1) [of "ht_scopes h" "ad_scopes st" key, folded n_inflight_def]])
          (use bk rk in \<open>simp_all add: scope_books_def scope_room_def use_of_eq\<close>)
      show "gauge (lim_requests (scope_limits_of lim key))
          (su_requests (use_in (fold take_scope (ht_scopes h) (ad_scopes st)) key)) (sumh (n_requests key) L + n_requests key h)"
        by (rule gauge_add [of _ "su_requests (use_in (ad_scopes st) key)"])
          (use bk rk in \<open>simp_all add: scope_books_def scope_room_def use_of_eq fold_take_scope(2) flip: n_requests_def\<close>)
      show "gauge (lim_tokens (scope_limits_of lim key))
          (su_tokens (use_in (fold take_scope (ht_scopes h) (ad_scopes st)) key)) (sumh (n_tokens key) L + n_tokens key h)"
        by (rule gauge_add [of _ "su_tokens (use_in (ad_scopes st) key)"])
          (use bk rk in \<open>simp_all add: scope_books_def scope_room_def use_of_eq fold_take_scope(3) flip: n_tokens_def\<close>)
    qed
  qed
  moreover have "local_books (al_local lim) (ad_local (take_held h st)) (bt_insert (ht_ticket h) h L)"
  proof -
    have bl: "local_books (al_local lim) (ad_local st) L" and rl: "local_room (al_local lim) L h"
      using b r by (auto simp: books_def room_def)
    have vr: "exact (lc_vram (al_local lim)) (sat_add (lc_vram (ad_local st)) (lc_vram (ht_local h)))
        (sumh (n_local lc_vram) L + n_local lc_vram h)"
      using bl rl unat_le_max [of "lc_vram (al_local lim)"]
        vram_free_le [of "lc_vram (al_local lim)" "sumh (n_local lc_vram) L + n_local lc_vram h"]
      by (auto simp: local_books_def local_room_def exact_def n_local_def unats)
    have "gauge l (sat_add c x) (s + unat x)" if "gauge l c s" "fits l (s + unat x)" for l c x :: u32 and s
      by (rule gauge_add [OF that]) (simp add: unats)
    then show ?thesis
      using bl rl vr by (simp add: local_books_def local_room_def sum take_held_fields local_add_def n_local_def)
  qed
  moreover have "exact (al_global lim) (ad_global (take_held h st)) (sumh n_slot (bt_insert (ht_ticket h) h L))"
    unfolding sum by (rule exact_add [OF _ _ take_held_fields(3)]) (use b r in \<open>auto simp: books_def room_def\<close>)
  moreover have "exact (al_mission lim) (mission_jobs (take_held h st) m) (sumh (n_mission m) (bt_insert (ht_ticket h) h L))" for m
    unfolding sum by (rule exact_add [OF _ _ take_held_fields(4)]) (use b r in \<open>auto simp: books_def room_def\<close>)
  ultimately show ?thesis by (simp add: books_def)
qed

lemma books_free:
  assumes b: "books lim st L" and inv: "bt_inv L" and h: "bt_get L i = Some h"
  shows "books lim (free_held h st) (bt_remove i L)"
proof -
  note sum = sumh_remove [OF inv h]
  have "scope_books lim (free_held h st) (bt_remove i L) key" for key
  proof -
    have bk: "scope_books lim st L key" using b by (auto simp: books_def)
    note bk' = bk [unfolded scope_books_def sum use_of_eq]
    note dr = fold_drop_scope [of "ht_scopes h" "ad_scopes st" key, folded n_inflight_def n_requests_def n_tokens_def]
    show ?thesis
      unfolding scope_books_def use_of_eq free_held_fields
      using exact_sub [OF _ dr(1)] gauge_sub [OF _ dr(2)] gauge_sub [OF _ dr(3)] bk' by blast
  qed
  moreover have "local_books (al_local lim) (ad_local (free_held h st)) (bt_remove i L)"
  proof -
    have bl: "local_books (al_local lim) (ad_local st) L" using b by (auto simp: books_def)
    have "gauge l (sat_sub c x) s" if "gauge l c (s + unat x)" for l c x :: u32 and s
      by (rule gauge_sub [OF that]) (simp add: unats)
    moreover have "exact l (sat_sub c x) s" if "exact l c (s + unat x)" for l c x :: u32 and s
      by (rule exact_sub [OF that]) (simp add: unats)
    moreover have "vram_free (lc_vram (al_local lim)) (sumh (n_local lc_vram) (bt_remove i L))"
      by (rule vram_free_mono [of _ "sumh (n_local lc_vram) (bt_remove i L) + n_local lc_vram h"])
        (use bl [unfolded local_books_def sum] in simp_all)
    ultimately show ?thesis
      using bl [unfolded local_books_def sum] by (simp add: local_books_def free_held_fields local_sub_def n_local_def)
  qed
  moreover have "exact (al_global lim) (ad_global (free_held h st)) (sumh n_slot (bt_remove i L))"
    by (rule exact_sub [OF _ free_held_fields(3)]) (use b in \<open>simp add: books_def sum\<close>)
  moreover have "exact (al_mission lim) (mission_jobs (free_held h st) m) (sumh (n_mission m) (bt_remove i L))" for m
    by (rule exact_sub [OF _ free_held_fields(4)]) (use b in \<open>simp add: books_def sum\<close>)
  ultimately show ?thesis by (simp add: books_def)
qed

section \<open>The specification: tickets, a queue and sums\<close>

record adm_spec =
  as_held :: "(u64, held) btree_map"
  as_queue :: "string list"
  as_next :: u64

definition adm_abs :: "adm_state \<Rightarrow> adm_spec" where
  "adm_abs st = \<lparr>as_held = ad_held st, as_queue = ad_queue st, as_next = ad_next st\<rparr>"

definition spec_scope_full :: "admission_limits \<Rightarrow> (u64, held) btree_map \<Rightarrow> scope_request \<Rightarrow> bool" where
  "spec_scope_full lim L s \<longleftrightarrow>
     (let l = scope_limits_of lim (sq_key s)
      in unat (lim_inflight l) \<le> sumh (n_inflight (sq_key s)) L
         \<or> \<not> fits (lim_requests l) (sumh (n_requests (sq_key s)) L + unat (sq_requests s))
         \<or> \<not> fits (lim_tokens l) (sumh (n_tokens (sq_key s)) L + unat (sq_tokens s)))"

definition spec_denial :: "admission_limits \<Rightarrow> admit_request \<Rightarrow> (u64, held) btree_map \<Rightarrow> backpressure option" where
  "spec_denial lim req L =
     (if aq_slot req \<and> unat (al_global lim) \<le> sumh n_slot L then Some GlobalFull
      else if aq_slot req \<and> unat (al_mission lim) \<le> sumh (n_mission (aq_mission req)) L then Some MissionFull
      else if fits (lc_cpu (al_local lim)) (sumh (n_local lc_cpu) L + unat (lc_cpu (aq_local req)))
            \<and> fits (lc_ram (al_local lim)) (sumh (n_local lc_ram) L + unat (lc_ram (aq_local req)))
            \<and> spec_vram (lc_vram (al_local lim)) (sumh (n_local lc_vram) L) (lc_vram (aq_local req))
            \<and> fits (lc_sub (al_local lim)) (sumh (n_local lc_sub) L + unat (lc_sub (aq_local req)))
      then map_option (\<lambda>s. ScopeFull (sq_key s)) (List.find (spec_scope_full lim L) (aq_scopes req))
      else Some LocalExhausted)"

definition spec_try :: "admission_limits \<Rightarrow> u64 \<Rightarrow> admit_request \<Rightarrow> adm_spec \<Rightarrow> (backpressure + u64) \<times> adm_spec" where
  "spec_try lim now req a =
     (let queued = List.member (as_queue a) (aq_job req);
          wait = (\<lambda>b. if al_queue lim \<le> length (as_queue a) then (Inl QueueFull, a)
                      else (Inl b, a\<lparr>as_queue := as_queue a @ [aq_job req]\<rparr>))
      in case List.find (\<lambda>(_, h). ht_job h = aq_job req) (as_held a) of
           Some (i, _) \<Rightarrow> (Inr i, a)
         | None \<Rightarrow>
             if aq_slot req \<and> \<not> queued \<and> as_queue a \<noteq> [] then wait (Queued (Suc (length (as_queue a))))
             else case spec_denial lim req (as_held a) of
                 None \<Rightarrow>
                   let i = as_next a + 1
                   in (Inr i, \<lparr>as_held = bt_insert i (held_of lim now req i) (as_held a),
                              as_queue = remove1 (aq_job req) (as_queue a), as_next = i\<rparr>)
               | Some b \<Rightarrow>
                   if is_scope_full b \<or> \<not> aq_slot req \<or> queued then (Inl b, a) else wait b)"

definition spec_admit :: "admission_limits \<Rightarrow> u64 \<Rightarrow> admit_request \<Rightarrow> adm_spec \<Rightarrow> (backpressure + u64) \<times> adm_spec" where
  "spec_admit lim now req a =
     spec_try lim now req (a\<lparr>as_held := filter (\<lambda>(_, h). now < ht_expires h) (as_held a)\<rparr>)"

definition spec_release :: "u64 \<Rightarrow> adm_spec \<Rightarrow> adm_spec" where
  "spec_release i a = a\<lparr>as_held := bt_remove i (as_held a)\<rparr>"

lemma scope_full_spec:
  assumes "books lim st L"
  shows "scope_full lim st s \<longleftrightarrow> spec_scope_full lim L s"
proof -
  have b: "scope_books lim st L (sq_key s)" using assms by (simp add: books_def)
  have e: "exact (lim_inflight (scope_limits_of lim (sq_key s))) (su_inflight (use_of st (sq_key s))) (sumh (n_inflight (sq_key s)) L)"
    and g: "gauge (lim_requests (scope_limits_of lim (sq_key s))) (su_requests (use_of st (sq_key s))) (sumh (n_requests (sq_key s)) L)"
    and t: "gauge (lim_tokens (scope_limits_of lim (sq_key s))) (su_tokens (use_of st (sq_key s))) (sumh (n_tokens (sq_key s)) L)"
    using b by (simp_all add: scope_books_def)
  show ?thesis
    by (simp add: scope_full_def spec_scope_full_def Let_def exact_full [OF e] gauge_over [OF g] gauge_over [OF t])
qed

lemma grant_denial_spec:
  assumes "books lim st L"
  shows "grant_denial lim req st = spec_denial lim req L"
proof -
  have "al_global lim \<le> ad_global st \<longleftrightarrow> unat (al_global lim) \<le> sumh n_slot L"
    "al_mission lim \<le> mission_jobs st m \<longleftrightarrow> unat (al_mission lim) \<le> sumh (n_mission m) L" for m
    using assms exact_full [of "al_global lim"] exact_full [of "al_mission lim"] unfolding books_def by blast+
  moreover have "lc_cpu (al_local lim) < sat_add (lc_cpu (ad_local st)) x \<longleftrightarrow> \<not> fits (lc_cpu (al_local lim)) (sumh (n_local lc_cpu) L + unat x)"
    "lc_ram (al_local lim) < sat_add (lc_ram (ad_local st)) x \<longleftrightarrow> \<not> fits (lc_ram (al_local lim)) (sumh (n_local lc_ram) L + unat x)"
    "lc_sub (al_local lim) < sat_add (lc_sub (ad_local st)) x \<longleftrightarrow> \<not> fits (lc_sub (al_local lim)) (sumh (n_local lc_sub) L + unat x)"
    "vram_admits (lc_vram (al_local lim)) (lc_vram (ad_local st)) x \<longleftrightarrow> spec_vram (lc_vram (al_local lim)) (sumh (n_local lc_vram) L) x" for x
    using assms gauge_over [of "lc_cpu (al_local lim)"] gauge_over [of "lc_ram (al_local lim)"]
      gauge_over [of "lc_sub (al_local lim)"] vram_admits_spec [of "lc_vram (al_local lim)"]
    unfolding books_def local_books_def by blast+
  moreover have "scope_full lim st = spec_scope_full lim L" using scope_full_spec [OF assms] by blast
  ultimately show ?thesis by (simp add: grant_denial_def spec_denial_def local_add_def)
qed

text \<open>For a request that names no scope twice, passing the tests means there is room.\<close>

definition keys_once :: "admit_request \<Rightarrow> bool" where
  "keys_once req \<longleftrightarrow> distinct (map sq_key (aq_scopes req))"

lemma sum_key_once:
  assumes "distinct (map sq_key ss)"
  shows "(\<Sum>s\<leftarrow>ss. if sq_key s = key then f s else (0::nat)) =
    (case List.find (\<lambda>s. sq_key s = key) ss of None \<Rightarrow> 0 | Some s \<Rightarrow> f s)"
  using assms
proof (induction ss)
  case (Cons s ss)
  have "List.find (\<lambda>s. sq_key s = key) ss = None" if "sq_key s = key"
    using Cons.prems that by (auto simp: find_None_iff image_iff)
  then show ?case using Cons by auto
qed simp

lemma held_of_counts:
  "n_inflight key (held_of lim now req i) = (\<Sum>s\<leftarrow>aq_scopes req. if sq_key s = key then 1 else 0)"
  "n_requests key (held_of lim now req i) = (\<Sum>s\<leftarrow>aq_scopes req. if sq_key s = key then unat (sq_requests s) else 0)"
  "n_tokens key (held_of lim now req i) = (\<Sum>s\<leftarrow>aq_scopes req. if sq_key s = key then unat (sq_tokens s) else 0)"
  "n_slot (held_of lim now req i) = of_bool (aq_slot req)"
  "n_mission m (held_of lim now req i) = of_bool (aq_slot req \<and> aq_mission req = m)"
  "n_local f (held_of lim now req i) = unat (f (aq_local req))"
  by (simp_all add: held_of_def n_inflight_def n_requests_def n_tokens_def n_slot_def n_mission_def n_local_def comp_def
      of_bool_def)

lemma held_of_sel [simp]: "ht_ticket (held_of lim now req i) = i" "ht_job (held_of lim now req i) = aq_job req"
  by (simp_all add: held_of_def)

lemma spec_vram_fits: "spec_vram tot s need \<Longrightarrow> vram_free tot s \<Longrightarrow> vram_free tot (s + unat need)"
  by (auto simp: spec_vram_def vram_free_def)

lemma room_of_denial:
  assumes b: "books lim st L" and d: "spec_denial lim req L = None" and once: "keys_once req"
  shows "room lim L (held_of lim now req i)"
proof -
  have le: "sumh (n_inflight key) L \<le> unat (lim_inflight (scope_limits_of lim key))"
    "fits (lim_requests (scope_limits_of lim key)) (sumh (n_requests key) L)"
    "fits (lim_tokens (scope_limits_of lim key)) (sumh (n_tokens key) L)" for key
    using b by (auto simp: books_def scope_books_def exact_def gauge_def fits_def)
  have ss: "\<not> spec_scope_full lim L s" if "s \<in> set (aq_scopes req)" for s
    using d that by (auto simp: spec_denial_def find_None_iff split: if_splits)
  have scope: "scope_room lim L (held_of lim now req i) key" for key
  proof (cases "List.find (\<lambda>s. sq_key s = key) (aq_scopes req)")
    case None
    then show ?thesis using le [of key] by (simp add: scope_room_def held_of_counts sum_key_once [OF once [unfolded keys_once_def]])
  next
    case (Some s)
    then have s: "s \<in> set (aq_scopes req)" "sq_key s = key" by (auto simp: find_Some_iff)
    then show ?thesis using ss [OF s(1)] Some
      by (simp add: scope_room_def held_of_counts sum_key_once [OF once [unfolded keys_once_def]] spec_scope_full_def Let_def)
  qed
  have "vram_free (lc_vram (al_local lim)) (sumh (n_local lc_vram) L)"
    using b by (simp add: books_def local_books_def)
  then have "local_room (al_local lim) L (held_of lim now req i)"
    using d spec_vram_fits by (auto simp: spec_denial_def local_room_def held_of_counts split: if_splits)
  moreover have "sumh n_slot L \<le> unat (al_global lim)" "sumh (n_mission m) L \<le> unat (al_mission lim)" for m
    using b by (auto simp: books_def exact_def)
  then have "sumh n_slot L + n_slot (held_of lim now req i) \<le> unat (al_global lim)"
    "sumh (n_mission m) L + n_mission m (held_of lim now req i) \<le> unat (al_mission lim)" for m
    using d by (auto simp: spec_denial_def held_of_counts split: if_splits)
  ultimately show ?thesis using scope by (simp add: room_def)
qed

section \<open>The invariant and the refinement\<close>

definition tickets_ok :: "adm_state \<Rightarrow> bool" where
  "tickets_ok st \<longleftrightarrow>
     bt_inv (ad_held st)
     \<and> (\<forall>i h. bt_get (ad_held st) i = Some h \<longrightarrow> ht_ticket h = i \<and> i \<le> ad_next st)
     \<and> (\<forall>j i. bt_get (ad_by_job st) j = Some i \<longleftrightarrow> (\<exists>h. bt_get (ad_held st) i = Some h \<and> ht_job h = j))"

definition adm_inv :: "admission_limits \<Rightarrow> adm_state \<Rightarrow> bool" where
  "adm_inv lim st \<longleftrightarrow> books lim st (ad_held st) \<and> tickets_ok st"

lemma books_irrelevant [simp]:
  "books lim (st\<lparr>ad_held := x\<rparr>) L = books lim st L" "books lim (st\<lparr>ad_queue := q\<rparr>) L = books lim st L"
  "books lim (st\<lparr>ad_next := n\<rparr>) L = books lim st L"
  by (simp_all add: books_def scope_books_def use_of_def mission_jobs_def)

lemma free_held_kept:
  "ad_held (free_held h st) = ad_held st" "ad_queue (free_held h st) = ad_queue st" "ad_next (free_held h st) = ad_next st"
  "ad_by_job (free_held h st) = bt_remove (ht_job h) (ad_by_job st)"
  by (simp_all add: free_held_def)

lemma release_step:
  assumes "adm_inv lim st"
  shows "adm_inv lim (adm_release i st) \<and> adm_abs (adm_release i st) = spec_release i (adm_abs st)"
proof (cases "bt_get (ad_held st) i")
  case None
  then have "i \<notin> fst ` set (ad_held st)" by (simp add: bt_get_None)
  then have "bt_remove i (ad_held st) = ad_held st" by (auto simp: bt_remove_def filter_id_conv image_iff split: prod.splits)
  then show ?thesis using assms None by (simp add: adm_release_def adm_abs_def spec_release_def)
next
  case (Some h)
  have inv: "bt_inv (ad_held st)" and b: "books lim st (ad_held st)"
    and jobs: "\<And>j i. bt_get (ad_by_job st) j = Some i \<longleftrightarrow> (\<exists>h. bt_get (ad_held st) i = Some h \<and> ht_job h = j)"
    and wf: "\<And>i h. bt_get (ad_held st) i = Some h \<Longrightarrow> ht_ticket h = i \<and> i \<le> ad_next st"
    using assms by (auto simp: adm_inv_def tickets_ok_def)
  have mine: "bt_get (ad_by_job st) (ht_job h) = Some i" using jobs Some by blast
  have "books lim (free_held h (st\<lparr>ad_held := bt_remove i (ad_held st)\<rparr>)) (bt_remove i (ad_held st))"
    using books_free [OF _ inv Some, of lim "st\<lparr>ad_held := bt_remove i (ad_held st)\<rparr>"] b by simp
  moreover have "bt_get (bt_remove (ht_job h) (ad_by_job st)) j = Some k \<longleftrightarrow>
      (\<exists>g. bt_get (bt_remove i (ad_held st)) k = Some g \<and> ht_job g = j)" for j k
  proof (cases "j = ht_job h")
    case True
    have "k = i" if "bt_get (ad_held st) k = Some g" "ht_job g = ht_job h" for g
      using that jobs [of "ht_job h" k] mine by auto
    then show ?thesis using True by (auto simp: bt_get_remove)
  next
    case False
    have "k \<noteq> i" if "bt_get (ad_held st) k = Some g" "ht_job g = j" for g using that Some False by auto
    then show ?thesis using False jobs [of j k] by (auto simp: bt_get_remove)
  qed
  ultimately show ?thesis using Some inv wf
    by (auto simp: adm_release_def adm_inv_def tickets_ok_def adm_abs_def spec_release_def free_held_kept bt_get_remove
        bt_inv_remove split: if_splits)
qed

lemma fold_release:
  "adm_inv lim st \<Longrightarrow>
     adm_inv lim (fold adm_release is st)
     \<and> adm_abs (fold adm_release is st) = (adm_abs st)\<lparr>as_held := filter (\<lambda>e. fst e \<notin> set is) (ad_held st)\<rparr>"
proof (induction "is" arbitrary: st)
  case Nil
  then show ?case by (simp add: adm_abs_def)
next
  case (Cons i "is")
  note step = release_step [OF Cons.prems, of i]
  have "ad_held (adm_release i st) = bt_remove i (ad_held st)"
    using step by (simp add: adm_abs_def spec_release_def)
  with step Cons.IH [of "adm_release i st"] show ?case
    by (simp add: spec_release_def bt_remove_def filter_filter case_prod_unfold adm_abs_def conj_commute)
qed

lemma purge_step:
  assumes "adm_inv lim st"
  shows "adm_inv lim (purge_expired now st)
    \<and> adm_abs (purge_expired now st) = (adm_abs st)\<lparr>as_held := filter (\<lambda>(_, h). now < ht_expires h) (ad_held st)\<rparr>"
proof -
  let ?E = "map fst (filter (\<lambda>(_, h). ht_expires h \<le> now) (ad_held st))"
  have d: "distinct (map fst (ad_held st))" using assms by (simp add: adm_inv_def tickets_ok_def bt_inv_distinct)
  have "fst e \<notin> set ?E \<longleftrightarrow> now < ht_expires (snd e)" if "e \<in> set (ad_held st)" for e
  proof
    assume "fst e \<notin> set ?E"
    then show "now < ht_expires (snd e)" using that by (cases e) (force simp: not_le [symmetric])
  next
    assume late: "now < ht_expires (snd e)"
    show "fst e \<notin> set ?E"
    proof
      assume "fst e \<in> set ?E"
      then obtain h where h: "(fst e, h) \<in> set (ad_held st)" "ht_expires h \<le> now" by auto
      with that have "h = snd e" using eq_key_imp_eq_value [OF d, of "fst e" h "snd e"] by simp
      with h(2) late show False by simp
    qed
  qed
  then have "filter (\<lambda>e. fst e \<notin> set ?E) (ad_held st) = filter (\<lambda>(_, h). now < ht_expires h) (ad_held st)"
    by (intro filter_cong) (auto simp: case_prod_unfold)
  with fold_release [OF assms, of ?E] show ?thesis by (simp add: purge_expired_def)
qed

lemma by_job_find:
  assumes "tickets_ok st"
  shows "bt_get (ad_by_job st) j = map_option fst (List.find (\<lambda>(_, h). ht_job h = j) (ad_held st))"
proof -
  have inv: "bt_inv (ad_held st)"
    and jobs: "\<And>j i. bt_get (ad_by_job st) j = Some i \<longleftrightarrow> (\<exists>h. bt_get (ad_held st) i = Some h \<and> ht_job h = j)"
    using assms by (auto simp: tickets_ok_def)
  show ?thesis
  proof (cases "List.find (\<lambda>(_, h). ht_job h = j) (ad_held st)")
    case None
    then have "\<not> (\<exists>i h. bt_get (ad_held st) i = Some h \<and> ht_job h = j)"
      by (auto simp: find_None_iff bt_get_mem [OF inv])
    then have "bt_get (ad_by_job st) j = None" using jobs by (cases "bt_get (ad_by_job st) j") auto
    then show ?thesis using None by simp
  next
    case (Some e)
    then have "e \<in> set (ad_held st)" "ht_job (snd e) = j" by (auto simp: find_Some_iff case_prod_unfold)
    then have "bt_get (ad_by_job st) j = Some (fst e)" using jobs bt_get_mem [OF inv] by (metis prod.collapse)
    then show ?thesis using Some by simp
  qed
qed

lemma take_held_kept:
  "ad_held (take_held h st) = bt_insert (ht_ticket h) h (ad_held st)" "ad_queue (take_held h st) = ad_queue st"
  "ad_next (take_held h st) = ad_next st" "ad_by_job (take_held h st) = bt_insert (ht_job h) (ht_ticket h) (ad_by_job st)"
  by (simp_all add: take_held_def)

lemma take_inv:
  assumes inv: "adm_inv lim st" and room: "room lim (ad_held st) h"
    and fresh: "bt_get (ad_held st) (ht_ticket h) = None" and job: "bt_get (ad_by_job st) (ht_job h) = None"
    and nxt: "ht_ticket h \<le> n" "ad_next st \<le> n"
  shows "adm_inv lim (take_held h (st\<lparr>ad_next := n\<rparr>))"
proof -
  have new: "ht_ticket h \<notin> fst ` set (ad_held st)" using fresh by (simp add: bt_get_None)
  have jobs: "\<And>j i. bt_get (ad_by_job st) j = Some i \<longleftrightarrow> (\<exists>h. bt_get (ad_held st) i = Some h \<and> ht_job h = j)"
    and wf: "\<And>i h. bt_get (ad_held st) i = Some h \<Longrightarrow> ht_ticket h = i \<and> i \<le> ad_next st"
    and bi: "bt_inv (ad_held st)"
    using inv by (auto simp: adm_inv_def tickets_ok_def)
  have free: "\<not> (bt_get (ad_held st) i = Some g \<and> ht_job g = ht_job h)" for i g using jobs [of "ht_job h" i] job by auto
  have "bt_get (bt_insert (ht_job h) (ht_ticket h) (ad_by_job st)) j = Some i \<longleftrightarrow>
      (\<exists>g. bt_get (bt_insert (ht_ticket h) h (ad_held st)) i = Some g \<and> ht_job g = j)" for j i
    using free [of i] jobs [of j i] fresh by (auto simp: bt_get_insert)
  moreover have "books lim (take_held h (st\<lparr>ad_next := n\<rparr>)) (bt_insert (ht_ticket h) h (ad_held st))"
    by (rule books_take [OF _ room new]) (use inv in \<open>simp add: adm_inv_def\<close>)
  moreover have "ht_ticket g = i \<and> i \<le> n" if "bt_get (bt_insert (ht_ticket h) h (ad_held st)) i = Some g" for i g
    using that wf [of i g] nxt by (auto simp: bt_get_insert split: if_splits)
  ultimately show ?thesis
    using bi by (simp add: adm_inv_def tickets_ok_def take_held_kept bt_inv_insert)
qed

lemma adm_inv_queue [simp]: "adm_inv lim (st\<lparr>ad_queue := q\<rparr>) = adm_inv lim st"
  by (simp add: adm_inv_def tickets_ok_def)

lemma adm_abs_sel: "as_held (adm_abs st) = ad_held st" "as_queue (adm_abs st) = ad_queue st" "as_next (adm_abs st) = ad_next st"
  by (simp_all add: adm_abs_def)

lemma next_ticket:
  assumes "tickets_ok st" and "ad_next st < - 1"
  shows "bt_get (ad_held st) (ad_next st + 1) = None" "ad_next st \<le> ad_next st + 1"
proof -
  have lt: "ad_next st < ad_next st + 1" using assms(2) unat_less_pow [of "ad_next st"]
    by (simp add: word_less_nat_alt unat_word_ariths unat_max_word)
  then show "ad_next st \<le> ad_next st + 1" by simp
  show "bt_get (ad_held st) (ad_next st + 1) = None"
  proof (rule ccontr)
    assume "bt_get (ad_held st) (ad_next st + 1) \<noteq> None"
    then have "ad_next st + 1 \<le> ad_next st" using assms(1) by (auto simp: tickets_ok_def)
    with lt show False by simp
  qed
qed

lemma admit_step:
  assumes inv0: "adm_inv lim st0" and once: "keys_once req" and more: "ad_next st0 < - 1"
    and run: "adm_admit lim now req st0 = (r, st')"
  shows "adm_inv lim st' \<and> spec_admit lim now req (adm_abs st0) = (r, adm_abs st')"
proof -
  define st where "st = purge_expired now st0"
  have inv: "adm_inv lim st" and abs: "adm_abs st = (adm_abs st0)\<lparr>as_held := filter (\<lambda>(_, h). now < ht_expires h) (ad_held st0)\<rparr>"
    using purge_step [OF inv0, of now] by (simp_all add: st_def)
  have ok: "tickets_ok st" and b: "books lim st (ad_held st)" using inv by (simp_all add: adm_inv_def)
  have fields: "ad_held st = filter (\<lambda>(_, h). now < ht_expires h) (ad_held st0)" "ad_queue st = ad_queue st0" "ad_next st = ad_next st0"
    using abs by (simp_all add: adm_abs_def)
  have spec: "spec_admit lim now req (adm_abs st0) = spec_try lim now req (adm_abs st)"
    by (simp add: spec_admit_def abs adm_abs_sel)
  note find = by_job_find [OF ok, of "aq_job req"]
  note denial = grant_denial_spec [OF b, of req]
  show ?thesis
    unfolding spec
  proof (cases "bt_get (ad_by_job st) (aq_job req)")
    case (Some i)
    then show "adm_inv lim st' \<and> spec_try lim now req (adm_abs st) = (r, adm_abs st')" using run inv find
      by (auto simp: adm_admit_def spec_try_def Let_def adm_abs_sel simp flip: st_def)
  next
    case None
    have nf: "List.find (\<lambda>(_, h). ht_job h = aq_job req) (ad_held st) = None" using None find by simp
    show "adm_inv lim st' \<and> spec_try lim now req (adm_abs st) = (r, adm_abs st')"
    proof (cases "(aq_slot req \<and> \<not> List.member (ad_queue st) (aq_job req) \<and> ad_queue st \<noteq> []) \<or> grant_denial lim req st \<noteq> None")
      case True
      then show ?thesis using run inv None nf denial
        by (auto simp: adm_admit_def spec_try_def Let_def adm_abs_def simp flip: st_def split: if_splits)
    next
      case False
      let ?i = "ad_next st + 1"
      let ?h = "held_of lim now req ?i"
      have room: "room lim (ad_held st) ?h" using room_of_denial [OF b _ once] False denial by simp
      have "adm_inv lim (take_held ?h (st\<lparr>ad_next := ?i\<rparr>))"
        by (rule take_inv [OF inv room]) (use next_ticket [OF ok] more fields None in simp_all)
      moreover have "r = Inr ?i" "st' = (take_held ?h (st\<lparr>ad_next := ?i\<rparr>))\<lparr>ad_queue := remove1 (aq_job req) (ad_queue st)\<rparr>"
        using run None False by (auto simp: adm_admit_def Let_def take_held_kept simp flip: st_def)
      ultimately show ?thesis using False denial nf
        by (auto simp: spec_try_def Let_def adm_abs_def take_held_kept)
    qed
  qed
qed

lemma probe_step:
  assumes "adm_inv lim st"
  shows "adm_inv lim (snd (adm_probe lim now req st))"
proof -
  have "snd (adm_probe lim now req st) = purge_expired now st"
    by (simp add: adm_probe_def Let_def split: option.splits)
  then show ?thesis using purge_step [OF assms] by simp
qed

section \<open>Restarts\<close>

text \<open>\<open>within\<close>: the sums over the tickets respect every limit.\<close>

definition within :: "admission_limits \<Rightarrow> (u64, held) btree_map \<Rightarrow> bool" where
  "within lim L \<longleftrightarrow>
     (\<forall>key. sumh (n_inflight key) L \<le> unat (lim_inflight (scope_limits_of lim key))
        \<and> fits (lim_requests (scope_limits_of lim key)) (sumh (n_requests key) L)
        \<and> fits (lim_tokens (scope_limits_of lim key)) (sumh (n_tokens key) L))
     \<and> fits (lc_cpu (al_local lim)) (sumh (n_local lc_cpu) L) \<and> fits (lc_ram (al_local lim)) (sumh (n_local lc_ram) L)
     \<and> vram_free (lc_vram (al_local lim)) (sumh (n_local lc_vram) L) \<and> fits (lc_sub (al_local lim)) (sumh (n_local lc_sub) L)
     \<and> sumh n_slot L \<le> unat (al_global lim) \<and> (\<forall>m. sumh (n_mission m) L \<le> unat (al_mission lim))"

lemma books_within: "books lim st L \<Longrightarrow> within lim L"
  by (auto simp: books_def scope_books_def local_books_def exact_def gauge_def fits_def within_def)

lemma fits_mono: "fits lim s \<Longrightarrow> s' \<le> s \<Longrightarrow> fits lim s'"
  by (auto simp: fits_def)

lemma within_mono:
  assumes "within lim L" and "\<And>f. sumh f L' \<le> sumh f L"
  shows "within lim L'"
  using assms(1) assms(2) unfolding within_def by (meson fits_mono le_trans vram_free_mono)

lemma room_of_within: "within lim (bt_insert (ht_ticket h) h L) \<Longrightarrow> ht_ticket h \<notin> fst ` set L \<Longrightarrow> room lim L h"
  by (simp add: within_def room_def scope_room_def local_room_def sumh_insert vram_free_le)

lemma bt_insert_last: "\<forall>x\<in>fst ` set m. x < k \<Longrightarrow> bt_insert k v m = m @ [(k, v)]"
  by (induction k v m rule: bt_insert.induct) auto

lemma jobs_distinct:
  assumes "tickets_ok st"
  shows "distinct (map (\<lambda>e. ht_job (snd e)) (ad_held st))"
proof -
  have inv: "bt_inv (ad_held st)"
    and jobs: "\<And>j i. bt_get (ad_by_job st) j = Some i \<longleftrightarrow> (\<exists>h. bt_get (ad_held st) i = Some h \<and> ht_job h = j)"
    using assms by (auto simp: tickets_ok_def)
  have "e = e'" if "e \<in> set (ad_held st)" "e' \<in> set (ad_held st)" "ht_job (snd e) = ht_job (snd e')" for e e'
  proof -
    have e: "bt_get (ad_held st) (fst e) = Some (snd e)" "bt_get (ad_held st) (fst e') = Some (snd e')"
      using that bt_get_mem [OF inv] by simp_all
    then have "bt_get (ad_by_job st) (ht_job (snd e)) = Some (fst e)" "bt_get (ad_by_job st) (ht_job (snd e)) = Some (fst e')"
      using jobs that(3) by metis+
    with e show ?thesis by (simp add: prod_eq_iff)
  qed
  moreover have "distinct (ad_held st)" using bt_inv_distinct [OF inv] by (simp add: distinct_map)
  ultimately show ?thesis by (auto simp: distinct_map intro!: inj_onI)
qed

lemma load_fold:
  "adm_inv lim s \<Longrightarrow> ad_held s = L0 \<Longrightarrow> bt_inv (L0 @ L) \<Longrightarrow> within lim (L0 @ L) \<Longrightarrow>
     list_all (\<lambda>(i, h). ht_ticket h = i \<and> i \<le> ad_next s) L \<Longrightarrow> distinct (map (\<lambda>e. ht_job (snd e)) (L0 @ L)) \<Longrightarrow>
     adm_inv lim (fold take_held (map snd L) s)
     \<and> adm_abs (fold take_held (map snd L) s) = (adm_abs s)\<lparr>as_held := L0 @ L\<rparr>"
proof (induction L arbitrary: s L0)
  case Nil
  then show ?case by (simp add: adm_abs_def)
next
  case (Cons e L)
  obtain i h where e: "e = (i, h)" by fastforce
  have tk: "ht_ticket h = i" "i \<le> ad_next s" using Cons.prems(5) e by auto
  have below: "\<forall>x\<in>fst ` set L0. x < i" using Cons.prems(3) e by (auto simp: bt_inv_def sorted_wrt_append)
  have ins: "bt_insert i h L0 = L0 @ [(i, h)]" by (rule bt_insert_last [OF below])
  have new: "i \<notin> fst ` set L0" using below by blast
  have "sumh f (L0 @ [(i, h)]) \<le> sumh f (L0 @ e # L)" for f by (simp add: sumh_def e)
  from within_mono [OF Cons.prems(4) this] have room: "room lim L0 h"
    using room_of_within [of lim h L0] new by (simp add: tk ins)
  have ok: "tickets_ok s" using Cons.prems(1) by (simp add: adm_inv_def)
  have "List.find (\<lambda>(_, g). ht_job g = ht_job h) L0 = None"
    using Cons.prems(6) by (auto simp: find_None_iff e image_iff)
  then have job: "bt_get (ad_by_job s) (ht_job h) = None" using by_job_find [OF ok] Cons.prems(2) by simp
  have inv: "adm_inv lim (take_held h s)"
    using take_inv [OF Cons.prems(1), of h "ad_next s"] room job new tk Cons.prems(2) by (simp add: bt_get_None)
  have kept: "ad_held (take_held h s) = L0 @ [(i, h)]" "ad_next (take_held h s) = ad_next s" "ad_queue (take_held h s) = ad_queue s"
    using Cons.prems(2) tk ins by (simp_all add: take_held_kept)
  from Cons.IH [OF inv kept(1)] Cons.prems(3-6) kept show ?case by (simp add: e adm_abs_def)
qed

lemma adm_inv_default: "adm_inv lim (adm_default\<lparr>ad_next := n\<rparr>)"
  by (simp add: adm_inv_def books_def scope_books_def local_books_def exact_def gauge_def tickets_ok_def adm_default_def
      sumh_def use_of_def bt_get_def scope_use_default_def mission_jobs_def vram_free_def bt_inv_Nil)

lemma restart_step:
  assumes "adm_inv lim st"
  shows "adm_inv lim (load_persisted now (adm_persist st))
    \<and> adm_abs (load_persisted now (adm_persist st)) =
        \<lparr>as_held = filter (\<lambda>(_, h). now < ht_expires h) (ad_held st), as_queue = [], as_next = ad_next st\<rparr>"
proof -
  let ?L = "filter (\<lambda>(_, h). now < ht_expires h) (ad_held st)"
  have ok: "tickets_ok st" and b: "books lim st (ad_held st)" using assms by (simp_all add: adm_inv_def)
  then have bi: "bt_inv ?L" by (simp add: bt_inv_filter tickets_ok_def)
  have hs: "filter (\<lambda>h. now < ht_expires h) (map snd (ad_held st)) = map snd ?L"
    by (simp add: filter_map comp_def case_prod_unfold)
  have "within lim ([] @ ?L)" using within_mono [OF books_within [OF b]] sumh_filter_le by simp
  moreover have "distinct (map (\<lambda>e. ht_job (snd e)) ([] @ ?L))" using jobs_distinct [OF ok] by (simp add: distinct_map_filter)
  moreover have "list_all (\<lambda>(i, h). ht_ticket h = i \<and> i \<le> ad_next (adm_default\<lparr>ad_next := ad_next st\<rparr>)) ?L"
    using ok bt_get_mem [of "ad_held st"] by (auto simp: tickets_ok_def list_all_iff)
  ultimately have "adm_inv lim (fold take_held (map snd ?L) (adm_default\<lparr>ad_next := ad_next st\<rparr>))
    \<and> adm_abs (fold take_held (map snd ?L) (adm_default\<lparr>ad_next := ad_next st\<rparr>)) =
      (adm_abs (adm_default\<lparr>ad_next := ad_next st\<rparr>))\<lparr>as_held := [] @ ?L\<rparr>"
    using bi by (intro load_fold [OF adm_inv_default]) (simp_all add: adm_default_def)
  then show ?thesis by (simp add: load_persisted_def adm_persist_def hs) (simp add: adm_abs_def adm_default_def)
qed

end
