(* ===== verification/Admission_Run.thy ===== *)
theory Admission_Run
  imports Admission_Inv
begin

text \<open>
  Every history of the admission controller: workers admit, probe and drop tickets in any order, leases
  expire, and the process restarts from the persisted tickets.
\<close>

inductive adm_run :: "admission_limits \<Rightarrow> adm_state \<Rightarrow> bool" for lim where
  start: "adm_run lim adm_default"
| admit: "adm_run lim st \<Longrightarrow> keys_once req \<Longrightarrow> ad_next st < - 1 \<Longrightarrow> adm_run lim (snd (adm_admit lim now req st))"
| probe: "adm_run lim st \<Longrightarrow> adm_run lim (snd (adm_probe lim now req st))"
| release: "adm_run lim st \<Longrightarrow> adm_run lim (adm_release i st)"
| restart: "adm_run lim st \<Longrightarrow> adm_run lim (load_persisted now (adm_persist st))"

lemma adm_run_inv: "adm_run lim st \<Longrightarrow> adm_inv lim st"
proof (induction rule: adm_run.induct)
  case start
  show ?case using adm_inv_default [of lim 0] by (simp add: adm_default_def)
next
  case (admit st req now)
  then show ?case using admit_step [OF admit.IH admit.hyps(2,3)] by (metis prod.collapse)
qed (simp_all add: probe_step release_step restart_step)


definition sample_request :: "string \<Rightarrow> string list \<Rightarrow> admit_request" where
  "sample_request job keys = \<lparr>aq_mission = ''m'', aq_job = job, aq_scopes = map (\<lambda>k. \<lparr>sq_key = k, sq_requests = 1, sq_tokens = 1\<rparr>) keys,
     aq_local = \<lparr>lc_cpu = 1, lc_ram = 1, lc_vram = 0, lc_sub = 1\<rparr>, aq_slot = True\<rparr>"

definition one_job :: admission_limits where
  "one_job = admission_limits_default\<lparr>al_global := 1, al_scope := scope_limits_default\<lparr>lim_inflight := 1\<rparr>\<rparr>"

lemmas adm_eval = adm_admit_def purge_expired_def adm_release_def free_held_def take_held_def held_of_def grant_denial_def
  scope_full_def is_scope_full_def scope_limits_of_def use_of_def mission_jobs_def local_add_def local_sub_def take_scope_def
  drop_scope_def vram_admits_def scope_use_default_def scope_limits_default_def admission_limits_default_def one_job_def
  sample_request_def adm_default_def bt_get_def bt_upsert_def bt_remove_def Let_def sat_add_def sat_sub_def

definition one_held :: adm_state where
  "one_held = snd (adm_admit one_job 0 (sample_request ''x'' [''k'']) adm_default)"

lemma one_held_eq:
  "adm_admit one_job 0 (sample_request ''x'' [''k'']) adm_default =
     (Inr 1, \<lparr>ad_scopes = [(''k'', \<lparr>su_inflight = 1, su_requests = 1, su_tokens = 1\<rparr>)],
              ad_local = \<lparr>lc_cpu = 1, lc_ram = 1, lc_vram = 0, lc_sub = 1\<rparr>, ad_global = 1, ad_missions = [(''m'', 1)],
              ad_queue = [], ad_held = [(1, held_of one_job 0 (sample_request ''x'' [''k'']) 1)], ad_by_job = [(''x'', 1)],
              ad_next = 1\<rparr>)"
  by (simp add: adm_eval)

lemma one_held_next: "ad_next one_held < - 1" "ad_next adm_default < - 1"
  by (simp_all add: one_held_def one_held_eq word_less_nat_alt unat_max_word) (simp add: adm_default_def)

lemma one_held_run: "adm_run one_job one_held"
proof -
  have "keys_once (sample_request ''x'' [''k''])" by (simp add: keys_once_def sample_request_def)
  then show ?thesis unfolding one_held_def by (rule adm_run.admit [OF adm_run.start _ one_held_next(2)])
qed


text \<open>The controller never oversubscribes: in every history the live tickets together stay within the
  global and mission caps, the in-flight, request and token caps of every scope, and the machine's
  processors, memory and process slots, and they leave a twentieth of the accelerator memory free. A
  limit of the largest number, which stands for an unmeasured dimension, bounds nothing.\<close>

theorem admission_within_limits:
  assumes "adm_run lim st"
  shows "within lim (ad_held st)"
  using adm_run_inv [OF assms] books_within by (auto simp: adm_inv_def)

theorem admission_within_limits_witness: "within one_job (ad_held one_held) \<and> ad_held one_held \<noteq> []"
  using admission_within_limits [OF one_held_run] by (simp add: one_held_def one_held_eq)

text \<open>A request that names one scope twice overcommits it: every entry is tested against the scope's
  use before the request, so a scope with one place admits both entries and holds two.\<close>

theorem admission_duplicate_scope:
  "fst (adm_admit one_job 0 (sample_request ''x'' [''k'', ''k'']) adm_default) = Inr 1
   \<and> sumh (n_inflight ''k'') (ad_held (snd (adm_admit one_job 0 (sample_request ''x'' [''k'', ''k'']) adm_default))) = 2
   \<and> lim_inflight (scope_limits_of one_job ''k'') = 1"
  by (simp add: adm_eval sumh_def n_inflight_def)

text \<open>The queue is not first come, first served: with one job running, \<open>a\<close> queues before \<open>b\<close>; once the job
  is released, \<open>b\<close> is granted the place at its next attempt while \<open>a\<close> still waits at the head.\<close>

theorem admission_queue_overtaken:
  "let (ra, s1) = adm_admit one_job 0 (sample_request ''a'' []) one_held;
       (rb, s2) = adm_admit one_job 0 (sample_request ''b'' []) s1;
       (rb2, s3) = adm_admit one_job 0 (sample_request ''b'' []) (adm_release 1 s2)
   in ra = Inl GlobalFull \<and> rb = Inl (Queued 2) \<and> ad_queue s2 = [''a'', ''b''] \<and> rb2 = Inr 2 \<and> ad_queue s3 = [''a'']"
  by (simp add: one_held_def one_held_eq) (simp add: adm_eval)

end
