(* ===== verification/Cluster_Key.thy ===== *)
theory Cluster_Key
  imports Susi_Strings
begin

text \<open>
  \<open>crates/susi-config/src/cluster_key.rs\<close>: the cluster key files and their two-phase rotation, the
  hand-rolled HMAC and the member signatures. The primitives of the \<open>sha2\<close>, \<open>hex\<close> and \<open>ed25519_dalek\<close>
  crates are the fields of \<open>crypto\<close>; strings are byte strings. A key file is its text, \<open>None\<close> when absent;
  every write succeeds, and reads are never stale (the files are cached by their stamp).
\<close>

unbundle bit_operations_syntax

record crypto =
  cy_sha :: "string \<Rightarrow> string"
  cy_hex :: "string \<Rightarrow> string"
  cy_unhex :: "string \<Rightarrow> string option"
  cy_ed :: "string \<Rightarrow> string \<Rightarrow> string \<Rightarrow> bool"

definition BLOCK :: nat where
  "BLOCK = 64"

definition xor_byte :: "nat \<Rightarrow> char \<Rightarrow> char" where
  "xor_byte n c = char_of (n XOR of_char c)"

definition hmac_sha256 :: "crypto \<Rightarrow> string \<Rightarrow> string \<Rightarrow> string" where
  "hmac_sha256 C key msg =
     (let keyed = key @ replicate (BLOCK - length key) (char_of (0::nat));
          ipad = map (xor_byte 0x36) keyed;
          opad = map (xor_byte 0x5c) keyed
      in cy_sha C (opad @ cy_sha C (ipad @ msg)))"

definition hmac_sha256_hex :: "crypto \<Rightarrow> string \<Rightarrow> string \<Rightarrow> string" where
  "hmac_sha256_hex C key msg = cy_hex C (hmac_sha256 C key msg)"

definition member_verify :: "crypto \<Rightarrow> string \<Rightarrow> string \<Rightarrow> string \<Rightarrow> bool" where
  "member_verify C pubkey_hex payload sig_hex =
     (case (cy_unhex C pubkey_hex, cy_unhex C sig_hex) of
        (Some pk, Some s) \<Rightarrow> length pk = 32 \<and> length s = 64 \<and> cy_ed C pk (''susi-member-v1:'' @ payload) s
      | _ \<Rightarrow> False)"

definition bind_payload :: "string \<Rightarrow> string \<Rightarrow> string" where
  "bind_payload node_id pubkey = ''susi-bind-v1:'' @ node_id @ '':'' @ pubkey"

definition verify_bind_attestation :: "crypto \<Rightarrow> string \<Rightarrow> string \<Rightarrow> string \<Rightarrow> bool" where
  "verify_bind_attestation C node_id pubkey sig =
     (pubkey \<noteq> [] \<and> sig \<noteq> [] \<and> member_verify C pubkey (bind_payload node_id pubkey) sig)"

section \<open>Key files\<close>

record key_files =
  kf_current :: "string option"
  kf_prev :: "string option"
  kf_prev_expires :: "string option"
  kf_next :: "string option"
  kf_staged_at :: "string option"

definition MAX_STAGE_AGE_SECS :: u64 where
  "MAX_STAGE_AGE_SECS = 24 * 60 * 60"

definition PREV_KEY_OVERLAP_SECS :: u64 where
  "PREV_KEY_OVERLAP_SECS = 7 * 24 * 60 * 60"

definition is_torn_identity :: "string \<Rightarrow> bool" where
  "is_torn_identity bytes = list_all is_ascii_whitespace bytes"

definition key_bytes_of :: "crypto \<Rightarrow> string option \<Rightarrow> string option" where
  "key_bytes_of C file =
     (case file of
        None \<Rightarrow> None
      | Some text \<Rightarrow>
          (case cy_unhex C (trim text) of
             None \<Rightarrow> None
           | Some bytes \<Rightarrow> if length bytes = 32 then Some bytes else None))"

definition timestamp_of :: "string option \<Rightarrow> u64 option" where
  "timestamp_of file = (case file of None \<Rightarrow> None | Some text \<Rightarrow> parse_u64 (trim text))"

definition show_u64 :: "u64 \<Rightarrow> string" where
  "show_u64 n = show_nat (unat n)"

text \<open>\<open>cluster_key\<close> installs a fresh key when the file is absent or torn; \<open>install_key\<close> is that step, after
  which \<open>cluster_key\<close> reads the file.\<close>

definition install_key :: "crypto \<Rightarrow> string \<Rightarrow> key_files \<Rightarrow> key_files" where
  "install_key C fresh ks =
     (if (case kf_current ks of None \<Rightarrow> True | Some raw \<Rightarrow> is_torn_identity raw)
      then ks\<lparr>kf_current := Some (cy_hex C fresh)\<rparr> else ks)"

definition cluster_key :: "crypto \<Rightarrow> key_files \<Rightarrow> string option" where
  "cluster_key C ks = key_bytes_of C (kf_current ks)"

definition key_fingerprint :: "crypto \<Rightarrow> string \<Rightarrow> string" where
  "key_fingerprint C key = cy_hex C (cy_sha C key)"

definition stage_key :: "crypto \<Rightarrow> u64 \<Rightarrow> string \<Rightarrow> key_files \<Rightarrow> key_files" where
  "stage_key C now key ks = ks\<lparr>kf_next := Some (cy_hex C key), kf_staged_at := Some (show_u64 now)\<rparr>"

definition staged_key :: "crypto \<Rightarrow> key_files \<Rightarrow> string option" where
  "staged_key C ks = key_bytes_of C (kf_next ks)"

definition prev_key :: "crypto \<Rightarrow> u64 \<Rightarrow> key_files \<Rightarrow> string option" where
  "prev_key C now ks =
     (case key_bytes_of C (kf_prev ks) of
        None \<Rightarrow> None
      | Some key \<Rightarrow>
          (case timestamp_of (kf_prev_expires ks) of
             None \<Rightarrow> None
           | Some expires_at \<Rightarrow> if expires_at \<le> now then None else Some key))"

definition revoke_prev_key :: "key_files \<Rightarrow> bool \<times> key_files" where
  "revoke_prev_key ks = (kf_prev ks \<noteq> None, ks\<lparr>kf_prev := None, kf_prev_expires := None\<rparr>)"

definition activate_staged_key :: "crypto \<Rightarrow> u64 \<Rightarrow> string \<Rightarrow> key_files \<Rightarrow> bool \<times> key_files" where
  "activate_staged_key C now fingerprint ks =
     (case key_bytes_of C (kf_next ks) of
        None \<Rightarrow> (False, if kf_next ks \<noteq> None then ks\<lparr>kf_next := None, kf_staged_at := None\<rparr> else ks)
      | Some staged \<Rightarrow>
          if key_fingerprint C staged \<noteq> fingerprint then (False, ks)
          else
            let staged_at = (case timestamp_of (kf_staged_at ks) of None \<Rightarrow> 0 | Some t \<Rightarrow> t)
            in if MAX_STAGE_AGE_SECS < sat_sub now staged_at
               then (False, ks\<lparr>kf_next := None, kf_staged_at := None\<rparr>)
               else
                 let ks1 = (case key_bytes_of C (kf_current ks) of
                              None \<Rightarrow> ks
                            | Some current \<Rightarrow>
                                ks\<lparr>kf_prev := Some (cy_hex C current),
                                   kf_prev_expires := Some (show_u64 (now + PREV_KEY_OVERLAP_SECS))\<rparr>)
                 in (True, ks1\<lparr>kf_current := kf_next ks, kf_next := None, kf_staged_at := None\<rparr>))"

section \<open>Facts\<close>

text \<open>What the \<open>hex\<close> crate documents: encoding gives text without blanks at its ends that decodes back.\<close>

definition hex_ok :: "crypto \<Rightarrow> bool" where
  "hex_ok C \<longleftrightarrow> (\<forall>b. cy_unhex C (cy_hex C b) = Some b \<and> trim (cy_hex C b) = cy_hex C b)"

lemma key_bytes_of_hex: "hex_ok C \<Longrightarrow> length k = 32 \<Longrightarrow> key_bytes_of C (Some (cy_hex C k)) = Some k"
  by (simp add: key_bytes_of_def hex_ok_def)

lemma key_bytes_of_length: "key_bytes_of C f = Some k \<Longrightarrow> length k = 32"
  by (auto simp: key_bytes_of_def split: option.splits if_splits)

lemma timestamp_of_show [simp]: "timestamp_of (Some (show_u64 n)) = Some n"
proof -
  let ?s = "show_nat (unat n)"
  have s: "?s \<noteq> []" "list_all is_ascii_digit ?s" "dec_val ?s = unat n"
    using show_nat_props [of "unat n"] by auto
  have "hd ?s \<in> set ?s" "last ?s \<in> set ?s" using s(1) by auto
  then have "is_ascii_digit (hd ?s)" "is_ascii_digit (last ?s)"
    using s(2) unfolding list_all_iff by blast+
  note dig = this
  have t: "trim ?s = ?s" by (rule trim_graphic) (simp add: dig digit_graphic)
  have h: "hd ?s \<noteq> CHR ''+''"
  proof
    assume "hd ?s = CHR ''+''"
    with dig(1) show False by (simp add: is_ascii_digit_def)
  qed
  have "unat n < 2 ^ 64" using unat_less_pow [of n] by simp
  then show ?thesis
    using s h unfolding timestamp_of_def show_u64_def option.case t by (simp add: parse_u64_def Let_def)
qed

lemma prev_key_frame [simp]:
  "prev_key C now (ks\<lparr>kf_next := a\<rparr>) = prev_key C now ks"
  "prev_key C now (ks\<lparr>kf_staged_at := a\<rparr>) = prev_key C now ks"
  "prev_key C now (ks\<lparr>kf_current := a\<rparr>) = prev_key C now ks"
  by (simp_all add: prev_key_def split: option.split)

lemma prev_key_retired:
  "key_bytes_of C (Some k) = Some old \<Longrightarrow>
   prev_key C now (ks\<lparr>kf_prev := Some k, kf_prev_expires := Some (show_u64 t)\<rparr>) = (if t \<le> now then None else Some old)"
  by (simp add: prev_key_def)

text \<open>A concrete \<open>crypto\<close> for the witnesses: digests cut or pad to 32 bytes, hexadecimal text is the bytes
  between two marks, a member signature is the key followed by the key.\<close>

definition toy_crypto :: crypto where
  "toy_crypto =
     \<lparr>cy_sha = (\<lambda>s. take 32 (s @ replicate 32 (CHR ''0''))),
      cy_hex = (\<lambda>b. ''x'' @ b @ ''x''),
      cy_unhex = (\<lambda>s. if 2 \<le> length s then Some (butlast (tl s)) else None),
      cy_ed = (\<lambda>pk m s. s = pk @ pk)\<rparr>"

lemma hex_ok_toy: "hex_ok toy_crypto"
proof -
  have "trim (''x'' @ b @ ''x'') = ''x'' @ b @ ''x''" for b
    by (rule trim_graphic) (simp add: is_ascii_graphic_def)
  then show ?thesis by (simp add: hex_ok_def toy_crypto_def)
qed

section \<open>Rotation\<close>

text \<open>C30. Rotation is pinned to the committed record. Applying an activate record rotates exactly when a staged
  key decodes, has the committed fingerprint and was staged at most a day ago. Then the staged key is the cluster
  key, nothing stays staged, and the old key verifies history for seven days and not a second longer (the clock
  below the last week of its range). In every other case the cluster key and the retired key are as before.\<close>

theorem rotation_pinned:
  assumes "hex_ok C" and "unat now + 604800 < 2 ^ 64"
  shows "case activate_staged_key C now fp ks of (rotated, ks') \<Rightarrow>
     (rotated \<longleftrightarrow> (\<exists>k. staged_key C ks = Some k \<and> key_fingerprint C k = fp
        \<and> unat now - (case timestamp_of (kf_staged_at ks) of None \<Rightarrow> 0 | Some t \<Rightarrow> unat t) \<le> 86400))
     \<and> (rotated \<longrightarrow> cluster_key C ks' = staged_key C ks \<and> staged_key C ks' = None
          \<and> (\<forall>old later. cluster_key C ks = Some old \<longrightarrow>
               prev_key C later ks' = (if unat later < unat now + 604800 then Some old else None)))
     \<and> (\<not> rotated \<longrightarrow> cluster_key C ks' = cluster_key C ks
          \<and> (\<forall>later. prev_key C later ks' = prev_key C later ks))"
proof -
  let ?at = "case timestamp_of (kf_staged_at ks) of None \<Rightarrow> 0 | Some t \<Rightarrow> t"
  have at_nat: "unat ?at = (case timestamp_of (kf_staged_at ks) of None \<Rightarrow> 0 | Some t \<Rightarrow> unat t)"
    by (simp split: option.split)
  have age: "MAX_STAGE_AGE_SECS < sat_sub now ?at \<longleftrightarrow> \<not> unat now - unat ?at \<le> 86400"
    by (simp add: word_less_nat_alt unats MAX_STAGE_AGE_SECS_def not_le)
  have expiry: "unat (now + PREV_KEY_OVERLAP_SECS) = unat now + 604800"
    using assms(2) by (simp add: PREV_KEY_OVERLAP_SECS_def unat_word_ariths)
  have late: "now + PREV_KEY_OVERLAP_SECS \<le> later \<longleftrightarrow> \<not> unat later < unat now + 604800" for later
    by (simp add: word_le_nat_alt expiry not_less)
  have decodes: "key_bytes_of C (Some (cy_hex C old)) = Some old" if "key_bytes_of C f = Some old" for old f
    using key_bytes_of_hex [OF assms(1) key_bytes_of_length [OF that]] .
  show ?thesis
  proof (cases "key_bytes_of C (kf_next ks)")
    case None
    then show ?thesis
      by (simp add: activate_staged_key_def staged_key_def cluster_key_def)
  next
    case (Some k)
    show ?thesis
    proof (cases "key_fingerprint C k = fp \<and> unat now - unat ?at \<le> 86400")
      case True
      then have "activate_staged_key C now fp ks =
        (True, (case key_bytes_of C (kf_current ks) of None \<Rightarrow> ks | Some current \<Rightarrow>
           ks\<lparr>kf_prev := Some (cy_hex C current), kf_prev_expires := Some (show_u64 (now + PREV_KEY_OVERLAP_SECS))\<rparr>)
           \<lparr>kf_current := kf_next ks, kf_next := None, kf_staged_at := None\<rparr>)"
        by (simp add: activate_staged_key_def Some Let_def age)
      with True Some show ?thesis
        by (auto simp: staged_key_def cluster_key_def at_nat late key_bytes_of_def [of C None]
          prev_key_retired [OF decodes] split: option.split)
    next
      case False
      then show ?thesis
        by (auto simp: activate_staged_key_def Some Let_def age at_nat staged_key_def cluster_key_def)
    qed
  qed
qed

definition toy_keys :: key_files where
  "toy_keys = stage_key toy_crypto 1000 (replicate 32 CHR ''n'')
     \<lparr>kf_current = Some (cy_hex toy_crypto (replicate 32 CHR ''k'')), kf_prev = None, kf_prev_expires = None,
      kf_next = None, kf_staged_at = None\<rparr>"

theorem rotation_pinned_witness:
  "hex_ok toy_crypto \<and> unat (2000 :: u64) + 604800 < 2 ^ 64
   \<and> cluster_key toy_crypto (snd (activate_staged_key toy_crypto 2000
       (key_fingerprint toy_crypto (replicate 32 CHR ''n'')) toy_keys)) = Some (replicate 32 CHR ''n'')"
proof -
  let ?fp = "key_fingerprint toy_crypto (replicate 32 CHR ''n'')"
  have ok: "unat (2000 :: u64) + 604800 < 2 ^ 64" by simp
  have st: "staged_key toy_crypto toy_keys = Some (replicate 32 CHR ''n'')"
    unfolding staged_key_def toy_keys_def stage_key_def by (simp add: key_bytes_of_hex [OF hex_ok_toy] del: replicate.simps)
  have ts: "timestamp_of (kf_staged_at toy_keys) = Some 1000"
    by (simp add: toy_keys_def stage_key_def)
  show ?thesis
    using rotation_pinned [OF hex_ok_toy ok, of toy_keys ?fp] hex_ok_toy
    by (simp add: st ts split: prod.splits)
qed

end
