(* ===== verification/Commit_Log.thy ===== *)
theory Commit_Log
  imports Cluster_Key Ordered_Map
begin

text \<open>
  \<open>crates/susi-core/src/commit_log.rs\<close>, first half: commit records, what makes one genuine, the sequence and
  chain helpers, the consensus term, and the replay of a ledger into the cluster state with its compaction.

  A ledger or archive file is the list of its well-formed records. \<open>cluster_env\<close> holds what is foreign to the
  program: the cryptographic primitives, the JSON of the signed fields, and this node's identity and signing key.
  The clock is an argument where a function reads it.
\<close>

record member_endorsement =
  en_node :: string
  en_sig :: string

record commit_record =
  cr_epoch :: string
  cr_coordinator :: string
  cr_electorate :: "string list"
  cr_tally :: nat
  cr_quorum :: nat
  cr_value_hash :: string
  cr_value :: string
  cr_committed_at :: u64
  cr_seq :: u64
  cr_leader :: string
  cr_term :: u64
  cr_prev_epoch :: string
  cr_kind :: string
  cr_signature :: string
  cr_member_sig :: string
  cr_member_pubkey :: string
  cr_subject_sig :: string
  cr_endorsements :: "member_endorsement list"

record signed_fields =
  sf_epoch :: string
  sf_coordinator :: string
  sf_electorate :: "string list"
  sf_tally :: nat
  sf_quorum :: nat
  sf_value_hash :: string
  sf_value :: string
  sf_committed_at :: u64
  sf_seq :: u64
  sf_leader :: string
  sf_term :: u64
  sf_prev_epoch :: string
  sf_kind :: string

record cluster_env =
  ev_crypto :: crypto
  ev_json :: "signed_fields \<Rightarrow> string"
  ev_id :: string
  ev_pubkey :: "string option"
  ev_sign :: "string \<Rightarrow> string option"

definition KIND_MEMBER_ADD :: string where "KIND_MEMBER_ADD = ''member_add''"

definition KIND_MEMBER_REMOVE :: string where "KIND_MEMBER_REMOVE = ''member_remove''"

definition KIND_MEMBER_UNBAN :: string where "KIND_MEMBER_UNBAN = ''member_unban''"

definition KIND_CLUSTER_REKEY :: string where "KIND_CLUSTER_REKEY = ''cluster_rekey''"

definition KIND_CLUSTER_REKEY_ACTIVATE :: string where "KIND_CLUSTER_REKEY_ACTIVATE = ''cluster_rekey_activate''"

lemmas kinds = KIND_MEMBER_ADD_def KIND_MEMBER_REMOVE_def KIND_MEMBER_UNBAN_def KIND_CLUSTER_REKEY_def
  KIND_CLUSTER_REKEY_ACTIVATE_def

section \<open>Genuine records\<close>

definition member_delta :: "commit_record \<Rightarrow> (string \<times> string \<times> string) option" where
  "member_delta r =
     (if cr_kind r \<notin> {KIND_MEMBER_ADD, KIND_MEMBER_REMOVE, KIND_MEMBER_UNBAN} then None
      else case split_once CHR ''@'' (cr_value r) of
             None \<Rightarrow> None
           | Some (i, a) \<Rightarrow> if i = [] \<or> a = [] then None else Some (cr_kind r, i, a))"

definition rekey_fingerprint :: "crypto \<Rightarrow> commit_record \<Rightarrow> string option" where
  "rekey_fingerprint C r =
     (if cr_kind r \<notin> {KIND_CLUSTER_REKEY, KIND_CLUSTER_REKEY_ACTIVATE} then None
      else case cy_unhex C (cr_value r) of
             None \<Rightarrow> None
           | Some b \<Rightarrow> if length b \<noteq> 32 then None else Some (cr_value r))"

definition signed_fields_of :: "commit_record \<Rightarrow> signed_fields" where
  "signed_fields_of r =
     \<lparr>sf_epoch = cr_epoch r, sf_coordinator = cr_coordinator r, sf_electorate = cr_electorate r,
      sf_tally = cr_tally r, sf_quorum = cr_quorum r, sf_value_hash = cr_value_hash r, sf_value = cr_value r,
      sf_committed_at = cr_committed_at r, sf_seq = cr_seq r, sf_leader = cr_leader r, sf_term = cr_term r,
      sf_prev_epoch = cr_prev_epoch r, sf_kind = cr_kind r\<rparr>"

definition signed_payload :: "cluster_env \<Rightarrow> commit_record \<Rightarrow> string" where
  "signed_payload E r = ev_json E (signed_fields_of r)"

datatype key_epoch = Prev | Current

definition signature_epoch :: "cluster_env \<Rightarrow> u64 \<Rightarrow> key_files \<Rightarrow> commit_record \<Rightarrow> key_epoch option" where
  "signature_epoch E now ks r =
     (let signs = (\<lambda>key. case key of None \<Rightarrow> False
                     | Some k \<Rightarrow> hmac_sha256_hex (ev_crypto E) k (signed_payload E r) = cr_signature r)
      in if cr_signature r = [] then None
         else if signs (cluster_key (ev_crypto E) ks) then Some Current
         else if signs (prev_key (ev_crypto E) now ks) then Some Prev
         else None)"

definition digest_hex :: "crypto \<Rightarrow> string \<Rightarrow> string" where
  "digest_hex C s = cy_hex C (cy_sha C s)"

definition internally_consistent :: "crypto \<Rightarrow> commit_record \<Rightarrow> bool" where
  "internally_consistent C r =
     ((if cr_kind r = [] then cr_quorum r = length (cr_electorate r) div 2 + 1 \<and> cr_quorum r \<le> cr_tally r
       else member_delta r \<noteq> None \<or> rekey_fingerprint C r \<noteq> None)
      \<and> digest_hex C (cr_value r) = cr_value_hash r)"

definition verify_key_epoch :: "cluster_env \<Rightarrow> u64 \<Rightarrow> key_files \<Rightarrow> commit_record \<Rightarrow> key_epoch option" where
  "verify_key_epoch E now ks r = (if internally_consistent (ev_crypto E) r then signature_epoch E now ks r else None)"

definition verify_record :: "cluster_env \<Rightarrow> u64 \<Rightarrow> key_files \<Rightarrow> commit_record \<Rightarrow> bool" where
  "verify_record E now ks r = (signature_epoch E now ks r \<noteq> None \<and> internally_consistent (ev_crypto E) r)"

section \<open>Sequence numbers and chains\<close>

text \<open>\<open>Iterator::max_by_key\<close>: the last of the greatest.\<close>

definition max_by_key :: "('a \<Rightarrow> 'k::linorder) \<Rightarrow> 'a list \<Rightarrow> 'a option" where
  "max_by_key f xs =
     fold (\<lambda>x best. case best of None \<Rightarrow> Some x | Some b \<Rightarrow> if f b \<le> f x then Some x else Some b) xs None"

definition records_of :: "string \<Rightarrow> commit_record list \<Rightarrow> commit_record list" where
  "records_of c rs = filter (\<lambda>r. cr_coordinator r = c) rs"

definition max_seq :: "commit_record list \<Rightarrow> string \<Rightarrow> u64" where
  "max_seq rs c = fold max (map cr_seq (records_of c rs)) 0"

definition next_seq_for :: "commit_record list \<Rightarrow> string \<Rightarrow> u64" where
  "next_seq_for rs c = max_seq rs c + 1"

definition chain_head_epoch :: "commit_record list \<Rightarrow> string \<Rightarrow> string option" where
  "chain_head_epoch rs c = map_option cr_epoch (max_by_key cr_seq (records_of c rs))"

definition u64_range :: "u64 \<Rightarrow> u64 \<Rightarrow> u64 list" where
  "u64_range a b = map of_nat [unat a..<unat b]"

definition missing_seqs_floored :: "commit_record list \<Rightarrow> string \<Rightarrow> u64 \<Rightarrow> u64 \<Rightarrow> u64 list" where
  "missing_seqs_floored rs c incoming floor =
     filter (\<lambda>s. s \<notin> cr_seq ` set (records_of c rs)) (u64_range (floor + 1) incoming)"

definition missing_seqs :: "commit_record list \<Rightarrow> string \<Rightarrow> u64 \<Rightarrow> u64 list" where
  "missing_seqs rs c incoming = missing_seqs_floored rs c incoming 0"

section \<open>Terms\<close>

record term_state =
  ts_term :: u64
  ts_leader :: string
  ts_updated :: u64

definition term_default :: term_state where
  "term_default = \<lparr>ts_term = 0, ts_leader = [], ts_updated = 0\<rparr>"

text \<open>Without the lock the claim is declined; an evicted node cannot claim.\<close>

definition claim_leadership_at :: "bool \<Rightarrow> u64 \<Rightarrow> string \<Rightarrow> term_state \<Rightarrow> u64 \<times> term_state" where
  "claim_leadership_at locked now leader st =
     (if \<not> locked \<or> ts_leader st = leader then (ts_term st, st)
      else let st' = \<lparr>ts_term = ts_term st + 1, ts_leader = leader, ts_updated = now\<rparr> in (ts_term st', st'))"

definition claim_leadership :: "bool \<Rightarrow> bool \<Rightarrow> u64 \<Rightarrow> string \<Rightarrow> term_state \<Rightarrow> u64 \<times> term_state" where
  "claim_leadership evicted locked now leader st =
     (if evicted then (ts_term st, st) else claim_leadership_at locked now leader st)"

datatype term_verdict = TermCurrent | TermAdopted term_state | TermStale | LeaderConflict

definition check_term_at :: "bool \<Rightarrow> u64 \<Rightarrow> commit_record \<Rightarrow> term_state \<Rightarrow> term_verdict \<times> term_state" where
  "check_term_at locked now r st =
     (if ts_term st < cr_term r then
        let next = \<lparr>ts_term = cr_term r, ts_leader = cr_leader r, ts_updated = now\<rparr>
        in (TermAdopted next, if locked then next else st)
      else if cr_term r < ts_term st then (TermStale, st)
      else if ts_leader st \<noteq> [] \<and> cr_leader r \<noteq> [] \<and> cr_leader r \<noteq> ts_leader st then (LeaderConflict, st)
      else (TermCurrent, st))"

section \<open>Replay\<close>

datatype anomaly =
    InvalidSignature string u64
  | DuplicateRecord string u64
  | Equivocation string u64
  | TermRegression string u64 u64 u64 u64
  | ChainBreak string u64 string string
  | SequenceGap string "u64 list"
  | AttributionFailure string u64
  | EndorsementShortfall string u64 string
  | AttestationMissing string u64

record cluster_state =
  cs_term :: u64
  cs_leader :: string
  cs_coordinators :: "(string, u64) btree_map"
  cs_decisions :: nat
  cs_memberships :: nat
  cs_roster :: "(string, string) btree_map"
  cs_banned :: "(string \<times> string) set"
  cs_anomalies :: "anomaly list"

definition cluster_default :: cluster_state where
  "cluster_default = \<lparr>cs_term = 0, cs_leader = [], cs_coordinators = [], cs_decisions = 0, cs_memberships = 0,
     cs_roster = [], cs_banned = {}, cs_anomalies = []\<rparr>"

definition drop_member :: "string \<Rightarrow> string \<Rightarrow> (string, string) btree_map \<Rightarrow> (string, string) btree_map" where
  "drop_member i a roster = filter (\<lambda>(n, x). n \<noteq> i \<and> x \<noteq> a) roster"

definition fold_delta :: "string \<times> string \<times> string \<Rightarrow> cluster_state \<Rightarrow> cluster_state" where
  "fold_delta = (\<lambda>(kind, i, a) st.
     if kind = KIND_MEMBER_ADD then
       if \<exists>b\<in>cs_banned st. fst b = i \<or> snd b = a then st
       else st\<lparr>cs_roster := bt_insert i a (drop_member i a (cs_roster st))\<rparr>
     else if kind = KIND_MEMBER_REMOVE then
       st\<lparr>cs_roster := drop_member i a (cs_roster st), cs_banned := insert (i, a) (cs_banned st)\<rparr>
     else if kind = KIND_MEMBER_UNBAN then
       st\<lparr>cs_banned := {b \<in> cs_banned st. fst b \<noteq> i \<and> snd b \<noteq> a}\<rparr>
     else st)"

definition fold_effect :: "commit_record \<Rightarrow> cluster_state \<Rightarrow> cluster_state" where
  "fold_effect r st =
     (let st1 = st\<lparr>cs_decisions := cs_decisions st + 1\<rparr>;
          st2 = (case member_delta r of
                   None \<Rightarrow> st1
                 | Some d \<Rightarrow> fold_delta d (st1\<lparr>cs_memberships := cs_memberships st1 + 1\<rparr>))
      in if cs_term st2 < cr_term r then st2\<lparr>cs_term := cr_term r, cs_leader := cr_leader r\<rparr> else st2)"

definition floor_of :: "(string, u64) btree_map \<Rightarrow> string \<Rightarrow> u64" where
  "floor_of floors c = (case bt_get floors c of None \<Rightarrow> 0 | Some f \<Rightarrow> f)"

definition add_anomaly :: "anomaly list \<Rightarrow> cluster_state \<Rightarrow> cluster_state" where
  "add_anomaly as st = st\<lparr>cs_anomalies := cs_anomalies st @ as\<rparr>"

type_synonym grouped = "(string, commit_record list) btree_map"

definition fold_record ::
  "cluster_env \<Rightarrow> u64 \<Rightarrow> key_files \<Rightarrow> (string, u64) btree_map \<Rightarrow> commit_record \<Rightarrow> cluster_state \<times> grouped \<Rightarrow> cluster_state \<times> grouped" where
  "fold_record E now ks floors r = (\<lambda>(st, by_coord).
     if \<not> verify_record E now ks r then (add_anomaly [InvalidSignature (cr_coordinator r) (cr_seq r)] st, by_coord)
     else if cr_seq r < floor_of floors (cr_coordinator r) then (st, by_coord)
     else (if floor_of floors (cr_coordinator r) < cr_seq r then fold_effect r st else st,
           bt_upsert (cr_coordinator r) [] (\<lambda>rs. rs @ [r]) by_coord))"

definition window_anomalies :: "string \<Rightarrow> commit_record \<times> commit_record \<Rightarrow> anomaly list" where
  "window_anomalies c = (\<lambda>(a, b).
     (if cr_seq a = cr_seq b then [if a = b then DuplicateRecord c (cr_seq a) else Equivocation c (cr_seq a)] else [])
     @ (if cr_term b < cr_term a \<and> cr_seq a < cr_seq b
        then [TermRegression c (cr_seq b) (cr_term b) (cr_seq a) (cr_term a)] else [])
     @ (if cr_prev_epoch b \<noteq> [] \<and> cr_prev_epoch b \<noteq> cr_epoch a
        then [ChainBreak c (cr_seq b) (cr_prev_epoch b) (cr_epoch a)] else []))"

definition audit_coordinator ::
  "(string, u64) btree_map \<Rightarrow> string \<times> commit_record list \<Rightarrow> cluster_state \<Rightarrow> cluster_state" where
  "audit_coordinator floors = (\<lambda>(c, rs) st.
     let recs = sort_key cr_seq rs;
         st1 = add_anomaly (concat (map (window_anomalies c) (zip recs (tl recs)))) st
     in if recs = [] then st1
        else
          let high = fold max (map cr_seq recs) 0;
              missing = filter (\<lambda>s. s \<notin> cr_seq ` set recs) (u64_range (floor_of floors c + 1) high);
              st2 = (if missing \<noteq> [] then add_anomaly [SequenceGap c missing] st1 else st1)
          in st2\<lparr>cs_coordinators := bt_insert c (max high (floor_of (cs_coordinators st2) c)) (cs_coordinators st2)\<rparr>)"

definition fold_records ::
  "cluster_env \<Rightarrow> u64 \<Rightarrow> key_files \<Rightarrow> cluster_state \<Rightarrow> commit_record list \<Rightarrow> (string, u64) btree_map \<Rightarrow> cluster_state" where
  "fold_records E now ks st records floors =
     (case fold (fold_record E now ks floors) records (st, []) of
        (st1, by_coord) \<Rightarrow> fold (audit_coordinator floors) by_coord st1)"

definition replay_records :: "cluster_env \<Rightarrow> u64 \<Rightarrow> key_files \<Rightarrow> commit_record list \<Rightarrow> cluster_state" where
  "replay_records E now ks records = fold_records E now ks cluster_default records []"

section \<open>Snapshots\<close>

record ledger_snapshot =
  ls_version :: u32
  ls_created :: u64
  ls_high_water :: "(string, u64) btree_map"
  ls_term :: u64
  ls_leader :: string
  ls_roster :: "(string, string) btree_map"
  ls_banned :: "(string \<times> string) set"
  ls_decisions :: nat
  ls_memberships :: nat

definition snapshot_of :: "u64 \<Rightarrow> cluster_state \<Rightarrow> ledger_snapshot" where
  "snapshot_of now st =
     \<lparr>ls_version = 1, ls_created = now, ls_high_water = cs_coordinators st, ls_term = cs_term st,
      ls_leader = cs_leader st, ls_roster = cs_roster st, ls_banned = cs_banned st,
      ls_decisions = cs_decisions st, ls_memberships = cs_memberships st\<rparr>"

definition seeded :: "ledger_snapshot \<Rightarrow> cluster_state" where
  "seeded s =
     \<lparr>cs_term = ls_term s, cs_leader = ls_leader s, cs_coordinators = ls_high_water s, cs_decisions = ls_decisions s,
      cs_memberships = ls_memberships s, cs_roster = ls_roster s, cs_banned = ls_banned s, cs_anomalies = []\<rparr>"

definition replay_folded :: "cluster_env \<Rightarrow> u64 \<Rightarrow> key_files \<Rightarrow> ledger_snapshot option \<Rightarrow> commit_record list \<Rightarrow> cluster_state" where
  "replay_folded E now ks snap records =
     (case snap of
        Some s \<Rightarrow> fold_records E now ks (seeded s) records (ls_high_water s)
      | None \<Rightarrow> replay_records E now ks records)"

text \<open>The anchors of a ledger: the index of the last record with the highest number of each coordinator.\<close>

definition indexed_groups :: "commit_record list \<Rightarrow> (string, (nat \<times> commit_record) list) btree_map" where
  "indexed_groups records =
     fold (\<lambda>(i, r). bt_upsert (cr_coordinator r) [] (\<lambda>l. l @ [(i, r)])) (enumerate 0 records) []"

definition anchors :: "commit_record list \<Rightarrow> nat list" where
  "anchors records =
     List.map_filter (\<lambda>(_, recs). map_option fst (max_by_key (\<lambda>(_, r). cr_seq r) recs)) (indexed_groups records)"

definition archived_part :: "commit_record list \<Rightarrow> commit_record list" where
  "archived_part records = map snd (filter (\<lambda>(i, _). i \<notin> set (anchors records)) (enumerate 0 records))"

definition live_part :: "commit_record list \<Rightarrow> commit_record list" where
  "live_part records = map snd (filter (\<lambda>(i, _). i \<in> set (anchors records)) (enumerate 0 records))"

end
