(* ===== verification/Commit_Node.thy ===== *)
theory Commit_Node
  imports Commit_Log
begin

text \<open>
  \<open>crates/susi-core/src/commit_log.rs\<close>, second half: the files of one node and the operations on them. Sealing,
  the gates a record passes before it is appended, the roster that committed member records change, batches,
  compaction and the replay of the node's own files. \<open>commit_record\<close> and \<open>commit_records\<close> are the intake of
  pushed records (\<open>crates/susi-gmcp/src/tools/core.rs\<close>).

  \<open>nd_peers\<close> and \<open>nd_banned\<close> are the rows of \<open>peers.json\<close> and \<open>peers_banned.json\<close>, \<open>None\<close> when the file is
  damaged. A row keeps the fields the code reads or writes and the rest of its JSON as text. The arguments
  \<open>locks\<close> say which lock files could be acquired; writes succeed.
\<close>

record peer_row =
  pw_node_id :: "string option"
  pw_address :: "string option"
  pw_admission :: "string option"
  pw_pubkey :: "string option"
  pw_bound_at :: "u64 option"
  pw_bound_seq :: "u64 option"
  pw_bind_sig :: "string option"
  pw_rest :: string

record ban_row =
  bw_node_id :: "string option"
  bw_address :: "string option"
  bw_at :: "u64 option"

record node =
  nd_ledger :: "commit_record list"
  nd_archive :: "commit_record list"
  nd_snapshot :: "ledger_snapshot option"
  nd_term :: term_state
  nd_peers :: "peer_row list option"
  nd_banned :: "ban_row list option"
  nd_evicted :: "(u64 \<times> string) option"
  nd_keys :: key_files

record locks =
  lk_ledger :: bool
  lk_peers :: bool
  lk_term :: bool

datatype commit_error =
    LedgerLocked
  | EquivocationHeld
  | EquivocationArchived
  | RevokedKeyFrontier
  | BadSignature
  | BadAttribution
  | BelowEndorsements
  | BadAttestation
  | ChainDivergence
  | NotMember
  | TermBehind
  | BatchTooLarge

section \<open>Authority\<close>

definition peer_rows :: "node \<Rightarrow> peer_row list" where
  "peer_rows nd = (case nd_peers nd of None \<Rightarrow> [] | Some rows \<Rightarrow> rows)"

definition privileged_kind :: "crypto \<Rightarrow> commit_record \<Rightarrow> bool" where
  "privileged_kind C r = (member_delta r \<noteq> None \<or> rekey_fingerprint C r \<noteq> None)"

definition coordinator_known :: "cluster_env \<Rightarrow> node \<Rightarrow> commit_record \<Rightarrow> bool" where
  "coordinator_known E nd r =
     (cr_coordinator r = ev_id E \<or>
      (\<exists>p\<in>set (peer_rows nd). pw_node_id p = Some (cr_coordinator r) \<and> pw_admission p = Some ''explicit''))"

definition member_coordinator_known :: "cluster_env \<Rightarrow> node \<Rightarrow> commit_record \<Rightarrow> bool" where
  "member_coordinator_known E nd r =
     (privileged_kind (ev_crypto E) r \<longrightarrow> cr_leader r = cr_coordinator r \<and> coordinator_known E nd r)"

fun bound_in :: "string \<Rightarrow> peer_row list \<Rightarrow> (string \<times> u64 \<times> u64 option) option" where
  "bound_in c [] = None"
| "bound_in c (p # ps) =
     (if pw_node_id p \<noteq> Some c then bound_in c ps
      else case pw_pubkey p of
             None \<Rightarrow> bound_in c ps
           | Some pk \<Rightarrow>
               if pk = [] then bound_in c ps
               else Some (pk, (case pw_bound_at p of None \<Rightarrow> 0 | Some t \<Rightarrow> t), pw_bound_seq p))"

definition bound_pubkey_at :: "cluster_env \<Rightarrow> node \<Rightarrow> string \<Rightarrow> (string \<times> u64 \<times> u64 option) option" where
  "bound_pubkey_at E nd c =
     (if c = ev_id E then map_option (\<lambda>pk. (pk, 0, Some 0)) (ev_pubkey E) else bound_in c (peer_rows nd))"

definition attribution_valid :: "cluster_env \<Rightarrow> node \<Rightarrow> commit_record \<Rightarrow> bool" where
  "attribution_valid E nd r =
     (case bound_pubkey_at E nd (cr_coordinator r) of
        None \<Rightarrow> True
      | Some (pk, bound_at, bound_seq) \<Rightarrow>
          (case bound_seq of
             Some floor \<Rightarrow> cr_seq r \<le> floor \<and> cr_committed_at r < bound_at
           | None \<Rightarrow> cr_committed_at r < bound_at)
          \<or> cr_member_sig r \<noteq> [] \<and> member_verify (ev_crypto E) pk (cr_signature r) (cr_member_sig r))"

definition endorsement_payload :: "string \<Rightarrow> string" where
  "endorsement_payload s = ''susi-endorse-v1:'' @ s"

definition subject_attestation_valid :: "cluster_env \<Rightarrow> commit_record \<Rightarrow> bool" where
  "subject_attestation_valid E r =
     (case member_delta r of
        None \<Rightarrow> True
      | Some (kind, i, _) \<Rightarrow>
          kind \<noteq> KIND_MEMBER_ADD \<or> cr_member_pubkey r = []
          \<or> verify_bind_attestation (ev_crypto E) i (cr_member_pubkey r) (cr_subject_sig r))"

definition privileged_kind_name :: "string \<Rightarrow> bool" where
  "privileged_kind_name kind \<longleftrightarrow> kind \<in> {KIND_MEMBER_ADD, KIND_MEMBER_REMOVE, KIND_MEMBER_UNBAN,
     KIND_CLUSTER_REKEY, KIND_CLUSTER_REKEY_ACTIVATE}"

text \<open>The members of \<open>bound\<close> whose support a record carries: the coordinator through its own signature, the
  others through an endorsement.\<close>

definition supporters :: "cluster_env \<Rightarrow> (string \<times> string) list \<Rightarrow> commit_record \<Rightarrow> string list" where
  "supporters E bound r =
     (case map_of bound (cr_coordinator r) of
        None \<Rightarrow> []
      | Some pk \<Rightarrow> if member_verify (ev_crypto E) pk (cr_signature r) (cr_member_sig r) then [cr_coordinator r] else [])
     @ map en_node (filter (\<lambda>e. case map_of bound (en_node e) of
          None \<Rightarrow> False
        | Some pk \<Rightarrow> member_verify (ev_crypto E) pk (endorsement_payload (cr_signature r)) (en_sig e)) (cr_endorsements r))"

definition supported :: "cluster_env \<Rightarrow> (string \<times> string) list \<Rightarrow> commit_record \<Rightarrow> bool" where
  "supported E bound r = (bound = [] \<or> length bound div 2 + 1 \<le> card (set (supporters E bound r)))"

definition bound_then :: "cluster_env \<Rightarrow> node \<Rightarrow> commit_record \<Rightarrow> (string \<times> string) list" where
  "bound_then E nd r = List.map_filter
     (\<lambda>m. case bound_pubkey_at E nd m of
            None \<Rightarrow> None
          | Some (pk, t, _) \<Rightarrow> if t \<le> cr_committed_at r then Some (m, pk) else None) (cr_electorate r)"

definition endorsements_satisfied :: "cluster_env \<Rightarrow> node \<Rightarrow> commit_record \<Rightarrow> bool" where
  "endorsements_satisfied E nd r = (\<not> privileged_kind_name (cr_kind r) \<or> supported E (bound_then E nd r) r)"

definition bound_now :: "cluster_env \<Rightarrow> node \<Rightarrow> string list \<Rightarrow> (string \<times> string) list" where
  "bound_now E nd electorate = List.map_filter
     (\<lambda>m. map_option (\<lambda>(pk, _). (m, pk)) (bound_pubkey_at E nd m)) electorate"

definition endorsements_satisfied_at_tip :: "cluster_env \<Rightarrow> node \<Rightarrow> commit_record \<Rightarrow> bool" where
  "endorsements_satisfied_at_tip E nd r =
     (\<not> privileged_kind_name (cr_kind r) \<or> supported E (bound_now E nd (cr_electorate r)) r)"

section \<open>The roster\<close>

definition NEW_ROW :: string where
  "NEW_ROW = ''\"node_type\":\"PEER\",\"is_active\":true,\"capabilities\":[],\"registry_checksum\":0,'' @
     ''\"latency_ms\":0,\"uptime_secs\":0,\"trust_score\":0.8,\"capability_bloom\":[0,0,0,0],\"last_seen_secs\":0''"

definition bind_member_key :: "commit_record \<Rightarrow> node \<Rightarrow> string \<Rightarrow> peer_row \<Rightarrow> peer_row" where
  "bind_member_key r nd i row =
     (if cr_member_pubkey r = [] then row
      else if (case pw_pubkey row of None \<Rightarrow> False | Some pk \<Rightarrow> pk \<noteq> []) then row
      else row\<lparr>pw_pubkey := Some (cr_member_pubkey r), pw_bound_at := Some (cr_committed_at r),
               pw_bind_sig := Some (cr_subject_sig r),
               pw_bound_seq := Some (max_seq (nd_archive nd @ nd_ledger nd) i)\<rparr>)"

text \<open>\<open>addr.split(':').next()\<close> has no colon left, so only an IPv4 address can parse; Rust accepts four octets of
  up to three digits without leading zeros.\<close>

definition is_octet :: "string \<Rightarrow> bool" where
  "is_octet s = (s \<noteq> [] \<and> length s \<le> 3 \<and> list_all is_ascii_digit s \<and> dec_val s \<le> 255
     \<and> (hd s = CHR ''0'' \<longrightarrow> length s = 1))"

definition is_loopback_addr :: "string \<Rightarrow> bool" where
  "is_loopback_addr addr =
     (case split_on CHR ''.'' (hd (split_on CHR '':'' addr)) of
        [a, b, c, d] \<Rightarrow> is_octet a \<and> is_octet b \<and> is_octet c \<and> is_octet d \<and> dec_val a = 127
      | _ \<Rightarrow> False)"

definition peer_matches :: "string \<Rightarrow> string \<Rightarrow> peer_row \<Rightarrow> bool" where
  "peer_matches i a row = (pw_node_id row = Some i \<or> pw_address row = Some a)"

definition ban_matches :: "string \<Rightarrow> string \<Rightarrow> ban_row \<Rightarrow> bool" where
  "ban_matches i a row = (bw_node_id row = Some i \<or> bw_address row = Some a)"

definition merged_row :: "commit_record \<Rightarrow> node \<Rightarrow> string \<Rightarrow> string \<Rightarrow> peer_row \<Rightarrow> peer_row" where
  "merged_row r nd i a row =
     bind_member_key r nd i (row\<lparr>pw_node_id := Some i, pw_address := Some a, pw_admission := Some ''explicit''\<rparr>)"

definition new_row :: "commit_record \<Rightarrow> node \<Rightarrow> string \<Rightarrow> string \<Rightarrow> peer_row" where
  "new_row r nd i a = bind_member_key r nd i
     \<lparr>pw_node_id = Some i, pw_address = Some a, pw_admission = Some ''explicit'', pw_pubkey = None,
      pw_bound_at = None, pw_bound_seq = None, pw_bind_sig = None, pw_rest = NEW_ROW\<rparr>"

text \<open>\<open>retain_mut\<close>: the first match is rewritten, later ones go.\<close>

fun merge_rows :: "(peer_row \<Rightarrow> bool) \<Rightarrow> (peer_row \<Rightarrow> peer_row) \<Rightarrow> bool \<Rightarrow> peer_row list \<Rightarrow> bool \<times> peer_row list" where
  "merge_rows hit upd merged [] = (merged, [])"
| "merge_rows hit upd merged (p # ps) =
     (if \<not> hit p then (case merge_rows hit upd merged ps of (m, qs) \<Rightarrow> (m, p # qs))
      else if merged then merge_rows hit upd True ps
      else (case merge_rows hit upd True ps of (m, qs) \<Rightarrow> (m, upd p # qs)))"

definition add_peer :: "commit_record \<Rightarrow> node \<Rightarrow> string \<Rightarrow> string \<Rightarrow> peer_row list \<Rightarrow> peer_row list" where
  "add_peer r nd i a peers =
     (case merge_rows (peer_matches i a) (merged_row r nd i a) False peers of
        (merged, rows) \<Rightarrow> if merged then rows else rows @ [new_row r nd i a])"

definition apply_member_delta :: "cluster_env \<Rightarrow> bool \<Rightarrow> commit_record \<Rightarrow> node \<Rightarrow> node" where
  "apply_member_delta E locked r nd =
     (case member_delta r of
        None \<Rightarrow> nd
      | Some (kind, i, a) \<Rightarrow>
          if i = ev_id E then
            (if kind = KIND_MEMBER_REMOVE then nd\<lparr>nd_evicted := Some (cr_committed_at r, cr_coordinator r)\<rparr>
             else nd\<lparr>nd_evicted := None\<rparr>)
          else if is_loopback_addr a \<or> \<not> locked then nd
          else case (nd_peers nd, nd_banned nd) of
                 (Some peers, Some banned) \<Rightarrow>
                   if kind = KIND_MEMBER_ADD then
                     if \<exists>b\<in>set banned. ban_matches i a b then nd
                     else nd\<lparr>nd_peers := Some (add_peer r nd i a peers)\<rparr>
                   else if kind = KIND_MEMBER_REMOVE then
                     nd\<lparr>nd_peers := Some (filter (\<lambda>p. \<not> peer_matches i a p) peers),
                        nd_banned := Some (if \<exists>b\<in>set banned. ban_matches i a b then banned
                          else banned @ [\<lparr>bw_node_id = Some i, bw_address = Some a, bw_at = Some (cr_committed_at r)\<rparr>])\<rparr>
                   else nd\<lparr>nd_banned := Some (filter (\<lambda>b. \<not> ban_matches i a b) banned)\<rparr>
               | _ \<Rightarrow> nd)"

section \<open>Appending\<close>

definition in_slot :: "string \<Rightarrow> u64 \<Rightarrow> commit_record \<Rightarrow> bool" where
  "in_slot c n r = (cr_coordinator r = c \<and> cr_seq r = n)"

definition snapshot_floor :: "node \<Rightarrow> string \<Rightarrow> u64" where
  "snapshot_floor nd c = (case nd_snapshot nd of None \<Rightarrow> 0 | Some s \<Rightarrow> floor_of (ls_high_water s) c)"

definition find_in_archive :: "node \<Rightarrow> string \<Rightarrow> u64 \<Rightarrow> commit_record option" where
  "find_in_archive nd c n = List.find (in_slot c n) (nd_archive nd)"

text \<open>Already held or archived: \<open>Some (Inr ())\<close> is a harmless repeat, \<open>Some (Inl e)\<close> a conflict.\<close>

definition held_verdict :: "node \<Rightarrow> commit_record \<Rightarrow> (commit_error + unit) option" where
  "held_verdict nd r =
     (if 0 < cr_seq r then
        (case List.find (in_slot (cr_coordinator r) (cr_seq r)) (nd_ledger nd) of
           Some existing \<Rightarrow> Some (if existing = r then Inr () else Inl EquivocationHeld)
         | None \<Rightarrow> None)
      else if r \<in> set (nd_ledger nd) then Some (Inr ()) else None)"

definition archive_verdict :: "node \<Rightarrow> commit_record \<Rightarrow> (commit_error + unit) option" where
  "archive_verdict nd r =
     (if 0 < cr_seq r \<and> cr_seq r < snapshot_floor nd (cr_coordinator r) then
        (case find_in_archive nd (cr_coordinator r) (cr_seq r) of
           Some archived \<Rightarrow> Some (if archived = r then Inr () else Inl EquivocationArchived)
         | None \<Rightarrow> None)
      else None)"

definition pinned :: "commit_record list \<Rightarrow> commit_record \<Rightarrow> bool" where
  "pinned held r = (\<exists>s\<in>set held. cr_coordinator s = cr_coordinator r \<and> cr_seq s = cr_seq r + 1
     \<and> cr_prev_epoch s = cr_epoch r)"

definition chain_ok :: "commit_record list \<Rightarrow> commit_record \<Rightarrow> bool" where
  "chain_ok held r =
     (cr_prev_epoch r \<noteq> [] \<and> 1 < cr_seq r \<longrightarrow>
      (case List.find (in_slot (cr_coordinator r) (cr_seq r - 1)) held of
         None \<Rightarrow> True
       | Some pred \<Rightarrow> cr_epoch pred = cr_prev_epoch r))"

definition gate :: "cluster_env \<Rightarrow> u64 \<Rightarrow> node \<Rightarrow> commit_record \<Rightarrow> commit_error option" where
  "gate E now nd r =
     (case verify_key_epoch E now (nd_keys nd) r of
        None \<Rightarrow> Some BadSignature
      | Some epoch \<Rightarrow>
          if epoch = Prev \<and> \<not> pinned (nd_ledger nd) r then Some RevokedKeyFrontier
          else if \<not> attribution_valid E nd r then Some BadAttribution
          else if \<not> endorsements_satisfied_at_tip E nd r then Some BelowEndorsements
          else if \<not> subject_attestation_valid E r then Some BadAttestation
          else if \<not> chain_ok (nd_ledger nd) r then Some ChainDivergence
          else None)"

definition write_record :: "cluster_env \<Rightarrow> bool \<Rightarrow> u64 \<Rightarrow> commit_record \<Rightarrow> node \<Rightarrow> node" where
  "write_record E locked now r nd =
     (let nd1 = nd\<lparr>nd_ledger := nd_ledger nd @ [r]\<rparr>;
          nd2 = apply_member_delta E locked r nd1
      in if cr_kind r = KIND_CLUSTER_REKEY_ACTIVATE then
           (case rekey_fingerprint (ev_crypto E) r of
              None \<Rightarrow> nd2
            | Some fp \<Rightarrow> nd2\<lparr>nd_keys := snd (activate_staged_key (ev_crypto E) now fp (nd_keys nd2))\<rparr>)
         else nd2)"

definition append_checked :: "cluster_env \<Rightarrow> bool \<Rightarrow> u64 \<Rightarrow> commit_record \<Rightarrow> node \<Rightarrow> (commit_error + bool) \<times> node" where
  "append_checked E locked now r nd =
     (case held_verdict nd r of
        Some (Inr _) \<Rightarrow> (Inr False, nd)
      | Some (Inl e) \<Rightarrow> (Inl e, nd)
      | None \<Rightarrow>
          (case archive_verdict nd r of
             Some (Inr _) \<Rightarrow> (Inr False, nd)
           | Some (Inl e) \<Rightarrow> (Inl e, nd)
           | None \<Rightarrow>
               (case gate E now nd r of
                  Some e \<Rightarrow> (Inl e, nd)
                | None \<Rightarrow> (Inr True, write_record E locked now r nd))))"

definition append_to :: "cluster_env \<Rightarrow> locks \<Rightarrow> u64 \<Rightarrow> commit_record \<Rightarrow> node \<Rightarrow> (commit_error + unit) \<times> node" where
  "append_to E lk now r nd =
     (if \<not> lk_ledger lk then (Inl LedgerLocked, nd)
      else case append_checked E (lk_peers lk) now r nd of
             (Inl e, nd') \<Rightarrow> (Inl e, nd')
           | (Inr _, nd') \<Rightarrow> (Inr (), nd'))"

datatype append_outcome = Applied | Skipped | Refused

fun append_loop :: "cluster_env \<Rightarrow> bool \<Rightarrow> u64 \<Rightarrow> commit_record list \<Rightarrow> node \<Rightarrow> append_outcome list \<times> node" where
  "append_loop E locked now [] nd = ([], nd)"
| "append_loop E locked now (r # rs) nd =
     (case append_checked E locked now r nd of
        (res, nd1) \<Rightarrow>
          (case append_loop E locked now rs nd1 of
             (outs, nd2) \<Rightarrow> ((case res of Inr True \<Rightarrow> Applied | Inr False \<Rightarrow> Skipped | Inl _ \<Rightarrow> Refused) # outs, nd2)))"

definition append_many_to :: "cluster_env \<Rightarrow> locks \<Rightarrow> u64 \<Rightarrow> commit_record list \<Rightarrow> node \<Rightarrow> append_outcome list \<times> node" where
  "append_many_to E lk now rs nd =
     (if \<not> lk_ledger lk then (replicate (length rs) Refused, nd) else append_loop E (lk_peers lk) now rs nd)"

section \<open>Compaction and replay of the files\<close>

text \<open>The three writes of a compaction, in the order the code makes them: a crash leaves the node in one of the
  states in between.\<close>

definition compact_states :: "cluster_env \<Rightarrow> u64 \<Rightarrow> node \<Rightarrow> node list" where
  "compact_states E now nd =
     (let records = nd_ledger nd;
          state = replay_records E now (nd_keys nd) records;
          nd1 = nd\<lparr>nd_archive := nd_archive nd @ archived_part records\<rparr>;
          nd2 = nd1\<lparr>nd_snapshot := Some (snapshot_of now state)\<rparr>;
          nd3 = nd2\<lparr>nd_ledger := live_part records\<rparr>
      in [nd1, nd2, nd3])"

definition compact_at :: "cluster_env \<Rightarrow> locks \<Rightarrow> u64 \<Rightarrow> node \<Rightarrow> (commit_error + nat) \<times> node" where
  "compact_at E lk now nd =
     (if \<not> lk_ledger lk then (Inl LedgerLocked, nd)
      else if nd_ledger nd = [] \<or> archived_part (nd_ledger nd) = [] then (Inr 0, nd)
      else (Inr (length (archived_part (nd_ledger nd))), List.last (compact_states E now nd)))"

definition pki_anomalies :: "cluster_env \<Rightarrow> u64 \<Rightarrow> node \<Rightarrow> commit_record \<Rightarrow> anomaly list" where
  "pki_anomalies E now nd r =
     (if \<not> verify_record E now (nd_keys nd) r then []
      else (if attribution_valid E nd r then [] else [AttributionFailure (cr_coordinator r) (cr_seq r)])
         @ (if endorsements_satisfied E nd r then [] else [EndorsementShortfall (cr_coordinator r) (cr_seq r) (cr_kind r)])
         @ (if subject_attestation_valid E r then [] else [AttestationMissing (cr_coordinator r) (cr_seq r)]))"

definition replay :: "cluster_env \<Rightarrow> u64 \<Rightarrow> node \<Rightarrow> cluster_state" where
  "replay E now nd =
     add_anomaly (concat (map (pki_anomalies E now nd) (nd_ledger nd)))
       (replay_folded E now (nd_keys nd) (nd_snapshot nd) (nd_ledger nd))"

section \<open>Sealing\<close>

record commit_input =
  ci_coordinator :: string
  ci_leader :: string
  ci_electorate :: "string list"
  ci_tally :: nat
  ci_quorum :: nat
  ci_value :: string

definition sealed :: "cluster_env \<Rightarrow> string \<Rightarrow> commit_record \<Rightarrow> commit_record" where
  "sealed E key r =
     (let s = hmac_sha256_hex (ev_crypto E) key (signed_payload E r)
      in r\<lparr>cr_signature := s, cr_member_sig := (case ev_sign E s of None \<Rightarrow> [] | Some m \<Rightarrow> m)\<rparr>)"

definition unsealed :: "cluster_env \<Rightarrow> u64 \<Rightarrow> node \<Rightarrow> commit_input \<Rightarrow> string \<Rightarrow> string \<Rightarrow> commit_record" where
  "unsealed E now nd inp kind epoch_text =
     \<lparr>cr_epoch = digest_hex (ev_crypto E) epoch_text, cr_coordinator = ci_coordinator inp,
      cr_electorate = sort (ci_electorate inp), cr_tally = ci_tally inp, cr_quorum = ci_quorum inp,
      cr_value_hash = digest_hex (ev_crypto E) (ci_value inp), cr_value = ci_value inp, cr_committed_at = now,
      cr_seq = next_seq_for (nd_ledger nd) (ci_coordinator inp), cr_leader = ci_leader inp,
      cr_term = ts_term (nd_term nd),
      cr_prev_epoch = (case chain_head_epoch (nd_ledger nd) (ci_coordinator inp) of None \<Rightarrow> [] | Some e \<Rightarrow> e),
      cr_kind = kind, cr_signature = [], cr_member_sig = [], cr_member_pubkey = [], cr_subject_sig = [],
      cr_endorsements = []\<rparr>"

definition seal :: "cluster_env \<Rightarrow> u64 \<Rightarrow> node \<Rightarrow> commit_input \<Rightarrow> commit_record option" where
  "seal E now nd inp =
     (case cluster_key (ev_crypto E) (nd_keys nd) of
        None \<Rightarrow> None
      | Some key \<Rightarrow>
          Some (sealed E key (unsealed E now nd inp []
            (join '','' (sort (ci_electorate inp)) @ ''|'' @ show_u64 now))))"

definition seal_signed :: "cluster_env \<Rightarrow> u64 \<Rightarrow> node \<Rightarrow> string \<Rightarrow> string \<Rightarrow> string \<Rightarrow> string \<Rightarrow> string list \<Rightarrow> commit_record option" where
  "seal_signed E now nd coordinator leader kind value electorate =
     (let inp = \<lparr>ci_coordinator = coordinator, ci_leader = leader, ci_electorate = electorate, ci_tally = 0,
                 ci_quorum = 0, ci_value = value\<rparr>
      in case cluster_key (ev_crypto E) (nd_keys nd) of
           None \<Rightarrow> None
         | Some key \<Rightarrow>
             Some (sealed E key (unsealed E now nd inp kind
               (kind @ ''|'' @ join '','' (sort electorate) @ ''|'' @ show_u64 now))))"

definition seal_member ::
  "cluster_env \<Rightarrow> u64 \<Rightarrow> node \<Rightarrow> string \<Rightarrow> string \<Rightarrow> string \<Rightarrow> string \<Rightarrow> string list \<Rightarrow> string \<Rightarrow> commit_record option" where
  "seal_member E now nd coordinator leader kind member electorate member_pubkey =
     (if kind \<notin> {KIND_MEMBER_ADD, KIND_MEMBER_REMOVE, KIND_MEMBER_UNBAN} then None
      else case split_once CHR ''@'' member of
             None \<Rightarrow> None
           | Some (i, a) \<Rightarrow>
               if i = [] \<or> a = [] then None
               else map_option (\<lambda>r.
                      if kind = KIND_MEMBER_ADD \<and> (case cy_unhex (ev_crypto E) member_pubkey of
                           None \<Rightarrow> False | Some b \<Rightarrow> length b = 32)
                      then r\<lparr>cr_member_pubkey := member_pubkey\<rparr> else r)
                    (seal_signed E now nd coordinator leader kind member electorate))"

definition seal_rekey :: "cluster_env \<Rightarrow> u64 \<Rightarrow> node \<Rightarrow> string \<Rightarrow> string \<Rightarrow> string \<Rightarrow> string list \<Rightarrow> commit_record option" where
  "seal_rekey E now nd coordinator leader fingerprint electorate =
     (case cy_unhex (ev_crypto E) fingerprint of
        None \<Rightarrow> None
      | Some b \<Rightarrow> if length b \<noteq> 32 then None
          else seal_signed E now nd coordinator leader KIND_CLUSTER_REKEY fingerprint electorate)"

definition seal_rekey_activate :: "cluster_env \<Rightarrow> u64 \<Rightarrow> node \<Rightarrow> string \<Rightarrow> string \<Rightarrow> string \<Rightarrow> string list \<Rightarrow> commit_record option" where
  "seal_rekey_activate E now nd coordinator leader fingerprint electorate =
     (case cy_unhex (ev_crypto E) fingerprint of
        None \<Rightarrow> None
      | Some b \<Rightarrow> if length b \<noteq> 32 then None
          else seal_signed E now nd coordinator leader KIND_CLUSTER_REKEY_ACTIVATE fingerprint electorate)"

section \<open>Intake of pushed records\<close>

text \<open>The gates of a push: a genuine record, a coordinator with authority, a term that is not behind. Only a known
  coordinator moves the term. A pushed record then goes through \<open>append_to\<close>; the pull of missing records from the
  coordinator is another push of what it returns.\<close>

definition push_gate :: "cluster_env \<Rightarrow> locks \<Rightarrow> u64 \<Rightarrow> commit_record \<Rightarrow> node \<Rightarrow> commit_error option \<times> node" where
  "push_gate E lk now r nd =
     (if \<not> verify_record E now (nd_keys nd) r then (Some BadSignature, nd)
      else if \<not> member_coordinator_known E nd r then (Some NotMember, nd)
      else if \<not> coordinator_known E nd r then (None, nd)
      else case check_term_at (lk_term lk) now r (nd_term nd) of
             (verdict, st) \<Rightarrow> (if verdict = TermStale then Some TermBehind else None, nd\<lparr>nd_term := st\<rparr>))"

definition commit_record_tool :: "cluster_env \<Rightarrow> locks \<Rightarrow> u64 \<Rightarrow> commit_record \<Rightarrow> node \<Rightarrow> (commit_error + u64 list) \<times> node" where
  "commit_record_tool E lk now r nd =
     (case push_gate E lk now r nd of
        (Some e, nd1) \<Rightarrow> (Inl e, nd1)
      | (None, nd1) \<Rightarrow>
          let missing = missing_seqs_floored (nd_ledger nd1) (cr_coordinator r) (cr_seq r)
                          (snapshot_floor nd1 (cr_coordinator r))
          in case append_to E lk now r nd1 of
               (Inl e, nd2) \<Rightarrow> (Inl e, nd2)
             | (Inr _, nd2) \<Rightarrow> (Inr missing, nd2))"

fun push_filter :: "cluster_env \<Rightarrow> locks \<Rightarrow> u64 \<Rightarrow> commit_record list \<Rightarrow> node \<Rightarrow> commit_record list \<times> nat \<times> node" where
  "push_filter E lk now [] nd = ([], 0, nd)"
| "push_filter E lk now (r # rs) nd =
     (case push_gate E lk now r nd of
        (Some _, nd1) \<Rightarrow> (case push_filter E lk now rs nd1 of (acc, refused, nd2) \<Rightarrow> (acc, refused + 1, nd2))
      | (None, nd1) \<Rightarrow> (case push_filter E lk now rs nd1 of (acc, refused, nd2) \<Rightarrow> (r # acc, refused, nd2)))"

record push_counts =
  pc_applied :: nat
  pc_skipped :: nat
  pc_refused :: nat

definition MAX_BATCH :: nat where
  "MAX_BATCH = 1000"

definition commit_records_tool :: "cluster_env \<Rightarrow> locks \<Rightarrow> u64 \<Rightarrow> commit_record list \<Rightarrow> node \<Rightarrow> (commit_error + push_counts) \<times> node" where
  "commit_records_tool E lk now rs nd =
     (if MAX_BATCH < length rs then (Inl BatchTooLarge, nd)
      else case push_filter E lk now rs nd of
             (accepted, refused, nd1) \<Rightarrow>
               (case append_many_to E lk now accepted nd1 of
                  (outs, nd2) \<Rightarrow>
                    (Inr \<lparr>pc_applied = count_list outs Applied, pc_skipped = count_list outs Skipped,
                          pc_refused = refused + count_list outs Refused\<rparr>, nd2)))"

end
