(* ===== verification/Commit_Fold.thy ===== *)
theory Commit_Fold
  imports Commit_Node
begin

text \<open>
  Replay and compaction of the commit ledger. The consensus view is the replayed state without its anomalies. It
  splits into the effects of the genuine records above the floors, in ledger order, and the high-water mark of
  every coordinator; compaction keeps both.
\<close>

definition consensus_view :: "cluster_state \<Rightarrow> cluster_state" where
  "consensus_view st = st\<lparr>cs_anomalies := []\<rparr>"

section \<open>Effects\<close>

lemma add_anomaly_fields [simp]:
  "cs_term (add_anomaly as st) = cs_term st" "cs_leader (add_anomaly as st) = cs_leader st"
  "cs_coordinators (add_anomaly as st) = cs_coordinators st" "cs_decisions (add_anomaly as st) = cs_decisions st"
  "cs_memberships (add_anomaly as st) = cs_memberships st" "cs_roster (add_anomaly as st) = cs_roster st"
  "cs_banned (add_anomaly as st) = cs_banned st"
  by (simp_all add: add_anomaly_def)

lemma view_add_anomaly [simp]: "consensus_view (add_anomaly as st) = consensus_view st"
  by (simp add: consensus_view_def add_anomaly_def)

lemma view_idem [simp]: "consensus_view (consensus_view st) = consensus_view st"
  by (simp add: consensus_view_def)

lemma view_coordinators [simp]: "cs_coordinators (consensus_view st) = cs_coordinators st"
  by (simp add: consensus_view_def)

lemma fold_delta_frame:
  "fold_delta d (st\<lparr>cs_anomalies := as\<rparr>) = (fold_delta d st)\<lparr>cs_anomalies := as\<rparr>"
  "fold_delta d (st\<lparr>cs_coordinators := m\<rparr>) = (fold_delta d st)\<lparr>cs_coordinators := m\<rparr>"
  "cs_coordinators (fold_delta d st) = cs_coordinators st"
  "cs_term (fold_delta d st) = cs_term st"
  by (simp_all add: fold_delta_def split: prod.split)

lemma fold_effect_frame:
  "fold_effect r (st\<lparr>cs_anomalies := as\<rparr>) = (fold_effect r st)\<lparr>cs_anomalies := as\<rparr>"
  "fold_effect r (st\<lparr>cs_coordinators := m\<rparr>) = (fold_effect r st)\<lparr>cs_coordinators := m\<rparr>"
  "cs_coordinators (fold_effect r st) = cs_coordinators st"
proof -
  have eq: "fold_effect r st =
    (let st2 = (case member_delta r of None \<Rightarrow> st | Some d \<Rightarrow> fold_delta d (st\<lparr>cs_memberships := cs_memberships st + 1\<rparr>))
     in (if cs_term st < cr_term r then st2\<lparr>cs_term := cr_term r, cs_leader := cr_leader r\<rparr> else st2)
          \<lparr>cs_decisions := cs_decisions st + 1\<rparr>)" for st
    by (cases "member_delta r") (auto simp: fold_effect_def Let_def fold_delta_def split: prod.split)
  show "fold_effect r (st\<lparr>cs_anomalies := as\<rparr>) = (fold_effect r st)\<lparr>cs_anomalies := as\<rparr>"
    "fold_effect r (st\<lparr>cs_coordinators := m\<rparr>) = (fold_effect r st)\<lparr>cs_coordinators := m\<rparr>"
    "cs_coordinators (fold_effect r st) = cs_coordinators st"
    by (cases "member_delta r"; simp add: eq Let_def fold_delta_def split: prod.split)+
qed

lemma effects_coordinators:
  "fold fold_effect rs (st\<lparr>cs_coordinators := m\<rparr>) = (fold fold_effect rs st)\<lparr>cs_coordinators := m\<rparr>"
  "cs_coordinators (fold fold_effect rs st) = cs_coordinators st"
  by (induction rs arbitrary: st) (simp_all add: fold_effect_frame)

lemma view_effect: "consensus_view (fold_effect r st) = fold_effect r (consensus_view st)"
  by (simp add: consensus_view_def fold_effect_frame)

lemma view_effects: "consensus_view (fold fold_effect rs st) = fold fold_effect rs (consensus_view st)"
  by (induction rs arbitrary: st) (simp_all add: view_effect)

definition above :: "cluster_env \<Rightarrow> u64 \<Rightarrow> key_files \<Rightarrow> (string, u64) btree_map \<Rightarrow> commit_record \<Rightarrow> bool" where
  "above E now ks floors r = (verify_record E now ks r \<and> floor_of floors (cr_coordinator r) < cr_seq r)"

definition at_floor :: "cluster_env \<Rightarrow> u64 \<Rightarrow> key_files \<Rightarrow> (string, u64) btree_map \<Rightarrow> commit_record \<Rightarrow> bool" where
  "at_floor E now ks floors r = (verify_record E now ks r \<and> floor_of floors (cr_coordinator r) \<le> cr_seq r)"

lemma fold_record_step:
  "consensus_view (fst (fold_record E now ks floors r (st, g))) =
     (if above E now ks floors r then fold_effect r (consensus_view st) else consensus_view st)"
  "snd (fold_record E now ks floors r (st, g)) =
     (if at_floor E now ks floors r then bt_upsert (cr_coordinator r) [] (\<lambda>l. l @ [r]) g else g)"
  by (auto simp: fold_record_def above_def at_floor_def view_effect)

lemma fold_record_effects:
  "consensus_view (fst (fold (fold_record E now ks floors) rs (st, g))) =
     fold fold_effect (filter (above E now ks floors) rs) (consensus_view st)"
proof (induction rs arbitrary: st g)
  case (Cons r rs)
  obtain st' g' where step: "fold_record E now ks floors r (st, g) = (st', g')" by (metis surj_pair)
  have "consensus_view st' = (if above E now ks floors r then fold_effect r (consensus_view st) else consensus_view st)"
    using fold_record_step(1) [of E now ks floors r st g] by (simp add: step)
  then show ?case by (simp add: step Cons)
qed simp

lemma fold_record_groups:
  "snd (fold (fold_record E now ks floors) rs (st, g)) =
     fold (\<lambda>r. bt_upsert (cr_coordinator r) [] (\<lambda>l. l @ [r])) (filter (at_floor E now ks floors) rs) g"
proof (induction rs arbitrary: st g)
  case (Cons r rs)
  obtain st' g' where step: "fold_record E now ks floors r (st, g) = (st', g')" by (metis surj_pair)
  have "g' = (if at_floor E now ks floors r then bt_upsert (cr_coordinator r) [] (\<lambda>l. l @ [r]) g else g)"
    using fold_record_step(2) [of E now ks floors r st g] by (simp add: step)
  then show ?case by (simp add: step Cons)
qed simp

section \<open>High-water marks\<close>

lemma fold_max_Max: "fold max (xs :: 'a::linorder list) a = Max (insert a (set xs))"
  by (simp flip: Max.set_eq_fold)

lemma max_seq_Max: "max_seq rs c = Max (insert 0 {cr_seq r | r. r \<in> set rs \<and> cr_coordinator r = c})"
proof -
  have "set (map cr_seq (records_of c rs)) = {cr_seq r | r. r \<in> set rs \<and> cr_coordinator r = c}"
    by (auto simp: records_of_def)
  then show ?thesis by (simp add: max_seq_def fold_max_Max)
qed

lemma max_seq_ge: "r \<in> set rs \<Longrightarrow> cr_coordinator r = c \<Longrightarrow> cr_seq r \<le> max_seq rs c"
  by (auto simp: max_seq_def fold_max_Max records_of_def)

lemma max_seq_append: "max_seq (rs @ rs') c = max (max_seq rs c) (max_seq rs' c)"
proof -
  have "fold max xs a = max a (fold max xs 0)" for xs and a :: u64
    by (cases "xs = []") (simp_all add: fold_max_Max)
  from this [of "map cr_seq (records_of c rs')" "fold max (map cr_seq (records_of c rs)) 0"]
  show ?thesis by (simp add: max_seq_def records_of_def)
qed

lemma group_get:
  "bt_get (fold (\<lambda>r. bt_upsert (cr_coordinator r) [] (\<lambda>l. l @ [r])) rs []) c =
     (if records_of c rs \<noteq> [] then Some (records_of c rs) else None)"
proof -
  have "fold (\<lambda>r l. l @ [r]) xs a = a @ xs" for xs and a :: "commit_record list"
    by (induction xs arbitrary: a) auto
  then show ?thesis
    by (simp add: bt_get_fold_upsert [where f = "\<lambda>r l. l @ [r]"] records_of_def filter_empty_conv)
qed

lemma audit_view:
  assumes "rs \<noteq> []"
  shows "consensus_view (audit_coordinator floors (c, rs) st) =
     (consensus_view st)\<lparr>cs_coordinators :=
        bt_insert c (max (fold max (map cr_seq rs) 0) (floor_of (cs_coordinators st) c)) (cs_coordinators st)\<rparr>"
    and "cs_coordinators (audit_coordinator floors (c, rs) st) =
        bt_insert c (max (fold max (map cr_seq rs) 0) (floor_of (cs_coordinators st) c)) (cs_coordinators st)"
proof -
  have ne: "sort_key cr_seq rs \<noteq> []" using assms by (metis length_0_conv length_sort)
  have high: "fold max (map cr_seq (sort_key cr_seq rs)) 0 = fold max (map cr_seq rs) 0"
    by (simp add: fold_max_Max)
  show "consensus_view (audit_coordinator floors (c, rs) st) =
     (consensus_view st)\<lparr>cs_coordinators :=
        bt_insert c (max (fold max (map cr_seq rs) 0) (floor_of (cs_coordinators st) c)) (cs_coordinators st)\<rparr>"
    using ne by (simp add: audit_coordinator_def Let_def high consensus_view_def add_anomaly_def)
  show "cs_coordinators (audit_coordinator floors (c, rs) st) =
        bt_insert c (max (fold max (map cr_seq rs) 0) (floor_of (cs_coordinators st) c)) (cs_coordinators st)"
    using ne by (simp add: audit_coordinator_def Let_def high)
qed

lemma audits_view:
  assumes "\<forall>g\<in>set gs. snd g \<noteq> []"
  shows "consensus_view (fold (audit_coordinator floors) gs st) =
     (consensus_view st)\<lparr>cs_coordinators :=
        fold (\<lambda>(c, rs) m. bt_insert c (max (fold max (map cr_seq rs) 0) (floor_of m c)) m) gs (cs_coordinators st)\<rparr>"
  using assms
proof (induction gs arbitrary: st)
  case (Cons g gs)
  obtain c rs where g: "g = (c, rs)" "rs \<noteq> []" using Cons.prems by (cases g) auto
  show ?case
    using Cons audit_view [OF g(2), of floors c st] by (simp add: g(1))
qed (simp add: consensus_view_def)

lemma marks_get:
  assumes "bt_inv gs"
  shows "bt_get (fold (\<lambda>(c, rs) m. bt_insert c (max (fold max (map cr_seq rs) 0) (floor_of m c)) m) gs m0) c =
     (case bt_get gs c of
        None \<Rightarrow> bt_get m0 c
      | Some rs \<Rightarrow> Some (max (fold max (map cr_seq rs) 0) (floor_of m0 c)))"
  using bt_inv_distinct [OF assms]
proof (induction gs arbitrary: m0)
  case (Cons g gs)
  obtain k rs where g: "g = (k, rs)" by (cases g)
  let ?m1 = "bt_insert k (max (fold max (map cr_seq rs) 0) (floor_of m0 k)) m0"
  have k: "bt_get gs k = None" using Cons.prems by (simp add: g bt_get_None)
  have get: "bt_get (g # gs) x = (if x = k then Some rs else bt_get gs x)" for x by (simp add: g bt_get_def)
  have fl: "c \<noteq> k \<Longrightarrow> floor_of ?m1 c = floor_of m0 c" by (simp add: floor_of_def btree)
  show ?case
    using Cons.IH [of ?m1] Cons.prems by (cases "c = k") (simp_all add: g get [unfolded g] k fl btree split: option.split)
qed (simp add: bt_get_def)

lemma marks_inv:
  "bt_inv m0 \<Longrightarrow> bt_inv (fold (\<lambda>(c, rs) m. bt_insert c (max (fold max (map cr_seq rs) 0) (floor_of m c)) m) gs m0)"
  by (induction gs arbitrary: m0) (auto simp: btree)

text \<open>The two halves of a replay: effects, and marks.\<close>

definition grouped_at :: "cluster_env \<Rightarrow> u64 \<Rightarrow> key_files \<Rightarrow> (string, u64) btree_map \<Rightarrow> commit_record list \<Rightarrow> grouped" where
  "grouped_at E now ks floors rs =
     fold (\<lambda>r. bt_upsert (cr_coordinator r) [] (\<lambda>l. l @ [r])) (filter (at_floor E now ks floors) rs) []"

lemma grouped_at_inv: "bt_inv (grouped_at E now ks floors rs)"
  unfolding grouped_at_def by (rule bt_inv_fold_upsert)

lemma grouped_at_ne: "g \<in> set (grouped_at E now ks floors rs) \<Longrightarrow> snd g \<noteq> []"
  using bt_get_mem [OF grouped_at_inv, of E now ks floors rs "fst g" "snd g"]
  by (auto simp: grouped_at_def group_get split: if_splits)

lemma fold_records_view:
  "consensus_view (fold_records E now ks st rs floors) =
     (fold fold_effect (filter (above E now ks floors) rs) (consensus_view st))\<lparr>cs_coordinators :=
        fold (\<lambda>(c, rs) m. bt_insert c (max (fold max (map cr_seq rs) 0) (floor_of m c)) m)
          (grouped_at E now ks floors rs) (cs_coordinators st)\<rparr>"
proof -
  obtain st1 g where step: "fold (fold_record E now ks floors) rs (st, []) = (st1, g)" by (metis surj_pair)
  have g: "g = grouped_at E now ks floors rs"
    using fold_record_groups [of E now ks floors rs st "[]"] by (simp add: step grouped_at_def)
  have eff: "consensus_view st1 = fold fold_effect (filter (above E now ks floors) rs) (consensus_view st)"
    using fold_record_effects [of E now ks floors rs st "[]"] by (simp add: step)
  have "cs_coordinators (consensus_view st1) = cs_coordinators (consensus_view st)"
    by (simp only: eff effects_coordinators)
  then have co: "cs_coordinators st1 = cs_coordinators st" by simp
  show ?thesis
    using grouped_at_ne unfolding fold_records_def step prod.case g
    by (subst audits_view) (auto simp: eff co)
qed

lemma fold_records_marks:
  "bt_get (cs_coordinators (fold_records E now ks st rs floors)) c =
     (let own = records_of c (filter (at_floor E now ks floors) rs)
      in if own \<noteq> [] then Some (max (fold max (map cr_seq own) 0) (floor_of (cs_coordinators st) c))
         else bt_get (cs_coordinators st) c)"
  "bt_inv (cs_coordinators st) \<Longrightarrow> bt_inv (cs_coordinators (fold_records E now ks st rs floors))"
proof -
  have eq: "cs_coordinators (fold_records E now ks st rs floors) =
      fold (\<lambda>(c, rs) m. bt_insert c (max (fold max (map cr_seq rs) 0) (floor_of m c)) m)
          (grouped_at E now ks floors rs) (cs_coordinators st)"
    using arg_cong [OF fold_records_view, of cs_coordinators E now ks st rs floors] by simp
  show "bt_get (cs_coordinators (fold_records E now ks st rs floors)) c =
     (let own = records_of c (filter (at_floor E now ks floors) rs)
      in if own \<noteq> [] then Some (max (fold max (map cr_seq own) 0) (floor_of (cs_coordinators st) c))
         else bt_get (cs_coordinators st) c)"
    unfolding eq marks_get [OF grouped_at_inv] by (simp add: grouped_at_def group_get Let_def)
  show "bt_inv (cs_coordinators st) \<Longrightarrow> bt_inv (cs_coordinators (fold_records E now ks st rs floors))"
    unfolding eq by (rule marks_inv)
qed

section \<open>Sealed records are genuine\<close>

lemma signed_fields_frame [simp]:
  "signed_fields_of (r\<lparr>cr_signature := x\<rparr>) = signed_fields_of r"
  "signed_fields_of (r\<lparr>cr_member_sig := x\<rparr>) = signed_fields_of r"
  "signed_fields_of (r\<lparr>cr_member_pubkey := x\<rparr>) = signed_fields_of r"
  by (simp_all add: signed_fields_of_def)

lemma member_delta_frame [simp]:
  "member_delta (r\<lparr>cr_signature := x\<rparr>) = member_delta r"
  "member_delta (r\<lparr>cr_member_sig := x\<rparr>) = member_delta r"
  "member_delta (r\<lparr>cr_member_pubkey := x\<rparr>) = member_delta r"
  by (simp_all add: member_delta_def split: option.split)

lemma internally_consistent_frame [simp]:
  "internally_consistent C (r\<lparr>cr_signature := x\<rparr>) = internally_consistent C r"
  "internally_consistent C (r\<lparr>cr_member_sig := x\<rparr>) = internally_consistent C r"
  "internally_consistent C (r\<lparr>cr_member_pubkey := x\<rparr>) = internally_consistent C r"
  by (simp_all add: internally_consistent_def rekey_fingerprint_def split: option.split)

lemma sealed_frame [simp]:
  "member_delta (sealed E key r) = member_delta r"
  "internally_consistent C (sealed E key r) = internally_consistent C r"
  by (simp_all add: sealed_def Let_def)

lemma sealed_epoch:
  assumes "cluster_key (ev_crypto E) ks = Some key" and "hmac_sha256_hex (ev_crypto E) key (signed_payload E r) \<noteq> []"
  shows "signature_epoch E now ks (sealed E key r) = Some Current"
  using assms by (simp add: signature_epoch_def sealed_def Let_def signed_payload_def)

lemma sealed_verifies:
  assumes "cluster_key (ev_crypto E) ks = Some key" and "hmac_sha256_hex (ev_crypto E) key (signed_payload E r) \<noteq> []"
    and "internally_consistent (ev_crypto E) r"
  shows "verify_key_epoch E now ks (sealed E key r) = Some Current" "verify_record E now ks (sealed E key r)"
proof -
  have "internally_consistent (ev_crypto E) (sealed E key r)"
    using assms(3) by (simp add: sealed_def Let_def)
  then show "verify_key_epoch E now ks (sealed E key r) = Some Current" "verify_record E now ks (sealed E key r)"
    using sealed_epoch [OF assms(1,2), of now] by (simp_all add: verify_key_epoch_def verify_record_def)
qed

lemma verify_epoch_iff: "verify_record E now ks r \<longleftrightarrow> verify_key_epoch E now ks r \<noteq> None"
  by (simp add: verify_record_def verify_key_epoch_def)

section \<open>A concrete cluster for the witnesses\<close>

definition toy_env :: cluster_env where
  "toy_env = \<lparr>ev_crypto = toy_crypto, ev_json = sf_value, ev_id = ''self'', ev_pubkey = None, ev_sign = (\<lambda>_. None)\<rparr>"

definition toy_key :: string where
  "toy_key = replicate 32 CHR ''k''"

definition toy_node :: "commit_record list \<Rightarrow> node" where
  "toy_node rs = \<lparr>nd_ledger = rs, nd_archive = [], nd_snapshot = None, nd_term = term_default,
     nd_peers = Some [], nd_banned = Some [], nd_evicted = None,
     nd_keys = \<lparr>kf_current = Some (cy_hex toy_crypto toy_key), kf_prev = None, kf_prev_expires = None,
       kf_next = None, kf_staged_at = None\<rparr>\<rparr>"

definition toy_unsealed :: "u64 \<Rightarrow> string \<Rightarrow> string \<Rightarrow> commit_record" where
  "toy_unsealed n kind value =
     \<lparr>cr_epoch = value, cr_coordinator = ''a'', cr_electorate = [''a''], cr_tally = 1, cr_quorum = 1,
      cr_value_hash = digest_hex toy_crypto value, cr_value = value, cr_committed_at = 0, cr_seq = n,
      cr_leader = ''a'', cr_term = 1, cr_prev_epoch = [], cr_kind = kind, cr_signature = [], cr_member_sig = [],
      cr_member_pubkey = [], cr_subject_sig = [], cr_endorsements = []\<rparr>"

definition toy_record :: "u64 \<Rightarrow> string \<Rightarrow> string \<Rightarrow> commit_record" where
  "toy_record n kind value = sealed toy_env toy_key (toy_unsealed n kind value)"

definition all_locks :: locks where
  "all_locks = \<lparr>lk_ledger = True, lk_peers = True, lk_term = True\<rparr>"

lemma toy_record_fields [simp]:
  "cr_coordinator (toy_record n kind v) = ''a''" "cr_seq (toy_record n kind v) = n" "cr_kind (toy_record n kind v) = kind"
  "cr_value (toy_record n kind v) = v" "cr_term (toy_record n kind v) = 1" "cr_leader (toy_record n kind v) = ''a''"
  "cr_prev_epoch (toy_record n kind v) = []" "cr_epoch (toy_record n kind v) = v" "cr_member_pubkey (toy_record n kind v) = []"
  "cr_electorate (toy_record n kind v) = [''a'']" "cr_committed_at (toy_record n kind v) = 0"
  by (simp_all add: toy_record_def toy_unsealed_def sealed_def Let_def)

lemma toy_keys_current: "cluster_key toy_crypto (nd_keys (toy_node rs)) = Some toy_key"
  by (simp add: cluster_key_def toy_node_def toy_key_def key_bytes_of_hex [OF hex_ok_toy])

lemma toy_verifies:
  assumes "cluster_key toy_crypto ks = Some toy_key" and "kind = [] \<or> member_delta (toy_record n kind v) \<noteq> None"
  shows "verify_key_epoch toy_env now ks (toy_record n kind v) = Some Current"
    "verify_record toy_env now ks (toy_record n kind v)"
proof -
  have key: "cluster_key (ev_crypto toy_env) ks = Some toy_key" using assms(1) by (simp add: toy_env_def)
  have mac: "hmac_sha256_hex (ev_crypto toy_env) k m \<noteq> []" for k m
    by (simp add: toy_env_def hmac_sha256_hex_def toy_crypto_def)
  have "internally_consistent (ev_crypto toy_env) (toy_unsealed n kind v)"
    using assms(2) by (auto simp: internally_consistent_def toy_unsealed_def toy_env_def toy_record_def)
  then show "verify_key_epoch toy_env now ks (toy_record n kind v) = Some Current"
    "verify_record toy_env now ks (toy_record n kind v)"
    unfolding toy_record_def using sealed_verifies [OF key mac] by auto
qed

end
