(* ===== verification/Commit_Compact.thy ===== *)
theory Commit_Compact
  imports Commit_Fold
begin

text \<open>
  Compaction keeps the consensus view: with the snapshot as seed, the records it covers are skipped and every later
  record above the floors has the effect it has on the whole history. A second compaction replays the live ledger
  alone and so forgets what the first snapshot held.
\<close>

lemma floor_of_Nil [simp]: "floor_of [] c = 0"
  by (simp add: floor_of_def btree)

lemma at_floor_Nil [simp]: "at_floor E now ks [] = verify_record E now ks"
  by (auto simp: at_floor_def fun_eq_iff)

lemma default_coordinators [simp]: "cs_coordinators cluster_default = []"
  by (simp add: cluster_default_def)

lemma replay_marks:
  "bt_get (cs_coordinators (replay_records E now ks rs)) c =
     (let own = filter (verify_record E now ks) rs in if records_of c own \<noteq> [] then Some (max_seq own c) else None)"
  by (simp add: replay_records_def fold_records_marks Let_def max_seq_def btree)

lemma replay_marks_inv: "bt_inv (cs_coordinators (replay_records E now ks rs))"
  by (simp add: replay_records_def fold_records_marks btree)

lemma max_seq_none: "records_of c rs = [] \<Longrightarrow> max_seq rs c = 0"
  by (simp add: max_seq_def)

lemma replay_floor:
  "floor_of (cs_coordinators (replay_records E now ks rs)) c = max_seq (filter (verify_record E now ks) rs) c"
  by (simp add: floor_of_def replay_marks Let_def max_seq_none)

lemma records_of_append [simp]: "records_of c (xs @ ys) = records_of c xs @ records_of c ys"
  by (simp add: records_of_def)

lemma records_of_ne: "records_of c rs \<noteq> [] \<longleftrightarrow> (\<exists>r\<in>set rs. cr_coordinator r = c)"
  by (auto simp: records_of_def filter_empty_conv)

lemma max_seq_subset: "set xs \<subseteq> set ys \<Longrightarrow> max_seq xs c \<le> max_seq ys c"
  unfolding max_seq_def fold_max_Max records_of_def by (rule Max_mono) auto

lemma view_seeded_snapshot: "consensus_view (seeded (snapshot_of t st)) = consensus_view st"
  by (simp add: seeded_def snapshot_of_def consensus_view_def)

lemma seeded_coordinators [simp]: "cs_coordinators (seeded (snapshot_of t st)) = cs_coordinators st"
  by (simp add: seeded_def snapshot_of_def)

definition fresh_above :: "cluster_env \<Rightarrow> u64 \<Rightarrow> key_files \<Rightarrow> commit_record list \<Rightarrow> commit_record list \<Rightarrow> bool" where
  "fresh_above E now ks old new \<longleftrightarrow>
     (\<forall>r\<in>set new. verify_record E now ks r \<longrightarrow>
        max_seq (filter (verify_record E now ks) old) (cr_coordinator r) < cr_seq r)"

lemma compact_marks:
  assumes sub: "set sub \<subseteq> set rs" and new: "fresh_above E now ks rs new"
  defines "S \<equiv> replay_records E now ks rs"
  shows "cs_coordinators (fold_records E now ks (seeded (snapshot_of t S)) (sub @ new) (cs_coordinators S)) =
    cs_coordinators (replay_records E now ks (rs @ new))"
proof (rule bt_ext)
  let ?V = "filter (verify_record E now ks)" and ?A = "filter (at_floor E now ks (cs_coordinators S))"
  have floor: "floor_of (cs_coordinators S) c = max_seq (?V rs) c" for c
    by (simp add: S_def replay_floor)
  have new_at: "?A new = ?V new"
    using new by (auto simp: fresh_above_def at_floor_def floor intro!: filter_cong)
  have sub_at: "set (?A sub) \<subseteq> set (?V rs)" using sub by (auto simp: at_floor_def)
  have low: "max_seq (?A sub) c \<le> max_seq (?V rs) c" for c by (rule max_seq_subset [OF sub_at])
  show "bt_inv (cs_coordinators (replay_records E now ks (rs @ new)))" by (rule replay_marks_inv)
  show "bt_inv (cs_coordinators (fold_records E now ks (seeded (snapshot_of t S)) (sub @ new) (cs_coordinators S)))"
    by (rule fold_records_marks(2)) (simp add: S_def replay_marks_inv)
  fix c
  have old: "bt_get (cs_coordinators S) c = (if records_of c (?V rs) \<noteq> [] then Some (max_seq (?V rs) c) else None)"
    by (simp add: S_def replay_marks Let_def)
  have seen: "records_of c (?A sub) \<noteq> [] \<Longrightarrow> records_of c (?V rs) \<noteq> []"
    using sub_at by (auto simp: records_of_ne)
  have "bt_get (cs_coordinators (fold_records E now ks (seeded (snapshot_of t S)) (sub @ new) (cs_coordinators S))) c =
     (if records_of c (?A sub) \<noteq> [] \<or> records_of c (?V new) \<noteq> []
      then Some (max (max_seq (?A sub @ ?V new) c) (max_seq (?V rs) c)) else bt_get (cs_coordinators S) c)"
    by (simp add: fold_records_marks(1) Let_def floor new_at max_seq_def)
  also have "\<dots> = (if records_of c (?V rs) \<noteq> [] \<or> records_of c (?V new) \<noteq> []
      then Some (max_seq (?V rs @ ?V new) c) else None)"
    using seen low [of c] by (auto simp: old max_seq_append max_seq_none max.absorb2 max.assoc max.commute max.left_commute)
  also have "\<dots> = bt_get (cs_coordinators (replay_records E now ks (rs @ new))) c"
    by (simp add: replay_marks Let_def)
  finally show "bt_get (cs_coordinators (fold_records E now ks (seeded (snapshot_of t S)) (sub @ new) (cs_coordinators S))) c =
    bt_get (cs_coordinators (replay_records E now ks (rs @ new))) c" .
qed

lemma compact_effects:
  assumes sub: "set sub \<subseteq> set rs" and new: "fresh_above E now ks rs new"
  defines "S \<equiv> replay_records E now ks rs"
  shows "consensus_view (fold_records E now ks (seeded (snapshot_of t S)) (sub @ new) (cs_coordinators S)) =
    consensus_view (replay_records E now ks (rs @ new))"
proof -
  let ?V = "filter (verify_record E now ks)"
  let ?L = "fold_records E now ks (seeded (snapshot_of t S)) (sub @ new) (cs_coordinators S)"
  let ?R = "replay_records E now ks (rs @ new)"
  have floor: "floor_of (cs_coordinators S) c = max_seq (?V rs) c" for c
    by (simp add: S_def replay_floor)
  have "\<not> above E now ks (cs_coordinators S) r" if "r \<in> set sub" for r
    using that sub max_seq_ge [of r "?V rs"] by (auto simp: above_def floor not_less)
  then have none: "filter (above E now ks (cs_coordinators S)) sub = []" by (simp add: filter_empty_conv)
  have new1: "filter (above E now ks (cs_coordinators S)) new = ?V new"
    using new by (auto simp: fresh_above_def above_def floor intro!: filter_cong)
  have new2: "filter (above E now ks []) new = ?V new"
  proof (rule filter_cong [OF refl])
    fix r
    assume "r \<in> set new"
    then show "above E now ks [] r = verify_record E now ks r"
      using new le_less_trans [OF word_zero_le] unfolding fresh_above_def above_def floor_of_Nil by blast
  qed
  have marks: "cs_coordinators ?L = cs_coordinators ?R"
    unfolding S_def by (rule compact_marks [OF sub new])
  have split: "consensus_view x = (fold fold_effect as (consensus_view y))\<lparr>cs_coordinators := cs_coordinators x\<rparr>"
    if "consensus_view x = (fold fold_effect as (consensus_view y))\<lparr>cs_coordinators := m\<rparr>" for x y as m
  proof -
    have "cs_coordinators (consensus_view x) = m" unfolding that by simp
    then have m: "cs_coordinators x = m" by simp
    show ?thesis by (simp add: that m)
  qed
  have L: "consensus_view ?L = (fold fold_effect (?V new) (consensus_view S))\<lparr>cs_coordinators := cs_coordinators ?L\<rparr>"
    using split [OF fold_records_view [of E now ks "seeded (snapshot_of t S)" "sub @ new" "cs_coordinators S"]]
    by (simp add: none new1 view_seeded_snapshot)
  have R: "consensus_view ?R =
      (fold fold_effect (?V new) (fold fold_effect (filter (above E now ks []) rs) (consensus_view cluster_default)))
        \<lparr>cs_coordinators := cs_coordinators ?R\<rparr>"
    using split [OF fold_records_view [of E now ks cluster_default "rs @ new" "[]"]]
    by (simp add: new2 flip: replay_records_def)
  have S: "consensus_view S = (fold fold_effect (filter (above E now ks []) rs) (consensus_view cluster_default))
        \<lparr>cs_coordinators := cs_coordinators S\<rparr>"
    using split [OF fold_records_view [of E now ks cluster_default rs "[]"]]
    by (simp add: S_def flip: replay_records_def)
  show ?thesis
    unfolding L R S effects_coordinators(1) marks by simp
qed

section \<open>Compaction of a node\<close>

lemma live_part_subset: "set (live_part rs) \<subseteq> set rs"
  by (auto simp: live_part_def in_set_enumerate_eq)

lemma archived_part_subset: "set (archived_part rs) \<subseteq> set rs"
  by (auto simp: archived_part_def in_set_enumerate_eq)

lemma replay_view: "consensus_view (replay E now nd) = consensus_view (replay_folded E now (nd_keys nd) (nd_snapshot nd) (nd_ledger nd))"
  by (simp add: replay_def)

lemma compacted_view:
  assumes "set sub \<subseteq> set rs" and "fresh_above E now ks rs new"
  shows "consensus_view (replay_folded E now ks (Some (snapshot_of now (replay_records E now ks rs))) (sub @ new)) =
    consensus_view (replay_records E now ks (rs @ new))"
  using compact_effects [OF assms, of now] by (simp add: replay_folded_def snapshot_of_def)

text \<open>C4. Compaction preserves the consensus view. Take a node that was not compacted before and stop its
  compaction after any of its three writes (archive, snapshot, truncated ledger), or not at all. Whatever records
  above the high-water marks arrive afterwards, the replay of the node has the term, leader, high-water marks,
  counts, roster and bans of the replay of the whole history, record for record.\<close>

theorem compaction_preserves_view:
  assumes "nd_snapshot nd = None" and "nd' \<in> set (nd # compact_states E now nd)"
    and "fresh_above E now (nd_keys nd) (nd_ledger nd) new"
  shows "consensus_view (replay E now (nd'\<lparr>nd_ledger := nd_ledger nd' @ new\<rparr>)) =
    consensus_view (replay_records E now (nd_keys nd) (nd_ledger nd @ new))"
proof -
  let ?rs = "nd_ledger nd" and ?ks = "nd_keys nd"
  consider "nd_snapshot nd' = None" "nd_ledger nd' = ?rs" "nd_keys nd' = ?ks"
    | sub where "nd_snapshot nd' = Some (snapshot_of now (replay_records E now ?ks ?rs))" "nd_ledger nd' = sub"
        "set sub \<subseteq> set ?rs" "nd_keys nd' = ?ks"
    using assms(1,2) live_part_subset [of ?rs] by (auto simp: compact_states_def Let_def)
  then show ?thesis
  proof cases
    case 1
    then show ?thesis by (simp add: replay_view replay_folded_def)
  next
    case 2
    then show ?thesis using compacted_view [OF 2(3) assms(3)] by (simp add: replay_view)
  qed
qed

lemma toy_node_fields [simp]:
  "nd_ledger (toy_node rs) = rs" "nd_snapshot (toy_node rs) = None" "nd_archive (toy_node rs) = []"
  "nd_peers (toy_node rs) = Some []" "nd_banned (toy_node rs) = Some []"
  by (simp_all add: toy_node_def)

definition toy_ledger :: "commit_record list" where
  "toy_ledger = [toy_record 1 KIND_MEMBER_REMOVE ''m@h'', toy_record 2 [] ''x'']"

lemma toy_remove_delta [simp]: "member_delta (toy_record n KIND_MEMBER_REMOVE ''m@h'') = Some (KIND_MEMBER_REMOVE, ''m'', ''h'')"
  by (simp add: member_delta_def kinds)

lemma toy_decision_delta [simp]: "member_delta (toy_record n [] v) = None"
  by (simp add: member_delta_def kinds)

lemma toy_ledger_verifies [simp]:
  "verify_record toy_env now (nd_keys (toy_node rs)) (toy_record n KIND_MEMBER_REMOVE ''m@h'')"
  "verify_record toy_env now (nd_keys (toy_node rs)) (toy_record n [] v)"
  by (simp_all add: toy_verifies [OF toy_keys_current])

theorem compaction_preserves_view_witness:
  "nd_snapshot (toy_node toy_ledger) = None
   \<and> fresh_above toy_env 5 (nd_keys (toy_node toy_ledger)) toy_ledger [toy_record 3 [] ''y'']
   \<and> consensus_view (replay toy_env 5 (last (compact_states toy_env 5 (toy_node toy_ledger))
       \<lparr>nd_ledger := nd_ledger (last (compact_states toy_env 5 (toy_node toy_ledger))) @ [toy_record 3 [] ''y'']\<rparr>)) =
     consensus_view (replay_records toy_env 5 (nd_keys (toy_node toy_ledger)) (toy_ledger @ [toy_record 3 [] ''y'']))"
proof -
  let ?nd = "toy_node toy_ledger"
  have none: "nd_snapshot ?nd = None" by simp
  have fresh: "fresh_above toy_env 5 (nd_keys ?nd) (nd_ledger ?nd) [toy_record 3 [] ''y'']"
    by (simp add: fresh_above_def toy_ledger_def max_seq_def records_of_def)
  have "last (compact_states toy_env 5 ?nd) \<in> set (?nd # compact_states toy_env 5 ?nd)"
    by (simp add: compact_states_def Let_def)
  from compaction_preserves_view [OF none this fresh] show ?thesis
    using fresh by simp
qed

section \<open>What compaction loses\<close>

lemma kinds_distinct [simp]:
  "KIND_MEMBER_REMOVE \<noteq> KIND_MEMBER_ADD" "KIND_MEMBER_UNBAN \<noteq> KIND_MEMBER_ADD" "KIND_MEMBER_UNBAN \<noteq> KIND_MEMBER_REMOVE"
  by (simp_all add: kinds)

lemma snapshot_high_water [simp]: "ls_high_water (snapshot_of t st) = cs_coordinators st"
  by (simp add: snapshot_of_def)

lemma banned_view: "cs_banned (consensus_view st) = cs_banned st"
  by (simp add: consensus_view_def)

lemma fold_records_banned:
  "cs_banned (fold_records E now ks st rs floors) =
     cs_banned (fold fold_effect (filter (above E now ks floors) rs) (consensus_view st))"
  using arg_cong [OF fold_records_view, of cs_banned E now ks st rs floors] by (simp add: banned_view)

lemma replay_banned:
  "cs_banned (replay E now nd) = (case nd_snapshot nd of
     None \<Rightarrow> cs_banned (fold fold_effect (filter (above E now (nd_keys nd) []) (nd_ledger nd)) (consensus_view cluster_default))
   | Some s \<Rightarrow> cs_banned (fold fold_effect (filter (above E now (nd_keys nd) (ls_high_water s)) (nd_ledger nd)) (consensus_view (seeded s))))"
  by (simp add: replay_def replay_folded_def replay_records_def fold_records_banned split: option.split)

lemma toy_pair:
  assumes "i < j"
  shows "live_part [toy_record i k v, toy_record j k' v'] = [toy_record j k' v']"
    "archived_part [toy_record i k v, toy_record j k' v'] = [toy_record i k v]"
  using assms
  by (simp_all add: live_part_def archived_part_def anchors_def indexed_groups_def bt_upsert_def bt_get_def
    max_by_key_def map_filter_simps)

lemma toy_gate:
  assumes "cluster_key toy_crypto (nd_keys nd) = Some toy_key" and "nd_peers nd = Some []"
    and "kind = [] \<or> member_delta (toy_record n kind v) \<noteq> None"
  shows "gate toy_env now nd (toy_record n kind v) = None"
proof -
  have "verify_key_epoch toy_env now (nd_keys nd) (toy_record n kind v) = Some Current"
    by (rule toy_verifies(1) [OF assms(1,3)])
  moreover have "bound_pubkey_at toy_env nd ''a'' = None"
    by (simp add: bound_pubkey_at_def toy_env_def peer_rows_def assms(2))
  moreover have "subject_attestation_valid toy_env (toy_record n kind v)"
    by (simp add: subject_attestation_valid_def split: option.split)
  ultimately show ?thesis
    by (simp add: gate_def attribution_valid_def endorsements_satisfied_at_tip_def supported_def bound_now_def
      map_filter_simps chain_ok_def)
qed

definition toy_compacted :: node where
  "toy_compacted = snd (compact_at toy_env all_locks 5 (toy_node toy_ledger))"

definition toy_grown :: node where
  "toy_grown = snd (append_to toy_env all_locks 5 (toy_record 3 [] ''y'') toy_compacted)"

definition toy_gapped :: node where
  "toy_gapped = snd (compact_at toy_env all_locks 5 (toy_node [toy_record 1 [] ''x'', toy_record 3 [] ''y'']))"

definition toy_filled :: node where
  "toy_filled = snd (append_to toy_env all_locks 5 (toy_record 2 KIND_MEMBER_REMOVE ''m@h'') toy_gapped)"

lemma compact_step:
  assumes "archived_part (nd_ledger nd) \<noteq> []"
  shows "compact_at E all_locks now nd = (Inr (length (archived_part (nd_ledger nd))),
    nd\<lparr>nd_archive := nd_archive nd @ archived_part (nd_ledger nd),
       nd_snapshot := Some (snapshot_of now (replay_records E now (nd_keys nd) (nd_ledger nd))),
       nd_ledger := live_part (nd_ledger nd)\<rparr>)"
  using assms archived_part_subset [of "nd_ledger nd"] by (auto simp: compact_at_def all_locks_def compact_states_def Let_def)

lemma toy_marks:
  assumes "i < j" and "k = [] \<or> k = KIND_MEMBER_REMOVE \<and> v = ''m@h''"
  shows "floor_of (cs_coordinators (replay_records toy_env now (nd_keys (toy_node rs)) [toy_record i k v, toy_record j [] v'])) ''a'' = j"
proof -
  have "verify_record toy_env now (nd_keys (toy_node rs)) (toy_record i k v)" using assms(2) by auto
  then show ?thesis using assms(1) by (simp add: replay_floor max_seq_def records_of_def max.absorb2)
qed

lemma toy_effects [simp]:
  "cs_banned (fold_effect (toy_record n [] v) st) = cs_banned st"
  "cs_banned (fold_effect (toy_record n KIND_MEMBER_REMOVE ''m@h'') st) = insert (''m'', ''h'') (cs_banned st)"
  by (simp_all add: fold_effect_def Let_def fold_delta_def)

lemma toy_write:
  "write_record toy_env True now (toy_record n [] v) nd = nd\<lparr>nd_ledger := nd_ledger nd @ [toy_record n [] v]\<rparr>"
  by (simp add: write_record_def apply_member_delta_def kinds)

lemma toy_compacted_eq:
  "toy_compacted = (toy_node toy_ledger)\<lparr>nd_archive := [toy_record 1 KIND_MEMBER_REMOVE ''m@h''],
     nd_snapshot := Some (snapshot_of 5 (replay_records toy_env 5 (nd_keys (toy_node toy_ledger)) toy_ledger)),
     nd_ledger := [toy_record 2 [] ''x'']\<rparr>"
  unfolding toy_compacted_def by (subst compact_step) (simp_all add: toy_pair toy_ledger_def)

lemma toy_grown_step:
  "append_to toy_env all_locks 5 (toy_record 3 [] ''y'') toy_compacted =
     (Inr (), toy_compacted\<lparr>nd_ledger := [toy_record 2 [] ''x'', toy_record 3 [] ''y'']\<rparr>)"
proof -
  have "floor_of (cs_coordinators (replay_records toy_env 5 (nd_keys (toy_node toy_ledger)) toy_ledger)) ''a'' = 2"
    unfolding toy_ledger_def by (rule toy_marks) simp_all
  then have "archive_verdict toy_compacted (toy_record 3 [] ''y'') = None"
    by (simp add: toy_compacted_eq archive_verdict_def snapshot_floor_def snapshot_of_def)
  moreover have "held_verdict toy_compacted (toy_record 3 [] ''y'') = None"
    by (simp add: toy_compacted_eq held_verdict_def in_slot_def)
  moreover have "gate toy_env 5 toy_compacted (toy_record 3 [] ''y'') = None"
    by (rule toy_gate) (simp_all add: toy_compacted_eq toy_keys_current)
  ultimately show ?thesis
    by (simp add: append_to_def all_locks_def append_checked_def toy_write toy_compacted_eq)
qed

lemma toy_above [simp]:
  "above toy_env now (nd_keys (toy_node rs)) floors (toy_record n [] v) \<longleftrightarrow> floor_of floors ''a'' < n"
  "above toy_env now (nd_keys (toy_node rs)) floors (toy_record n KIND_MEMBER_REMOVE ''m@h'') \<longleftrightarrow> floor_of floors ''a'' < n"
  by (simp_all add: above_def)

lemma banned_default [simp]: "cs_banned (consensus_view cluster_default) = {}"
  by (simp add: consensus_view_def cluster_default_def)

lemma banned_seeded [simp]: "cs_banned (consensus_view (seeded (snapshot_of t st))) = cs_banned st"
  by (simp add: view_seeded_snapshot banned_view)

lemma replay_records_banned:
  "cs_banned (replay_records E now ks rs) =
     cs_banned (fold fold_effect (filter (above E now ks []) rs) (consensus_view cluster_default))"
  by (simp add: replay_records_def fold_records_banned)

lemma toy_gapped_eq:
  "toy_gapped = (toy_node [toy_record 1 [] ''x'', toy_record 3 [] ''y''])\<lparr>nd_archive := [toy_record 1 [] ''x''],
     nd_snapshot := Some (snapshot_of 5 (replay_records toy_env 5 (nd_keys (toy_node [])) [toy_record 1 [] ''x'', toy_record 3 [] ''y''])),
     nd_ledger := [toy_record 3 [] ''y'']\<rparr>"
  unfolding toy_gapped_def by (subst compact_step) (simp_all add: toy_pair, simp_all add: toy_node_def)

lemma toy_filled_step:
  "fst (append_to toy_env all_locks 5 (toy_record 2 KIND_MEMBER_REMOVE ''m@h'') toy_gapped) = Inr ()"
  "nd_ledger toy_filled = [toy_record 3 [] ''y'', toy_record 2 KIND_MEMBER_REMOVE ''m@h'']"
  "nd_snapshot toy_filled = nd_snapshot toy_gapped" "nd_keys toy_filled = nd_keys (toy_node [])"
proof -
  let ?r = "toy_record 2 KIND_MEMBER_REMOVE ''m@h''"
  have keys: "nd_keys toy_gapped = nd_keys (toy_node [])" by (simp add: toy_gapped_eq toy_node_def)
  have "archive_verdict toy_gapped ?r = None"
    by (simp add: toy_gapped_eq archive_verdict_def find_in_archive_def in_slot_def)
  moreover have "held_verdict toy_gapped ?r = None"
    by (simp add: toy_gapped_eq held_verdict_def in_slot_def)
  moreover have "gate toy_env 5 toy_gapped ?r = None"
    by (rule toy_gate) (simp_all add: keys toy_keys_current, simp_all add: toy_gapped_eq)
  ultimately have step: "append_to toy_env all_locks 5 ?r toy_gapped = (Inr (), write_record toy_env True 5 ?r toy_gapped)"
    by (simp add: append_to_def all_locks_def append_checked_def)
  have wr: "write_record toy_env True 5 ?r nd = apply_member_delta toy_env True ?r (nd\<lparr>nd_ledger := nd_ledger nd @ [?r]\<rparr>)" for nd
    by (simp add: write_record_def kinds)
  show "fst (append_to toy_env all_locks 5 ?r toy_gapped) = Inr ()" by (simp add: step)
  show "nd_ledger toy_filled = [toy_record 3 [] ''y'', ?r]" "nd_snapshot toy_filled = nd_snapshot toy_gapped"
    "nd_keys toy_filled = nd_keys (toy_node [])"
    unfolding toy_filled_def step wr apply_member_delta_def
    by (simp_all add: keys split: option.split) (simp_all add: toy_gapped_eq)
qed

text \<open>What compaction loses. A record that fills a gap after a compaction is appended and applied, but the
  replay skips it: the eviction it commits is missing from the view, although the replay of the same records without
  a snapshot has it. And a second compaction replays the live ledger alone, so the bans of the first snapshot are
  gone from the view for good.\<close>

theorem compaction_loses:
  "fst (append_to toy_env all_locks 5 (toy_record 2 KIND_MEMBER_REMOVE ''m@h'') toy_gapped) = Inr ()
   \<and> cs_banned (replay toy_env 5 toy_filled) = {}
   \<and> cs_banned (replay_records toy_env 5 (nd_keys toy_filled)
        [toy_record 1 [] ''x'', toy_record 3 [] ''y'', toy_record 2 KIND_MEMBER_REMOVE ''m@h'']) = {(''m'', ''h'')}
   \<and> cs_banned (replay toy_env 5 toy_grown) = {(''m'', ''h'')}
   \<and> cs_banned (replay toy_env 5 (snd (compact_at toy_env all_locks 5 toy_grown))) = {}"
proof -
  have grown: "toy_grown = toy_compacted\<lparr>nd_ledger := [toy_record 2 [] ''x'', toy_record 3 [] ''y'']\<rparr>"
    by (simp add: toy_grown_def toy_grown_step)
  have gkeys: "nd_keys toy_grown = nd_keys (toy_node [])" by (simp add: grown toy_compacted_eq toy_node_def)
  have gled: "nd_ledger toy_grown = [toy_record 2 [] ''x'', toy_record 3 [] ''y'']" by (simp add: grown)
  have gsnap: "nd_snapshot toy_grown = Some (snapshot_of 5 (replay_records toy_env 5 (nd_keys (toy_node toy_ledger)) toy_ledger))"
    by (simp add: grown toy_compacted_eq)
  have m2: "floor_of (cs_coordinators (replay_records toy_env 5 (nd_keys (toy_node toy_ledger)) toy_ledger)) ''a'' = 2"
    unfolding toy_ledger_def by (rule toy_marks) simp_all
  have m3: "floor_of (cs_coordinators (replay_records toy_env 5 (nd_keys (toy_node [])) [toy_record 1 [] ''x'', toy_record 3 [] ''y''])) ''a'' = 3"
    by (rule toy_marks) simp_all
  have "cs_banned (replay toy_env 5 toy_filled) = {}"
    by (simp add: replay_banned toy_filled_step toy_gapped_eq m3 replay_records_banned)
  moreover have "cs_banned (replay toy_env 5 toy_grown) = {(''m'', ''h'')}"
    by (simp add: replay_banned gled gkeys gsnap m2 replay_records_banned, simp add: toy_ledger_def)
  moreover have "cs_banned (replay toy_env 5 (snd (compact_at toy_env all_locks 5 toy_grown))) = {}"
    by (subst compact_step) (simp_all add: gled gkeys toy_pair replay_banned replay_records_banned)
  ultimately show ?thesis by (simp add: toy_filled_step replay_records_banned)
qed

end
