(* ===== verification/Commit_Run.thy ===== *)
theory Commit_Run
  imports Commit_Compact
begin

text \<open>
  Every history of one node: appends, batches, pushes, compactions that may crash between their writes, and any
  change other programs make to the roster, the term and the keys. The invariant says where a record number of a
  coordinator can live, and gives that no number is ever held with two contents.
\<close>

section \<open>Frames\<close>

lemma apply_member_delta_frame [simp]:
  "nd_ledger (apply_member_delta E locked r nd) = nd_ledger nd"
  "nd_archive (apply_member_delta E locked r nd) = nd_archive nd"
  "nd_snapshot (apply_member_delta E locked r nd) = nd_snapshot nd"
  "nd_keys (apply_member_delta E locked r nd) = nd_keys nd"
  "nd_term (apply_member_delta E locked r nd) = nd_term nd"
  by (auto simp: apply_member_delta_def split: option.split prod.split)

lemma write_record_frame [simp]:
  "nd_ledger (write_record E locked now r nd) = nd_ledger nd @ [r]"
  "nd_archive (write_record E locked now r nd) = nd_archive nd"
  "nd_snapshot (write_record E locked now r nd) = nd_snapshot nd"
  "nd_term (write_record E locked now r nd) = nd_term nd"
  by (auto simp: write_record_def Let_def split: option.split)

lemma append_checked_cases:
  obtains "snd (append_checked E locked now r nd) = nd" "fst (append_checked E locked now r nd) \<noteq> Inr True"
  | "held_verdict nd r = None" "archive_verdict nd r = None" "gate E now nd r = None"
    "append_checked E locked now r nd = (Inr True, write_record E locked now r nd)"
proof (cases "held_verdict nd r = None \<and> archive_verdict nd r = None \<and> gate E now nd r = None")
  case True
  then show ?thesis using that(2) by (simp add: append_checked_def)
next
  case False
  then show ?thesis using that(1) by (auto simp: append_checked_def split: option.splits sum.splits)
qed

section \<open>Slots\<close>

definition slot :: "commit_record \<Rightarrow> string \<times> u64" where
  "slot r = (cr_coordinator r, cr_seq r)"

definition slots_unique :: "commit_record list \<Rightarrow> bool" where
  "slots_unique rs \<longleftrightarrow> distinct (map slot (filter (\<lambda>r. 0 < cr_seq r) rs))"

lemma in_slot_iff: "in_slot c n r \<longleftrightarrow> slot r = (c, n)"
  by (auto simp: in_slot_def slot_def)

lemma slots_unique_inj: "slots_unique rs \<Longrightarrow> r \<in> set rs \<Longrightarrow> r' \<in> set rs \<Longrightarrow> slot r = slot r' \<Longrightarrow> 0 < cr_seq r \<Longrightarrow> r = r'"
proof -
  assume *: "slots_unique rs" "r \<in> set rs" "r' \<in> set rs" "slot r = slot r'" "0 < cr_seq r"
  then have "inj_on slot {x \<in> set rs. 0 < cr_seq x}" by (simp add: slots_unique_def distinct_map)
  then show "r = r'" by (rule inj_onD) (use * in \<open>auto simp: slot_def\<close>)
qed

lemma slots_unique_filter: "slots_unique rs \<Longrightarrow> slots_unique (map snd (filter P (enumerate n rs)))"
proof (induction rs arbitrary: n)
  case (Cons r rs)
  have "set (map snd (filter P (enumerate m rs))) \<subseteq> set rs" for m
    by (auto simp: in_set_enumerate_eq)
  then have "slot ` {x \<in> set (map snd (filter P (enumerate (Suc n) rs))). 0 < cr_seq x} \<subseteq> slot ` {x \<in> set rs. 0 < cr_seq x}"
    by blast
  moreover have "slots_unique (map snd (filter P (enumerate (Suc n) rs)))"
    by (rule Cons.IH) (use Cons.prems in \<open>auto simp: slots_unique_def split: if_splits\<close>)
  ultimately show ?case
    using Cons.prems by (auto simp: slots_unique_def split: if_splits)
qed simp

definition log_inv :: "node \<Rightarrow> bool" where
  "log_inv nd \<longleftrightarrow>
     slots_unique (nd_ledger nd)
   \<and> (\<forall>r\<in>set (nd_ledger nd @ nd_archive nd). \<forall>r'\<in>set (nd_ledger nd @ nd_archive nd).
        slot r = slot r' \<and> 0 < cr_seq r \<longrightarrow> r = r')
   \<and> (\<forall>a\<in>set (nd_archive nd). 0 < cr_seq a \<longrightarrow>
        cr_seq a \<le> snapshot_floor nd (cr_coordinator a) \<or> a \<in> set (nd_ledger nd))
   \<and> (\<forall>c. 0 < snapshot_floor nd c \<longrightarrow> (c, snapshot_floor nd c) \<in> slot ` set (nd_ledger nd))"

lemma log_invD:
  assumes "log_inv nd"
  shows "slots_unique (nd_ledger nd)"
    "r \<in> set (nd_ledger nd @ nd_archive nd) \<Longrightarrow> r' \<in> set (nd_ledger nd @ nd_archive nd) \<Longrightarrow> slot r = slot r' \<Longrightarrow> 0 < cr_seq r \<Longrightarrow> r = r'"
    "a \<in> set (nd_archive nd) \<Longrightarrow> 0 < cr_seq a \<Longrightarrow> cr_seq a \<le> snapshot_floor nd (cr_coordinator a) \<or> a \<in> set (nd_ledger nd)"
    "0 < snapshot_floor nd c \<Longrightarrow> (c, snapshot_floor nd c) \<in> slot ` set (nd_ledger nd)"
  using assms unfolding log_inv_def by blast+

lemma held_None:
  assumes "held_verdict nd r = None" and "0 < cr_seq r"
  shows "slot r \<notin> slot ` set (nd_ledger nd)"
  using assms by (auto simp: held_verdict_def in_slot_iff find_None_iff slot_def split: option.splits)

lemma archive_None:
  assumes "archive_verdict nd r = None" and "0 < cr_seq r" and "cr_seq r < snapshot_floor nd (cr_coordinator r)"
  shows "slot r \<notin> slot ` set (nd_archive nd)"
  using assms by (auto simp: archive_verdict_def find_in_archive_def in_slot_iff find_None_iff slot_def split: option.splits)

lemma unseen_slot:
  assumes inv: "log_inv nd" and held: "held_verdict nd r = None" and arch: "archive_verdict nd r = None" and pos: "0 < cr_seq r"
  shows "slot r \<notin> slot ` set (nd_ledger nd @ nd_archive nd)"
proof
  note out = held_None [OF held pos]
  assume "slot r \<in> slot ` set (nd_ledger nd @ nd_archive nd)"
  with out obtain a where a: "a \<in> set (nd_archive nd)" "slot a = slot r" by auto
  then have s: "cr_seq a = cr_seq r" "cr_coordinator a = cr_coordinator r" by (auto simp: slot_def)
  have "a \<notin> set (nd_ledger nd)" using out a(2) by (metis imageI)
  then have le: "cr_seq r \<le> snapshot_floor nd (cr_coordinator r)"
    using log_invD(3) [OF inv a(1)] pos s by simp
  show False
  proof (cases "cr_seq r = snapshot_floor nd (cr_coordinator r)")
    case True
    then have "slot r \<in> slot ` set (nd_ledger nd)"
      using log_invD(4) [OF inv, of "cr_coordinator r"] pos by (simp add: slot_def)
    with out show False by simp
  next
    case False
    with le have "cr_seq r < snapshot_floor nd (cr_coordinator r)" by simp
    from archive_None [OF arch pos this] a show False by (metis imageI)
  qed
qed

lemma snapshot_floor_cong: "nd_snapshot nd' = nd_snapshot nd \<Longrightarrow> snapshot_floor nd' = snapshot_floor nd"
  by (simp add: snapshot_floor_def fun_eq_iff)

lemma log_inv_cong:
  assumes "log_inv nd" and "nd_ledger nd' = nd_ledger nd" "nd_archive nd' = nd_archive nd" "nd_snapshot nd' = nd_snapshot nd"
  shows "log_inv nd'"
  using assms(1) unfolding log_inv_def snapshot_floor_cong [OF assms(4)] assms(2,3) .

lemma log_inv_extend:
  assumes inv: "log_inv nd" and new: "0 < cr_seq r \<Longrightarrow> slot r \<notin> slot ` set (nd_ledger nd @ nd_archive nd)"
    and nd': "nd_ledger nd' = nd_ledger nd @ [r]" "nd_archive nd' = nd_archive nd" "nd_snapshot nd' = nd_snapshot nd"
  shows "log_inv nd'"
proof -
  have "slots_unique (nd_ledger nd @ [r])"
    using inv new by (auto simp: log_inv_def slots_unique_def)
  moreover have "x = y" if "x \<in> set (nd_ledger nd @ [r] @ nd_archive nd)" "y \<in> set (nd_ledger nd @ [r] @ nd_archive nd)"
    "slot x = slot y" "0 < cr_seq x" for x y
  proof (cases "x = r \<or> y = r")
    case True
    have "cr_seq x = cr_seq y" using that(3) by (simp add: slot_def)
    with True have pos: "0 < cr_seq r" using that(4) by auto
    have "z = r" if "z \<in> set (nd_ledger nd @ [r] @ nd_archive nd)" "slot z = slot r" for z
    proof (rule ccontr)
      assume "z \<noteq> r"
      with that(1) have "slot z \<in> slot ` set (nd_ledger nd @ nd_archive nd)" by auto
      with that(2) new [OF pos] show False by simp
    qed
    then show ?thesis using that True by metis
  next
    case False
    then show ?thesis using inv that unfolding log_inv_def by auto
  qed
  ultimately show ?thesis
    using inv unfolding log_inv_def snapshot_floor_cong [OF nd'(3)] nd'(1,2) by auto
qed

lemma append_checked_inv:
  assumes inv: "log_inv nd"
  shows "log_inv (snd (append_checked E locked now r nd))"
proof (cases rule: append_checked_cases [of E locked now r nd])
  case 1
  then show ?thesis using inv by simp
next
  case 2
  have "log_inv (write_record E locked now r nd)"
    by (rule log_inv_extend [OF inv unseen_slot [OF inv 2(1,2)]]) simp_all
  then show ?thesis by (simp add: 2(4))
qed

section \<open>Anchors\<close>

lemma max_by_key_snoc:
  "max_by_key f (xs @ [x]) = (case max_by_key f xs of None \<Rightarrow> Some x | Some b \<Rightarrow> if f b \<le> f x then Some x else Some b)"
  by (simp add: max_by_key_def)

lemma max_by_key_max:
  "xs \<noteq> [] \<Longrightarrow> \<exists>b. max_by_key f xs = Some b \<and> b \<in> set xs \<and> (\<forall>x\<in>set xs. f x \<le> f b)"
proof (induction xs rule: rev_induct)
  case (snoc x xs)
  show ?case
  proof (cases "xs = []")
    case True
    then show ?thesis by (simp add: max_by_key_def)
  next
    case False
    then obtain b where "max_by_key f xs = Some b" "b \<in> set xs" "\<forall>y\<in>set xs. f y \<le> f b" using snoc.IH by auto
    then show ?thesis unfolding max_by_key_snoc by (auto intro: order_trans)
  qed
qed simp

lemma indexed_groups_get:
  "bt_get (indexed_groups rs) c =
     (let own = filter (\<lambda>p. cr_coordinator (snd p) = c) (enumerate 0 rs) in if own \<noteq> [] then Some own else None)"
proof -
  have eq: "indexed_groups rs = fold (\<lambda>p. bt_upsert (cr_coordinator (snd p)) [] (\<lambda>l. l @ [p])) (enumerate 0 rs) []"
    unfolding indexed_groups_def by (rule arg_cong [where f = "\<lambda>g. fold g (enumerate 0 rs) []"]) auto
  have app: "fold (\<lambda>p l. l @ [p]) xs a = a @ xs" for xs and a :: "(nat \<times> commit_record) list"
    by (induction xs arbitrary: a) auto
  show ?thesis
    unfolding eq by (simp add: bt_get_fold_upsert [where f = "\<lambda>p l. l @ [p]"] app Let_def filter_empty_conv)
qed

lemma indexed_groups_inv: "bt_inv (indexed_groups rs)"
proof -
  have "indexed_groups rs = fold (\<lambda>p. bt_upsert (cr_coordinator (snd p)) [] (\<lambda>l. l @ [p])) (enumerate 0 rs) []"
    unfolding indexed_groups_def by (rule arg_cong [where f = "\<lambda>g. fold g (enumerate 0 rs) []"]) auto
  then show ?thesis by (simp add: bt_inv_fold_upsert)
qed

lemma live_part_head:
  assumes "r0 \<in> set rs" and "cr_coordinator r0 = c"
  shows "(c, max_seq rs c) \<in> slot ` set (live_part rs)"
proof -
  define own where "own = filter (\<lambda>p. cr_coordinator (snd p) = c) (enumerate 0 rs)"
  obtain i0 where "i0 < length rs" "rs ! i0 = r0" using assms(1) by (auto simp: in_set_conv_nth)
  then have "(i0, r0) \<in> set own" using assms(2) by (simp add: own_def in_set_enumerate_eq)
  then have ne: "own \<noteq> []" by auto
  then obtain i r where b: "max_by_key (\<lambda>(_, r). cr_seq r) own = Some (i, r)" "(i, r) \<in> set own"
    and most: "\<forall>x\<in>set own. (\<lambda>(_, r). cr_seq r) x \<le> cr_seq r"
    using max_by_key_max [OF ne, of "\<lambda>(_, r). cr_seq r"] by auto
  have r: "i < length rs" "rs ! i = r" "cr_coordinator r = c"
    using b(2) by (auto simp: own_def in_set_enumerate_eq)
  have "(c, own) \<in> set (indexed_groups rs)"
    using ne by (simp add: indexed_groups_get Let_def flip: own_def bt_get_mem [OF indexed_groups_inv])
  then have "i \<in> set (anchors rs)"
    unfolding anchors_def List.map_filter_def using b(1) by force
  then have "r \<in> set (live_part rs)"
    using r by (force simp: live_part_def in_set_enumerate_eq)
  moreover have "max_seq rs c = cr_seq r"
  proof (rule antisym)
    show "cr_seq r \<le> max_seq rs c" using r by (auto intro: max_seq_ge)
    have "cr_seq x \<le> cr_seq r" if x: "x \<in> set rs" "cr_coordinator x = c" for x
    proof -
      obtain j where "j < length rs" "rs ! j = x" using x(1) by (auto simp: in_set_conv_nth)
      then have "(j, x) \<in> set own" using x(2) by (simp add: own_def in_set_enumerate_eq)
      then show ?thesis using most by fastforce
    qed
    then show "max_seq rs c \<le> cr_seq r" by (auto simp: max_seq_Max)
  qed
  ultimately show ?thesis using r(3) by (force simp: slot_def)
qed

lemma ledger_parts: "set (live_part rs) \<union> set (archived_part rs) = set rs"
proof
  show "set (live_part rs) \<union> set (archived_part rs) \<subseteq> set rs"
    using live_part_subset archived_part_subset by blast
  show "set rs \<subseteq> set (live_part rs) \<union> set (archived_part rs)"
  proof
    fix r
    assume "r \<in> set rs"
    then obtain i where "i < length rs" "rs ! i = r" by (auto simp: in_set_conv_nth)
    then show "r \<in> set (live_part rs) \<union> set (archived_part rs)"
      by (cases "i \<in> set (anchors rs)") (force simp: live_part_def archived_part_def in_set_enumerate_eq)+
  qed
qed

section \<open>Compaction keeps the invariant\<close>

lemma snapshot_floor_new:
  assumes "nd_snapshot nd = Some (snapshot_of t (replay_records E now ks rs))" and "\<forall>r\<in>set rs. verify_record E now ks r"
  shows "snapshot_floor nd c = max_seq rs c"
proof -
  have "filter (verify_record E now ks) rs = rs" using assms(2) by (simp add: filter_id_conv)
  then show ?thesis using assms(1) by (simp add: snapshot_floor_def replay_floor)
qed

lemma compact_inv:
  assumes inv: "log_inv nd" and ok: "\<forall>r\<in>set (nd_ledger nd). verify_record E now (nd_keys nd) r"
    and led: "nd_ledger nd' = nd_ledger nd \<or> nd_ledger nd' = live_part (nd_ledger nd)"
    and arch: "nd_archive nd' = nd_archive nd @ archived_part (nd_ledger nd)"
    and snap: "nd_snapshot nd' = nd_snapshot nd \<and> nd_ledger nd' = nd_ledger nd
      \<or> nd_snapshot nd' = Some (snapshot_of now (replay_records E now (nd_keys nd) (nd_ledger nd)))"
  shows "log_inv nd'"
proof -
  let ?rs = "nd_ledger nd"
  have sub: "set (nd_ledger nd') \<subseteq> set ?rs" using led live_part_subset [of ?rs] by auto
  have all: "set (nd_ledger nd' @ nd_archive nd') \<subseteq> set (?rs @ nd_archive nd)"
    using sub archived_part_subset [of ?rs] arch by auto
  have u: "slots_unique (nd_ledger nd')"
    using led slots_unique_filter [OF log_invD(1) [OF inv]] log_invD(1) [OF inv] by (auto simp: live_part_def)
  have eq: "x = y" if "x \<in> set (nd_ledger nd' @ nd_archive nd')" "y \<in> set (nd_ledger nd' @ nd_archive nd')"
    "slot x = slot y" "0 < cr_seq x" for x y
    using log_invD(2) [OF inv, of x y] that all by blast
  show ?thesis
  proof (cases "nd_snapshot nd' = nd_snapshot nd \<and> nd_ledger nd' = ?rs")
    case True
    then have fl: "snapshot_floor nd' = snapshot_floor nd" by (auto intro: snapshot_floor_cong)
    show ?thesis
      using u eq True log_invD(3,4) [OF inv] archived_part_subset [of ?rs] unfolding log_inv_def fl arch by auto
  next
    case False
    then have snap': "nd_snapshot nd' = Some (snapshot_of now (replay_records E now (nd_keys nd) ?rs))" using snap by blast
    note fl = snapshot_floor_new [OF snap' ok]
    have low: "cr_seq a \<le> max_seq ?rs (cr_coordinator a)" if "a \<in> set (nd_archive nd')" "0 < cr_seq a" for a
    proof (cases "a \<in> set ?rs")
      case True
      then show ?thesis by (auto intro: max_seq_ge)
    next
      case False
      then have a: "a \<in> set (nd_archive nd)" using that(1) arch archived_part_subset [of ?rs] by auto
      have le: "cr_seq a \<le> snapshot_floor nd (cr_coordinator a)" using log_invD(3) [OF inv a] that(2) False by simp
      then have "0 < snapshot_floor nd (cr_coordinator a)" using that(2) by simp
      from log_invD(4) [OF inv this] obtain h where "h \<in> set ?rs" "cr_coordinator h = cr_coordinator a"
        "cr_seq h = snapshot_floor nd (cr_coordinator a)" by (auto simp: slot_def)
      then show ?thesis using le max_seq_ge [of h ?rs "cr_coordinator a"] by simp
    qed
    have head: "(c, max_seq ?rs c) \<in> slot ` set (nd_ledger nd')" if "0 < max_seq ?rs c" for c
    proof -
      have "records_of c ?rs \<noteq> []" using that max_seq_none by fastforce
      then obtain r0 where r0: "r0 \<in> set ?rs" "cr_coordinator r0 = c" by (auto simp: records_of_ne)
      have "(c, max_seq ?rs c) \<in> slot ` set (live_part ?rs)" by (rule live_part_head [OF r0])
      then show ?thesis using led live_part_subset [of ?rs] by auto
    qed
    show ?thesis using u eq low head unfolding log_inv_def fl by auto
  qed
qed

section \<open>Histories of a node\<close>

inductive node_step :: "cluster_env \<Rightarrow> node \<Rightarrow> node \<Rightarrow> bool" for E where
  step_append: "node_step E nd (snd (append_to E lk now r nd))"
| step_batch: "node_step E nd (snd (append_many_to E lk now rs nd))"
| step_push: "node_step E nd (snd (commit_record_tool E lk now r nd))"
| step_pushes: "node_step E nd (snd (commit_records_tool E lk now rs nd))"
| step_compact: "\<forall>r\<in>set (nd_ledger nd). verify_record E now (nd_keys nd) r \<Longrightarrow>
    node_step E nd (snd (compact_at E lk now nd))"
| step_crash: "\<forall>r\<in>set (nd_ledger nd). verify_record E now (nd_keys nd) r \<Longrightarrow>
    nd' \<in> set (compact_states E now nd) \<Longrightarrow> node_step E nd nd'"
| step_outside: "nd_ledger nd' = nd_ledger nd \<Longrightarrow> nd_archive nd' = nd_archive nd \<Longrightarrow>
    nd_snapshot nd' = nd_snapshot nd \<Longrightarrow> node_step E nd nd'"

lemma append_to_inv: "log_inv nd \<Longrightarrow> log_inv (snd (append_to E lk now r nd))"
  using append_checked_inv [of nd E "lk_peers lk" now r]
  by (auto simp: append_to_def split: prod.split sum.split)

lemma append_loop_inv: "log_inv nd \<Longrightarrow> log_inv (snd (append_loop E locked now rs nd))"
proof (induction rs arbitrary: nd)
  case (Cons r rs)
  obtain res nd1 where step: "append_checked E locked now r nd = (res, nd1)" by (metis surj_pair)
  have "log_inv nd1" using append_checked_inv [OF Cons.prems, of E locked now r] by (simp add: step)
  from Cons.IH [OF this] show ?case by (auto simp: step split: prod.splits)
qed simp

lemma append_many_inv: "log_inv nd \<Longrightarrow> log_inv (snd (append_many_to E lk now rs nd))"
  by (simp add: append_many_to_def append_loop_inv)

lemma push_gate_inv: "log_inv nd \<Longrightarrow> log_inv (snd (push_gate E lk now r nd))"
  by (erule log_inv_cong) (auto simp: push_gate_def split: prod.split)

lemma push_filter_inv: "log_inv nd \<Longrightarrow> log_inv (snd (snd (push_filter E lk now rs nd)))"
proof (induction rs arbitrary: nd)
  case (Cons r rs)
  obtain res nd1 where step: "push_gate E lk now r nd = (res, nd1)" by (metis surj_pair)
  have "log_inv nd1" using push_gate_inv [OF Cons.prems, of E lk now r] by (simp add: step)
  from Cons.IH [OF this] show ?case by (cases res) (auto simp: step split: prod.splits)
qed simp

lemma commit_record_tool_inv: "log_inv nd \<Longrightarrow> log_inv (snd (commit_record_tool E lk now r nd))"
proof -
  assume inv: "log_inv nd"
  obtain res nd1 where step: "push_gate E lk now r nd = (res, nd1)" by (metis surj_pair)
  have "log_inv nd1" using push_gate_inv [OF inv, of E lk now r] by (simp add: step)
  from this append_to_inv [OF this, of E lk now r] show ?thesis
    by (cases res) (auto simp: commit_record_tool_def step Let_def split: prod.splits sum.splits)
qed

lemma commit_records_tool_inv: "log_inv nd \<Longrightarrow> log_inv (snd (commit_records_tool E lk now rs nd))"
proof -
  assume inv: "log_inv nd"
  obtain acc refused nd1 where step: "push_filter E lk now rs nd = (acc, refused, nd1)" by (metis surj_pair)
  have "log_inv nd1" using push_filter_inv [OF inv, of E lk now rs] by (simp add: step)
  from append_many_inv [OF this, of E lk now acc] show ?thesis
    using inv by (auto simp: commit_records_tool_def step split: prod.splits)
qed

lemma compact_states_inv:
  assumes "log_inv nd" and "\<forall>r\<in>set (nd_ledger nd). verify_record E now (nd_keys nd) r" and "nd' \<in> set (compact_states E now nd)"
  shows "log_inv nd'"
  using assms(3) by (intro compact_inv [OF assms(1,2)]) (auto simp: compact_states_def Let_def)

lemma node_step_inv: "node_step E nd nd' \<Longrightarrow> log_inv nd \<Longrightarrow> log_inv nd'"
proof (induction rule: node_step.induct)
  case (step_compact nd now lk)
  have "last (compact_states E now nd) \<in> set (compact_states E now nd)" by (simp add: compact_states_def Let_def)
  from compact_states_inv [OF step_compact(2,1) this] show ?case
    using step_compact(2) by (auto simp: compact_at_def)
qed (auto intro: append_to_inv append_many_inv commit_record_tool_inv commit_records_tool_inv compact_states_inv log_inv_cong)

lemma reachable_inv:
  assumes "(node_step E)\<^sup>*\<^sup>* nd0 nd" and "nd_ledger nd0 = []" "nd_archive nd0 = []" "nd_snapshot nd0 = None"
  shows "log_inv nd"
proof -
  have "log_inv nd0"
    using assms(2-4) by (simp add: log_inv_def slots_unique_def snapshot_floor_def)
  with assms(1) show ?thesis
    by (induction rule: rtranclp_induct) (auto intro: node_step_inv)
qed



end
