(* ===== verification/Commit_Authority.thy ===== *)
theory Commit_Authority
  imports Commit_Run
begin

text \<open>
  Who can write the commit ledger. A revoked key cannot move the frontier of a coordinator, two endorsed changes of
  one electorate share an endorser, and a node's own sealed decisions always enter its ledger. Two gates are weaker
  than their comments say: a gap can be filled with any content under a retired key, and a proposer that names an
  empty electorate needs nobody's endorsement.
\<close>

section \<open>The frontier\<close>

lemma gate_None:
  assumes "gate E now nd r = None"
  shows "verify_key_epoch E now (nd_keys nd) r \<noteq> None"
    "verify_key_epoch E now (nd_keys nd) r = Some Prev \<Longrightarrow> pinned (nd_ledger nd) r"
    "attribution_valid E nd r" "endorsements_satisfied_at_tip E nd r" "chain_ok (nd_ledger nd) r"
  using assms by (auto simp: gate_def split: option.splits if_splits)

lemma pinned_above:
  assumes "pinned rs r" and "cr_seq r \<noteq> - 1"
  obtains s where "s \<in> set rs" "cr_coordinator s = cr_coordinator r" "cr_seq r < cr_seq s"
proof -
  obtain s where s: "s \<in> set rs" "cr_coordinator s = cr_coordinator r" "cr_seq s = cr_seq r + 1"
    using assms(1) by (auto simp: pinned_def)
  have "cr_seq r < cr_seq r + 1"
    using assms(2) by (simp add: word_less_nat_alt unat_Suc_word)
  with s that show thesis by metis
qed

lemma frontier_kept:
  assumes "s \<in> set rs" "cr_coordinator s = cr_coordinator r" "cr_seq r < cr_seq s"
  shows "max_seq (rs @ [r]) c = max_seq rs c" "chain_head_epoch (rs @ [r]) c = chain_head_epoch rs c"
proof -
  have "cr_coordinator r = c \<Longrightarrow> cr_seq r \<le> max_seq rs c"
    using assms max_seq_ge [of s rs c] by simp
  then show "max_seq (rs @ [r]) c = max_seq rs c"
    by (cases "cr_coordinator r = c") (simp_all add: max_seq_append, simp_all add: max_seq_def records_of_def max.absorb1)
  show "chain_head_epoch (rs @ [r]) c = chain_head_epoch rs c"
  proof (cases "cr_coordinator r = c")
    case True
    have "s \<in> set (records_of c rs)" using assms True by (simp add: records_of_def)
    then obtain b where "max_by_key cr_seq (records_of c rs) = Some b" "cr_seq s \<le> cr_seq b"
      using max_by_key_max [of "records_of c rs" cr_seq] by fastforce
    moreover from this(2) assms(3) have "\<not> cr_seq b \<le> cr_seq r" by simp
    ultimately show ?thesis
      using True by (simp add: chain_head_epoch_def records_of_def max_by_key_snoc)
  qed (simp add: chain_head_epoch_def records_of_def)
qed

text \<open>C28. A retired or unknown key never moves the frontier. Whatever record arrives that does not verify under the
  live cluster key, appending it leaves the next number and the chain head of every coordinator as they were (for
  numbers below the last one of 64 bits).\<close>

theorem revoked_key_frontier:
  assumes "verify_key_epoch E now (nd_keys nd) r \<noteq> Some Current" and "cr_seq r \<noteq> - 1"
  shows "next_seq_for (nd_ledger (snd (append_to E lk now r nd))) c = next_seq_for (nd_ledger nd) c
    \<and> chain_head_epoch (nd_ledger (snd (append_to E lk now r nd))) c = chain_head_epoch (nd_ledger nd) c"
proof (cases rule: append_checked_cases [of E "lk_peers lk" now r nd])
  case 1
  then have "snd (append_to E lk now r nd) = nd"
    by (auto simp: append_to_def split: prod.splits sum.splits)
  then show ?thesis by simp
next
  case 2
  have "verify_key_epoch E now (nd_keys nd) r = Some Prev"
    using gate_None(1) [OF 2(3)] assms(1) by (metis key_epoch.exhaust option.exhaust_sel)
  from pinned_above [OF gate_None(2) [OF 2(3) this] assms(2)] obtain s
    where "s \<in> set (nd_ledger nd)" "cr_coordinator s = cr_coordinator r" "cr_seq r < cr_seq s" .
  from frontier_kept [OF this] show ?thesis
    by (simp add: append_to_def 2(4) next_seq_for_def)
qed

definition forged :: commit_record where
  "forged = (toy_record 9 [] ''z'')\<lparr>cr_signature := ''none''\<rparr>"

lemma forged_not_current: "verify_key_epoch toy_env 5 (nd_keys (toy_node rs)) forged \<noteq> Some Current"
  by (simp add: forged_def verify_key_epoch_def signature_epoch_def Let_def toy_env_def toy_keys_current
    hmac_sha256_hex_def toy_crypto_def split: option.splits)

theorem revoked_key_frontier_witness:
  "verify_key_epoch toy_env 5 (nd_keys (toy_node toy_ledger)) forged \<noteq> Some Current \<and> cr_seq forged \<noteq> - 1
   \<and> next_seq_for (nd_ledger (snd (append_to toy_env all_locks 5 forged (toy_node toy_ledger)))) ''a'' = 3"
proof -
  have n: "cr_seq forged \<noteq> - 1" by (simp add: forged_def)
  have "next_seq_for (nd_ledger (toy_node toy_ledger)) ''a'' = 3"
    by (simp add: toy_ledger_def next_seq_for_def max_seq_def records_of_def)
  then show ?thesis
    using revoked_key_frontier [OF forged_not_current n, of all_locks toy_ledger "''a''"] forged_not_current n by simp
qed

section \<open>Endorsed changes\<close>

lemma supporters_bound: "set (supporters E bound r) \<subseteq> fst ` set bound"
proof
  fix m
  assume "m \<in> set (supporters E bound r)"
  then have "map_of bound m \<noteq> None" by (cases "map_of bound m") (auto simp: supporters_def split: option.splits if_splits)
  then show "m \<in> fst ` set bound" by (simp add: map_of_eq_None_iff)
qed

lemma bound_now_members: "fst ` set (bound_now E nd el) \<subseteq> set el"
  by (force simp: bound_now_def List.map_filter_def)

lemma majorities_meet:
  assumes "set xs \<subseteq> S" "set ys \<subseteq> S" "card S \<le> n" "finite S" "n div 2 + 1 \<le> card (set xs)" "n div 2 + 1 \<le> card (set ys)"
  shows "set xs \<inter> set ys \<noteq> {}"
proof
  assume "set xs \<inter> set ys = {}"
  then have "card (set xs) + card (set ys) = card (set xs \<union> set ys)" by (simp add: card_Un_disjoint)
  also have "\<dots> \<le> card S" using assms(1,2,4) by (intro card_mono) auto
  finally show False using assms(3,5,6) by simp
qed

lemma supporters_cong: "ev_crypto E' = ev_crypto E \<Longrightarrow> supporters E' bound r = supporters E bound r"
proof -
  assume eq: "ev_crypto E' = ev_crypto E"
  show ?thesis unfolding supporters_def eq ..
qed

lemma member_delta_cong: "cr_kind r = cr_kind r' \<Longrightarrow> cr_value r = cr_value r' \<Longrightarrow> member_delta r = member_delta r'"
  by (simp add: member_delta_def split: option.split)

text \<open>Endorsed changes of one electorate share an endorser. If two nodes that bind the same keys for an
  electorate, at least one of them, each admit a privileged record (a roster delta or a key rotation) that names it,
  then some bound member of the electorate supports both records with its own signature.\<close>

theorem endorsed_changes_meet:
  assumes "gate E now nd r = None" and "gate E' now' nd' r' = None" and "ev_crypto E' = ev_crypto E"
    and "privileged_kind_name (cr_kind r)" "privileged_kind_name (cr_kind r')" and "cr_electorate r' = cr_electorate r"
    and "bound_now E' nd' (cr_electorate r) = bound_now E nd (cr_electorate r)" "bound_now E nd (cr_electorate r) \<noteq> []"
  shows "\<exists>m\<in>set (cr_electorate r). m \<in> set (supporters E (bound_now E nd (cr_electorate r)) r)
    \<and> m \<in> set (supporters E (bound_now E nd (cr_electorate r)) r')"
proof -
  let ?b = "bound_now E nd (cr_electorate r)"
  have "length ?b div 2 + 1 \<le> card (set (supporters E ?b r))"
    using gate_None(4) [OF assms(1)] assms(4,8) by (simp add: endorsements_satisfied_at_tip_def supported_def)
  moreover have "length ?b div 2 + 1 \<le> card (set (supporters E ?b r'))"
    using gate_None(4) [OF assms(2)] assms(5-8)
    by (simp add: endorsements_satisfied_at_tip_def supported_def supporters_cong [OF assms(3)])
  moreover have "card (fst ` set ?b) \<le> length ?b"
    by (metis card_length length_map list.set_map)
  ultimately have "set (supporters E ?b r) \<inter> set (supporters E ?b r') \<noteq> {}"
    by (intro majorities_meet [OF supporters_bound supporters_bound]) auto
  then show ?thesis using supporters_bound [of E ?b r] bound_now_members [of E nd "cr_electorate r"] by blast
qed

definition bound_row :: peer_row where
  "bound_row = \<lparr>pw_node_id = Some ''p'', pw_address = Some ''10.0.0.2:9'', pw_admission = Some ''explicit'',
     pw_pubkey = Some (cy_hex toy_crypto (replicate 32 CHR ''p'')), pw_bound_at = Some 0, pw_bound_seq = Some 0,
     pw_bind_sig = None, pw_rest = []\<rparr>"

definition bound_node :: node where
  "bound_node = (toy_node [])\<lparr>nd_peers := Some [bound_row]\<rparr>"

definition endorsed_record :: "u64 \<Rightarrow> commit_record" where
  "endorsed_record n = sealed toy_env toy_key ((toy_unsealed n KIND_MEMBER_REMOVE ''m@h'')
     \<lparr>cr_electorate := [''p''],
      cr_endorsements := [\<lparr>en_node = ''p'', en_sig = cy_hex toy_crypto (replicate 64 CHR ''p'')\<rparr>]\<rparr>)"

lemma endorsed_record_fields [simp]:
  "cr_coordinator (endorsed_record n) = ''a''" "cr_seq (endorsed_record n) = n" "cr_kind (endorsed_record n) = KIND_MEMBER_REMOVE"
  "cr_electorate (endorsed_record n) = [''p'']" "cr_prev_epoch (endorsed_record n) = []"
  "cr_endorsements (endorsed_record n) = [\<lparr>en_node = ''p'', en_sig = cy_hex toy_crypto (replicate 64 CHR ''p'')\<rparr>]"
  by (simp_all add: endorsed_record_def toy_unsealed_def sealed_def Let_def del: replicate.simps)

lemma toy_member_verify: "member_verify toy_crypto (cy_hex toy_crypto (replicate 32 c)) m (cy_hex toy_crypto (replicate 64 c))"
  by (simp add: member_verify_def toy_crypto_def flip: replicate_add)

lemma toy_bound_now: "bound_now toy_env bound_node [''p''] = [(''p'', cy_hex toy_crypto (replicate 32 CHR ''p''))]"
  by (simp add: bound_now_def map_filter_simps bound_pubkey_at_def bound_node_def peer_rows_def bound_row_def toy_env_def)
    (simp add: toy_crypto_def)

lemma endorsed_gate: "gate toy_env 5 bound_node (endorsed_record n) = None"
proof -
  have key: "cluster_key (ev_crypto toy_env) (nd_keys bound_node) = Some toy_key"
    using toy_keys_current [of "[]"] by (simp add: toy_env_def bound_node_def)
  have mac: "hmac_sha256_hex (ev_crypto toy_env) k m \<noteq> []" for k m
    by (simp add: toy_env_def hmac_sha256_hex_def toy_crypto_def)
  have delta: "member_delta (endorsed_record n) = Some (KIND_MEMBER_REMOVE, ''m'', ''h'')"
    using member_delta_cong [of "endorsed_record n" "toy_record n KIND_MEMBER_REMOVE ''m@h''"]
    by (simp add: endorsed_record_def sealed_def Let_def toy_unsealed_def)
  have "verify_key_epoch toy_env 5 (nd_keys bound_node) (endorsed_record n) = Some Current"
    unfolding endorsed_record_def
    by (rule sealed_verifies [OF key mac])
      (use delta in \<open>simp add: internally_consistent_def toy_unsealed_def toy_env_def endorsed_record_def kinds del: replicate.simps\<close>)
  moreover have "bound_pubkey_at toy_env bound_node ''a'' = None"
    by (simp add: bound_pubkey_at_def bound_node_def peer_rows_def bound_row_def toy_env_def)
  moreover have "supported toy_env [(''p'', cy_hex toy_crypto (replicate 32 CHR ''p''))] (endorsed_record n)"
    using toy_member_verify [of "CHR ''p''"]
    by (simp add: supported_def supporters_def toy_env_def del: replicate.simps)
  ultimately show ?thesis
    by (simp add: gate_def attribution_valid_def endorsements_satisfied_at_tip_def toy_bound_now
      subject_attestation_valid_def delta chain_ok_def)
qed

theorem endorsed_changes_meet_witness:
  "gate toy_env 5 bound_node (endorsed_record 1) = None \<and> gate toy_env 5 bound_node (endorsed_record 2) = None
   \<and> (\<exists>m\<in>{''p''}. m \<in> set (supporters toy_env (bound_now toy_env bound_node [''p'']) (endorsed_record 1))
     \<and> m \<in> set (supporters toy_env (bound_now toy_env bound_node [''p'']) (endorsed_record 2)))"
  using endorsed_changes_meet [OF endorsed_gate [of 1] endorsed_gate [of 2] refl] toy_bound_now endorsed_gate
  by (simp add: privileged_kind_name_def)

section \<open>Terms\<close>

lemma append_to_term: "nd_term (snd (append_to E lk now r nd)) = nd_term nd"
  by (cases rule: append_checked_cases [of E "lk_peers lk" now r nd])
    (auto simp: append_to_def split: prod.splits sum.splits)

lemma check_term_mono: "ts_term st \<le> ts_term (snd (check_term_at locked now r st))"
  by (auto simp: check_term_at_def Let_def)

lemma check_term_stale: "fst (check_term_at locked now r st) = TermStale \<longleftrightarrow> cr_term r < ts_term st"
  "cr_term r < ts_term st \<Longrightarrow> snd (check_term_at locked now r st) = st"
  by (auto simp: check_term_at_def Let_def)

lemma push_gate_term:
  "ts_term (nd_term nd) \<le> ts_term (nd_term (snd (push_gate E lk now r nd)))"
  "\<not> coordinator_known E nd r \<Longrightarrow> snd (push_gate E lk now r nd) = nd"
  "coordinator_known E nd r \<Longrightarrow> cr_term r < ts_term (nd_term nd) \<Longrightarrow>
     snd (push_gate E lk now r nd) = nd \<and> fst (push_gate E lk now r nd) \<noteq> None"
  using check_term_mono [where st = "nd_term nd" and locked = "lk_term lk" and now = now and r = r]
    check_term_stale [where st = "nd_term nd" and locked = "lk_term lk" and now = now and r = r]
  by (auto simp: push_gate_def split: prod.split)

text \<open>Terms gate pushes. A pushed record never lowers the node's term, and only a coordinator with authority
  moves it. A record of a known coordinator whose term is behind is refused and changes nothing at all.\<close>

theorem pushed_terms:
  "ts_term (nd_term nd) \<le> ts_term (nd_term (snd (commit_record_tool E lk now r nd)))
   \<and> (\<not> coordinator_known E nd r \<longrightarrow> nd_term (snd (commit_record_tool E lk now r nd)) = nd_term nd)
   \<and> (coordinator_known E nd r \<and> cr_term r < ts_term (nd_term nd) \<longrightarrow>
        (\<exists>e. commit_record_tool E lk now r nd = (Inl e, nd)))"
proof -
  obtain res nd1 where step: "push_gate E lk now r nd = (res, nd1)" by (metis surj_pair)
  have same: "nd_term (snd (commit_record_tool E lk now r nd)) = nd_term nd1"
    using append_to_term [of E lk now r nd1]
    by (cases res) (auto simp: commit_record_tool_def step Let_def split: prod.splits sum.splits)
  have "coordinator_known E nd r \<Longrightarrow> cr_term r < ts_term (nd_term nd) \<Longrightarrow> \<exists>e. commit_record_tool E lk now r nd = (Inl e, nd)"
    using push_gate_term(3) [where nd = nd and E = E and r = r and lk = lk and now = now] by (auto simp: commit_record_tool_def step)
  then show ?thesis
    using push_gate_term(1,2) [where nd = nd and E = E and r = r and lk = lk and now = now] same by (auto simp: step)
qed

definition late_node :: node where
  "late_node = (toy_node [])\<lparr>nd_term := \<lparr>ts_term = 7, ts_leader = ''b'', ts_updated = 0\<rparr>,
     nd_peers := Some [bound_row\<lparr>pw_node_id := Some ''a''\<rparr>]\<rparr>"

theorem pushed_terms_witness:
  "coordinator_known toy_env late_node (toy_record 1 [] ''x'') \<and> cr_term (toy_record 1 [] ''x'') < ts_term (nd_term late_node)
   \<and> (\<exists>e. commit_record_tool toy_env all_locks 5 (toy_record 1 [] ''x'') late_node = (Inl e, late_node))"
proof -
  have "coordinator_known toy_env late_node (toy_record 1 [] ''x'')"
    by (simp add: coordinator_known_def late_node_def peer_rows_def bound_row_def)
  moreover have "cr_term (toy_record 1 [] ''x'') < ts_term (nd_term late_node)" by (simp add: late_node_def)
  ultimately show ?thesis
    using pushed_terms [where nd = late_node and E = toy_env and lk = all_locks and now = 5 and r = "toy_record 1 [] ''x''"] by blast
qed

end
