(* ===== verification/Commit_Seal.thy ===== *)
theory Commit_Seal
  imports Commit_Authority
begin

text \<open>
  Sealing meets appending: a node's own decisions always enter its ledger. The same gates let through what their
  comments rule out, a gap filled under a retired key and a change its proposer endorses alone.
\<close>

section \<open>Own decisions\<close>

lemma append_passes:
  assumes "lk_ledger lk" and "held_verdict nd r = None" and "archive_verdict nd r = None" and "gate E now nd r = None"
  shows "append_to E lk now r nd = (Inr (), write_record E (lk_peers lk) now r nd)"
  using assms by (simp add: append_to_def append_checked_def)

lemma seal_fields:
  assumes "seal E now nd inp = Some r"
  shows "cr_coordinator r = ci_coordinator inp" "cr_seq r = next_seq_for (nd_ledger nd) (ci_coordinator inp)" "cr_kind r = []"
    "cr_prev_epoch r = (case chain_head_epoch (nd_ledger nd) (ci_coordinator inp) of None \<Rightarrow> [] | Some e \<Rightarrow> e)"
    "cr_member_sig r = (case ev_sign E (cr_signature r) of None \<Rightarrow> [] | Some m \<Rightarrow> m)"
  using assms by (auto simp: seal_def sealed_def unsealed_def Let_def split: option.splits)

lemma seal_verifies:
  assumes "cluster_key (ev_crypto E) (nd_keys nd) = Some key" and "\<And>m. hmac_sha256_hex (ev_crypto E) key m \<noteq> []"
    and "ci_quorum inp = length (ci_electorate inp) div 2 + 1" "ci_quorum inp \<le> ci_tally inp"
  obtains r where "seal E now nd inp = Some r" "verify_key_epoch E now (nd_keys nd) r = Some Current"
proof -
  let ?u = "unsealed E now nd inp [] (join '','' (sort (ci_electorate inp)) @ ''|'' @ show_u64 now)"
  have "internally_consistent (ev_crypto E) ?u"
    using assms(3,4) by (simp add: internally_consistent_def unsealed_def)
  then have "verify_key_epoch E now (nd_keys nd) (sealed E key ?u) = Some Current"
    by (rule sealed_verifies(1) [OF assms(1,2)])
  then show thesis using that assms(1) by (simp add: seal_def)
qed

lemma next_seq_above:
  assumes "max_seq rs c \<noteq> - 1"
  shows "max_seq rs c < next_seq_for rs c"
  using assms by (simp add: next_seq_for_def word_less_nat_alt unat_Suc_word)

lemma seal_slot_free:
  assumes inv: "log_inv nd" and top: "max_seq (nd_ledger nd) c \<noteq> - 1" and r: "cr_coordinator r = c" "cr_seq r = next_seq_for (nd_ledger nd) c"
  shows "held_verdict nd r = None" "archive_verdict nd r = None"
proof -
  note lt = next_seq_above [OF top]
  have "cr_seq s < cr_seq r" if "s \<in> set (nd_ledger nd)" "cr_coordinator s = c" for s
    using max_seq_ge [OF that] lt r(2) by simp
  then have "s \<in> set (nd_ledger nd) \<Longrightarrow> \<not> in_slot c (cr_seq r) s" for s
    unfolding in_slot_def by (metis order_less_irrefl)
  moreover have "0 < cr_seq r" using lt r(2) by (metis le_less_trans word_zero_le)
  ultimately show "held_verdict nd r = None"
    by (simp add: held_verdict_def r(1) find_None_iff split: option.split)
  have "snapshot_floor nd c \<le> max_seq (nd_ledger nd) c"
  proof (cases "0 < snapshot_floor nd c")
    case True
    from log_invD(4) [OF inv this] show ?thesis by (auto simp: slot_def intro: max_seq_ge)
  qed (simp add: word_gt_0)
  then have "\<not> cr_seq r < snapshot_floor nd c" using lt r(2) by simp
  then show "archive_verdict nd r = None" by (simp add: archive_verdict_def r(1))
qed

lemma seal_chains:
  assumes inv: "log_inv nd" and top: "max_seq (nd_ledger nd) c \<noteq> - 1"
    and r: "cr_coordinator r = c" "cr_seq r = next_seq_for (nd_ledger nd) c"
      "cr_prev_epoch r = (case chain_head_epoch (nd_ledger nd) c of None \<Rightarrow> [] | Some e \<Rightarrow> e)"
  shows "chain_ok (nd_ledger nd) r"
proof (cases "1 < cr_seq r \<and> List.find (in_slot c (cr_seq r - 1)) (nd_ledger nd) \<noteq> None")
  case False
  then show ?thesis by (auto simp: chain_ok_def r(1) split: option.split)
next
  case True
  then obtain p where p: "List.find (in_slot c (cr_seq r - 1)) (nd_ledger nd) = Some p" by auto
  then have mem: "p \<in> set (nd_ledger nd)" "cr_coordinator p = c" "cr_seq p = max_seq (nd_ledger nd) c"
    using r(2) by (auto simp: find_Some_iff in_slot_def next_seq_for_def)
  have pos: "0 < cr_seq p"
    using True r(2) mem(3) by (auto simp: next_seq_for_def word_gt_0)
  have "records_of c (nd_ledger nd) \<noteq> []" using mem by (auto simp: records_of_ne)
  from max_by_key_max [OF this, of cr_seq] obtain h where h: "max_by_key cr_seq (records_of c (nd_ledger nd)) = Some h"
    "h \<in> set (nd_ledger nd)" "cr_coordinator h = c" "cr_seq p \<le> cr_seq h"
    using mem by (auto simp: records_of_def)
  have "cr_seq h = cr_seq p" using h(4) max_seq_ge [OF h(2,3)] mem(3) by simp
  then have "h = p" using slots_unique_inj [OF log_invD(1) [OF inv] mem(1) h(2)] mem h pos by (simp add: slot_def)
  then have "cr_prev_epoch r = cr_epoch p" using r(3) h(1) by (simp add: chain_head_epoch_def)
  then show ?thesis by (simp add: chain_ok_def r(1) p)
qed

text \<open>C29. A node's own decisions always enter its ledger. On every reachable node with a readable cluster key and,
  if it publishes a public key, a signing key that matches it, a decision with a quorum behind it seals and the
  sealed record is appended: its number is free in ledger and archive and it chains to the held predecessor, after any
  compaction and whatever records others pushed (numbers below the last one of 64 bits).\<close>

theorem own_decision_accepted:
  assumes "(node_step E)\<^sup>*\<^sup>* nd0 nd" and "nd_ledger nd0 = []" "nd_archive nd0 = []" "nd_snapshot nd0 = None"
    and "cluster_key (ev_crypto E) (nd_keys nd) = Some key" and "\<And>m. hmac_sha256_hex (ev_crypto E) key m \<noteq> []"
    and "ci_coordinator inp = ev_id E" and "ci_quorum inp = length (ci_electorate inp) div 2 + 1" "ci_quorum inp \<le> ci_tally inp"
    and "\<And>pk s. ev_pubkey E = Some pk \<Longrightarrow> \<exists>m. ev_sign E s = Some m \<and> m \<noteq> [] \<and> member_verify (ev_crypto E) pk s m"
    and "max_seq (nd_ledger nd) (ev_id E) \<noteq> - 1" and "lk_ledger lk"
  shows "\<exists>r nd'. seal E now nd inp = Some r \<and> append_to E lk now r nd = (Inr (), nd')
    \<and> nd_ledger nd' = nd_ledger nd @ [r]"
proof -
  note inv = reachable_inv [OF assms(1-4)]
  obtain r where seal: "seal E now nd inp = Some r" and ok: "verify_key_epoch E now (nd_keys nd) r = Some Current"
    by (rule seal_verifies [OF assms(5,6,8,9)])
  note f = seal_fields [OF seal, unfolded assms(7)]
  have "attribution_valid E nd r"
  proof (cases "ev_pubkey E")
    case None
    then show ?thesis by (simp add: attribution_valid_def f bound_pubkey_at_def)
  next
    case (Some pk)
    then show ?thesis
      using assms(10) [OF Some, of "cr_signature r"] by (auto simp: attribution_valid_def bound_pubkey_at_def f(1,5))
  qed
  moreover have "member_delta r = None" by (simp add: member_delta_def f(3) kinds)
  moreover have "chain_ok (nd_ledger nd) r" by (rule seal_chains [OF inv assms(11) f(1,2,4)])
  ultimately have "gate E now nd r = None"
    by (simp add: gate_def ok endorsements_satisfied_at_tip_def privileged_kind_name_def f(3) kinds subject_attestation_valid_def)
  from append_passes [OF assms(12) seal_slot_free [OF inv assms(11) f(1,2)] this]
  show ?thesis using seal by auto
qed

definition toy_input :: commit_input where
  "toy_input = \<lparr>ci_coordinator = ''self'', ci_leader = ''self'', ci_electorate = [''b'', ''self''], ci_tally = 2,
     ci_quorum = 2, ci_value = ''yes''\<rparr>"

theorem own_decision_accepted_witness:
  "\<exists>r nd'. seal toy_env 5 (toy_node []) toy_input = Some r
     \<and> append_to toy_env all_locks 5 r (toy_node []) = (Inr (), nd') \<and> nd_ledger nd' = [r]"
proof -
  have "\<exists>r nd'. seal toy_env 5 (toy_node []) toy_input = Some r
     \<and> append_to toy_env all_locks 5 r (toy_node []) = (Inr (), nd') \<and> nd_ledger nd' = nd_ledger (toy_node []) @ [r]"
  proof (rule own_decision_accepted [where nd = "toy_node []" and ?nd0.0 = "toy_node []" and E = toy_env])
    show "cluster_key (ev_crypto toy_env) (nd_keys (toy_node [])) = Some toy_key"
      by (simp add: toy_env_def toy_keys_current)
    show "hmac_sha256_hex (ev_crypto toy_env) toy_key m \<noteq> []" for m
      by (simp add: toy_env_def hmac_sha256_hex_def toy_crypto_def)
  qed (simp_all add: toy_env_def toy_input_def all_locks_def max_seq_def records_of_def)
  then show ?thesis by simp
qed

section \<open>What the gates let through\<close>

definition fill_text :: "cluster_env \<Rightarrow> string \<Rightarrow> u64 \<Rightarrow> string \<Rightarrow> string \<Rightarrow> commit_record" where
  "fill_text E c n e v =
     \<lparr>cr_epoch = e, cr_coordinator = c, cr_electorate = [], cr_tally = 1, cr_quorum = 1,
      cr_value_hash = digest_hex (ev_crypto E) v, cr_value = v, cr_committed_at = 0, cr_seq = n, cr_leader = c, cr_term = 0,
      cr_prev_epoch = [], cr_kind = [], cr_signature = [], cr_member_sig = [], cr_member_pubkey = [],
      cr_subject_sig = [], cr_endorsements = []\<rparr>"

definition forged_fill :: "cluster_env \<Rightarrow> string \<Rightarrow> string \<Rightarrow> u64 \<Rightarrow> string \<Rightarrow> string \<Rightarrow> commit_record" where
  "forged_fill E k c n e v =
     (fill_text E c n e v)\<lparr>cr_signature := hmac_sha256_hex (ev_crypto E) k (signed_payload E (fill_text E c n e v))\<rparr>"

lemma forged_fill_fields [simp]:
  "cr_coordinator (forged_fill E k c n e v) = c" "cr_seq (forged_fill E k c n e v) = n" "cr_epoch (forged_fill E k c n e v) = e"
  "cr_kind (forged_fill E k c n e v) = []" "cr_prev_epoch (forged_fill E k c n e v) = []" "cr_value (forged_fill E k c n e v) = v"
  "cr_member_sig (forged_fill E k c n e v) = []"
  by (simp_all add: forged_fill_def fill_text_def)

lemma forged_fill_signature:
  "hmac_sha256_hex (ev_crypto E) k (signed_payload E (forged_fill E k c n e v)) = cr_signature (forged_fill E k c n e v)"
  by (simp add: forged_fill_def signed_payload_def)

lemma forged_fill_verifies:
  assumes "prev_key (ev_crypto E) now ks = Some k" and "\<And>m. hmac_sha256_hex (ev_crypto E) k m \<noteq> []"
  shows "verify_key_epoch E now ks (forged_fill E k c n e v) \<noteq> None"
proof -
  have "internally_consistent (ev_crypto E) (forged_fill E k c n e v)"
    by (simp add: internally_consistent_def forged_fill_def fill_text_def)
  moreover have "cr_signature (forged_fill E k c n e v) \<noteq> []"
    using assms(2) by (metis forged_fill_signature)
  then have "signature_epoch E now ks (forged_fill E k c n e v) \<noteq> None"
    by (simp add: signature_epoch_def Let_def assms(1) forged_fill_signature)
  ultimately show ?thesis by (simp add: verify_key_epoch_def)
qed

text \<open>A retired key fills a gap with any content. If a held record links to a missing predecessor of a
  coordinator without a bound key, then whoever knows the retired cluster key can make every value they like the
  content of that predecessor: there is a record with that value, signed with the retired key alone, that the node
  appends. The link names an epoch, and nothing ties the epoch to the rest of the record.\<close>

theorem gap_fill_takes_any_value:
  assumes "prev_key (ev_crypto E) now (nd_keys nd) = Some k" and "\<And>m. hmac_sha256_hex (ev_crypto E) k m \<noteq> []"
    and "s \<in> set (nd_ledger nd)" "cr_coordinator s = c" "cr_seq s = n + 1" "0 < n"
    and "(c, n) \<notin> slot ` set (nd_ledger nd @ nd_archive nd)" and "bound_pubkey_at E nd c = None" and "lk_ledger lk"
  shows "\<forall>v. \<exists>r. cr_value r = v \<and> slot r = (c, n)
    \<and> cr_signature r = hmac_sha256_hex (ev_crypto E) k (signed_payload E r) \<and> cr_member_sig r = []
    \<and> fst (append_to E lk now r nd) = Inr ()
    \<and> nd_ledger (snd (append_to E lk now r nd)) = nd_ledger nd @ [r]"
proof
  fix v
  let ?r = "forged_fill E k c n (cr_prev_epoch s) v"
  have slot: "slot ?r = (c, n)" by (simp add: slot_def)
  have free: "\<not> in_slot c n x" if "x \<in> set (nd_ledger nd) \<union> set (nd_archive nd)" for x
    using that assms(7) by (metis imageI in_slot_iff set_append)
  have held: "held_verdict nd ?r = None"
    using assms(6) free by (auto simp: held_verdict_def find_None_iff split: option.split)
  have arch: "archive_verdict nd ?r = None"
    using free by (auto simp: archive_verdict_def find_in_archive_def find_None_iff find_Some_iff split: option.split)
  have "pinned (nd_ledger nd) ?r" using assms(3-5) by (auto simp: pinned_def)
  moreover have "attribution_valid E nd ?r" by (simp add: attribution_valid_def assms(8))
  moreover have "member_delta ?r = None" by (simp add: member_delta_def kinds)
  ultimately have "gate E now nd ?r = None"
    using forged_fill_verifies [OF assms(1,2), of c n "cr_prev_epoch s" v]
    by (auto simp: gate_def endorsements_satisfied_at_tip_def privileged_kind_name_def kinds
      subject_attestation_valid_def chain_ok_def)
  from append_passes [OF assms(9) held arch this] slot
  show "\<exists>r. cr_value r = v \<and> slot r = (c, n)
    \<and> cr_signature r = hmac_sha256_hex (ev_crypto E) k (signed_payload E r) \<and> cr_member_sig r = []
    \<and> fst (append_to E lk now r nd) = Inr ()
    \<and> nd_ledger (snd (append_to E lk now r nd)) = nd_ledger nd @ [r]"
    by (intro exI [of _ ?r]) (simp add: forged_fill_signature)
qed

definition rotated_node :: node where
  "rotated_node = (toy_node [toy_record 2 [] ''x''])\<lparr>nd_keys :=
     (nd_keys (toy_node []))\<lparr>kf_prev := Some (cy_hex toy_crypto (replicate 32 CHR ''o'')),
        kf_prev_expires := Some (show_u64 100)\<rparr>\<rparr>"

theorem gap_fill_takes_any_value_witness:
  "prev_key toy_crypto 5 (nd_keys rotated_node) = Some (replicate 32 CHR ''o'')
   \<and> (\<exists>r. cr_value r = ''anything'' \<and> slot r = (''a'', 1)
        \<and> nd_ledger (snd (append_to toy_env all_locks 5 r rotated_node)) = [toy_record 2 [] ''x'', r])"
proof -
  let ?k = "replicate 32 CHR ''o''"
  have "key_bytes_of toy_crypto (Some (cy_hex toy_crypto ?k)) = Some ?k"
    by (rule key_bytes_of_hex [OF hex_ok_toy]) simp
  from prev_key_retired [OF this, where now = 5 and ks = "nd_keys (toy_node [])" and t = 100]
  have prev: "prev_key toy_crypto 5 (nd_keys rotated_node) = Some ?k"
    by (simp add: rotated_node_def del: replicate.simps)
  have led: "nd_ledger rotated_node = [toy_record 2 [] ''x'']" "nd_archive rotated_node = []" by (simp_all add: rotated_node_def)
  have "\<forall>v. \<exists>r. cr_value r = v \<and> slot r = (''a'', 1)
    \<and> cr_signature r = hmac_sha256_hex (ev_crypto toy_env) ?k (signed_payload toy_env r) \<and> cr_member_sig r = []
    \<and> fst (append_to toy_env all_locks 5 r rotated_node) = Inr ()
    \<and> nd_ledger (snd (append_to toy_env all_locks 5 r rotated_node)) = nd_ledger rotated_node @ [r]"
  proof (rule gap_fill_takes_any_value)
    show "prev_key (ev_crypto toy_env) 5 (nd_keys rotated_node) = Some ?k" using prev by (simp add: toy_env_def)
    show "hmac_sha256_hex (ev_crypto toy_env) ?k m \<noteq> []" for m
      by (simp add: toy_env_def hmac_sha256_hex_def toy_crypto_def)
    show "toy_record 2 [] ''x'' \<in> set (nd_ledger rotated_node)" by (simp add: led)
    show "bound_pubkey_at toy_env rotated_node ''a'' = None"
      by (simp add: bound_pubkey_at_def toy_env_def peer_rows_def rotated_node_def)
  qed (simp_all add: led slot_def all_locks_def)
  then show ?thesis using prev by (auto simp: led)
qed

lemma gate_empty_electorate:
  assumes "member_delta r = Some (KIND_MEMBER_REMOVE, i, a)" and "cr_electorate r = []"
    and "verify_key_epoch E now (nd_keys nd) r = Some Current" and "attribution_valid E nd r" and "chain_ok (nd_ledger nd) r"
  shows "gate E now nd r = None"
  using assms by (simp add: gate_def endorsements_satisfied_at_tip_def supported_def bound_now_def map_filter_simps
    subject_attestation_valid_def)

text \<open>An empty electorate needs no endorsement. The endorsement gate counts the bound members of the electorate
  the record itself names. A removal sealed under the live key by an attributable coordinator that names an empty
  electorate is appended without a single endorsement, whatever keys the roster binds, and takes effect: no row of
  the victim is left and it is banned.\<close>

theorem empty_electorate_evicts:
  assumes "member_delta r = Some (KIND_MEMBER_REMOVE, i, a)" and "cr_electorate r = []"
    and "verify_key_epoch E now (nd_keys nd) r = Some Current" and "attribution_valid E nd r" and "chain_ok (nd_ledger nd) r"
    and "held_verdict nd r = None" "archive_verdict nd r = None"
    and "i \<noteq> ev_id E" "\<not> is_loopback_addr a" and "nd_peers nd = Some peers" "nd_banned nd = Some banned"
    and "lk_ledger lk" "lk_peers lk"
  shows "fst (append_to E lk now r nd) = Inr ()
    \<and> (\<forall>p\<in>set (peer_rows (snd (append_to E lk now r nd))). \<not> peer_matches i a p)
    \<and> (\<exists>rows. nd_banned (snd (append_to E lk now r nd)) = Some rows \<and> (\<exists>b\<in>set rows. ban_matches i a b))"
proof -
  have kind: "cr_kind r = KIND_MEMBER_REMOVE"
    using assms(1) by (auto simp: member_delta_def split: option.splits if_splits)
  have peers: "nd_peers (write_record E True now r nd) = Some (filter (\<lambda>p. \<not> peer_matches i a p) peers)"
    and bans: "nd_banned (write_record E True now r nd) = Some (if \<exists>b\<in>set banned. ban_matches i a b then banned
       else banned @ [\<lparr>bw_node_id = Some i, bw_address = Some a, bw_at = Some (cr_committed_at r)\<rparr>])"
    using assms(8-11) by (simp_all add: write_record_def kind apply_member_delta_def assms(1)) (simp_all add: kinds)
  have "append_to E lk now r nd = (Inr (), write_record E True now r nd)"
    using append_passes [OF assms(12,6,7) gate_empty_electorate [OF assms(1-5)]] assms(13) by simp
  then show ?thesis by (auto simp: peer_rows_def peers bans ban_matches_def)
qed

definition lone_record :: commit_record where
  "lone_record = sealed toy_env toy_key ((toy_unsealed 1 KIND_MEMBER_REMOVE ''p@10.0.0.2'')\<lparr>cr_electorate := []\<rparr>)"

theorem empty_electorate_evicts_witness:
  "bound_now toy_env bound_node [''p''] \<noteq> [] \<and> cr_endorsements lone_record = []
   \<and> fst (append_to toy_env all_locks 5 lone_record bound_node) = Inr ()
   \<and> Some ''p'' \<notin> pw_node_id ` set (peer_rows (snd (append_to toy_env all_locks 5 lone_record bound_node)))"
proof -
  have fields: "cr_coordinator lone_record = ''a''" "cr_seq lone_record = 1" "cr_electorate lone_record = []"
      "cr_prev_epoch lone_record = []" "cr_endorsements lone_record = []"
    by (simp_all add: lone_record_def toy_unsealed_def sealed_def Let_def)
  have delta0: "member_delta (toy_unsealed 1 KIND_MEMBER_REMOVE ''p@10.0.0.2'') = Some (KIND_MEMBER_REMOVE, ''p'', ''10.0.0.2'')"
    by (simp add: member_delta_def toy_unsealed_def kinds)
  then have delta: "member_delta lone_record = Some (KIND_MEMBER_REMOVE, ''p'', ''10.0.0.2'')"
    using member_delta_cong [of lone_record "toy_unsealed 1 KIND_MEMBER_REMOVE ''p@10.0.0.2''"]
    by (simp add: lone_record_def sealed_def Let_def)
  have key: "cluster_key (ev_crypto toy_env) (nd_keys bound_node) = Some toy_key"
    using toy_keys_current [of "[]"] by (simp add: toy_env_def bound_node_def)
  have mac: "hmac_sha256_hex (ev_crypto toy_env) k m \<noteq> []" for k m
    by (simp add: toy_env_def hmac_sha256_hex_def toy_crypto_def)
  have "internally_consistent (ev_crypto toy_env) ((toy_unsealed 1 KIND_MEMBER_REMOVE ''p@10.0.0.2'')\<lparr>cr_electorate := []\<rparr>)"
    using delta unfolding lone_record_def
    by (simp add: internally_consistent_def) (simp add: toy_unsealed_def kinds toy_env_def)
  then have ok: "verify_key_epoch toy_env 5 (nd_keys bound_node) lone_record = Some Current"
    unfolding lone_record_def by (rule sealed_verifies(1) [OF key mac])
  have attr: "attribution_valid toy_env bound_node lone_record"
    by (simp add: attribution_valid_def fields bound_pubkey_at_def bound_node_def peer_rows_def bound_row_def toy_env_def)
  have led: "nd_ledger bound_node = []" "nd_snapshot bound_node = None" "nd_peers bound_node = Some [bound_row]" "nd_banned bound_node = Some []"
    by (simp_all add: bound_node_def)
  have chain: "chain_ok (nd_ledger bound_node) lone_record" by (simp add: chain_ok_def fields)
  have held: "held_verdict bound_node lone_record = None" by (simp add: held_verdict_def led)
  have arch: "archive_verdict bound_node lone_record = None"
    by (simp add: archive_verdict_def snapshot_floor_def led)
  have self: "''p'' \<noteq> ev_id toy_env" by (simp add: toy_env_def)
  have loop: "\<not> is_loopback_addr ''10.0.0.2''" by (simp add: is_loopback_addr_def dec_val_def digit_val_def)
  have lk: "lk_ledger all_locks" "lk_peers all_locks" by (simp_all add: all_locks_def)
  from empty_electorate_evicts [OF delta fields(3) ok attr chain held arch self loop led(3,4) lk]
  show ?thesis by (auto simp: toy_bound_now fields peer_matches_def)
qed

end
