(* ===== verification/Commit_Roster.thy ===== *)
theory Commit_Roster
  imports Commit_Run
begin

text \<open>
  The roster files of a node against the replay of its ledger: committed member records, applied one by one to
  \<open>peers.json\<close> and \<open>peers_banned.json\<close>, leave the members and bans that the replay derives, as long as no removal
  names a member that is banned under another address or another name.
\<close>

definition row_pair :: "peer_row \<Rightarrow> string option \<times> string option" where
  "row_pair p = (pw_node_id p, pw_address p)"

definition ban_pair :: "ban_row \<Rightarrow> string option \<times> string option" where
  "ban_pair b = (bw_node_id b, bw_address b)"

definition some_pair :: "string \<times> string \<Rightarrow> string option \<times> string option" where
  "some_pair = (\<lambda>(i, a). (Some i, Some a))"

text \<open>The refinement relation: the two files have the pairs of the replayed state.\<close>

definition mirrors :: "node \<Rightarrow> cluster_state \<Rightarrow> bool" where
  "mirrors nd st \<longleftrightarrow> (\<exists>peers banned. nd_peers nd = Some peers \<and> nd_banned nd = Some banned
     \<and> row_pair ` set peers = some_pair ` set (cs_roster st) \<and> ban_pair ` set banned = some_pair ` cs_banned st)"

definition remote :: "cluster_env \<Rightarrow> commit_record \<Rightarrow> bool" where
  "remote E r = (case member_delta r of None \<Rightarrow> True | Some (_, i, a) \<Rightarrow> i \<noteq> ev_id E \<and> \<not> is_loopback_addr a)"

definition fresh_ban :: "cluster_state \<Rightarrow> commit_record \<Rightarrow> bool" where
  "fresh_ban st r = (case member_delta r of None \<Rightarrow> True
     | Some (kind, i, a) \<Rightarrow> kind = KIND_MEMBER_REMOVE \<longrightarrow> (\<forall>b\<in>cs_banned st. fst b = i \<or> snd b = a \<longrightarrow> b = (i, a)))"

fun fresh_bans :: "cluster_state \<Rightarrow> commit_record list \<Rightarrow> bool" where
  "fresh_bans st [] = True"
| "fresh_bans st (r # rs) = (fresh_ban st r \<and> fresh_bans (fold_effect r st) rs)"

lemma fresh_bans_snoc: "fresh_bans st (rs @ [r]) \<longleftrightarrow> fresh_bans st rs \<and> fresh_ban (fold fold_effect rs st) r"
  by (induction rs arbitrary: st) simp_all

section \<open>Rows\<close>

lemma bind_member_key_pair [simp]: "row_pair (bind_member_key r nd i row) = row_pair row"
  by (simp add: bind_member_key_def row_pair_def)

lemma merged_row_pair [simp]: "row_pair (merged_row r nd i a row) = (Some i, Some a)"
  by (simp add: merged_row_def) (simp add: row_pair_def)

lemma new_row_pair [simp]: "row_pair (new_row r nd i a) = (Some i, Some a)"
  by (simp add: new_row_def) (simp add: row_pair_def)

lemma merge_rows_set:
  assumes "\<And>p. row_pair (upd p) = q"
  shows "row_pair ` set (snd (merge_rows hit upd merged ps)) =
      row_pair ` {p \<in> set ps. \<not> hit p} \<union> (if \<not> merged \<and> (\<exists>p\<in>set ps. hit p) then {q} else {})"
    "fst (merge_rows hit upd merged ps) \<longleftrightarrow> merged \<or> (\<exists>p\<in>set ps. hit p)"
proof (induction ps arbitrary: merged)
  case (Cons p ps)
  have "{x \<in> set (p # ps). \<not> hit x} = (if hit p then {} else {p}) \<union> {x \<in> set ps. \<not> hit x}" by auto
  note split = this
  case 1
  show ?case
    unfolding split using Cons.IH(1) [of merged] Cons.IH(1) [of True] assms by (auto split: prod.splits if_splits)
  case 2
  show ?case using Cons.IH(2) [of merged] Cons.IH(2) [of True] by (auto split: prod.splits)
qed simp_all

lemma peer_matches_pair: "peer_matches i a p \<longleftrightarrow> fst (row_pair p) = Some i \<or> snd (row_pair p) = Some a"
  by (simp add: peer_matches_def row_pair_def)

lemma ban_matches_pair: "ban_matches i a b \<longleftrightarrow> fst (ban_pair b) = Some i \<or> snd (ban_pair b) = Some a"
  by (simp add: ban_matches_def ban_pair_def)

definition unrelated :: "string \<Rightarrow> string \<Rightarrow> (string option \<times> string option) set" where
  "unrelated i a = {q. fst q \<noteq> Some i \<and> snd q \<noteq> Some a}"

lemma kept_rows: "row_pair ` {p \<in> set ps. \<not> peer_matches i a p} = row_pair ` set ps \<inter> unrelated i a"
  by (auto simp: peer_matches_pair unrelated_def)

lemma kept_bans: "ban_pair ` {b \<in> set bs. \<not> ban_matches i a b} = ban_pair ` set bs \<inter> unrelated i a"
  by (auto simp: ban_matches_pair unrelated_def)

lemma add_peer_pairs: "row_pair ` set (add_peer r nd i a peers) = insert (Some i, Some a) (row_pair ` set peers \<inter> unrelated i a)"
proof -
  let ?m = "merge_rows (peer_matches i a) (merged_row r nd i a) False peers"
  note s = merge_rows_set [where upd = "merged_row r nd i a" and q = "(Some i, Some a)" and hit = "peer_matches i a" and merged = False and ps = peers]
  have "row_pair ` set (snd ?m) = row_pair ` set peers \<inter> unrelated i a \<union> (if fst ?m then {(Some i, Some a)} else {})"
    using s by (simp add: kept_rows)
  then show ?thesis unfolding add_peer_def by (cases ?m) auto
qed

section \<open>The derived roster\<close>

lemma set_bt_insert_new: "k \<notin> fst ` set m \<Longrightarrow> set (bt_insert k v m) = insert (k, v) (set m)"
  by (induction k v m rule: bt_insert.induct) auto

lemma drop_member_pairs: "some_pair ` set (drop_member i a roster) = some_pair ` set roster \<inter> unrelated i a"
  by (auto simp: drop_member_def some_pair_def unrelated_def)

lemma insert_member_pairs:
  "some_pair ` set (bt_insert i a (drop_member i a roster)) = insert (Some i, Some a) (some_pair ` set roster \<inter> unrelated i a)"
proof -
  have "i \<notin> fst ` set (drop_member i a roster)" by (auto simp: drop_member_def)
  from set_bt_insert_new [OF this] show ?thesis by (simp add: drop_member_pairs flip: drop_member_pairs) (simp add: some_pair_def)
qed

lemma unban_pairs: "some_pair ` {b \<in> B. fst b \<noteq> i \<and> snd b \<noteq> a} = some_pair ` B \<inter> unrelated i a"
  by (auto simp: some_pair_def unrelated_def)

lemma some_pair_parts [simp]: "fst (some_pair b) = Some i \<longleftrightarrow> fst b = i" "snd (some_pair b) = Some a \<longleftrightarrow> snd b = a"
  by (simp_all add: some_pair_def split: prod.split)

lemma some_pair_apply: "some_pair (i, a) = (Some i, Some a)"
  by (simp add: some_pair_def)

lemma fold_effect_roster:
  "cs_roster (fold_effect r st) = (case member_delta r of None \<Rightarrow> cs_roster st | Some d \<Rightarrow> cs_roster (fold_delta d st))"
  "cs_banned (fold_effect r st) = (case member_delta r of None \<Rightarrow> cs_banned st | Some d \<Rightarrow> cs_banned (fold_delta d st))"
  by (auto simp: fold_effect_def Let_def fold_delta_def split: option.split prod.split)

lemma mirrors_step:
  assumes m: "mirrors nd st" and "remote E r" and "fresh_ban st r"
  shows "mirrors (apply_member_delta E True r nd) (fold_effect r st)"
proof (cases "member_delta r")
  case None
  then show ?thesis using m by (simp add: mirrors_def apply_member_delta_def fold_effect_roster)
next
  case (Some d)
  obtain kind i a where d: "d = (kind, i, a)" by (metis surj_pair)
  have kind: "kind = KIND_MEMBER_ADD \<or> kind = KIND_MEMBER_REMOVE \<or> kind = KIND_MEMBER_UNBAN"
    using Some d by (auto simp: member_delta_def split: if_splits option.splits)
  have rem: "i \<noteq> ev_id E" "\<not> is_loopback_addr a" using assms(2) by (simp_all add: remote_def Some d)
  obtain peers banned where files: "nd_peers nd = Some peers" "nd_banned nd = Some banned"
    and ps: "row_pair ` set peers = some_pair ` set (cs_roster st)" and bs: "ban_pair ` set banned = some_pair ` cs_banned st"
    using m by (auto simp: mirrors_def)
  have hit: "(\<exists>b\<in>set banned. ban_matches i a b) \<longleftrightarrow> (\<exists>b\<in>cs_banned st. fst b = i \<or> snd b = a)"
    using arg_cong [OF bs, of "\<lambda>S. \<exists>q\<in>S. fst q = Some i \<or> snd q = Some a"] by (simp add: ban_matches_pair)
  consider (add) "kind = KIND_MEMBER_ADD" | (rem) "kind = KIND_MEMBER_REMOVE" | (unban) "kind = KIND_MEMBER_UNBAN"
    using kind by blast
  then show ?thesis
  proof cases
    case add
    then show ?thesis
      using rem files ps bs hit
      by (simp add: mirrors_def apply_member_delta_def fold_effect_roster Some d fold_delta_def add_peer_pairs insert_member_pairs)
  next
    case rem
    have fresh: "\<forall>b\<in>cs_banned st. fst b = i \<or> snd b = a \<longrightarrow> b = (i, a)"
      using assms(3) rem by (simp add: fresh_ban_def Some d)
    have "ban_pair ` set (if \<exists>b\<in>set banned. ban_matches i a b then banned
         else banned @ [\<lparr>bw_node_id = Some i, bw_address = Some a, bw_at = t\<rparr>]) = insert (Some i, Some a) (some_pair ` cs_banned st)" for t
    proof (cases "\<exists>b\<in>cs_banned st. fst b = i \<or> snd b = a")
      case True
      then obtain b where b: "b \<in> cs_banned st" "fst b = i \<or> snd b = a" ..
      from bspec [OF fresh b(1)] b(2) have "b = (i, a)" ..
      with b(1) have "(i, a) \<in> cs_banned st" by simp
      then have "some_pair (i, a) \<in> some_pair ` cs_banned st" by (rule imageI)
      then have "insert (Some i, Some a) (some_pair ` cs_banned st) = some_pair ` cs_banned st"
        by (simp only: some_pair_def prod.case insert_absorb)
      moreover have "\<exists>b\<in>set banned. ban_matches i a b" using True hit by blast
      ultimately show ?thesis using bs by simp
    next
      case False
      then show ?thesis using hit bs by (simp add: ban_pair_def)
    qed
    then show ?thesis
      using rem \<open>i \<noteq> ev_id E\<close> \<open>\<not> is_loopback_addr a\<close> files ps
      by (simp add: mirrors_def apply_member_delta_def fold_effect_roster Some d fold_delta_def kept_rows drop_member_pairs some_pair_apply)
  next
    case unban
    then show ?thesis
      using rem files ps bs
      by (simp add: mirrors_def apply_member_delta_def fold_effect_roster Some d fold_delta_def kept_bans unban_pairs)
  qed
qed

section \<open>Appends keep the mirror\<close>

inductive append_step :: "cluster_env \<Rightarrow> node \<Rightarrow> node \<Rightarrow> bool" for E where
  "lk_peers lk \<Longrightarrow> append_step E nd (snd (append_to E lk now r nd))"

definition mirrored :: "cluster_env \<Rightarrow> node \<Rightarrow> bool" where
  "mirrored E nd \<longleftrightarrow> nd_snapshot nd = None \<and>
     ((\<forall>r\<in>set (nd_ledger nd). remote E r) \<and> fresh_bans cluster_default (nd_ledger nd) \<longrightarrow>
      mirrors nd (fold fold_effect (nd_ledger nd) cluster_default))"

lemma mirrors_cong: "nd_peers nd' = nd_peers nd \<Longrightarrow> nd_banned nd' = nd_banned nd \<Longrightarrow> mirrors nd' st = mirrors nd st"
  by (simp add: mirrors_def)

lemma write_record_roster:
  "nd_peers (write_record E locked now r nd) = nd_peers (apply_member_delta E locked r (nd\<lparr>nd_ledger := nd_ledger nd @ [r]\<rparr>))"
  "nd_banned (write_record E locked now r nd) = nd_banned (apply_member_delta E locked r (nd\<lparr>nd_ledger := nd_ledger nd @ [r]\<rparr>))"
  by (auto simp: write_record_def Let_def split: option.split)

lemma append_step_mirrored:
  assumes "append_step E nd nd'" and "mirrored E nd"
  shows "mirrored E nd'"
  using assms(1)
proof cases
  case (1 lk now r)
  show ?thesis
  proof (cases rule: append_checked_cases [of E "lk_peers lk" now r nd])
    case unchanged: 1
    then have "nd' = nd" unfolding \<open>nd' = _\<close> by (auto simp: append_to_def split: prod.splits sum.splits)
    with assms(2) show ?thesis by simp
  next
    case 2
    show ?thesis
    proof (cases "lk_ledger lk")
      case False
      then have "nd' = nd" unfolding \<open>nd' = _\<close> by (simp add: append_to_def)
      with assms(2) show ?thesis by simp
    next
      case True
      have nd': "nd' = write_record E True now r nd"
        using True \<open>lk_peers lk\<close> 2(4) unfolding \<open>nd' = _\<close> by (simp add: append_to_def)
      let ?nd1 = "nd\<lparr>nd_ledger := nd_ledger nd @ [r]\<rparr>" and ?st = "fold fold_effect (nd_ledger nd) cluster_default"
      have "mirrors nd' (fold_effect r ?st)"
        if "\<forall>x\<in>set (nd_ledger nd @ [r]). remote E x" "fresh_bans cluster_default (nd_ledger nd @ [r])"
      proof -
        have "mirrors ?nd1 ?st"
          using assms(2) that mirrors_cong [of ?nd1 nd] by (simp add: mirrored_def fresh_bans_snoc)
        then have "mirrors (apply_member_delta E True r ?nd1) (fold_effect r ?st)"
          by (rule mirrors_step) (use that in \<open>simp_all add: fresh_bans_snoc\<close>)
        then show ?thesis unfolding nd' by (subst mirrors_cong [OF write_record_roster])
      qed
      then show ?thesis using assms(2) by (simp add: mirrored_def nd')
    qed
  qed
qed

lemma replay_uncompacted:
  assumes "nd_snapshot nd = None" and "\<forall>r\<in>set (nd_ledger nd). verify_record E now (nd_keys nd) r \<and> 0 < cr_seq r"
  shows "cs_roster (replay E now nd) = cs_roster (fold fold_effect (nd_ledger nd) cluster_default)"
    "cs_banned (replay E now nd) = cs_banned (fold fold_effect (nd_ledger nd) cluster_default)"
proof -
  have all: "filter (above E now (nd_keys nd) []) (nd_ledger nd) = nd_ledger nd"
    using assms(2) by (simp add: filter_id_conv above_def)
  have def0: "consensus_view cluster_default = cluster_default" by (simp add: consensus_view_def cluster_default_def)
  have "consensus_view (replay E now nd) = consensus_view (fold_records E now (nd_keys nd) cluster_default (nd_ledger nd) [])"
    using assms(1) by (simp add: replay_view replay_folded_def replay_records_def)
  then obtain m where v: "consensus_view (replay E now nd) = (fold fold_effect (nd_ledger nd) cluster_default)\<lparr>cs_coordinators := m\<rparr>"
    by (simp only: fold_records_view all def0)
  show "cs_roster (replay E now nd) = cs_roster (fold fold_effect (nd_ledger nd) cluster_default)"
    using arg_cong [OF v, of cs_roster] by (simp add: consensus_view_def)
  show "cs_banned (replay E now nd) = cs_banned (fold fold_effect (nd_ledger nd) cluster_default)"
    using arg_cong [OF v, of cs_banned] by (simp add: consensus_view_def)
qed


section \<open>Concrete rosters\<close>

lemma toy_append:
  assumes "cluster_key toy_crypto (nd_keys nd) = Some toy_key" and "nd_peers nd = Some []" and "nd_snapshot nd = None"
    and "0 < n" "\<forall>s\<in>set (nd_ledger nd). cr_seq s \<noteq> n" and "member_delta (toy_record n kind v) = Some (kind, i, a)"
  shows "append_to toy_env all_locks now (toy_record n kind v) nd =
    (Inr (), apply_member_delta toy_env True (toy_record n kind v) (nd\<lparr>nd_ledger := nd_ledger nd @ [toy_record n kind v]\<rparr>))"
proof -
  have kind: "kind \<noteq> KIND_CLUSTER_REKEY_ACTIVATE"
    using assms(6) by (auto simp: member_delta_def kinds split: if_splits)
  have "held_verdict nd (toy_record n kind v) = None"
    using assms(4,5) by (auto simp: held_verdict_def in_slot_def find_None_iff find_Some_iff split: option.split)
  moreover have "archive_verdict nd (toy_record n kind v) = None"
    using assms(3) by (simp add: archive_verdict_def snapshot_floor_def)
  moreover have "gate toy_env now nd (toy_record n kind v) = None"
    by (rule toy_gate) (use assms in simp_all)
  ultimately show ?thesis
    using kind by (simp add: append_to_def all_locks_def append_checked_def write_record_def)
qed

definition roster_one :: node where
  "roster_one = snd (append_to toy_env all_locks 5 (toy_record 1 KIND_MEMBER_REMOVE ''m@h'') (toy_node []))"

definition roster_two :: node where
  "roster_two = snd (append_to toy_env all_locks 5 (toy_record 2 KIND_MEMBER_REMOVE ''m@k'') roster_one)"

definition roster_three :: node where
  "roster_three = snd (append_to toy_env all_locks 5 (toy_record 3 KIND_MEMBER_ADD ''n@k'') roster_two)"

lemma toy_deltas:
  "member_delta (toy_record n KIND_MEMBER_REMOVE ''m@k'') = Some (KIND_MEMBER_REMOVE, ''m'', ''k'')"
  "member_delta (toy_record n KIND_MEMBER_ADD ''n@k'') = Some (KIND_MEMBER_ADD, ''n'', ''k'')"
  by (simp_all add: member_delta_def kinds)

lemma toy_remote: "''m'' \<noteq> ev_id toy_env" "''n'' \<noteq> ev_id toy_env" "\<not> is_loopback_addr ''h''" "\<not> is_loopback_addr ''k''"
  by (simp_all add: toy_env_def is_loopback_addr_def)

lemma roster_one_eq:
  "roster_one = (toy_node [])\<lparr>nd_ledger := [toy_record 1 KIND_MEMBER_REMOVE ''m@h''],
     nd_banned := Some [\<lparr>bw_node_id = Some ''m'', bw_address = Some ''h'', bw_at = Some 0\<rparr>]\<rparr>"
proof -
  have "append_to toy_env all_locks 5 (toy_record 1 KIND_MEMBER_REMOVE ''m@h'') (toy_node []) =
    (Inr (), apply_member_delta toy_env True (toy_record 1 KIND_MEMBER_REMOVE ''m@h'')
      ((toy_node [])\<lparr>nd_ledger := nd_ledger (toy_node []) @ [toy_record 1 KIND_MEMBER_REMOVE ''m@h'']\<rparr>))"
    by (rule toy_append) (simp_all add: toy_keys_current)
  then show ?thesis
    by (simp add: roster_one_def apply_member_delta_def toy_remote toy_node_def)
qed

lemma roster_two_eq:
  "roster_two = roster_one\<lparr>nd_ledger := [toy_record 1 KIND_MEMBER_REMOVE ''m@h'', toy_record 2 KIND_MEMBER_REMOVE ''m@k'']\<rparr>"
proof -
  have "append_to toy_env all_locks 5 (toy_record 2 KIND_MEMBER_REMOVE ''m@k'') roster_one =
    (Inr (), apply_member_delta toy_env True (toy_record 2 KIND_MEMBER_REMOVE ''m@k'')
      (roster_one\<lparr>nd_ledger := nd_ledger roster_one @ [toy_record 2 KIND_MEMBER_REMOVE ''m@k'']\<rparr>))"
    by (rule toy_append) (simp_all add: toy_keys_current roster_one_eq toy_deltas)
  then show ?thesis
    by (simp add: roster_two_def apply_member_delta_def toy_deltas toy_remote roster_one_eq ban_matches_def)
qed

lemma roster_three_parts:
  "nd_ledger roster_three = [toy_record 1 KIND_MEMBER_REMOVE ''m@h'', toy_record 2 KIND_MEMBER_REMOVE ''m@k'', toy_record 3 KIND_MEMBER_ADD ''n@k'']"
  "row_pair ` set (peer_rows roster_three) = {(Some ''n'', Some ''k'')}"
  "nd_snapshot roster_three = None" "nd_keys roster_three = nd_keys (toy_node [])"
proof -
  let ?r = "toy_record 3 KIND_MEMBER_ADD ''n@k''"
  have step: "append_to toy_env all_locks 5 ?r roster_two =
    (Inr (), apply_member_delta toy_env True ?r (roster_two\<lparr>nd_ledger := nd_ledger roster_two @ [?r]\<rparr>))"
    by (rule toy_append) (simp_all add: toy_keys_current roster_two_eq roster_one_eq toy_deltas)
  have row: "row_pair ` set (peer_rows roster_three) = {(Some ''n'', Some ''k'')}"
    unfolding roster_three_def step
    by (simp add: apply_member_delta_def toy_deltas toy_remote roster_two_eq roster_one_eq ban_matches_def peer_rows_def add_peer_pairs)
  then show "row_pair ` set (peer_rows roster_three) = {(Some ''n'', Some ''k'')}" .
  show "nd_ledger roster_three = [toy_record 1 KIND_MEMBER_REMOVE ''m@h'', toy_record 2 KIND_MEMBER_REMOVE ''m@k'', ?r]"
    "nd_snapshot roster_three = None" "nd_keys roster_three = nd_keys (toy_node [])"
    unfolding roster_three_def step by (simp_all add: roster_two_eq roster_one_eq)
qed


text \<open>A second ban of a member under another address is not recorded. A member removed at one address and then
  at another has one row in \<open>peers_banned.json\<close> but two bans in the replay, so a later add at the second address
  enters \<open>peers.json\<close> while the replayed roster of the same ledger does not have it.\<close>

theorem second_ban_diverges:
  "row_pair ` set (peer_rows roster_three) = {(Some ''n'', Some ''k'')} \<and> cs_roster (replay toy_env 5 roster_three) = []"
proof -
  have ok: "\<forall>r\<in>set (nd_ledger roster_three). verify_record toy_env 5 (nd_keys roster_three) r \<and> 0 < cr_seq r"
    by (simp add: roster_three_parts toy_verifies toy_keys_current toy_deltas)
  have "cs_roster (replay toy_env 5 roster_three) = cs_roster (fold fold_effect (nd_ledger roster_three) cluster_default)"
    by (rule replay_uncompacted [OF roster_three_parts(3) ok])
  also have "\<dots> = []"
    by (simp add: roster_three_parts fold_effect_roster toy_deltas fold_delta_def drop_member_def cluster_default_def)
  finally show ?thesis by (simp add: roster_three_parts)
qed

end
