(* ===== verification/Side_Effects.thy ===== *)
theory Side_Effects
  imports Susi_Strings Ordered_Map
begin

text \<open>
  \<open>crates/susi-gawd-swarm/src/side_effect_journal.rs\<close> and \<open>side_effects.rs\<close>: the journal of intents that is
  written before a tool call crosses the boundary, and what a crash leaves of it. SHA-256 is an argument.
\<close>

datatype action_class = ReadOnly | Idempotent | Reconcilable | NonRetryable

record action_outcome =
  ao_class :: action_class
  ao_uncertain :: bool
  ao_completed :: bool

definition may_retry_after_crash :: "action_class \<Rightarrow> bool" where
  "may_retry_after_crash c = (c \<in> {ReadOnly, Idempotent, Reconcilable})"

definition after_crash_retry :: "action_outcome \<Rightarrow> action_outcome" where
  "after_crash_retry prior =
     (if \<not> may_retry_after_crash (ao_class prior)
      then \<lparr>ao_class = ao_class prior, ao_uncertain = True, ao_completed = False\<rparr>
      else \<lparr>ao_class = ao_class prior, ao_uncertain = (ao_class prior = Reconcilable \<and> \<not> ao_completed prior), ao_completed = True\<rparr>)"

definition classify_tool_action :: "string \<Rightarrow> action_class" where
  "classify_tool_action tool =
     (if tool \<in> {''read_file'', ''list_dir'', ''search'', ''grep''} then ReadOnly
      else if tool \<in> {''exec_command'', ''write_file'', ''apply_patch'', ''http_call'', ''peer_dispatch''} then Reconcilable
      else NonRetryable)"

definition reconcile_dispatch_side_effect :: "string \<Rightarrow> action_outcome option \<Rightarrow> action_outcome" where
  "reconcile_dispatch_side_effect tool prior =
     (case prior of
        Some p \<Rightarrow> after_crash_retry p
      | None \<Rightarrow> \<lparr>ao_class = classify_tool_action tool, ao_uncertain = False, ao_completed = False\<rparr>)"

section \<open>The journal\<close>

datatype intent_state = IPending | IExecuted | IUncertain | IReconciled

record intent =
  it_id :: string
  it_node :: string
  it_tool :: string
  it_digest :: string
  it_state :: intent_state
  it_at :: u64

record receipt =
  rc_digest :: string
  rc_at :: u64

datatype dispatch_decision =
    Dispatch string
  | AlreadyExecuted string receipt
  | ReconciliationRequired string string

record intent_journal =
  ij_entries :: "(string, intent) btree_map"
  ij_next :: u64
  ij_keys :: "(string, string) btree_map"
  ij_receipts :: "(string, receipt) btree_map"

definition journal_default :: intent_journal where
  "journal_default = \<lparr>ij_entries = [], ij_next = 0, ij_keys = [], ij_receipts = []\<rparr>"

definition hex_nibble :: "nat \<Rightarrow> char" where
  "hex_nibble n = (if n < 10 then char_of (48 + n) else char_of (87 + n))"

definition hex2 :: "char \<Rightarrow> string" where
  "hex2 b = [hex_nibble (of_char b div 16), hex_nibble (of_char b mod 16)]"

definition args_digest :: "(string \<Rightarrow> string) \<Rightarrow> string \<Rightarrow> string" where
  "args_digest sha args = concat (map hex2 (take 8 (sha args)))"

definition intent_for_key :: "intent_journal \<Rightarrow> string \<Rightarrow> string option" where
  "intent_for_key j key = map_option fst (List.find (\<lambda>(_, stored). stored = key) (ij_keys j))"

definition receipt_for :: "intent_journal \<Rightarrow> string \<Rightarrow> receipt" where
  "receipt_for j i =
     (case bt_get (ij_receipts j) i of
        Some r \<Rightarrow> r
      | None \<Rightarrow> \<lparr>rc_digest = [], rc_at = (case bt_get (ij_entries j) i of None \<Rightarrow> 0 | Some e \<Rightarrow> it_at e)\<rparr>)"

definition intent_id :: "string \<Rightarrow> u64 \<Rightarrow> string" where
  "intent_id node n = ''intent-'' @ node @ ''-'' @ show_nat (unat n)"

definition legacy_intent :: "intent_journal \<Rightarrow> string \<Rightarrow> string \<Rightarrow> string \<Rightarrow> intent \<Rightarrow> bool" where
  "legacy_intent j node tool digest e = (it_node e = node \<and> it_tool e = tool \<and> it_digest e = digest \<and> bt_get (ij_keys j) (it_id e) = None)"

definition record_intent_with_key ::
  "(string \<Rightarrow> string) \<Rightarrow> string \<Rightarrow> string \<Rightarrow> string \<Rightarrow> string \<Rightarrow> u64 \<Rightarrow> intent_journal \<Rightarrow> string \<times> intent_journal" where
  "record_intent_with_key sha node tool args key now j =
     (let digest = args_digest sha args
      in case intent_for_key j key of
           Some i \<Rightarrow> (i, j)
         | None \<Rightarrow>
             (case List.find (legacy_intent j node tool digest) (map snd (ij_entries j)) of
                Some e \<Rightarrow> (it_id e, j\<lparr>ij_keys := bt_insert (it_id e) key (ij_keys j)\<rparr>)
              | None \<Rightarrow>
                  let n = sat_add (ij_next j) 1;
                      i = intent_id node n;
                      e = \<lparr>it_id = i, it_node = node, it_tool = tool, it_digest = digest, it_state = IPending, it_at = now\<rparr>
                  in (i, j\<lparr>ij_next := n, ij_entries := bt_insert i e (ij_entries j), ij_keys := bt_insert i key (ij_keys j)\<rparr>)))"

definition default_key :: "(string \<Rightarrow> string) \<Rightarrow> string \<Rightarrow> string \<Rightarrow> string \<Rightarrow> string" where
  "default_key sha node tool args = node @ '':'' @ tool @ '':'' @ args_digest sha args"

definition record_intent :: "(string \<Rightarrow> string) \<Rightarrow> string \<Rightarrow> string \<Rightarrow> string \<Rightarrow> u64 \<Rightarrow> intent_journal \<Rightarrow> string \<times> intent_journal" where
  "record_intent sha node tool args now j = record_intent_with_key sha node tool args (default_key sha node tool args) now j"

definition set_state :: "string \<Rightarrow> intent_state \<Rightarrow> intent_journal \<Rightarrow> intent_journal" where
  "set_state i s j =
     (case bt_get (ij_entries j) i of
        None \<Rightarrow> j
      | Some e \<Rightarrow> j\<lparr>ij_entries := bt_insert i (e\<lparr>it_state := s\<rparr>) (ij_entries j)\<rparr>)"

definition known_intent :: "(string \<Rightarrow> string) \<Rightarrow> string \<Rightarrow> string \<Rightarrow> string \<Rightarrow> string \<Rightarrow> intent_journal \<Rightarrow> dispatch_decision \<times> intent_journal" where
  "known_intent sha node tool args i j =
     (case bt_get (ij_entries j) i of
        None \<Rightarrow> (ReconciliationRequired i ''idempotency index points to a missing intent'', j)
      | Some e \<Rightarrow>
          if it_node e \<noteq> node \<or> it_tool e \<noteq> tool then
            (ReconciliationRequired i ''idempotency key is already owned by another operation'', j)
          else if it_digest e \<noteq> args_digest sha args then
            (ReconciliationRequired i ''operation arguments changed after the intent was recorded'', j)
          else (case it_state e of
              IExecuted \<Rightarrow> (AlreadyExecuted (it_id e) (receipt_for j (it_id e)), j)
            | IReconciled \<Rightarrow> (Dispatch (it_id e), set_state (it_id e) IPending j)
            | _ \<Rightarrow> (ReconciliationRequired (it_id e) ''operation outcome is uncertain; reconcile it before replay'', j)))"

definition supplied_key :: "string option \<Rightarrow> string option" where
  "supplied_key key = (case key of None \<Rightarrow> None | Some k \<Rightarrow> if trim k = [] then None else Some (trim k))"

definition prepare_dispatch ::
  "(string \<Rightarrow> string) \<Rightarrow> string \<Rightarrow> string \<Rightarrow> string \<Rightarrow> string option \<Rightarrow> u64 \<Rightarrow> intent_journal \<Rightarrow> dispatch_decision \<times> intent_journal" where
  "prepare_dispatch sha node tool args key now j =
     (let supplied = supplied_key key;
          fallback = default_key sha node tool args
      in if supplied = None \<and> classify_tool_action tool \<noteq> ReadOnly then
           (case record_intent_with_key sha node tool args fallback now j of
              (i, j') \<Rightarrow> (ReconciliationRequired i ''mutating operation requires a stable idempotency key'', j'))
         else
           let k = (case supplied of None \<Rightarrow> fallback | Some s \<Rightarrow> s)
           in case intent_for_key j k of
                Some i \<Rightarrow> known_intent sha node tool args i j
              | None \<Rightarrow>
                  (case record_intent_with_key sha node tool args k now j of (i, j') \<Rightarrow> (Dispatch i, j')))"

definition put_receipt :: "(string \<Rightarrow> string) \<Rightarrow> string \<Rightarrow> string \<Rightarrow> u64 \<Rightarrow> intent_journal \<Rightarrow> intent_journal" where
  "put_receipt sha i out now j = j\<lparr>ij_receipts := bt_insert i \<lparr>rc_digest = args_digest sha out, rc_at = now\<rparr> (ij_receipts j)\<rparr>"

definition mark_executed_with_receipt :: "(string \<Rightarrow> string) \<Rightarrow> string \<Rightarrow> string \<Rightarrow> u64 \<Rightarrow> intent_journal \<Rightarrow> intent_journal" where
  "mark_executed_with_receipt sha i out now j =
     (case bt_get (ij_entries j) i of
        None \<Rightarrow> j
      | Some e \<Rightarrow>
          if it_state e \<in> {IPending, IUncertain} then put_receipt sha i out now (set_state i IExecuted j)
          else if it_state e = IExecuted then put_receipt sha i out now j
          else j)"

definition mark_executed :: "(string \<Rightarrow> string) \<Rightarrow> string \<Rightarrow> intent_journal \<Rightarrow> intent_journal" where
  "mark_executed sha i j = mark_executed_with_receipt sha i [] 0 j"

definition crash_state :: "intent \<Rightarrow> intent" where
  "crash_state e = (if it_state e = IPending then e\<lparr>it_state := IUncertain\<rparr> else e)"

definition reconcile_after_crash :: "intent_journal \<Rightarrow> string list \<times> intent_journal" where
  "reconcile_after_crash j =
     (map it_id (filter (\<lambda>e. it_state e = IPending) (map snd (ij_entries j))),
      j\<lparr>ij_entries := map (\<lambda>(i, e). (i, crash_state e)) (ij_entries j)\<rparr>)"

definition reconcile_applied :: "(string \<Rightarrow> string) \<Rightarrow> string \<Rightarrow> string \<Rightarrow> u64 \<Rightarrow> intent_journal \<Rightarrow> intent_journal" where
  "reconcile_applied sha i out now j =
     (case bt_get (ij_entries j) i of
        None \<Rightarrow> j
      | Some e \<Rightarrow> if it_state e = IUncertain then put_receipt sha i out now (set_state i IExecuted j) else j)"

definition reconcile_not_applied :: "string \<Rightarrow> intent_journal \<Rightarrow> intent_journal" where
  "reconcile_not_applied i j =
     (case bt_get (ij_entries j) i of
        None \<Rightarrow> j
      | Some e \<Rightarrow> if it_state e = IUncertain then set_state i IReconciled j else j)"

definition resolve :: "(string \<Rightarrow> string) \<Rightarrow> string \<Rightarrow> bool \<Rightarrow> intent_journal \<Rightarrow> intent_journal" where
  "resolve sha i executed j = (if executed then reconcile_applied sha i [] 0 j else reconcile_not_applied i j)"

definition blocks_replay :: "string \<Rightarrow> intent \<Rightarrow> bool" where
  "blocks_replay node e = (it_node e = node \<and> it_state e = IUncertain)"

definition may_replay_node :: "intent_journal \<Rightarrow> string \<Rightarrow> bool" where
  "may_replay_node j node = (\<not> (\<exists>e\<in>set (map snd (ij_entries j)). blocks_replay node e))"

definition unreconciled :: "intent_journal \<Rightarrow> string \<Rightarrow> string list" where
  "unreconciled j node = map it_id (filter (blocks_replay node) (map snd (ij_entries j)))"

definition journal_receipt :: "intent_journal \<Rightarrow> string \<Rightarrow> receipt option" where
  "journal_receipt j i =
     (case bt_get (ij_entries j) i of
        None \<Rightarrow> None
      | Some e \<Rightarrow> if it_state e = IExecuted then Some (receipt_for j i) else None)"

definition or_insert_all :: "('k::linorder \<times> 'v) list \<Rightarrow> ('k, 'v) btree_map \<Rightarrow> ('k, 'v) btree_map" where
  "or_insert_all kvs m = fold (\<lambda>(k, v) m. case bt_get m k of None \<Rightarrow> bt_insert k v m | Some _ \<Rightarrow> m) kvs m"

definition journal_adopt :: "intent_journal \<Rightarrow> intent_journal \<Rightarrow> intent_journal" where
  "journal_adopt persisted j =
     \<lparr>ij_entries = or_insert_all (ij_entries persisted) (ij_entries j), ij_next = max (ij_next j) (ij_next persisted),
      ij_keys = or_insert_all (ij_keys persisted) (ij_keys j), ij_receipts = or_insert_all (ij_receipts persisted) (ij_receipts j)\<rparr>"

end
