(* ===== verification/Mission_Persist.thy ===== *)
theory Mission_Persist
  imports Side_Effects Task_Lease
begin

text \<open>
  \<open>crates/susi-gawd-swarm/src/mission_persist.rs\<close> and the parts of \<open>dag.rs\<close> around it: the durable record of a mission
  (nodes, ownership, leases, intents), its transitions, snapshots and rollback, and how a DAG is saved, rebuilt and
  resumed. A file holds the record itself: the JSON text in between is left out. Whether a write succeeds is an
  argument of the operations that write; a write that fails leaves the old file.
\<close>

section \<open>The record\<close>

datatype node_terminal = NPending | NRunning | NCompleted | NFailed

fun node_terminal_name :: "node_terminal \<Rightarrow> string" where
  "node_terminal_name NPending = ''pending''"
| "node_terminal_name NRunning = ''running''"
| "node_terminal_name NCompleted = ''completed''"
| "node_terminal_name NFailed = ''failed''"

record persisted_node =
  pn_id :: string
  pn_input :: string
  pn_deps :: "string list"
  pn_output :: "string option"
  pn_state :: node_terminal

record interruption =
  in_unix :: u64
  in_nodes :: "string list"

datatype resume_verdict = RComplete | RTerminalFailed "(string \<times> string) list" | RResumable

record restore =
  rs_unix :: u64
  rs_snapshot :: string
  rs_replaced :: "string list"

record persisted_mission =
  pm_id :: string
  pm_nodes :: "(string, persisted_node) btree_map"
  pm_ownership :: ownership_epoch
  pm_coordinator :: string
  pm_leases :: lease_table
  pm_recovery :: lease_recovery
  pm_journal :: intent_journal
  pm_interruptions :: "interruption list"
  pm_restores :: "restore list"

datatype eai_error = EGovernance string | EFilesystem string

record mission_disk =
  md_missions :: "(string, persisted_mission) btree_map"
  md_snapshots :: "(string, (string, persisted_mission) btree_map) btree_map"

definition mission_new :: "string \<Rightarrow> persisted_mission" where
  "mission_new i = \<lparr>pm_id = i, pm_nodes = [], pm_ownership = Epoch 0 0, pm_coordinator = [], pm_leases = lease_default,
     pm_recovery = \<lparr>lr_generation = 0, lr_recovered_at = 0, lr_active_scopes = {}, lr_revoked_workers = {}\<rparr>,
     pm_journal = journal_default, pm_interruptions = [], pm_restores = []\<rparr>"

definition upsert_node :: "persisted_node \<Rightarrow> persisted_mission \<Rightarrow> persisted_mission" where
  "upsert_node n m = m\<lparr>pm_nodes := bt_insert (pn_id n) n (pm_nodes m)\<rparr>"

definition set_scopes :: "(string set \<Rightarrow> string set) \<Rightarrow> lease_table \<Rightarrow> lease_table" where
  "set_scopes f t = t\<lparr>lt_recovery := lt_recovery t\<lparr>lr_active_scopes := f (lr_active_scopes (lt_recovery t))\<rparr>\<rparr>"

definition with_leases :: "lease_table \<Rightarrow> persisted_mission \<Rightarrow> persisted_mission" where
  "with_leases t m = m\<lparr>pm_leases := t, pm_recovery := lt_recovery t\<rparr>"

definition mission_begin_recovery :: "string \<Rightarrow> u64 \<Rightarrow> persisted_mission \<Rightarrow> string set \<times> persisted_mission" where
  "mission_begin_recovery coordinator now m =
     (let e = next_epoch (pm_ownership m)
      in (lr_active_scopes (lt_recovery (pm_leases m)),
          (with_leases (set_scopes (\<lambda>_. {}) (begin_recovery e now (pm_leases m))) m)
            \<lparr>pm_ownership := e, pm_coordinator := coordinator, pm_journal := snd (reconcile_after_crash (pm_journal m))\<rparr>))"

definition set_active_scope :: "string \<Rightarrow> persisted_mission \<Rightarrow> persisted_mission" where
  "set_active_scope s m = with_leases (set_scopes (insert s) (pm_leases m)) m"

definition clear_active_scope :: "string \<Rightarrow> persisted_mission \<Rightarrow> persisted_mission" where
  "clear_active_scope s m = with_leases (set_scopes (\<lambda>x. x - {s}) (pm_leases m)) m"

section \<open>Nodes\<close>

definition dep_done :: "(string, persisted_node) btree_map \<Rightarrow> string \<Rightarrow> bool" where
  "dep_done ns d = (case bt_get ns d of None \<Rightarrow> False | Some n \<Rightarrow> pn_state n = NCompleted)"

definition runnable :: "persisted_mission \<Rightarrow> persisted_node list" where
  "runnable m = filter (\<lambda>n. pn_state n = NPending \<and> list_all (dep_done (pm_nodes m)) (pn_deps n)) (map snd (pm_nodes m))"

definition fold_running :: "persisted_node \<Rightarrow> persisted_node" where
  "fold_running n = (if pn_state n = NRunning then n\<lparr>pn_state := NPending\<rparr> else n)"

definition reconcile_interrupted :: "u64 \<Rightarrow> persisted_mission \<Rightarrow> string list \<times> persisted_mission" where
  "reconcile_interrupted now m =
     (let interrupted = map pn_id (filter (\<lambda>n. pn_state n = NRunning) (map snd (pm_nodes m)))
      in if interrupted = [] then ([], m)
         else (interrupted, m\<lparr>pm_nodes := map (\<lambda>(i, n). (i, fold_running n)) (pm_nodes m),
                 pm_interruptions := pm_interruptions m @ [\<lparr>in_unix = now, in_nodes = interrupted\<rparr>]\<rparr>))"

definition resume_verdict_of :: "persisted_mission \<Rightarrow> resume_verdict" where
  "resume_verdict_of m =
     (let ns = map snd (pm_nodes m);
          failed = map (\<lambda>n. (pn_id n, case pn_output n of None \<Rightarrow> ''(no output)'' | Some out \<Rightarrow> out)) (filter (\<lambda>n. pn_state n = NFailed) ns)
      in if ns \<noteq> [] \<and> list_all (\<lambda>n. pn_state n = NCompleted) ns then RComplete
         else if failed \<noteq> [] then RTerminalFailed failed
         else RResumable)"

definition set_node :: "string \<Rightarrow> (persisted_node \<Rightarrow> persisted_node) \<Rightarrow> persisted_mission \<Rightarrow> persisted_mission" where
  "set_node i f m =
     (case bt_get (pm_nodes m) i of None \<Rightarrow> m | Some n \<Rightarrow> m\<lparr>pm_nodes := bt_insert i (f n) (pm_nodes m)\<rparr>)"

definition mission_dispatch :: "string \<Rightarrow> persisted_mission \<Rightarrow> eai_error + persisted_mission" where
  "mission_dispatch i m =
     (case bt_get (pm_nodes m) i of
        None \<Rightarrow> Inl (EGovernance (''unknown node '' @ i))
      | Some n \<Rightarrow>
          if pn_state n \<noteq> NPending then Inl (EGovernance (''refuse dispatch of non-pending node '' @ i))
          else if \<not> list_all (dep_done (pm_nodes m)) (pn_deps n) then Inl (EGovernance (''deps incomplete for '' @ i))
          else Inr (set_node i (pn_state_update (\<lambda>_. NRunning)) m))"

definition mission_complete :: "string \<Rightarrow> string \<Rightarrow> persisted_mission \<Rightarrow> eai_error + persisted_mission" where
  "mission_complete i out m =
     (case bt_get (pm_nodes m) i of
        None \<Rightarrow> Inl (EGovernance (''unknown node '' @ i))
      | Some n \<Rightarrow>
          if pn_state n \<noteq> NRunning then Inl (EGovernance (''refuse complete of non-running node '' @ i))
          else Inr (set_node i (\<lambda>n. n\<lparr>pn_output := Some out, pn_state := NCompleted\<rparr>) m))"

section \<open>Files\<close>

definition mission_file :: "string \<Rightarrow> string" where
  "mission_file i = i @ ''.json''"

definition mission_save :: "bool \<Rightarrow> persisted_mission \<Rightarrow> mission_disk \<Rightarrow> eai_error + mission_disk" where
  "mission_save ok m d =
     (if ok then Inr (d\<lparr>md_missions := bt_insert (mission_file (pm_id m)) m (md_missions d)\<rparr>)
      else Inl (EFilesystem (''write '' @ mission_file (pm_id m))))"

definition load_record :: "persisted_mission \<Rightarrow> persisted_mission" where
  "load_record m =
     (with_leases (set_scopes (\<lambda>s. s \<union> lr_active_scopes (pm_recovery m)) (pm_leases m)) m)
       \<lparr>pm_ownership := max (pm_ownership m) (lt_epoch (pm_leases m))\<rparr>"

definition mission_load :: "string \<Rightarrow> persisted_mission option \<Rightarrow> eai_error + persisted_mission" where
  "mission_load path f = (case f of None \<Rightarrow> Inl (EFilesystem (''read '' @ path)) | Some m \<Rightarrow> Inr (load_record m))"

definition load_or_new :: "string \<Rightarrow> mission_disk \<Rightarrow> eai_error + persisted_mission" where
  "load_or_new i d =
     (case bt_get (md_missions d) (mission_file i) of
        None \<Rightarrow> Inr (mission_new i)
      | Some m \<Rightarrow> mission_load (mission_file i) (Some m))"

definition transaction ::
  "bool \<Rightarrow> (persisted_mission \<Rightarrow> eai_error + persisted_mission) \<Rightarrow> persisted_mission \<Rightarrow> mission_disk
    \<Rightarrow> (eai_error + unit) \<times> persisted_mission \<times> mission_disk" where
  "transaction ok update m d =
     (case update m of
        Inl e \<Rightarrow> (Inl e, m, d)
      | Inr c \<Rightarrow> (case mission_save ok c d of Inl e \<Rightarrow> (Inl e, m, d) | Inr d' \<Rightarrow> (Inr (), c, d')))"

definition begin_recovery_atomic ::
  "bool \<Rightarrow> string \<Rightarrow> u64 \<Rightarrow> persisted_mission \<Rightarrow> mission_disk \<Rightarrow> (eai_error + string set) \<times> persisted_mission \<times> mission_disk" where
  "begin_recovery_atomic ok coordinator now m d =
     (case mission_begin_recovery coordinator now m of (scopes, c) \<Rightarrow>
        case mission_save ok c d of Inl e \<Rightarrow> (Inl e, m, d) | Inr d' \<Rightarrow> (Inr scopes, c, d'))"

definition renew_mission_lease ::
  "bool \<Rightarrow> string \<Rightarrow> string \<Rightarrow> authority_token \<Rightarrow> u64 \<Rightarrow> u64 \<Rightarrow> persisted_mission \<Rightarrow> mission_disk
    \<Rightarrow> (eai_error + complete_verdict) \<times> persisted_mission \<times> mission_disk" where
  "renew_mission_lease ok task owner token now ttl m d =
     (case lease_renew task owner token now ttl (pm_leases m) of (v, t) \<Rightarrow>
        if v \<noteq> LeaseAccepted then (Inr v, m, d)
        else case mission_save ok (with_leases t m) d of Inl e \<Rightarrow> (Inl e, m, d) | Inr d' \<Rightarrow> (Inr v, with_leases t m, d'))"

section \<open>Snapshots\<close>

definition snapshots_of :: "mission_disk \<Rightarrow> string \<Rightarrow> (string, persisted_mission) btree_map" where
  "snapshots_of d i = (case bt_get (md_snapshots d) i of None \<Rightarrow> [] | Some s \<Rightarrow> s)"

definition safe_label :: "string \<Rightarrow> string" where
  "safe_label label = concat (map (\<lambda>c. if is_ascii_alphanumeric c \<or> c = CHR ''-'' \<or> c = CHR ''_'' then [c]
     else if 128 \<le> (of_char c :: nat) \<and> (of_char c :: nat) < 192 then [] else ''-'') label)"

definition pad20 :: "nat \<Rightarrow> string" where
  "pad20 n = replicate (20 - length (show_nat n)) (CHR ''0'') @ show_nat n"

definition snapshot_name :: "u64 \<Rightarrow> string \<Rightarrow> string" where
  "snapshot_name now label = pad20 (unat now) @ ''-'' @ safe_label label @ ''.json''"

definition list_snapshots :: "mission_disk \<Rightarrow> string \<Rightarrow> string list" where
  "list_snapshots d i = filter (suffix ''.json'') (map fst (snapshots_of d i))"

definition latest_snapshot :: "mission_disk \<Rightarrow> string \<Rightarrow> string option" where
  "latest_snapshot d i = (let names = list_snapshots d i in if names = [] then None else Some (last names))"

definition prune_snapshots :: "nat \<Rightarrow> string \<Rightarrow> mission_disk \<Rightarrow> mission_disk" where
  "prune_snapshots keep_last i d =
     (let names = list_snapshots d i
      in if length names \<le> keep_last then d
         else d\<lparr>md_snapshots := bt_insert i (fold bt_remove (take (length names - keep_last) names) (snapshots_of d i)) (md_snapshots d)\<rparr>)"

definition mission_snapshot ::
  "bool \<Rightarrow> string \<Rightarrow> nat \<Rightarrow> u64 \<Rightarrow> persisted_mission \<Rightarrow> mission_disk \<Rightarrow> (eai_error + string) \<times> mission_disk" where
  "mission_snapshot ok label keep_last now m d =
     (let name = snapshot_name now label
      in if \<not> ok then (Inl (EFilesystem (''write '' @ name)), d)
         else (Inr name, prune_snapshots keep_last (pm_id m)
                 (d\<lparr>md_snapshots := bt_insert (pm_id m) (bt_insert name m (snapshots_of d (pm_id m))) (md_snapshots d)\<rparr>)))"

definition replaced_states :: "mission_disk \<Rightarrow> string \<Rightarrow> string list" where
  "replaced_states d i =
     (case bt_get (md_missions d) (mission_file i) of
        None \<Rightarrow> [''(no current record)'']
      | Some m \<Rightarrow> map (\<lambda>n. pn_id n @ '':'' @ node_terminal_name (pn_state n)) (map snd (pm_nodes (load_record m))))"

definition rollback ::
  "bool \<Rightarrow> string \<Rightarrow> string option \<Rightarrow> u64 \<Rightarrow> mission_disk \<Rightarrow> (eai_error + persisted_mission) \<times> mission_disk" where
  "rollback ok i snap now d =
     (case (case snap of Some n \<Rightarrow> Some n | None \<Rightarrow> latest_snapshot d i) of
        None \<Rightarrow> (Inl (EGovernance (''no snapshot to roll mission '' @ i @ '' back to'')), d)
      | Some name \<Rightarrow>
          if CHR ''/'' \<in> set name \<or> sublist ''..'' name then (Inl (EGovernance (''bad snapshot name '' @ name)), d)
          else (case bt_get (snapshots_of d i) name of
              None \<Rightarrow> (Inl (EFilesystem (''load snapshot '' @ name)), d)
            | Some s \<Rightarrow>
                let r = load_record s;
                    r' = r\<lparr>pm_id := i, pm_restores := pm_restores r @ [\<lparr>rs_unix = now, rs_snapshot = name, rs_replaced = replaced_states d i\<rparr>]\<rparr>
                in case mission_save ok r' d of
                     Inl e \<Rightarrow> (Inl (EFilesystem (''restore mission '' @ i)), d)
                   | Inr d' \<Rightarrow> (Inr r', d')))"

section \<open>The DAG and its record\<close>

record task_node =
  tn_id :: nat
  tn_title :: string
  tn_goal :: string
  tn_deps :: "nat list"
  tn_agent :: "string option"
  tn_completed :: bool

record mission_dag =
  dg_nodes :: "task_node list"
  dg_leases :: lease_table
  dg_ownership :: ownership_epoch
  dg_journal :: intent_journal

definition persist_id :: "nat \<Rightarrow> string" where
  "persist_id idx = ''n'' @ show_nat idx"

definition push_node :: "string \<Rightarrow> string \<Rightarrow> nat list \<Rightarrow> mission_dag \<Rightarrow> nat \<times> mission_dag" where
  "push_node title goal deps g =
     (length (dg_nodes g), g\<lparr>dg_nodes := dg_nodes g @ [\<lparr>tn_id = length (dg_nodes g), tn_title = title, tn_goal = goal, tn_deps = deps,
        tn_agent = None, tn_completed = False\<rparr>]\<rparr>)"

definition persisted_of :: "nat \<Rightarrow> task_node \<Rightarrow> persisted_node" where
  "persisted_of idx n = \<lparr>pn_id = persist_id idx, pn_input = tn_goal n, pn_deps = map persist_id (tn_deps n), pn_output = None,
     pn_state = (if tn_completed n then NCompleted else NPending)\<rparr>"

definition to_persisted :: "string \<Rightarrow> mission_dag \<Rightarrow> persisted_mission" where
  "to_persisted i g =
     fold (\<lambda>(idx, n). upsert_node (persisted_of idx n)) (List.enumerate 0 (dg_nodes g))
       ((with_leases (dg_leases g) (mission_new i))\<lparr>pm_ownership := dg_ownership g, pm_journal := dg_journal g\<rparr>)"

definition node_number :: "persisted_node \<Rightarrow> nat" where
  "node_number n =
     (case strip_prefix ''n'' (pn_id n) of
        None \<Rightarrow> 2 ^ 64 - 1
      | Some s \<Rightarrow> (case parse_u64 s of None \<Rightarrow> 2 ^ 64 - 1 | Some v \<Rightarrow> unat v))"

definition index_of :: "persisted_node list \<Rightarrow> string \<Rightarrow> nat option" where
  "index_of es i = map_of (rev (map (\<lambda>(idx, n). (pn_id n, idx)) (List.enumerate 0 es))) i"

definition task_of :: "persisted_node list \<Rightarrow> nat \<Rightarrow> persisted_node \<Rightarrow> task_node" where
  "task_of es idx n = \<lparr>tn_id = idx, tn_title = pn_id n, tn_goal = pn_input n, tn_deps = List.map_filter (index_of es) (pn_deps n),
     tn_agent = None, tn_completed = (pn_state n = NCompleted)\<rparr>"

definition from_persisted :: "persisted_mission \<Rightarrow> mission_dag" where
  "from_persisted m =
     (let es = sort_key node_number (map snd (pm_nodes m))
      in \<lparr>dg_nodes = map (\<lambda>(idx, n). task_of es idx n) (List.enumerate 0 es),
          dg_leases = lease_adopt (pm_leases m) lease_default,
          dg_ownership = pm_ownership m,
          dg_journal = snd (reconcile_after_crash (journal_adopt (pm_journal m) journal_default))\<rparr>)"

definition seed_persist :: "mission_dag \<Rightarrow> persisted_mission \<Rightarrow> persisted_mission" where
  "seed_persist g m = (if pm_nodes m \<noteq> [] then m else m\<lparr>pm_nodes := pm_nodes (to_persisted (pm_id m) g)\<rparr>)"

definition persist_node_complete ::
  "bool \<Rightarrow> nat \<Rightarrow> string \<Rightarrow> persisted_mission \<Rightarrow> mission_disk \<Rightarrow> (eai_error + unit) \<times> persisted_mission \<times> mission_disk" where
  "persist_node_complete ok idx out m d =
     transaction ok (\<lambda>m.
       case bt_get (pm_nodes m) (persist_id idx) of
         None \<Rightarrow> Inl (EGovernance (''persist missing node '' @ persist_id idx @ '' on complete''))
       | Some _ \<Rightarrow> Inr (with_leases (pm_leases m) (set_node (persist_id idx) (\<lambda>n. n\<lparr>pn_output := Some out, pn_state := NCompleted\<rparr>) m))) m d"

definition resume_update :: "string \<Rightarrow> u64 \<Rightarrow> persisted_mission \<Rightarrow> persisted_mission" where
  "resume_update coordinator now m =
     (let e = next_epoch (pm_ownership m);
          m1 = (with_leases (set_scopes (\<lambda>_. {}) (begin_recovery e now (pm_leases m))) m)\<lparr>pm_ownership := e, pm_coordinator := coordinator\<rparr>;
          m2 = snd (reconcile_interrupted now m1)
      in m2\<lparr>pm_journal := snd (reconcile_after_crash (pm_journal m2))\<rparr>)"

definition failed_report :: "persisted_mission \<Rightarrow> mission_disk \<Rightarrow> (string \<times> string) list \<Rightarrow> eai_error" where
  "failed_report m d failed =
     EGovernance (''DAG_EXECUTION_FAILED: mission '' @ pm_id m @ '' resumed with recorded failure at ''
       @ join ''; '' (map (\<lambda>(i, out). i @ '': '' @ out) failed)
       @ (case latest_snapshot d (pm_id m) of Some name \<Rightarrow> ''; snapshot '' @ name @ '' available for rollback'' | None \<Rightarrow> []))"

text \<open>The start of \<open>execute_dag_persisted_with_backends\<close>, up to the hand-over of the leases to the DAG. The result is the
  DAG that \<open>execute_dag_inner\<close> runs, the record and the files.\<close>

definition resume_persisted ::
  "bool \<Rightarrow> bool \<Rightarrow> string \<Rightarrow> u64 \<Rightarrow> mission_dag \<Rightarrow> persisted_mission \<Rightarrow> mission_disk
    \<Rightarrow> (eai_error + mission_dag) \<times> persisted_mission \<times> mission_disk" where
  "resume_persisted snap_ok ok coordinator now g m0 d =
     (let m = seed_persist g m0
      in case resume_verdict_of m of
           RTerminalFailed failed \<Rightarrow> (Inl (failed_report m d failed), m, d)
         | _ \<Rightarrow>
             let d1 = (if pm_nodes m0 = [] then d
                       else snd (mission_snapshot snap_ok (''pre-resume-'' @ show_nat (unat (ep_mission (pm_ownership m)))) 8 now m d))
             in case transaction ok (\<lambda>m. Inr (resume_update coordinator now m)) m d1 of
                  (Inl e, m', d') \<Rightarrow> (Inl e, m', d')
                | (Inr _, m', d') \<Rightarrow> (Inr (g\<lparr>dg_ownership := pm_ownership m', dg_leases := pm_leases m'\<rparr>), m', d'))"

definition dag_lease_dispatch :: "nat \<Rightarrow> string \<Rightarrow> u64 \<Rightarrow> u64 \<Rightarrow> mission_dag \<Rightarrow> task_lease \<times> mission_dag" where
  "dag_lease_dispatch idx owner now ttl g =
     (case dispatch_in_epoch (persist_id idx) owner now ttl (dg_ownership g) (dg_leases g) of (l, t) \<Rightarrow> (l, g\<lparr>dg_leases := t\<rparr>))"

definition dag_lease_complete :: "nat \<Rightarrow> string \<Rightarrow> u64 \<Rightarrow> u64 \<Rightarrow> mission_dag \<Rightarrow> complete_verdict \<times> mission_dag" where
  "dag_lease_complete idx owner fence now g =
     (case lease_complete (persist_id idx) owner fence now (dg_leases g) of (v, t) \<Rightarrow>
        (v, if v = LeaseAccepted \<and> idx < length (dg_nodes g)
            then g\<lparr>dg_leases := t, dg_nodes := (dg_nodes g)[idx := (dg_nodes g ! idx)\<lparr>tn_completed := True\<rparr>]\<rparr>
            else g\<lparr>dg_leases := t\<rparr>))"

definition may_retry_node :: "(string \<rightharpoonup> action_outcome) \<Rightarrow> nat \<Rightarrow> mission_dag \<Rightarrow> bool" where
  "may_retry_node side_effects idx g \<longleftrightarrow>
     may_replay_node (dg_journal g) (persist_id idx)
   \<and> (case side_effects (persist_id idx) of None \<Rightarrow> True | Some o' \<Rightarrow> may_retry_after_crash (ao_class o'))"

end
