(* ===== verification/Side_Effects_Run.thy ===== *)
theory Side_Effects_Run
  imports Side_Effects
begin

text \<open>
  The journal against the world. A dispatched call is in flight until its effect happens or a crash ends it; an
  effect that happened can be acknowledged at any later time, also after a restart. Reconciliation reports what is
  true of the world. The invariant gives that no operation takes effect twice.
\<close>

section \<open>Identifiers\<close>

lemma show_nat_inj: "show_nat m = show_nat n \<Longrightarrow> m = n"
  using show_nat_props [of m] show_nat_props [of n] by metis

lemma show_nat_no_dash: "CHR ''-'' \<notin> set (show_nat n)"
proof
  assume "CHR ''-'' \<in> set (show_nat n)"
  then have "is_ascii_digit CHR ''-''" using show_nat_props [of n] by (auto simp: list_all_iff)
  then show False by (simp add: is_ascii_digit_def)
qed

lemma append_last_sep:
  assumes "a @ c # x = b @ c # y" and "c \<notin> set x" and "c \<notin> set y"
  shows "x = y"
proof -
  have "takeWhile (\<lambda>z. z \<noteq> c) (rev (p @ c # q)) = rev q" if "c \<notin> set q" for p q
  proof -
    have "takeWhile (\<lambda>z. z \<noteq> c) (rev q @ c # rev p) = rev q"
      using that by (subst takeWhile_append2) auto
    then show ?thesis by simp
  qed
  then have "rev x = rev y" using assms by metis
  then show ?thesis by simp
qed

lemma intent_id_number: "intent_id a m = intent_id b n \<Longrightarrow> m = n"
proof -
  assume "intent_id a m = intent_id b n"
  then have "a @ CHR ''-'' # show_nat (unat m) = b @ CHR ''-'' # show_nat (unat n)" by (simp add: intent_id_def)
  from append_last_sep [OF this show_nat_no_dash show_nat_no_dash] have "unat m = unat n" by (rule show_nat_inj)
  then show ?thesis by (simp add: word_unat_eq_iff)
qed

section \<open>The journal's own invariant\<close>

definition state_of :: "intent_journal \<Rightarrow> string \<Rightarrow> intent_state option" where
  "state_of j i = map_option it_state (bt_get (ij_entries j) i)"

definition journal_inv :: "intent_journal \<Rightarrow> bool" where
  "journal_inv j \<longleftrightarrow>
     bt_inv (ij_entries j) \<and> bt_inv (ij_keys j) \<and> bt_inv (ij_receipts j)
   \<and> (\<forall>i e. bt_get (ij_entries j) i = Some e \<longrightarrow> it_id e = i \<and> (\<exists>node n. i = intent_id node n \<and> n \<le> ij_next j))
   \<and> (\<forall>i. bt_get (ij_keys j) i = None \<longleftrightarrow> bt_get (ij_entries j) i = None)
   \<and> (\<forall>i i' k. bt_get (ij_keys j) i = Some k \<and> bt_get (ij_keys j) i' = Some k \<longrightarrow> i = i')"

lemma journal_invD:
  assumes "journal_inv j"
  shows "bt_inv (ij_entries j)" "bt_inv (ij_keys j)" "bt_inv (ij_receipts j)"
    "bt_get (ij_entries j) i = Some e \<Longrightarrow> it_id e = i"
    "bt_get (ij_entries j) i = Some e \<Longrightarrow> \<exists>node n. i = intent_id node n \<and> n \<le> ij_next j"
    "bt_get (ij_keys j) i = None \<longleftrightarrow> bt_get (ij_entries j) i = None"
    "bt_get (ij_keys j) i = Some k \<Longrightarrow> bt_get (ij_keys j) i' = Some k \<Longrightarrow> i = i'"
  using assms unfolding journal_inv_def by blast+

lemma journal_inv_default: "journal_inv journal_default"
  by (simp add: journal_inv_def journal_default_def btree)

lemma set_state_get:
  "bt_get (ij_entries (set_state i s j)) i' =
     (if i' = i then map_option (\<lambda>e. e\<lparr>it_state := s\<rparr>) (bt_get (ij_entries j) i) else bt_get (ij_entries j) i')"
  by (cases "bt_get (ij_entries j) i") (simp_all add: set_state_def btree)

lemma set_state_frame [simp]:
  "ij_keys (set_state i s j) = ij_keys j" "ij_next (set_state i s j) = ij_next j" "ij_receipts (set_state i s j) = ij_receipts j"
  by (simp_all add: set_state_def split: option.split)

lemma state_of_set_state:
  "state_of (set_state i s j) i' = (if i' = i \<and> state_of j i \<noteq> None then Some s else state_of j i')"
  by (cases "bt_get (ij_entries j) i") (auto simp: state_of_def set_state_get)

lemma set_state_inv: "journal_inv j \<Longrightarrow> journal_inv (set_state i s j)"
proof -
  assume inv: "journal_inv j"
  have "bt_inv (ij_entries (set_state i s j))"
    using journal_invD(1) [OF inv] by (simp add: set_state_def btree split: option.split)
  moreover have "it_id e' = i' \<and> (\<exists>node n. i' = intent_id node n \<and> n \<le> ij_next j)"
    if "bt_get (ij_entries (set_state i s j)) i' = Some e'" for i' e'
    using that journal_invD(4,5) [OF inv] by (auto simp: set_state_get split: if_splits)
  moreover have "bt_get (ij_entries (set_state i s j)) i' = None \<longleftrightarrow> bt_get (ij_entries j) i' = None" for i'
    by (simp add: set_state_get)
  ultimately show ?thesis
    using journal_invD(2,3,6,7) [OF inv] by (auto simp: journal_inv_def)
qed

lemma put_receipt_frame [simp]:
  "ij_entries (put_receipt sha i out now j) = ij_entries j" "ij_keys (put_receipt sha i out now j) = ij_keys j"
  "ij_next (put_receipt sha i out now j) = ij_next j" "state_of (put_receipt sha i out now j) = state_of j"
  by (simp_all add: put_receipt_def state_of_def fun_eq_iff)

lemma put_receipt_inv: "journal_inv j \<Longrightarrow> journal_inv (put_receipt sha i out now j)"
  by (simp add: journal_inv_def) (simp add: put_receipt_def btree)

lemma intent_for_key_Some:
  assumes "journal_inv j" and "intent_for_key j k = Some i"
  shows "bt_get (ij_keys j) i = Some k"
proof -
  obtain p where "List.find (\<lambda>(_, stored). stored = k) (ij_keys j) = Some p" "fst p = i"
    using assms(2) by (auto simp: intent_for_key_def)
  then have "(i, k) \<in> set (ij_keys j)" by (auto simp: find_Some_iff in_set_conv_nth)
  then show ?thesis by (simp add: bt_get_mem [OF journal_invD(2) [OF assms(1)]])
qed

lemma intent_for_key_None:
  assumes "journal_inv j" and "intent_for_key j k = None"
  shows "bt_get (ij_keys j) i \<noteq> Some k"
proof
  assume "bt_get (ij_keys j) i = Some k"
  then have "(i, k) \<in> set (ij_keys j)" by (simp add: bt_get_mem [OF journal_invD(2) [OF assms(1)]])
  then show False using assms(2) by (auto simp: intent_for_key_def find_None_iff)
qed

lemma no_legacy:
  assumes inv: "journal_inv j"
  shows "List.find (legacy_intent j node tool digest) (map snd (ij_entries j)) = None"
proof -
  have "\<not> legacy_intent j node tool digest e" if "(i, e) \<in> set (ij_entries j)" for i e
  proof -
    have get: "bt_get (ij_entries j) i = Some e" using that by (simp add: bt_get_mem [OF journal_invD(1) [OF inv]])
    then have "bt_get (ij_keys j) (it_id e) \<noteq> None"
      using journal_invD(4) [OF inv get] journal_invD(6) [OF inv, of i] by simp
    then show ?thesis by (simp add: legacy_intent_def)
  qed
  then show ?thesis by (force simp: find_None_iff)
qed

text \<open>Recording an operation under a key: nothing changes when the key is known, otherwise one fresh pending intent
  appears.\<close>

lemma record_known: "intent_for_key j key = Some i \<Longrightarrow> record_intent_with_key sha node tool args key now j = (i, j)"
  by (simp add: record_intent_with_key_def)

lemma record_fresh:
  assumes inv: "journal_inv j" and new: "intent_for_key j key = None" and room: "ij_next j \<noteq> - 1"
    and rec: "record_intent_with_key sha node tool args key now j = (i, j')"
  shows "journal_inv j'" "bt_get (ij_entries j) i = None" "state_of j' i = Some IPending"
    "\<And>i'. i' \<noteq> i \<Longrightarrow> state_of j' i' = state_of j i'"
    "\<And>i'. bt_get (ij_keys j') i' = (if i' = i then Some key else bt_get (ij_keys j) i')"
proof -
  let ?n = "ij_next j + 1"
  have u: "unat ?n = unat (ij_next j) + 1" by (rule unat_Suc_word [OF room])
  then have lt: "ij_next j < ?n" by (simp add: word_less_nat_alt)
  have n: "sat_add (ij_next j) 1 = ?n"
    using u unat_less_pow [of ?n] by (intro word_unat_eq_iff [THEN iffD2]) (simp add: unats)
  have i: "i = intent_id node ?n" and j': "j' = j\<lparr>ij_next := ?n,
      ij_entries := bt_insert i \<lparr>it_id = i, it_node = node, it_tool = tool, it_digest = args_digest sha args, it_state = IPending, it_at = now\<rparr> (ij_entries j),
      ij_keys := bt_insert i key (ij_keys j)\<rparr>"
    using rec by (auto simp: record_intent_with_key_def new no_legacy [OF inv] Let_def n)
  show fresh: "bt_get (ij_entries j) i = None"
  proof (rule ccontr)
    assume "bt_get (ij_entries j) i \<noteq> None"
    then obtain e where "bt_get (ij_entries j) i = Some e" by auto
    from journal_invD(5) [OF inv this] obtain node' m where "i = intent_id node' m" "m \<le> ij_next j" by auto
    with i lt show False using intent_id_number by (metis not_less)
  qed
  have old: "\<exists>node n. x = intent_id node n \<and> n \<le> ?n" if "bt_get (ij_entries j) x = Some e" for x e
  proof -
    from journal_invD(5) [OF inv that] obtain node' m where "x = intent_id node' m" "m \<le> ij_next j" by auto
    moreover from this(2) lt have "m \<le> ?n" by (rule order.strict_trans1 [THEN order.strict_implies_order])
    ultimately show ?thesis by blast
  qed
  have mine: "\<exists>node' n. i = intent_id node' n \<and> n \<le> ?n" using i by blast
  have key: "bt_get (ij_keys j) x \<noteq> Some key" for x by (rule intent_for_key_None [OF inv new])
  show "journal_inv j'"
    unfolding journal_inv_def j'
    using journal_invD(1-4,6,7) [OF inv] old mine key by (auto simp: btree split: if_splits)
  show "state_of j' i = Some IPending" by (simp add: state_of_def j' btree)
  show "\<And>i'. i' \<noteq> i \<Longrightarrow> state_of j' i' = state_of j i'" by (simp add: state_of_def j' btree)
  show "\<And>i'. bt_get (ij_keys j') i' = (if i' = i then Some key else bt_get (ij_keys j) i')" by (simp add: j' btree)
qed

section \<open>What a request to dispatch can do\<close>

definition operation_key :: "(string \<Rightarrow> string) \<Rightarrow> string \<Rightarrow> string \<Rightarrow> string \<Rightarrow> string option \<Rightarrow> string" where
  "operation_key sha node tool args key = (case supplied_key key of None \<Rightarrow> default_key sha node tool args | Some k \<Rightarrow> k)"

lemma state_of_Some: "state_of j i = Some s \<longleftrightarrow> (\<exists>e. bt_get (ij_entries j) i = Some e \<and> it_state e = s)"
  by (auto simp: state_of_def)

lemma state_of_None: "state_of j i = None \<longleftrightarrow> bt_get (ij_entries j) i = None"
  by (simp add: state_of_def)

lemma known_cases:
  assumes "journal_inv j" and "known_intent sha node tool args i j = (d, j')"
  obtains (parked) "j' = j" "\<And>x. d \<noteq> Dispatch x"
    | (again) "d = Dispatch i" "j' = set_state i IPending j" "state_of j i = Some IReconciled"
  using assms journal_invD(4) [OF assms(1)]
  by (auto simp: known_intent_def state_of_Some split: option.splits if_splits intent_state.splits)

lemma prepare_cases:
  assumes inv: "journal_inv j" and prep: "prepare_dispatch sha node tool args key now j = (d, j')"
  obtains (parked) "j' = j" "\<And>i. d \<noteq> Dispatch i"
    | (again) i where "d = Dispatch i" "j' = set_state i IPending j" "state_of j i = Some IReconciled"
        "bt_get (ij_keys j) i = Some (operation_key sha node tool args key)"
    | (fresh) i where "d = Dispatch i \<or> (\<forall>x. d \<noteq> Dispatch x)" "intent_for_key j (operation_key sha node tool args key) = None"
        "record_intent_with_key sha node tool args (operation_key sha node tool args key) now j = (i, j')"
proof (cases "supplied_key key = None \<and> classify_tool_action tool \<noteq> ReadOnly")
  case True
  then have k: "operation_key sha node tool args key = default_key sha node tool args" by (simp add: operation_key_def)
  obtain i where rec: "record_intent_with_key sha node tool args (default_key sha node tool args) now j = (i, j')"
    and d: "d = ReconciliationRequired i ''mutating operation requires a stable idempotency key''"
    using prep True by (auto simp: prepare_dispatch_def Let_def split: prod.splits)
  show thesis
  proof (cases "intent_for_key j (default_key sha node tool args)")
    case None
    with rec d k show thesis by (intro fresh) auto
  next
    case (Some i')
    with rec record_known [OF Some] have "j' = j" by simp
    with d show thesis by (intro parked) auto
  qed
next
  case False
  let ?k = "operation_key sha node tool args key"
  have run: "(case intent_for_key j ?k of Some i \<Rightarrow> known_intent sha node tool args i j
      | None \<Rightarrow> (case record_intent_with_key sha node tool args ?k now j of (i, j') \<Rightarrow> (Dispatch i, j'))) = (d, j')"
    using prep False unfolding prepare_dispatch_def operation_key_def Let_def by (auto split: option.splits)
  show thesis
  proof (cases "intent_for_key j ?k")
    case None
    obtain i j1 where rec: "record_intent_with_key sha node tool args ?k now j = (i, j1)" by (rule prod.exhaust)
    with run None have "d = Dispatch i" "j1 = j'" by simp_all
    with rec None show thesis by (intro fresh) auto
  next
    case (Some i)
    then have known: "known_intent sha node tool args i j = (d, j')" using run by simp
    show thesis
    proof (rule known_cases [OF inv known])
      assume same: "j' = j" and no: "\<And>x. d \<noteq> Dispatch x"
      show thesis by (rule parked [OF same no])
    next
      assume "d = Dispatch i" "j' = set_state i IPending j" "state_of j i = Some IReconciled"
      then show thesis using intent_for_key_Some [OF inv Some] by (rule again)
    qed
  qed
qed

section \<open>The journal and the world\<close>

text \<open>The calls in flight carry the key of the operation they were dispatched for; \<open>ew_effects\<close> lists the operations
  whose effect happened, in order.\<close>

record effect_world =
  ew_journal :: intent_journal
  ew_flight :: "(string \<times> string) set"
  ew_returned :: "string set"
  ew_effects :: "string list"

definition effect_start :: effect_world where
  "effect_start = \<lparr>ew_journal = journal_default, ew_flight = {}, ew_returned = {}, ew_effects = []\<rparr>"

definition applied :: "effect_world \<Rightarrow> string \<Rightarrow> bool" where
  "applied w i \<longleftrightarrow> (\<exists>k \<in> set (ew_effects w). bt_get (ij_keys (ew_journal w)) i = Some k)"

inductive effect_step :: "(string \<Rightarrow> string) \<Rightarrow> effect_world \<Rightarrow> effect_world \<Rightarrow> bool" for sha where
  ask: "ij_next (ew_journal w) \<noteq> - 1 \<Longrightarrow> prepare_dispatch sha node tool args key now (ew_journal w) = (d, j) \<Longrightarrow>
    effect_step sha w (w\<lparr>ew_journal := j,
      ew_flight := ew_flight w \<union> (case d of Dispatch i \<Rightarrow> {(i, operation_key sha node tool args key)} | _ \<Rightarrow> {})\<rparr>)"
| note_intent: "ij_next (ew_journal w) \<noteq> - 1 \<Longrightarrow> record_intent sha node tool args now (ew_journal w) = (i, j) \<Longrightarrow>
    effect_step sha w (w\<lparr>ew_journal := j\<rparr>)"
| happen: "(i, k) \<in> ew_flight w \<Longrightarrow>
    effect_step sha w (w\<lparr>ew_flight := ew_flight w - {(i, k)}, ew_returned := insert i (ew_returned w), ew_effects := ew_effects w @ [k]\<rparr>)"
| ack: "i \<in> ew_returned w \<Longrightarrow>
    effect_step sha w (w\<lparr>ew_journal := mark_executed_with_receipt sha i out now (ew_journal w)\<rparr>)"
| crash:
    "effect_step sha w (w\<lparr>ew_journal := snd (reconcile_after_crash (journal_adopt (ew_journal w) journal_default)), ew_flight := {}\<rparr>)"
| was_applied: "applied w i \<Longrightarrow>
    effect_step sha w (w\<lparr>ew_journal := reconcile_applied sha i out now (ew_journal w)\<rparr>)"
| was_not: "\<not> applied w i \<Longrightarrow>
    effect_step sha w (w\<lparr>ew_journal := reconcile_not_applied i (ew_journal w)\<rparr>)"

definition effect_inv :: "effect_world \<Rightarrow> bool" where
  "effect_inv w \<longleftrightarrow> journal_inv (ew_journal w) \<and> distinct (ew_effects w)
   \<and> (\<forall>i k. (i, k) \<in> ew_flight w \<longrightarrow>
        bt_get (ij_keys (ew_journal w)) i = Some k \<and> state_of (ew_journal w) i = Some IPending \<and> k \<notin> set (ew_effects w))
   \<and> (\<forall>k \<in> set (ew_effects w). \<exists>i. bt_get (ij_keys (ew_journal w)) i = Some k)
   \<and> (\<forall>i \<in> ew_returned w. applied w i)
   \<and> (\<forall>i. state_of (ew_journal w) i = Some IExecuted \<longrightarrow> applied w i)
   \<and> (\<forall>i. state_of (ew_journal w) i = Some IReconciled \<longrightarrow> \<not> applied w i)"

lemma effect_invD:
  assumes "effect_inv w"
  shows "journal_inv (ew_journal w)" "distinct (ew_effects w)"
    "(i, k) \<in> ew_flight w \<Longrightarrow> bt_get (ij_keys (ew_journal w)) i = Some k"
    "(i, k) \<in> ew_flight w \<Longrightarrow> state_of (ew_journal w) i = Some IPending"
    "(i, k) \<in> ew_flight w \<Longrightarrow> k \<notin> set (ew_effects w)"
    "k \<in> set (ew_effects w) \<Longrightarrow> \<exists>i. bt_get (ij_keys (ew_journal w)) i = Some k"
    "i \<in> ew_returned w \<Longrightarrow> applied w i"
    "state_of (ew_journal w) i = Some IExecuted \<Longrightarrow> applied w i"
    "state_of (ew_journal w) i = Some IReconciled \<Longrightarrow> \<not> applied w i"
  using assms unfolding effect_inv_def by blast+

lemma effect_start_inv: "effect_inv effect_start"
  by (simp add: effect_inv_def effect_start_def journal_inv_default applied_def) (simp add: state_of_def journal_default_def btree)

lemma applied_upd [simp]:
  "applied (w\<lparr>ew_flight := F\<rparr>) i = applied w i" "applied (w\<lparr>ew_returned := R\<rparr>) i = applied w i"
  by (simp_all add: applied_def)

lemma applied_journal: "ij_keys j = ij_keys (ew_journal w) \<Longrightarrow> applied (w\<lparr>ew_journal := j\<rparr>) i = applied w i"
  by (simp add: applied_def)

lemma not_in_flight: "effect_inv w \<Longrightarrow> applied w i \<Longrightarrow> (i, k) \<notin> ew_flight w"
  unfolding applied_def by (metis effect_invD(3,5) option.sel)

text \<open>Replacing the state of one intent keeps the invariant when the new state is true of the world.\<close>

lemma set_state_world:
  assumes inv: "effect_inv w" and ex: "s = IExecuted \<Longrightarrow> applied w i" and re: "s = IReconciled \<Longrightarrow> \<not> applied w i"
    and fl: "\<And>k. (i, k) \<in> ew_flight w \<Longrightarrow> s = IPending"
  shows "effect_inv (w\<lparr>ew_journal := set_state i s (ew_journal w)\<rparr>)"
proof -
  note D = effect_invD [OF inv]
  have "state_of (set_state i s (ew_journal w)) x = Some IPending" if "(x, k) \<in> ew_flight w" for x k
    using D(4) [OF that] fl that by (auto simp: state_of_set_state)
  moreover have "applied w x" if "state_of (set_state i s (ew_journal w)) x = Some IExecuted" for x
    using that ex D(8) by (auto simp: state_of_set_state split: if_splits)
  moreover have "\<not> applied w x" if "state_of (set_state i s (ew_journal w)) x = Some IReconciled" for x
    using that re D(9) by (auto simp: state_of_set_state split: if_splits)
  ultimately show ?thesis
    using D(1-3,5-7) by (auto simp: effect_inv_def applied_journal set_state_inv)
qed

lemma put_receipt_world:
  "effect_inv (w\<lparr>ew_journal := j\<rparr>) \<Longrightarrow> effect_inv (w\<lparr>ew_journal := put_receipt sha i out now j\<rparr>)"
  by (auto simp: effect_inv_def put_receipt_inv applied_def)

lemma bt_get_Cons: "bt_get ((a, v) # m) k = (if k = a then Some v else bt_get m k)"
  by (simp add: bt_get_def)

lemma get_or_insert_all:
  "bt_get (or_insert_all kvs m) k = (case bt_get m k of Some v \<Rightarrow> Some v | None \<Rightarrow> bt_get kvs k)"
proof (induction kvs arbitrary: m)
  case (Cons kv kvs)
  obtain a v where kv: "kv = (a, v)" by (cases kv)
  have "or_insert_all (kv # kvs) m = or_insert_all kvs (case bt_get m a of None \<Rightarrow> bt_insert a v m | Some _ \<Rightarrow> m)"
    by (simp add: or_insert_all_def kv)
  with Cons.IH show ?case
    by (auto simp: kv btree bt_get_Cons split: option.splits)
qed (simp add: or_insert_all_def btree split: option.split)

lemma or_insert_all_inv: "bt_inv m \<Longrightarrow> bt_inv (or_insert_all kvs m)"
  by (induction kvs arbitrary: m) (auto simp: or_insert_all_def btree split: option.split)

lemma or_insert_nil: "bt_inv m \<Longrightarrow> or_insert_all m [] = m"
  by (rule bt_ext) (simp_all add: or_insert_all_inv get_or_insert_all btree)

text \<open>A restart that adopts the persisted journal into an empty one has exactly the persisted journal.\<close>

lemma journal_adopt_default: "journal_inv j \<Longrightarrow> journal_adopt j journal_default = j"
proof -
  assume inv: "journal_inv j"
  show ?thesis
    using journal_invD(1-3) [OF inv] by (simp add: journal_adopt_def journal_default_def or_insert_nil)
qed

lemma crash_journal:
  assumes inv: "journal_inv j"
  shows "journal_inv (snd (reconcile_after_crash j))" "ij_keys (snd (reconcile_after_crash j)) = ij_keys j"
    "state_of (snd (reconcile_after_crash j)) i = map_option (\<lambda>s. if s = IPending then IUncertain else s) (state_of j i)"
proof -
  have id: "it_id (crash_state e) = it_id e" for e by (simp add: crash_state_def)
  have "bt_inv (map (\<lambda>(i, e). (i, crash_state e)) (ij_entries j))"
    using journal_invD(1) [OF inv] by (simp only: bt_inv_map)
  with inv id show "journal_inv (snd (reconcile_after_crash j))"
    unfolding journal_inv_def reconcile_after_crash_def by (auto simp: bt_get_map)
  show "ij_keys (snd (reconcile_after_crash j)) = ij_keys j" by (simp add: reconcile_after_crash_def)
  show "state_of (snd (reconcile_after_crash j)) i = map_option (\<lambda>s. if s = IPending then IUncertain else s) (state_of j i)"
    by (cases "bt_get (ij_entries j) i") (simp_all add: state_of_def reconcile_after_crash_def bt_get_map crash_state_def)
qed

section \<open>Every step keeps the invariant\<close>

lemma ask_world:
  assumes inv: "effect_inv w" and room: "ij_next (ew_journal w) \<noteq> - 1"
    and rec: "record_intent_with_key sha node tool args k now (ew_journal w) = (i, j)"
    and F: "F = {} \<or> intent_for_key (ew_journal w) k = None \<and> F = {(i, k)}"
  shows "effect_inv (w\<lparr>ew_journal := j, ew_flight := ew_flight w \<union> F\<rparr>)"
proof (cases "intent_for_key (ew_journal w) k")
  case None
  note D = effect_invD [OF inv]
  note R = record_fresh [OF D(1) None room rec]
  have key: "bt_get (ij_keys (ew_journal w)) x \<noteq> Some k" for x by (rule intent_for_key_None [OF D(1) None])
  then have new: "k \<notin> set (ew_effects w)" using D(6) by blast
  have gone: "state_of (ew_journal w) i = None" "bt_get (ij_keys (ew_journal w)) i = None"
    using R(2) journal_invD(6) [OF D(1)] by (simp_all add: state_of_None)
  let ?w = "w\<lparr>ew_journal := j, ew_flight := ew_flight w \<union> F\<rparr>"
  have ap: "applied ?w x \<longleftrightarrow> applied w x" for x
    using new gone by (auto simp: applied_def R(5))
  have st: "state_of j x = (if x = i then Some IPending else state_of (ew_journal w) x)" for x using R(3,4) by simp
  have "bt_get (ij_keys j) x = Some k' \<and> state_of j x = Some IPending \<and> k' \<notin> set (ew_effects w)"
    if "(x, k') \<in> ew_flight w \<union> F" for x k'
    using that F new D(3-5) [of x k'] gone by (auto simp: R(5) st)
  moreover have "\<exists>x. bt_get (ij_keys j) x = Some k'" if "k' \<in> set (ew_effects w)" for k'
  proof -
    from D(6) [OF that] obtain x where "bt_get (ij_keys (ew_journal w)) x = Some k'" by auto
    then have "bt_get (ij_keys j) x = Some k'" using gone by (auto simp: R(5))
    then show ?thesis ..
  qed
  ultimately show ?thesis
    using R(1) D(2,7-9) unfolding effect_inv_def ap by (auto simp: st)
next
  case (Some x)
  with rec record_known [OF Some] F have "j = ew_journal w" "F = {}" by simp_all
  with inv show ?thesis by (cases w) simp
qed

lemma again_world:
  assumes inv: "effect_inv w" and st: "state_of (ew_journal w) i = Some IReconciled"
    and key: "bt_get (ij_keys (ew_journal w)) i = Some k"
  shows "effect_inv (w\<lparr>ew_journal := set_state i IPending (ew_journal w), ew_flight := ew_flight w \<union> {(i, k)}\<rparr>)"
proof -
  let ?w = "w\<lparr>ew_journal := set_state i IPending (ew_journal w)\<rparr>"
  have inv': "effect_inv ?w" by (rule set_state_world [OF inv]) simp_all
  have "k \<notin> set (ew_effects w)" using effect_invD(9) [OF inv st] key by (auto simp: applied_def)
  then have "effect_inv (?w\<lparr>ew_flight := ew_flight ?w \<union> {(i, k)}\<rparr>)"
    using inv' key st by (auto simp: effect_inv_def state_of_set_state applied_def)
  then show ?thesis by simp
qed

lemma happen_world:
  assumes inv: "effect_inv w" and fl: "(i, k) \<in> ew_flight w"
  shows "effect_inv (w\<lparr>ew_flight := ew_flight w - {(i, k)}, ew_returned := insert i (ew_returned w), ew_effects := ew_effects w @ [k]\<rparr>)"
    (is "effect_inv ?w")
proof -
  note D = effect_invD [OF inv]
  have other: "x = i" if "bt_get (ij_keys (ew_journal w)) x = Some k" for x
    using journal_invD(7) [OF D(1) that D(3) [OF fl]] .
  have ap: "applied ?w x \<longleftrightarrow> applied w x \<or> x = i" for x
  proof -
    have "bt_get (ij_keys (ew_journal w)) x = Some k \<longleftrightarrow> x = i" using other D(3) [OF fl] by blast
    then show ?thesis by (simp add: applied_def) blast
  qed
  have "k' \<noteq> k" if "(x, k') \<in> ew_flight w - {(i, k)}" for x k'
    using that D(3) [of x k'] other by auto
  then have fl': "\<forall>x k'. (x, k') \<in> ew_flight ?w \<longrightarrow>
      bt_get (ij_keys (ew_journal ?w)) x = Some k' \<and> state_of (ew_journal ?w) x = Some IPending \<and> k' \<notin> set (ew_effects ?w)"
    using D(3-5) by simp blast
  have keyed: "\<forall>k' \<in> set (ew_effects ?w). \<exists>x. bt_get (ij_keys (ew_journal ?w)) x = Some k'"
    using D(3) [OF fl] D(6) by auto
  have "state_of (ew_journal w) i \<noteq> Some IReconciled" using D(4) [OF fl] by simp
  then show ?thesis
    unfolding effect_inv_def ap using fl' keyed D(1,2,5,7-9) fl by (intro conjI) auto
qed

lemma crash_world:
  assumes inv: "effect_inv w"
  shows "effect_inv (w\<lparr>ew_journal := snd (reconcile_after_crash (journal_adopt (ew_journal w) journal_default)), ew_flight := {}\<rparr>)"
proof -
  note D = effect_invD [OF inv]
  note C = crash_journal [OF D(1)]
  show ?thesis
    using D(1,2,6-9) C(1)
    by (auto simp: effect_inv_def journal_adopt_default [OF D(1)] C(2,3) applied_journal split: if_splits)
qed

lemma step_inv: "effect_step sha w w' \<Longrightarrow> effect_inv w \<Longrightarrow> effect_inv w'"
proof (induction rule: effect_step.induct)
  case (ask w node tool args key now d j)
  note D = effect_invD [OF ask.prems]
  show ?case
  proof (rule prepare_cases [OF D(1) ask.hyps(2)])
    assume "j = ew_journal w" and no: "\<And>i. d \<noteq> Dispatch i"
    moreover from no have "(case d of Dispatch i \<Rightarrow> {(i, operation_key sha node tool args key)} | _ \<Rightarrow> {}) = {}"
      by (simp split: dispatch_decision.split)
    ultimately show ?thesis using ask.prems by (cases w) simp
  next
    fix i assume "d = Dispatch i" "j = set_state i IPending (ew_journal w)" "state_of (ew_journal w) i = Some IReconciled"
      "bt_get (ij_keys (ew_journal w)) i = Some (operation_key sha node tool args key)"
    then show ?thesis using again_world [OF ask.prems] by simp
  next
    fix i assume d: "d = Dispatch i \<or> (\<forall>x. d \<noteq> Dispatch x)"
      and k: "intent_for_key (ew_journal w) (operation_key sha node tool args key) = None"
      and rec: "record_intent_with_key sha node tool args (operation_key sha node tool args key) now (ew_journal w) = (i, j)"
    have F: "(case d of Dispatch i \<Rightarrow> {(i, operation_key sha node tool args key)} | _ \<Rightarrow> {}) \<in> {{}, {(i, operation_key sha node tool args key)}}"
      using d by (auto split: dispatch_decision.split)
    show ?thesis by (rule ask_world [OF ask.prems ask.hyps(1) rec]) (use F k in auto)
  qed
next
  case (note_intent w node tool args now i j)
  have "effect_inv (w\<lparr>ew_journal := j, ew_flight := ew_flight w \<union> {}\<rparr>)"
    by (rule ask_world [OF note_intent.prems note_intent.hyps(1) note_intent.hyps(2) [unfolded record_intent_def]]) simp
  then show ?case by (cases w) simp
next
  case (happen i k w)
  then show ?case by (blast intro: happen_world)
next
  case (ack i w out now)
  have ap: "applied w i" by (rule effect_invD(7) [OF ack.prems ack.hyps])
  have "effect_inv (w\<lparr>ew_journal := set_state i IExecuted (ew_journal w)\<rparr>)"
    by (rule set_state_world [OF ack.prems]) (use ap not_in_flight [OF ack.prems ap] in auto)
  then show ?case
    using ack.prems by (auto simp: mark_executed_with_receipt_def put_receipt_world split: option.split)
next
  case (crash w)
  then show ?case by (rule crash_world)
next
  case (was_applied w i out now)
  have "effect_inv (w\<lparr>ew_journal := set_state i IExecuted (ew_journal w)\<rparr>)"
    by (rule set_state_world [OF was_applied.prems]) (use was_applied.hyps not_in_flight [OF was_applied.prems] in auto)
  then show ?case
    using was_applied.prems by (auto simp: reconcile_applied_def put_receipt_world split: option.split)
next
  case (was_not w i)
  have "effect_inv (w\<lparr>ew_journal := set_state i IReconciled (ew_journal w)\<rparr>)" if "state_of (ew_journal w) i = Some IUncertain"
    by (rule set_state_world [OF was_not.prems]) (use that was_not.hyps effect_invD(4) [OF was_not.prems] in auto)
  then show ?case
    using was_not.prems by (auto simp: reconcile_not_applied_def state_of_Some split: option.split)
qed

section \<open>The guarantee\<close>

text \<open>C8. The side-effect journal, over every interleaving of requests to dispatch, calls taking effect, late
  acknowledgements, crashes that lose the calls in flight and restart from the persisted journal, and reconciliations
  that report the truth: no operation takes effect twice (the list of operation keys whose effect happened has no
  duplicate), an intent the journal calls executed did take effect, and one it calls reconciled (and would dispatch
  again) did not.\<close>

theorem no_effect_twice:
  assumes "(effect_step sha)\<^sup>*\<^sup>* effect_start w"
  shows "distinct (ew_effects w)
    \<and> (\<forall>i. (state_of (ew_journal w) i = Some IExecuted \<longrightarrow> bt_get (ij_keys (ew_journal w)) i \<in> Some ` set (ew_effects w))
         \<and> (state_of (ew_journal w) i = Some IReconciled \<longrightarrow> bt_get (ij_keys (ew_journal w)) i \<notin> Some ` set (ew_effects w)))"
proof -
  from assms have inv: "effect_inv w"
    by (induction rule: rtranclp_induct) (auto intro: effect_start_inv step_inv)
  have "bt_get (ij_keys (ew_journal w)) i \<in> Some ` set (ew_effects w)" if "state_of (ew_journal w) i = Some IExecuted" for i
    using effect_invD(8) [OF inv that] by (auto simp: applied_def)
  moreover have "bt_get (ij_keys (ew_journal w)) i \<notin> Some ` set (ew_effects w)" if "state_of (ew_journal w) i = Some IReconciled" for i
    using effect_invD(9) [OF inv that] by (auto simp: applied_def)
  ultimately show ?thesis using effect_invD(2) [OF inv] by blast
qed

text \<open>A call that is lost in a crash, found not applied, dispatched again, takes effect and is acknowledged.\<close>

definition demo_intent :: "intent_state \<Rightarrow> intent" where
  "demo_intent s = \<lparr>it_id = ''intent-n-1'', it_node = ''n'', it_tool = ''write_file'', it_digest = [], it_state = s, it_at = 5\<rparr>"

definition demo_journal :: "intent_state \<Rightarrow> (string, receipt) btree_map \<Rightarrow> intent_journal" where
  "demo_journal s rs = \<lparr>ij_entries = [(''intent-n-1'', demo_intent s)], ij_next = 1, ij_keys = [(''intent-n-1'', ''op'')], ij_receipts = rs\<rparr>"

definition demo_world :: "intent_state \<Rightarrow> (string, receipt) btree_map \<Rightarrow> bool \<Rightarrow> bool \<Rightarrow> effect_world" where
  "demo_world s rs flying happened = \<lparr>ew_journal = demo_journal s rs, ew_flight = (if flying then {(''intent-n-1'', ''op'')} else {}),
     ew_returned = (if happened then {''intent-n-1''} else {}), ew_effects = (if happened then [''op''] else [])\<rparr>"

lemmas demo_defs = demo_world_def demo_journal_def demo_intent_def

lemma trim_op: "trim ''op'' = ''op''"
  by code_simp

lemma demo_key: "operation_key sha node tool args (Some ''op'') = ''op''"
  by (simp add: operation_key_def supplied_key_def trim_op)

lemma demo_id: "intent_id ''n'' 1 = ''intent-n-1''"
  by (simp add: intent_id_def) code_simp

lemma demo_prepare:
  "prepare_dispatch (\<lambda>_. []) ''n'' ''write_file'' ''x'' (Some ''op'') 5 journal_default = (Dispatch ''intent-n-1'', demo_journal IPending [])"
  "prepare_dispatch (\<lambda>_. []) ''n'' ''write_file'' ''x'' (Some ''op'') 6 (demo_journal IReconciled []) = (Dispatch ''intent-n-1'', demo_journal IPending [])"
  by (simp_all add: prepare_dispatch_def supplied_key_def trim_op intent_for_key_def journal_default_def demo_defs
      record_intent_with_key_def args_digest_def demo_id known_intent_def bt_get_def set_state_def Let_def sat_add_def)

lemma ask_step:
  assumes "ew_journal w = j0" and "ij_next j0 \<noteq> - 1" and "prepare_dispatch sha node tool args (Some ''op'') now j0 = (Dispatch i, j)"
    and "w' = w\<lparr>ew_journal := j, ew_flight := ew_flight w \<union> {(i, ''op'')}\<rparr>"
  shows "effect_step sha w w'"
  using effect_step.ask [of w sha node tool args "Some ''op''" now "Dispatch i" j] assms by (simp add: demo_key)

lemma demo_run: "(effect_step (\<lambda>_. []))\<^sup>*\<^sup>* effect_start (demo_world IExecuted [(''intent-n-1'', \<lparr>rc_digest = [], rc_at = 9\<rparr>)] False True)"
proof -
  let ?step = "effect_step (\<lambda>_. [])"
  have "?step effect_start (demo_world IPending [] True False)"
    by (rule ask_step [OF _ _ demo_prepare(1)]) (simp_all add: effect_start_def demo_world_def journal_default_def)
  moreover have "?step (demo_world IPending [] True False) (demo_world IUncertain [] False False)"
    using effect_step.crash [of "\<lambda>_. []" "demo_world IPending [] True False"]
    by (simp add: demo_defs reconcile_after_crash_def crash_state_def journal_adopt_def journal_default_def or_insert_all_def btree)
  moreover have "?step (demo_world IUncertain [] False False) (demo_world IReconciled [] False False)"
    using effect_step.was_not [of "demo_world IUncertain [] False False" "''intent-n-1''" "\<lambda>_. []"]
    by (simp add: demo_defs applied_def reconcile_not_applied_def set_state_def bt_get_def)
  moreover have "?step (demo_world IReconciled [] False False) (demo_world IPending [] True False)"
    by (rule ask_step [OF _ _ demo_prepare(2)]) (simp_all add: demo_defs)
  moreover have "?step (demo_world IPending [] True False) (demo_world IPending [] False True)"
    using effect_step.happen [of "''intent-n-1''" "''op''" "demo_world IPending [] True False" "\<lambda>_. []"] by (simp add: demo_defs)
  moreover have "?step (demo_world IPending [] False True) (demo_world IExecuted [(''intent-n-1'', \<lparr>rc_digest = [], rc_at = 9\<rparr>)] False True)"
    using effect_step.ack [of "''intent-n-1''" "demo_world IPending [] False True" "\<lambda>_. []" "''out''" 9]
    by (simp add: demo_defs mark_executed_with_receipt_def put_receipt_def set_state_def bt_get_def args_digest_def)
  ultimately show ?thesis by (meson r_into_rtranclp rtranclp_trans)
qed

theorem no_effect_twice_witness:
  "\<exists>w. (effect_step (\<lambda>_. []))\<^sup>*\<^sup>* effect_start w \<and> ew_effects w = [''op''] \<and> distinct (ew_effects w)
     \<and> state_of (ew_journal w) ''intent-n-1'' = Some IExecuted
     \<and> bt_get (ij_keys (ew_journal w)) ''intent-n-1'' \<in> Some ` set (ew_effects w)"
proof (intro exI conjI)
  let ?w = "demo_world IExecuted [(''intent-n-1'', \<lparr>rc_digest = [], rc_at = 9\<rparr>)] False True"
  note result = no_effect_twice [OF demo_run]
  show "(effect_step (\<lambda>_. []))\<^sup>*\<^sup>* effect_start ?w" by (rule demo_run)
  show "ew_effects ?w = [''op'']" by (simp add: demo_world_def)
  show "distinct (ew_effects ?w)" using result by blast
  show st: "state_of (ew_journal ?w) ''intent-n-1'' = Some IExecuted" by (simp add: state_of_def demo_defs bt_get_def)
  show "bt_get (ij_keys (ew_journal ?w)) ''intent-n-1'' \<in> Some ` set (ew_effects ?w)" using result st by blast
qed

text \<open>An intent of an older journal, which has no operation key, is dispatched again whatever its state: asking for
  the same call under a new key finds the old intent, gives it the key and answers that it may be dispatched, also when
  the journal says it was executed or its outcome is uncertain. The type's comment says an acknowledged operation must
  not be executed a second time.\<close>

theorem legacy_intent_redispatched:
  assumes "trim k \<noteq> []" and "intent_for_key j (trim k) = None"
    and "List.find (legacy_intent j node tool (args_digest sha args)) (map snd (ij_entries j)) = Some e"
  shows "prepare_dispatch sha node tool args (Some k) now j =
     (Dispatch (it_id e), j\<lparr>ij_keys := bt_insert (it_id e) (trim k) (ij_keys j)\<rparr>)"
  using assms by (simp add: prepare_dispatch_def supplied_key_def record_intent_with_key_def)

theorem legacy_intent_redispatched_witness:
  "\<exists>j. map_option it_state (bt_get (ij_entries j) ''intent-n-1'') = Some IExecuted
     \<and> fst (prepare_dispatch (\<lambda>_. []) ''n'' ''write_file'' ''x'' (Some ''op'') 6 j) = Dispatch ''intent-n-1''"
proof -
  let ?j = "(demo_journal IExecuted [])\<lparr>ij_keys := []\<rparr>"
  have "prepare_dispatch (\<lambda>_. []) ''n'' ''write_file'' ''x'' (Some ''op'') 6 ?j =
      (Dispatch (it_id (demo_intent IExecuted)), ?j\<lparr>ij_keys := bt_insert (it_id (demo_intent IExecuted)) (trim ''op'') (ij_keys ?j)\<rparr>)"
    by (rule legacy_intent_redispatched)
       (simp_all add: trim_op intent_for_key_def demo_defs legacy_intent_def args_digest_def bt_get_def)
  then have "fst (prepare_dispatch (\<lambda>_. []) ''n'' ''write_file'' ''x'' (Some ''op'') 6 ?j) = Dispatch ''intent-n-1''"
    by (simp add: demo_intent_def)
  moreover have "map_option it_state (bt_get (ij_entries ?j) ''intent-n-1'') = Some IExecuted" by (simp add: demo_defs bt_get_def)
  ultimately show ?thesis by blast
qed

end
