(* ===== verification/Task_Lease_Run.thy ===== *)
theory Task_Lease_Run
  imports Task_Lease
begin

text \<open>
  The lease table over time: dispatches, renewals, completions, recoveries and restarts from the persisted table, under
  a clock that does not go back. The lemma \<open>accepted_before\<close> looks one step back: a permit the table accepts after a
  step, and whose fence was issued before it, was accepted before the step too.
\<close>

section \<open>The invariant of the table\<close>

definition lease_inv :: "lease_table \<Rightarrow> bool" where
  "lease_inv t \<longleftrightarrow> bt_inv (lt_leases t) \<and> bt_inv (lt_lease_epochs t)
   \<and> (\<forall>k. bt_get (lt_lease_epochs t) k = None \<longleftrightarrow> bt_get (lt_leases t) k = None)
   \<and> (\<forall>k l. bt_get (lt_leases t) k = Some l \<longrightarrow> tl_fence l \<le> lt_next_fence t)
   \<and> (\<forall>k e. bt_get (lt_lease_epochs t) k = Some e \<longrightarrow> e \<le> lt_epoch t)"

lemma lease_invD:
  assumes "lease_inv t"
  shows "bt_inv (lt_leases t)" "bt_inv (lt_lease_epochs t)"
    "bt_get (lt_lease_epochs t) k = None \<longleftrightarrow> bt_get (lt_leases t) k = None"
    "bt_get (lt_leases t) k = Some l \<Longrightarrow> tl_fence l \<le> lt_next_fence t"
    "bt_get (lt_lease_epochs t) k = Some e \<Longrightarrow> e \<le> lt_epoch t"
  using assms unfolding lease_inv_def by blast+

lemma lease_inv_default: "lease_inv lease_default"
  by (simp add: lease_inv_def lease_default_def btree)

text \<open>What an accepted permit says of the table.\<close>

lemma check_permit_accepted:
  "check_permit t p n = LeaseAccepted \<longleftrightarrow>
     (\<exists>l. bt_get (lt_leases t) (mp_task p) = Some l \<and> at_epoch (mp_token p) = lt_epoch t
        \<and> epoch_of_lease t (mp_task p) = lt_epoch t \<and> n < tl_until l \<and> at_fence (mp_token p) = tl_fence l \<and> tl_owner l = mp_owner p)"
  by (auto simp: check_permit_def check_authority_def check_fence_def epoch_of_lease_def not_le split: option.splits)

lemma epoch_of_lease_leases [simp]: "epoch_of_lease (t\<lparr>lt_leases := m\<rparr>) k = epoch_of_lease t k"
  by (simp add: epoch_of_lease_def split: option.split)

lemma epoch_of_lease_le: "lease_inv t \<Longrightarrow> epoch_of_lease t k \<le> lt_epoch t"
  by (auto simp: epoch_of_lease_def dest: lease_invD(5) split: option.split)

lemma next_fence_less: "x \<noteq> - 1 \<Longrightarrow> x < sat_add x (1::u64)"
proof -
  assume "x \<noteq> - 1"
  then have u: "unat (x + 1) = unat x + 1" by (rule unat_Suc_word)
  then have "sat_add x 1 = x + 1"
    using unat_less_pow [of "x + 1"] by (intro word_unat_eq_iff [THEN iffD2]) (simp add: unats)
  with u show ?thesis by (simp add: word_less_nat_alt)
qed

section \<open>Restart\<close>

lemma fold_adopt_lease:
  fixes p :: lease_table
  assumes "distinct (map fst kvs)" and "\<forall>k \<in> fst ` set kvs. bt_get (lt_leases t) k = None"
    and "bt_inv (lt_leases t)" and "bt_inv (lt_lease_epochs t)"
  defines "t' \<equiv> fold (adopt_lease p) kvs t"
  shows "(\<forall>k. bt_get (lt_leases t') k = (case bt_get kvs k of Some l \<Rightarrow> Some l | None \<Rightarrow> bt_get (lt_leases t) k))
    \<and> (\<forall>k. bt_get (lt_lease_epochs t') k =
         (case bt_get kvs k of None \<Rightarrow> bt_get (lt_lease_epochs t) k
          | Some _ \<Rightarrow> (case bt_get (lt_lease_epochs p) k of None \<Rightarrow> bt_get (lt_lease_epochs t) k | Some e \<Rightarrow> Some e)))
    \<and> bt_inv (lt_leases t') \<and> bt_inv (lt_lease_epochs t')
    \<and> lt_next_fence t' = lt_next_fence t \<and> lt_epoch t' = lt_epoch t \<and> lt_recovery t' = lt_recovery t"
  using assms(1-4) unfolding t'_def
proof (induction kvs arbitrary: t)
  case (Cons kv kvs)
  obtain a l where kv: "kv = (a, l)" by (cases kv)
  let ?t = "t\<lparr>lt_leases := bt_insert a l (lt_leases t),
      lt_lease_epochs := (case bt_get (lt_lease_epochs p) a of None \<Rightarrow> lt_lease_epochs t | Some e \<Rightarrow> bt_insert a e (lt_lease_epochs t))\<rparr>"
  have step: "adopt_lease p kv t = ?t" using Cons.prems(2) by (simp add: adopt_lease_def kv)
  have "distinct (map fst kvs)" "\<forall>k\<in>fst ` set kvs. bt_get (lt_leases ?t) k = None"
    "bt_inv (lt_leases ?t)" "bt_inv (lt_lease_epochs ?t)"
    using Cons.prems by (auto simp: kv btree split: option.split)
  note IH = Cons.IH [OF this]
  have a: "bt_get kvs a = None" using Cons.prems(1) by (simp add: kv bt_get_None)
  have cons: "bt_get (kv # kvs) k = (if k = a then Some l else bt_get kvs k)" for k by (simp add: kv bt_get_def)
  show ?case using IH a by (auto simp: step cons btree split: option.splits)
qed (simp add: btree)

text \<open>A restart that adopts the persisted table into an empty one has exactly the persisted table.\<close>

lemma lease_adopt_default: "lease_inv t \<Longrightarrow> lease_adopt t lease_default = t"
proof -
  assume inv: "lease_inv t"
  define t0 where "t0 = lease_default\<lparr>lt_next_fence := lt_next_fence t, lt_epoch := lt_epoch t, lt_recovery := lt_recovery t\<rparr>"
  have "Epoch 0 0 \<le> lt_epoch t" by (auto simp: less_eq_ownership_epoch_def word_neq_0_conv [symmetric])
  then have "lease_adopt t lease_default = fold (adopt_lease t) (lt_leases t) t0"
    by (cases "lt_recovery t") (simp add: lease_adopt_def lease_default_def t0_def max_def)
  moreover define t' where "t' = fold (adopt_lease t) (lt_leases t) t0"
  moreover have t0: "lt_leases t0 = []" "lt_lease_epochs t0 = []" "lt_next_fence t0 = lt_next_fence t" "lt_epoch t0 = lt_epoch t"
    "lt_recovery t0 = lt_recovery t" by (simp_all add: t0_def lease_default_def)
  have "distinct (map fst (lt_leases t))" "\<forall>k \<in> fst ` set (lt_leases t). bt_get (lt_leases t0) k = None"
    "bt_inv (lt_leases t0)" "bt_inv (lt_lease_epochs t0)"
    by (simp_all add: bt_inv_distinct lease_invD(1) [OF inv] t0 btree)
  note F = fold_adopt_lease [OF this, of t, folded t'_def, unfolded t0]
  have "lt_leases t' = lt_leases t"
    by (rule bt_ext) (use F lease_invD(1) [OF inv] in \<open>simp_all add: btree split: option.split\<close>)
  moreover have "lt_lease_epochs t' = lt_lease_epochs t"
  proof (rule bt_ext)
    show "bt_get (lt_lease_epochs t') k = bt_get (lt_lease_epochs t) k" for k
      using F lease_invD(3) [OF inv, of k] by (auto simp: btree split: option.splits)
  qed (use F lease_invD(2) [OF inv] in simp_all)
  ultimately show ?thesis using F by (intro lease_table.equality) simp_all
qed

section \<open>Steps\<close>

inductive lease_step :: "lease_table \<times> u64 \<Rightarrow> lease_table \<times> u64 \<Rightarrow> bool" where
  tick: "n \<le> n' \<Longrightarrow> lease_step (t, n) (t, n')"
| dispatch: "lt_next_fence t \<noteq> - 1 \<Longrightarrow> lease_step (t, n) (snd (dispatch_in_epoch task owner n ttl e t), n)"
| renew: "lease_step (t, n) (snd (lease_renew task owner token n ttl t), n)"
| complete: "lease_step (t, n) (snd (lease_complete task owner fence n t), n)"
| recover: "lease_step (t, n) (begin_recovery e n t, n)"
| restart: "lease_step (t, n) (lease_adopt t lease_default, n)"

lemma renew_cases:
  obtains "snd (lease_renew task owner token n ttl t) = t"
    | l where "bt_get (lt_leases t) task = Some l" "n < tl_until l"
      "snd (lease_renew task owner token n ttl t) =
         t\<lparr>lt_leases := bt_insert task (l\<lparr>tl_until := sat_add n (max ttl 1), tl_renewed := n\<rparr>) (lt_leases t)\<rparr>"
proof (cases "check_authority t task owner token n = LeaseAccepted")
  case True
  then have "check_permit t \<lparr>mp_task = task, mp_owner = owner, mp_token = token\<rparr> n = LeaseAccepted" by (simp add: check_permit_def)
  then obtain l where "bt_get (lt_leases t) task = Some l" "n < tl_until l" unfolding check_permit_accepted by auto
  with True show thesis using that(2) by (simp add: lease_renew_def)
next
  case False
  then show thesis using that(1) by (simp add: lease_renew_def)
qed

lemma complete_cases:
  obtains "snd (lease_complete task owner fence n t) = t"
    | "snd (lease_complete task owner fence n t) =
         t\<lparr>lt_leases := bt_remove task (lt_leases t), lt_lease_epochs := bt_remove task (lt_lease_epochs t)\<rparr>"
  by (cases "check_fence t task owner fence n = LeaseAccepted") (auto simp: lease_complete_def)

text \<open>Every step keeps the invariant and moves the fence counter, the epoch and the clock forward only.\<close>

lemma lease_step_inv:
  "lease_step s s' \<Longrightarrow> lease_inv (fst s) \<Longrightarrow>
     lease_inv (fst s') \<and> lt_next_fence (fst s) \<le> lt_next_fence (fst s') \<and> lt_epoch (fst s) \<le> lt_epoch (fst s') \<and> snd s \<le> snd s'"
proof (induction rule: lease_step.induct)
  case (dispatch t n task owner ttl e)
  let ?t = "snd (dispatch_in_epoch task owner n ttl e t)"
  note D = lease_invD [OF dispatch.prems [unfolded fst_conv]]
  have lt: "lt_next_fence t < sat_add (lt_next_fence t) 1" by (rule next_fence_less [OF dispatch.hyps])
  have inv: "bt_inv (lt_leases ?t)" "bt_inv (lt_lease_epochs ?t)" "lt_next_fence t \<le> lt_next_fence ?t" "lt_epoch t \<le> lt_epoch ?t"
    using lt D(1,2) by (simp_all add: dispatch_in_epoch_def Let_def btree)
  have "tl_fence l \<le> lt_next_fence ?t" if "bt_get (lt_leases ?t) k = Some l" for k l
    using that D(4) [of k l] lt by (auto simp: dispatch_in_epoch_def Let_def btree split: if_splits)
  moreover have "e' \<le> lt_epoch ?t" if "bt_get (lt_lease_epochs ?t) k = Some e'" for k e'
    using that D(5) [of k e'] by (auto simp: dispatch_in_epoch_def Let_def btree le_max_iff_disj split: if_splits)
  moreover have "bt_get (lt_lease_epochs ?t) k = None \<longleftrightarrow> bt_get (lt_leases ?t) k = None" for k
    using D(3) [of k] by (simp add: dispatch_in_epoch_def Let_def btree)
  ultimately show ?case using inv by (simp add: lease_inv_def)
next
  case (renew t n task owner token ttl)
  then show ?case
    by (cases rule: renew_cases [of task owner token n ttl t]) (auto simp: lease_inv_def btree split: if_splits)
next
  case (complete t n task owner fence)
  then show ?case
    by (cases rule: complete_cases [of task owner fence n t]) (auto simp: lease_inv_def btree)
next
  case (recover t n e)
  then show ?case by (auto simp: lease_inv_def begin_recovery_def le_max_iff_disj)
qed (simp_all add: lease_adopt_default)

lemma accepted_before:
  assumes "lease_step s s'" and "lease_inv (fst s)" and "at_fence (mp_token p) \<le> lt_next_fence (fst s)"
    and "check_permit (fst s') p (snd s') = LeaseAccepted"
  shows "check_permit (fst s) p (snd s) = LeaseAccepted"
  using assms
proof (induction rule: lease_step.induct)
  case (tick n n' t)
  then show ?case by (auto simp: check_permit_accepted)
next
  case (dispatch t n task owner ttl e)
  have lt: "lt_next_fence t < sat_add (lt_next_fence t) 1" by (rule next_fence_less [OF dispatch.hyps])
  have "mp_task p \<noteq> task"
    using dispatch.prems(2,3) lt by (auto simp: check_permit_accepted dispatch_in_epoch_def Let_def btree)
  with dispatch.prems(3) have "\<exists>l. bt_get (lt_leases t) (mp_task p) = Some l \<and> at_epoch (mp_token p) = max (lt_epoch t) e
        \<and> epoch_of_lease (snd (dispatch_in_epoch task owner n ttl e t)) (mp_task p) = max (lt_epoch t) e
        \<and> n < tl_until l \<and> at_fence (mp_token p) = tl_fence l \<and> tl_owner l = mp_owner p"
    by (simp add: check_permit_accepted dispatch_in_epoch_def Let_def btree)
  then obtain l where l: "bt_get (lt_leases t) (mp_task p) = Some l" "at_epoch (mp_token p) = max (lt_epoch t) e"
      "epoch_of_lease (snd (dispatch_in_epoch task owner n ttl e t)) (mp_task p) = max (lt_epoch t) e"
      "n < tl_until l" "at_fence (mp_token p) = tl_fence l" "tl_owner l = mp_owner p" by blast
  have "bt_get (lt_lease_epochs t) (mp_task p) \<noteq> None" using l(1) lease_invD(3) [OF dispatch.prems(1) [unfolded fst_conv]] by simp
  then have "epoch_of_lease t (mp_task p) = max (lt_epoch t) e"
    using l(3) \<open>mp_task p \<noteq> task\<close> by (auto simp: epoch_of_lease_def dispatch_in_epoch_def Let_def btree split: option.splits)
  moreover from this have "max (lt_epoch t) e = lt_epoch t"
    using epoch_of_lease_le [OF dispatch.prems(1) [unfolded fst_conv], of "mp_task p"] by (simp add: max_def split: if_splits)
  ultimately show ?case using l by (simp add: check_permit_accepted)
next
  case (renew t n task owner token ttl)
  show ?case
  proof (rule renew_cases [of task owner token n ttl t])
    assume "snd (lease_renew task owner token n ttl t) = t"
    with renew.prems(3) show ?thesis by simp
  next
    fix l assume "bt_get (lt_leases t) task = Some l" "n < tl_until l"
      "snd (lease_renew task owner token n ttl t) =
         t\<lparr>lt_leases := bt_insert task (l\<lparr>tl_until := sat_add n (max ttl 1), tl_renewed := n\<rparr>) (lt_leases t)\<rparr>"
    with renew.prems(3) show ?thesis by (auto simp: check_permit_accepted btree split: if_splits)
  qed
next
  case (complete t n task owner fence)
  show ?case
  proof (rule complete_cases [of task owner fence n t])
    assume "snd (lease_complete task owner fence n t) = t"
    with complete.prems(3) show ?thesis by simp
  next
    assume "snd (lease_complete task owner fence n t) =
         t\<lparr>lt_leases := bt_remove task (lt_leases t), lt_lease_epochs := bt_remove task (lt_lease_epochs t)\<rparr>"
    with complete.prems(3) show ?thesis
      by (auto simp: check_permit_accepted epoch_of_lease_def btree split: if_splits option.splits)
  qed
next
  case (recover t n e)
  then obtain l where l: "bt_get (lt_leases t) (mp_task p) = Some l" "at_epoch (mp_token p) = max (lt_epoch t) e"
      "epoch_of_lease (begin_recovery e n t) (mp_task p) = max (lt_epoch t) e"
      "n < tl_until l" "at_fence (mp_token p) = tl_fence l" "tl_owner l = mp_owner p"
    by (auto simp: check_permit_accepted begin_recovery_def)
  have "bt_get (lt_lease_epochs t) (mp_task p) \<noteq> None" using l(1) lease_invD(3) [OF recover.prems(1) [unfolded fst_conv]] by simp
  then have "epoch_of_lease t (mp_task p) = max (lt_epoch t) e"
    using l(3) by (auto simp: epoch_of_lease_def begin_recovery_def)
  moreover from this have "max (lt_epoch t) e = lt_epoch t"
    using epoch_of_lease_le [OF recover.prems(1) [unfolded fst_conv], of "mp_task p"] by (simp add: max_def split: if_splits)
  ultimately show ?case using l by (simp add: check_permit_accepted)
next
  case (restart t n)
  then show ?case by (simp add: lease_adopt_default)
qed

lemma lease_run_inv:
  assumes "lease_step\<^sup>*\<^sup>* s s'" and "lease_inv (fst s)"
  shows "lease_inv (fst s') \<and> lt_next_fence (fst s) \<le> lt_next_fence (fst s') \<and> lt_epoch (fst s) \<le> lt_epoch (fst s')"
  using assms
proof (induction rule: rtranclp_induct)
  case (step y z)
  with lease_step_inv [OF step.hyps(2)] show ?case by auto
qed simp

lemma accepted_before_run:
  assumes "lease_step\<^sup>*\<^sup>* s s'" and "lease_inv (fst s)" and "at_fence (mp_token p) \<le> lt_next_fence (fst s)"
    and "check_permit (fst s') p (snd s') = LeaseAccepted"
  shows "check_permit (fst s) p (snd s) = LeaseAccepted"
  using assms
proof (induction rule: rtranclp_induct)
  case (step y z)
  have y: "lease_inv (fst y) \<and> lt_next_fence (fst s) \<le> lt_next_fence (fst y) \<and> lt_epoch (fst s) \<le> lt_epoch (fst y)"
    by (rule lease_run_inv [OF step.hyps(1) step.prems(1)])
  then have "check_permit (fst y) p (snd y) = LeaseAccepted"
    using step.prems(2,3) by (intro accepted_before [OF step.hyps(2)]) auto
  then show ?case by (rule step.IH [OF step.prems(1,2)])
qed simp

lemma reachable_lease_inv: "lease_step\<^sup>*\<^sup>* (lease_default, n) s \<Longrightarrow> lease_inv (fst s)"
  using lease_run_inv [of "(lease_default, n)" s] by (simp add: lease_inv_default)

lemma accepted_fence: "lease_inv t \<Longrightarrow> check_permit t p n = LeaseAccepted \<Longrightarrow> at_fence (mp_token p) \<le> lt_next_fence t"
  by (auto simp: check_permit_accepted dest: lease_invD(4))

section \<open>Fencing\<close>


text \<open>A first worker loses the task to a second one at the same moment.\<close>

definition lease_demo :: lease_table where
  "lease_demo = snd (dispatch_in_epoch ''t'' ''a'' 10 5 (Epoch 0 0) lease_default)"

definition lease_demo' :: lease_table where
  "lease_demo' = snd (dispatch_in_epoch ''t'' ''b'' 10 5 (Epoch 0 0) lease_demo)"

definition demo_permit :: "string \<Rightarrow> u64 \<Rightarrow> mutation_permit" where
  "demo_permit owner fence = \<lparr>mp_task = ''t'', mp_owner = owner, mp_token = \<lparr>at_epoch = Epoch 0 0, at_fence = fence\<rparr>\<rparr>"

lemmas lease_demo_defs = lease_demo_def lease_demo'_def demo_permit_def dispatch_in_epoch_def lease_default_def Let_def

lemma lease_demo_steps: "lease_step\<^sup>*\<^sup>* (lease_default, 10) (lease_demo, 10)" "lease_step\<^sup>*\<^sup>* (lease_demo, 10) (lease_demo', 10)"
  unfolding lease_demo_def lease_demo'_def
  by (rule r_into_rtranclp, rule lease_step.dispatch, simp add: lease_demo_defs sat_add_def)+

lemma lease_demo_checks:
  "check_permit lease_demo (demo_permit ''a'' 1) 10 = LeaseAccepted"
  "check_permit lease_demo' (demo_permit ''a'' 1) 10 \<noteq> LeaseAccepted"
  "check_permit lease_demo' (demo_permit ''b'' 2) 10 = LeaseAccepted"
  by (simp_all add: check_permit_accepted lease_demo_defs bt_get_def epoch_of_lease_def sat_add_def)


text \<open>Recovery. After \<open>begin_recovery\<close> with a later epoch every permit that was accepted before is refused for ever,
  and a completion under an old fence is refused as stale until the task is dispatched again.\<close>

theorem recovery_revokes:
  assumes "lease_step\<^sup>*\<^sup>* (lease_default, n0) (t, n)" and "lt_epoch t < e"
    and "lease_step\<^sup>*\<^sup>* (begin_recovery e n t, n) (t', n')"
  shows "(\<forall>p. check_permit t p n = LeaseAccepted \<longrightarrow> check_permit t' p n' \<noteq> LeaseAccepted)
    \<and> (\<forall>task owner fence. bt_get (lt_leases t) task \<noteq> None \<longrightarrow> check_fence (begin_recovery e n t) task owner fence n = StaleFence)"
proof -
  have inv: "lease_inv t" using reachable_lease_inv [OF assms(1)] by simp
  have e: "lt_epoch (begin_recovery e n t) = e" "lt_leases (begin_recovery e n t) = lt_leases t"
      "lt_lease_epochs (begin_recovery e n t) = lt_lease_epochs t" "lt_next_fence (begin_recovery e n t) = lt_next_fence t"
    using assms(2) by (auto simp: begin_recovery_def max_def)
  have inv': "lease_inv (begin_recovery e n t)" using lease_step_inv [OF lease_step.recover, of t n e] inv by simp
  have "check_permit t' p n' \<noteq> LeaseAccepted" if p: "check_permit t p n = LeaseAccepted" for p
  proof
    assume "check_permit t' p n' = LeaseAccepted"
    moreover have "at_fence (mp_token p) \<le> lt_next_fence (begin_recovery e n t)" using accepted_fence [OF inv p] e by simp
    ultimately have "check_permit (begin_recovery e n t) p n = LeaseAccepted"
      using accepted_before_run [OF assms(3), of p] inv' by simp
    then have "at_epoch (mp_token p) = e" by (auto simp: check_permit_accepted e)
    moreover have "at_epoch (mp_token p) = lt_epoch t" using p by (auto simp: check_permit_accepted)
    ultimately show False using assms(2) by simp
  qed
  moreover have "check_fence (begin_recovery e n t) task owner fence n = StaleFence" if held: "bt_get (lt_leases t) task \<noteq> None" for task owner fence
  proof -
    obtain l e' where "bt_get (lt_leases t) task = Some l" "bt_get (lt_lease_epochs t) task = Some e'"
      using held lease_invD(3) [OF inv, of task] by auto
    moreover have "e' \<noteq> e" using lease_invD(5) [OF inv calculation(2)] assms(2) by auto
    ultimately show ?thesis by (simp add: check_fence_def e)
  qed
  ultimately show ?thesis by blast
qed

theorem recovery_revokes_witness:
  "check_permit lease_demo (demo_permit ''a'' 1) 10 = LeaseAccepted \<and> lt_epoch lease_demo < next_epoch (lt_epoch lease_demo)
   \<and> check_permit (begin_recovery (next_epoch (lt_epoch lease_demo)) 10 lease_demo) (demo_permit ''a'' 1) 10 \<noteq> LeaseAccepted
   \<and> check_fence (begin_recovery (next_epoch (lt_epoch lease_demo)) 10 lease_demo) ''t'' ''a'' 1 10 = StaleFence"
proof -
  let ?e = "next_epoch (lt_epoch lease_demo)"
  have lt: "lt_epoch lease_demo < ?e" by (simp add: lease_demo_defs next_epoch_def less_ownership_epoch_def sat_add_def)
  have "bt_get (lt_leases lease_demo) ''t'' \<noteq> None" by (simp add: lease_demo_defs bt_get_def)
  with recovery_revokes [OF lease_demo_steps(1) lt rtranclp.rtrancl_refl] lease_demo_checks(1) lt
  show ?thesis by blast
qed

end
