(* ===== verification/Mission_Restart.thy ===== *)
theory Mission_Restart
  imports Mission_Persist Side_Effects_Run Task_Lease_Run
begin

text \<open>
  What a restart keeps of a mission: the DAG rebuilt from its record, the resume that advances the authority and frees
  interrupted nodes, and snapshots and rollback.
\<close>

section \<open>A DAG survives its record\<close>

lemma mset_bt_insert: "bt_get m k = None \<Longrightarrow> mset (bt_insert k v m) = add_mset (k, v) (mset m)"
  by (induction k v m rule: bt_insert.induct) (auto simp: bt_get_def split: if_splits)

lemma mset_fold_insert:
  assumes "distinct (map key xs)" and "\<forall>x \<in> set xs. bt_get m (key x) = None"
  shows "mset (fold (\<lambda>x. bt_insert (key x) (val x)) xs m) = mset (map (\<lambda>x. (key x, val x)) xs) + mset m"
  using assms
proof (induction xs arbitrary: m)
  case (Cons x xs)
  have "\<forall>y \<in> set xs. bt_get (bt_insert (key x) (val x) m) (key y) = None"
    using Cons.prems by (simp add: btree) (metis imageI)
  with Cons show ?case by (simp add: mset_bt_insert)
qed simp

lemma persist_id_inj: "persist_id a = persist_id b \<Longrightarrow> a = b"
  by (simp add: persist_id_def show_nat_inj)

definition indexed :: "mission_dag \<Rightarrow> persisted_node list" where
  "indexed g = map (\<lambda>(idx, n). persisted_of idx n) (List.enumerate 0 (dg_nodes g))"

lemma length_indexed [simp]: "length (indexed g) = length (dg_nodes g)"
  by (simp add: indexed_def)

lemma nth_indexed: "k < length (dg_nodes g) \<Longrightarrow> indexed g ! k = persisted_of k (dg_nodes g ! k)"
  by (simp add: indexed_def nth_enumerate_eq)

lemma map_id_indexed: "map pn_id (indexed g) = map persist_id [0..<length (dg_nodes g)]"
  by (rule nth_equalityI) (simp_all add: nth_indexed persisted_of_def)

lemma fold_upsert:
  "pm_nodes (fold (\<lambda>(idx, n). upsert_node (persisted_of idx n)) xs m)
     = fold (\<lambda>n. bt_insert (pn_id n) n) (map (\<lambda>(idx, n). persisted_of idx n) xs) (pm_nodes m)"
  "pm_leases (fold (\<lambda>(idx, n). upsert_node (persisted_of idx n)) xs m) = pm_leases m"
  "pm_ownership (fold (\<lambda>(idx, n). upsert_node (persisted_of idx n)) xs m) = pm_ownership m"
  "pm_journal (fold (\<lambda>(idx, n). upsert_node (persisted_of idx n)) xs m) = pm_journal m"
  by (induction xs arbitrary: m) (auto simp: upsert_node_def)

lemma to_persisted_fields:
  "pm_nodes (to_persisted i g) = fold (\<lambda>n. bt_insert (pn_id n) n) (indexed g) []"
  "pm_leases (to_persisted i g) = dg_leases g" "pm_ownership (to_persisted i g) = dg_ownership g"
  "pm_journal (to_persisted i g) = dg_journal g"
  by (simp_all add: to_persisted_def fold_upsert indexed_def with_leases_def mission_new_def)

lemma to_persisted_nodes: "mset (map snd (pm_nodes (to_persisted i g))) = mset (indexed g)"
proof -
  have "distinct (map pn_id (indexed g))"
    by (simp add: map_id_indexed distinct_map inj_on_def persist_id_inj)
  then have "mset (pm_nodes (to_persisted i g)) = mset (map (\<lambda>n. (pn_id n, n)) (indexed g))"
    using mset_fold_insert [of pn_id "indexed g" "[]" "\<lambda>n. n"] by (simp add: to_persisted_fields btree)
  then have "image_mset snd (mset (pm_nodes (to_persisted i g))) = image_mset snd (mset (map (\<lambda>n. (pn_id n, n)) (indexed g)))"
    by simp
  then show ?thesis by (simp add: multiset.map_comp o_def)
qed

lemma node_number_persist_id: "idx < 2 ^ 64 \<Longrightarrow> pn_id n = persist_id idx \<Longrightarrow> node_number n = idx"
proof -
  assume idx: "idx < 2 ^ 64" and id: "pn_id n = persist_id idx"
  have "strip_prefix ''n'' (pn_id n) = Some (show_nat idx)" by (simp add: strip_prefix_Some id persist_id_def)
  moreover have "parse_u64 (show_nat idx) = Some (of_nat idx)"
    using show_nat_props [of idx] idx by (simp add: parse_u64_digits)
  ultimately show ?thesis using idx by (simp add: node_number_def unat_of_nat)
qed

lemma sorted_nodes:
  assumes "length (dg_nodes g) \<le> 2 ^ 64"
  shows "sort_key node_number (map snd (pm_nodes (to_persisted i g))) = indexed g"
proof (rule sort_key_inj_key_eq)
  have num: "node_number (indexed g ! k) = k" if "k < length (dg_nodes g)" for k
    using that assms by (intro node_number_persist_id) (simp_all add: nth_indexed persisted_of_def)
  have keys: "map node_number (indexed g) = [0..<length (dg_nodes g)]"
    by (rule nth_equalityI) (simp_all add: num)
  show "mset (map snd (pm_nodes (to_persisted i g))) = mset (indexed g)" by (rule to_persisted_nodes)
  then have "set (map snd (pm_nodes (to_persisted i g))) = set (indexed g)" by (rule mset_eq_setD)
  moreover have "inj_on node_number (set (indexed g))"
    using keys by (metis distinct_map distinct_upt)
  ultimately show "inj_on node_number (set (map snd (pm_nodes (to_persisted i g))))" by simp
  show "sorted (map node_number (indexed g))" by (simp add: keys)
qed

lemma index_of_indexed: "k < length (dg_nodes g) \<Longrightarrow> index_of (indexed g) (persist_id k) = Some k"
proof -
  assume k: "k < length (dg_nodes g)"
  let ?ps = "map (\<lambda>(idx, n). (pn_id n, idx)) (List.enumerate 0 (indexed g))"
  have ps: "?ps = map (\<lambda>k. (persist_id k, k)) [0..<length (dg_nodes g)]"
    by (rule nth_equalityI) (simp_all add: nth_enumerate_eq nth_indexed persisted_of_def)
  have "distinct (map fst (rev ?ps))"
    by (simp add: ps rev_map [symmetric] o_def distinct_map inj_on_def persist_id_inj)
  moreover have "(persist_id k, k) \<in> set (rev ?ps)" using k by (simp add: ps)
  ultimately show ?thesis unfolding index_of_def by (rule map_of_is_SomeI)
qed

lemma map_filter_total: "(\<forall>x \<in> set xs. f (g x) = Some x) \<Longrightarrow> List.map_filter f (map g xs) = xs"
  by (induction xs) (simp_all add: map_filter_simps)

text \<open>C17. A restart loses nothing of a DAG. Saved into a record and rebuilt from it, every node is at its place with its
  goal, dependencies and completion (its title becomes its id and its agent is chosen again), the lease table and the
  ownership epoch are the same, and the journal is the old one with every pending intent marked uncertain. Node ids
  sort as text in the record (\<open>n10\<close> before \<open>n2\<close>); the numeric sort puts them back.\<close>

theorem restart_restores:
  assumes "length (dg_nodes g) \<le> 2 ^ 64" and "\<forall>n \<in> set (dg_nodes g). \<forall>k \<in> set (tn_deps n). k < length (dg_nodes g)"
    and "lease_inv (dg_leases g)" and "journal_inv (dg_journal g)"
  shows "from_persisted (to_persisted i g) =
    \<lparr>dg_nodes = map (\<lambda>(idx, n). n\<lparr>tn_id := idx, tn_title := persist_id idx, tn_agent := None\<rparr>) (List.enumerate 0 (dg_nodes g)),
     dg_leases = dg_leases g, dg_ownership = dg_ownership g, dg_journal = snd (reconcile_after_crash (dg_journal g))\<rparr>"
proof -
  have "map (\<lambda>(idx, n). task_of (indexed g) idx n) (List.enumerate 0 (indexed g))
      = map (\<lambda>(idx, n). n\<lparr>tn_id := idx, tn_title := persist_id idx, tn_agent := None\<rparr>) (List.enumerate 0 (dg_nodes g))"
  proof (rule nth_equalityI)
    fix k assume "k < length (map (\<lambda>(idx, n). task_of (indexed g) idx n) (List.enumerate 0 (indexed g)))"
    then have k: "k < length (dg_nodes g)" by simp
    have "\<forall>x \<in> set (tn_deps (dg_nodes g ! k)). index_of (indexed g) (persist_id x) = Some x"
      using assms(2) nth_mem [OF k] by (blast intro: index_of_indexed)
    then have "List.map_filter (index_of (indexed g)) (map persist_id (tn_deps (dg_nodes g ! k))) = tn_deps (dg_nodes g ! k)"
      by (rule map_filter_total)
    with k show "map (\<lambda>(idx, n). task_of (indexed g) idx n) (List.enumerate 0 (indexed g)) ! k
        = map (\<lambda>(idx, n). n\<lparr>tn_id := idx, tn_title := persist_id idx, tn_agent := None\<rparr>) (List.enumerate 0 (dg_nodes g)) ! k"
      by (cases "dg_nodes g ! k") (simp add: nth_enumerate_eq nth_indexed task_of_def persisted_of_def)
  qed simp
  then show ?thesis
    by (simp add: from_persisted_def sorted_nodes [OF assms(1)] to_persisted_fields(2-4) lease_adopt_default [OF assms(3)]
        journal_adopt_default [OF assms(4)])
qed

definition demo_dag :: mission_dag where
  "demo_dag = \<lparr>dg_nodes = [\<lparr>tn_id = 0, tn_title = ''first'', tn_goal = ''a'', tn_deps = [], tn_agent = Some ''x'', tn_completed = True\<rparr>,
       \<lparr>tn_id = 1, tn_title = ''second'', tn_goal = ''b'', tn_deps = [0], tn_agent = None, tn_completed = False\<rparr>],
     dg_leases = lease_demo, dg_ownership = Epoch 0 0, dg_journal = demo_journal IPending []\<rparr>"

lemma demo_dag_invs: "lease_inv (dg_leases demo_dag)" "journal_inv (dg_journal demo_dag)"
proof -
  show "lease_inv (dg_leases demo_dag)" using reachable_lease_inv [OF lease_demo_steps(1)] by (simp add: demo_dag_def)
  have "(effect_step (\<lambda>_. []))\<^sup>*\<^sup>* effect_start (demo_world IPending [] True False)"
    by (rule r_into_rtranclp, rule ask_step [OF _ _ demo_prepare(1)]) (simp_all add: effect_start_def demo_world_def journal_default_def)
  then have "effect_inv (demo_world IPending [] True False)"
    by (induction rule: rtranclp_induct) (auto intro: effect_start_inv step_inv)
  then show "journal_inv (dg_journal demo_dag)" by (auto simp: effect_inv_def demo_world_def demo_dag_def)
qed

theorem restart_restores_witness:
  "map tn_goal (dg_nodes (from_persisted (to_persisted ''m'' demo_dag))) = [''a'', ''b'']
   \<and> map tn_deps (dg_nodes (from_persisted (to_persisted ''m'' demo_dag))) = [[], [0]]
   \<and> state_of (dg_journal (from_persisted (to_persisted ''m'' demo_dag))) ''intent-n-1'' = Some IUncertain"
proof -
  have "length (dg_nodes demo_dag) \<le> 2 ^ 64" "\<forall>n \<in> set (dg_nodes demo_dag). \<forall>k \<in> set (tn_deps n). k < length (dg_nodes demo_dag)"
    by (simp_all add: demo_dag_def)
  from restart_restores [OF this demo_dag_invs, of "''m''"] show ?thesis
    by (simp add: demo_dag_def reconcile_after_crash_def crash_state_def state_of_def demo_defs bt_get_def)
qed

section \<open>Resume\<close>

text \<open>\<open>r\<close> ranks the nodes: every dependency is a node of the mission with a smaller rank.\<close>

definition mission_ranked :: "(string \<Rightarrow> nat) \<Rightarrow> persisted_mission \<Rightarrow> bool" where
  "mission_ranked r m \<longleftrightarrow> bt_inv (pm_nodes m)
   \<and> (\<forall>i n. bt_get (pm_nodes m) i = Some n \<longrightarrow> pn_id n = i \<and> (\<forall>d \<in> set (pn_deps n). bt_get (pm_nodes m) d \<noteq> None \<and> r d < r i))"

lemma mission_rankedD:
  assumes "mission_ranked r m" and "bt_get (pm_nodes m) i = Some n"
  shows "pn_id n = i" "d \<in> set (pn_deps n) \<Longrightarrow> bt_get (pm_nodes m) d \<noteq> None" "d \<in> set (pn_deps n) \<Longrightarrow> r d < r i"
  using assms by (auto simp: mission_ranked_def)

lemma pm_nodes_resume_update: "pm_nodes (resume_update c now m) = map (\<lambda>(i, n). (i, fold_running n)) (pm_nodes m)"
proof -
  have "fold_running n = n" if "pn_state n \<noteq> NRunning" for n using that by (simp add: fold_running_def)
  then have "map (\<lambda>(i, n). (i, fold_running n)) ns = ns" if "filter (\<lambda>n. pn_state n = NRunning) (map snd ns) = []" for ns :: "(string, persisted_node) btree_map"
    using that by (induction ns) (auto split: if_splits)
  then show ?thesis by (simp add: resume_update_def Let_def reconcile_interrupted_def with_leases_def)
qed

lemma resume_get: "bt_get (pm_nodes (resume_update c now m)) i = map_option fold_running (bt_get (pm_nodes m) i)"
  by (simp add: pm_nodes_resume_update bt_get_map)

lemma resume_ranked: "mission_ranked r m \<Longrightarrow> mission_ranked r (resume_update c now m)"
proof -
  assume ranked: "mission_ranked r m"
  have "bt_inv (pm_nodes (resume_update c now m))"
    using ranked by (simp only: mission_ranked_def pm_nodes_resume_update bt_inv_map)
  moreover have "pn_id n' = i \<and> (\<forall>d \<in> set (pn_deps n'). bt_get (pm_nodes (resume_update c now m)) d \<noteq> None \<and> r d < r i)"
    if get: "bt_get (pm_nodes (resume_update c now m)) i = Some n'" for i n'
  proof -
    obtain n where n: "bt_get (pm_nodes m) i = Some n" "n' = fold_running n" using get by (auto simp: resume_get)
    then have "pn_id n' = pn_id n" "pn_deps n' = pn_deps n" by (simp_all add: fold_running_def)
    with mission_rankedD [OF ranked n(1)] show ?thesis by (simp add: resume_get)
  qed
  ultimately show ?thesis by (simp add: mission_ranked_def)
qed

lemma resume_not_running: "bt_get (pm_nodes (resume_update c now m)) i = Some n \<Longrightarrow> pn_state n \<noteq> NRunning"
proof -
  have "pn_state (fold_running k) \<noteq> NRunning" for k by (simp add: fold_running_def)
  then show "bt_get (pm_nodes (resume_update c now m)) i = Some n \<Longrightarrow> pn_state n \<noteq> NRunning" by (auto simp: resume_get)
qed

text \<open>A mission without running and failed nodes that is not complete has a node that dispatches.\<close>

lemma some_runnable:
  assumes ranked: "mission_ranked r m" and nodes: "pm_nodes m \<noteq> []"
    and quiet: "\<And>i n. bt_get (pm_nodes m) i = Some n \<Longrightarrow> pn_state n \<noteq> NRunning"
    and verdict: "resume_verdict_of m = RResumable"
  shows "\<exists>n \<in> set (runnable m). mission_dispatch (pn_id n) m = Inr (set_node (pn_id n) (pn_state_update (\<lambda>_. NRunning)) m)"
proof -
  have inv: "bt_inv (pm_nodes m)" using ranked by (simp add: mission_ranked_def)
  have mem: "bt_get (pm_nodes m) i = Some n \<longleftrightarrow> (i, n) \<in> set (pm_nodes m)" for i n by (rule bt_get_mem [OF inv])
  have "filter (\<lambda>n. pn_state n = NFailed) (map snd (pm_nodes m)) = []" and ex: "\<exists>n \<in> set (map snd (pm_nodes m)). pn_state n \<noteq> NCompleted"
    using verdict nodes by (auto simp: resume_verdict_of_def Let_def list_all_iff split: if_splits)
  then have ok: "pn_state n \<noteq> NFailed" if "bt_get (pm_nodes m) i = Some n" for i n
    using that by (force simp: mem filter_empty_conv)
  define P where "P i \<longleftrightarrow> (\<exists>n. bt_get (pm_nodes m) i = Some n \<and> pn_state n = NPending)" for i
  have "\<exists>i. P i"
  proof -
    obtain i n where "bt_get (pm_nodes m) i = Some n" "pn_state n \<noteq> NCompleted" using ex by (auto simp: mem)
    with ok quiet show ?thesis unfolding P_def by (metis node_terminal.exhaust)
  qed
  then obtain i where i: "P i" and least: "\<And>k. P k \<Longrightarrow> r i \<le> r k" using ex_has_least_nat [of P _ r] by blast
  then obtain n where n: "bt_get (pm_nodes m) i = Some n" "pn_state n = NPending" by (auto simp: P_def)
  have "dep_done (pm_nodes m) d" if d: "d \<in> set (pn_deps n)" for d
  proof -
    obtain k where k: "bt_get (pm_nodes m) d = Some k" using mission_rankedD(2) [OF ranked n(1) d] by auto
    have "\<not> P d" using least [of d] mission_rankedD(3) [OF ranked n(1) d] by auto
    then have "pn_state k = NCompleted" using k ok [OF k] quiet [OF k] by (cases "pn_state k") (auto simp: P_def)
    with k show ?thesis by (simp add: dep_done_def)
  qed
  then have deps: "list_all (dep_done (pm_nodes m)) (pn_deps n)" by (simp add: list_all_iff)
  have "n \<in> set (map snd (pm_nodes m))" using n(1) by (force simp: mem)
  then have "n \<in> set (runnable m)" using n(2) deps by (simp add: runnable_def)
  moreover have "mission_dispatch i m = Inr (set_node i (pn_state_update (\<lambda>_. NRunning)) m)"
    using n deps by (simp add: mission_dispatch_def)
  ultimately show ?thesis using mission_rankedD(1) [OF ranked n(1)] by blast
qed

lemma next_epoch_less: "ep_mission e \<noteq> - 1 \<Longrightarrow> e < next_epoch e"
  by (simp add: less_ownership_epoch_def next_epoch_def next_fence_less)

lemma resume_persisted_Inr:
  assumes "resume_persisted snap_ok ok c now g m d = (Inr g', m', d')"
  shows "m' = resume_update c now (seed_persist g m)" "dg_leases g' = pm_leases m'" "\<And>f. resume_verdict_of (seed_persist g m) \<noteq> RTerminalFailed f"
  using assms
  by (auto simp: resume_persisted_def Let_def transaction_def mission_save_def split: resume_verdict.splits if_splits)

lemma resume_verdict_failed: "resume_verdict_of m = RTerminalFailed f \<Longrightarrow> f \<noteq> [] \<and> f = map (\<lambda>n. (pn_id n, case pn_output n of None \<Rightarrow> ''(no output)'' | Some out \<Rightarrow> out)) (filter (\<lambda>n. pn_state n = NFailed) (map snd (pm_nodes m)))"
  by (auto simp: resume_verdict_of_def Let_def split: if_splits)

lemma resume_keeps_verdict:
  assumes "\<And>f. resume_verdict_of m \<noteq> RTerminalFailed f"
  shows "resume_verdict_of (resume_update c now m) \<noteq> RTerminalFailed f"
proof
  assume "resume_verdict_of (resume_update c now m) = RTerminalFailed f"
  from resume_verdict_failed [OF this] have "filter (\<lambda>n. pn_state n = NFailed) (map snd (pm_nodes (resume_update c now m))) \<noteq> []" by auto
  then obtain n where n: "n \<in> snd ` set (pm_nodes (resume_update c now m))" "pn_state n = NFailed"
    unfolding filter_empty_conv by auto
  then obtain k where k: "k \<in> snd ` set (pm_nodes m)" "n = fold_running k" by (force simp: pm_nodes_resume_update)
  with n(2) have "pn_state k = NFailed" by (simp add: fold_running_def split: if_splits)
  with k(1) assms show False by (force simp: resume_verdict_of_def Let_def list_all_iff filter_empty_conv split: if_splits)
qed

text \<open>C10. Resuming a mission. When the start of a persisted run succeeds on a mission whose dependencies have no cycle,
  the record is complete or some node can be dispatched at once (no interrupted node wedges the mission); every
  permit the old lease table accepted is refused by the new one; and no intent is left pending, so a call in flight at
  the crash waits for reconciliation.\<close>

theorem resume_advances:
  assumes run: "resume_persisted snap_ok ok c now g m d = (Inr g', m', d')"
    and ranked: "mission_ranked r (seed_persist g m)" and nodes: "pm_nodes (seed_persist g m) \<noteq> []"
    and leases: "lease_inv (pm_leases m)" "lt_epoch (pm_leases m) \<le> pm_ownership m" "ep_mission (pm_ownership m) \<noteq> - 1"
    and journal: "journal_inv (pm_journal m)"
  shows "(resume_verdict_of m' = RComplete
      \<or> (\<exists>n \<in> set (runnable m'). mission_dispatch (pn_id n) m' = Inr (set_node (pn_id n) (pn_state_update (\<lambda>_. NRunning)) m')))
    \<and> (\<forall>p t t'. check_permit (pm_leases m) p t = LeaseAccepted \<longrightarrow> check_permit (dg_leases g') p t' \<noteq> LeaseAccepted)
    \<and> (\<forall>i. state_of (pm_journal m') i \<noteq> Some IPending)"
proof (intro conjI allI impI)
  note R = resume_persisted_Inr [OF run]
  let ?s = "seed_persist g m"
  have s: "pm_leases ?s = pm_leases m" "pm_ownership ?s = pm_ownership m" "pm_journal ?s = pm_journal m"
    by (simp_all add: seed_persist_def)
  have "mission_ranked r m'" "pm_nodes m' \<noteq> []"
    using resume_ranked [OF ranked] nodes by (simp_all add: R(1) pm_nodes_resume_update)
  moreover have "resume_verdict_of m' \<noteq> RTerminalFailed f" for f unfolding R(1) by (rule resume_keeps_verdict) (rule R(3))
  ultimately show "resume_verdict_of m' = RComplete
      \<or> (\<exists>n \<in> set (runnable m'). mission_dispatch (pn_id n) m' = Inr (set_node (pn_id n) (pn_state_update (\<lambda>_. NRunning)) m'))"
    using some_runnable [of r m'] resume_not_running [of c now ?s] by (cases "resume_verdict_of m'") (auto simp: R(1))
  have t': "dg_leases g' = set_scopes (\<lambda>_. {}) (begin_recovery (next_epoch (pm_ownership m)) now (pm_leases m))"
    by (simp add: R(1,2) resume_update_def Let_def reconcile_interrupted_def with_leases_def s)
  have lt: "lt_epoch (pm_leases m) < next_epoch (pm_ownership m)"
    using next_epoch_less [OF leases(3)] leases(2) by (rule order.strict_trans1 [rotated])
  then have e: "lt_epoch (dg_leases g') = next_epoch (pm_ownership m)"
    by (auto simp: t' set_scopes_def begin_recovery_def max_def)
  show "check_permit (dg_leases g') p t' \<noteq> LeaseAccepted" if "check_permit (pm_leases m) p t = LeaseAccepted" for p t t'
    using that lt by (auto simp: check_permit_accepted e)
  show "state_of (pm_journal m') i \<noteq> Some IPending" for i
    using crash_journal(3) [OF journal, of i] by (auto simp: R(1) resume_update_def Let_def reconcile_interrupted_def with_leases_def s split: if_splits)
qed

definition demo_mission :: persisted_mission where
  "demo_mission = (mission_new ''m'')\<lparr>pm_leases := lease_demo, pm_journal := demo_journal IPending []\<rparr>"

definition demo_disk :: mission_disk where
  "demo_disk = \<lparr>md_missions = [], md_snapshots = []\<rparr>"

lemma persist_id_01: "persist_id 0 = ''n0''" "persist_id (Suc 0) = ''n1''"
  by code_simp+

lemma demo_seed: "pm_nodes (seed_persist demo_dag demo_mission) =
    [(''n0'', \<lparr>pn_id = ''n0'', pn_input = ''a'', pn_deps = [], pn_output = None, pn_state = NCompleted\<rparr>),
     (''n1'', \<lparr>pn_id = ''n1'', pn_input = ''b'', pn_deps = [''n0''], pn_output = None, pn_state = NPending\<rparr>)]"
  by (simp add: seed_persist_def to_persisted_fields indexed_def demo_mission_def mission_new_def demo_dag_def persisted_of_def persist_id_01)

lemma demo_ranked: "mission_ranked (\<lambda>i. if i = ''n1'' then 1 else 0) (seed_persist demo_dag demo_mission)"
  by (simp add: mission_ranked_def demo_seed bt_inv_def bt_get_def)

lemma demo_resumes: "\<exists>g m d. resume_persisted True True ''c'' 20 demo_dag demo_mission demo_disk = (Inr g, m, d)"
proof -
  have "resume_verdict_of (seed_persist demo_dag demo_mission) = RResumable" by (simp add: resume_verdict_of_def demo_seed)
  then show ?thesis by (simp add: resume_persisted_def Let_def transaction_def mission_save_def)
qed

theorem resume_advances_witness:
  "\<exists>g m d. resume_persisted True True ''c'' 20 demo_dag demo_mission demo_disk = (Inr g, m, d)
     \<and> (resume_verdict_of m = RComplete
        \<or> (\<exists>n \<in> set (runnable m). mission_dispatch (pn_id n) m = Inr (set_node (pn_id n) (pn_state_update (\<lambda>_. NRunning)) m)))
     \<and> check_permit (pm_leases demo_mission) (demo_permit ''a'' 1) 10 = LeaseAccepted
     \<and> check_permit (dg_leases g) (demo_permit ''a'' 1) 10 \<noteq> LeaseAccepted
     \<and> state_of (pm_journal demo_mission) ''intent-n-1'' = Some IPending \<and> state_of (pm_journal m) ''intent-n-1'' \<noteq> Some IPending"
proof -
  obtain g m d where run: "resume_persisted True True ''c'' 20 demo_dag demo_mission demo_disk = (Inr g, m, d)" using demo_resumes by blast
  have "pm_nodes (seed_persist demo_dag demo_mission) \<noteq> []" by (simp add: demo_seed)
  moreover have "lease_inv (pm_leases demo_mission)" "journal_inv (pm_journal demo_mission)"
    using demo_dag_invs by (simp_all add: demo_mission_def demo_dag_def)
  moreover have "lt_epoch (pm_leases demo_mission) \<le> pm_ownership demo_mission" "ep_mission (pm_ownership demo_mission) \<noteq> - 1"
    by (simp_all add: demo_mission_def mission_new_def lease_demo_defs)
  ultimately have R: "(resume_verdict_of m = RComplete
        \<or> (\<exists>n \<in> set (runnable m). mission_dispatch (pn_id n) m = Inr (set_node (pn_id n) (pn_state_update (\<lambda>_. NRunning)) m)))
      \<and> (\<forall>p t t'. check_permit (pm_leases demo_mission) p t = LeaseAccepted \<longrightarrow> check_permit (dg_leases g) p t' \<noteq> LeaseAccepted)
      \<and> (\<forall>i. state_of (pm_journal m) i \<noteq> Some IPending)"
    by (intro resume_advances [OF run demo_ranked])
  have acc: "check_permit (pm_leases demo_mission) (demo_permit ''a'' 1) 10 = LeaseAccepted"
    using lease_demo_checks(1) by (simp add: demo_mission_def)
  have pend: "state_of (pm_journal demo_mission) ''intent-n-1'' = Some IPending"
    by (simp add: demo_mission_def state_of_def demo_defs bt_get_def)
  from R have "check_permit (dg_leases g) (demo_permit ''a'' 1) 10 \<noteq> LeaseAccepted" "state_of (pm_journal m) ''intent-n-1'' \<noteq> Some IPending"
    using acc by blast+
  with run R acc pend show ?thesis by blast
qed

section \<open>Rollback\<close>

lemma rollback_stored:
  assumes "rollback ok i (Some name) now d = (Inr r, d')" and "bt_get (snapshots_of d i) name = Some s"
  shows "pm_ownership r = max (pm_ownership s) (lt_epoch (pm_leases s))" "lt_leases (pm_leases r) = lt_leases (pm_leases s)"
    "lt_next_fence (pm_leases r) = lt_next_fence (pm_leases s)" "lt_epoch (pm_leases r) = lt_epoch (pm_leases s)"
    "lt_lease_epochs (pm_leases r) = lt_lease_epochs (pm_leases s)" "pm_journal r = pm_journal s"
  using assms
  by (auto simp: rollback_def Let_def mission_save_def load_record_def with_leases_def set_scopes_def split: if_splits)

text \<open>What a run hands to a worker: the table after the resume of \<open>m\<close> and one dispatch.\<close>

definition reissue :: "persisted_mission \<Rightarrow> string \<Rightarrow> u64 \<Rightarrow> string \<Rightarrow> string \<Rightarrow> u64 \<Rightarrow> lease_table" where
  "reissue m c now task owner ttl =
     (let m' = resume_update c now m in snd (dispatch_in_epoch task owner now ttl (pm_ownership m') (pm_leases m')))"

lemma reissue_token:
  "lt_epoch (pm_leases m) \<le> pm_ownership m \<Longrightarrow> ep_mission (pm_ownership m) \<noteq> - 1 \<Longrightarrow>
     authority_for (reissue m c now task owner ttl) task
       = Some \<lparr>at_epoch = next_epoch (pm_ownership m), at_fence = sat_add (lt_next_fence (pm_leases m)) 1\<rparr>"
proof -
  assume le: "lt_epoch (pm_leases m) \<le> pm_ownership m" and "ep_mission (pm_ownership m) \<noteq> - 1"
  then have "lt_epoch (pm_leases m) < next_epoch (pm_ownership m)"
    using next_epoch_less by (blast intro: order.strict_trans1)
  then have "lt_epoch (pm_leases m) \<le> next_epoch (pm_ownership m)" by (rule order.strict_implies_order)
  then show ?thesis
    by (simp add: reissue_def resume_update_def Let_def reconcile_interrupted_def with_leases_def set_scopes_def begin_recovery_def
        dispatch_in_epoch_def authority_for_def epoch_of_lease_def lease_authority_def btree max_absorb2)
qed

text \<open>A rollback gives old authority back. The snapshot carries the ownership epoch and the fence counter of its
  time, and a rollback writes them back as they were. So the first run after the rollback issues, for the same task and
  owner, exactly the token that the run after the snapshot issued: a worker of that abandoned run that still holds its
  permit passes the check again. The journal too is that of the snapshot, so an operation that took effect since is
  answered as if it had not. The comments say both values only move forward and that an old token cannot be
  reused.\<close>

theorem rollback_revives_permit:
  assumes "rollback ok i (Some name) t d = (Inr r, d')" and "bt_get (snapshots_of d i) name = Some s"
    and "lt_epoch (pm_leases s) \<le> pm_ownership s" and "ep_mission (pm_ownership s) \<noteq> - 1"
    and "authority_for (reissue s c now task owner ttl) task = Some token" and "now' \<noteq> - 1"
  shows "check_permit (reissue r c' now' task owner ttl') \<lparr>mp_task = task, mp_owner = owner, mp_token = token\<rparr> now' = LeaseAccepted
    \<and> prepare_dispatch sha node tool args key n (pm_journal r) = prepare_dispatch sha node tool args key n (pm_journal s)"
proof -
  note R = rollback_stored [OF assms(1,2)]
  have own: "pm_ownership r = pm_ownership s" using R(1) assms(3) by (simp add: max_def)
  have le: "lt_epoch (pm_leases r) \<le> pm_ownership r" "ep_mission (pm_ownership r) \<noteq> - 1" using assms(3,4) R(4) own by simp_all
  have tok: "token = \<lparr>at_epoch = next_epoch (pm_ownership r), at_fence = sat_add (lt_next_fence (pm_leases r)) 1\<rparr>"
    using assms(5) by (simp add: reissue_token [OF assms(3,4)] own R(3))
  have lt: "now' < sat_add now' (max ttl' 1)"
  proof -
    have "unat now' + 1 = unat (now' + 1)" using unat_Suc_word [OF assms(6)] by simp
    then have "unat now' + 1 < 2 ^ 64" using unat_less_pow [of "now' + 1"] by simp
    moreover have "1 \<le> unat (max ttl' 1)" by (simp add: unats)
    ultimately show ?thesis by (simp add: word_less_nat_alt unats)
  qed
  have lte: "lt_epoch (pm_leases r) \<le> next_epoch (pm_ownership r)" using next_epoch_less [OF le(2)] le(1) by simp
  show ?thesis
    by (simp add: check_permit_accepted tok reissue_def resume_update_def Let_def reconcile_interrupted_def with_leases_def set_scopes_def
        begin_recovery_def dispatch_in_epoch_def epoch_of_lease_def btree max_absorb2 lte lt R(6))
qed

definition snap_disk :: mission_disk where
  "snap_disk = \<lparr>md_missions = [], md_snapshots = [(''m'', [(''s.json'', mission_new ''m'')])]\<rparr>"

theorem rollback_revives_permit_witness:
  "\<exists>r d. rollback True ''m'' (Some ''s.json'') 50 snap_disk = (Inr r, d)
     \<and> check_permit (reissue (mission_new ''m'') ''c1'' 10 ''n0'' ''a'' 30) \<lparr>mp_task = ''n0'', mp_owner = ''a'', mp_token = \<lparr>at_epoch = Epoch 1 1, at_fence = 1\<rparr>\<rparr> 11 = LeaseAccepted
     \<and> check_permit (pm_leases r) \<lparr>mp_task = ''n0'', mp_owner = ''a'', mp_token = \<lparr>at_epoch = Epoch 1 1, at_fence = 1\<rparr>\<rparr> 50 = UnknownTask
     \<and> check_permit (reissue r ''c2'' 60 ''n0'' ''a'' 30) \<lparr>mp_task = ''n0'', mp_owner = ''a'', mp_token = \<lparr>at_epoch = Epoch 1 1, at_fence = 1\<rparr>\<rparr> 60 = LeaseAccepted"
proof -
  let ?m = "mission_new ''m''" and ?p = "\<lparr>mp_task = ''n0'', mp_owner = ''a'', mp_token = \<lparr>at_epoch = Epoch 1 1, at_fence = 1\<rparr>\<rparr>"
  have get: "bt_get (snapshots_of snap_disk ''m'') ''s.json'' = Some ?m" by (simp add: snap_disk_def snapshots_of_def bt_get_def)
  have name: "\<not> (CHR ''/'' \<in> set ''s.json'' \<or> sublist ''..'' ''s.json'')" by code_simp
  obtain r d where run: "rollback True ''m'' (Some ''s.json'') 50 snap_disk = (Inr r, d)"
    using name by (simp add: rollback_def get mission_save_def Let_def)
  have low: "lt_epoch (pm_leases ?m) \<le> pm_ownership ?m" "ep_mission (pm_ownership ?m) \<noteq> - 1" by (simp_all add: mission_new_def lease_default_def)
  have tok: "authority_for (reissue ?m ''c1'' 10 ''n0'' ''a'' 30) ''n0'' = Some \<lparr>at_epoch = Epoch 1 1, at_fence = 1\<rparr>"
    by (simp add: reissue_token [OF low]) (simp add: mission_new_def lease_default_def next_epoch_def sat_add_def)
  have "check_permit (reissue r ''c2'' 60 ''n0'' ''a'' 30) ?p 60 = LeaseAccepted"
    using rollback_revives_permit [OF run get low tok, of 60 "''c2''" 30] by simp
  moreover have "check_permit (reissue ?m ''c1'' 10 ''n0'' ''a'' 30) ?p 11 = LeaseAccepted"
    by (simp add: check_permit_accepted reissue_def resume_update_def Let_def reconcile_interrupted_def with_leases_def set_scopes_def
        begin_recovery_def dispatch_in_epoch_def epoch_of_lease_def btree mission_new_def lease_default_def next_epoch_def
        less_eq_ownership_epoch_def max_def sat_add_def bt_get_def word_le_nat_alt)
  moreover have "check_permit (pm_leases r) ?p 50 = UnknownTask"
    by (simp add: check_permit_def check_authority_def rollback_stored(2) [OF run get]) (simp add: mission_new_def lease_default_def btree)
  ultimately show ?thesis using run by blast
qed

end
