(* ===== verification/Cloud_Eligibility.thy ===== *)
theory Cloud_Eligibility
  imports Susi_Strings Ordered_Map
begin

text \<open>
  \<open>crates/susi-vendor-models/src/cloud_eligibility.rs\<close>: what the outcomes of past calls say about a credential and a
  model. SHA-256 and the masking of environment secrets (\<open>redact::mask_env_credentials\<close>) are arguments. \<open>String::truncate\<close>
  panics inside a character; a panic is \<open>None\<close>.
\<close>

section \<open>Observations\<close>

datatype eligibility_kind = Usable | EUnknown | InvalidCredential | InsufficientCredit | QuotaExhausted | RateLimited
  | ServiceUnavailable | AccessDenied | UnsupportedRequest

datatype scope_level = LCredential | LAccount | LModel | LRegion

datatype provenance = PInference | PProbe | PManual

record observation =
  ob_kind :: eligibility_kind
  ob_level :: scope_level
  ob_provider :: string
  ob_credential :: string
  ob_account :: string
  ob_model :: string
  ob_region :: string
  ob_reason :: string
  ob_at :: u64
  ob_expires :: "u64 option"
  ob_provenance :: provenance

datatype inference_result = Success | Failed "16 word option" string "u64 option"

record subject =
  sb_provider :: string
  sb_key :: string
  sb_account :: "string option"
  sb_region :: "string option"
  sb_model :: string

record eligibility_verdict =
  vd_kind :: eligibility_kind
  vd_reason :: string
  vd_at :: u64

definition REASON_CAP :: nat where "REASON_CAP = 240"
definition USABLE_TTL_SECS :: u64 where "USABLE_TTL_SECS = 3600"
definition RATE_LIMIT_TTL_SECS :: u64 where "RATE_LIMIT_TTL_SECS = 300"
definition UNAVAILABLE_TTL_SECS :: u64 where "UNAVAILABLE_TTL_SECS = 900"
definition QUOTA_TTL_SECS :: u64 where "QUOTA_TTL_SECS = 86400"

definition credential_fingerprint :: "(string \<Rightarrow> string) \<Rightarrow> string \<Rightarrow> string" where
  "credential_fingerprint sha key = (if key = [] then [] else hex_encode (take 8 (sha key)))"

fun level_tag :: "scope_level \<Rightarrow> string" where
  "level_tag LCredential = ''cred''"
| "level_tag LAccount = ''acct''"
| "level_tag LModel = ''model''"
| "level_tag LRegion = ''region''"

definition key_of :: "observation \<Rightarrow> string" where
  "key_of ob = ob_provider ob @ ''|'' @ level_tag (ob_level ob) @ ''|'' @ ob_credential ob @ ''|'' @ ob_account ob @ ''|''
     @ ob_model ob @ ''|'' @ ob_region ob"

definition says :: "string \<Rightarrow> string list \<Rightarrow> bool" where
  "says b needles = (\<exists>n \<in> set needles. sublist n b)"

definition classify_failure :: "16 word option \<Rightarrow> string \<Rightarrow> eligibility_kind \<times> scope_level" where
  "classify_failure status body =
     (let b = to_ascii_lowercase body
      in if says b [''insufficient_quota'', ''exceeded your current quota'', ''quota exhausted'', ''usage limit''] then (QuotaExhausted, LAccount)
         else if says b [''insufficient credit'', ''credit balance'', ''billing'', ''payment required'', ''out of credits''] then (InsufficientCredit, LAccount)
         else if says b [''does not have access'', ''no access to'', ''model_not_found''] \<and> says b [''model''] then (AccessDenied, LModel)
         else (case status of
             None \<Rightarrow> (ServiceUnavailable, LRegion)
           | Some s \<Rightarrow>
               if s = 401 then (InvalidCredential, LCredential)
               else if s = 402 then (InsufficientCredit, LAccount)
               else if s = 403 then (InvalidCredential, LCredential)
               else if s = 429 then (RateLimited, LCredential)
               else if s = 400 \<or> s = 404 \<or> s = 422 then (UnsupportedRequest, LModel)
               else if 500 \<le> s then (ServiceUnavailable, LRegion)
               else (EUnknown, LCredential)))"

section \<open>The store\<close>

record eligibility_store =
  es_obs :: "(string, observation) btree_map"
  es_cap :: nat
  es_usable_ttl :: u64

definition store_with_capacity :: "nat \<Rightarrow> eligibility_store" where
  "store_with_capacity cap = \<lparr>es_obs = [], es_cap = max cap 1, es_usable_ttl = USABLE_TTL_SECS\<rparr>"

definition store_new :: eligibility_store where
  "store_new = \<lparr>es_obs = [], es_cap = 4096, es_usable_ttl = USABLE_TTL_SECS\<rparr>"

text \<open>\<open>min_by_key\<close> returns the first least element, \<open>max_by_key\<close> the last greatest.\<close>

fun first_min :: "('a \<Rightarrow> 'b::linorder) \<Rightarrow> 'a list \<Rightarrow> 'a option" where
  "first_min f [] = None"
| "first_min f (x # xs) = (case first_min f xs of None \<Rightarrow> Some x | Some y \<Rightarrow> if f x \<le> f y then Some x else Some y)"

fun last_max :: "('a \<Rightarrow> 'b::linorder) \<Rightarrow> 'a list \<Rightarrow> 'a option" where
  "last_max f [] = None"
| "last_max f (x # xs) = (case last_max f xs of None \<Rightarrow> Some x | Some y \<Rightarrow> if f x \<le> f y then Some y else Some x)"

definition unexpired :: "u64 \<Rightarrow> observation \<Rightarrow> bool" where
  "unexpired now ob = (case ob_expires ob of None \<Rightarrow> True | Some e \<Rightarrow> now < e)"

lemma first_min_Some: "first_min f xs = Some x \<Longrightarrow> x \<in> set xs \<and> (\<forall>y \<in> set xs. f x \<le> f y)"
proof (induction xs arbitrary: x)
  case (Cons a xs)
  show ?case
  proof (cases "first_min f xs")
    case (Some y)
    with Cons.IH [OF Some] Cons.prems show ?thesis by (auto split: if_splits)
  next
    case None
    with Cons.prems show ?thesis by (cases xs) (auto split: option.splits if_splits)
  qed
qed simp

lemma first_min_None [simp]: "first_min f xs = None \<longleftrightarrow> xs = []"
  by (cases xs) (auto split: option.split)

lemma last_max_Some: "last_max f xs = Some x \<Longrightarrow> x \<in> set xs \<and> (\<forall>y \<in> set xs. f y \<le> f x)"
proof (induction xs arbitrary: x)
  case (Cons a xs)
  show ?case
  proof (cases "last_max f xs")
    case (Some y)
    with Cons.IH [OF Some] Cons.prems show ?thesis by (auto split: if_splits)
  next
    case None
    with Cons.prems show ?thesis by (cases xs) (auto split: option.splits if_splits)
  qed
qed simp

lemma last_max_None [simp]: "last_max f xs = None \<longleftrightarrow> xs = []"
  by (cases xs) (auto split: option.split)

function evict_oldest :: "nat \<Rightarrow> (string, observation) btree_map \<Rightarrow> (string, observation) btree_map" where
  "evict_oldest cap obs =
     (if length obs \<le> cap then obs
      else (case first_min (\<lambda>(_, ob). ob_at ob) obs of None \<Rightarrow> obs | Some (k, _) \<Rightarrow> evict_oldest cap (bt_remove k obs)))"
  by pat_completeness auto
termination
proof (relation "measure (\<lambda>(_, obs). length obs)")
  fix cap and obs :: "(string, observation) btree_map" and p k ob
  assume "first_min (\<lambda>(_, ob). ob_at ob) obs = Some p" "(k, ob) = p"
  then have "(k, ob) \<in> set obs" by (blast dest: first_min_Some)
  then have "length (bt_remove k obs) < length obs" by (auto simp: bt_remove_def intro: length_filter_less)
  then show "((cap, bt_remove k obs), cap, obs) \<in> measure (\<lambda>(_, obs). length obs)" by simp
qed simp

declare evict_oldest.simps [simp del]

definition evict :: "u64 \<Rightarrow> eligibility_store \<Rightarrow> eligibility_store" where
  "evict now s = s\<lparr>es_obs := evict_oldest (es_cap s) (filter (\<lambda>(_, ob). unexpired now ob) (es_obs s))\<rparr>"

fun replace_all :: "nat \<Rightarrow> string \<Rightarrow> string \<Rightarrow> string \<Rightarrow> string" where
  "replace_all skip pat sub [] = []"
| "replace_all (Suc n) pat sub (c # s) = replace_all n pat sub s"
| "replace_all 0 pat sub (c # s) =
     (if pat \<noteq> [] \<and> prefix pat (c # s) then sub @ replace_all (length pat - 1) pat sub s else c # replace_all 0 pat sub s)"

definition truncate_str :: "nat \<Rightarrow> string \<Rightarrow> string option" where
  "truncate_str n s = (if length s \<le> n then Some s else if is_continuation (s ! n) then None else Some (take n s))"

definition store_record ::
  "(string \<Rightarrow> string) \<Rightarrow> u64 \<Rightarrow> observation \<Rightarrow> string \<Rightarrow> eligibility_store \<Rightarrow> eligibility_store option" where
  "store_record redact wall ob secret s =
     (let r1 = redact (ob_reason ob);
          r2 = (if secret = [] then r1 else replace_all 0 secret ''[REDACTED]'' r1)
      in case truncate_str REASON_CAP r2 of
           None \<Rightarrow> None
         | Some r \<Rightarrow>
             let ob' = ob\<lparr>ob_reason := r\<rparr>;
                 s' = s\<lparr>es_obs := bt_insert (key_of ob') ob' (es_obs s)\<rparr>
             in Some (if es_cap s' < length (es_obs s') then evict wall s' else s'))"

definition failure_credential :: "string \<Rightarrow> eligibility_kind \<Rightarrow> scope_level \<Rightarrow> string" where
  "failure_credential fp kind level =
     (case level of LModel \<Rightarrow> if kind = UnsupportedRequest then ''*'' else fp | LRegion \<Rightarrow> ''*'' | _ \<Rightarrow> fp)"

definition failure_expires :: "eligibility_kind \<Rightarrow> u64 option \<Rightarrow> u64 \<Rightarrow> u64 option" where
  "failure_expires kind retry_after now =
     (case kind of
        RateLimited \<Rightarrow> Some (now + (case retry_after of None \<Rightarrow> RATE_LIMIT_TTL_SECS | Some r \<Rightarrow> r))
      | ServiceUnavailable \<Rightarrow> Some (now + UNAVAILABLE_TTL_SECS)
      | QuotaExhausted \<Rightarrow> Some (now + QUOTA_TTL_SECS)
      | InsufficientCredit \<Rightarrow> Some (now + QUOTA_TTL_SECS)
      | _ \<Rightarrow> None)"

definition or_empty :: "string option \<Rightarrow> string" where
  "or_empty x = (case x of None \<Rightarrow> [] | Some s \<Rightarrow> s)"

definition inference_observation :: "(string \<Rightarrow> string) \<Rightarrow> u64 \<Rightarrow> subject \<Rightarrow> inference_result \<Rightarrow> u64 \<Rightarrow> observation" where
  "inference_observation sha ttl sb res now =
     (let fp = credential_fingerprint sha (sb_key sb)
      in case res of
           Success \<Rightarrow>
             \<lparr>ob_kind = Usable, ob_level = LModel, ob_provider = sb_provider sb, ob_credential = fp, ob_account = or_empty (sb_account sb),
              ob_model = sb_model sb, ob_region = or_empty (sb_region sb), ob_reason = ''authenticated inference succeeded'', ob_at = now,
              ob_expires = Some (now + ttl), ob_provenance = PInference\<rparr>
         | Failed status body retry_after \<Rightarrow>
             (case classify_failure status body of (kind, level) \<Rightarrow>
                \<lparr>ob_kind = kind, ob_level = level, ob_provider = sb_provider sb, ob_credential = failure_credential fp kind level,
                 ob_account = or_empty (sb_account sb), ob_model = sb_model sb, ob_region = or_empty (sb_region sb), ob_reason = body, ob_at = now,
                 ob_expires = failure_expires kind retry_after now, ob_provenance = PInference\<rparr>))"

definition record_inference ::
  "(string \<Rightarrow> string) \<Rightarrow> (string \<Rightarrow> string) \<Rightarrow> u64 \<Rightarrow> subject \<Rightarrow> inference_result \<Rightarrow> u64 \<Rightarrow> eligibility_store \<Rightarrow> eligibility_store option" where
  "record_inference sha redact wall sb res now s =
     store_record redact wall (inference_observation sha (es_usable_ttl s) sb res now) (sb_key sb) s"

section \<open>Resolving\<close>

definition live_obs :: "eligibility_store \<Rightarrow> subject \<Rightarrow> u64 \<Rightarrow> observation list" where
  "live_obs s sb now =
     filter (\<lambda>ob. eq_ignore_ascii_case (ob_provider ob) (sb_provider sb) \<and> unexpired now ob) (map snd (es_obs s))"

definition pick :: "observation list \<Rightarrow> (observation \<Rightarrow> bool) \<Rightarrow> eligibility_verdict option" where
  "pick obs P = map_option (\<lambda>ob. \<lparr>vd_kind = ob_kind ob, vd_reason = ob_reason ob, vd_at = ob_at ob\<rparr>) (last_max ob_at (filter P obs))"

definition proven :: "string \<Rightarrow> subject \<Rightarrow> observation \<Rightarrow> bool" where
  "proven fp sb ob = (ob_kind ob = Usable \<and> ob_level ob = LModel \<and> ob_credential ob = fp \<and> ob_model ob = sb_model sb \<and> ob_provenance ob = PInference)"

definition bad_key :: "string \<Rightarrow> observation \<Rightarrow> bool" where
  "bad_key fp ob = (ob_level ob = LCredential \<and> ob_credential ob = fp \<and> ob_kind ob = InvalidCredential)"

definition exhausted :: "string \<Rightarrow> subject \<Rightarrow> observation \<Rightarrow> bool" where
  "exhausted fp sb ob =
     (ob_kind ob \<in> {InsufficientCredit, QuotaExhausted}
      \<and> (case ob_level ob of
           LAccount \<Rightarrow> ob_credential ob = fp \<or> or_empty (sb_account sb) \<noteq> [] \<and> ob_account ob = or_empty (sb_account sb)
         | LCredential \<Rightarrow> ob_credential ob = fp
         | _ \<Rightarrow> False))"

definition denied_model :: "string \<Rightarrow> subject \<Rightarrow> observation \<Rightarrow> bool" where
  "denied_model fp sb ob =
     (ob_level ob = LModel \<and> ob_model ob = sb_model sb \<and> ob_kind ob \<in> {AccessDenied, UnsupportedRequest}
      \<and> (ob_credential ob = fp \<or> ob_credential ob = ''*''))"

definition throttled :: "string \<Rightarrow> observation \<Rightarrow> bool" where
  "throttled fp ob = (ob_level ob = LCredential \<and> ob_credential ob = fp \<and> ob_kind ob = RateLimited)"

definition outage :: "subject \<Rightarrow> observation \<Rightarrow> bool" where
  "outage sb ob = (ob_kind ob = ServiceUnavailable \<and> (ob_region ob = [] \<or> ob_region ob = or_empty (sb_region sb)))"

definition fresh_usable :: "observation list \<Rightarrow> string \<Rightarrow> subject \<Rightarrow> u64 option" where
  "fresh_usable obs fp sb = map_option ob_at (last_max ob_at (filter (proven fp sb) obs))"

definition block :: "u64 option \<Rightarrow> eligibility_verdict option \<Rightarrow> eligibility_verdict option" where
  "block fresh v =
     (case v of
        None \<Rightarrow> None
      | Some x \<Rightarrow> (case fresh of None \<Rightarrow> Some x | Some u \<Rightarrow> if vd_at x < u then None else Some x))"

fun first_verdict :: "eligibility_verdict option list \<Rightarrow> eligibility_verdict" where
  "first_verdict [] = \<lparr>vd_kind = EUnknown, vd_reason = ''no observations'', vd_at = 0\<rparr>"
| "first_verdict (None # vs) = first_verdict vs"
| "first_verdict (Some v # vs) = v"

definition resolve_eligibility :: "(string \<Rightarrow> string) \<Rightarrow> eligibility_store \<Rightarrow> subject \<Rightarrow> u64 \<Rightarrow> eligibility_verdict" where
  "resolve_eligibility sha s sb now =
     (let fp = credential_fingerprint sha (sb_key sb);
          obs = live_obs s sb now;
          fresh = fresh_usable obs fp sb
      in first_verdict
           [block fresh (pick obs (bad_key fp)), block fresh (pick obs (exhausted fp sb)), block fresh (pick obs (denied_model fp sb)),
            block fresh (pick obs (throttled fp)), block fresh (pick obs (outage sb)), pick obs (proven fp sb)])"

definition dispatchable :: "eligibility_kind \<Rightarrow> bool" where
  "dispatchable k = (k \<in> {Usable, EUnknown})"

section \<open>What a verdict means\<close>

definition blocks :: "string \<Rightarrow> subject \<Rightarrow> observation \<Rightarrow> bool" where
  "blocks fp sb ob \<longleftrightarrow> bad_key fp ob \<or> exhausted fp sb ob \<or> denied_model fp sb ob \<or> throttled fp ob \<or> outage sb ob"

definition outdone :: "observation list \<Rightarrow> string \<Rightarrow> subject \<Rightarrow> observation \<Rightarrow> bool" where
  "outdone obs fp sb ob \<longleftrightarrow> (\<exists>p \<in> set obs. proven fp sb p \<and> ob_at ob < ob_at p)"

lemma block_pick: "block (fresh_usable obs fp sb) (pick obs P) = None \<longleftrightarrow> (\<forall>ob \<in> set obs. P ob \<longrightarrow> outdone obs fp sb ob)"
proof (cases "last_max ob_at (filter P obs)")
  case None
  then show ?thesis by (auto simp: pick_def block_def filter_empty_conv)
next
  case (Some x)
  note X = last_max_Some [OF Some]
  show ?thesis
  proof (cases "last_max ob_at (filter (proven fp sb) obs)")
    case None
    then show ?thesis using X by (auto simp: Some pick_def block_def fresh_usable_def outdone_def filter_empty_conv)
  next
    case (Some u)
    note U = last_max_Some [OF Some]
    have "block (fresh_usable obs fp sb) (pick obs P) = None \<longleftrightarrow> ob_at x < ob_at u"
      using \<open>last_max ob_at (filter P obs) = Some x\<close> by (simp add: Some pick_def block_def fresh_usable_def)
    also have "\<dots> \<longleftrightarrow> (\<forall>ob \<in> set obs. P ob \<longrightarrow> outdone obs fp sb ob)"
    proof
      assume "ob_at x < ob_at u"
      moreover have "ob_at ob \<le> ob_at x" if "ob \<in> set obs" "P ob" for ob using X that by simp
      ultimately show "\<forall>ob \<in> set obs. P ob \<longrightarrow> outdone obs fp sb ob" using U by (force simp: outdone_def)
    next
      assume "\<forall>ob \<in> set obs. P ob \<longrightarrow> outdone obs fp sb ob"
      then obtain p where "p \<in> set obs" "proven fp sb p" "ob_at x < ob_at p" using X by (auto simp: outdone_def)
      moreover from this have "ob_at p \<le> ob_at u" using U by simp
      ultimately show "ob_at x < ob_at u" by simp
    qed
    finally show ?thesis .
  qed
qed

lemma pick_kind: "block fresh (pick obs P) = Some v \<Longrightarrow> \<exists>ob \<in> set obs. P ob \<and> vd_kind v = ob_kind ob"
  by (force simp: pick_def block_def dest: last_max_Some split: option.splits if_splits)

lemma first_verdict_skip: "first_verdict (None # vs) = first_verdict vs" "first_verdict (Some v # vs) = v"
  by simp_all

text \<open>C34. The verdict of \<open>resolve\<close>. Among the unexpired observations of the provider, a candidate is proven usable exactly when
  an inference with this key and model succeeded and every observation that blocks it (a rejected key, an exhausted
  account, a denied model, a throttle, an outage) is older than such a success; it is unknown exactly when nothing proves it and
  nothing blocks it. In every other case it is not dispatched.\<close>

theorem eligibility_verdict_iff:
  assumes obs: "obs = live_obs s sb now" and fp: "fp = credential_fingerprint sha (sb_key sb)"
  shows "(vd_kind (resolve_eligibility sha s sb now) = Usable \<longleftrightarrow>
      (\<exists>p \<in> set obs. proven fp sb p) \<and> (\<forall>ob \<in> set obs. blocks fp sb ob \<longrightarrow> (\<exists>p \<in> set obs. proven fp sb p \<and> ob_at ob < ob_at p)))
    \<and> (vd_kind (resolve_eligibility sha s sb now) = EUnknown \<longleftrightarrow> (\<forall>ob \<in> set obs. \<not> proven fp sb ob \<and> \<not> blocks fp sb ob))"
proof -
  let ?b = "\<lambda>P. block (fresh_usable obs fp sb) (pick obs P)"
  let ?ps = "[bad_key fp, exhausted fp sb, denied_model fp sb, throttled fp, outage sb]"
  have res: "resolve_eligibility sha s sb now = first_verdict (map ?b ?ps @ [pick obs (proven fp sb)])"
    by (simp add: resolve_eligibility_def Let_def obs fp)
  have hard: "\<not> dispatchable (vd_kind v)" if "?b P = Some v" "P \<in> set ?ps" for P v
    using pick_kind [OF that(1)] that(2)
    by (auto simp: dispatchable_def bad_key_def exhausted_def denied_model_def throttled_def outage_def)
  have first: "first_verdict (map ?b Ps @ [w]) = first_verdict [w] \<and> (\<forall>P \<in> set Ps. ?b P = None)
      \<or> \<not> dispatchable (vd_kind (first_verdict (map ?b Ps @ [w]))) \<and> \<not> (\<forall>P \<in> set Ps. ?b P = None)" if "set Ps \<subseteq> set ?ps" for Ps w
    using that
  proof (induction Ps)
    case (Cons P Ps)
    then show ?case using hard [of P] by (cases "?b P") auto
  qed simp
  have all: "(\<forall>P \<in> set ?ps. ?b P = None) \<longleftrightarrow> (\<forall>ob \<in> set obs. blocks fp sb ob \<longrightarrow> outdone obs fp sb ob)"
    unfolding blocks_def by (simp add: block_pick) blast
  have last: "vd_kind (first_verdict [pick obs (proven fp sb)]) = (if \<exists>p \<in> set obs. proven fp sb p then Usable else EUnknown)"
  proof (cases "last_max ob_at (filter (proven fp sb) obs)")
    case (Some x)
    with last_max_Some [OF Some] show ?thesis by (auto simp: pick_def proven_def)
  qed (auto simp: pick_def filter_empty_conv)
  have out: "\<not> (\<exists>p \<in> set obs. proven fp sb p) \<Longrightarrow> outdone obs fp sb ob \<Longrightarrow> False" for ob by (auto simp: outdone_def)
  consider (clear) "vd_kind (resolve_eligibility sha s sb now) = (if \<exists>p \<in> set obs. proven fp sb p then Usable else EUnknown)"
      "\<forall>ob \<in> set obs. blocks fp sb ob \<longrightarrow> outdone obs fp sb ob"
    | (barred) "\<not> dispatchable (vd_kind (resolve_eligibility sha s sb now))" "\<not> (\<forall>ob \<in> set obs. blocks fp sb ob \<longrightarrow> outdone obs fp sb ob)"
    using first [OF subset_refl, of "pick obs (proven fp sb)"] unfolding res all [symmetric] last [symmetric] by metis
  then show ?thesis
  proof cases
    case clear
    with out show ?thesis unfolding outdone_def by auto
  next
    case barred
    then show ?thesis by (auto simp: dispatchable_def outdone_def)
  qed
qed

text \<open>A key that was rejected at second 5 and proven at second 9.\<close>

definition seen :: "eligibility_kind \<Rightarrow> scope_level \<Rightarrow> u64 \<Rightarrow> observation" where
  "seen k l at = \<lparr>ob_kind = k, ob_level = l, ob_provider = ''acme'', ob_credential = [], ob_account = [], ob_model = ''m'', ob_region = [],
     ob_reason = [], ob_at = at, ob_expires = None, ob_provenance = PInference\<rparr>"

theorem eligibility_verdict_iff_witness:
  "vd_kind (resolve_eligibility id \<lparr>es_obs = [(''a'', seen InvalidCredential LCredential 5), (''b'', seen Usable LModel 9)], es_cap = 4, es_usable_ttl = 60\<rparr>
     \<lparr>sb_provider = ''acme'', sb_key = [], sb_account = None, sb_region = None, sb_model = ''m''\<rparr> 10) = Usable"
proof -
  let ?sb = "\<lparr>sb_provider = ''acme'', sb_key = [], sb_account = None, sb_region = None, sb_model = ''m''\<rparr>"
  let ?s = "\<lparr>es_obs = [(''a'', seen InvalidCredential LCredential 5), (''b'', seen Usable LModel 9)], es_cap = 4, es_usable_ttl = 60\<rparr>"
  have obs: "live_obs ?s ?sb 10 = [seen InvalidCredential LCredential 5, seen Usable LModel 9]"
    by (simp add: live_obs_def seen_def eq_ignore_ascii_case_def unexpired_def)
  have "proven [] ?sb (seen Usable LModel 9)" "ob_at (seen InvalidCredential LCredential 5) < ob_at (seen Usable LModel 9)" "\<not> blocks [] ?sb (seen Usable LModel 9)"
    by (simp_all add: proven_def seen_def blocks_def bad_key_def exhausted_def denied_model_def throttled_def outage_def word_less_nat_alt)
  with eligibility_verdict_iff [of _ ?s ?sb 10 "[]" id, OF obs [symmetric]] show ?thesis by (simp add: credential_fingerprint_def)
qed

end
