(* ===== verification/Cloud_Intent.thy ===== *)
theory Cloud_Intent
  imports Cloud_Eligibility "HOL-Library.Product_Lexorder"
begin

text \<open>
  \<open>crates/susi-gawd-agents/src/cloud_intent.rs\<close>: which candidates may serve an intent and in which order. The floating-point
  parts are arguments: \<open>over_cost\<close> (the cost exceeds the ceiling) and \<open>score\<close>, the place of a candidate's score in the total
  order of \<open>f64\<close>; so is \<open>quota_spent\<close>, the answer of the quota inventory. A slice past the end of the fingerprint panics;
  a panic is \<open>None\<close>.
\<close>

datatype pin_fallback = PinAllow | PinDeny

record intent_constraints =
  ic_min_context :: u64
  ic_modalities :: "string list"
  ic_tools :: bool
  ic_structured :: bool
  ic_residency :: "string option"
  ic_max_latency :: "u64 option"
  ic_pinned :: "string option"
  ic_fallback :: pin_fallback
  ic_discovery :: nat

record cloud_candidate =
  cd_provider :: string
  cd_key :: string
  cd_account :: "string option"
  cd_region :: "string option"
  cd_model :: string
  cd_context :: u64
  cd_modalities :: "string list"
  cd_tools :: bool
  cd_structured :: bool
  cd_residency :: "string option"
  cd_latency :: u64
  cd_free :: bool

definition cand_subject :: "cloud_candidate \<Rightarrow> subject" where
  "cand_subject c = \<lparr>sb_provider = cd_provider c, sb_key = cd_key c, sb_account = cd_account c, sb_region = cd_region c, sb_model = cd_model c\<rparr>"

definition opaque_id :: "(string \<Rightarrow> string) \<Rightarrow> cloud_candidate \<Rightarrow> string option" where
  "opaque_id sha c =
     (let fp = credential_fingerprint sha (cd_key c)
      in if length fp < 8 then None else Some (cd_provider c @ ''/'' @ cd_model c @ ''/'' @ take 8 fp))"

datatype block_reason = BAvailability eligibility_kind | BQuotaExhausted | BContextTooSmall u64 u64 | BMissingModality string | BNoTools
  | BNoStructuredOutput | BResidencyMismatch string string | BOverDeadline u64 u64 | BOverBudget | BPinMismatch

record ranked =
  rk_index :: nat
  rk_candidate :: string
  rk_discovery :: bool
  rk_pinned :: bool
  rk_score :: int

record selection =
  se_ranked :: "ranked list"
  se_rejected :: "(string \<times> block_reason) list"

definition next_after :: "ranked list \<Rightarrow> nat list \<Rightarrow> ranked option" where
  "next_after rs attempted = List.find (\<lambda>r. rk_index r \<notin> set attempted) rs"

definition cost_block :: "(cloud_candidate \<Rightarrow> bool) \<Rightarrow> cloud_candidate \<Rightarrow> block_reason option" where
  "cost_block over_cost c = (if over_cost c then Some BOverBudget else None)"

definition deadline_block :: "(cloud_candidate \<Rightarrow> bool) \<Rightarrow> intent_constraints \<Rightarrow> cloud_candidate \<Rightarrow> block_reason option" where
  "deadline_block over_cost it c =
     (case ic_max_latency it of
        None \<Rightarrow> cost_block over_cost c
      | Some m \<Rightarrow> if m < cd_latency c then Some (BOverDeadline (cd_latency c) m) else cost_block over_cost c)"

definition residency_block :: "(cloud_candidate \<Rightarrow> bool) \<Rightarrow> intent_constraints \<Rightarrow> cloud_candidate \<Rightarrow> block_reason option" where
  "residency_block over_cost it c =
     (case ic_residency it of
        None \<Rightarrow> deadline_block over_cost it c
      | Some req \<Rightarrow>
          if or_empty (cd_residency c) \<noteq> req then Some (BResidencyMismatch req (or_empty (cd_residency c)))
          else deadline_block over_cost it c)"

definition capability_block :: "(cloud_candidate \<Rightarrow> bool) \<Rightarrow> intent_constraints \<Rightarrow> cloud_candidate \<Rightarrow> block_reason option" where
  "capability_block over_cost it c =
     (if cd_context c < ic_min_context it then Some (BContextTooSmall (cd_context c) (ic_min_context it))
      else case List.find (\<lambda>m. m \<notin> set (cd_modalities c)) (ic_modalities it) of
             Some m \<Rightarrow> Some (BMissingModality m)
           | None \<Rightarrow>
               if ic_tools it \<and> \<not> cd_tools c then Some BNoTools
               else if ic_structured it \<and> \<not> cd_structured c then Some BNoStructuredOutput
               else residency_block over_cost it c)"

definition pinned_to :: "intent_constraints \<Rightarrow> cloud_candidate \<Rightarrow> bool" where
  "pinned_to it c = (ic_pinned it = Some (cd_model c))"

text \<open>The loop body of \<open>select\<close>: the reason a candidate is rejected, or the row it is ranked with.\<close>

definition judge ::
  "(string \<Rightarrow> string) \<Rightarrow> (cloud_candidate \<Rightarrow> bool) \<Rightarrow> (cloud_candidate \<Rightarrow> int) \<Rightarrow> (subject \<Rightarrow> u64 \<Rightarrow> bool) \<Rightarrow> intent_constraints
    \<Rightarrow> eligibility_store \<Rightarrow> u64 \<Rightarrow> nat \<Rightarrow> cloud_candidate \<Rightarrow> ((string \<times> block_reason) + ranked) option" where
  "judge sha over_cost score quota_spent it store now idx c =
     (case opaque_id sha c of
        None \<Rightarrow> None
      | Some i \<Rightarrow> Some (
          if ic_pinned it \<noteq> None \<and> \<not> pinned_to it c \<and> ic_fallback it = PinDeny then Inl (i, BPinMismatch)
          else case capability_block over_cost it c of
                 Some r \<Rightarrow> Inl (i, r)
               | None \<Rightarrow>
                   let kind = vd_kind (resolve_eligibility sha store (cand_subject c) now)
                   in if \<not> dispatchable kind then Inl (i, BAvailability kind)
                      else if quota_spent (cand_subject c) now then Inl (i, BQuotaExhausted)
                      else Inr \<lparr>rk_index = idx, rk_candidate = i, rk_discovery = (kind = EUnknown), rk_pinned = pinned_to it c, rk_score = score c\<rparr>))"

definition rank_key :: "ranked \<Rightarrow> bool \<times> bool \<times> int \<times> string" where
  "rank_key r = (\<not> rk_pinned r, rk_discovery r, - rk_score r, rk_candidate r)"

fun bound_discovery :: "nat \<Rightarrow> ranked list \<Rightarrow> ranked list" where
  "bound_discovery n [] = []"
| "bound_discovery n (r # rs) =
     (if rk_discovery r then (case n of 0 \<Rightarrow> bound_discovery 0 rs | Suc k \<Rightarrow> r # bound_discovery k rs) else r # bound_discovery n rs)"

fun those_of :: "'a option list \<Rightarrow> 'a list option" where
  "those_of [] = Some []"
| "those_of (None # xs) = None"
| "those_of (Some x # xs) = map_option ((#) x) (those_of xs)"

definition select ::
  "(string \<Rightarrow> string) \<Rightarrow> (cloud_candidate \<Rightarrow> bool) \<Rightarrow> (cloud_candidate \<Rightarrow> int) \<Rightarrow> (subject \<Rightarrow> u64 \<Rightarrow> bool) \<Rightarrow> intent_constraints
    \<Rightarrow> cloud_candidate list \<Rightarrow> eligibility_store \<Rightarrow> u64 \<Rightarrow> selection option" where
  "select sha over_cost score quota_spent it cs store now =
     (case those_of (map (\<lambda>(idx, c). judge sha over_cost score quota_spent it store now idx c) (List.enumerate 0 cs)) of
        None \<Rightarrow> None
      | Some js \<Rightarrow>
          Some \<lparr>se_ranked = bound_discovery (ic_discovery it) (sort_key rank_key (concat (map (\<lambda>j. case j of Inr r \<Rightarrow> [r] | Inl _ \<Rightarrow> []) js))),
                se_rejected = concat (map (\<lambda>j. case j of Inl x \<Rightarrow> [x] | Inr _ \<Rightarrow> []) js)\<rparr>)"

section \<open>What a selection promises\<close>

lemma those_of_Some: "those_of xs = Some ys \<Longrightarrow> xs = map Some ys"
  by (induction xs arbitrary: ys rule: those_of.induct) auto

lemma those_of_None: "None \<in> set xs \<Longrightarrow> those_of xs = None"
  by (induction xs rule: those_of.induct) auto

lemma bound_discovery_subseq: "subseq (bound_discovery n rs) rs"
  by (induction n rs rule: bound_discovery.induct) (auto split: nat.split)

lemma bound_discovery_set: "set (bound_discovery n rs) \<subseteq> set rs"
  by (induction n rs rule: bound_discovery.induct) (auto split: nat.splits)

lemma bound_discovery_count: "length (filter rk_discovery (bound_discovery n rs)) \<le> n"
  by (induction n rs rule: bound_discovery.induct) (auto split: nat.split)

lemma bound_discovery_proven: "filter (\<lambda>r. \<not> rk_discovery r) (bound_discovery n rs) = filter (\<lambda>r. \<not> rk_discovery r) rs"
  by (induction n rs rule: bound_discovery.induct) (auto split: nat.split)

lemma sorted_subseq: "subseq xs ys \<Longrightarrow> sorted (map f ys) \<Longrightarrow> sorted (map f xs)"
proof (induction rule: list_emb.induct)
  case (list_emb_Cons2 x y xs ys)
  then have "set xs \<subseteq> set ys" by (blast dest: list_emb_set)
  with list_emb_Cons2 show ?case by auto
qed auto

definition judged where
  "judged sha over_cost score quota_spent it cs store now = map (\<lambda>(idx, c). judge sha over_cost score quota_spent it store now idx c) (List.enumerate 0 cs)"

lemma judge_ranked:
  assumes "judge sha over_cost score quota_spent it store now idx c = Some (Inr r)"
  shows "rk_index r = idx" "opaque_id sha c = Some (rk_candidate r)" "capability_block over_cost it c = None"
    "dispatchable (vd_kind (resolve_eligibility sha store (cand_subject c) now))" "\<not> quota_spent (cand_subject c) now"
    "rk_discovery r \<longleftrightarrow> vd_kind (resolve_eligibility sha store (cand_subject c) now) = EUnknown" "rk_pinned r = pinned_to it c"
    "ic_pinned it \<noteq> None \<Longrightarrow> ic_fallback it = PinDeny \<Longrightarrow> pinned_to it c"
  using assms by (auto simp: judge_def Let_def split: option.splits if_splits)

definition ranked_rows :: "((string \<times> block_reason) + ranked) list \<Rightarrow> ranked list" where
  "ranked_rows js = concat (map (\<lambda>j. case j of Inr r \<Rightarrow> [r] | Inl _ \<Rightarrow> []) js)"

lemma ranked_rows_set: "r \<in> set (ranked_rows js) \<longleftrightarrow> Inr r \<in> set js"
  by (auto simp: ranked_rows_def split: sum.splits)

lemma select_Some:
  assumes "select sha over_cost score quota_spent it cs store now = Some sel"
  obtains js where "judged sha over_cost score quota_spent it cs store now = map Some js"
    "se_ranked sel = bound_discovery (ic_discovery it) (sort_key rank_key (ranked_rows js))"
  using assms by (auto simp: select_def judged_def ranked_rows_def dest!: those_of_Some split: option.splits)

lemma judged_nth: "k < length cs \<Longrightarrow> judged sha oc sc qs it cs store now ! k = judge sha oc sc qs it store now k (cs ! k)"
  by (simp add: judged_def nth_enumerate_eq)

lemma select_rows:
  assumes js: "judged sha oc sc qs it cs store now = map Some js"
  shows "length js = length cs" "k < length cs \<Longrightarrow> judge sha oc sc qs it store now k (cs ! k) = Some (js ! k)"
    "r \<in> set (ranked_rows js) \<Longrightarrow> rk_index r < length cs \<and> judge sha oc sc qs it store now (rk_index r) (cs ! rk_index r) = Some (Inr r)"
proof -
  show len: "length js = length cs" using arg_cong [OF js, of length] by (simp add: judged_def)
  have nth: "judge sha oc sc qs it store now k (cs ! k) = Some (js ! k)" if "k < length cs" for k
    using judged_nth [OF that] js that len by (metis nth_map)
  then show "k < length cs \<Longrightarrow> judge sha oc sc qs it store now k (cs ! k) = Some (js ! k)" .
  assume "r \<in> set (ranked_rows js)"
  then have "Inr r \<in> set js" by (simp add: ranked_rows_set)
  then obtain k where k: "k < length js" "js ! k = Inr r" by (auto simp: in_set_conv_nth)
  with nth [of k] len judge_ranked(1) [of sha oc sc qs it store now k "cs ! k" r]
  show "rk_index r < length cs \<and> judge sha oc sc qs it store now (rk_index r) (cs ! rk_index r) = Some (Inr r)" by auto
qed

lemma rows_index:
  "(\<And>k r. k < length js \<Longrightarrow> js ! k = Inr r \<Longrightarrow> rk_index r = off + k) \<Longrightarrow> subseq (map rk_index (ranked_rows js)) [off..<off + length js]"
proof (induction js arbitrary: off)
  case (Cons j js)
  have "subseq (map rk_index (ranked_rows js)) [Suc off..<Suc off + length js]"
    using Cons.prems [of "Suc k" for k] by (intro Cons.IH) force
  moreover have "j = Inr r \<Longrightarrow> rk_index r = off" for r using Cons.prems [of 0] by simp
  moreover have "[off..<off + length (j # js)] = off # [Suc off..<Suc off + length js]" by (simp add: upt_rec)
  ultimately show ?case by (cases j) (auto simp: ranked_rows_def)
qed (simp add: ranked_rows_def)

text \<open>The ranked rows name each candidate at most once.\<close>

lemma select_distinct:
  assumes "select sha over_cost score quota_spent it cs store now = Some sel"
  shows "distinct (map rk_index (se_ranked sel))" "length (se_ranked sel) \<le> length cs" "r \<in> set (se_ranked sel) \<Longrightarrow> rk_index r < length cs"
proof -
  obtain js where js: "judged sha over_cost score quota_spent it cs store now = map Some js"
    and rk: "se_ranked sel = bound_discovery (ic_discovery it) (sort_key rank_key (ranked_rows js))" using select_Some [OF assms] .
  note R = select_rows [OF js]
  have sub: "subseq (map rk_index (ranked_rows js)) [0..<0 + length js]"
    using R(1,2) judge_ranked(1) by (intro rows_index) (metis add_0)
  have bs: "subseq (se_ranked sel) (sort_key rank_key (ranked_rows js))" unfolding rk by (rule bound_discovery_subseq)
  have "distinct (map rk_index (ranked_rows js))" using sub by (rule subseq_distinct) simp
  then have "distinct (map rk_index (sort_key rank_key (ranked_rows js)))" by (simp add: distinct_map)
  then show "distinct (map rk_index (se_ranked sel))" using subseq_map [OF bs] subseq_distinct by blast
  show "length (se_ranked sel) \<le> length cs" using list_emb_length [OF bs] list_emb_length [OF sub] R(1) by simp
  show "r \<in> set (se_ranked sel) \<Longrightarrow> rk_index r < length cs" using R(3) bound_discovery_set unfolding rk by fastforce
qed

text \<open>Selection. Every candidate a selection ranks exists, has the capabilities the intent asks for, is not blocked by
  what past calls showed (its verdict is usable or unknown) nor by its quota, and is the pinned model where falling back is
  denied. The order is: the pinned model, then proven candidates, then unknown ones, each by score; at most the discovery
  budget of unknown ones; and no proven candidate that passes the filters is missing.\<close>

theorem selection_sound:
  assumes sel: "select sha over_cost score quota_spent it cs store now = Some sel"
  shows "(\<forall>r \<in> set (se_ranked sel). rk_index r < length cs
        \<and> opaque_id sha (cs ! rk_index r) = Some (rk_candidate r) \<and> capability_block over_cost it (cs ! rk_index r) = None
        \<and> dispatchable (vd_kind (resolve_eligibility sha store (cand_subject (cs ! rk_index r)) now))
        \<and> \<not> quota_spent (cand_subject (cs ! rk_index r)) now
        \<and> (ic_pinned it \<noteq> None \<and> ic_fallback it = PinDeny \<longrightarrow> pinned_to it (cs ! rk_index r)))
    \<and> sorted (map rank_key (se_ranked sel)) \<and> length (filter rk_discovery (se_ranked sel)) \<le> ic_discovery it
    \<and> (\<forall>k < length cs. vd_kind (resolve_eligibility sha store (cand_subject (cs ! k)) now) = Usable \<and> capability_block over_cost it (cs ! k) = None
        \<and> \<not> quota_spent (cand_subject (cs ! k)) now \<and> (ic_pinned it = None \<or> ic_fallback it = PinAllow \<or> pinned_to it (cs ! k)) \<longrightarrow>
        k \<in> rk_index ` set (se_ranked sel))"
proof -
  obtain js where js: "judged sha over_cost score quota_spent it cs store now = map Some js"
    and rk: "se_ranked sel = bound_discovery (ic_discovery it) (sort_key rank_key (ranked_rows js))" using select_Some [OF sel] .
  note R = select_rows [OF js]
  have sub: "set (se_ranked sel) \<subseteq> set (ranked_rows js)" unfolding rk using bound_discovery_set by fastforce
  have sound: "rk_index r < length cs
        \<and> opaque_id sha (cs ! rk_index r) = Some (rk_candidate r) \<and> capability_block over_cost it (cs ! rk_index r) = None
        \<and> dispatchable (vd_kind (resolve_eligibility sha store (cand_subject (cs ! rk_index r)) now))
        \<and> \<not> quota_spent (cand_subject (cs ! rk_index r)) now
        \<and> (ic_pinned it \<noteq> None \<and> ic_fallback it = PinDeny \<longrightarrow> pinned_to it (cs ! rk_index r))"
    if mem: "r \<in> set (se_ranked sel)" for r
  proof -
    have "rk_index r < length cs" "judge sha over_cost score quota_spent it store now (rk_index r) (cs ! rk_index r) = Some (Inr r)" using R(3) sub mem by blast+
    with judge_ranked [OF this(2)] show ?thesis by auto
  qed
  have srt: "sorted (map rank_key (se_ranked sel))" unfolding rk by (rule sorted_subseq [OF bound_discovery_subseq]) simp
  have complete: "k \<in> rk_index ` set (se_ranked sel)"
    if k: "k < length cs" and use: "vd_kind (resolve_eligibility sha store (cand_subject (cs ! k)) now) = Usable"
      and ok: "capability_block over_cost it (cs ! k) = None" "\<not> quota_spent (cand_subject (cs ! k)) now"
        "ic_pinned it = None \<or> ic_fallback it = PinAllow \<or> pinned_to it (cs ! k)" for k
  proof -
    obtain i where i: "opaque_id sha (cs ! k) = Some i" using R(2) [OF k] by (auto simp: judge_def split: option.splits)
    have "\<not> (ic_pinned it \<noteq> None \<and> \<not> pinned_to it (cs ! k) \<and> ic_fallback it = PinDeny)" using ok(3) by auto
    then have "judge sha over_cost score quota_spent it store now k (cs ! k) =
        Some (Inr \<lparr>rk_index = k, rk_candidate = i, rk_discovery = False, rk_pinned = pinned_to it (cs ! k), rk_score = score (cs ! k)\<rparr>)"
      unfolding judge_def Let_def i option.case ok(1) use using ok(2) by (simp add: dispatchable_def)
    with R(2) [OF k] obtain r where r: "js ! k = Inr r" "rk_index r = k" "\<not> rk_discovery r" by (metis option.inject ranked.select_convs(1,3))
    have "js ! k \<in> set js" using k R(1) by simp
    then have "r \<in> set (ranked_rows js)" using r(1) by (simp add: ranked_rows_set)
    then have "r \<in> set (filter (\<lambda>r. \<not> rk_discovery r) (sort_key rank_key (ranked_rows js)))" using r(3) by simp
    then have "r \<in> set (filter (\<lambda>r. \<not> rk_discovery r) (se_ranked sel))" unfolding rk bound_discovery_proven .
    then have "r \<in> set (se_ranked sel)" by simp
    with r(2) show ?thesis by blast
  qed
  show ?thesis using sound srt complete bound_discovery_count [of "ic_discovery it"] by (simp add: rk)
qed

text \<open>A candidate without a key (the type allows it, for keyless endpoints) makes the whole selection panic: its
  fingerprint is empty and \<open>opaque_id\<close> slices its first eight bytes.\<close>

theorem keyless_candidate_panics:
  assumes "c \<in> set cs" and "cd_key c = []"
  shows "select sha over_cost score quota_spent it cs store now = None"
proof -
  obtain k where "k < length cs" "cs ! k = c" using assms(1) by (auto simp: in_set_conv_nth)
  moreover have "judge sha over_cost score quota_spent it store now k c = None"
    using assms(2) by (simp add: judge_def opaque_id_def credential_fingerprint_def)
  ultimately have "None \<in> set (judged sha over_cost score quota_spent it cs store now)"
    using judged_nth [of k cs] by (metis judged_def length_enumerate length_map nth_mem)
  then show ?thesis by (simp add: select_def judged_def those_of_None)
qed

text \<open>Two candidates, one whose key was rejected at second 10.\<close>

definition demo_cand :: "string \<Rightarrow> cloud_candidate" where
  "demo_cand key = \<lparr>cd_provider = ''acme'', cd_key = key, cd_account = None, cd_region = None, cd_model = ''m'', cd_context = 100,
     cd_modalities = [], cd_tools = True, cd_structured = True, cd_residency = None, cd_latency = 5, cd_free = False\<rparr>"

definition demo_intent_constraints :: intent_constraints where
  "demo_intent_constraints = \<lparr>ic_min_context = 10, ic_modalities = [], ic_tools = True, ic_structured = False, ic_residency = None,
     ic_max_latency = None, ic_pinned = None, ic_fallback = PinAllow, ic_discovery = 2\<rparr>"

definition demo_sha :: "string \<Rightarrow> string" where
  "demo_sha k = k @ k @ k @ k"

definition demo_store :: eligibility_store where
  "demo_store = \<lparr>es_obs = [(''k'', inference_observation demo_sha 3600 (cand_subject (demo_cand ''bb'')) (Failed (Some 401) [] None) 10)], es_cap = 4, es_usable_ttl = 3600\<rparr>"

lemma demo_select: "map_option (\<lambda>s. map rk_index (se_ranked s)) (select demo_sha (\<lambda>_. False) (\<lambda>_. 0) (\<lambda>_ _. False) demo_intent_constraints
    [demo_cand ''aa'', demo_cand ''bb''] demo_store 20) = Some [0]"
  by code_simp

theorem selection_sound_witness:
  "\<exists>sel. select demo_sha (\<lambda>_. False) (\<lambda>_. 0) (\<lambda>_ _. False) demo_intent_constraints [demo_cand ''aa'', demo_cand ''bb''] demo_store 20 = Some sel
     \<and> rk_index ` set (se_ranked sel) = {0} \<and> length (filter rk_discovery (se_ranked sel)) \<le> 2
     \<and> dispatchable (vd_kind (resolve_eligibility demo_sha demo_store (cand_subject (demo_cand ''aa'')) 20))"
proof -
  obtain sel where sel: "select demo_sha (\<lambda>_. False) (\<lambda>_. 0) (\<lambda>_ _. False) demo_intent_constraints [demo_cand ''aa'', demo_cand ''bb''] demo_store 20 = Some sel"
    and idx: "map rk_index (se_ranked sel) = [0]" using demo_select by auto
  note S = selection_sound [OF sel]
  obtain r where r: "se_ranked sel = [r]" "rk_index r = 0" using idx by auto
  have "dispatchable (vd_kind (resolve_eligibility demo_sha demo_store (cand_subject (demo_cand ''aa'')) 20))" using S r by simp
  moreover have "length (filter rk_discovery (se_ranked sel)) \<le> 2" using S by (simp add: demo_intent_constraints_def)
  ultimately show ?thesis using sel r by auto
qed

theorem keyless_candidate_panics_witness:
  "select demo_sha (\<lambda>_. False) (\<lambda>_. 0) (\<lambda>_ _. False) demo_intent_constraints [demo_cand ''aa'', demo_cand []] demo_store 20 = None"
  using keyless_candidate_panics [of "demo_cand []" "[demo_cand ''aa'', demo_cand []]"] by (simp add: demo_cand_def)

end
