(* ===== verification/Cloud_Lockout.thy ===== *)
theory Cloud_Lockout
  imports Cloud_Eligibility
begin

text \<open>
  \<open>crates/susi-gawd-swarm/src/cloud_lockout.rs\<close>: cooldowns, circuit breaking and half-open probes per scope. The clock is an
  argument of every operation that reads it. \<open>sat_mul\<close> and \<open>sat_add\<close> are the saturating operations; the plain \<open>*\<close> of the
  jitter is shown not to wrap.
\<close>

record lockout_policy =
  lp_base :: u64
  lp_max :: u64
  lp_failures :: u32
  lp_probes :: u32
  lp_jitter :: u32

definition lockout_default :: lockout_policy where
  "lockout_default = \<lparr>lp_base = 1000, lp_max = 300000, lp_failures = 3, lp_probes = 1, lp_jitter = 200\<rparr>"

datatype circuit = Closed | Open | HalfOpen

datatype permit = PAllowed | PCooldown u64 | PCircuitOpen u64 | PProbesExhausted | PPermanent

record lock_entry =
  le_circuit :: circuit
  le_failures :: u32
  le_cooldown :: u64
  le_retry :: u64
  le_probes :: u32
  le_permanent :: "string option"
  le_permanent_kind :: "eligibility_kind option"
  le_last_kind :: "eligibility_kind option"
  le_seen :: u64

definition entry_default :: lock_entry where
  "entry_default = \<lparr>le_circuit = Closed, le_failures = 0, le_cooldown = 0, le_retry = 0, le_probes = 0, le_permanent = None,
     le_permanent_kind = None, le_last_kind = None, le_seen = 0\<rparr>"

record lockout_tracker =
  lk_entries :: "(string, lock_entry) btree_map"
  lk_cap :: nat
  lk_policy :: lockout_policy

definition tracker_new :: "lockout_policy \<Rightarrow> lockout_tracker" where
  "tracker_new p = \<lparr>lk_entries = [], lk_cap = 4096, lk_policy = p\<rparr>"

definition tracker_with_capacity :: "nat \<Rightarrow> lockout_policy \<Rightarrow> lockout_tracker" where
  "tracker_with_capacity cap p = \<lparr>lk_entries = [], lk_cap = max cap 1, lk_policy = p\<rparr>"

section \<open>Backoff\<close>

definition jitter_step :: "char \<Rightarrow> u64 \<Rightarrow> u64" where
  "jitter_step b h = xor (h * 0x100000001b3) (of_nat (of_char b))"

definition jitter_ms :: "string \<Rightarrow> u32 \<Rightarrow> u64" where
  "jitter_ms scope attempt = fold jitter_step scope (xor 0x9e3779b97f4a7c15 (ucast attempt)) mod 1000"

definition backoff_ms :: "lockout_policy \<Rightarrow> string \<Rightarrow> u32 \<Rightarrow> u64" where
  "backoff_ms p scope failures =
     (let shift = min (sat_sub failures 1) 16;
          base = sat_mul (lp_base p) (push_bit (unat shift) 1);
          jitter = sat_mul base (ucast (min (lp_jitter p) 1000)) div 1000 * jitter_ms scope failures div 1000
      in min (sat_add base jitter) (lp_max p))"

definition now_ms :: "u64 \<Rightarrow> u64" where
  "now_ms clock = sat_mul clock 1000"

section \<open>Entries\<close>

definition evict_stalest :: "string \<Rightarrow> lockout_tracker \<Rightarrow> lockout_tracker" where
  "evict_stalest scope t =
     (if bt_get (lk_entries t) scope = None \<and> lk_cap t \<le> length (lk_entries t)
      then (case first_min (\<lambda>(_, e). le_seen e) (lk_entries t) of
              None \<Rightarrow> t
            | Some (k, _) \<Rightarrow> t\<lparr>lk_entries := bt_remove k (lk_entries t)\<rparr>)
      else t)"

text \<open>\<open>self.entry(scope, now)\<close> followed by an update of the entry it returns.\<close>

definition with_entry :: "string \<Rightarrow> u64 \<Rightarrow> (lock_entry \<Rightarrow> lock_entry) \<Rightarrow> lockout_tracker \<Rightarrow> lockout_tracker" where
  "with_entry scope now f t =
     (let t1 = evict_stalest scope t;
          e = (case bt_get (lk_entries t1) scope of None \<Rightarrow> entry_default | Some e \<Rightarrow> e)
      in t1\<lparr>lk_entries := bt_insert scope (f (e\<lparr>le_seen := max (le_seen e) now\<rparr>)) (lk_entries t1)\<rparr>)"

definition entry_of :: "string \<Rightarrow> lockout_tracker \<Rightarrow> lock_entry" where
  "entry_of scope t = (case bt_get (lk_entries t) scope of None \<Rightarrow> entry_default | Some e \<Rightarrow> e)"

definition until_ms :: "lock_entry \<Rightarrow> u64" where
  "until_ms e = max (le_cooldown e) (le_retry e)"

definition hard_kind :: "eligibility_kind \<Rightarrow> bool" where
  "hard_kind k = (k \<in> {InvalidCredential, InsufficientCredit, AccessDenied, UnsupportedRequest})"

definition lk_permit :: "lockout_tracker \<Rightarrow> string \<Rightarrow> eligibility_kind \<Rightarrow> u64 \<Rightarrow> permit" where
  "lk_permit t scope verdict clock =
     (let now = now_ms clock
      in case bt_get (lk_entries t) scope of
           None \<Rightarrow> PAllowed
         | Some e \<Rightarrow>
             if le_permanent e \<noteq> None then PPermanent
             else if hard_kind verdict then PPermanent
             else (case le_circuit e of
                 Closed \<Rightarrow> PAllowed
               | Open \<Rightarrow> if until_ms e \<le> now then PAllowed else PCircuitOpen (until_ms e)
               | HalfOpen \<Rightarrow>
                   if now < until_ms e then PCooldown (until_ms e)
                   else if lp_probes (lk_policy t) \<le> le_probes e then PProbesExhausted
                   else PAllowed))"

definition acquire_probe :: "string \<Rightarrow> u64 \<Rightarrow> lockout_tracker \<Rightarrow> bool \<times> lockout_tracker" where
  "acquire_probe scope clock t =
     (let t1 = with_entry scope (now_ms clock) id t;
          e = entry_of scope t1
      in if le_circuit e = HalfOpen \<and> le_probes e < lp_probes (lk_policy t)
         then (True, with_entry scope (now_ms clock) (\<lambda>e. e\<lparr>le_probes := le_probes e + 1\<rparr>) t)
         else (le_circuit e = Closed, t1))"

definition release_probe :: "string \<Rightarrow> u64 \<Rightarrow> lockout_tracker \<Rightarrow> lockout_tracker" where
  "release_probe scope clock t = with_entry scope (now_ms clock) (\<lambda>e. e\<lparr>le_probes := sat_sub (le_probes e) 1\<rparr>) t"

fun kind_name :: "eligibility_kind \<Rightarrow> string" where
  "kind_name Usable = ''Usable''"
| "kind_name EUnknown = ''Unknown''"
| "kind_name InvalidCredential = ''InvalidCredential''"
| "kind_name InsufficientCredit = ''InsufficientCredit''"
| "kind_name QuotaExhausted = ''QuotaExhausted''"
| "kind_name RateLimited = ''RateLimited''"
| "kind_name ServiceUnavailable = ''ServiceUnavailable''"
| "kind_name AccessDenied = ''AccessDenied''"
| "kind_name UnsupportedRequest = ''UnsupportedRequest''"

definition count_failure :: "lock_entry \<Rightarrow> lock_entry" where
  "count_failure e = e\<lparr>le_failures := sat_add (le_failures e) 1, le_probes := 0\<rparr>"

definition trip_if_needed :: "string \<Rightarrow> u64 \<Rightarrow> lockout_tracker \<Rightarrow> lockout_tracker" where
  "trip_if_needed scope until t =
     with_entry scope until (\<lambda>e. e\<lparr>le_circuit := (if lp_failures (lk_policy t) \<le> le_failures e then Open else HalfOpen)\<rparr>) t"

definition retry_until :: "u64 option \<Rightarrow> u64 \<Rightarrow> u64 \<Rightarrow> u64" where
  "retry_until retry_after now backoff = sat_add now (case retry_after of None \<Rightarrow> backoff | Some s \<Rightarrow> sat_mul s 1000)"

definition lk_record :: "string \<Rightarrow> inference_result \<Rightarrow> u64 \<Rightarrow> lockout_tracker \<Rightarrow> lockout_tracker" where
  "lk_record scope res clock t =
     (let now = now_ms clock
      in case res of
           Success \<Rightarrow> t\<lparr>lk_entries := bt_remove scope (lk_entries t)\<rparr>
         | Failed status body retry_after \<Rightarrow>
             let kind = fst (classify_failure status body);
                 t1 = with_entry scope now (\<lambda>e. e\<lparr>le_last_kind := Some kind\<rparr>) t
             in if hard_kind kind then
                  with_entry scope now (\<lambda>e. e\<lparr>le_permanent := Some (kind_name kind), le_permanent_kind := Some kind, le_probes := 0\<rparr>) t1
                else if kind = Usable then t1\<lparr>lk_entries := bt_remove scope (lk_entries t1)\<rparr>
                else
                  let t2 = with_entry scope now count_failure t1;
                      back = backoff_ms (lk_policy t) scope (le_failures (entry_of scope t2));
                      until = retry_until (if kind \<in> {RateLimited, QuotaExhausted} then retry_after else None) now back;
                      t3 = with_entry scope now (\<lambda>e. if kind = RateLimited then e\<lparr>le_retry := until\<rparr> else e\<lparr>le_cooldown := until\<rparr>) t2
                  in trip_if_needed scope until t3)"

definition cool :: "u64 \<Rightarrow> lock_entry \<Rightarrow> lock_entry" where
  "cool now e = (if le_circuit e = Open \<and> until_ms e \<le> now then e\<lparr>le_circuit := HalfOpen\<rparr> else e)"

definition note_attempt :: "string \<Rightarrow> u64 \<Rightarrow> lockout_tracker \<Rightarrow> lockout_tracker" where
  "note_attempt scope clock t = with_entry scope (now_ms clock) (cool (now_ms clock)) t"

definition lift_if_fresh_evidence :: "string \<Rightarrow> bool \<Rightarrow> lockout_tracker \<Rightarrow> lockout_tracker" where
  "lift_if_fresh_evidence scope usable t = (if usable then t\<lparr>lk_entries := bt_remove scope (lk_entries t)\<rparr> else t)"

definition lk_tick :: "u64 \<Rightarrow> lockout_tracker \<Rightarrow> lockout_tracker" where
  "lk_tick clock t = t\<lparr>lk_entries := map (\<lambda>(k, e). (k, cool (now_ms clock) e)) (lk_entries t)\<rparr>"

section \<open>Health\<close>

datatype health_class = FRateLimited | FInsufficientQuota | FInvalidCredential | FServiceError | FUnsupported | FUnknown

datatype model_health = HUnknown | HHealthy | HDegraded string | HUnhealthy health_class string | HDead health_class

fun health_class_of :: "eligibility_kind \<Rightarrow> health_class" where
  "health_class_of RateLimited = FRateLimited"
| "health_class_of QuotaExhausted = FInsufficientQuota"
| "health_class_of InsufficientCredit = FInsufficientQuota"
| "health_class_of InvalidCredential = FInvalidCredential"
| "health_class_of AccessDenied = FInvalidCredential"
| "health_class_of ServiceUnavailable = FServiceError"
| "health_class_of UnsupportedRequest = FUnsupported"
| "health_class_of Usable = FUnknown"
| "health_class_of EUnknown = FUnknown"

definition permanent_class :: "lock_entry \<Rightarrow> health_class" where
  "permanent_class e =
     (case le_permanent_kind e of
        Some k \<Rightarrow> health_class_of k
      | None \<Rightarrow>
          let reason = (case le_permanent e of None \<Rightarrow> [] | Some r \<Rightarrow> r)
          in if sublist ''InsufficientCredit'' reason then FInsufficientQuota
             else if sublist ''Unsupported'' reason then FUnsupported
             else FInvalidCredential)"

definition health_no_entry :: "eligibility_kind \<Rightarrow> model_health" where
  "health_no_entry v =
     (case v of
        Usable \<Rightarrow> HHealthy
      | InvalidCredential \<Rightarrow> HDead FInvalidCredential
      | AccessDenied \<Rightarrow> HDead FInvalidCredential
      | InsufficientCredit \<Rightarrow> HDead FInsufficientQuota
      | UnsupportedRequest \<Rightarrow> HDead FUnsupported
      | QuotaExhausted \<Rightarrow> HUnhealthy FInsufficientQuota ''out of quota until provider reset''
      | RateLimited \<Rightarrow> HUnhealthy FRateLimited ''rate limited''
      | ServiceUnavailable \<Rightarrow> HDegraded ''timeouts or provider 5xx''
      | EUnknown \<Rightarrow> HUnknown)"

definition health_soft :: "lock_entry \<Rightarrow> eligibility_kind \<Rightarrow> u64 \<Rightarrow> model_health" where
  "health_soft e kind now =
     (let until = until_ms e;
          cooling = (now < until);
          num = show_nat (unat until)
      in if kind = RateLimited then
           HUnhealthy FRateLimited (if cooling then ''cooling until '' @ num @ '' ms (Retry-After honoured)'' else ''rate limited'')
         else if kind = QuotaExhausted then
           HUnhealthy FInsufficientQuota (if cooling then ''out of quota until '' @ num @ '' ms'' else ''out of quota'')
         else if le_circuit e = Open \<and> cooling then HUnhealthy FServiceError (''circuit open until '' @ num @ '' ms'')
         else if 0 < le_failures e then
           HDegraded (if cooling then ''intermittent failures; recovering at '' @ num @ '' ms'' else ''intermittent failures'')
         else if kind = Usable then HHealthy
         else if kind = ServiceUnavailable then HDegraded ''timeouts or provider 5xx''
         else HUnknown)"

definition lk_health :: "lockout_tracker \<Rightarrow> string \<Rightarrow> eligibility_kind \<Rightarrow> u64 \<Rightarrow> model_health" where
  "lk_health t scope verdict clock =
     (let now = now_ms clock
      in case bt_get (lk_entries t) scope of
           None \<Rightarrow> health_no_entry verdict
         | Some e \<Rightarrow>
             if le_permanent e \<noteq> None then HDead (permanent_class e)
             else
               let kind = (if verdict = EUnknown then (case le_last_kind e of None \<Rightarrow> EUnknown | Some k \<Rightarrow> k) else verdict)
               in if kind = InvalidCredential \<or> kind = AccessDenied then HDead FInvalidCredential
                  else if kind = InsufficientCredit then HDead FInsufficientQuota
                  else if kind = UnsupportedRequest then HDead FUnsupported
                  else health_soft e kind now)"

end
