(* ===== verification/Cloud_Lockout_Run.thy ===== *)
theory Cloud_Lockout_Run
  imports Cloud_Lockout
begin

text \<open>
  Facts about the lockout tracker: the size of a backoff, what a sequence of operations keeps of a cooldown, and how
  \<open>permit\<close> and \<open>health\<close> agree.
\<close>

section \<open>Backoff\<close>

definition backoff_base :: "lockout_policy \<Rightarrow> nat \<Rightarrow> nat" where
  "backoff_base p f = min (unat (lp_base p) * 2 ^ min (f - 1) 16) (2 ^ 64 - 1)"

lemma unat_ucast_32_64: "unat (ucast (x :: u32) :: u64) = unat x"
proof -
  have "unat x < 2 ^ 64" using unat_less_pow [of x] by (simp add: order.strict_trans)
  then show ?thesis by (simp add: unsigned_ucast_eq take_bit_nat_eq_self)
qed

lemma unat_two_power: "k < 64 \<Longrightarrow> unat ((2::u64) ^ k) = 2 ^ k"
proof -
  assume "k < 64"
  then have "(2::nat) ^ k < 2 ^ 64" by (rule power_strict_increasing) simp
  moreover have "(2::u64) ^ k = of_nat (2 ^ k)" by simp
  ultimately show ?thesis by (simp only: unat_of_nat) simp
qed

lemma unat_shift: "unat ((2::u64) ^ unat (min (sat_sub f 1) (16::u32))) = 2 ^ min (unat f - 1) 16"
proof -
  have "unat (min (sat_sub f 1) (16::u32)) = min (unat f - 1) 16" by (simp add: unats)
  then show ?thesis by (simp add: unat_two_power)
qed

lemma mul_div_le: "a \<le> 1000 \<Longrightarrow> j < 1000 \<Longrightarrow> min (b * a) m div 1000 * j div 1000 \<le> (b::nat)"
proof -
  assume a: "a \<le> 1000" and j: "j < 1000"
  have "min (b * a) m div 1000 \<le> b * 1000 div 1000" by (rule div_le_mono) (use a in \<open>simp add: min.coboundedI1\<close>)
  then have "min (b * a) m div 1000 * j \<le> b * 1000" using j by (intro mult_le_mono) auto
  then have "min (b * a) m div 1000 * j div 1000 \<le> b * 1000 div 1000" by (rule div_le_mono)
  then show ?thesis by simp
qed

lemma unat_backoff:
  "\<exists>j. j \<le> backoff_base p (unat f) \<and> unat (backoff_ms p scope f) = min (min (backoff_base p (unat f) + j) (2 ^ 64 - 1)) (unat (lp_max p))"
proof -
  define base where "base = sat_mul (lp_base p) (push_bit (unat (min (sat_sub f 1) (16::u32))) (1::u64))"
  define ppt where "ppt = (ucast (min (lp_jitter p) 1000) :: u64)"
  define jit where "jit = jitter_ms scope f"
  have ub: "unat base = backoff_base p (unat f)"
    using unat_shift [of f] by (simp add: base_def backoff_base_def unat_sat_mul)
  have up: "unat ppt \<le> 1000"
  proof -
    have "unat ppt = unat (min (lp_jitter p) 1000)" unfolding ppt_def by (rule unat_ucast_32_64)
    then show ?thesis by (simp add: unats)
  qed
  have uj: "unat jit < 1000" by (simp add: jit_def jitter_ms_def unats)
  have us: "unat (sat_mul base ppt div 1000) = min (unat base * unat ppt) (2 ^ 64 - 1) div 1000" by (simp add: unats)
  have fits: "min (unat base * unat ppt) (2 ^ 64 - 1) div 1000 * unat jit < 2 ^ 64"
  proof -
    have "min (unat base * unat ppt) (2 ^ 64 - 1) div 1000 * unat jit \<le> (2 ^ 64 - 1) div 1000 * 999"
      using uj by (intro mult_le_mono div_le_mono) auto
    then show ?thesis by simp
  qed
  then have "unat (sat_mul base ppt div 1000 * jit) = min (unat base * unat ppt) (2 ^ 64 - 1) div 1000 * unat jit"
    unfolding us [symmetric] by (simp only: unat_word_ariths) simp
  then have uq: "unat (sat_mul base ppt div 1000 * jit div 1000) = min (unat base * unat ppt) (2 ^ 64 - 1) div 1000 * unat jit div 1000"
    by (simp add: unats)
  have "backoff_ms p scope f = min (sat_add base (sat_mul base ppt div 1000 * jit div 1000)) (lp_max p)"
    by (simp add: backoff_ms_def Let_def base_def ppt_def jit_def)
  then have "unat (backoff_ms p scope f) = min (min (unat base + unat (sat_mul base ppt div 1000 * jit div 1000)) (2 ^ 64 - 1)) (unat (lp_max p))"
    by (simp add: unats)
  moreover have "unat (sat_mul base ppt div 1000 * jit div 1000) \<le> unat base"
    unfolding uq by (rule mul_div_le [OF up uj])
  ultimately show ?thesis unfolding ub by blast
qed

lemma backoff_base_Suc: "1 \<le> f \<Longrightarrow> f \<le> 16 \<Longrightarrow> backoff_base p (Suc f) = min (2 * backoff_base p f) (2 ^ 64 - 1)"
proof -
  assume f: "1 \<le> f" "f \<le> 16"
  then obtain g where g: "f = Suc g" "g < 16" by (cases f) auto
  then have "min (Suc f - 1) 16 = Suc g" "min (f - 1) 16 = g" by auto
  then show ?thesis by (simp add: backoff_base_def min_def)
qed

text \<open>C33. The backoff. Nothing in its computation wraps, the plain multiplication of the jitter included. The cooldown after
  the \<open>f\<close>-th consecutive failure is at least \<open>base * 2^(f-1)\<close> (doubling stops at 16) and at most twice that, both capped by
  the policy's maximum; so until the doubling stops a further failure never shortens it.\<close>

theorem backoff_bounds:
  fixes f :: u32
  shows "min (backoff_base p (unat f)) (unat (lp_max p)) \<le> unat (backoff_ms p scope f)
    \<and> unat (backoff_ms p scope f) \<le> min (2 * backoff_base p (unat f)) (unat (lp_max p))
    \<and> (1 \<le> f \<and> f \<le> 16 \<longrightarrow> unat (backoff_ms p scope f) \<le> unat (backoff_ms p scope (f + 1)))"
proof -
  have top: "backoff_base p k \<le> 2 ^ 64 - 1" for k by (simp add: backoff_base_def)
  have lo: "min (backoff_base p (unat g)) (unat (lp_max p)) \<le> unat (backoff_ms p scope g)" for g :: u32
    using unat_backoff [of p g scope] top [of "unat g"] by auto
  have hi: "unat (backoff_ms p scope g) \<le> min (min (2 * backoff_base p (unat g)) (2 ^ 64 - 1)) (unat (lp_max p))" for g :: u32
    using unat_backoff [of p g scope] by auto
  have "unat (backoff_ms p scope f) \<le> unat (backoff_ms p scope (f + 1))" if "1 \<le> f" "f \<le> 16"
  proof -
    have f: "1 \<le> unat f" "unat f \<le> 16" using that by (simp_all add: word_le_nat_alt)
    then have s: "unat (f + 1) = Suc (unat f)" by (simp add: unat_word_ariths)
    have "min (min (2 * backoff_base p (unat f)) (2 ^ 64 - 1)) (unat (lp_max p)) \<le> unat (backoff_ms p scope (f + 1))"
      using lo [of "f + 1"] unfolding s backoff_base_Suc [OF f] .
    with hi [of f] show ?thesis by (rule order_trans)
  qed
  then show ?thesis using lo [of f] hi [of f] by auto
qed

theorem backoff_bounds_witness:
  "unat (backoff_ms lockout_default ''p/m'' 2) \<le> unat (backoff_ms lockout_default ''p/m'' 3)
   \<and> 2000 \<le> unat (backoff_ms lockout_default ''p/m'' 2) \<and> unat (backoff_ms lockout_default ''p/m'' 2) \<le> 4000"
  using backoff_bounds [of lockout_default 2 "''p/m''"] by (simp add: lockout_default_def backoff_base_def)

section \<open>Runs of operations\<close>

datatype lock_op = ORecord string inference_result u64 | OAcquire string u64 | ORelease string u64 | ONote string u64
  | OLift string bool | OTick u64

fun lk_apply :: "lock_op \<Rightarrow> lockout_tracker \<Rightarrow> lockout_tracker" where
  "lk_apply (ORecord scope res clock) t = lk_record scope res clock t"
| "lk_apply (OAcquire scope clock) t = snd (acquire_probe scope clock t)"
| "lk_apply (ORelease scope clock) t = release_probe scope clock t"
| "lk_apply (ONote scope clock) t = note_attempt scope clock t"
| "lk_apply (OLift scope usable) t = lift_if_fresh_evidence scope usable t"
| "lk_apply (OTick clock) t = lk_tick clock t"

fun reports_on :: "string \<Rightarrow> lock_op \<Rightarrow> bool" where
  "reports_on scope (ORecord s _ _) = (s = scope)"
| "reports_on scope (OLift s usable) = (s = scope \<and> usable)"
| "reports_on scope _ = False"

definition room :: "string \<Rightarrow> lockout_tracker \<Rightarrow> bool" where
  "room s t = (bt_get (lk_entries t) s \<noteq> None \<or> length (lk_entries t) < lk_cap t)"

lemma room_no_evict: "room s t \<Longrightarrow> evict_stalest s t = t"
  by (auto simp: room_def evict_stalest_def)

lemma get_with_entry:
  "room s t \<Longrightarrow> bt_get (lk_entries (with_entry s now f t)) s' =
     (if s' = s then Some (f ((entry_of s t)\<lparr>le_seen := max (le_seen (entry_of s t)) now\<rparr>)) else bt_get (lk_entries t) s')"
  by (simp add: with_entry_def room_no_evict Let_def btree entry_of_def)

definition lock_scopes :: "lockout_tracker \<Rightarrow> string set" where
  "lock_scopes t = fst ` set (lk_entries t)"

lemma get_scopes: "bt_get (lk_entries t) s \<noteq> None \<longleftrightarrow> s \<in> lock_scopes t"
  by (simp add: lock_scopes_def bt_get_None)

lemma length_scopes: "bt_inv (lk_entries t) \<Longrightarrow> length (lk_entries t) = card (lock_scopes t)"
  by (metis lock_scopes_def bt_inv_distinct distinct_card length_map set_map)

lemma with_entry_frame:
  assumes "bt_inv (lk_entries t)"
  shows "bt_inv (lk_entries (with_entry s now f t))" "lk_policy (with_entry s now f t) = lk_policy t" "lk_cap (with_entry s now f t) = lk_cap t"
    "room s t \<Longrightarrow> lock_scopes (with_entry s now f t) = insert s (lock_scopes t)"
proof -
  have "bt_inv (lk_entries (evict_stalest s t))" "lk_policy (evict_stalest s t) = lk_policy t" "lk_cap (evict_stalest s t) = lk_cap t"
    using assms by (simp_all add: evict_stalest_def btree split: option.split)
  then show "bt_inv (lk_entries (with_entry s now f t))" "lk_policy (with_entry s now f t) = lk_policy t" "lk_cap (with_entry s now f t) = lk_cap t"
    by (simp_all add: with_entry_def Let_def btree)
  show "room s t \<Longrightarrow> lock_scopes (with_entry s now f t) = insert s (lock_scopes t)"
    by (simp add: with_entry_def Let_def room_no_evict lock_scopes_def set_bt_insert)
qed

lemma with_entry_room: "bt_inv (lk_entries t) \<Longrightarrow> room s t \<Longrightarrow> room s (with_entry s now f t)"
  by (simp add: room_def [of s "with_entry s now f t"] get_with_entry)

lemma entry_of_with_entry:
  "room s t \<Longrightarrow> entry_of s (with_entry s now f t) = f ((entry_of s t)\<lparr>le_seen := max (le_seen (entry_of s t)) now\<rparr>)"
  by (simp add: entry_of_def [of s "with_entry s now f t"] get_with_entry)

lemmas entry_ops = get_with_entry entry_of_with_entry with_entry_room with_entry_frame

text \<open>One entry is all an operation touches, apart from the clock tick.\<close>

definition touches :: "string \<Rightarrow> lockout_tracker \<Rightarrow> lockout_tracker \<Rightarrow> bool" where
  "touches s t t' \<longleftrightarrow> bt_inv (lk_entries t') \<and> lk_policy t' = lk_policy t \<and> lk_cap t' = lk_cap t \<and> lock_scopes t' \<subseteq> insert s (lock_scopes t)
   \<and> (\<forall>s'. s' \<noteq> s \<longrightarrow> bt_get (lk_entries t') s' = bt_get (lk_entries t) s')"

lemma touches_refl: "bt_inv (lk_entries t) \<Longrightarrow> touches s t t"
  by (auto simp: touches_def)

lemma touches_with_entry: "bt_inv (lk_entries t0) \<Longrightarrow> room s t0 \<Longrightarrow> touches s t t0 \<Longrightarrow> touches s t (with_entry s now f t0)"
  by (auto simp: touches_def entry_ops)

lemma touches_remove: "touches s t t0 \<Longrightarrow> touches s t (t0\<lparr>lk_entries := bt_remove s (lk_entries t0)\<rparr>)" (is "_ \<Longrightarrow> ?thesis")
proof -
  have "fst ` set (bt_remove s m) \<subseteq> fst ` set m" for m :: "(string, lock_entry) btree_map" by (auto simp: bt_remove_def)
  then have "lock_scopes (t0\<lparr>lk_entries := bt_remove s (lk_entries t0)\<rparr>) \<subseteq> lock_scopes t0" by (simp add: lock_scopes_def)
  then show "touches s t t0 \<Longrightarrow> ?thesis" by (auto simp: touches_def btree)
qed

lemma record_touches:
  assumes inv: "bt_inv (lk_entries t)" and room: "room s t"
  shows "touches s t (lk_record s res clock t)"
proof (cases res)
  case Success
  then show ?thesis using touches_remove [OF touches_refl [OF inv]] by (simp add: lk_record_def)
next
  case (Failed status body ra)
  let ?n = "now_ms clock" and ?k = "fst (classify_failure status body)"
  have step: "bt_inv (lk_entries u) \<Longrightarrow> room s u \<Longrightarrow> touches s t u \<Longrightarrow>
      bt_inv (lk_entries (with_entry s n f u)) \<and> room s (with_entry s n f u) \<and> touches s t (with_entry s n f u)" for u n f
    by (simp add: entry_ops touches_with_entry)
  have t1: "bt_inv (lk_entries (with_entry s ?n f t)) \<and> room s (with_entry s ?n f t) \<and> touches s t (with_entry s ?n f t)" for f
    by (rule step [OF inv room touches_refl [OF inv]])
  show ?thesis
    using t1 step touches_remove unfolding lk_record_def Failed inference_result.case Let_def trip_if_needed_def
    by (simp split: if_split)
qed

lemma op_touches:
  assumes inv: "bt_inv (lk_entries t)"
  shows "room s t \<Longrightarrow> touches s t (snd (acquire_probe s c t))" "room s t \<Longrightarrow> touches s t (release_probe s c t)"
    "room s t \<Longrightarrow> touches s t (note_attempt s c t)" "touches s t (lift_if_fresh_evidence s u t)"
  using touches_with_entry [OF inv _ touches_refl [OF inv]] touches_remove [OF touches_refl [OF inv]] touches_refl [OF inv]
  by (simp_all add: acquire_probe_def release_probe_def note_attempt_def lift_if_fresh_evidence_def Let_def)

section \<open>A lock holds\<close>

text \<open>\<open>same_lock\<close>: the deadline and the permanent block are as before, and a circuit that was not closed still is not.\<close>

definition same_lock :: "lock_entry \<Rightarrow> lock_entry \<Rightarrow> bool" where
  "same_lock e e' \<longleftrightarrow> until_ms e' = until_ms e \<and> le_permanent e' = le_permanent e \<and> (le_circuit e \<noteq> Closed \<longrightarrow> le_circuit e' \<noteq> Closed)"

lemma same_lock_upd [simp]:
  "same_lock e (e\<lparr>le_seen := n\<rparr>)" "same_lock e (e\<lparr>le_seen := n, le_probes := k\<rparr>)" "same_lock e (cool c (e\<lparr>le_seen := n\<rparr>))" "same_lock e (cool c e)" "same_lock e e"
  by (simp_all add: same_lock_def until_ms_def cool_def)

lemma same_lock_trans: "same_lock a b \<Longrightarrow> same_lock b c \<Longrightarrow> same_lock a c"
  by (simp add: same_lock_def)

lemma get_tick: "bt_get (lk_entries (lk_tick c t)) s = map_option (cool (now_ms c)) (bt_get (lk_entries t) s)"
  by (simp add: lk_tick_def bt_get_map)

lemma scopes_tick: "lock_scopes (lk_tick c t) = lock_scopes t"
  by (force simp: lock_scopes_def lk_tick_def)

definition keeps_lock :: "string \<Rightarrow> lockout_tracker \<Rightarrow> lockout_tracker \<Rightarrow> bool" where
  "keeps_lock s t t' \<longleftrightarrow> bt_inv (lk_entries t') \<and> lk_policy t' = lk_policy t \<and> lk_cap t' = lk_cap t \<and> card (lock_scopes t') \<le> Suc (card (lock_scopes t))
   \<and> (\<forall>e. bt_get (lk_entries t) s = Some e \<longrightarrow> (\<exists>e'. bt_get (lk_entries t') s = Some e' \<and> same_lock e e'))"

lemma keeps_lock_touches:
  assumes T: "touches x t t'" and own: "\<And>e. x = s \<Longrightarrow> bt_get (lk_entries t) s = Some e \<Longrightarrow> \<exists>e'. bt_get (lk_entries t') s = Some e' \<and> same_lock e e'"
  shows "keeps_lock s t t'"
proof -
  have fin: "finite (lock_scopes t)" by (simp add: lock_scopes_def)
  have "card (lock_scopes t') \<le> card (insert x (lock_scopes t))" using T fin by (intro card_mono) (auto simp: touches_def)
  then have "card (lock_scopes t') \<le> Suc (card (lock_scopes t))" using fin by (simp add: card_insert_if split: if_splits)
  moreover have "\<exists>e'. bt_get (lk_entries t') s = Some e' \<and> same_lock e e'" if "bt_get (lk_entries t) s = Some e" for e
    using T own that by (cases "x = s") (auto simp: touches_def)
  ultimately show ?thesis using T by (auto simp: keeps_lock_def touches_def)
qed

lemma op_keeps_lock:
  assumes inv: "bt_inv (lk_entries t)" and fits: "length (lk_entries t) < lk_cap t" and op: "\<not> reports_on s op"
  shows "keeps_lock s t (lk_apply op t)"
proof -
  have room: "room x t" for x using fits by (simp add: room_def)
  note T = op_touches [OF inv] record_touches [OF inv room]
  have own: "\<exists>e'. bt_get (lk_entries (with_entry s n f t)) s = Some e' \<and> same_lock e e'"
    if "bt_get (lk_entries t) s = Some e" "same_lock e (f (e\<lparr>le_seen := max (le_seen e) n\<rparr>))" for e n f
    using that by (simp add: get_with_entry [OF room] entry_of_def)
  show ?thesis
  proof (cases op)
    case (ORecord x res c)
    with op show ?thesis by (auto intro: keeps_lock_touches [OF T(5)])
  next
    case (OAcquire x c)
    show ?thesis unfolding OAcquire lk_apply.simps
      by (rule keeps_lock_touches [OF T(1) [OF room]]) (auto simp: acquire_probe_def Let_def intro!: own)
  next
    case (ORelease x c)
    show ?thesis unfolding ORelease lk_apply.simps
      by (rule keeps_lock_touches [OF T(2) [OF room]]) (auto simp: release_probe_def intro!: own)
  next
    case (ONote x c)
    show ?thesis unfolding ONote lk_apply.simps
      by (rule keeps_lock_touches [OF T(3) [OF room]]) (auto simp: note_attempt_def intro!: own)
  next
    case (OLift x u)
    show ?thesis unfolding OLift lk_apply.simps
      by (rule keeps_lock_touches [OF T(4)]) (use op OLift in \<open>auto simp: lift_if_fresh_evidence_def\<close>)
  next
    case (OTick c)
    then show ?thesis using inv
      by (auto simp: keeps_lock_def get_tick scopes_tick) (simp_all add: lk_tick_def bt_inv_map)
  qed
qed

lemma run_keeps_lock:
  assumes "bt_inv (lk_entries t)" and "card (lock_scopes t) + length ops \<le> lk_cap t" and "\<not> list_ex (reports_on s) ops"
    and "bt_get (lk_entries t) s = Some e"
  shows "\<exists>e'. bt_get (lk_entries (fold lk_apply ops t)) s = Some e' \<and> same_lock e e'"
  using assms
proof (induction ops arbitrary: t e)
  case (Cons op ops)
  have "length (lk_entries t) < lk_cap t" using Cons.prems(1,2) by (simp add: length_scopes)
  with Cons.prems have K: "keeps_lock s t (lk_apply op t)" by (intro op_keeps_lock) auto
  then obtain e1 where e1: "bt_get (lk_entries (lk_apply op t)) s = Some e1" "same_lock e e1"
    using Cons.prems(4) by (auto simp: keeps_lock_def)
  have "\<exists>e'. bt_get (lk_entries (fold lk_apply ops (lk_apply op t))) s = Some e' \<and> same_lock e1 e'"
    using K Cons.prems by (intro Cons.IH e1(1)) (auto simp: keeps_lock_def)
  with e1(2) show ?case by (auto intro: same_lock_trans)
qed simp

lemma classify_not_usable: "fst (classify_failure status body) \<noteq> Usable"
  by (simp add: classify_failure_def Let_def split: option.split)

definition failed_until :: "lockout_tracker \<Rightarrow> string \<Rightarrow> eligibility_kind \<Rightarrow> u64 option \<Rightarrow> u64 \<Rightarrow> u64" where
  "failed_until t s kind ra c =
     retry_until (if kind \<in> {RateLimited, QuotaExhausted} then ra else None) (now_ms c)
       (backoff_ms (lk_policy t) s (sat_add (le_failures (entry_of s t)) 1))"

lemma record_hard:
  assumes "bt_inv (lk_entries t)" and "room s t" and "hard_kind (fst (classify_failure status body))"
  shows "\<exists>e. bt_get (lk_entries (lk_record s (Failed status body ra) c t)) s = Some e \<and> le_permanent e \<noteq> None"
  using assms by (simp add: lk_record_def Let_def entry_ops)

lemma record_soft:
  assumes "bt_inv (lk_entries t)" and "room s t" and "\<not> hard_kind (fst (classify_failure status body))"
  shows "\<exists>e. bt_get (lk_entries (lk_record s (Failed status body ra) c t)) s = Some e
     \<and> failed_until t s (fst (classify_failure status body)) ra c \<le> until_ms e \<and> le_circuit e \<noteq> Closed"
  using assms classify_not_usable [of status body]
  by (simp add: lk_record_def Let_def trip_if_needed_def entry_ops failed_until_def count_failure_def until_ms_def)


text \<open>A rate limit with a \<open>Retry-After\<close> of a minute, at second 100; a probe is asked for and a tick passes.\<close>

lemma demo_kind: "classify_failure (Some 429) ''slow down'' = (RateLimited, LCredential)"
  by code_simp


section \<open>Permit and health\<close>

definition kind_ok :: "lock_entry \<Rightarrow> bool" where
  "kind_ok e \<longleftrightarrow> (\<forall>k. le_last_kind e = Some k \<and> hard_kind k \<longrightarrow> le_permanent e \<noteq> None)"

definition lock_ok :: "lockout_tracker \<Rightarrow> bool" where
  "lock_ok t \<longleftrightarrow> (\<forall>k e. bt_get (lk_entries t) k = Some e \<longrightarrow> kind_ok e)"

definition lock_ok_but :: "string \<Rightarrow> lockout_tracker \<Rightarrow> bool" where
  "lock_ok_but s t \<longleftrightarrow> (\<forall>k e. bt_get (lk_entries t) k = Some e \<and> k \<noteq> s \<longrightarrow> kind_ok e)"

lemma kind_ok_default: "kind_ok entry_default"
  by (simp add: kind_ok_def entry_default_def)

lemma kind_ok_upd [simp]:
  "kind_ok (e\<lparr>le_seen := n\<rparr>) = kind_ok e" "kind_ok (e\<lparr>le_probes := p\<rparr>) = kind_ok e" "kind_ok (cool c e) = kind_ok e"
  "kind_ok (e\<lparr>le_circuit := ci\<rparr>) = kind_ok e" "kind_ok (e\<lparr>le_retry := n\<rparr>) = kind_ok e" "kind_ok (e\<lparr>le_cooldown := n\<rparr>) = kind_ok e"
  "kind_ok (count_failure e) = kind_ok e" "\<not> hard_kind k \<Longrightarrow> kind_ok (e\<lparr>le_last_kind := Some k\<rparr>)"
  "kind_ok (e\<lparr>le_permanent := Some r, le_permanent_kind := q, le_probes := p\<rparr>)"
  by (simp_all add: kind_ok_def cool_def count_failure_def)

lemma get_evict: "bt_get (lk_entries (evict_stalest s t)) k = Some e \<Longrightarrow> bt_get (lk_entries t) k = Some e"
  by (auto simp: evict_stalest_def btree split: if_splits option.splits)

lemma with_entry_get:
  "bt_get (lk_entries (with_entry s now f t)) k = Some e \<Longrightarrow>
     (k \<noteq> s \<and> bt_get (lk_entries t) k = Some e)
   \<or> (k = s \<and> (\<exists>e0. (e0 = entry_default \<or> bt_get (lk_entries t) s = Some e0) \<and> e = f (e0\<lparr>le_seen := max (le_seen e0) now\<rparr>)))"
  by (auto simp: with_entry_def Let_def btree dest: get_evict split: if_splits option.splits)

lemma with_entry_ok: "lock_ok t \<Longrightarrow> (\<And>e. kind_ok e \<Longrightarrow> kind_ok (f e)) \<Longrightarrow> lock_ok (with_entry s now f t)"
  unfolding lock_ok_def using kind_ok_default by (auto dest!: with_entry_get)

lemma with_entry_but: "lock_ok_but s t \<Longrightarrow> lock_ok_but s (with_entry s now f t)"
  unfolding lock_ok_but_def by (auto dest!: with_entry_get)

lemma with_entry_close: "lock_ok_but s t \<Longrightarrow> (\<And>e. kind_ok (f e)) \<Longrightarrow> lock_ok (with_entry s now f t)"
  unfolding lock_ok_def lock_ok_but_def by (auto dest!: with_entry_get)

lemma lock_ok_weaken: "lock_ok t \<Longrightarrow> lock_ok_but s t"
  unfolding lock_ok_def lock_ok_but_def by blast

lemma lock_ok_remove: "lock_ok_but s t \<Longrightarrow> lock_ok (t\<lparr>lk_entries := bt_remove s (lk_entries t)\<rparr>)"
  by (auto simp: lock_ok_def lock_ok_but_def btree split: if_splits)

lemma record_ok: "lock_ok t \<Longrightarrow> lock_ok (lk_record s res c t)"
proof (cases res)
  case Success
  then show "lock_ok t \<Longrightarrow> ?thesis" by (simp add: lk_record_def lock_ok_remove lock_ok_weaken)
next
  case (Failed status body ra)
  assume ok: "lock_ok t"
  let ?k = "fst (classify_failure status body)"
  show ?thesis
  proof (cases "hard_kind ?k")
    case True
    then show ?thesis
      by (auto simp: lk_record_def Failed Let_def kind_ok_def intro!: with_entry_close with_entry_but lock_ok_weaken [OF ok])
  next
    case False
    then have "lock_ok (with_entry s (now_ms c) (\<lambda>e. e\<lparr>le_last_kind := Some ?k\<rparr>) t)"
      using ok by (intro with_entry_ok) simp_all
    with False ok classify_not_usable [of status body] show ?thesis
      by (auto simp: lk_record_def Failed Let_def trip_if_needed_def intro!: with_entry_ok)
  qed
qed

lemma apply_ok: "lock_ok t \<Longrightarrow> lock_ok (lk_apply op t)"
proof (cases op)
  case (OTick c)
  then show "lock_ok t \<Longrightarrow> ?thesis" by (auto simp: lock_ok_def get_tick)
qed (auto simp: record_ok acquire_probe_def release_probe_def note_attempt_def lift_if_fresh_evidence_def Let_def
    lock_ok_remove lock_ok_weaken intro!: with_entry_ok)

lemma run_ok: "lock_ok (fold lk_apply ops (tracker_with_capacity cap p))"
proof -
  have "lock_ok t \<Longrightarrow> lock_ok (fold lk_apply ops t)" for t by (induction ops arbitrary: t) (auto intro: apply_ok)
  moreover have "lock_ok (tracker_with_capacity cap p)" by (simp add: lock_ok_def tracker_with_capacity_def btree)
  ultimately show ?thesis by blast
qed

text \<open>\<open>permit\<close> and \<open>health\<close> describe one state: in every tracker that operations can build, a scope with an entry is
  reported dead exactly when a dispatch to it is refused for good. For a scope without an entry they part: \<open>permit\<close> allows
  the dispatch before it looks at the verdict, so a credential the eligibility store knows to be dead is dispatched, while
  \<open>health\<close> calls it dead. The comment on \<open>permit\<close> says the verdict blocks without any bookkeeping.\<close>

theorem permit_and_health:
  assumes built: "t = fold lk_apply ops (tracker_with_capacity cap p)"
  shows "(bt_get (lk_entries t) s \<noteq> None \<longrightarrow> (lk_permit t s v c = PPermanent \<longleftrightarrow> lk_health t s v c \<in> range HDead))
    \<and> (bt_get (lk_entries t) s = None \<longrightarrow> lk_permit t s v c = PAllowed \<and> (lk_health t s v c \<in> range HDead \<longleftrightarrow> hard_kind v))"
proof (intro conjI impI)
  assume "bt_get (lk_entries t) s \<noteq> None"
  then obtain e where e: "bt_get (lk_entries t) s = Some e" by blast
  have ok: "kind_ok e" using run_ok [of ops cap p] e by (auto simp: built lock_ok_def)
  have soft: "health_soft e k n \<notin> range HDead" for k n by (auto simp: health_soft_def Let_def split: if_splits)
  have "lk_permit t s v c = PPermanent \<longleftrightarrow> le_permanent e \<noteq> None \<or> hard_kind v"
    by (auto simp: lk_permit_def e Let_def split: circuit.splits)
  moreover have "lk_health t s v c \<in> range HDead \<longleftrightarrow> le_permanent e \<noteq> None \<or> hard_kind v"
    using ok soft by (auto simp: lk_health_def e Let_def hard_kind_def kind_ok_def split: option.splits if_splits)
  ultimately show "lk_permit t s v c = PPermanent \<longleftrightarrow> lk_health t s v c \<in> range HDead" by blast
next
  assume "bt_get (lk_entries t) s = None"
  then show "lk_permit t s v c = PAllowed" "lk_health t s v c \<in> range HDead \<longleftrightarrow> hard_kind v"
    by (auto simp: lk_permit_def lk_health_def Let_def health_no_entry_def hard_kind_def split: eligibility_kind.split)
qed

theorem permit_and_health_witness:
  "lk_permit (fold lk_apply [] (tracker_with_capacity 4 lockout_default)) ''p/m'' InvalidCredential 1 = PAllowed
   \<and> lk_health (fold lk_apply [] (tracker_with_capacity 4 lockout_default)) ''p/m'' InvalidCredential 1 \<in> range HDead"
  using permit_and_health [OF refl, of "[]" 4 lockout_default "''p/m''" InvalidCredential 1]
  by (simp add: tracker_with_capacity_def btree hard_kind_def)

text \<open>A permanent block is lifted by making room: when the tracker is full and the blocked scope is the stalest entry, any
  operation that names a new scope evicts it, and the next dispatch is allowed.\<close>

lemma eviction_lifts_block:
  assumes "first_min (\<lambda>(_, e). le_seen e) (lk_entries t) = Some (a, e)" and "lk_cap t \<le> length (lk_entries t)"
    and "bt_get (lk_entries t) b = None" and "a \<noteq> b"
  shows "lk_permit (note_attempt b c t) a v c' = PAllowed"
  using assms by (simp add: note_attempt_def with_entry_def evict_stalest_def Let_def lk_permit_def btree)

end
