(* ===== verification/Cloud_Spend.thy ===== *)
theory Cloud_Spend
  imports Susi_Prelude Ordered_Map
begin

text \<open>
  \<open>crates/susi-gawd-agents/src/cloud_budget.rs\<close>: reservations of spend per account, shared by parallel attempts, and the
  bound they keep in every interleaving. The process-wide counter of reservation ids is a field of the ledger. Sums over the
  held estimates wrap, as \<open>sum\<close> does.
\<close>

datatype spend_policy = FreeOnly | PaidAuthorized u64 | AskFirst u64

datatype denial = FreeExhausted | OverBudget u64 u64 u64 | NeedsConsent u64 | NeedsPriceConsent u64

datatype free_headroom = FreeAvailable | FreeSpent | FreeUnknown

record spend_hold =
  he_account :: string
  he_estimate :: u64

record spend_ledger =
  sl_committed :: "(string, u64) btree_map"
  sl_held :: "(u64, spend_hold) btree_map"
  sl_seq :: u64

record reserve_request =
  rq_account :: string
  rq_policy :: spend_policy
  rq_free :: bool
  rq_headroom :: free_headroom
  rq_estimate :: u64

definition spend_new :: "u64 \<Rightarrow> spend_ledger" where
  "spend_new seq = \<lparr>sl_committed = [], sl_held = [], sl_seq = seq\<rparr>"

definition committed_for :: "spend_ledger \<Rightarrow> string \<Rightarrow> u64" where
  "committed_for g a = (case bt_get (sl_committed g) a of None \<Rightarrow> 0 | Some c \<Rightarrow> c)"

definition held_for :: "spend_ledger \<Rightarrow> string \<Rightarrow> u64" where
  "held_for g a = sum_list (map he_estimate (filter (\<lambda>h. he_account h = a) (map snd (sl_held g))))"

definition account_exposure :: "spend_ledger \<Rightarrow> string \<Rightarrow> u64" where
  "account_exposure g a = committed_for g a + held_for g a"

definition new_hold :: "string \<Rightarrow> u64 \<Rightarrow> spend_ledger \<Rightarrow> u64 \<times> spend_ledger" where
  "new_hold a est g =
     (sl_seq g, g\<lparr>sl_seq := sl_seq g + 1, sl_held := bt_insert (sl_seq g) \<lparr>he_account = a, he_estimate = est\<rparr> (sl_held g)\<rparr>)"

definition hold_ok :: "u64 \<times> spend_ledger \<Rightarrow> (denial + u64) \<times> spend_ledger" where
  "hold_ok r = (Inr (fst r), snd r)"

definition reserve_spend :: "reserve_request \<Rightarrow> spend_ledger \<Rightarrow> (denial + u64) \<times> spend_ledger" where
  "reserve_spend rq g =
     (let exposure = sat_add (committed_for g (rq_account rq)) (held_for g (rq_account rq))
      in if rq_free rq \<and> rq_headroom rq \<noteq> FreeSpent then hold_ok (new_hold (rq_account rq) 0 g)
         else (case rq_policy rq of
             FreeOnly \<Rightarrow> (Inl FreeExhausted, g)
           | AskFirst _ \<Rightarrow> (Inl (if rq_estimate rq = 0 then NeedsPriceConsent (- 1) else NeedsConsent (rq_estimate rq)), g)
           | PaidAuthorized cap \<Rightarrow>
               if rq_estimate rq = 0 then
                 (if exposure < cap then hold_ok (new_hold (rq_account rq) (cap - exposure) g) else (Inl (OverBudget exposure 0 cap), g))
               else if cap < sat_add exposure (rq_estimate rq) then (Inl (OverBudget exposure (rq_estimate rq) cap), g)
               else hold_ok (new_hold (rq_account rq) (rq_estimate rq) g)))"

definition consent_granted :: "spend_policy \<Rightarrow> spend_policy" where
  "consent_granted p = (case p of AskFirst m \<Rightarrow> PaidAuthorized m | _ \<Rightarrow> p)"

definition commit_spend :: "u64 \<Rightarrow> u64 option \<Rightarrow> spend_ledger \<Rightarrow> spend_ledger" where
  "commit_spend i actual g =
     (case bt_get (sl_held g) i of
        None \<Rightarrow> g
      | Some h \<Rightarrow>
          let charge = (case actual of None \<Rightarrow> he_estimate h | Some x \<Rightarrow> x)
          in g\<lparr>sl_held := bt_remove i (sl_held g),
               sl_committed := bt_upsert (he_account h) 0 (\<lambda>c. c + charge) (sl_committed g)\<rparr>)"

definition release_spend :: "u64 \<Rightarrow> spend_ledger \<Rightarrow> spend_ledger" where
  "release_spend i g = g\<lparr>sl_held := bt_remove i (sl_held g)\<rparr>"

section \<open>Runs\<close>

text \<open>The reservations of any number of workers, in any order. The second component counts what commits charged above
  their reservation for account \<open>a\<close>; every paid reservation of the account is made under the cap \<open>C\<close>.\<close>

inductive spend_step :: "u64 \<Rightarrow> string \<Rightarrow> spend_ledger \<times> nat \<Rightarrow> spend_ledger \<times> nat \<Rightarrow> bool" for C a where
  reserve: "sl_seq g \<noteq> - 1 \<Longrightarrow> (rq_account rq = a \<Longrightarrow> rq_policy rq \<in> {FreeOnly, PaidAuthorized C} \<union> range AskFirst) \<Longrightarrow>
    spend_step C a (g, over) (snd (reserve_spend rq g), over)"
| commit: "bt_get (sl_held g) i = Some h \<Longrightarrow>
    over' = over + (if he_account h = a then (case actual of None \<Rightarrow> 0 | Some x \<Rightarrow> unat x - unat (he_estimate h)) else 0) \<Longrightarrow>
    spend_step C a (g, over) (commit_spend i actual g, over')"
| release: "spend_step C a (g, over) (release_spend i g, over)"

definition held_nat :: "spend_ledger \<Rightarrow> string \<Rightarrow> nat" where
  "held_nat g a = (\<Sum>(i, h)\<leftarrow>sl_held g. if he_account h = a then unat (he_estimate h) else 0)"

definition spend_inv :: "u64 \<Rightarrow> string \<Rightarrow> spend_ledger \<times> nat \<Rightarrow> bool" where
  "spend_inv C a s \<longleftrightarrow> bt_inv (sl_held (fst s)) \<and> (\<forall>i \<in> fst ` set (sl_held (fst s)). i < sl_seq (fst s))
   \<and> (unat C + snd s < 2 ^ 64 - 1 \<longrightarrow> unat (committed_for (fst s) a) + held_nat (fst s) a \<le> unat C + snd s)"

lemma sum_bt_insert:
  "k \<notin> fst ` set m \<Longrightarrow> (\<Sum>(i, h)\<leftarrow>bt_insert k v m. f i h) = f k v + (\<Sum>(i, h)\<leftarrow>m. (f i h :: nat))"
  by (induction k v m rule: bt_insert.induct) auto

lemma sum_bt_remove:
  assumes "bt_inv m" and "bt_get m k = Some v"
  shows "(\<Sum>(i, h)\<leftarrow>m. (f i h :: nat)) = f k v + (\<Sum>(i, h)\<leftarrow>bt_remove k m. f i h)"
proof -
  have "distinct (map fst m)" "(k, v) \<in> set m" using assms by (simp_all add: bt_inv_distinct bt_get_mem [symmetric])
  then show ?thesis
  proof (induction m)
    case (Cons p m)
    obtain a b where p: "p = (a, b)" by (cases p)
    show ?case
    proof (cases "a = k")
      case True
      with Cons.prems p have "k \<notin> fst ` set m" "b = v" by (force)+
      then have "bt_remove k m = m" by (force simp: bt_remove_def filter_id_conv)
      with True p \<open>b = v\<close> show ?thesis by (simp add: bt_remove_def)
    next
      case False
      with Cons p show ?thesis by (auto simp: bt_remove_def)
    qed
  qed simp
qed

lemma unat_held_for: "held_nat g a < 2 ^ 64 \<Longrightarrow> unat (held_for g a) = held_nat g a"
proof -
  have "of_nat (\<Sum>(i, h)\<leftarrow>m. if he_account h = a then unat (he_estimate h) else 0)
      = (sum_list (map he_estimate (filter (\<lambda>h. he_account h = a) (map snd m))) :: u64)" for m :: "(u64, spend_hold) btree_map"
    by (induction m) auto
  then have "held_for g a = of_nat (held_nat g a)" by (simp add: held_for_def held_nat_def)
  then show "held_nat g a < 2 ^ 64 \<Longrightarrow> ?thesis" by (simp add: unat_of_nat take_bit_nat_eq_self)
qed

lemma new_hold_inv:
  assumes inv: "spend_inv C a (g, over)" and seq: "sl_seq g \<noteq> - 1"
    and fits: "x = a \<Longrightarrow> unat C + over < 2 ^ 64 - 1 \<Longrightarrow> unat (committed_for g a) + held_nat g a \<le> unat C + over \<Longrightarrow>
      unat (committed_for g a) + held_nat g a + unat est \<le> unat C + over"
  shows "spend_inv C a (snd (new_hold x est g), over)"
proof -
  let ?i = "sl_seq g"
  have lt: "\<forall>i \<in> fst ` set (sl_held g). i < ?i" and bt: "bt_inv (sl_held g)" using inv by (auto simp: spend_inv_def)
  then have new: "?i \<notin> fst ` set (sl_held g)" by blast
  have up: "?i < ?i + 1" using unat_Suc_word [OF seq] by (simp add: word_less_nat_alt)
  have "held_nat (snd (new_hold x est g)) a = held_nat g a + (if x = a then unat est else 0)"
    unfolding held_nat_def new_hold_def by (simp add: sum_bt_insert [OF new])
  moreover have "\<forall>i \<in> fst ` set (bt_insert ?i h (sl_held g)). i < ?i + 1" for h
    using lt up by (auto simp: set_bt_insert intro: order.strict_trans)
  ultimately show ?thesis
    using inv bt fits by (auto simp: spend_inv_def new_hold_def btree committed_for_def)
qed

lemma reserve_inv:
  assumes inv: "spend_inv C a (g, over)" and seq: "sl_seq g \<noteq> - 1"
    and policy: "rq_account rq = a \<Longrightarrow> rq_policy rq \<in> {FreeOnly, PaidAuthorized C} \<union> range AskFirst"
  shows "spend_inv C a (snd (reserve_spend rq g), over)"
proof -
  define ex where "ex = sat_add (committed_for g (rq_account rq)) (held_for g (rq_account rq))"
  have ex: "unat ex = unat (committed_for g a) + held_nat g a"
    if "rq_account rq = a" "unat C + over < 2 ^ 64 - 1" "unat (committed_for g a) + held_nat g a \<le> unat C + over"
  proof -
    have "held_nat g a < 2 ^ 64" using that(2,3) by linarith
    then show ?thesis using that by (simp add: ex_def unats unat_held_for)
  qed
  have zero: "spend_inv C a (snd (new_hold x 0 g), over)" for x by (rule new_hold_inv [OF inv seq]) simp
  have rest: "spend_inv C a (snd (new_hold (rq_account rq) (cap - ex) g), over)" if "rq_policy rq = PaidAuthorized cap" "ex < cap" for cap
  proof (rule new_hold_inv [OF inv seq])
    assume A: "rq_account rq = a" "unat C + over < 2 ^ 64 - 1" "unat (committed_for g a) + held_nat g a \<le> unat C + over"
    with policy that have "cap = C" by auto
    moreover have "unat (C - ex) = unat C - unat ex" using that(2) \<open>cap = C\<close> by (simp add: unat_sub word_less_nat_alt word_le_nat_alt)
    ultimately show "unat (committed_for g a) + held_nat g a + unat (cap - ex) \<le> unat C + over"
      using ex [OF A] that(2) by (simp add: word_less_nat_alt)
  qed
  have full: "spend_inv C a (snd (new_hold (rq_account rq) (rq_estimate rq) g), over)"
    if "rq_policy rq = PaidAuthorized cap" "\<not> cap < sat_add ex (rq_estimate rq)" for cap
  proof (rule new_hold_inv [OF inv seq])
    assume A: "rq_account rq = a" "unat C + over < 2 ^ 64 - 1" "unat (committed_for g a) + held_nat g a \<le> unat C + over"
    with policy that have "cap = C" by auto
    with that(2) have le: "min (unat ex + unat (rq_estimate rq)) (2 ^ 64 - 1) \<le> unat C" by (auto simp: word_less_nat_alt unats)
    show "unat (committed_for g a) + held_nat g a + unat (rq_estimate rq) \<le> unat C + over"
    proof (cases "unat ex + unat (rq_estimate rq) \<le> 2 ^ 64 - 1")
      case True
      with le ex [OF A] show ?thesis by simp
    next
      case False
      with le A(2) show ?thesis by simp
    qed
  qed
  show ?thesis
    unfolding reserve_spend_def Let_def ex_def [symmetric] hold_ok_def
    using inv zero rest full by (auto split: spend_policy.split)
qed

lemma committed_upsert:
  "committed_for (g\<lparr>sl_held := m, sl_committed := bt_upsert x 0 (\<lambda>c. c + charge) (sl_committed g)\<rparr>) a
     = (if x = a then committed_for g a + charge else committed_for g a)"
  by (simp add: committed_for_def btree)

lemma commit_inv:
  assumes inv: "spend_inv C a (g, over)" and h: "bt_get (sl_held g) i = Some h"
    and over': "over' = over + (if he_account h = a then (case actual of None \<Rightarrow> 0 | Some x \<Rightarrow> unat x - unat (he_estimate h)) else 0)"
  shows "spend_inv C a (commit_spend i actual g, over')"
proof -
  have bt: "bt_inv (sl_held g)" and lt: "\<forall>k \<in> fst ` set (sl_held g). k < sl_seq g" using inv by (auto simp: spend_inv_def)
  define charge where "charge = (case actual of None \<Rightarrow> he_estimate h | Some x \<Rightarrow> x)"
  let ?g = "g\<lparr>sl_held := bt_remove i (sl_held g), sl_committed := bt_upsert (he_account h) 0 (\<lambda>c. c + charge) (sl_committed g)\<rparr>"
  have g: "commit_spend i actual g = ?g" by (simp add: commit_spend_def h charge_def)
  have held: "held_nat g a = (if he_account h = a then unat (he_estimate h) else 0) + held_nat ?g a"
    using sum_bt_remove [OF bt h, of "\<lambda>_ h. if he_account h = a then unat (he_estimate h) else 0"] by (simp add: held_nat_def)
  have ch: "unat charge \<le> unat (he_estimate h) + (case actual of None \<Rightarrow> 0 | Some x \<Rightarrow> unat x - unat (he_estimate h))"
    by (cases actual) (simp_all add: charge_def)
  have "unat (committed_for ?g a) + held_nat ?g a \<le> unat C + over'" if fit: "unat C + over' < 2 ^ 64 - 1"
  proof -
    have old: "unat (committed_for g a) + held_nat g a \<le> unat C + over" using inv fit over' by (auto simp: spend_inv_def)
    show ?thesis
    proof (cases "he_account h = a")
      case True
      then have "unat (committed_for g a) + unat charge + held_nat ?g a \<le> unat C + over'" using old held ch over' by simp
      moreover from this have "unat (committed_for g a + charge) = unat (committed_for g a) + unat charge"
        using fit by (simp add: unat_word_ariths)
      ultimately show ?thesis using True by (simp add: committed_upsert)
    next
      case False
      with old held over' show ?thesis by (simp add: committed_upsert)
    qed
  qed
  moreover have "\<forall>k \<in> fst ` set (bt_remove i (sl_held g)). k < sl_seq g" using lt by (force simp: bt_remove_def)
  ultimately show ?thesis using bt by (simp add: spend_inv_def g btree)
qed

lemma release_inv: "spend_inv C a (g, over) \<Longrightarrow> spend_inv C a (release_spend i g, over)"
proof -
  assume inv: "spend_inv C a (g, over)"
  then have bt: "bt_inv (sl_held g)" by (simp add: spend_inv_def)
  have "held_nat (release_spend i g) a \<le> held_nat g a"
  proof (cases "bt_get (sl_held g) i")
    case (Some h)
    then show ?thesis
      using sum_bt_remove [OF bt Some, of "\<lambda>_ h. if he_account h = a then unat (he_estimate h) else 0"]
      by (simp add: held_nat_def release_spend_def)
  next
    case None
    then have "bt_remove i (sl_held g) = sl_held g" by (force simp: bt_remove_def filter_id_conv bt_get_None)
    then show ?thesis by (simp add: held_nat_def release_spend_def)
  qed
  moreover have "committed_for (release_spend i g) a = committed_for g a" by (simp add: committed_for_def release_spend_def)
  moreover have "\<forall>k \<in> fst ` set (bt_remove i (sl_held g)). k < sl_seq g" using inv by (force simp: bt_remove_def spend_inv_def)
  ultimately show ?thesis using inv by (auto simp: spend_inv_def release_spend_def btree)
qed

text \<open>C24. In every interleaving of the reservations, commits and releases of parallel workers, what an account has spent and
  what is held for it stay within its cap plus what providers charged above the reservations (as long as that fits below
  the largest \<open>u64\<close>): two keys of one account cannot spend past the cap together.\<close>

theorem account_spend_bounded:
  assumes "(spend_step C a)\<^sup>*\<^sup>* (spend_new seq, 0) (g, over)" and "unat C + over < 2 ^ 64 - 1"
  shows "unat (account_exposure g a) = unat (committed_for g a) + unat (held_for g a)
    \<and> unat (account_exposure g a) \<le> unat C + over"
proof -
  have "spend_inv C a (spend_new seq, 0)" by (simp add: spend_inv_def spend_new_def btree committed_for_def held_nat_def)
  with assms(1) have "spend_inv C a (g, over)"
  proof (induction rule: rtranclp_induct)
    case (step y z)
    from step.hyps(2) step.IH [OF step.prems] show ?case
      by (induction rule: spend_step.induct) (auto intro: reserve_inv commit_inv release_inv)
  qed simp
  with assms(2) have le: "unat (committed_for g a) + held_nat g a \<le> unat C + over" by (simp add: spend_inv_def)
  with assms(2) have "unat (held_for g a) = held_nat g a" by (intro unat_held_for) linarith
  with le assms(2) show ?thesis by (simp add: account_exposure_def unat_word_ariths)
qed

definition demo_rq :: reserve_request where
  "demo_rq = \<lparr>rq_account = ''acct'', rq_policy = PaidAuthorized 1000, rq_free = False, rq_headroom = FreeSpent, rq_estimate = 600\<rparr>"

definition demo_held :: spend_ledger where
  "demo_held = \<lparr>sl_committed = [], sl_held = [(1, \<lparr>he_account = ''acct'', he_estimate = 600\<rparr>)], sl_seq = 2\<rparr>"

lemma demo_reserve: "reserve_spend demo_rq (spend_new 1) = (Inr 1, demo_held)" "reserve_spend demo_rq demo_held = (Inl (OverBudget 600 600 1000), demo_held)"
  by (simp_all add: reserve_spend_def demo_rq_def spend_new_def demo_held_def committed_for_def held_for_def new_hold_def hold_ok_def btree sat_add_def)

lemma demo_spend_run: "(spend_step 1000 ''acct'')\<^sup>*\<^sup>* (spend_new 1, 0) (commit_spend 1 (Some 700) demo_held, 100)"
proof -
  let ?step = "spend_step 1000 ''acct''"
  have "?step (spend_new 1, 0) (demo_held, 0)"
    using spend_step.reserve [of "spend_new 1" demo_rq "''acct''" 1000 0] by (simp add: demo_reserve) (simp add: spend_new_def demo_rq_def)
  moreover have "?step (demo_held, 0) (demo_held, 0)"
    using spend_step.reserve [of demo_held demo_rq "''acct''" 1000 0] by (simp add: demo_reserve) (simp add: demo_held_def demo_rq_def)
  moreover have "?step (demo_held, 0) (commit_spend 1 (Some 700) demo_held, 100)"
    by (rule spend_step.commit [where h = "\<lparr>he_account = ''acct'', he_estimate = 600\<rparr>"]) (simp_all add: demo_held_def bt_get_def)
  ultimately show ?thesis by (meson r_into_rtranclp rtranclp_trans)
qed

theorem account_spend_bounded_witness:
  "fst (reserve_spend demo_rq demo_held) = Inl (OverBudget 600 600 1000)
   \<and> account_exposure (commit_spend 1 (Some 700) demo_held) ''acct'' = 700
   \<and> unat (account_exposure (commit_spend 1 (Some 700) demo_held) ''acct'') \<le> 1000 + 100"
  using account_spend_bounded [OF demo_spend_run]
  by (simp add: demo_reserve) (simp add: account_exposure_def committed_for_def held_for_def commit_spend_def demo_held_def bt_get_def bt_upsert_def bt_remove_def)

end
