(* ===== verification/Cloud_Failover.thy ===== *)
theory Cloud_Failover
  imports Cloud_Intent Cloud_Lockout_Run Cloud_Spend
begin

text \<open>
  \<open>crates/susi-gawd-swarm/src/cloud_failover.rs\<close>: the loop that works through a selection under the lockout tracker, the spend
  ledger and the bounds of a run. Each iteration gets an \<open>fo_answer\<close>: the clocks it reads, what the runner reports and the
  usage. A panic of the eligibility store or an index out of range is \<open>None\<close>.
\<close>

datatype runner_outcome = ASuccess string | APreDispatch inference_result | AWorkerFailed string
  | AMidStream inference_result string | AAmbiguous inference_result

datatype failover_stop = NoEligibleCandidates | AttemptBudgetExhausted u32 | DeadlineExceeded | SpendExhausted | AllLockedOut

record failover_result =
  fr_output :: "string option"
  fr_winner :: "nat option"
  fr_attempts :: "(string \<times> string) list"
  fr_ambiguous :: bool
  fr_stop :: "failover_stop option"

record failover_budget =
  fb_max :: u32
  fb_deadline :: "u64 option"
  fb_spend :: spend_policy
  fb_estimate :: u64
  fb_now :: u64

record fo_stores =
  fo_eligibility :: eligibility_store
  fo_lockouts :: lockout_tracker
  fo_ledger :: spend_ledger

record fo_answer =
  an_clock :: u64
  an_outcome :: runner_outcome
  an_usage :: "u64 option"
  an_wall :: u64
  an_clock2 :: u64

record fo_state =
  fs_now :: u64
  fs_attempted :: "nat list"
  fs_lock :: bool
  fs_denied :: bool
  fs_stores :: fo_stores
  fs_out :: failover_result

datatype fo_next = Panic | Finish fo_state | Continue fo_state

definition dispatch_request :: "cloud_candidate \<Rightarrow> failover_budget \<Rightarrow> reserve_request" where
  "dispatch_request c b = \<lparr>rq_account = or_empty (cd_account c), rq_policy = fb_spend b, rq_free = cd_free c, rq_headroom = FreeUnknown,
     rq_estimate = fb_estimate b\<rparr>"

definition note_out :: "string \<Rightarrow> string \<Rightarrow> failover_result \<Rightarrow> failover_result" where
  "note_out cand what out = out\<lparr>fr_attempts := fr_attempts out @ [(cand, what)]\<rparr>"

text \<open>Recording a model outcome in the eligibility store and the tracker.\<close>

definition record_evidence ::
  "(string \<Rightarrow> string) \<Rightarrow> (string \<Rightarrow> string) \<Rightarrow> cloud_candidate \<Rightarrow> string \<Rightarrow> inference_result \<Rightarrow> u64 \<Rightarrow> fo_answer \<Rightarrow> fo_stores \<Rightarrow> fo_stores option" where
  "record_evidence sha redact c scope res now a st =
     (case record_inference sha redact (an_wall a) (cand_subject c) res (now div 1000) (fo_eligibility st) of
        None \<Rightarrow> None
      | Some e \<Rightarrow> Some (st\<lparr>fo_eligibility := e, fo_lockouts := lk_record scope res (an_clock2 a) (fo_lockouts st)\<rparr>))"

definition commit_stores :: "u64 \<Rightarrow> u64 option \<Rightarrow> fo_stores \<Rightarrow> fo_stores" where
  "commit_stores res usage st = st\<lparr>fo_ledger := commit_spend res usage (fo_ledger st)\<rparr>"

definition release_stores :: "u64 \<Rightarrow> fo_stores \<Rightarrow> fo_stores" where
  "release_stores res st = st\<lparr>fo_ledger := release_spend res (fo_ledger st)\<rparr>"

definition settle_attempt ::
  "(string \<Rightarrow> string) \<Rightarrow> (string \<Rightarrow> string) \<Rightarrow> cloud_candidate \<Rightarrow> ranked \<Rightarrow> u64 \<Rightarrow> fo_answer \<Rightarrow> fo_state \<Rightarrow> fo_next" where
  "settle_attempt sha redact c r res a s =
     (let scope = rk_candidate r; st = fs_stores s; out = fs_out s; now = fs_now s; later = s\<lparr>fs_now := sat_add now 1\<rparr>
      in case an_outcome a of
           ASuccess text \<Rightarrow>
             (case record_evidence sha redact c scope Success now a st of
                None \<Rightarrow> Panic
              | Some st1 \<Rightarrow>
                  Finish (s\<lparr>fs_stores := commit_stores res (an_usage a) st1,
                            fs_out := note_out scope ''success'' (out\<lparr>fr_output := Some text, fr_winner := Some (rk_index r)\<rparr>)\<rparr>))
         | APreDispatch x \<Rightarrow>
             (case record_evidence sha redact c scope x now a st of
                None \<Rightarrow> Panic
              | Some st1 \<Rightarrow> Continue (later\<lparr>fs_stores := release_stores res st1, fs_out := note_out scope ''pre_dispatch'' out\<rparr>))
         | AWorkerFailed _ \<Rightarrow> Continue (later\<lparr>fs_stores := release_stores res st, fs_out := note_out scope ''worker_failed'' out\<rparr>)
         | AMidStream x _ \<Rightarrow>
             (case record_evidence sha redact c scope x now a st of
                None \<Rightarrow> Panic
              | Some st1 \<Rightarrow> Continue (later\<lparr>fs_stores := commit_stores res (an_usage a) st1, fs_out := note_out scope ''mid_stream'' out\<rparr>))
         | AAmbiguous x \<Rightarrow>
             (case record_evidence sha redact c scope x now a st of
                None \<Rightarrow> Panic
              | Some st1 \<Rightarrow>
                  Continue (later\<lparr>fs_stores := commit_stores res (an_usage a) st1,
                                  fs_out := note_out scope ''ambiguous'' (out\<lparr>fr_ambiguous := True\<rparr>)\<rparr>)))"

definition stop_with :: "failover_stop \<Rightarrow> fo_state \<Rightarrow> fo_state" where
  "stop_with x s = s\<lparr>fs_out := (fs_out s)\<lparr>fr_stop := Some x\<rparr>\<rparr>"

definition skip_candidate :: "nat \<Rightarrow> fo_state \<Rightarrow> fo_state" where
  "skip_candidate i s = s\<lparr>fs_attempted := fs_attempted s @ [i]\<rparr>"

text \<open>One iteration of the loop, for the ranked candidate \<open>next_after\<close> returned.\<close>

definition failover_try ::
  "(string \<Rightarrow> string) \<Rightarrow> (string \<Rightarrow> string) \<Rightarrow> cloud_candidate list \<Rightarrow> failover_budget \<Rightarrow> (nat \<Rightarrow> fo_answer) \<Rightarrow> ranked \<Rightarrow> fo_state \<Rightarrow> fo_next" where
  "failover_try sha redact cs b ans r s =
     (let used = of_nat (length (fr_attempts (fs_out s))) :: u32; a = ans (length (fs_attempted s))
      in if fb_max b \<le> used then Finish (stop_with (AttemptBudgetExhausted used) s)
         else if (case fb_deadline b of None \<Rightarrow> False | Some dl \<Rightarrow> dl \<le> fs_now s) then Finish (stop_with DeadlineExceeded s)
         else if length cs \<le> rk_index r then Panic
         else (case lk_permit (fo_lockouts (fs_stores s)) (rk_candidate r) EUnknown (an_clock a) of
             PPermanent \<Rightarrow> Continue (skip_candidate (rk_index r) s)
           | PAllowed \<Rightarrow>
               (case reserve_spend (dispatch_request (cs ! rk_index r) b) (fo_ledger (fs_stores s)) of
                  (Inl _, g) \<Rightarrow>
                    Continue (stop_with SpendExhausted (skip_candidate (rk_index r) (s\<lparr>fs_denied := True, fs_stores := (fs_stores s)\<lparr>fo_ledger := g\<rparr>\<rparr>)))
                | (Inr res, g) \<Rightarrow>
                    settle_attempt sha redact (cs ! rk_index r) r res a (skip_candidate (rk_index r) (s\<lparr>fs_stores := (fs_stores s)\<lparr>fo_ledger := g\<rparr>\<rparr>)))
           | _ \<Rightarrow> Continue (skip_candidate (rk_index r) (s\<lparr>fs_lock := True\<rparr>))))"

definition failover_end :: "fo_state \<Rightarrow> fo_state" where
  "failover_end s =
     stop_with (if fs_lock s then AllLockedOut else if fs_denied s then SpendExhausted
       else AttemptBudgetExhausted (of_nat (length (fr_attempts (fs_out s))))) s"

lemma settle_attempted: "settle_attempt sha redact c r res a s = Continue s' \<Longrightarrow> fs_attempted s' = fs_attempted s"
  by (auto simp: settle_attempt_def Let_def split: runner_outcome.splits option.splits)

lemma try_attempted: "failover_try sha redact cs b ans r s = Continue s' \<Longrightarrow> fs_attempted s' = fs_attempted s @ [rk_index r]"
  by (auto simp: failover_try_def Let_def stop_with_def skip_candidate_def dest!: settle_attempted
      split: if_splits permit.splits prod.splits sum.splits)

definition untried :: "ranked list \<Rightarrow> nat list \<Rightarrow> nat" where
  "untried rs attempted = length (filter (\<lambda>r. rk_index r \<notin> set attempted) rs)"

lemma untried_less: "next_after rs at = Some r \<Longrightarrow> untried rs (at @ [rk_index r]) < untried rs at"
proof -
  assume "next_after rs at = Some r"
  then have r: "r \<in> set (filter (\<lambda>x. rk_index x \<notin> set at) rs)" by (auto simp: next_after_def find_Some_iff)
  have "filter (\<lambda>x. rk_index x \<notin> set (at @ [rk_index r])) rs = filter (\<lambda>x. rk_index x \<noteq> rk_index r) (filter (\<lambda>x. rk_index x \<notin> set at) rs)"
    by (simp add: conj_commute)
  moreover have "length (filter (\<lambda>x. rk_index x \<noteq> rk_index r) (filter (\<lambda>x. rk_index x \<notin> set at) rs)) < length (filter (\<lambda>x. rk_index x \<notin> set at) rs)"
    by (rule length_filter_less [OF r]) simp
  ultimately show ?thesis unfolding untried_def by simp
qed

function failover_loop ::
  "(string \<Rightarrow> string) \<Rightarrow> (string \<Rightarrow> string) \<Rightarrow> ranked list \<Rightarrow> cloud_candidate list \<Rightarrow> failover_budget \<Rightarrow> (nat \<Rightarrow> fo_answer) \<Rightarrow> fo_state \<Rightarrow> fo_state option" where
  "failover_loop sha redact rs cs b ans s =
     (case next_after rs (fs_attempted s) of
        None \<Rightarrow> Some (failover_end s)
      | Some r \<Rightarrow>
          (case failover_try sha redact cs b ans r s of
             Panic \<Rightarrow> None
           | Finish s' \<Rightarrow> Some s'
           | Continue s' \<Rightarrow> failover_loop sha redact rs cs b ans s'))"
  by pat_completeness auto
termination
  by (relation "measure (\<lambda>(_, _, rs, _, _, _, s). untried rs (fs_attempted s))") (auto simp: untried_less dest!: try_attempted)

declare failover_loop.simps [simp del]

definition out_new :: failover_result where
  "out_new = \<lparr>fr_output = None, fr_winner = None, fr_attempts = [], fr_ambiguous = False, fr_stop = None\<rparr>"

definition start_state :: "failover_budget \<Rightarrow> fo_stores \<Rightarrow> fo_state" where
  "start_state b st = \<lparr>fs_now = fb_now b, fs_attempted = [], fs_lock = False, fs_denied = False, fs_stores = st, fs_out = out_new\<rparr>"

definition run_selection ::
  "(string \<Rightarrow> string) \<Rightarrow> (string \<Rightarrow> string) \<Rightarrow> ranked list \<Rightarrow> cloud_candidate list \<Rightarrow> failover_budget \<Rightarrow> (nat \<Rightarrow> fo_answer) \<Rightarrow> fo_stores \<Rightarrow> fo_state option" where
  "run_selection sha redact rs cs b ans st =
     (if rs = [] then Some (stop_with NoEligibleCandidates (start_state b st))
      else failover_loop sha redact rs cs b ans (start_state b st))"

definition run_failover ::
  "(string \<Rightarrow> string) \<Rightarrow> (string \<Rightarrow> string) \<Rightarrow> (cloud_candidate \<Rightarrow> bool) \<Rightarrow> (cloud_candidate \<Rightarrow> int) \<Rightarrow> (subject \<Rightarrow> u64 \<Rightarrow> bool) \<Rightarrow> intent_constraints
    \<Rightarrow> cloud_candidate list \<Rightarrow> failover_budget \<Rightarrow> (nat \<Rightarrow> fo_answer) \<Rightarrow> fo_stores \<Rightarrow> fo_state option" where
  "run_failover sha redact over_cost score quota_spent it cs b ans st =
     (case select sha over_cost score quota_spent it cs (fo_eligibility st) (fb_now b div 1000) of
        None \<Rightarrow> None
      | Some sel \<Rightarrow> run_selection sha redact (se_ranked sel) cs b ans st)"

end
