(* ===== verification/Cloud_Failover_Run.thy ===== *)
theory Cloud_Failover_Run
  imports Cloud_Failover
begin

text \<open>
  The failover loop as a pass over the ranked list, and what it keeps: the order and number of attempts, the reservations, the
  lockouts, and the shape of its result.
\<close>

section \<open>One pass over the ranked list\<close>

fun failover_list where
  "failover_list sha redact cs b ans [] s = Some (failover_end s)"
| "failover_list sha redact cs b ans (r # rs) s =
     (case failover_try sha redact cs b ans r s of
        Panic \<Rightarrow> None
      | Finish s' \<Rightarrow> Some s'
      | Continue s' \<Rightarrow> failover_list sha redact cs b ans rs s')"

lemma next_after_pre:
  assumes "distinct (map rk_index (pre @ post))"
  shows "next_after (pre @ post) (map rk_index pre) = (case post of [] \<Rightarrow> None | r # _ \<Rightarrow> Some r)"
proof -
  have skip: "List.find (\<lambda>r. rk_index r \<notin> set A) (pre @ post) = List.find (\<lambda>r. rk_index r \<notin> set A) post" if "set (map rk_index pre) \<subseteq> set A" for A
    using that by (induction pre) auto
  then have "next_after (pre @ post) (map rk_index pre) = List.find (\<lambda>r. rk_index r \<notin> set (map rk_index pre)) post"
    by (simp add: next_after_def del: set_map)
  moreover have "rk_index r \<notin> set (map rk_index pre)" if "r \<in> set post" for r using assms that by auto
  ultimately show ?thesis by (cases post) auto
qed

lemma failover_loop_list:
  "distinct (map rk_index (pre @ post)) \<Longrightarrow> fs_attempted s = map rk_index pre \<Longrightarrow>
     failover_loop sha redact (pre @ post) cs b ans s = failover_list sha redact cs b ans post s"
proof (induction post arbitrary: pre s)
  case Nil
  then show ?case using next_after_pre [of pre "[]"] by (simp add: failover_loop.simps [of _ _ pre])
next
  case (Cons r post)
  have nx: "next_after (pre @ r # post) (fs_attempted s) = Some r" using next_after_pre [OF Cons.prems(1)] Cons.prems(2) by simp
  show ?case
  proof (cases "failover_try sha redact cs b ans r s")
    case (Continue s')
    have "failover_loop sha redact ((pre @ [r]) @ post) cs b ans s' = failover_list sha redact cs b ans post s'"
      using Cons.prems try_attempted [OF Continue] by (intro Cons.IH) simp_all
    with Continue nx show ?thesis by (simp add: failover_loop.simps [of _ _ "pre @ r # post" _ _ _ s])
  qed (simp_all add: nx failover_loop.simps [of _ _ "pre @ r # post" _ _ _ s])
qed

lemma run_selection_list:
  "distinct (map rk_index rs) \<Longrightarrow> rs \<noteq> [] \<Longrightarrow> run_selection sha redact rs cs b ans st = failover_list sha redact cs b ans rs (start_state b st)"
  using failover_loop_list [of "[]" rs "start_state b st"] by (simp add: run_selection_def start_state_def)

section \<open>One iteration\<close>

lemma bt_remove_absent: "k \<notin> fst ` set m \<Longrightarrow> bt_remove k m = m"
  by (force simp: bt_remove_def filter_id_conv)

lemma bt_remove_insert: "k \<notin> fst ` set m \<Longrightarrow> bt_remove k (bt_insert k v m) = m"
proof (induction m)
  case (Cons p m)
  obtain a w where p: "p = (a, w)" by (cases p)
  with Cons.prems have new: "k \<noteq> a" "k \<notin> fst ` set m" by auto
  then show ?case using Cons.IH bt_remove_absent [OF new(2)] by (simp add: p bt_remove_def)
qed (simp add: bt_remove_def)

definition ids_ok :: "nat \<Rightarrow> spend_ledger \<Rightarrow> bool" where
  "ids_ok n g \<longleftrightarrow> (\<forall>i \<in> fst ` set (sl_held g). i < sl_seq g) \<and> unat (sl_seq g) + n < 2 ^ 64"

lemma reserve_cases:
  "(\<exists>d. reserve_spend rq g = (Inl d, g)) \<or> (\<exists>est. reserve_spend rq g = hold_ok (new_hold (rq_account rq) est g))"
  unfolding reserve_spend_def Let_def by (cases "rq_policy rq") (simp_all, blast+)

lemma seq_up:
  assumes "ids_ok (Suc n) g"
  shows "ids_ok n (g\<lparr>sl_seq := sl_seq g + 1, sl_committed := c\<rparr>)" "ids_ok n (g\<lparr>sl_seq := sl_seq g + 1\<rparr>)" "sl_seq g \<notin> fst ` set (sl_held g)" "ids_ok n g"
proof -
  have fit: "unat (sl_seq g) + Suc n < 2 ^ 64" using assms by (simp add: ids_ok_def)
  then have u: "unat (sl_seq g + 1) = unat (sl_seq g) + 1" by (simp add: unat_word_ariths)
  then have "sl_seq g < sl_seq g + 1" by (simp add: word_less_nat_alt)
  then have "\<forall>i \<in> fst ` set (sl_held g). i < sl_seq g + 1" using assms unfolding ids_ok_def by (meson order.strict_trans)
  then show "ids_ok n (g\<lparr>sl_seq := sl_seq g + 1, sl_committed := c\<rparr>)" "ids_ok n (g\<lparr>sl_seq := sl_seq g + 1\<rparr>)"
    using fit u by (simp_all add: ids_ok_def)
  show "sl_seq g \<notin> fst ` set (sl_held g)" "ids_ok n g" using assms by (auto simp: ids_ok_def)
qed

text \<open>A reservation that is committed or released leaves the holds as they were before it.\<close>

lemma settled_holds:
  assumes ok: "ids_ok (Suc n) g" and res: "reserve_spend rq g = (Inr i, g')"
  shows "sl_held (commit_spend i u g') = sl_held g \<and> ids_ok n (commit_spend i u g')
    \<and> sl_held (release_spend i g') = sl_held g \<and> ids_ok n (release_spend i g')"
proof -
  obtain est where "reserve_spend rq g = hold_ok (new_hold (rq_account rq) est g)" using reserve_cases [of rq g] res by auto
  with res have i: "i = sl_seq g"
    and g': "g' = g\<lparr>sl_seq := sl_seq g + 1, sl_held := bt_insert (sl_seq g) \<lparr>he_account = rq_account rq, he_estimate = est\<rparr> (sl_held g)\<rparr>"
    by (auto simp: hold_ok_def new_hold_def)
  note new = seq_up [OF ok]
  show ?thesis
    using bt_remove_insert [OF new(3)] new(1,2) by (simp add: i g' commit_spend_def release_spend_def btree ids_ok_def)
qed

lemma denied_holds: "reserve_spend rq g = (Inl d, g') \<Longrightarrow> g' = g"
  using reserve_cases [of rq g] by (auto simp: hold_ok_def)

lemma evidence_ledger: "record_evidence sha redact c scope x now a st = Some st' \<Longrightarrow> fo_ledger st' = fo_ledger st"
  by (auto simp: record_evidence_def split: option.splits)

section \<open>The invariant of the loop\<close>

definition fo_attempts_of :: "fo_state \<Rightarrow> (string \<times> string) list" where
  "fo_attempts_of s = fr_attempts (fs_out s)"

definition ledger_of :: "fo_state \<Rightarrow> spend_ledger" where
  "ledger_of s = fo_ledger (fs_stores s)"

definition fo_inv :: "failover_budget \<Rightarrow> (u64, spend_hold) btree_map \<Rightarrow> nat \<Rightarrow> ranked list \<Rightarrow> fo_state \<Rightarrow> bool" where
  "fo_inv b h n pre s \<longleftrightarrow> subseq (map fst (fo_attempts_of s)) (map rk_candidate pre) \<and> length (fo_attempts_of s) \<le> unat (fb_max b)
   \<and> sl_held (ledger_of s) = h \<and> ids_ok n (ledger_of s) \<and> (fr_ambiguous (fs_out s) \<longleftrightarrow> ''ambiguous'' \<in> snd ` set (fo_attempts_of s))"

definition fo_open :: "fo_state \<Rightarrow> bool" where
  "fo_open s \<longleftrightarrow> fr_output (fs_out s) = None \<and> fr_winner (fs_out s) = None \<and> ''success'' \<notin> snd ` set (fo_attempts_of s)"

definition fo_won :: "ranked list \<Rightarrow> fo_state \<Rightarrow> bool" where
  "fo_won rs s \<longleftrightarrow> fr_output (fs_out s) \<noteq> None \<and> (\<exists>r \<in> set rs. fr_winner (fs_out s) = Some (rk_index r)
     \<and> (\<exists>before. fo_attempts_of s = before @ [(rk_candidate r, ''success'')] \<and> ''success'' \<notin> snd ` set before))"

lemma subseq_snoc: "subseq xs ys \<Longrightarrow> subseq (xs @ [y]) (ys @ [y])" "subseq xs ys \<Longrightarrow> subseq xs (ys @ [y])"
  by (simp_all add: list_emb_prefix)

lemma settle_inv:
  assumes inv: "fo_inv b h (Suc n) pre s0" and op: "fo_open s0" and lt: "length (fo_attempts_of s0) < unat (fb_max b)"
    and res: "reserve_spend rq (ledger_of s0) = (Inr i, g')"
    and s: "s = skip_candidate k (s0\<lparr>fs_stores := (fs_stores s0)\<lparr>fo_ledger := g'\<rparr>\<rparr>)"
  shows "(\<forall>s'. settle_attempt sha redact c r i a s = Continue s' \<longrightarrow> fo_inv b h n (pre @ [r]) s' \<and> fo_open s')
    \<and> (\<forall>s'. settle_attempt sha redact c r i a s = Finish s' \<longrightarrow> fo_inv b h n (pre @ [r]) s' \<and> fo_won (pre @ [r]) s')"
proof -
  have ok: "ids_ok (Suc n) (ledger_of s0)" using inv by (simp add: fo_inv_def)
  note held = settled_holds [OF ok res]
  note sub = subseq_snoc [of "map fst (fo_attempts_of s0)" "map rk_candidate pre" "rk_candidate r"]
  show ?thesis
    using inv op lt held sub unfolding s
    by (auto simp: settle_attempt_def Let_def fo_inv_def fo_open_def fo_won_def fo_attempts_of_def ledger_of_def skip_candidate_def
        note_out_def commit_stores_def release_stores_def dest!: evidence_ledger split: runner_outcome.splits option.splits)
qed

lemma try_inv:
  assumes inv: "fo_inv b h (Suc n) pre s" and op: "fo_open s" and few: "length pre < 2 ^ 32"
  shows "(\<forall>s'. failover_try sha redact cs b ans r s = Continue s' \<longrightarrow> fo_inv b h n (pre @ [r]) s' \<and> fo_open s')
    \<and> (\<forall>s'. failover_try sha redact cs b ans r s = Finish s' \<longrightarrow>
         fo_inv b h n (pre @ [r]) s' \<and> (fo_open s' \<and> fr_stop (fs_out s') \<noteq> None \<or> fo_won (pre @ [r]) s'))"
proof -
  let ?used = "of_nat (length (fo_attempts_of s)) :: u32"
  have sub: "subseq (map fst (fo_attempts_of s)) (map rk_candidate pre)" using inv by (simp add: fo_inv_def)
  then have "length (fo_attempts_of s) < 2 ^ 32" using list_emb_length [OF sub] few by simp
  then have used: "unat ?used = length (fo_attempts_of s)" by (simp add: unat_of_nat take_bit_nat_eq_self)
  have skip: "fo_inv b h n (pre @ [r]) s" using inv seq_up(4) by (auto simp: fo_inv_def intro: subseq_snoc)
  show ?thesis
  proof (cases "fb_max b \<le> ?used")
    case True
    then show ?thesis using skip op
      by (auto simp: failover_try_def Let_def fo_attempts_of_def stop_with_def fo_inv_def fo_open_def ledger_of_def)
  next
    case False
    then have lt: "length (fo_attempts_of s) < unat (fb_max b)" using used by (simp add: word_le_nat_alt)
    obtain v g' where res: "reserve_spend (dispatch_request (cs ! rk_index r) b) (ledger_of s) = (v, g')" by fastforce
    show ?thesis
    proof (cases v)
      case (Inl d)
      then have "g' = ledger_of s" using denied_holds res by blast
      then show ?thesis using skip op False res Inl
        by (auto simp: failover_try_def Let_def fo_attempts_of_def stop_with_def fo_inv_def fo_open_def ledger_of_def skip_candidate_def split: permit.splits if_splits)
    next
      case (Inr i)
      note S = settle_inv [OF inv op lt, of _ i g' _ "rk_index r", OF res [unfolded Inr] refl]
      show ?thesis using skip op False res Inr S
        by (auto simp: failover_try_def Let_def fo_attempts_of_def stop_with_def fo_inv_def fo_open_def ledger_of_def skip_candidate_def split: permit.splits if_splits)
    qed
  qed
qed

lemma list_inv:
  assumes "fo_inv b h (length post) pre s" and "fo_open s" and "length pre + length post \<le> 2 ^ 32"
    and "failover_list sha redact cs b ans post s = Some s'"
  shows "\<exists>n. fo_inv b h n (pre @ post) s' \<and> (fo_open s' \<and> fr_stop (fs_out s') \<noteq> None \<or> fo_won (pre @ post) s')"
  using assms
proof (induction post arbitrary: pre s)
  case Nil
  then have "s' = failover_end s" by simp
  with Nil show ?case by (auto simp: failover_end_def stop_with_def fo_inv_def fo_open_def fo_attempts_of_def ledger_of_def)
next
  case (Cons r post)
  have few: "length pre < 2 ^ 32" using Cons.prems(3) by simp
  note T = try_inv [OF Cons.prems(1)[simplified] Cons.prems(2) few, where r = r and sha = sha and redact = redact and cs = cs and ans = ans]
  show ?case
  proof (cases "failover_try sha redact cs b ans r s")
    case Panic
    with Cons.prems(4) show ?thesis by simp
  next
    case (Finish t)
    with Cons.prems(4) have "s' = t" by simp
    with T Finish have inv: "fo_inv b h (length post) (pre @ [r]) s'"
      and alt: "fo_open s' \<and> fr_stop (fs_out s') \<noteq> None \<or> fo_won (pre @ [r]) s'" by auto
    have "fo_inv b h (length post) ((pre @ [r]) @ post) s'" using inv list_emb_prefix [of "(=)" _ "map rk_candidate (pre @ [r])" "map rk_candidate post"]
      by (simp add: fo_inv_def)
    moreover have "fo_won (pre @ [r]) s' \<Longrightarrow> fo_won (pre @ r # post) s'" by (auto simp: fo_won_def)
    ultimately show ?thesis using alt by auto
  next
    case (Continue t)
    with T have "fo_inv b h (length post) (pre @ [r]) t" "fo_open t" by auto
    from Cons.IH [OF this] show ?thesis using Cons.prems(3,4) Continue by simp
  qed
qed

definition sound_result :: "ranked list \<Rightarrow> failover_budget \<Rightarrow> failover_result \<Rightarrow> bool" where
  "sound_result rs b out \<longleftrightarrow> subseq (map fst (fr_attempts out)) (map rk_candidate rs) \<and> length (fr_attempts out) \<le> unat (fb_max b)
    \<and> (fr_output out = None \<longleftrightarrow> fr_winner out = None)
    \<and> (fr_output out = None \<longrightarrow> fr_stop out \<noteq> None \<and> ''success'' \<notin> snd ` set (fr_attempts out))
    \<and> (fr_output out \<noteq> None \<longrightarrow> (\<exists>r \<in> set rs. \<exists>before. fr_winner out = Some (rk_index r)
         \<and> fr_attempts out = before @ [(rk_candidate r, ''success'')] \<and> ''success'' \<notin> snd ` set before))
    \<and> (fr_ambiguous out \<longleftrightarrow> ''ambiguous'' \<in> snd ` set (fr_attempts out))"

lemma run_selection_sound:
  assumes run: "run_selection sha redact rs cs b ans st = Some s"
    and idx: "distinct (map rk_index rs)" and few: "length rs \<le> 2 ^ 32" and ids: "ids_ok (length rs) (fo_ledger st)"
  shows "sound_result rs b (fs_out s) \<and> sl_held (fo_ledger (fs_stores s)) = sl_held (fo_ledger st)"
proof (cases "rs = []")
  case True
  with run have "s = stop_with NoEligibleCandidates (start_state b st)" by (simp add: run_selection_def)
  then show ?thesis by (simp add: sound_result_def stop_with_def start_state_def out_new_def)
next
  case False
  have "fo_inv b (sl_held (fo_ledger st)) (length rs) [] (start_state b st)" "fo_open (start_state b st)"
    using ids by (simp_all add: fo_inv_def fo_open_def start_state_def out_new_def fo_attempts_of_def ledger_of_def)
  then obtain n where "fo_inv b (sl_held (fo_ledger st)) n rs s" and end': "fo_open s \<and> fr_stop (fs_out s) \<noteq> None \<or> fo_won rs s"
    using list_inv [of b _ rs "[]" _ sha redact cs ans s] run few run_selection_list [OF idx False, of sha redact cs b ans st] by fastforce
  then show ?thesis
    by (auto simp: sound_result_def fo_inv_def fo_open_def fo_won_def fo_attempts_of_def ledger_of_def)
qed

section \<open>The loop returns\<close>

lemma replace_all_set: "set (replace_all n pat sub s) \<subseteq> set sub \<union> set s"
  by (induction n pat sub s rule: replace_all.induct) auto

lemma truncate_plain: "(\<And>c. c \<in> set s \<Longrightarrow> \<not> is_continuation c) \<Longrightarrow> truncate_str n s \<noteq> None"
  by (auto simp: truncate_str_def)

lemma record_inference_ok:
  assumes "\<And>x c. c \<in> set (redact x) \<Longrightarrow> \<not> is_continuation c"
  shows "record_inference sha redact wall sb res now e \<noteq> None"
proof -
  have tag: "\<forall>c \<in> set ''[REDACTED]''. \<not> is_continuation c" by (simp add: is_continuation_def)
  have "\<not> is_continuation c" if "c \<in> set (replace_all 0 pat ''[REDACTED]'' (redact x))" for c pat x
    using that replace_all_set [of 0 pat "''[REDACTED]''" "redact x"] assms tag by blast
  then have tr: "truncate_str n (replace_all 0 pat ''[REDACTED]'' (redact x)) \<noteq> None" "truncate_str n (redact x) \<noteq> None" for n pat x
    using assms truncate_plain by blast+
  show ?thesis by (simp add: record_inference_def store_record_def Let_def tr split: option.split)
qed

lemma try_no_panic:
  assumes "\<And>x c. c \<in> set (redact x) \<Longrightarrow> \<not> is_continuation c" and "rk_index r < length cs"
  shows "failover_try sha redact cs b ans r s \<noteq> Panic"
proof -
  have ev: "record_evidence sha redact c scope x now a st \<noteq> None" for c scope x now a st
    using record_inference_ok [of redact, OF assms(1)] by (auto simp: record_evidence_def split: option.split)
  have "settle_attempt sha redact c r res a s \<noteq> Panic" for c res a s
    by (simp add: settle_attempt_def Let_def ev split: runner_outcome.split option.split)
  with assms(2) show ?thesis by (simp add: failover_try_def Let_def split: permit.split prod.split sum.split)
qed

lemma run_selection_returns:
  assumes "\<And>x c. c \<in> set (redact x) \<Longrightarrow> \<not> is_continuation c" and "distinct (map rk_index rs)" and "\<forall>r \<in> set rs. rk_index r < length cs"
  shows "\<exists>s. run_selection sha redact rs cs b ans st = Some s"
proof (cases "rs = []")
  case False
  have "\<forall>r \<in> set rs. rk_index r < length cs \<Longrightarrow> \<exists>s'. failover_list sha redact cs b ans rs s = Some s'" for s
  proof (induction rs arbitrary: s)
    case (Cons r rs)
    then have "failover_try sha redact cs b ans r s \<noteq> Panic" using try_no_panic assms(1) by simp
    with Cons show ?case by (cases "failover_try sha redact cs b ans r s") auto
  qed simp
  with False assms show ?thesis by (simp add: run_selection_list)
qed (simp add: run_selection_def)

lemma those_of_ok: "None \<notin> set xs \<Longrightarrow> \<exists>ys. those_of xs = Some ys"
  by (induction xs rule: those_of.induct) auto

lemma select_returns:
  assumes "\<forall>c \<in> set cs. cd_key c \<noteq> []" and "\<And>k. 4 \<le> length (sha k)"
  shows "\<exists>sel. select sha over_cost score quota_spent it cs store now = Some sel"
proof -
  have len: "length (hex_encode xs) = 2 * length xs" for xs by (induction xs) (simp_all add: hex_encode_def)
  have "opaque_id sha c \<noteq> None" if "c \<in> set cs" for c
  proof -
    have "\<not> length (credential_fingerprint sha (cd_key c)) < 8"
      using assms(1) that assms(2) [of "cd_key c"] by (simp add: credential_fingerprint_def len)
    then show ?thesis by (simp add: opaque_id_def Let_def)
  qed
  then have "judge sha over_cost score quota_spent it store now k c \<noteq> None" if "c \<in> set cs" for k c
    using that by (auto simp: judge_def split: option.splits)
  then have all: "None \<notin> set (judged sha over_cost score quota_spent it cs store now)"
    unfolding in_set_conv_nth by (metis judged_def judged_nth length_enumerate length_map nth_mem)
  obtain js where "those_of (judged sha over_cost score quota_spent it cs store now) = Some js" using those_of_ok [OF all] by blast
  then show ?thesis by (simp add: select_def judged_def)
qed


section \<open>Locked scopes\<close>

definition shut :: "lock_entry \<Rightarrow> u64 \<Rightarrow> bool" where
  "shut e clock \<longleftrightarrow> le_permanent e \<noteq> None \<or> le_circuit e \<noteq> Closed \<and> now_ms clock < until_ms e"

lemma shut_same: "same_lock e e' \<Longrightarrow> shut e c \<Longrightarrow> shut e' c"
  by (auto simp: same_lock_def shut_def)

lemma shut_permit: "bt_get (lk_entries t) x = Some e \<Longrightarrow> shut e c \<Longrightarrow> lk_permit t x v c \<noteq> PAllowed"
  by (cases "le_circuit e") (auto simp: lk_permit_def Let_def shut_def)

definition locks_of :: "fo_state \<Rightarrow> lockout_tracker" where
  "locks_of s = fo_lockouts (fs_stores s)"

text \<open>What an iteration does to the tracker: nothing, or it records an outcome of the scope it attempted.\<close>

lemma settle_locks:
  assumes "settle_attempt sha redact c r res a s \<in> {Continue s', Finish s'}"
  shows "map fst (fo_attempts_of s') = map fst (fo_attempts_of s) @ [rk_candidate r]
    \<and> (locks_of s' = locks_of s \<or> (\<exists>y. locks_of s' = lk_record (rk_candidate r) y (an_clock2 a) (locks_of s)))"
  using assms
  by (auto simp: settle_attempt_def Let_def fo_attempts_of_def locks_of_def note_out_def record_evidence_def commit_stores_def release_stores_def
      split: runner_outcome.splits option.splits)

lemma try_locks:
  assumes "failover_try sha redact cs b ans r s \<in> {Continue s', Finish s'}"
  shows "(map fst (fo_attempts_of s') = map fst (fo_attempts_of s) \<and> locks_of s' = locks_of s)
    \<or> (lk_permit (locks_of s) (rk_candidate r) EUnknown (an_clock (ans (length (fs_attempted s)))) = PAllowed
       \<and> map fst (fo_attempts_of s') = map fst (fo_attempts_of s) @ [rk_candidate r]
       \<and> (locks_of s' = locks_of s \<or> (\<exists>y c. locks_of s' = lk_record (rk_candidate r) y c (locks_of s))))"
proof -
  have settle: ?thesis
    if "settle_attempt sha redact c r i a (skip_candidate k (s\<lparr>fs_stores := (fs_stores s)\<lparr>fo_ledger := g\<rparr>\<rparr>)) \<in> {Continue s', Finish s'}"
      "lk_permit (locks_of s) (rk_candidate r) EUnknown (an_clock (ans (length (fs_attempted s)))) = PAllowed" for c i a k g
    using settle_locks [OF that(1)] that(2) by (auto simp: fo_attempts_of_def locks_of_def skip_candidate_def)
  show ?thesis
    using assms unfolding failover_try_def Let_def
    by (auto simp: fo_attempts_of_def locks_of_def stop_with_def skip_candidate_def split: if_splits permit.splits prod.splits sum.splits
        dest!: settle [unfolded locks_of_def fo_attempts_of_def skip_candidate_def, rotated] intro: disjI1)
qed

lemma list_locks:
  assumes "bt_inv (lk_entries (locks_of s))" and "card (lock_scopes (locks_of s)) + length post \<le> lk_cap (locks_of s)"
    and "bt_get (lk_entries (locks_of s)) x = Some e" and "\<And>i. shut e (an_clock (ans i))" and "x \<notin> fst ` set (fo_attempts_of s)"
    and "failover_list sha redact cs b ans post s = Some s'"
  shows "x \<notin> fst ` set (fo_attempts_of s')"
  using assms
proof (induction post arbitrary: s e)
  case Nil
  then show ?case by (auto simp: failover_end_def stop_with_def fo_attempts_of_def)
next
  case (Cons r post)
  let ?t = "failover_try sha redact cs b ans r s"
  obtain u where u: "?t \<in> {Continue u, Finish u}" using Cons.prems(6) by (cases ?t) auto
  have ne: "rk_candidate r \<noteq> x" if "lk_permit (locks_of s) (rk_candidate r) EUnknown (an_clock (ans i)) = PAllowed" for i
    using that shut_permit [OF Cons.prems(3) Cons.prems(4)] by blast
  note T = try_locks [OF u]
  have un: "x \<notin> fst ` set (fo_attempts_of u)"
  proof -
    have "map fst (fo_attempts_of u) = map fst (fo_attempts_of s) \<or> map fst (fo_attempts_of u) = map fst (fo_attempts_of s) @ [rk_candidate r] \<and> rk_candidate r \<noteq> x"
      using T ne by blast
    moreover have "x \<notin> set (map fst (fo_attempts_of s))" using Cons.prems(5) by simp
    ultimately have "x \<notin> set (map fst (fo_attempts_of u))" by (auto simp del: set_map)
    then show ?thesis by simp
  qed
  have keep: "keeps_lock x (locks_of s) (locks_of u)"
  proof (cases "locks_of u = locks_of s")
    case True
    with Cons.prems(1) show ?thesis by (auto simp: keeps_lock_def)
  next
    case False
    with T ne obtain y c where "rk_candidate r \<noteq> x" "locks_of u = lk_apply (ORecord (rk_candidate r) y c) (locks_of s)" by auto
    moreover have "length (lk_entries (locks_of s)) < lk_cap (locks_of s)" using Cons.prems(1,2) by (simp add: length_scopes)
    ultimately show ?thesis using op_keeps_lock [OF Cons.prems(1), of x "ORecord (rk_candidate r) y c"] by simp
  qed
  then obtain e' where e': "bt_get (lk_entries (locks_of u)) x = Some e'" "same_lock e e'"
    using Cons.prems(3) by (auto simp: keeps_lock_def)
  show ?case
  proof (cases "?t = Finish u")
    case True
    with Cons.prems(6) un show ?thesis by simp
  next
    case False
    with u have "failover_list sha redact cs b ans post u = Some s'" using Cons.prems(6) by simp
    then show ?thesis
      by (rule Cons.IH [rotated 5]) (use keep e' un Cons.prems(2,4) in \<open>auto simp: keeps_lock_def intro: shut_same\<close>)
  qed
qed

text \<open>A locked scope is not dispatched: when the tracker has room for the candidates of a run, a scope that is blocked for
  good, or whose circuit is not closed and whose deadline lies after every clock the run reads, is not attempted, whatever
  happens to the other candidates meanwhile.\<close>

theorem locked_scope_not_dispatched:
  assumes run: "run_failover sha redact over_cost score quota_spent it cs b ans st = Some s"
    and inv: "bt_inv (lk_entries (fo_lockouts st))" and room: "card (lock_scopes (fo_lockouts st)) + length cs \<le> lk_cap (fo_lockouts st)"
    and e: "bt_get (lk_entries (fo_lockouts st)) x = Some e" and shut: "\<And>i. shut e (an_clock (ans i))"
  shows "x \<notin> fst ` set (fr_attempts (fs_out s))"
proof -
  obtain sel where sel: "select sha over_cost score quota_spent it cs (fo_eligibility st) (fb_now b div 1000) = Some sel"
    and rs: "run_selection sha redact (se_ranked sel) cs b ans st = Some s" using run by (auto simp: run_failover_def split: option.splits)
  note D = select_distinct [OF sel]
  show ?thesis
  proof (cases "se_ranked sel = []")
    case True
    with rs show ?thesis by (auto simp: run_selection_def stop_with_def start_state_def out_new_def)
  next
    case False
    have "locks_of (start_state b st) = fo_lockouts st" "fo_attempts_of (start_state b st) = []"
      by (simp_all add: locks_of_def fo_attempts_of_def start_state_def out_new_def)
    then show ?thesis
      using list_locks [of "start_state b st" "se_ranked sel" x e ans sha redact cs b s] inv room e shut D(2) rs run_selection_list [OF D(1) False]
      by (simp add: fo_attempts_of_def)
  qed
qed

section \<open>Witnesses\<close>

definition run_sha :: "string \<Rightarrow> string" where
  "run_sha k = k @ ''0123''"

definition run_budget :: failover_budget where
  "run_budget = \<lparr>fb_max = 2, fb_deadline = None, fb_spend = PaidAuthorized 100, fb_estimate = 10, fb_now = 0\<rparr>"

definition run_answer :: "nat \<Rightarrow> fo_answer" where
  "run_answer i = \<lparr>an_clock = 5, an_outcome = AWorkerFailed ''down'', an_usage = None, an_wall = 5, an_clock2 = 5\<rparr>"

definition run_stores :: "lock_entry \<Rightarrow> fo_stores" where
  "run_stores e = \<lparr>fo_eligibility = \<lparr>es_obs = [], es_cap = 4, es_usable_ttl = 60\<rparr>,
     fo_lockouts = \<lparr>lk_entries = [(''acme/m/61613031'', e)], lk_cap = 16, lk_policy = lockout_default\<rparr>, fo_ledger = spend_new 0\<rparr>"


theorem locked_scope_not_dispatched_witness:
  "\<exists>s. run_failover run_sha (\<lambda>_. ''r'') (\<lambda>_. False) (\<lambda>_. 0) (\<lambda>_ _. False) demo_intent_constraints [demo_cand ''aa''] run_budget run_answer
       (run_stores (entry_default\<lparr>le_permanent := Some ''AccessDenied''\<rparr>)) = Some s
     \<and> ''acme/m/61613031'' \<notin> fst ` set (fr_attempts (fs_out s)) \<and> opaque_id run_sha (demo_cand ''aa'') = Some ''acme/m/61613031''"
proof -
  let ?e = "entry_default\<lparr>le_permanent := Some ''AccessDenied''\<rparr>" and ?cs = "[demo_cand ''aa'']"
  have "\<forall>c \<in> set ?cs. cd_key c \<noteq> []" by (simp add: demo_cand_def)
  moreover have "4 \<le> length (run_sha k)" for k by (simp add: run_sha_def)
  ultimately obtain sel where sel: "select run_sha (\<lambda>_. False) (\<lambda>_. 0) (\<lambda>_ _. False) demo_intent_constraints ?cs
      (fo_eligibility (run_stores ?e)) (fb_now run_budget div 1000) = Some sel" using select_returns by blast
  have "c \<in> set ''r'' \<Longrightarrow> \<not> is_continuation c" for c by (simp add: is_continuation_def)
  from run_selection_returns [where redact = "\<lambda>_. ''r''", OF this] select_distinct [OF sel]
  obtain s where "run_selection run_sha (\<lambda>_. ''r'') (se_ranked sel) ?cs run_budget run_answer (run_stores ?e) = Some s" by fastforce
  with sel have s: "run_failover run_sha (\<lambda>_. ''r'') (\<lambda>_. False) (\<lambda>_. 0) (\<lambda>_ _. False) demo_intent_constraints ?cs run_budget run_answer (run_stores ?e) = Some s"
    by (simp add: run_failover_def)
  have id: "opaque_id run_sha (demo_cand ''aa'') = Some ''acme/m/61613031''" by code_simp
  have "''acme/m/61613031'' \<notin> fst ` set (fr_attempts (fs_out s))"
    by (rule locked_scope_not_dispatched [OF s]) (auto simp: run_stores_def bt_inv_def lock_scopes_def bt_get_def shut_def)
  with s id show ?thesis by blast
qed

end
