(* ===== verification/Mac_Token.thy ===== *)
theory Mac_Token
  imports Cluster_Key
begin

text \<open>
  The first half of \<open>crates/susi-core/src/mac_policy.rs\<close>: privacy modes, capability tokens and what they are signed over, the keys
  and file names they are stored under, which requests a grant covers, and which URLs stay on the host. SHA-256 is the argument
  \<open>sha\<close>, the parser of IP addresses with its address classes the argument \<open>ip\<close>; strings are byte strings.
\<close>

section \<open>Privacy modes\<close>

datatype privacy_mode = Balanced | LocalOnly | OpenMode

definition mode_parse :: "string \<Rightarrow> privacy_mode" where
  "mode_parse s =
     (let t = to_ascii_lowercase (trim s)
      in if t \<in> {''local_only'', ''local-only'', ''edge'', ''strict''} then LocalOnly
         else if t \<in> {''open'', ''permissive''} then OpenMode
         else Balanced)"

definition mode_parse_persisted :: "string \<Rightarrow> privacy_mode option" where
  "mode_parse_persisted s =
     (let t = trim s
      in if t = ''balanced'' then Some Balanced else if t = ''local_only'' then Some LocalOnly
         else if t = ''open'' then Some OpenMode else None)"

fun mode_str :: "privacy_mode \<Rightarrow> string" where
  "mode_str Balanced = ''balanced''"
| "mode_str LocalOnly = ''local_only''"
| "mode_str OpenMode = ''open''"

datatype sticky_file = StickyAbsent | StickyUnreadable | StickyText string

definition read_sticky_mode :: "sticky_file \<Rightarrow> privacy_mode option" where
  "read_sticky_mode f =
     (case f of
        StickyAbsent \<Rightarrow> None
      | StickyUnreadable \<Rightarrow> Some LocalOnly
      | StickyText s \<Rightarrow> Some (case mode_parse_persisted s of None \<Rightarrow> LocalOnly | Some m \<Rightarrow> m))"

section \<open>Tokens\<close>

record capability_token =
  ct_subject :: string
  ct_action :: string
  ct_resource :: string
  ct_issued :: u64
  ct_expires :: "u64 option"
  ct_signature :: string

definition pipe :: char where "pipe = CHR ''|''"

definition grant_key :: "string \<Rightarrow> string \<Rightarrow> string \<Rightarrow> string" where
  "grant_key subj act res =
     (if list_ex (\<lambda>f. pipe \<in> set f) [subj, act, res]
      then ''v2:'' @ hex_encode subj @ '':'' @ hex_encode act @ '':'' @ hex_encode res
      else subj @ [pipe] @ act @ [pipe] @ res)"

definition canonical_payload :: "capability_token \<Rightarrow> string" where
  "canonical_payload t =
     grant_key (ct_subject t) (ct_action t) (ct_resource t) @ [pipe] @ show_u64 (ct_issued t) @ [pipe]
       @ (case ct_expires t of None \<Rightarrow> ''none'' | Some e \<Rightarrow> show_u64 e)"

definition is_expired :: "capability_token \<Rightarrow> u64 \<Rightarrow> bool" where
  "is_expired t now = (case ct_expires t of None \<Rightarrow> False | Some e \<Rightarrow> e \<le> now)"

definition HMAC_BLOCK :: nat where "HMAC_BLOCK = 64"

definition mac_hmac :: "(string \<Rightarrow> string) \<Rightarrow> string \<Rightarrow> string \<Rightarrow> string" where
  "mac_hmac sha key msg =
     (let keyed = take 32 key @ replicate (HMAC_BLOCK - 32) (char_of (0::nat));
          ipad = map (xor_byte 0x36) keyed;
          opad = map (xor_byte 0x5c) keyed
      in sha (opad @ sha (ipad @ msg)))"

definition sign_token :: "(string \<Rightarrow> string) \<Rightarrow> string \<Rightarrow> capability_token \<Rightarrow> string" where
  "sign_token sha key t = hex_encode (mac_hmac sha key (canonical_payload t))"

text \<open>The comparison that does not stop at the first difference.\<close>

definition same_bytes :: "string \<Rightarrow> string \<Rightarrow> bool" where
  "same_bytes a b =
     (length a = length b
      \<and> fold (\<lambda>(x, y) acc. acc OR (of_char x XOR of_char y)) (zip a b) 0 = (0 :: 8 word))"

definition verify_token :: "(string \<Rightarrow> string) \<Rightarrow> string \<Rightarrow> u64 \<Rightarrow> capability_token \<Rightarrow> bool" where
  "verify_token sha key now t = (\<not> is_expired t now \<and> same_bytes (sign_token sha key t) (ct_signature t))"

section \<open>File names\<close>

definition hex_digit_upper :: "nat \<Rightarrow> char" where
  "hex_digit_upper n = (if n < 10 then char_of (48 + n) else char_of (55 + n))"

definition enc :: "string \<Rightarrow> string" where
  "enc key = concat (map (\<lambda>c. if is_ascii_alphanumeric c \<or> c \<in> {CHR ''-'', CHR ''_'', CHR ''.''} then [c]
     else [CHR ''%'', hex_digit_upper (of_char c div 16), hex_digit_upper (of_char c mod 16)]) key)"

definition be_bytes :: "u64 \<Rightarrow> string" where
  "be_bytes n = map (\<lambda>i. char_of (unat n div 256 ^ (7 - i) mod 256)) [0..<8]"

definition hash_fields :: "string list \<Rightarrow> string" where
  "hash_fields fs = concat (map (\<lambda>f. be_bytes (of_nat (length f)) @ f) fs)"

definition grant_paths :: "(string \<Rightarrow> string) \<Rightarrow> string \<Rightarrow> string \<Rightarrow> string \<Rightarrow> string \<times> string option" where
  "grant_paths sha subj act res =
     (let legacy = enc (subj @ [pipe] @ act @ [pipe] @ res)
      in (''v2-'' @ hex_encode (sha (hash_fields [subj, act, res])), if length legacy \<le> 255 then Some legacy else None))"

section \<open>Coverage\<close>

definition grant_covers :: "string \<Rightarrow> string \<Rightarrow> bool" where
  "grant_covers granted requested =
     (granted = requested
      \<or> (if granted \<noteq> [] \<and> last granted = CHR ''*'' then prefix (butlast granted) requested
         else (case strip_prefix granted requested of
                 None \<Rightarrow> False
               | Some rest \<Rightarrow> granted \<noteq> [] \<and> last granted = CHR ''/'' \<or> prefix ''/'' rest)))"

section \<open>Local URLs\<close>

fun after_scheme :: "string \<Rightarrow> string option" where
  "after_scheme [] = None"
| "after_scheme (c # s) = (if prefix ''://'' (c # s) then Some (drop 3 (c # s)) else after_scheme s)"

definition url_host :: "string \<Rightarrow> string" where
  "url_host rest =
     (let authority = takeWhile (\<lambda>c. c \<notin> {CHR ''/'', CHR ''?'', CHR ''#''}) rest;
          host_port = rev (takeWhile (\<lambda>c. c \<noteq> CHR ''@'') (rev authority))
      in case strip_prefix ''['' host_port of
           Some b \<Rightarrow> takeWhile (\<lambda>c. c \<noteq> CHR '']'') b
         | None \<Rightarrow> takeWhile (\<lambda>c. c \<noteq> CHR '':'') host_port)"

definition url_stays_local :: "(string \<Rightarrow> bool option) \<Rightarrow> string \<Rightarrow> bool" where
  "url_stays_local ip url =
     (case after_scheme url of
        None \<Rightarrow> False
      | Some rest \<Rightarrow>
          (case ip (url_host rest) of
             Some private \<Rightarrow> private
           | None \<Rightarrow>
               let host = to_ascii_lowercase (url_host rest)
               in host \<noteq> [] \<and> (host = ''localhost'' \<or> suffix ''.localhost'' host \<or> suffix ''.local'' host)))"

section \<open>Injectivity\<close>

lemma split_on_eq: "split_on c s = split_on c t \<longleftrightarrow> s = t"
  by (metis join_split)

lemma hex_digit_plain: "n < 16 \<Longrightarrow> hex_digit n \<notin> {CHR '':'', pipe, CHR ''%''}"
proof -
  have "\<forall>n \<in> set [0..<16]. hex_digit n \<notin> {CHR '':'', pipe, CHR ''%''}" by code_simp
  then show "n < 16 \<Longrightarrow> hex_digit n \<notin> {CHR '':'', pipe, CHR ''%''}" by simp
qed

lemma byte_word: "unat (of_char c :: 8 word) = of_char c"
proof -
  have "(of_char c :: 8 word) = of_nat (of_char c)" by (simp only: of_nat_of_char)
  then show ?thesis using byte_less [of c] by (simp only: unat_of_nat) (simp add: take_bit_nat_eq_self)
qed

lemma hex_encode_plain: "c \<in> set (hex_encode s) \<Longrightarrow> c \<notin> {CHR '':'', pipe, CHR ''%''}"
  using hex_digit_plain byte_halves by (induction s) (auto simp: hex_encode_def)

lemma grant_key_split:
  "list_ex (\<lambda>f. pipe \<in> set f) [s, a, r] \<Longrightarrow> split_on CHR '':'' (grant_key s a r) = [''v2'', hex_encode s, hex_encode a, hex_encode r]"
  "\<not> list_ex (\<lambda>f. pipe \<in> set f) [s, a, r] \<Longrightarrow> split_on pipe (grant_key s a r) = [s, a, r]"
proof -
  assume "list_ex (\<lambda>f. pipe \<in> set f) [s, a, r]"
  then have "grant_key s a r = ''v2'' @ CHR '':'' # hex_encode s @ CHR '':'' # hex_encode a @ CHR '':'' # hex_encode r" by (simp add: grant_key_def)
  moreover have "CHR '':'' \<notin> set (hex_encode x)" for x using hex_encode_plain by blast
  ultimately show "split_on CHR '':'' (grant_key s a r) = [''v2'', hex_encode s, hex_encode a, hex_encode r]"
    by (simp add: split_on_append_sep [of _ "''v2''", simplified] split_on_append_sep split_on_plain)
next
  assume "\<not> list_ex (\<lambda>f. pipe \<in> set f) [s, a, r]"
  then have "grant_key s a r = s @ pipe # a @ pipe # r" "pipe \<notin> set s" "pipe \<notin> set a" "pipe \<notin> set r" by (simp_all add: grant_key_def)
  then show "split_on pipe (grant_key s a r) = [s, a, r]" by (simp add: split_on_append_sep split_on_plain)
qed

lemma grant_key_pipe: "pipe \<in> set (grant_key s a r) \<longleftrightarrow> \<not> list_ex (\<lambda>f. pipe \<in> set f) [s, a, r]"
proof -
  have "pipe \<notin> set (hex_encode x)" for x using hex_encode_plain by blast
  moreover have "pipe \<notin> {CHR ''v'', CHR ''2'', CHR '':''}" by (simp add: pipe_def)
  ultimately show ?thesis by (auto simp: grant_key_def)
qed

lemma grant_key_inj: "grant_key s a r = grant_key s' a' r' \<longleftrightarrow> s = s' \<and> a = a' \<and> r = r'"
proof
  assume eq: "grant_key s a r = grant_key s' a' r'"
  then have iff: "list_ex (\<lambda>f. pipe \<in> set f) [s, a, r] \<longleftrightarrow> list_ex (\<lambda>f. pipe \<in> set f) [s', a', r']" using grant_key_pipe by metis
  show "s = s' \<and> a = a' \<and> r = r'"
  proof (cases "list_ex (\<lambda>f. pipe \<in> set f) [s, a, r]")
    case True
    with eq iff grant_key_split(1) have "[''v2'', hex_encode s, hex_encode a, hex_encode r] = [''v2'', hex_encode s', hex_encode a', hex_encode r']" by metis
    then show ?thesis using hex_encode_inj by auto
  next
    case False
    with eq iff grant_key_split(2) have "[s, a, r] = [s', a', r']" by metis
    then show ?thesis by simp
  qed
qed simp

lemma digit_not_pipe: "list_all is_ascii_digit d \<Longrightarrow> pipe \<notin> set d"
  by (auto simp: list_all_iff is_ascii_digit_def pipe_def)

lemma show_u64_plain: "pipe \<notin> set (show_u64 n)" "show_u64 n \<noteq> ''none''"
  using show_nat_props [of "unat n"] digit_not_pipe by (auto simp: show_u64_def is_ascii_digit_def)

lemma show_u64_inj: "show_u64 m = show_u64 n \<longleftrightarrow> m = n"
  using show_nat_props by (metis show_u64_def word_unat_eq_iff)

text \<open>What a signature covers. Two tokens are signed over the same text exactly when they agree in subject, action,
  resource, issue time and expiry, whatever separators their fields contain: no field can borrow text from its neighbour.
  Neither can two bindings share the key they are stored under.\<close>

theorem payload_binds_fields:
  "(canonical_payload t = canonical_payload u \<longleftrightarrow>
      ct_subject t = ct_subject u \<and> ct_action t = ct_action u \<and> ct_resource t = ct_resource u \<and> ct_issued t = ct_issued u \<and> ct_expires t = ct_expires u)
   \<and> (grant_key s a r = grant_key s' a' r' \<longleftrightarrow> s = s' \<and> a = a' \<and> r = r')"
proof -
  let ?e = "\<lambda>t. case ct_expires t of None \<Rightarrow> ''none'' | Some e \<Rightarrow> show_u64 e"
  let ?k = "\<lambda>t. grant_key (ct_subject t) (ct_action t) (ct_resource t)"
  have plain: "pipe \<notin> set (?e t)" for t by (cases "ct_expires t") (simp_all add: show_u64_plain, simp add: pipe_def)
  have "split_on pipe (canonical_payload t) = split_on pipe (?k t) @ [show_u64 (ct_issued t), ?e t]" for t
  proof -
    have "canonical_payload t = ?k t @ pipe # show_u64 (ct_issued t) @ pipe # ?e t" by (simp add: canonical_payload_def)
    then show ?thesis using plain by (simp only: split_on_append_sep split_on_plain [OF show_u64_plain(1)] split_on_plain [OF plain]) simp
  qed
  then have "split_on pipe (canonical_payload t) = split_on pipe (canonical_payload u) \<longleftrightarrow>
      split_on pipe (?k t) = split_on pipe (?k u) \<and> show_u64 (ct_issued t) = show_u64 (ct_issued u) \<and> ?e t = ?e u" by simp
  then have "canonical_payload t = canonical_payload u \<longleftrightarrow> ?k t = ?k u \<and> show_u64 (ct_issued t) = show_u64 (ct_issued u) \<and> ?e t = ?e u"
    by (simp only: split_on_eq)
  moreover have "?e t = ?e u \<longleftrightarrow> ct_expires t = ct_expires u"
    using show_u64_plain(2) by (auto simp: show_u64_inj split: option.splits) (metis+)?
  ultimately show ?thesis by (auto simp: grant_key_inj show_u64_inj)
qed

lemma same_bytes_iff: "same_bytes a b \<longleftrightarrow> a = b"
proof -
  have acc: "fold (\<lambda>(x, y) acc. acc OR (of_char x XOR of_char y)) ps n = (0 :: 8 word) \<longleftrightarrow> n = 0 \<and> (\<forall>(x, y) \<in> set ps. x = y)" for ps n
  proof (induction ps arbitrary: n)
    case (Cons p ps)
    obtain x y where p: "p = (x, y)" by (cases p)
    have "(of_char x XOR of_char y = (0 :: 8 word)) \<longleftrightarrow> x = y"
    proof -
      have "(of_char x XOR of_char y = (0 :: 8 word)) \<longleftrightarrow> (of_char x :: 8 word) = of_char y" by (metis xor.right_neutral xor_self_eq xor.assoc)
      also have "\<dots> \<longleftrightarrow> x = y" by (metis byte_word of_char_eq_iff)
      finally show ?thesis .
    qed
    moreover have "(n OR m = (0 :: 8 word)) \<longleftrightarrow> n = 0 \<and> m = 0" for m by (simp add: or_eq_0_iff)
    ultimately show ?case by (auto simp: Cons.IH p)
  qed simp
  have "length a = length b \<Longrightarrow> (\<forall>(x, y) \<in> set (zip a b). x = y) \<longleftrightarrow> a = b"
    by (induction a b rule: list_induct2) auto
  then show ?thesis by (auto simp: same_bytes_def acc)
qed

section \<open>What a grant covers\<close>

lemma prefix_slash: "prefix ''/'' s \<longleftrightarrow> (\<exists>t. s = ''/'' @ t)"
  by (auto simp: prefix_def)

lemma covers_plain: "\<not> suffix ''*'' g \<Longrightarrow> \<not> suffix ''/'' g \<Longrightarrow> grant_covers g r \<longleftrightarrow> g = r \<or> (\<exists>s. r = g @ ''/'' @ s)"
proof (cases g rule: rev_cases)
  case Nil
  then show ?thesis by (auto simp: grant_covers_def strip_prefix_def prefix_def)
next
  case (snoc p c)
  assume "\<not> suffix ''*'' g" "\<not> suffix ''/'' g"
  with snoc have "c \<noteq> CHR ''*''" "c \<noteq> CHR ''/''" by auto
  with snoc have "grant_covers g r \<longleftrightarrow> g = r \<or> (case strip_prefix g r of None \<Rightarrow> False | Some rest \<Rightarrow> prefix ''/'' rest)"
    by (simp add: grant_covers_def split: option.split)
  also have "\<dots> \<longleftrightarrow> g = r \<or> (\<exists>s. r = g @ ''/'' @ s)"
    using prefix_slash by (cases "strip_prefix g r") (auto simp: strip_prefix_Some, auto simp: strip_prefix_def)
  finally show ?thesis .
qed

lemma prefix_split_on: "prefix (split_on c g) (split_on c r) \<longleftrightarrow> g = r \<or> (\<exists>s. r = g @ c # s)"
proof
  assume "prefix (split_on c g) (split_on c r)"
  then obtain zs where zs: "split_on c r = split_on c g @ zs" by (auto simp: prefix_def)
  show "g = r \<or> (\<exists>s. r = g @ c # s)"
  proof (cases "zs = []")
    case True
    with zs show ?thesis by (simp add: split_on_eq)
  next
    case False
    have "r = join [c] (split_on c g @ zs)" using join_split [of c r] zs by simp
    also have "\<dots> = g @ [c] @ join [c] zs" using join_append [OF split_on_ne False] by (simp add: join_split)
    finally show ?thesis by auto
  qed
qed (auto simp: split_on_append_sep)

text \<open>C35. What a grant covers. A grant without a wildcard covers exactly the paths at or below it, component by component, so a
  sibling whose name merely starts with the granted name is not covered; a grant that ends in a slash covers what starts
  with it; and a trailing star covers every text that continues the rest.\<close>

theorem grant_covers_components:
  "(\<not> suffix ''*'' g \<and> \<not> suffix ''/'' g \<longrightarrow> (grant_covers g r \<longleftrightarrow> prefix (split_on CHR ''/'' g) (split_on CHR ''/'' r)))
   \<and> (suffix ''/'' g \<longrightarrow> (grant_covers g r \<longleftrightarrow> prefix g r))
   \<and> (suffix ''*'' g \<longrightarrow> (grant_covers g r \<longleftrightarrow> g = r \<or> prefix (butlast g) r))"
proof (intro conjI impI)
  assume "\<not> suffix ''*'' g \<and> \<not> suffix ''/'' g"
  then show "grant_covers g r \<longleftrightarrow> prefix (split_on CHR ''/'' g) (split_on CHR ''/'' r)" by (simp add: covers_plain prefix_split_on)
next
  assume "suffix ''/'' g"
  then obtain p where "g = p @ ''/''" by (auto simp: suffix_def)
  then show "grant_covers g r \<longleftrightarrow> prefix g r" by (auto simp: grant_covers_def strip_prefix_def)
next
  assume "suffix ''*'' g"
  then obtain p where "g = p @ ''*''" by (auto simp: suffix_def)
  then show "grant_covers g r \<longleftrightarrow> g = r \<or> prefix (butlast g) r" by (simp add: grant_covers_def)
qed

theorem grant_covers_components_witness:
  "grant_covers ''/srv/ws'' ''/srv/ws/a'' \<and> \<not> grant_covers ''/srv/ws'' ''/srv/ws2''"
  using grant_covers_components [of "''/srv/ws''" "''/srv/ws/a''"] grant_covers_components [of "''/srv/ws''" "''/srv/ws2''"]
  by (simp add: suffix_def)

text \<open>The locality test cuts the authority at a slash only: text before an at sign, with a backslash in it, is not seen.\<close>

lemma backslash_hides_host:
  "url_stays_local (\<lambda>_. None) (''http://evil.example'' @ [CHR 0x5C] @ ''@localhost/'')"
  by code_simp

end
