(* ===== verification/Mac_Policy.thy ===== *)
theory Mac_Policy
  imports Mac_Token Usage Ordered_Map "HOL-Library.Product_Lexorder"
begin

text \<open>
  The second half of \<open>crates/susi-core/src/mac_policy.rs\<close>: the policy of one process and the directory all processes share. A grant
  file holds a token, the tombstone \<open>null\<close>, or text that is not JSON of either. The disk is the argument \<open>io\<close>: which operations
  fail. Every operation takes the time it reads from the clock. A policy without a state directory keeps its grants in memory.
\<close>

section \<open>State\<close>

datatype grant_record = GToken capability_token | GNull | GGarbled

record mac_store =
  st_sticky :: sticky_file
  st_files :: "(string, grant_record) btree_map"

record mac_policy =
  mp_key :: string
  mp_grants :: "(string, capability_token) btree_map"
  mp_mode :: privacy_mode
  mp_sandbox :: bool
  mp_enforce :: bool
  mp_wired :: bool
  mp_no_key :: bool

record mac_io =
  io_lock_fails :: bool
  io_read_fails :: "string \<Rightarrow> bool"
  io_write_fails :: "string \<Rightarrow> bool"
  io_move_fails :: "string \<Rightarrow> bool"
  io_undo_fails :: "string \<Rightarrow> bool"
  io_mode_fails :: bool

datatype mac_error = EStore | EIo | ERollback | EExpiry | EDeny string string | ENotAbsolute | EMissing | ENotDir | ERoot | EClimbs

type_synonym mac_world = "mac_policy \<times> mac_store"

definition and_then ::
  "(mac_error + 'a) \<times> mac_world \<Rightarrow> ('a \<Rightarrow> mac_world \<Rightarrow> (mac_error + 'b) \<times> mac_world) \<Rightarrow> (mac_error + 'b) \<times> mac_world" where
  "and_then r f = (case r of (Inl e, w) \<Rightarrow> (Inl e, w) | (Inr x, w) \<Rightarrow> f x w)"

definition FILESYSTEM_READ :: string where "FILESYSTEM_READ = ''filesystem.read''"
definition FILESYSTEM_WRITE :: string where "FILESYSTEM_WRITE = ''filesystem.write''"
definition PROCESS_EXEC :: string where "PROCESS_EXEC = ''process.exec''"
definition SANDBOX_EXEC :: string where "SANDBOX_EXEC = ''sandbox.exec''"
definition NETWORK_EGRESS :: string where "NETWORK_EGRESS = ''network.egress''"
definition TRANSMIT :: string where "TRANSMIT = ''transmit''"
definition CLOUD_INFERENCE :: string where "CLOUD_INFERENCE = ''cloud.inference''"

definition policy_mode :: "mac_world \<Rightarrow> privacy_mode" where
  "policy_mode w =
     (case w of (p, s) \<Rightarrow>
        case (if mp_wired p then read_sticky_mode (st_sticky s) else None) of None \<Rightarrow> mp_mode p | Some m \<Rightarrow> m)"

section \<open>The grant store\<close>

definition locked_store :: "mac_io \<Rightarrow> mac_policy \<Rightarrow> mac_error + bool" where
  "locked_store io p =
     (if mp_no_key p then Inl EStore else if \<not> mp_wired p then Inr False else if io_lock_fails io then Inl EStore else Inr True)"

definition names_token :: "string \<Rightarrow> string \<Rightarrow> string \<Rightarrow> capability_token \<Rightarrow> bool" where
  "names_token subj act res t = (ct_subject t = subj \<and> ct_action t = act \<and> ct_resource t = res)"

definition matching :: "(string \<Rightarrow> string) \<Rightarrow> u64 \<Rightarrow> mac_policy \<Rightarrow> string \<Rightarrow> string \<Rightarrow> string \<Rightarrow> capability_token \<Rightarrow> bool" where
  "matching sha now p subj act res t = (names_token subj act res t \<and> verify_token sha (mp_key p) now t)"

definition migrate_record ::
  "mac_io \<Rightarrow> (string \<Rightarrow> string) \<Rightarrow> u64 \<Rightarrow> string \<Rightarrow> string \<Rightarrow> string \<Rightarrow> mac_world \<Rightarrow> (mac_error + string) \<times> mac_world" where
  "migrate_record io sha now subj act res w =
     (case w of (p, s) \<Rightarrow>
        case grant_paths sha subj act res of
          (current, None) \<Rightarrow> (Inr current, w)
        | (current, Some old) \<Rightarrow>
            if io_read_fails io old then (Inl EIo, w)
            else (case bt_get (st_files s) old of
                Some (GToken t) \<Rightarrow>
                  if \<not> matching sha now p subj act res t then (Inr current, w)
                  else if io_move_fails io old then (Inl EIo, w)
                  else if bt_get (st_files s) current \<noteq> None then (Inr current, (p, s\<lparr>st_files := bt_remove old (st_files s)\<rparr>))
                  else (Inr current, (p, s\<lparr>st_files := bt_insert current (GToken t) (bt_remove old (st_files s))\<rparr>))
              | _ \<Rightarrow> (Inr current, w)))"

type_synonym change = "string \<times> grant_record option \<times> capability_token"

fun plan_changes ::
  "mac_io \<Rightarrow> (string \<Rightarrow> string) \<Rightarrow> u64 \<Rightarrow> capability_token list \<Rightarrow> mac_world \<Rightarrow> (mac_error + change list) \<times> mac_world" where
  "plan_changes io sha now [] w = (Inr [], w)"
| "plan_changes io sha now (t # ts) w =
     and_then (migrate_record io sha now (ct_subject t) (ct_action t) (ct_resource t) w) (\<lambda>path w1.
       if io_read_fails io path then (Inl EIo, w1)
       else and_then (plan_changes io sha now ts w1) (\<lambda>cs w2. (Inr ((path, bt_get (st_files (snd w1)) path, t) # cs), w2)))"

definition put_file :: "string \<Rightarrow> grant_record option \<Rightarrow> mac_store \<Rightarrow> mac_store" where
  "put_file path r s =
     s\<lparr>st_files := (case r of None \<Rightarrow> bt_remove path (st_files s) | Some x \<Rightarrow> bt_insert path x (st_files s))\<rparr>"

fun undo_changes :: "mac_io \<Rightarrow> change list \<Rightarrow> mac_store \<Rightarrow> mac_error \<times> mac_store" where
  "undo_changes io [] s = (EIo, s)"
| "undo_changes io ((path, before, _) # cs) s =
     (if io_undo_fails io path then (ERollback, s) else undo_changes io cs (put_file path before s))"

text \<open>The changes already written are kept in reverse, the order in which they are undone.\<close>

fun write_changes :: "mac_io \<Rightarrow> change list \<Rightarrow> change list \<Rightarrow> mac_store \<Rightarrow> (mac_error + unit) \<times> mac_store" where
  "write_changes io written [] s = (Inr (), s)"
| "write_changes io written ((path, before, t) # cs) s =
     (if io_write_fails io path then (case undo_changes io written s of (e, s') \<Rightarrow> (Inl e, s'))
      else write_changes io ((path, before, t) # written) cs (put_file path (Some (GToken t)) s))"

definition remember :: "capability_token \<Rightarrow> mac_policy \<Rightarrow> mac_policy" where
  "remember t p = p\<lparr>mp_grants := bt_insert (grant_key (ct_subject t) (ct_action t) (ct_resource t)) t (mp_grants p)\<rparr>"

definition publish ::
  "mac_io \<Rightarrow> (string \<Rightarrow> string) \<Rightarrow> u64 \<Rightarrow> capability_token list \<Rightarrow> mac_world \<Rightarrow> (mac_error + unit) \<times> mac_world" where
  "publish io sha now ts w =
     (case locked_store io (fst w) of
        Inl e \<Rightarrow> (Inl e, w)
      | Inr False \<Rightarrow> (Inr (), (fold remember ts (fst w), snd w))
      | Inr True \<Rightarrow>
          and_then (plan_changes io sha now ts w) (\<lambda>cs w1.
            case write_changes io [] cs (snd w1) of (r, s2) \<Rightarrow> (r, (fst w1, s2))))"

text \<open>The files are tried in order; the first that is there decides.\<close>

fun token_in_files ::
  "mac_io \<Rightarrow> (capability_token \<Rightarrow> bool) \<Rightarrow> string list \<Rightarrow> mac_store \<Rightarrow> capability_token option option" where
  "token_in_files io ok [] s = None"
| "token_in_files io ok (path # paths) s =
     (if io_read_fails io path then Some None
      else (case bt_get (st_files s) path of
              None \<Rightarrow> token_in_files io ok paths s
            | Some (GToken t) \<Rightarrow> Some (if ok t then Some t else None)
            | Some _ \<Rightarrow> Some None))"

definition token_files :: "(string \<Rightarrow> string) \<Rightarrow> mac_policy \<Rightarrow> string \<Rightarrow> string \<Rightarrow> string \<Rightarrow> string list" where
  "token_files sha p subj act res =
     (if mp_wired p then (case grant_paths sha subj act res of (current, old) \<Rightarrow> current # (case old of None \<Rightarrow> [] | Some o' \<Rightarrow> [o'])) else [])"

definition current_token ::
  "mac_io \<Rightarrow> (string \<Rightarrow> string) \<Rightarrow> u64 \<Rightarrow> mac_world \<Rightarrow> string \<Rightarrow> string \<Rightarrow> string \<Rightarrow> capability_token option" where
  "current_token io sha now w subj act res =
     (case w of (p, s) \<Rightarrow>
        case token_in_files io (matching sha now p subj act res) (token_files sha p subj act res) s of
          Some r \<Rightarrow> r
        | None \<Rightarrow>
            (case bt_get (mp_grants p) (grant_key subj act res) of
               None \<Rightarrow> None
             | Some t \<Rightarrow> if matching sha now p subj act res t then Some t else None))"

definition file_binding :: "mac_io \<Rightarrow> string \<Rightarrow> string \<times> grant_record \<Rightarrow> (string \<times> string) list" where
  "file_binding io subj f =
     (case f of (name, r) \<Rightarrow>
        if prefix ''.'' name \<or> io_read_fails io name then []
        else (case r of GToken t \<Rightarrow> if ct_subject t = subj then [(ct_action t, ct_resource t)] else [] | _ \<Rightarrow> []))"

definition bindings_for :: "mac_io \<Rightarrow> mac_world \<Rightarrow> string \<Rightarrow> (string \<times> string) list" where
  "bindings_for io w subj =
     (case w of (p, s) \<Rightarrow>
        sort (remdups (map (\<lambda>(_, t). (ct_action t, ct_resource t)) (filter (\<lambda>(_, t). ct_subject t = subj) (mp_grants p))
          @ (if mp_wired p then concat (map (file_binding io subj) (st_files s)) else []))))"

definition is_permitted :: "mac_io \<Rightarrow> (string \<Rightarrow> string) \<Rightarrow> u64 \<Rightarrow> mac_world \<Rightarrow> string \<Rightarrow> string \<Rightarrow> string \<Rightarrow> bool" where
  "is_permitted io sha now w subj act res =
     (let live = (\<lambda>scope. case current_token io sha now w subj act scope of None \<Rightarrow> False | Some t \<Rightarrow> \<not> is_expired t now)
      in \<not> mp_enforce (fst w) \<or> live res \<or> res \<noteq> ''*'' \<and> live ''*''
         \<or> list_ex (\<lambda>(a, r). a = act \<and> r \<noteq> res \<and> r \<noteq> ''*'' \<and> grant_covers r res \<and> live r) (bindings_for io w subj))"

section \<open>Granting and revoking\<close>

definition issue_token ::
  "(string \<Rightarrow> string) \<Rightarrow> u64 \<Rightarrow> mac_policy \<Rightarrow> string \<Rightarrow> string \<Rightarrow> string \<Rightarrow> u64 option \<Rightarrow> mac_error + capability_token" where
  "issue_token sha now p subj act res ttl =
     (let token = (\<lambda>e. \<lparr>ct_subject = subj, ct_action = act, ct_resource = res, ct_issued = now, ct_expires = e, ct_signature = []\<rparr>);
          signed = (\<lambda>t. t\<lparr>ct_signature := sign_token sha (mp_key p) t\<rparr>)
      in case ttl of
           None \<Rightarrow> Inr (signed (token None))
         | Some n \<Rightarrow> (case checked_add_w now n of None \<Rightarrow> Inl EExpiry | Some e \<Rightarrow> Inr (signed (token (Some e)))))"

definition mac_grant ::
  "mac_io \<Rightarrow> (string \<Rightarrow> string) \<Rightarrow> u64 \<Rightarrow> string \<Rightarrow> string \<Rightarrow> string \<Rightarrow> u64 option \<Rightarrow> mac_world \<Rightarrow> (mac_error + capability_token) \<times> mac_world" where
  "mac_grant io sha now subj act res ttl w =
     (case issue_token sha now (fst w) subj act res ttl of
        Inl e \<Rightarrow> (Inl e, w)
      | Inr t \<Rightarrow> and_then (publish io sha now [t] w) (\<lambda>_ w1. (Inr t, w1)))"

definition forget :: "string \<Rightarrow> mac_policy \<Rightarrow> mac_policy" where
  "forget key p = p\<lparr>mp_grants := bt_remove key (mp_grants p)\<rparr>"

definition masks_default :: "string \<Rightarrow> string \<Rightarrow> bool" where
  "masks_default subj res = (subj = ''susi'' \<and> (res = ''*'' \<or> res = ''app://*''))"

definition drop_record :: "mac_io \<Rightarrow> string \<Rightarrow> string \<Rightarrow> string \<Rightarrow> mac_store \<Rightarrow> mac_error + mac_store" where
  "drop_record io subj res current s =
     (if masks_default subj res
      then (if io_write_fails io current then Inl EIo else Inr (put_file current (Some GNull) s))
      else if bt_get (st_files s) current = None \<or> io_move_fails io current then Inl EIo
      else Inr (put_file current None s))"

definition revoke_record ::
  "mac_io \<Rightarrow> (string \<Rightarrow> string) \<Rightarrow> u64 \<Rightarrow> string \<Rightarrow> string \<Rightarrow> string \<Rightarrow> mac_world \<Rightarrow> (mac_error + bool) \<times> mac_world" where
  "revoke_record io sha now subj act res w =
     (let key = grant_key subj act res
      in case locked_store io (fst w) of
           Inl e \<Rightarrow> (Inl e, w)
         | Inr False \<Rightarrow> (Inr (bt_get (mp_grants (fst w)) key \<noteq> None), (forget key (fst w), snd w))
         | Inr True \<Rightarrow>
             and_then (migrate_record io sha now subj act res w) (\<lambda>current w1.
               if io_read_fails io current then (Inl EIo, w1)
               else
                 let present = (case bt_get (st_files (snd w1)) current of
                        Some GGarbled \<Rightarrow> Inl EIo
                      | Some GNull \<Rightarrow> Inr False
                      | Some (GToken _) \<Rightarrow> Inr True
                      | None \<Rightarrow> Inr (bt_get (mp_grants (fst w1)) key \<noteq> None))
                 in case present of
                      Inl e \<Rightarrow> (Inl e, w1)
                    | Inr False \<Rightarrow> (Inr False, (forget key (fst w1), snd w1))
                    | Inr True \<Rightarrow>
                        (case drop_record io subj res current (snd w1) of
                           Inl e \<Rightarrow> (Inl e, w1)
                         | Inr s2 \<Rightarrow> (Inr True, (forget key (fst w1), s2)))))"

definition grants_for :: "mac_io \<Rightarrow> (string \<Rightarrow> string) \<Rightarrow> u64 \<Rightarrow> mac_world \<Rightarrow> string \<Rightarrow> capability_token list" where
  "grants_for io sha now w subj = List.map_filter (\<lambda>(a, r). current_token io sha now w subj a r) (bindings_for io w subj)"

fun issue_all :: "(string \<Rightarrow> string) \<Rightarrow> u64 \<Rightarrow> mac_policy \<Rightarrow> string \<Rightarrow> u64 option \<Rightarrow> (string \<times> string) list \<Rightarrow> mac_error + capability_token list" where
  "issue_all sha now p subj ttl [] = Inr []"
| "issue_all sha now p subj ttl ((a, r) # bs) =
     (case issue_token sha now p subj a r ttl of
        Inl e \<Rightarrow> Inl e
      | Inr t \<Rightarrow> (case issue_all sha now p subj ttl bs of Inl e \<Rightarrow> Inl e | Inr ts \<Rightarrow> Inr (t # ts)))"

definition consent_egress ::
  "mac_io \<Rightarrow> (string \<Rightarrow> string) \<Rightarrow> u64 \<Rightarrow> string \<Rightarrow> u64 \<Rightarrow> mac_world \<Rightarrow> (mac_error + capability_token list) \<times> mac_world" where
  "consent_egress io sha now subj ttl w =
     (case issue_all sha now (fst w) subj (Some ttl)
             ((NETWORK_EGRESS, ''*'') # (if policy_mode w = LocalOnly then [(CLOUD_INFERENCE, ''*'')] else [])) of
        Inl e \<Rightarrow> (Inl e, w)
      | Inr ts \<Rightarrow> and_then (publish io sha now ts w) (\<lambda>_ w1. (Inr ts, w1)))"

definition default_bindings :: "privacy_mode \<Rightarrow> (string \<times> string) list" where
  "default_bindings m =
     [(FILESYSTEM_READ, ''*''), (FILESYSTEM_WRITE, ''*''), (SANDBOX_EXEC, ''*''), (TRANSMIT, ''app://*'')]
     @ (if m = LocalOnly then [] else [(PROCESS_EXEC, ''*''), (NETWORK_EGRESS, ''*''), (CLOUD_INFERENCE, ''*'')])"

definition seed_defaults :: "mac_io \<Rightarrow> (string \<Rightarrow> string) \<Rightarrow> u64 \<Rightarrow> mac_world \<Rightarrow> (mac_error + unit) \<times> mac_world" where
  "seed_defaults io sha now w =
     (case issue_all sha now (fst w) ''susi'' None (default_bindings (policy_mode w)) of
        Inl e \<Rightarrow> (Inl e, w)
      | Inr ts \<Rightarrow> publish io sha now ts w)"

section \<open>Modes and constructors\<close>

definition write_mode :: "mac_io \<Rightarrow> privacy_mode \<Rightarrow> mac_world \<Rightarrow> (mac_error + unit) \<times> mac_world" where
  "write_mode io m w =
     (if mp_wired (fst w)
      then (if io_mode_fails io then (Inl EIo, w) else (Inr (), (fst w, (snd w)\<lparr>st_sticky := StickyText (mode_str m)\<rparr>)))
      else (Inr (), w))"

definition set_mode :: "mac_io \<Rightarrow> (string \<Rightarrow> string) \<Rightarrow> u64 \<Rightarrow> privacy_mode \<Rightarrow> mac_world \<Rightarrow> (mac_error + unit) \<times> mac_world" where
  "set_mode io sha now m w =
     and_then (revoke_record io sha now ''susi'' NETWORK_EGRESS ''*'' w) (\<lambda>_ w1.
     and_then (revoke_record io sha now ''susi'' CLOUD_INFERENCE ''*'' w1) (\<lambda>_ w2.
     and_then (revoke_record io sha now ''susi'' PROCESS_EXEC ''*'' w2) (\<lambda>_ w3.
     and_then (write_mode io m w3) (\<lambda>_ w4.
       seed_defaults io sha now ((fst w4)\<lparr>mp_mode := m, mp_sandbox := (m = LocalOnly)\<rparr>, snd w4)))))"

text \<open>\<open>new\<close> seeds in memory: it has no state directory yet, and \<open>with_state_dir\<close> adds it. A failure to seed is logged.\<close>

definition mac_new :: "mac_io \<Rightarrow> (string \<Rightarrow> string) \<Rightarrow> u64 \<Rightarrow> string \<Rightarrow> privacy_mode \<Rightarrow> bool \<Rightarrow> mac_store \<Rightarrow> mac_policy" where
  "mac_new io sha now key m sandbox s =
     fst (snd (seed_defaults io sha now
       (\<lparr>mp_key = key, mp_grants = [], mp_mode = m, mp_sandbox = sandbox, mp_enforce = True, mp_wired = False, mp_no_key = False\<rparr>, s)))"

definition with_state_dir :: "mac_policy \<Rightarrow> mac_policy" where
  "with_state_dir p = p\<lparr>mp_wired := True\<rparr>"

definition mac_wired ::
  "mac_io \<Rightarrow> (string \<Rightarrow> string) \<Rightarrow> u64 \<Rightarrow> string option \<Rightarrow> string \<Rightarrow> string \<Rightarrow> bool \<Rightarrow> mac_store \<Rightarrow> mac_policy" where
  "mac_wired io sha now key local_key cfg_mode cfg_sandbox s =
     (case key of
        None \<Rightarrow> (mac_new io sha now local_key LocalOnly True s)\<lparr>mp_no_key := True\<rparr>
      | Some k \<Rightarrow>
          let m = (case read_sticky_mode (st_sticky s) of None \<Rightarrow> mode_parse cfg_mode | Some m \<Rightarrow> m)
          in with_state_dir (mac_new io sha now k m (cfg_sandbox \<or> m = LocalOnly) s))"

definition mandatory_sandbox :: "mac_world \<Rightarrow> bool" where
  "mandatory_sandbox w = (mp_sandbox (fst w) \<or> policy_mode w = LocalOnly)"

definition set_mandatory_sandbox :: "bool \<Rightarrow> mac_policy \<Rightarrow> mac_policy" where
  "set_mandatory_sandbox on p = p\<lparr>mp_sandbox := on\<rparr>"

definition blocks_network_by_default :: "mac_world \<Rightarrow> bool" where
  "blocks_network_by_default w = (policy_mode w \<noteq> OpenMode)"

definition blocks_cloud_inference :: "mac_io \<Rightarrow> (string \<Rightarrow> string) \<Rightarrow> u64 \<Rightarrow> mac_world \<Rightarrow> bool" where
  "blocks_cloud_inference io sha now w =
     (policy_mode w = LocalOnly \<and> \<not> is_permitted io sha now w ''susi'' CLOUD_INFERENCE ''*'')"

definition egress_permitted :: "mac_io \<Rightarrow> (string \<Rightarrow> string) \<Rightarrow> (string \<Rightarrow> bool option) \<Rightarrow> u64 \<Rightarrow> mac_world \<Rightarrow> string \<Rightarrow> bool" where
  "egress_permitted io sha ip now w url =
     (url_stays_local ip url \<or> \<not> blocks_network_by_default w \<or> is_permitted io sha now w ''susi'' NETWORK_EGRESS ''*'')"

end
