(* ===== verification/Mac_Tools.thy ===== *)
theory Mac_Tools
  imports Mac_Policy
begin

text \<open>
  The decisions of \<open>crates/susi-core/src/mac_policy.rs\<close>: which capabilities a tool call needs, \<open>authorize_tool\<close>, and the confinement of
  paths that callers of the socket name. Paths are those of Unix. \<open>canon\<close> stands for \<open>canonicalize\<close> of a path's text: the components
  of the real path, or \<open>None\<close> when the file system refuses.
\<close>

section \<open>Requirements\<close>

definition EGRESS_TOOLS :: "string list" where
  "EGRESS_TOOLS =
     [''a2a_delegate'', ''agents_send'', ''power_reason'', ''meta_scout_agents'', ''brave_search'', ''google_search'', ''provider_probe'',
      ''provider_pull'', ''brain_probe'', ''keys_check'', ''keys_models'', ''harness_author'', ''harness_run'', ''harness_budget'',
      ''harness_plan'']"

definition egress_name :: "string \<Rightarrow> bool" where
  "egress_name t =
     (t \<in> set EGRESS_TOOLS \<or> sublist ''browser'' t \<or> prefix ''mcp_'' t \<or> prefix ''leading_mcp'' t \<or> sublist ''scout_model'' t
      \<or> sublist ''download'' t \<or> t = ''rag_query'' \<or> sublist ''http'' t \<or> sublist ''fetch'' t \<or> sublist ''web_search'' t
      \<or> sublist ''live_search'' t)"

definition requirements_for_tool :: "string \<Rightarrow> (string \<times> string) list" where
  "requirements_for_tool tool =
     (let t = to_ascii_lowercase tool
      in if egress_name t then [(NETWORK_EGRESS, ''*'')]
         else if t = ''exec_command'' then [(PROCESS_EXEC, ''*'')]
         else if t = ''sandbox_exec'' then [(SANDBOX_EXEC, ''*'')]
         else if t = ''write_file'' \<or> t = ''apply_patch_cycle'' then [(FILESYSTEM_WRITE, ''*'')]
         else if t = ''read_file'' \<or> prefix ''context_graph'' t \<or> t \<in> {''status'', ''identity'', ''host_telemetry'', ''list_models''}
         then [(FILESYSTEM_READ, ''*'')]
         else if prefix ''ipc_send'' t then [(TRANSMIT, ''app://*'')]
         else if t \<in> {''reason'', ''susi_solve'', ''mission_run''} \<or> prefix ''agents_'' t then [(FILESYSTEM_READ, ''*'')]
         else [(FILESYSTEM_READ, ''*'')])"

fun as_str :: "json \<Rightarrow> string option" where
  "as_str (JString s) = Some s"
| "as_str _ = None"

fun as_bool :: "json \<Rightarrow> bool option" where
  "as_bool (JBool b) = Some b"
| "as_bool _ = None"

fun is_object :: "json \<Rightarrow> bool" where
  "is_object (JObject _) = True"
| "is_object _ = False"

definition str_field :: "json \<Rightarrow> string \<Rightarrow> string option" where
  "str_field doc key = Option.bind (json_get doc key) as_str"

definition flag :: "json \<Rightarrow> string \<Rightarrow> bool" where
  "flag arg key = (Option.bind (json_get arg key) as_bool = Some True)"

definition trim_end_s :: "string \<Rightarrow> string" where
  "trim_end_s s = rev (dropWhile (\<lambda>c. c = CHR ''s'') (rev s))"

definition adapter_document_requirements :: "string option \<Rightarrow> json \<Rightarrow> (string \<times> string) list" where
  "adapter_document_requirements kind doc =
     (let k = trim_end_s (case kind of None \<Rightarrow> [] | Some s \<Rightarrow> to_ascii_lowercase (trim s))
      in if k = ''agent'' \<or> k = ''framework''
         then (if str_field doc ''kind'' = Some ''a2a'' then [(NETWORK_EGRESS, ''*'')] else [(PROCESS_EXEC, ''*'')])
         else if k = ''mcp''
         then (if list_ex (\<lambda>key. case json_get doc key of None \<Rightarrow> False | Some v \<Rightarrow> v \<noteq> JNull) [''runner'', ''args'', ''package'']
               then [(PROCESS_EXEC, ''*'')] else [])
         else [])"

section \<open>Authorization\<close>

definition live_lookup :: "string \<Rightarrow> json \<Rightarrow> bool" where
  "live_lookup tool arg =
     (tool \<in> {''agents_status'', ''frameworks_status''} \<and> flag arg ''refresh''
      \<or> tool \<in> {''provider_doctor'', ''provider_models''} \<and> flag arg ''live''
      \<or> tool = ''harness_models'' \<and> str_field arg ''mode'' \<in> {Some ''verify'', Some ''discover'', Some ''available''})"

definition stdio_mcp :: "string \<Rightarrow> json \<Rightarrow> bool" where
  "stdio_mcp tool arg =
     (tool = ''mcp_add''
      \<and> \<not> (case str_field arg ''command_or_url'' of
              None \<Rightarrow> False
            | Some s \<Rightarrow> let t = to_ascii_lowercase (trim s) in prefix ''http://'' t \<or> prefix ''https://'' t))"

definition adapter_needs :: "string \<Rightarrow> json \<Rightarrow> (string \<times> string) list" where
  "adapter_needs tool arg =
     (if tool = ''adapter_configure''
      then (case json_get arg ''adapter'' of
              None \<Rightarrow> []
            | Some doc \<Rightarrow> if is_object doc then adapter_document_requirements (str_field arg ''kind'') doc else [])
      else [])"

definition call_requirements :: "string \<Rightarrow> json \<Rightarrow> (string \<times> string) list" where
  "call_requirements tool arg =
     requirements_for_tool tool
     @ (if live_lookup tool arg then [(NETWORK_EGRESS, ''*'')] else [])
     @ (if tool = ''harness_run'' \<or> stdio_mcp tool arg then [(PROCESS_EXEC, ''*'')] else [])
     @ (if tool \<in> {''adapter_configure'', ''adapter_reset''} then [(FILESYSTEM_WRITE, ''*'')] else [])
     @ adapter_needs tool arg"

text \<open>The loop over the requirements stops at the first that is not permitted.\<close>

definition check_requirements ::
  "mac_io \<Rightarrow> (string \<Rightarrow> string) \<Rightarrow> u64 \<Rightarrow> mac_world \<Rightarrow> string \<Rightarrow> (string \<times> string) list \<Rightarrow> mac_error + unit" where
  "check_requirements io sha now w subj reqs =
     (case List.find (\<lambda>(a, r). \<not> is_permitted io sha now w subj a r) reqs of None \<Rightarrow> Inr () | Some (a, r) \<Rightarrow> Inl (EDeny a r))"

definition authorize_tool ::
  "mac_io \<Rightarrow> (string \<Rightarrow> string) \<Rightarrow> u64 \<Rightarrow> mac_world \<Rightarrow> string \<Rightarrow> json \<Rightarrow> string option \<Rightarrow> mac_error + unit" where
  "authorize_tool io sha now w tool arg subject =
     (let subj = (case subject of None \<Rightarrow> ''susi'' | Some s \<Rightarrow> s)
      in if tool = ''exec_command'' \<and> mandatory_sandbox w
         then (if is_permitted io sha now w subj PROCESS_EXEC ''*'' \<or> is_permitted io sha now w subj SANDBOX_EXEC ''*'' then Inr ()
               else Inl (EDeny PROCESS_EXEC ''*''))
         else check_requirements io sha now w subj (call_requirements tool arg))"

section \<open>Paths\<close>

datatype path_comp = Normal string | ParentDir

definition path_comps :: "string \<Rightarrow> path_comp list" where
  "path_comps s =
     map (\<lambda>c. if c = ''..'' then ParentDir else Normal c) (filter (\<lambda>c. c \<noteq> [] \<and> c \<noteq> ''.'') (split_on CHR ''/'' s))"

fun comp_text :: "path_comp \<Rightarrow> string" where
  "comp_text (Normal s) = s"
| "comp_text ParentDir = ''..''"

definition path_text :: "string list \<Rightarrow> string" where
  "path_text cs = ''/'' @ join ''/'' cs"

definition is_absolute :: "string \<Rightarrow> bool" where
  "is_absolute s = prefix ''/'' s"

definition strip_verbatim_prefix :: "string \<Rightarrow> string" where
  "strip_verbatim_prefix s =
     (let b = CHR 0x5C
      in case strip_prefix [b, b, CHR ''?'', b, CHR ''U'', CHR ''N'', CHR ''C'', b] s of
           Some rest \<Rightarrow> [b, b] @ rest
         | None \<Rightarrow> (case strip_prefix [b, b, CHR ''?'', b] s of Some rest \<Rightarrow> rest | None \<Rightarrow> s))"

definition resource_text :: "string \<Rightarrow> string" where
  "resource_text s = replace_char (CHR 0x5C) (CHR ''/'') s"

definition access_action :: "bool \<Rightarrow> string" where
  "access_action write = (if write then FILESYSTEM_WRITE else FILESYSTEM_READ)"

definition confine_workspace ::
  "mac_io \<Rightarrow> (string \<Rightarrow> string) \<Rightarrow> u64 \<Rightarrow> mac_world \<Rightarrow> (string \<Rightarrow> string list option) \<Rightarrow> (string list \<Rightarrow> bool) \<Rightarrow> string \<Rightarrow> string \<Rightarrow> bool
    \<Rightarrow> mac_error + string" where
  "confine_workspace io sha now w canon is_dir subj path write =
     (let candidate = trim path
      in if \<not> is_absolute candidate then Inl ENotAbsolute
         else case canon candidate of
                None \<Rightarrow> Inl EMissing
              | Some cs \<Rightarrow>
                  if \<not> is_dir cs then Inl ENotDir
                  else if cs = [] then Inl ERoot
                  else
                    let plain = strip_verbatim_prefix (path_text cs);
                        res = resource_text plain
                    in if is_permitted io sha now w subj (access_action write) res then Inr plain else Inl (EDeny (access_action write) res))"

text \<open>The walk to the nearest ancestor the file system resolves: its real components, how many components of the path it has, and
  the names below it, innermost first. \<open>parent\<close> drops the last component; \<open>file_name\<close> is a normal last component.\<close>

fun nearest :: "(string \<Rightarrow> string list option) \<Rightarrow> path_comp list \<Rightarrow> string list \<Rightarrow> (string list \<times> nat \<times> string list) option" where
  "nearest canon rcs tail_names =
     (case canon (path_text (map comp_text (rev rcs))) of
        Some base \<Rightarrow> Some (base, length rcs, tail_names)
      | None \<Rightarrow> (case rcs of Normal n # rest \<Rightarrow> nearest canon rest (tail_names @ [n]) | _ \<Rightarrow> None))"

declare nearest.simps [simp del]

definition resolve_path :: "(string \<Rightarrow> string list option) \<Rightarrow> string \<Rightarrow> mac_error + string" where
  "resolve_path canon candidate =
     (let cs = path_comps candidate;
          found = (case canon candidate of
              Some base \<Rightarrow> Some (base, length cs, [])
            | None \<Rightarrow> (case rev cs of Normal n # rest \<Rightarrow> nearest canon rest [n] | _ \<Rightarrow> None))
      in case found of
           None \<Rightarrow> Inl EMissing
         | Some (base, k, tail_names) \<Rightarrow>
             if list_ex (\<lambda>c. c = ParentDir) (drop k cs) then Inl EClimbs
             else Inr (fold (\<lambda>n acc. (if acc = ''/'' then acc else acc @ ''/'') @ n) (rev tail_names) (strip_verbatim_prefix (path_text base))))"

definition confine_path ::
  "mac_io \<Rightarrow> (string \<Rightarrow> string) \<Rightarrow> u64 \<Rightarrow> mac_world \<Rightarrow> (string \<Rightarrow> string list option) \<Rightarrow> string \<Rightarrow> string \<Rightarrow> bool \<Rightarrow> mac_error + string" where
  "confine_path io sha now w canon subj path write =
     (let candidate = trim path
      in if \<not> is_absolute candidate then Inl ENotAbsolute
         else case resolve_path canon candidate of
                Inl e \<Rightarrow> Inl e
              | Inr resolved \<Rightarrow>
                  let res = resource_text resolved
                  in if is_permitted io sha now w subj (access_action write) res then Inr resolved else Inl (EDeny (access_action write) res))"

end
