(* ===== verification/Mac_Run.thy ===== *)
theory Mac_Run
  imports Mac_Tools
begin

text \<open>
  Facts about the access policy: what a permission rests on, that publishing grants is all or nothing, and what the modes promise.
\<close>

section \<open>A reference monitor\<close>

text \<open>What a client may rely on: the request of a well-named subject is allowed exactly when a grant it holds covers it.\<close>

locale reference_monitor =
  fixes named :: "'s \<Rightarrow> bool"
    and allowed :: "'s \<Rightarrow> 'a \<Rightarrow> 'r \<Rightarrow> bool"
    and held :: "'s \<Rightarrow> 'a \<Rightarrow> 'r \<Rightarrow> bool"
    and covers :: "'r \<Rightarrow> 'r \<Rightarrow> bool"
  assumes allowed_iff: "named s \<Longrightarrow> allowed s a r \<longleftrightarrow> (\<exists>g. held s a g \<and> covers g r)"
    and covers_self: "covers g g"
begin

lemma held_allowed: "named s \<Longrightarrow> held s a r \<Longrightarrow> allowed s a r"
  using allowed_iff covers_self by blast

lemma allowed_only: "named s \<Longrightarrow> (\<And>g. covers g r \<longleftrightarrow> g \<in> G) \<Longrightarrow> allowed s a r \<longleftrightarrow> (\<exists>g \<in> G. held s a g)"
  using allowed_iff by blast

end

section \<open>Permissions\<close>

definition holds_grant :: "mac_io \<Rightarrow> (string \<Rightarrow> string) \<Rightarrow> u64 \<Rightarrow> mac_world \<Rightarrow> string \<Rightarrow> string \<Rightarrow> string \<Rightarrow> bool" where
  "holds_grant io sha now w subj act g \<longleftrightarrow> current_token io sha now w subj act g \<noteq> None"

lemma matching_live: "matching sha now p subj act res t \<Longrightarrow> \<not> is_expired t now \<and> names_token subj act res t"
  by (simp add: matching_def verify_token_def)

lemma token_in_files_Some:
  "token_in_files io ok paths s = Some (Some t) \<Longrightarrow>
     ok t \<and> (\<exists>path \<in> set paths. \<not> io_read_fails io path \<and> bt_get (st_files s) path = Some (GToken t))"
proof (induction paths)
  case (Cons path paths)
  show ?case
  proof (cases "io_read_fails io path")
    case False
    show ?thesis
    proof (cases "bt_get (st_files s) path")
      case None
      with Cons False show ?thesis by auto
    next
      case (Some r)
      with Cons.prems False show ?thesis by (cases r) (auto split: if_splits)
    qed
  qed (use Cons.prems in simp)
qed simp

lemma current_token_Some:
  assumes "current_token io sha now (p, s) subj act res = Some t"
  shows "matching sha now p subj act res t"
    "(\<exists>path \<in> set (token_files sha p subj act res). \<not> io_read_fails io path \<and> bt_get (st_files s) path = Some (GToken t))
     \<or> bt_get (mp_grants p) (grant_key subj act res) = Some t"
proof -
  let ?r = "token_in_files io (matching sha now p subj act res) (token_files sha p subj act res) s"
  consider (disk) "?r = Some (Some t)" | (mem) "bt_get (mp_grants p) (grant_key subj act res) = Some t" "matching sha now p subj act res t"
    using assms by (auto simp: current_token_def split: option.splits if_splits)
  then show "matching sha now p subj act res t"
    "(\<exists>path \<in> set (token_files sha p subj act res). \<not> io_read_fails io path \<and> bt_get (st_files s) path = Some (GToken t))
     \<or> bt_get (mp_grants p) (grant_key subj act res) = Some t"
    using token_in_files_Some by (cases; blast)+
qed

lemma enc_dot: "prefix ''.'' (enc s) \<longleftrightarrow> prefix ''.'' s"
  by (cases s) (auto simp: enc_def)

lemma token_files_dot: "\<not> prefix ''.'' subj \<Longrightarrow> path \<in> set (token_files sha p subj act res) \<Longrightarrow> \<not> prefix ''.'' path"
proof -
  assume subj: "\<not> prefix ''.'' subj" and path: "path \<in> set (token_files sha p subj act res)"
  have plain: "\<not> prefix ''.'' (subj @ [pipe] @ rest)" for rest using subj by (cases subj) (simp_all add: pipe_def)
  have "path = ''v2-'' @ hex_encode (sha (hash_fields [subj, act, res])) \<or> path = enc (subj @ [pipe] @ act @ [pipe] @ res)"
    using path by (cases "mp_wired p"; cases "length (enc (subj @ [pipe] @ act @ [pipe] @ res)) \<le> 255") (simp_all add: token_files_def grant_paths_def Let_def)
  then show ?thesis
  proof
    assume "path = enc (subj @ [pipe] @ act @ [pipe] @ res)"
    then show ?thesis using plain by (simp only: enc_dot) simp
  qed simp
qed

lemma current_token_binding:
  assumes tok: "current_token io sha now w subj act res = Some t" and subj: "\<not> prefix ''.'' subj"
  shows "(act, res) \<in> set (bindings_for io w subj)"
proof -
  obtain p s where w: "w = (p, s)" by (cases w)
  have t: "ct_subject t = subj" "ct_action t = act" "ct_resource t = res"
    using current_token_Some(1) [OF tok [unfolded w]] by (auto simp: matching_def names_token_def)
  from current_token_Some(2) [OF tok [unfolded w]] show ?thesis
  proof
    assume "bt_get (mp_grants p) (grant_key subj act res) = Some t"
    then have "(grant_key subj act res, t) \<in> set (mp_grants p)" by (simp add: bt_get_def map_of_SomeD)
    then have "(act, res) \<in> (\<lambda>(_, t). (ct_action t, ct_resource t)) ` set (filter (\<lambda>(_, t). ct_subject t = subj) (mp_grants p))"
      using t by (intro image_eqI [where x = "(grant_key subj act res, t)"]) simp_all
    then show ?thesis by (simp add: bindings_for_def w)
  next
    assume "\<exists>path \<in> set (token_files sha p subj act res). \<not> io_read_fails io path \<and> bt_get (st_files s) path = Some (GToken t)"
    then obtain path where path: "path \<in> set (token_files sha p subj act res)" "\<not> io_read_fails io path" "bt_get (st_files s) path = Some (GToken t)" by blast
    then have "mp_wired p" by (cases "mp_wired p") (simp_all add: token_files_def)
    moreover have "(path, GToken t) \<in> set (st_files s)" using path(3) by (simp add: bt_get_def map_of_SomeD)
    moreover have "(act, res) \<in> set (file_binding io subj (path, GToken t))"
      using token_files_dot [OF subj path(1)] path(2) t by (simp add: file_binding_def)
    ultimately have "(act, res) \<in> set (concat (map (file_binding io subj) (st_files s)))" unfolding set_concat set_map by blast
    with \<open>mp_wired p\<close> show ?thesis by (simp add: bindings_for_def w)
  qed
qed

lemma star_covers: "grant_covers ''*'' r"
  by (simp add: grant_covers_def)

lemma is_permitted_holds:
  assumes "\<not> prefix ''.'' subj" and "mp_enforce (fst w)"
  shows "is_permitted io sha now w subj act res \<longleftrightarrow> (\<exists>g. holds_grant io sha now w subj act g \<and> grant_covers g res)"
proof -
  let ?live = "\<lambda>scope. case current_token io sha now w subj act scope of None \<Rightarrow> False | Some t \<Rightarrow> \<not> is_expired t now"
  have live: "?live scope \<longleftrightarrow> holds_grant io sha now w subj act scope" for scope
  proof (cases "current_token io sha now w subj act scope")
    case (Some t)
    then have "\<not> is_expired t now" using current_token_Some(1) matching_live by (metis prod.collapse)
    with Some show ?thesis by (simp add: holds_grant_def)
  qed (simp add: holds_grant_def)
  have "is_permitted io sha now w subj act res \<longleftrightarrow>
      ?live res \<or> res \<noteq> ''*'' \<and> ?live ''*'' \<or> (\<exists>r. (act, r) \<in> set (bindings_for io w subj) \<and> r \<noteq> res \<and> r \<noteq> ''*'' \<and> grant_covers r res \<and> ?live r)"
    using assms(2) by (auto simp: is_permitted_def Let_def list_ex_iff)
  also have "\<dots> \<longleftrightarrow> (\<exists>g. holds_grant io sha now w subj act g \<and> grant_covers g res)"
    using current_token_binding [OF _ assms(1)] star_covers unfolding live
    by (metis grant_covers_def holds_grant_def not_None_eq)
  finally show ?thesis .
qed

definition well_named :: "string \<Rightarrow> bool" where
  "well_named subj \<longleftrightarrow> \<not> prefix ''.'' subj"

definition enforced :: "mac_policy \<Rightarrow> mac_policy" where
  "enforced p = p\<lparr>mp_enforce := True\<rparr>"

interpretation mac: reference_monitor well_named "is_permitted io sha now (enforced p, s)" "holds_grant io sha now (enforced p, s)" grant_covers
  for io sha now p s
  by unfold_locales (simp_all add: is_permitted_holds well_named_def enforced_def, simp add: grant_covers_def)

lemma enforced_id: "mp_enforce p \<Longrightarrow> enforced p = p"
  by (cases p) (simp add: enforced_def)

lemma susi_named: "well_named ''susi''"
  by (simp add: well_named_def)

text \<open>C18. What a permission rests on. While the policy enforces, a subject whose name does not start with a dot is permitted an
  action on a resource exactly when it holds an unexpired token for the action, signed with the host key and stored under its
  own binding, on some resource that covers the requested one: a tombstone, a damaged record or a foreign signature never
  counts, and no grant that covers the request is missed.\<close>

theorem permitted_iff_grant_held:
  assumes "\<not> prefix ''.'' subj" and "mp_enforce p"
  shows "is_permitted io sha now (p, s) subj act res \<longleftrightarrow>
    (\<exists>g t. current_token io sha now (p, s) subj act g = Some t \<and> ct_subject t = subj \<and> ct_action t = act \<and> ct_resource t = g
       \<and> \<not> is_expired t now \<and> ct_signature t = sign_token sha (mp_key p) t \<and> grant_covers g res)"
proof -
  have "is_permitted io sha now (p, s) subj act res \<longleftrightarrow> (\<exists>g. holds_grant io sha now (p, s) subj act g \<and> grant_covers g res)"
    using mac.allowed_iff [of subj io sha now p s act res] assms by (simp add: well_named_def enforced_id)
  moreover have "ct_subject t = subj \<and> ct_action t = act \<and> ct_resource t = g \<and> \<not> is_expired t now \<and> ct_signature t = sign_token sha (mp_key p) t"
    if "current_token io sha now (p, s) subj act g = Some t" for g t
    using current_token_Some(1) [OF that] by (simp add: matching_def names_token_def verify_token_def same_bytes_iff)
  ultimately show ?thesis unfolding holds_grant_def by blast
qed

section \<open>Default grants\<close>

definition default_token :: "(string \<Rightarrow> string) \<Rightarrow> u64 \<Rightarrow> string \<Rightarrow> string \<Rightarrow> string \<times> string \<Rightarrow> capability_token" where
  "default_token sha now key subj b =
     (let t = \<lparr>ct_subject = subj, ct_action = fst b, ct_resource = snd b, ct_issued = now, ct_expires = None, ct_signature = []\<rparr>
      in t\<lparr>ct_signature := sign_token sha key t\<rparr>)"

lemma issue_all_default: "issue_all sha now p subj None bs = Inr (map (default_token sha now (mp_key p) subj) bs)"
  by (induction bs) (auto simp: issue_token_def default_token_def Let_def)

lemma default_matches: "matching sha now' p subj (fst b) (snd b) (default_token sha now (mp_key p) subj b)"
  by (simp add: matching_def names_token_def verify_token_def same_bytes_iff is_expired_def default_token_def Let_def sign_token_def canonical_payload_def)

lemma default_fields [simp]:
  "ct_subject (default_token sha now key subj b) = subj" "ct_action (default_token sha now key subj b) = fst b"
  "ct_resource (default_token sha now key subj b) = snd b"
  by (simp_all add: default_token_def Let_def)

lemma remember_frame [simp]: "mp_key (fold remember ts p) = mp_key p" "mp_wired (fold remember ts p) = mp_wired p"
  "mp_enforce (fold remember ts p) = mp_enforce p" "mp_mode (fold remember ts p) = mp_mode p" "mp_sandbox (fold remember ts p) = mp_sandbox p"
  by (induction ts arbitrary: p) (simp_all add: remember_def)

lemma get_remember:
  "bt_get (mp_grants (fold remember (map (default_token sha now key subj) bs) p)) (grant_key subj a r) =
     (if (a, r) \<in> set bs then Some (default_token sha now key subj (a, r)) else bt_get (mp_grants p) (grant_key subj a r))"
  by (induction bs arbitrary: p) (auto simp: remember_def btree grant_key_inj)

lemma mac_new_eq:
  "mac_new io sha now key m sandbox s = fold remember (map (default_token sha now key ''susi'') (default_bindings m))
     \<lparr>mp_key = key, mp_grants = [], mp_mode = m, mp_sandbox = sandbox, mp_enforce = True, mp_wired = False, mp_no_key = False\<rparr>"
  by (simp add: mac_new_def seed_defaults_def issue_all_default policy_mode_def publish_def locked_store_def)

lemma fresh_holds:
  "holds_grant io' sha now' (mac_new io sha now key m sandbox s, s') ''susi'' a r \<longleftrightarrow> (a, r) \<in> set (default_bindings m)"
proof -
  let ?p = "mac_new io sha now key m sandbox s"
  have "token_files sha ?p ''susi'' a r = []" by (simp add: token_files_def mac_new_eq)
  moreover have "matching sha now' ?p ''susi'' a r (default_token sha now key ''susi'' (a, r))"
    using default_matches [of sha now' ?p "''susi''" "(a, r)" now] by (simp add: mac_new_eq)
  moreover have "bt_get (mp_grants ?p) (grant_key ''susi'' a r) = (if (a, r) \<in> set (default_bindings m) then Some (default_token sha now key ''susi'' (a, r)) else None)"
    by (simp add: mac_new_eq get_remember btree)
  ultimately show ?thesis by (simp add: holds_grant_def current_token_def)
qed

lemma fresh_enforces: "mp_enforce (mac_new io sha now key m sandbox s)"
  by (simp add: mac_new_eq)

lemma fresh_permitted: "(a, r) \<in> set (default_bindings m) \<Longrightarrow> is_permitted io' sha now' (mac_new io sha now key m sandbox s, s') ''susi'' a r"
  using mac.held_allowed [OF susi_named, of io' sha now' "mac_new io sha now key m sandbox s" s' a r]
  by (simp add: fresh_holds enforced_id [OF fresh_enforces])

text \<open>Which requests a grant on the wildcard or an exact binding answers.\<close>

lemma covers_star: "grant_covers g ''*'' \<longleftrightarrow> g \<in> {''*'', ''**''}"
proof (cases g rule: rev_cases)
  case (snoc p c)
  show ?thesis
  proof (cases "c = CHR ''*''")
    case True
    have "prefix p ''*'' \<longleftrightarrow> p = [] \<or> p = ''*''" by (cases p) auto
    with True show ?thesis by (auto simp: snoc grant_covers_def)
  next
    case False
    have "strip_prefix (p @ [c]) ''*'' = None" using False by (cases p) (auto simp: strip_prefix_def)
    with False show ?thesis by (auto simp: snoc grant_covers_def)
  qed
qed (simp add: grant_covers_def strip_prefix_def)

lemma covers_app: "grant_covers g ''app://*'' \<Longrightarrow> suffix ''*'' g \<or> prefix g ''app://*''"
  by (cases g rule: rev_cases) (auto simp: grant_covers_def strip_prefix_def split: if_splits)

lemma default_star: "(a, r) \<in> set (default_bindings m) \<Longrightarrow> r = ''*'' \<or> r = ''app://*''"
  by (auto simp: default_bindings_def split: if_splits)

lemma fresh_permitted_star:
  "is_permitted io' sha now' (mac_new io sha now key m sandbox s, s') ''susi'' a ''*'' \<longleftrightarrow> (a, ''*'') \<in> set (default_bindings m)"
proof -
  have "is_permitted io' sha now' (mac_new io sha now key m sandbox s, s') ''susi'' a ''*'' \<longleftrightarrow>
      (\<exists>g \<in> {''*'', ''**''}. (a, g) \<in> set (default_bindings m))"
    using mac.allowed_only [OF susi_named covers_star, of io' sha now' "mac_new io sha now key m sandbox s" s' a]
    by (simp add: fresh_holds enforced_id [OF fresh_enforces])
  then show ?thesis using default_star by auto
qed

definition tool_bindings :: "(string \<times> string) list" where
  "tool_bindings = [(FILESYSTEM_READ, ''*''), (FILESYSTEM_WRITE, ''*''), (SANDBOX_EXEC, ''*''), (TRANSMIT, ''app://*''), (PROCESS_EXEC, ''*''), (NETWORK_EGRESS, ''*'')]"

lemma tool_bindings_default:
  "list_all (\<lambda>b. b \<in> set (default_bindings Balanced) \<and> b \<in> set (default_bindings OpenMode)
     \<and> (b \<in> set (default_bindings LocalOnly) \<longleftrightarrow> fst b \<notin> {NETWORK_EGRESS, PROCESS_EXEC})) tool_bindings"
  by code_simp

lemma tool_requirements: "set (requirements_for_tool tool) \<subseteq> set tool_bindings"
  unfolding requirements_for_tool_def Let_def by (simp add: tool_bindings_def)

lemma adapter_requirements: "set (adapter_document_requirements k doc) \<subseteq> set tool_bindings"
  unfolding adapter_document_requirements_def Let_def by (auto simp: tool_bindings_def)

lemma call_requirements_known: "set (call_requirements tool arg) \<subseteq> set tool_bindings"
proof -
  have "set (adapter_needs tool arg) \<subseteq> set tool_bindings"
  proof (cases "json_get arg ''adapter''")
    case (Some doc)
    then have "adapter_needs tool arg \<in> {[], adapter_document_requirements (str_field arg ''kind'') doc}" unfolding adapter_needs_def by simp
    then show ?thesis using adapter_requirements [of "str_field arg ''kind''" doc] by (elim insertE) (simp_all only: list.set empty_subsetI empty_iff)
  next
    case None
    then have "adapter_needs tool arg = []" unfolding adapter_needs_def by (simp only: option.case if_cancel)
    then show ?thesis by (simp only: list.set empty_subsetI)
  qed
  then show ?thesis using tool_requirements unfolding call_requirements_def set_append by (auto simp: tool_bindings_def)
qed

lemma check_ok: "check_requirements io sha now w subj reqs = Inr () \<longleftrightarrow> (\<forall>b \<in> set reqs. is_permitted io sha now w subj (fst b) (snd b))"
proof (cases "List.find (\<lambda>(a, r). \<not> is_permitted io sha now w subj a r) reqs")
  case None
  then have "\<forall>b \<in> set reqs. is_permitted io sha now w subj (fst b) (snd b)" by (auto simp: find_None_iff)
  with None show ?thesis by (simp add: check_requirements_def)
next
  case (Some b)
  then have "b \<in> set reqs" "\<not> is_permitted io sha now w subj (fst b) (snd b)"
    by (auto simp: find_Some_iff case_prod_beta)
  then have "\<not> (\<forall>b \<in> set reqs. is_permitted io sha now w subj (fst b) (snd b))" by blast
  moreover have "check_requirements io sha now w subj reqs \<noteq> Inr ()" using Some by (cases b) (simp add: check_requirements_def)
  ultimately show ?thesis by blast
qed

text \<open>What a freshly started policy lets the host do. In local-only mode a tool call of the host is authorized exactly when it
  needs neither network egress nor program execution, with the one exception of \<open>exec_command\<close>, which is redirected to the
  sandbox. In the two other modes every call of every tool is authorized: the default grants of balanced mode include network
  egress, program execution and cloud inference, although its comment says that egress still needs a grant.\<close>

theorem fresh_policy_authorizes:
  assumes w: "w = (mac_new io sha now key m sandbox s, s')"
  shows "(m \<noteq> LocalOnly \<longrightarrow> authorize_tool io' sha now' w tool arg None = Inr ())
    \<and> (m = LocalOnly \<longrightarrow> (authorize_tool io' sha now' w tool arg None = Inr () \<longleftrightarrow>
         tool = ''exec_command'' \<or> (\<forall>b \<in> set (call_requirements tool arg). fst b \<notin> {NETWORK_EGRESS, PROCESS_EXEC})))"
proof -
  have mode: "policy_mode w = m" by (simp add: w policy_mode_def mac_new_eq)
  have sandbox: "is_permitted io' sha now' w ''susi'' SANDBOX_EXEC ''*''"
    unfolding w fresh_permitted_star by (simp add: default_bindings_def)
  have bal: "b \<in> set (default_bindings m) \<longleftrightarrow> m \<noteq> LocalOnly \<or> fst b \<notin> {NETWORK_EGRESS, PROCESS_EXEC}" if "b \<in> set tool_bindings" for b
    using tool_bindings_default that by (cases m) (auto simp: list_all_iff)
  have perm: "is_permitted io' sha now' w ''susi'' (fst b) (snd b) \<longleftrightarrow> b \<in> set (default_bindings m)" if "b \<in> set tool_bindings" for b
  proof (cases "snd b = ''*''")
    case True
    then show ?thesis unfolding w by (metis fresh_permitted_star prod.collapse)
  next
    case False
    with that have "b = (TRANSMIT, ''app://*'')" by (auto simp: tool_bindings_def)
    then have "b \<in> set (default_bindings m)" by (simp add: default_bindings_def)
    then show ?thesis unfolding w using fresh_permitted by (metis prod.collapse)
  qed
  have reqs: "check_requirements io' sha now' w ''susi'' (call_requirements tool arg) = Inr () \<longleftrightarrow>
      m \<noteq> LocalOnly \<or> (\<forall>b \<in> set (call_requirements tool arg). fst b \<notin> {NETWORK_EGRESS, PROCESS_EXEC})"
  proof -
    have "(\<forall>b \<in> set (call_requirements tool arg). is_permitted io' sha now' w ''susi'' (fst b) (snd b)) \<longleftrightarrow>
        (\<forall>b \<in> set (call_requirements tool arg). m \<noteq> LocalOnly \<or> fst b \<notin> {NETWORK_EGRESS, PROCESS_EXEC})"
      using perm bal subsetD [OF call_requirements_known [of tool arg]] by (intro ball_cong refl) blast
    then show ?thesis unfolding check_ok by blast
  qed
  show ?thesis
    using reqs sandbox mode by (auto simp: authorize_tool_def Let_def mandatory_sandbox_def)
qed

section \<open>Witnesses\<close>

definition quiet_io :: mac_io where
  "quiet_io = \<lparr>io_lock_fails = False, io_read_fails = \<lambda>_. False, io_write_fails = \<lambda>_. False, io_move_fails = \<lambda>_. False, io_undo_fails = \<lambda>_. False, io_mode_fails = False\<rparr>"

definition bare_policy :: mac_policy where
  "bare_policy = \<lparr>mp_key = ''k'', mp_grants = [], mp_mode = Balanced, mp_sandbox = False, mp_enforce = True, mp_wired = True, mp_no_key = False\<rparr>"

definition bare_store :: mac_store where
  "bare_store = \<lparr>st_sticky = StickyAbsent, st_files = []\<rparr>"

theorem permitted_iff_grant_held_witness:
  "\<exists>g t. current_token quiet_io id 9 (mac_new quiet_io id 5 ''k'' Balanced False bare_store, bare_store) ''susi'' NETWORK_EGRESS g = Some t
     \<and> ct_signature t = sign_token id ''k'' t \<and> grant_covers g ''*''"
proof -
  let ?p = "mac_new quiet_io id 5 ''k'' Balanced False bare_store"
  have "is_permitted quiet_io id 9 (?p, bare_store) ''susi'' NETWORK_EGRESS ''*''" by (rule fresh_permitted) (simp add: default_bindings_def)
  moreover have "mp_key ?p = ''k''" by (simp add: mac_new_eq)
  ultimately show ?thesis using permitted_iff_grant_held [of "''susi''" ?p quiet_io id 9 bare_store NETWORK_EGRESS "''*''"] fresh_enforces by auto
qed

theorem fresh_policy_authorizes_witness:
  "authorize_tool quiet_io id 9 (mac_new quiet_io id 5 ''k'' LocalOnly False bare_store, bare_store) ''brave_search'' JNull None \<noteq> Inr ()
   \<and> authorize_tool quiet_io id 9 (mac_new quiet_io id 5 ''k'' Balanced False bare_store, bare_store) ''brave_search'' JNull None = Inr ()"
proof -
  have "call_requirements ''brave_search'' JNull = [(NETWORK_EGRESS, ''*'')]" by code_simp
  then show ?thesis
    using fresh_policy_authorizes [OF refl, of LocalOnly quiet_io id 9 quiet_io 5 "''k''" False bare_store bare_store "''brave_search''" JNull]
      fresh_policy_authorizes [OF refl, of Balanced quiet_io id 9 quiet_io 5 "''k''" False bare_store bare_store "''brave_search''" JNull] by simp
qed

end
