(* ===== verification/Mac_Modes.thy ===== *)
theory Mac_Modes
  imports Mac_Run
begin

text \<open>
  The shared directory of the access policy: publishing grants is all or nothing, what a switch to local-only mode closes in
  every process, and what a damaged mode file leaves open.
\<close>

section \<open>Files of a binding\<close>

definition kpath :: "(string \<Rightarrow> string) \<Rightarrow> string \<Rightarrow> string \<Rightarrow> string \<Rightarrow> string" where
  "kpath sha subj act res = fst (grant_paths sha subj act res)"

definition opath :: "string \<Rightarrow> string \<Rightarrow> string \<Rightarrow> string" where
  "opath subj act res = enc (subj @ [pipe] @ act @ [pipe] @ res)"

lemma grant_paths_eq:
  "grant_paths sha subj act res = (kpath sha subj act res, if length (opath subj act res) \<le> 255 then Some (opath subj act res) else None)"
  by (simp add: kpath_def opath_def grant_paths_def Let_def)

lemma kpath_plain: "CHR ''%'' \<notin> set (kpath sha subj act res)"
proof -
  have "CHR ''%'' \<notin> set (hex_encode x)" for x using hex_encode_plain by blast
  then show ?thesis by (simp add: kpath_def grant_paths_def Let_def)
qed

lemma opath_percent: "CHR ''%'' \<in> set (opath subj act res)"
proof -
  have app: "enc (x @ y) = enc x @ enc y" for x y by (simp add: enc_def)
  have "CHR ''%'' \<in> set (enc [pipe])" by code_simp
  then show ?thesis by (simp only: opath_def app set_append Un_iff simp_thms)
qed

lemma kpath_opath: "kpath sha subj act res \<noteq> opath subj' act' res'"
  using kpath_plain opath_percent by metis

definition same_files_but :: "string set \<Rightarrow> mac_store \<Rightarrow> mac_store \<Rightarrow> bool" where
  "same_files_but N s s' \<longleftrightarrow> st_sticky s' = st_sticky s \<and> (\<forall>n. n \<notin> N \<longrightarrow> bt_get (st_files s') n = bt_get (st_files s) n)"

lemma same_files_refl: "same_files_but N s s"
  by (simp add: same_files_but_def)

lemma same_files_trans: "same_files_but M s t \<Longrightarrow> same_files_but N t u \<Longrightarrow> same_files_but (M \<union> N) s u"
  by (simp add: same_files_but_def)

lemma same_files_mono: "same_files_but M s t \<Longrightarrow> M \<subseteq> N \<Longrightarrow> same_files_but N s t"
  by (auto simp: same_files_but_def)

lemma put_file_get [simp]: "bt_get (st_files (put_file path r s)) n = (if n = path then r else bt_get (st_files s) n)"
  by (cases r) (simp_all add: put_file_def btree)

lemma put_file_sticky [simp]: "st_sticky (put_file path r s) = st_sticky s"
  by (simp add: put_file_def)

lemma same_files_put: "same_files_but {path} s (put_file path r s)"
  by (simp add: same_files_but_def)

section \<open>Migration\<close>

definition is_match :: "(string \<Rightarrow> string) \<Rightarrow> u64 \<Rightarrow> string \<Rightarrow> string \<Rightarrow> string \<Rightarrow> string \<Rightarrow> grant_record option \<Rightarrow> bool" where
  "is_match sha now key subj act res r \<longleftrightarrow> (\<exists>t. r = Some (GToken t) \<and> names_token subj act res t \<and> verify_token sha key now t)"

lemma migrate_record_cases:
  assumes "migrate_record io sha now subj act res (p, s) = (r, (p', s'))"
  shows "p' = p \<and> same_files_but {kpath sha subj act res, opath subj act res} s s' \<and> (\<forall>x. r = Inr x \<longrightarrow> x = kpath sha subj act res)"
    "r = Inr x \<Longrightarrow> bt_get (st_files s') (kpath sha subj act res) = None \<Longrightarrow> length (opath subj act res) \<le> 255 \<Longrightarrow>
       \<not> is_match sha now (mp_key p) subj act res (bt_get (st_files s') (opath subj act res))"
    "bt_get (st_files s) (opath subj act res) = None \<Longrightarrow> s' = s"
proof -
  let ?K = "kpath sha subj act res" and ?O = "opath subj act res"
  have ne: "?K \<noteq> ?O" by (rule kpath_opath)
  note D = assms [unfolded migrate_record_def grant_paths_eq prod.case]
  show "p' = p \<and> same_files_but {?K, ?O} s s' \<and> (\<forall>x. r = Inr x \<longrightarrow> x = ?K)"
    using D by (auto simp: same_files_but_def btree split: if_splits option.splits grant_record.splits)
  show "bt_get (st_files s) ?O = None \<Longrightarrow> s' = s"
    using D by (auto split: if_splits)
  show "\<not> is_match sha now (mp_key p) subj act res (bt_get (st_files s') ?O)"
    if "r = Inr x" "bt_get (st_files s') ?K = None" "length ?O \<le> 255"
    using D that ne by (auto simp: is_match_def matching_def btree split: if_splits option.splits grant_record.splits)
qed

section \<open>Publishing\<close>

definition tpath :: "(string \<Rightarrow> string) \<Rightarrow> capability_token \<Rightarrow> string" where
  "tpath sha t = kpath sha (ct_subject t) (ct_action t) (ct_resource t)"

definition tfiles :: "(string \<Rightarrow> string) \<Rightarrow> capability_token list \<Rightarrow> string set" where
  "tfiles sha ts = (\<Union>t \<in> set ts. {tpath sha t, opath (ct_subject t) (ct_action t) (ct_resource t)})"

lemma plan_cases:
  "plan_changes io sha now ts (p, s) = (r, (p', s')) \<Longrightarrow>
     p' = p \<and> same_files_but (tfiles sha ts) s s' \<and> (\<forall>cs. r = Inr cs \<longrightarrow> map (\<lambda>(path, _, t). (path, t)) cs = map (\<lambda>t. (tpath sha t, t)) ts)"
proof (induction ts arbitrary: s r p' s')
  case Nil
  then show ?case by (auto simp: same_files_refl)
next
  case (Cons t ts)
  obtain r1 p1 s1 where m: "migrate_record io sha now (ct_subject t) (ct_action t) (ct_resource t) (p, s) = (r1, (p1, s1))" by (metis prod.collapse)
  note M = migrate_record_cases(1) [OF m]
  obtain r2 p2 s2 where pl: "plan_changes io sha now ts (p, s1) = (r2, (p2, s2))" by (metis prod.collapse)
  note P = Cons.IH [OF pl]
  have s1: "same_files_but {tpath sha t, opath (ct_subject t) (ct_action t) (ct_resource t)} s s1" using M by (simp add: tpath_def)
  have s2: "same_files_but (tfiles sha ts) s1 s2" using P by blast
  have one: "same_files_but (tfiles sha (t # ts)) s s1" by (rule same_files_mono [OF s1]) (simp add: tfiles_def)
  have two: "same_files_but (tfiles sha (t # ts)) s s2" by (rule same_files_mono [OF same_files_trans [OF s1 s2]]) (auto simp: tfiles_def)
  show ?case
  proof (cases r1)
    case (Inl e)
    with Cons.prems m M one show ?thesis by (auto simp: and_then_def)
  next
    case (Inr path)
    then have "path = tpath sha t" "p1 = p" using M by (simp_all add: tpath_def)
    with Cons.prems m Inr pl P one two show ?thesis by (cases r2) (auto simp: and_then_def split: if_splits)
  qed
qed

lemma undo_frame: "undo_changes io ds s = (e, s') \<Longrightarrow> same_files_but (fst ` set ds) s s'"
proof (induction ds arbitrary: s)
  case (Cons d ds)
  obtain path before t where d: "d = (path, before, t)" by (cases d)
  show ?case
  proof (cases "io_undo_fails io path")
    case False
    with Cons.prems d have "undo_changes io ds (put_file path before s) = (e, s')" by simp
    from same_files_trans [OF same_files_put Cons.IH [OF this]] show ?thesis by (simp add: d)
  qed (use Cons.prems d in \<open>simp add: same_files_refl\<close>)
qed (simp add: same_files_refl)

lemma write_frame: "write_changes io ds cs s = (r, s') \<Longrightarrow> same_files_but (fst ` set ds \<union> fst ` set cs) s s'"
proof (induction io ds cs s arbitrary: r rule: write_changes.induct)
  case (2 io ds path before t cs s)
  show ?case
  proof (cases "io_write_fails io path")
    case True
    then obtain e where "undo_changes io ds s = (e, s')" using "2.prems" by (auto split: prod.splits)
    from undo_frame [OF this] show ?thesis by (rule same_files_mono) auto
  next
    case False
    then have "same_files_but (fst ` set ((path, before, t) # ds) \<union> fst ` set cs) (put_file path (Some (GToken t)) s) s'"
      using "2.prems" by (intro "2.IH") simp_all
    from same_files_trans [OF same_files_put this] show ?thesis by (rule same_files_mono) auto
  qed
qed (simp add: same_files_refl)

lemma write_ok:
  "write_changes io ds cs s = (Inr (), s') \<Longrightarrow> distinct (map fst cs) \<Longrightarrow> (path, before, t) \<in> set cs \<Longrightarrow> bt_get (st_files s') path = Some (GToken t)"
proof (induction io ds cs s rule: write_changes.induct)
  case (2 io ds path' before' t' cs s)
  have ok: "\<not> io_write_fails io path'" using "2.prems"(1) by (auto split: prod.splits if_splits)
  let ?s = "put_file path' (Some (GToken t')) s"
  have rest: "write_changes io ((path', before', t') # ds) cs ?s = (Inr (), s')" using ok "2.prems"(1) by simp
  show ?case
  proof (cases "(path, before, t) \<in> set cs")
    case True
    with "2.IH" [OF ok rest] "2.prems"(2) show ?thesis by simp
  next
    case False
    with "2.prems"(3) have eq: "path = path'" "t = t'" by auto
    have keep: "(Inr (), s'') = write_changes io es cs u \<Longrightarrow> path' \<notin> fst ` set cs \<Longrightarrow> bt_get (st_files s'') path' = bt_get (st_files u) path'" for s'' es u
    proof (induction cs arbitrary: es u)
      case (Cons c cs)
      obtain q b v where c: "c = (q, b, v)" by (cases c)
      from Cons.prems have "(Inr (), s'') = write_changes io ((q, b, v) # es) cs (put_file q (Some (GToken v)) u)"
        by (auto simp: c split: if_splits prod.splits)
      from Cons.IH [OF this] Cons.prems(2) show ?case by (simp add: c)
    qed simp
    from keep [OF rest [symmetric]] "2.prems"(2) eq show ?thesis by simp
  qed
qed simp

text \<open>A failed write is rolled back: every file is as before.\<close>

lemma undo_restores:
  assumes "undo_changes io ds s = (EIo, s')" and "\<And>path before t. (path, before, t) \<in> set ds \<Longrightarrow> before = bt_get (st_files s0) path"
    and "same_files_but (fst ` set ds) s0 s"
  shows "same_files_but {} s0 s'"
  using assms
proof (induction ds arbitrary: s)
  case (Cons d ds)
  obtain path before t where d: "d = (path, before, t)" by (cases d)
  have "\<not> io_undo_fails io path" using Cons.prems(1) d by auto
  then have "undo_changes io ds (put_file path before s) = (EIo, s')" using Cons.prems(1) d by simp
  then show ?case
    by (rule Cons.IH) (use Cons.prems(2,3) d in \<open>auto simp: same_files_but_def\<close>)
qed simp

lemma write_restores:
  assumes "write_changes io ds cs s = (Inl e, s')" and "e \<noteq> ERollback"
    and "\<And>path before t. (path, before, t) \<in> set ds \<union> set cs \<Longrightarrow> before = bt_get (st_files s0) path" and "same_files_but (fst ` set ds) s0 s"
  shows "same_files_but {} s0 s'"
  using assms
proof (induction io ds cs s rule: write_changes.induct)
  case (2 io ds path before t cs s)
  have undo_error: "fst (undo_changes io ds s) \<in> {EIo, ERollback}" for ds s
  proof (induction ds arbitrary: s)
    case (Cons d ds)
    then show ?case by (cases d) simp
  qed simp
  show ?case
  proof (cases "io_write_fails io path")
    case True
    then have "undo_changes io ds s = (e, s')" using "2.prems"(1) by (auto split: prod.splits)
    moreover have "e = EIo" using calculation undo_error [of ds s] "2.prems"(2) by auto
    ultimately show ?thesis using "2.prems"(3,4) by (intro undo_restores [of io ds s s' s0]) auto
  next
    case False
    show ?thesis
      by (rule "2.IH" [OF False]) (use "2.prems" False in \<open>auto simp: same_files_but_def\<close>)
  qed
qed simp

lemma plan_no_legacy:
  "(\<And>t. t \<in> set ts \<Longrightarrow> bt_get (st_files s) (opath (ct_subject t) (ct_action t) (ct_resource t)) = None) \<Longrightarrow>
     plan_changes io sha now ts (p, s) = (r, (p', s')) \<Longrightarrow> s' = s \<and> (\<forall>cs path before t. r = Inr cs \<and> (path, before, t) \<in> set cs \<longrightarrow> before = bt_get (st_files s) path)"
proof (induction ts arbitrary: r p' s')
  case (Cons t ts)
  obtain r1 p1 s1 where m: "migrate_record io sha now (ct_subject t) (ct_action t) (ct_resource t) (p, s) = (r1, (p1, s1))" by (metis prod.collapse)
  have s1: "s1 = s" "p1 = p" using migrate_record_cases(1,3) [OF m] Cons.prems(1) by simp_all
  obtain r2 p2 s2 where pl: "plan_changes io sha now ts (p, s) = (r2, (p2, s2))" by (metis prod.collapse)
  have P: "s2 = s" "\<And>cs path before t. r2 = Inr cs \<Longrightarrow> (path, before, t) \<in> set cs \<Longrightarrow> before = bt_get (st_files s) path"
    using Cons.IH [OF _ pl] Cons.prems(1) by auto
  show ?case
    using Cons.prems(2) m pl s1 P by (cases r1; cases r2) (auto simp: and_then_def split: if_splits)
qed auto


lemma publish_cases:
  assumes "publish io sha now ts (p, s) = (r, (p', s'))" and "mp_wired p"
  shows "p' = p" "same_files_but (tfiles sha ts) s s'"
    "r = Inr () \<Longrightarrow> distinct (map (tpath sha) ts) \<Longrightarrow> t \<in> set ts \<Longrightarrow> bt_get (st_files s') (tpath sha t) = Some (GToken t)"
proof -
  obtain r1 p1 s1 where pl: "plan_changes io sha now ts (p, s) = (r1, (p1, s1))" by (metis prod.collapse)
  note P = plan_cases [OF pl]
  have lock: "locked_store io p \<noteq> Inr False" using assms(2) by (simp add: locked_store_def)
  have sub: "fst ` set cs \<subseteq> tfiles sha ts" if "r1 = Inr cs" for cs
  proof -
    have "map fst (map (\<lambda>(path, _, t). (path, t)) cs) = map (tpath sha) ts" using P that by simp
    then have "map fst cs = map (tpath sha) ts" by (simp add: case_prod_beta' comp_def)
    then have "fst ` set cs = tpath sha ` set ts" by (metis list.set_map)
    then show ?thesis by (auto simp: tfiles_def)
  qed
  have "p' = p \<and> same_files_but (tfiles sha ts) s s'
      \<and> (r = Inr () \<longrightarrow> distinct (map (tpath sha) ts) \<longrightarrow> t \<in> set ts \<longrightarrow> bt_get (st_files s') (tpath sha t) = Some (GToken t))"
  proof (cases "locked_store io p = Inr True \<and> (\<exists>cs. r1 = Inr cs)")
    case True
    then obtain cs where cs: "locked_store io p = Inr True" "r1 = Inr cs" by blast
    then have w: "write_changes io [] cs s1 = (r, s')" "p' = p" using assms(1) pl P by (auto simp: publish_def and_then_def split: prod.splits)
    have "same_files_but (tfiles sha ts) s1 s'" by (rule same_files_mono [OF write_frame [OF w(1)]]) (use sub [OF cs(2)] in auto)
    from same_files_trans [OF _ this] P have frame: "same_files_but (tfiles sha ts) s s'" by (metis Un_absorb)
    have eq: "map (\<lambda>(path, _, t). (path, t)) cs = map (\<lambda>t. (tpath sha t, t)) ts" using P cs(2) by simp
    have "bt_get (st_files s') (tpath sha t) = Some (GToken t)" if "r = Inr ()" "distinct (map (tpath sha) ts)" "t \<in> set ts"
    proof -
      have "(tpath sha t, t) \<in> set (map (\<lambda>(path, _, t). (path, t)) cs)" unfolding eq using that(3) by auto
      then obtain before where mem: "(tpath sha t, before, t) \<in> set cs" by auto
      have "map fst cs = map (tpath sha) ts" using arg_cong [OF eq, of "map fst"] by (simp add: case_prod_beta' comp_def)
      with that(2) write_ok [OF w(1) [unfolded that(1)] _ mem] show ?thesis by simp
    qed
    with w(2) frame show ?thesis by blast
  next
    case False
    show ?thesis
    proof (cases "locked_store io p")
      case (Inl e)
      with assms(1) show ?thesis by (auto simp: publish_def same_files_refl)
    next
      case (Inr b)
      with lock have b: "b" by (cases b) auto
      with False Inr obtain e where e: "r1 = Inl e" by (cases r1) auto
      with assms(1) Inr b pl P show ?thesis by (auto simp: publish_def and_then_def)
    qed
  qed
  then show "p' = p" "same_files_but (tfiles sha ts) s s'"
    "r = Inr () \<Longrightarrow> distinct (map (tpath sha) ts) \<Longrightarrow> t \<in> set ts \<Longrightarrow> bt_get (st_files s') (tpath sha t) = Some (GToken t)" by blast+
qed

section \<open>File names do not collide\<close>

lemma be_bytes_eq:
  assumes "m < 256" "n < 256" "be_bytes (of_nat m) = be_bytes (of_nat n)"
  shows "m = n"
proof -
  have low: "be_bytes (of_nat k) ! 7 = char_of k" if "k < 256" for k
  proof -
    have "unat (of_nat k :: u64) = k" using that by (simp add: unat_of_nat take_bit_nat_eq_self)
    then show ?thesis using that by (simp add: be_bytes_def)
  qed
  have "(of_char (char_of m) :: nat) = of_char (char_of n)" using arg_cong [OF assms(3), of "\<lambda>b. b ! 7"] low assms(1,2) by simp
  then show ?thesis using assms(1,2) by simp
qed

lemma hash_fields_inj:
  "list_all (\<lambda>f. length f < 256) fs \<Longrightarrow> list_all (\<lambda>f. length f < 256) gs \<Longrightarrow> length fs = length gs \<Longrightarrow> hash_fields fs = hash_fields gs \<Longrightarrow> fs = gs"
proof (induction fs arbitrary: gs)
  case (Cons f fs)
  then obtain g gs' where gs: "gs = g # gs'" by (cases gs) auto
  have len: "length (be_bytes n) = 8" for n by (simp add: be_bytes_def)
  have eq: "be_bytes (of_nat (length f)) @ f @ hash_fields fs = be_bytes (of_nat (length g)) @ g @ hash_fields gs'"
    using Cons.prems(4) by (simp add: gs hash_fields_def)
  then have "be_bytes (of_nat (length f)) = be_bytes (of_nat (length g))" and rest: "f @ hash_fields fs = g @ hash_fields gs'"
    by (simp_all add: len append_eq_append_conv)
  then have "length f = length g" using Cons.prems(1,2) by (intro be_bytes_eq) (simp_all add: gs)
  with rest have "f = g" "hash_fields fs = hash_fields gs'" by (simp_all add: append_eq_append_conv)
  with Cons gs show ?case by auto
qed simp

lemma kpath_eq:
  assumes "inj sha" and "list_all (\<lambda>f. length f < 256) [s, a, r, s', a', r']" and "kpath sha s a r = kpath sha s' a' r'"
  shows "s = s' \<and> a = a' \<and> r = r'"
proof -
  have "sha (hash_fields [s, a, r]) = sha (hash_fields [s', a', r'])"
    using assms(3) hex_encode_inj by (simp add: kpath_def grant_paths_def Let_def)
  then have "hash_fields [s, a, r] = hash_fields [s', a', r']" using assms(1) by (simp add: inj_eq)
  then have "[s, a, r] = [s', a', r']" using assms(2) by (intro hash_fields_inj) simp_all
  then show ?thesis by simp
qed

lemma default_opaths: "distinct (map (\<lambda>b. opath ''susi'' (fst b) (snd b)) (default_bindings Balanced))"
  by code_simp

lemma default_lengths:
  "list_all (\<lambda>b. length (opath ''susi'' (fst b) (snd b)) \<le> 255 \<and> length (fst b) < 256 \<and> length (snd b) < 256) (default_bindings Balanced)"
  by code_simp

lemma default_modes: "set (default_bindings m) \<subseteq> set (default_bindings Balanced)"
  by (auto simp: default_bindings_def)

lemma default_files_apart:
  assumes "inj sha" and "b \<in> set (default_bindings Balanced)" and "c \<in> set (default_bindings Balanced)" and "b \<noteq> c"
  shows "{kpath sha ''susi'' (fst b) (snd b), opath ''susi'' (fst b) (snd b)} \<inter> {kpath sha ''susi'' (fst c) (snd c), opath ''susi'' (fst c) (snd c)} = {}"
proof -
  have len: "length (fst b) < 256" "length (snd b) < 256" "length (fst c) < 256" "length (snd c) < 256"
    and o: "opath ''susi'' (fst b) (snd b) \<noteq> opath ''susi'' (fst c) (snd c)"
    using default_lengths default_opaths assms(2-4) unfolding list_all_iff distinct_map inj_on_def by blast+
  have "kpath sha ''susi'' (fst b) (snd b) \<noteq> kpath sha ''susi'' (fst c) (snd c)"
    using kpath_eq [OF assms(1), of "''susi''" "fst b" "snd b" "''susi''" "fst c" "snd c"] len assms(4) by (auto simp: prod_eq_iff)
  with o show ?thesis using kpath_opath by (auto simp: kpath_opath [symmetric] dest: kpath_opath [THEN notE])
qed

section \<open>Switching the mode\<close>

definition tombstoned :: "(string \<Rightarrow> string) \<Rightarrow> string \<Rightarrow> mac_store \<Rightarrow> bool" where
  "tombstoned sha a s \<longleftrightarrow> bt_get (st_files s) (kpath sha ''susi'' a ''*'') = Some GNull"

definition closed :: "(string \<Rightarrow> string) \<Rightarrow> u64 \<Rightarrow> string \<Rightarrow> string \<Rightarrow> mac_store \<Rightarrow> bool" where
  "closed sha now key a s \<longleftrightarrow> tombstoned sha a s \<or> bt_get (st_files s) (kpath sha ''susi'' a ''*'') = None
     \<and> \<not> is_match sha now key ''susi'' a ''*'' (bt_get (st_files s) (opath ''susi'' a ''*''))"

definition host_key :: "string \<Rightarrow> string" where
  "host_key a = grant_key ''susi'' a ''*''"

lemma revoke_closes:
  assumes rev: "revoke_record io sha now ''susi'' a ''*'' (p, s) = (Inr b, (p', s'))" and wired: "mp_wired p" and len: "length (opath ''susi'' a ''*'') \<le> 255"
  shows "p' = forget (host_key a) p" "same_files_but {kpath sha ''susi'' a ''*'', opath ''susi'' a ''*''} s s'"
    "closed sha now (mp_key p) a s'" "bt_get (mp_grants p) (host_key a) \<noteq> None \<Longrightarrow> tombstoned sha a s'"
proof -
  let ?K = "kpath sha ''susi'' a ''*''" and ?O = "opath ''susi'' a ''*''"
  obtain r1 p1 s1 where mg: "migrate_record io sha now ''susi'' a ''*'' (p, s) = (r1, (p1, s1))" by (metis prod.collapse)
  note M = migrate_record_cases [OF mg]
  have lock: "locked_store io p = Inr True" using rev wired by (auto simp: revoke_record_def locked_store_def Let_def split: if_splits)
  have r1: "r1 = Inr ?K" "p1 = p" using rev lock mg M(1) by (cases r1; auto simp: revoke_record_def and_then_def Let_def)+
  have s1: "same_files_but {?K, ?O} s s1" using M(1) by blast
  have mask: "masks_default ''susi'' ''*''" by (simp add: masks_default_def)
  note R = rev [unfolded revoke_record_def Let_def fst_conv snd_conv lock sum.case bool.case mg and_then_def prod.case r1]
  have none: "closed sha now (mp_key p) a s1" if "bt_get (st_files s1) ?K = None" using M(2) [OF r1(1) that len] that by (simp add: closed_def)
  have put: "same_files_but {?K, ?O} s (put_file ?K (Some GNull) s1)" by (rule same_files_mono [OF same_files_trans [OF s1 same_files_put]]) auto
  have tomb: "tombstoned sha a (put_file ?K (Some GNull) s1)" by (simp add: tombstoned_def)
  consider (gone) "bt_get (st_files s1) ?K = None" "bt_get (mp_grants p) (host_key a) = None" "p' = forget (host_key a) p" "s' = s1"
    | (null) "bt_get (st_files s1) ?K = Some GNull" "p' = forget (host_key a) p" "s' = s1"
    | (dropped) "p' = forget (host_key a) p" "s' = put_file ?K (Some GNull) s1"
    using R mask by (auto simp: drop_record_def host_key_def split: if_splits option.splits grant_record.splits sum.splits bool.splits)
  then show "p' = forget (host_key a) p" "same_files_but {?K, ?O} s s'" "closed sha now (mp_key p) a s'"
    "bt_get (mp_grants p) (host_key a) \<noteq> None \<Longrightarrow> tombstoned sha a s'"
    using s1 none put tomb by (cases; auto simp: closed_def tombstoned_def)+
qed

text \<open>The actions that only the defaults of the open modes grant.\<close>

definition elevated :: "string set" where
  "elevated = {PROCESS_EXEC, NETWORK_EGRESS, CLOUD_INFERENCE}"

lemmas action_names = FILESYSTEM_READ_def FILESYSTEM_WRITE_def PROCESS_EXEC_def SANDBOX_EXEC_def NETWORK_EGRESS_def TRANSMIT_def CLOUD_INFERENCE_def

definition host_files :: "(string \<Rightarrow> string) \<Rightarrow> string \<Rightarrow> string set" where
  "host_files sha a = {kpath sha ''susi'' a ''*'', opath ''susi'' a ''*''}"

lemma elevated_default: "a \<in> elevated \<Longrightarrow> (a, ''*'') \<in> set (default_bindings Balanced)"
  by (auto simp: elevated_def default_bindings_def)

lemma elevated_apart: "inj sha \<Longrightarrow> a \<in> elevated \<Longrightarrow> a' \<in> elevated \<Longrightarrow> a \<noteq> a' \<Longrightarrow> host_files sha a \<inter> host_files sha a' = {}"
  using default_files_apart [of sha "(a, ''*'')" "(a', ''*'')"] elevated_default by (simp add: host_files_def)

lemma closed_frame: "same_files_but N s s' \<Longrightarrow> host_files sha a \<inter> N = {} \<Longrightarrow>
    closed sha now key a s' = closed sha now key a s \<and> tombstoned sha a s' = tombstoned sha a s"
  by (auto simp: closed_def tombstoned_def same_files_but_def host_files_def)

lemma forget_frame [simp]: "mp_key (forget k p) = mp_key p" "mp_wired (forget k p) = mp_wired p" "mp_enforce (forget k p) = mp_enforce p"
  by (simp_all add: forget_def)

lemma forget_other: "a \<noteq> a' \<Longrightarrow> bt_get (mp_grants (forget (host_key a) p)) (host_key a') = bt_get (mp_grants p) (host_key a')"
  by (simp add: forget_def host_key_def btree grant_key_inj)

lemma mode_round_trip: "mode_parse_persisted (mode_str m) = Some m"
proof -
  have "list_all (\<lambda>m. mode_parse_persisted (mode_str m) = Some m) [Balanced, LocalOnly, OpenMode]" by code_simp
  then show ?thesis by (cases m) simp_all
qed

text \<open>The steps of a switch that succeeds: three revocations, the mode file, the defaults of the new mode.\<close>

lemma and_then_Inr: "and_then r f = (Inr y, w) \<Longrightarrow> \<exists>x w'. r = (Inr x, w') \<and> f x w' = (Inr y, w)"
  by (auto simp: and_then_def split: prod.splits sum.splits)

definition revoked :: "(string \<Rightarrow> string) \<Rightarrow> u64 \<Rightarrow> mac_policy \<Rightarrow> string set \<Rightarrow> mac_store \<Rightarrow> bool" where
  "revoked sha now p A s \<longleftrightarrow> (\<forall>a \<in> A. closed sha now (mp_key p) a s \<and> (bt_get (mp_grants p) (host_key a) \<noteq> None \<longrightarrow> tombstoned sha a s))"

lemma revoke_step:
  assumes "inj sha" and "revoke_record io sha now ''susi'' a ''*'' (q, s) = (Inr b, (q', s'))" and "mp_wired q" and "mp_key q = mp_key p"
    and "revoked sha now p A s" and "A \<subseteq> elevated" and "a \<in> elevated" and "a \<notin> A" and "bt_get (mp_grants q) (host_key a) = bt_get (mp_grants p) (host_key a)"
  shows "revoked sha now p (insert a A) s' \<and> q' = forget (host_key a) q \<and> st_sticky s' = st_sticky s"
proof -
  have len: "length (opath ''susi'' a ''*'') \<le> 255" using default_lengths elevated_default [OF assms(7)] by (auto simp: list_all_iff)
  note R = revoke_closes [OF assms(2,3) len]
  have "closed sha now (mp_key p) c s' \<and> (bt_get (mp_grants p) (host_key c) \<noteq> None \<longrightarrow> tombstoned sha c s')" if "c \<in> insert a A" for c
  proof (cases "c = a")
    case True
    with R(3,4) assms(4,9) show ?thesis by simp
  next
    case False
    with that assms(6,7) have "host_files sha c \<inter> {kpath sha ''susi'' a ''*'', opath ''susi'' a ''*''} = {}"
      using elevated_apart [OF assms(1), of c a] by (auto simp: host_files_def)
    from closed_frame [OF R(2) this] False that assms(5) show ?thesis by (auto simp: revoked_def)
  qed
  then show ?thesis using R(1,2) by (simp add: revoked_def same_files_but_def)
qed

lemma set_mode_steps:
  assumes sw: "set_mode io sha now m (p, s) = (Inr (), (p', s'))" and wired: "mp_wired p" and inj: "inj sha"
  obtains s3 where "revoked sha now p elevated s3"
    "publish io sha now (map (default_token sha now (mp_key p) ''susi'') (default_bindings m)) (p', s3\<lparr>st_sticky := StickyText (mode_str m)\<rparr>) = (Inr (), (p', s'))"
    "mp_key p' = mp_key p" "mp_wired p'" "st_sticky s' = StickyText (mode_str m)"
proof -
  obtain b1 w1 where r1': "revoke_record io sha now ''susi'' NETWORK_EGRESS ''*'' (p, s) = (Inr b1, w1)"
    and sw1': "and_then (revoke_record io sha now ''susi'' CLOUD_INFERENCE ''*'' w1) (\<lambda>_ w2.
     and_then (revoke_record io sha now ''susi'' PROCESS_EXEC ''*'' w2) (\<lambda>_ w3.
     and_then (write_mode io m w3) (\<lambda>_ w4.
       seed_defaults io sha now ((fst w4)\<lparr>mp_mode := m, mp_sandbox := (m = LocalOnly)\<rparr>, snd w4)))) = (Inr (), (p', s'))"
    using and_then_Inr [OF sw [unfolded set_mode_def]] by blast
  obtain p1 s1 where w1: "w1 = (p1, s1)" by (cases w1)
  note r1 = r1' [unfolded w1] and sw1 = sw1' [unfolded w1]
  obtain b2 w2 where r2': "revoke_record io sha now ''susi'' CLOUD_INFERENCE ''*'' (p1, s1) = (Inr b2, w2)"
    and sw2': "and_then (revoke_record io sha now ''susi'' PROCESS_EXEC ''*'' w2) (\<lambda>_ w3.
     and_then (write_mode io m w3) (\<lambda>_ w4.
       seed_defaults io sha now ((fst w4)\<lparr>mp_mode := m, mp_sandbox := (m = LocalOnly)\<rparr>, snd w4))) = (Inr (), (p', s'))"
    using and_then_Inr [OF sw1] by blast
  obtain p2 s2 where w2: "w2 = (p2, s2)" by (cases w2)
  note r2 = r2' [unfolded w2] and sw2 = sw2' [unfolded w2]
  obtain b3 w3 where r3': "revoke_record io sha now ''susi'' PROCESS_EXEC ''*'' (p2, s2) = (Inr b3, w3)"
    and sw3': "and_then (write_mode io m w3) (\<lambda>_ w4.
       seed_defaults io sha now ((fst w4)\<lparr>mp_mode := m, mp_sandbox := (m = LocalOnly)\<rparr>, snd w4)) = (Inr (), (p', s'))"
    using and_then_Inr [OF sw2] by blast
  obtain p3 s3 where w3: "w3 = (p3, s3)" by (cases w3)
  note r3 = r3' [unfolded w3] and sw3 = sw3' [unfolded w3]
  have ne: "NETWORK_EGRESS \<noteq> CLOUD_INFERENCE" "NETWORK_EGRESS \<noteq> PROCESS_EXEC" "CLOUD_INFERENCE \<noteq> PROCESS_EXEC" by (simp_all add: action_names)
  have el: "elevated = insert PROCESS_EXEC (insert CLOUD_INFERENCE (insert NETWORK_EGRESS {}))" by (auto simp: elevated_def)
  have mem: "NETWORK_EGRESS \<in> elevated" "CLOUD_INFERENCE \<in> elevated" "PROCESS_EXEC \<in> elevated" by (simp_all add: elevated_def)
  have S1: "revoked sha now p (insert NETWORK_EGRESS {}) s1 \<and> p1 = forget (host_key NETWORK_EGRESS) p \<and> st_sticky s1 = st_sticky s"
    by (rule revoke_step [OF inj r1 wired]) (simp_all add: revoked_def mem)
  have S2: "revoked sha now p (insert CLOUD_INFERENCE (insert NETWORK_EGRESS {})) s2 \<and> p2 = forget (host_key CLOUD_INFERENCE) p1 \<and> st_sticky s2 = st_sticky s1"
    by (rule revoke_step [OF inj r2]) (use S1 wired ne mem in \<open>auto simp: forget_other\<close>)
  have S3: "revoked sha now p elevated s3 \<and> p3 = forget (host_key PROCESS_EXEC) p2 \<and> st_sticky s3 = st_sticky s2"
    unfolding el by (rule revoke_step [OF inj r3]) (use S1 S2 wired ne mem in \<open>auto simp: forget_other\<close>)
  let ?p = "p3\<lparr>mp_mode := m, mp_sandbox := (m = LocalOnly)\<rparr>" and ?s = "s3\<lparr>st_sticky := StickyText (mode_str m)\<rparr>"
  have frame: "mp_key ?p = mp_key p" "mp_wired ?p" using S1 S2 S3 wired by simp_all
  then have wm: "write_mode io m (p3, s3) = (Inr (), (p3, ?s))" using and_then_Inr [OF sw3] by (auto simp: write_mode_def split: if_splits)
  have "seed_defaults io sha now (?p, ?s) = (Inr (), (p', s'))" using sw3 wm by (simp add: and_then_def)
  moreover have "policy_mode (?p, ?s) = m" using frame by (simp add: policy_mode_def read_sticky_mode_def mode_round_trip)
  ultimately have pub: "publish io sha now (map (default_token sha now (mp_key p) ''susi'') (default_bindings m)) (?p, ?s) = (Inr (), (p', s'))"
    using frame by (simp add: seed_defaults_def issue_all_default)
  note P = publish_cases(1,2) [OF pub frame(2)]
  show ?thesis by (rule that [of s3]) (use S3 pub P frame in \<open>auto simp: same_files_but_def\<close>)
qed

lemma default_tfiles: "tfiles sha (map (default_token sha now key ''susi'') bs) = (\<Union>b \<in> set bs. {kpath sha ''susi'' (fst b) (snd b), opath ''susi'' (fst b) (snd b)})"
  by (simp add: tfiles_def tpath_def)

lemma verify_later: "verify_token sha key now' t \<Longrightarrow> now \<le> now' \<Longrightarrow> verify_token sha key now t"
  by (auto simp: verify_token_def is_expired_def split: option.splits)

lemma closed_not_held:
  assumes "closed sha now (mp_key q) a s" and "now \<le> now'" and "mp_wired q" and "length (opath ''susi'' a ''*'') \<le> 255"
    and "bt_get (mp_grants q) (host_key a) \<noteq> None \<Longrightarrow> tombstoned sha a s"
  shows "\<not> holds_grant io sha now' (q, s) ''susi'' a ''*''"
proof -
  let ?ok = "matching sha now' q ''susi'' a ''*''"
  have files: "token_files sha q ''susi'' a ''*'' = [kpath sha ''susi'' a ''*'', opath ''susi'' a ''*'']"
    using assms(3,4) by (simp add: token_files_def grant_paths_eq)
  have old: "\<not> ?ok t" if "bt_get (st_files s) (kpath sha ''susi'' a ''*'') = None" "bt_get (st_files s) (opath ''susi'' a ''*'') = Some (GToken t)" for t
    using assms(1,2) that verify_later by (auto simp: closed_def tombstoned_def is_match_def matching_def)
  show ?thesis
    using assms(1,5) old by (auto simp: holds_grant_def current_token_def files closed_def tombstoned_def host_key_def
        split: option.splits grant_record.splits if_splits)
qed


text \<open>C36. A damaged mode file does not fail closed. After any successful switch to balanced or open mode the default grants of
  that mode are in the shared store. If the mode file is then torn, garbled or unreadable, every process reports local-only
  mode, as the comment on \<open>read_sticky_mode\<close> promises, but the host still has network egress, program execution and cloud
  inference: the mode only labels the posture, and the stored grants decide.\<close>

theorem damaged_mode_stays_open:
  assumes sw: "set_mode io sha now m (p, s) = (Inr (), (p', s'))" and wired: "mp_wired p" and inj: "inj sha" and m: "m \<noteq> LocalOnly"
    and q: "mp_wired q" "mp_key q = mp_key p" "mp_enforce q" and reads: "\<And>path. \<not> io_read_fails io' path"
    and damaged: "read_sticky_mode f = Some LocalOnly" and a: "a \<in> elevated"
  shows "policy_mode (q, s'\<lparr>st_sticky := f\<rparr>) = LocalOnly \<and> is_permitted io' sha now' (q, s'\<lparr>st_sticky := f\<rparr>) ''susi'' a ''*''
    \<and> \<not> blocks_cloud_inference io' sha now' (q, s'\<lparr>st_sticky := f\<rparr>) \<and> egress_permitted io' sha ip now' (q, s'\<lparr>st_sticky := f\<rparr>) url"
proof -
  let ?s = "s'\<lparr>st_sticky := f\<rparr>"
  obtain s3 where pub: "publish io sha now (map (default_token sha now (mp_key p) ''susi'') (default_bindings m)) (p', s3\<lparr>st_sticky := StickyText (mode_str m)\<rparr>) = (Inr (), (p', s'))"
    and p': "mp_wired p'" using set_mode_steps [OF sw wired inj] by metis
  have dist: "distinct (default_bindings m)" by (cases m) (simp_all add: default_bindings_def action_names)
  have kinj: "kpath sha ''susi'' (fst b) (snd b) \<noteq> kpath sha ''susi'' (fst c) (snd c)" if "b \<in> set (default_bindings m)" "c \<in> set (default_bindings m)" "b \<noteq> c" for b c
    using default_files_apart [OF inj _ _ that(3)] that(1,2) default_modes [of m] by blast
  then have dt: "distinct (map (tpath sha) (map (default_token sha now (mp_key p) ''susi'') (default_bindings m)))"
    using dist by (force simp: distinct_map inj_on_def tpath_def)
  have perm: "is_permitted io' sha now' (q, ?s) ''susi'' c ''*''" if c: "c \<in> elevated" for c
  proof -
    let ?t = "default_token sha now (mp_key p) ''susi'' (c, ''*'')"
    have "(c, ''*'') \<in> set (default_bindings m)" using c m by (auto simp: elevated_def default_bindings_def)
    then have "?t \<in> set (map (default_token sha now (mp_key p) ''susi'') (default_bindings m))" by auto
    from publish_cases(3) [OF pub p' refl dt this] have "bt_get (st_files ?s) (kpath sha ''susi'' c ''*'') = Some (GToken ?t)" by (simp add: tpath_def)
    moreover have "matching sha now' q ''susi'' c ''*'' ?t" using default_matches [of sha now' q "''susi''" "(c, ''*'')" now] q(2) by simp
    ultimately have "holds_grant io' sha now' (q, ?s) ''susi'' c ''*''"
      using reads q(1) by (simp add: holds_grant_def current_token_def token_files_def grant_paths_eq)
    then show ?thesis using mac.held_allowed [OF susi_named, of io' sha now' q ?s c] by (simp add: enforced_id [OF q(3)])
  qed
  have "CLOUD_INFERENCE \<in> elevated" "NETWORK_EGRESS \<in> elevated" by (simp_all add: elevated_def)
  then show ?thesis using perm a q(1) damaged by (simp add: policy_mode_def blocks_cloud_inference_def egress_permitted_def)
qed

section \<open>Witnesses\<close>

definition full_io :: mac_io where
  "full_io = quiet_io\<lparr>io_write_fails := \<lambda>_. True\<rparr>"

lemma bare_revoke: "revoke_record quiet_io sha now ''susi'' a ''*'' (bare_policy, bare_store) = (Inr False, (bare_policy, bare_store))"
  by (simp add: revoke_record_def locked_store_def migrate_record_def grant_paths_eq and_then_def bare_policy_def bare_store_def quiet_io_def btree forget_def bt_remove_def Let_def)

lemma bare_plan: "st_files s = [] \<Longrightarrow> \<exists>cs. plan_changes (quiet_io\<lparr>io_write_fails := x\<rparr>) sha now ts (p, s) = (Inr cs, (p, s))"
proof (induction ts)
  case (Cons t ts)
  then obtain cs where "plan_changes (quiet_io\<lparr>io_write_fails := x\<rparr>) sha now ts (p, s) = (Inr cs, (p, s))" by blast
  moreover have "migrate_record (quiet_io\<lparr>io_write_fails := x\<rparr>) sha now (ct_subject t) (ct_action t) (ct_resource t) (p, s)
      = (Inr (tpath sha t), (p, s))"
    using Cons.prems by (simp add: migrate_record_def grant_paths_eq tpath_def quiet_io_def btree)
  ultimately show ?case by (simp add: and_then_def quiet_io_def)
qed simp

lemma quiet_write: "\<exists>s'. write_changes quiet_io ds cs s = (Inr (), s')"
  by (induction quiet_io ds cs s rule: write_changes.induct) (auto simp: quiet_io_def)

lemma quiet_same: "quiet_io\<lparr>io_write_fails := \<lambda>_. False\<rparr> = quiet_io"
  by (simp add: quiet_io_def)

lemma bare_switch: "\<exists>p' s'. set_mode quiet_io sha now m (bare_policy, bare_store) = (Inr (), (p', s'))"
proof -
  let ?p = "bare_policy\<lparr>mp_mode := m, mp_sandbox := (m = LocalOnly)\<rparr>" and ?s = "bare_store\<lparr>st_sticky := StickyText (mode_str m)\<rparr>"
  have "set_mode quiet_io sha now m (bare_policy, bare_store) = seed_defaults quiet_io sha now (?p, ?s)"
    by (simp add: set_mode_def bare_revoke and_then_def write_mode_def) (simp add: bare_policy_def quiet_io_def)
  moreover obtain ts where "seed_defaults quiet_io sha now (?p, ?s) = publish quiet_io sha now ts (?p, ?s)"
    by (simp add: seed_defaults_def issue_all_default)
  moreover obtain cs where "plan_changes quiet_io sha now ts (?p, ?s) = (Inr cs, (?p, ?s))"
    using bare_plan [of ?s "\<lambda>_. False" sha now ts ?p] by (auto simp: quiet_same bare_store_def)
  moreover obtain s' where "write_changes quiet_io [] cs ?s = (Inr (), s')" using quiet_write by blast
  moreover have "locked_store quiet_io ?p = Inr True" by (simp add: locked_store_def bare_policy_def quiet_io_def)
  ultimately show ?thesis by (simp add: publish_def and_then_def)
qed


theorem damaged_mode_stays_open_witness:
  "\<exists>p' s'. set_mode quiet_io id 5 Balanced (bare_policy, bare_store) = (Inr (), (p', s'))
     \<and> policy_mode (bare_policy, s'\<lparr>st_sticky := StickyText []\<rparr>) = LocalOnly
     \<and> is_permitted quiet_io id 9 (bare_policy, s'\<lparr>st_sticky := StickyText []\<rparr>) ''susi'' NETWORK_EGRESS ''*''"
proof -
  obtain p' s' where sw: "set_mode quiet_io id 5 Balanced (bare_policy, bare_store) = (Inr (), (p', s'))" using bare_switch by blast
  have torn: "read_sticky_mode (StickyText []) = Some LocalOnly" by code_simp
  have "policy_mode (bare_policy, s'\<lparr>st_sticky := StickyText []\<rparr>) = LocalOnly
     \<and> is_permitted quiet_io id 9 (bare_policy, s'\<lparr>st_sticky := StickyText []\<rparr>) ''susi'' NETWORK_EGRESS ''*''"
    using damaged_mode_stays_open [OF sw, of bare_policy quiet_io "StickyText []" NETWORK_EGRESS 9] torn
    by (simp add: bare_policy_def elevated_def quiet_io_def)
  with sw show ?thesis by blast
qed


end
