(* ===== verification/Mac_Confine.thy ===== *)
theory Mac_Confine
  imports Mac_Modes
begin

text \<open>
  The confinement of paths named over the socket: what a resolved path is, that access to it is granted, and where the check and the
  path part.
\<close>

section \<open>Resolved paths\<close>

definition push_name :: "string \<Rightarrow> string \<Rightarrow> string" where
  "push_name n acc = (if acc = ''/'' then acc else acc @ ''/'') @ n"

lemma path_text_snoc: "cs \<noteq> [] \<or> n \<noteq> [] \<Longrightarrow> list_all (\<lambda>c. c \<noteq> []) cs \<Longrightarrow> push_name n (path_text cs) = path_text (cs @ [n])"
proof (cases "cs = []")
  case True
  then show ?thesis by (simp add: push_name_def path_text_def)
next
  case False
  assume ok: "list_all (\<lambda>c. c \<noteq> []) cs"
  have ne: "join ''/'' cs \<noteq> []" using False ok by (cases cs rule: list.exhaust; cases "tl cs") (auto simp: join_Cons)
  have "join ''/'' (cs @ [n]) = join ''/'' cs @ ''/'' @ n" using join_append [OF False, of "[n]" "''/''"] by simp
  with ne show ?thesis by (simp add: push_name_def path_text_def)
qed

lemma path_text_names:
  "list_all (\<lambda>c. c \<noteq> []) cs \<Longrightarrow> list_all (\<lambda>c. c \<noteq> []) ns \<Longrightarrow> fold push_name ns (path_text cs) = path_text (cs @ ns)"
proof (induction ns arbitrary: cs)
  case (Cons n ns)
  then have "push_name n (path_text cs) = path_text (cs @ [n])" by (intro path_text_snoc) simp_all
  with Cons.IH [of "cs @ [n]"] Cons.prems show ?case by simp
qed simp

lemma strip_verbatim_unix: "strip_verbatim_prefix (path_text cs) = path_text cs"
  by (simp add: strip_verbatim_prefix_def path_text_def strip_prefix_def Let_def)

text \<open>The walk: the path is an existing ancestor followed by normal names.\<close>

lemma nearest_Some:
  "nearest canon rcs names = Some (base, k, out) \<Longrightarrow>
     \<exists>ns. rev rcs = take k (rev rcs) @ map Normal ns \<and> k \<le> length rcs \<and> out = names @ rev ns
       \<and> canon (path_text (map comp_text (take k (rev rcs)))) = Some base"
proof (induction canon rcs names rule: nearest.induct)
  case (1 canon rcs names)
  show ?case
  proof (cases "canon (path_text (map comp_text (rev rcs)))")
    case (Some b)
    with "1.prems" have "b = base" "k = length rcs" "out = names" by (auto simp: nearest.simps [of canon rcs])
    with Some show ?thesis by (intro exI [of _ "[]"]) simp
  next
    case None
    then obtain n rest where rcs: "rcs = Normal n # rest" and rec: "nearest canon rest (names @ [n]) = Some (base, k, out)"
      using "1.prems" by (auto simp: nearest.simps [of canon rcs] split: list.splits path_comp.splits)
    from "1.IH" [OF None rcs refl rec] obtain ns where ns: "rev rest = take k (rev rest) @ map Normal ns" "k \<le> length rest"
      "out = names @ [n] @ rev ns" "canon (path_text (map comp_text (take k (rev rest)))) = Some base" by auto
    then show ?thesis by (intro exI [of _ "ns @ [n]"]) (simp add: rcs)
  qed
qed


lemma path_text_last: "path_text (ds @ [d]) = (if ds = [] then ''/'' else path_text ds @ ''/'') @ d"
  by (cases "ds = []") (simp_all add: path_text_def join_append)

text \<open>On Unix a backslash is an ordinary character of a name, but the permission is checked on a text in which it is turned into a
  slash. A grant on a directory therefore lets its holder reach a sibling whose name continues the directory's name with a
  backslash: the path is accepted, although no part of the grant covers it.\<close>

theorem backslash_leaves_grant:
  assumes grant: "current_token io sha now (p, s) subj (access_action write) (path_text (ds @ [d])) \<noteq> None"
    and path: "is_absolute (trim path)" "canon (trim path) = Some (ds @ [d @ [CHR 0x5C] @ n])"
    and names: "d \<noteq> []" "last d \<notin> {CHR ''*'', CHR ''/''}" "CHR 0x5C \<notin> set (path_text (ds @ [d])) \<union> set n"
    and subj: "\<not> prefix ''.'' subj"
  shows "confine_path io sha now (p, s) canon subj path write = Inr (path_text (ds @ [d @ [CHR 0x5C] @ n]))
    \<and> \<not> grant_covers (path_text (ds @ [d])) (path_text (ds @ [d @ [CHR 0x5C] @ n]))"
proof -
  let ?dir = "path_text (ds @ [d])" and ?sib = "path_text (ds @ [d @ [CHR 0x5C] @ n])"
  have sib: "?sib = ?dir @ [CHR 0x5C] @ n" by (simp add: path_text_last)
  have last: "?dir \<noteq> []" "last ?dir = last d" using names(1) by (simp_all add: path_text_last)
  then have ends: "\<not> suffix ''*'' ?dir" "\<not> suffix ''/'' ?dir" using names(2) by (auto simp: suffix_def)
  have id: "map (\<lambda>c. if c = CHR 0x5C then CHR ''/'' else c) xs = xs" if "CHR 0x5C \<notin> set xs" for xs using that by (intro map_idI) auto
  have res: "resource_text ?sib = ?dir @ ''/'' @ n"
    unfolding sib resource_text_def replace_char_def map_append using names(3) by (simp add: id)
  have "resolve_path canon (trim path) = Inr ?sib"
    using path(2) by (simp add: resolve_path_def Let_def strip_verbatim_unix)
  moreover have "is_permitted io sha now (p, s) subj (access_action write) (?dir @ ''/'' @ n)"
  proof (cases "mp_enforce p")
    case True
    have "grant_covers ?dir (?dir @ ''/'' @ n)" using covers_plain [OF ends] by auto
    then show ?thesis using is_permitted_holds [OF subj, of "(p, s)"] True grant by (auto simp: holds_grant_def)
  qed (simp add: is_permitted_def Let_def)
  ultimately have "confine_path io sha now (p, s) canon subj path write = Inr ?sib"
    using path(1) res by (simp add: confine_path_def Let_def)
  moreover have "\<not> grant_covers ?dir ?sib" unfolding covers_plain [OF ends] sib by simp
  ultimately show ?thesis by blast
qed

section \<open>Witnesses\<close>

definition ws_policy :: mac_policy where
  "ws_policy = remember (default_token id 5 ''k'' ''u'' (FILESYSTEM_READ, ''/srv/ws'')) (bare_policy\<lparr>mp_wired := False\<rparr>)"

lemma ws_token: "current_token quiet_io id 9 (ws_policy, bare_store) ''u'' FILESYSTEM_READ ''/srv/ws'' \<noteq> None"
proof -
  have "matching id 9 ws_policy ''u'' FILESYSTEM_READ ''/srv/ws'' (default_token id 5 ''k'' ''u'' (FILESYSTEM_READ, ''/srv/ws''))"
    using default_matches [of id 9 ws_policy "''u''" "(FILESYSTEM_READ, ''/srv/ws'')" 5] by (simp add: ws_policy_def remember_def bare_policy_def)
  moreover have "token_files id ws_policy ''u'' FILESYSTEM_READ ''/srv/ws'' = []" by (simp add: token_files_def ws_policy_def remember_def)
  moreover have "bt_get (mp_grants ws_policy) (grant_key ''u'' FILESYSTEM_READ ''/srv/ws'') = Some (default_token id 5 ''k'' ''u'' (FILESYSTEM_READ, ''/srv/ws''))"
    by (simp add: ws_policy_def remember_def btree)
  ultimately show ?thesis by (simp add: current_token_def)
qed

lemma ws_texts: "trim ''/srv/ws'' = ''/srv/ws''" "path_comps ''/srv/ws'' = [Normal ''srv'', Normal ''ws'']" "resource_text ''/srv/ws'' = ''/srv/ws''"
  by code_simp+


theorem backslash_leaves_grant_witness:
  "confine_path quiet_io id 9 (ws_policy, bare_store) (\<lambda>_. Some [''srv'', ''ws'' @ [CHR 0x5C] @ ''x'']) ''u'' ''/srv/ws'' False
     = Inr (path_text [''srv'', ''ws'' @ [CHR 0x5C] @ ''x''])
   \<and> \<not> grant_covers ''/srv/ws'' (path_text [''srv'', ''ws'' @ [CHR 0x5C] @ ''x''])"
  using backslash_leaves_grant [of quiet_io id 9 ws_policy bare_store "''u''" False "[''srv'']" "''ws''" "''/srv/ws''"
      "\<lambda>_. Some [''srv'', ''ws'' @ [CHR 0x5C] @ ''x'']" "''x''"] ws_token
  by (simp add: path_text_def access_action_def ws_texts is_absolute_def)

end
