(* ===== verification/Job_Ledger.thy ===== *)
theory Job_Ledger
  imports Ordered_Map Susi_Strings
begin

text \<open>
  \<open>crates/susi-gawd-swarm/src/worker_recovery.rs\<close>: the ledger that binds a job to its worker, model, worktree and fence. The
  store is the map in memory and the file it is written to after each change; a write can fail or tear the file, and nobody is
  told. The clock is an argument.
\<close>

section \<open>State\<close>

datatype job_state = JAssigned | JRunning | JCompleted | JFailed string | JCancelled | JAwaiting

record job_receipt =
  jr_effect :: string
  jr_fence :: u64

record assignment =
  ja_job :: string
  ja_worker :: string
  ja_model :: string
  ja_worktree :: string
  ja_lease :: u64
  ja_state :: job_state
  ja_fence :: u64
  ja_receipts :: "job_receipt list"
  ja_edits :: "string list"
  ja_progress :: string

datatype fence_error = FStale | FTerminal | FMissing

type_synonym jobs = "(string, assignment) btree_map"

datatype job_file = NoFile | TornFile | JobFile jobs

record job_ledger =
  jl_jobs :: jobs
  jl_persisted :: bool
  jl_file :: job_file

datatype write_result = WriteOk | WriteFails | WriteTears

record assign_args =
  aa_job :: string
  aa_worker :: string
  aa_model :: string
  aa_worktree :: string
  aa_lease :: u64

definition persist_jobs :: "write_result \<Rightarrow> job_ledger \<Rightarrow> job_ledger" where
  "persist_jobs w l =
     (if \<not> jl_persisted l then l
      else case w of
             WriteOk \<Rightarrow> l\<lparr>jl_file := JobFile (jl_jobs l)\<rparr>
           | WriteFails \<Rightarrow> l
           | WriteTears \<Rightarrow> l\<lparr>jl_file := TornFile\<rparr>)"

definition load_jobs :: "job_ledger \<Rightarrow> job_ledger" where
  "load_jobs l = (if jl_persisted l then (case jl_file l of JobFile m \<Rightarrow> l\<lparr>jl_jobs := m\<rparr> | _ \<Rightarrow> l) else l)"

definition ledger_new :: job_ledger where
  "ledger_new = \<lparr>jl_jobs = [], jl_persisted = False, jl_file = NoFile\<rparr>"

definition ledger_persisted :: "job_file \<Rightarrow> job_ledger" where
  "ledger_persisted f = load_jobs (ledger_new\<lparr>jl_persisted := True, jl_file := f\<rparr>)"

definition put_job :: "write_result \<Rightarrow> string \<Rightarrow> assignment \<Rightarrow> job_ledger \<Rightarrow> job_ledger" where
  "put_job w job a l = persist_jobs w (l\<lparr>jl_jobs := bt_insert job a (jl_jobs l)\<rparr>)"

section \<open>Operations\<close>

definition assign_job :: "write_result \<Rightarrow> assign_args \<Rightarrow> job_ledger \<Rightarrow> u64 \<times> job_ledger" where
  "assign_job w a l =
     (1, put_job w (aa_job a)
           \<lparr>ja_job = aa_job a, ja_worker = aa_worker a, ja_model = aa_model a, ja_worktree = aa_worktree a, ja_lease = aa_lease a,
            ja_state = JAssigned, ja_fence = 1, ja_receipts = [], ja_edits = [], ja_progress = []\<rparr> l)"

definition terminal_state :: "job_state \<Rightarrow> bool" where
  "terminal_state s = (case s of JCompleted \<Rightarrow> True | JFailed _ \<Rightarrow> True | JCancelled \<Rightarrow> True | _ \<Rightarrow> False)"

definition get_job :: "job_ledger \<Rightarrow> string \<Rightarrow> assignment option" where
  "get_job l job = bt_get (jl_jobs l) job"

definition fenced :: "job_ledger \<Rightarrow> string \<Rightarrow> u64 \<Rightarrow> fence_error + assignment" where
  "fenced l job fence =
     (case get_job l job of
        None \<Rightarrow> Inl FMissing
      | Some a \<Rightarrow> if ja_fence a \<noteq> fence then Inl FStale else if terminal_state (ja_state a) then Inl FTerminal else Inr a)"

definition update_fenced ::
  "write_result \<Rightarrow> string \<Rightarrow> u64 \<Rightarrow> (assignment \<Rightarrow> assignment) \<Rightarrow> job_ledger \<Rightarrow> (fence_error + unit) \<times> job_ledger" where
  "update_fenced w job fence f l =
     (case fenced l job fence of Inl e \<Rightarrow> (Inl e, l) | Inr a \<Rightarrow> (Inr (), put_job w job (f a) l))"

definition job_heartbeat :: "write_result \<Rightarrow> string \<Rightarrow> u64 \<Rightarrow> u64 \<Rightarrow> job_ledger \<Rightarrow> (fence_error + u64) \<times> job_ledger" where
  "job_heartbeat w job fence new_lease l =
     (case get_job l job of
        None \<Rightarrow> (Inl FMissing, l)
      | Some a \<Rightarrow>
          if ja_fence a \<noteq> fence then (Inl FStale, l)
          else if terminal_state (ja_state a) then (Inl FTerminal, l)
          else (Inr new_lease, put_job w job (a\<lparr>ja_state := JRunning, ja_lease := new_lease\<rparr>) l))"

definition record_receipt :: "write_result \<Rightarrow> string \<Rightarrow> u64 \<Rightarrow> string \<Rightarrow> job_ledger \<Rightarrow> (fence_error + unit) \<times> job_ledger" where
  "record_receipt w job fence effect =
     update_fenced w job fence (\<lambda>a. a\<lparr>ja_receipts := ja_receipts a @ [\<lparr>jr_effect = effect, jr_fence = fence\<rparr>]\<rparr>)"

definition record_terminal_receipt :: "write_result \<Rightarrow> string \<Rightarrow> u64 \<Rightarrow> string \<Rightarrow> job_ledger \<Rightarrow> (fence_error + unit) \<times> job_ledger" where
  "record_terminal_receipt w job fence effect l =
     (case get_job l job of
        None \<Rightarrow> (Inl FMissing, l)
      | Some a \<Rightarrow>
          if ja_fence a \<noteq> fence then (Inl FStale, l)
          else if ja_state a \<noteq> JCompleted then (Inl FTerminal, l)
          else (Inr (), put_job w job (a\<lparr>ja_receipts := ja_receipts a @ [\<lparr>jr_effect = effect, jr_fence = fence\<rparr>]\<rparr>) l))"

definition checkpoint_job :: "write_result \<Rightarrow> string \<Rightarrow> u64 \<Rightarrow> string list \<Rightarrow> job_ledger \<Rightarrow> (fence_error + unit) \<times> job_ledger" where
  "checkpoint_job w job fence edits = update_fenced w job fence (\<lambda>a. a\<lparr>ja_edits := edits\<rparr>)"

definition job_progress :: "write_result \<Rightarrow> string \<Rightarrow> u64 \<Rightarrow> string \<Rightarrow> job_ledger \<Rightarrow> (fence_error + unit) \<times> job_ledger" where
  "job_progress w job fence note' = update_fenced w job fence (\<lambda>a. a\<lparr>ja_progress := note'\<rparr>)"

definition job_complete :: "write_result \<Rightarrow> string \<Rightarrow> u64 \<Rightarrow> job_ledger \<Rightarrow> (fence_error + unit) \<times> job_ledger" where
  "job_complete w job fence = update_fenced w job fence (\<lambda>a. a\<lparr>ja_state := JCompleted\<rparr>)"

definition job_fail :: "write_result \<Rightarrow> string \<Rightarrow> u64 \<Rightarrow> string \<Rightarrow> job_ledger \<Rightarrow> (fence_error + unit) \<times> job_ledger" where
  "job_fail w job fence why = update_fenced w job fence (\<lambda>a. a\<lparr>ja_state := JFailed why\<rparr>)"

definition job_cancel :: "write_result \<Rightarrow> string \<Rightarrow> job_ledger \<Rightarrow> job_ledger" where
  "job_cancel w job l =
     (case get_job l job of
        None \<Rightarrow> persist_jobs w l
      | Some a \<Rightarrow> put_job w job (a\<lparr>ja_state := JCancelled\<rparr>) l)"

definition lapsed :: "u64 \<Rightarrow> assignment \<Rightarrow> bool" where
  "lapsed now a = (ja_state a \<in> {JRunning, JAssigned} \<and> ja_lease a \<le> now)"

definition reap_expired :: "write_result \<Rightarrow> u64 \<Rightarrow> job_ledger \<Rightarrow> string list \<times> job_ledger" where
  "reap_expired w now l =
     (let dead = map fst (filter (\<lambda>(_, a). lapsed now a) (jl_jobs l));
          l' = l\<lparr>jl_jobs := map (\<lambda>(id, a). (id, if lapsed now a then a\<lparr>ja_state := JAwaiting\<rparr> else a)) (jl_jobs l)\<rparr>
      in (dead, if dead = [] then l' else persist_jobs w l'))"

definition reassignable :: "job_state \<Rightarrow> bool" where
  "reassignable s = (case s of JAwaiting \<Rightarrow> True | JFailed _ \<Rightarrow> True | _ \<Rightarrow> False)"

definition reassign_job :: "write_result \<Rightarrow> string \<Rightarrow> string \<Rightarrow> string \<Rightarrow> u64 \<Rightarrow> job_ledger \<Rightarrow> u64 option \<times> job_ledger" where
  "reassign_job w job new_worker new_model new_lease l =
     (case get_job l job of
        None \<Rightarrow> (None, l)
      | Some a \<Rightarrow>
          if \<not> reassignable (ja_state a) then (None, l)
          else (Some (ja_fence a + 1),
                put_job w job (a\<lparr>ja_fence := ja_fence a + 1, ja_worker := new_worker, ja_model := new_model,
                                ja_lease := new_lease, ja_state := JAssigned\<rparr>) l))"

definition awaiting_jobs :: "job_ledger \<Rightarrow> assignment list" where
  "awaiting_jobs l = filter (\<lambda>a. ja_state a = JAwaiting) (map snd (jl_jobs l))"

definition all_jobs :: "job_ledger \<Rightarrow> assignment list" where
  "all_jobs l = map snd (jl_jobs l)"

definition live_jobs :: "job_ledger \<Rightarrow> assignment list" where
  "live_jobs l = filter (\<lambda>a. \<not> terminal_state (ja_state a)) (map snd (jl_jobs l))"

section \<open>Runs\<close>

text \<open>What happens to a ledger between two looks at it. \<open>Restart\<close> is a new process on the same file.\<close>

datatype job_op =
    OAssign assign_args | OHeartbeat string u64 u64 | OReceipt string u64 string | OTerminalReceipt string u64 string
  | OCheckpoint string u64 "string list" | OProgress string u64 string | OComplete string u64 | OFail string u64 string
  | OCancel string | OReap u64 | OReassign string string string u64 | ORestart

fun job_step :: "write_result \<times> job_op \<Rightarrow> job_ledger \<Rightarrow> job_ledger" where
  "job_step (w, OAssign a) l = snd (assign_job w a l)"
| "job_step (w, OHeartbeat j f t) l = snd (job_heartbeat w j f t l)"
| "job_step (w, OReceipt j f e) l = snd (record_receipt w j f e l)"
| "job_step (w, OTerminalReceipt j f e) l = snd (record_terminal_receipt w j f e l)"
| "job_step (w, OCheckpoint j f es) l = snd (checkpoint_job w j f es l)"
| "job_step (w, OProgress j f n) l = snd (job_progress w j f n l)"
| "job_step (w, OComplete j f) l = snd (job_complete w j f l)"
| "job_step (w, OFail j f y) l = snd (job_fail w j f y l)"
| "job_step (w, OCancel j) l = job_cancel w j l"
| "job_step (w, OReap t) l = snd (reap_expired w t l)"
| "job_step (w, OReassign j wk m t) l = snd (reassign_job w j wk m t l)"
| "job_step (w, ORestart) l = ledger_persisted (jl_file l)"

definition job_run :: "(write_result \<times> job_op) list \<Rightarrow> job_ledger \<Rightarrow> job_ledger" where
  "job_run ops l = fold job_step ops l"

end
