(* ===== verification/Job_Ledger_Run.thy ===== *)
theory Job_Ledger_Run
  imports Job_Ledger
begin

text \<open>Runs of the job ledger: fences only grow, receipts are kept, and a superseded worker is refused for good, as long as the
  job is not assigned afresh and every write of the file succeeds; both conditions are needed.\<close>

section \<open>One step\<close>

definition synced :: "job_ledger \<Rightarrow> bool" where
  "synced l \<longleftrightarrow> jl_persisted l \<and> jl_file l = JobFile (jl_jobs l)"

definition over :: "job_state \<Rightarrow> bool" where
  "over s \<longleftrightarrow> s = JCompleted \<or> s = JCancelled"

definition evolves :: "assignment \<Rightarrow> assignment \<Rightarrow> bool" where
  "evolves a a' \<longleftrightarrow>
     (ja_fence a' = ja_fence a \<or> reassignable (ja_state a) \<and> ja_fence a' = ja_fence a + 1)
     \<and> prefix (ja_receipts a) (ja_receipts a')
     \<and> (over (ja_state a) \<longrightarrow> over (ja_state a') \<and> ja_worker a' = ja_worker a \<and> ja_fence a' = ja_fence a)"

lemma evolves_refl [simp]: "evolves a a"
  by (simp add: evolves_def)

lemma persist_jobs_get [simp]: "get_job (persist_jobs w l) j = get_job l j" "jl_persisted (persist_jobs w l) = jl_persisted l"
  by (simp_all add: persist_jobs_def get_job_def split: write_result.split)

lemma put_job_get: "get_job (put_job w k a l) j = (if j = k then Some a else get_job l j)"
  by (simp add: put_job_def get_job_def [of "l\<lparr>jl_jobs := _\<rparr>"] btree) (simp add: get_job_def)

lemma put_job_synced: "synced l \<Longrightarrow> synced (put_job WriteOk k a l)"
  by (simp add: synced_def put_job_def persist_jobs_def)

lemma fenced_Inr: "fenced l j f = Inr a \<longleftrightarrow> get_job l j = Some a \<and> ja_fence a = f \<and> \<not> terminal_state (ja_state a)"
  by (auto simp: fenced_def split: option.splits)

lemma update_fenced_step:
  assumes "get_job l j = Some a" "\<And>x. get_job l k = Some x \<Longrightarrow> \<not> terminal_state (ja_state x) \<Longrightarrow> evolves x (f x)"
  shows "\<exists>a'. get_job (snd (update_fenced w k fence f l)) j = Some a' \<and> evolves a a'"
proof (cases "fenced l k fence")
  case (Inr x)
  then show ?thesis using assms fenced_Inr [of l k fence x] by (auto simp: update_fenced_def put_job_get)
qed (use assms(1) in \<open>simp add: update_fenced_def\<close>)

lemma live_not_over: "\<not> terminal_state s \<Longrightarrow> \<not> over s"
  by (auto simp: over_def terminal_state_def)

lemma reap_get: "get_job (snd (reap_expired w now l)) j =
  map_option (\<lambda>a. if lapsed now a then a\<lparr>ja_state := JAwaiting\<rparr> else a) (get_job l j)"
proof -
  have "get_job (l\<lparr>jl_jobs := map (\<lambda>(id, a). (id, if lapsed now a then a\<lparr>ja_state := JAwaiting\<rparr> else a)) (jl_jobs l)\<rparr>) j =
      map_option (\<lambda>a. if lapsed now a then a\<lparr>ja_state := JAwaiting\<rparr> else a) (get_job l j)"
    unfolding get_job_def using bt_get_map [of "\<lambda>a. if lapsed now a then a\<lparr>ja_state := JAwaiting\<rparr> else a" "jl_jobs l" j] by simp
  then show ?thesis by (simp add: reap_expired_def Let_def)
qed

lemma reap_none: "filter (\<lambda>(_, a). lapsed now a) m = [] \<Longrightarrow> map (\<lambda>(id, a). (id, if lapsed now a then a\<lparr>ja_state := JAwaiting\<rparr> else a)) m = m"
  by (induction m) (auto split: if_splits)

lemma reap_synced: "synced l \<Longrightarrow> synced (snd (reap_expired WriteOk now l))"
  by (auto simp: synced_def reap_expired_def Let_def persist_jobs_def reap_none)

lemma load_synced: "synced l \<Longrightarrow> ledger_persisted (jl_file l) = l"
  by (simp add: synced_def ledger_persisted_def load_jobs_def ledger_new_def)

text \<open>The operations that do not assign the job \<open>j\<close> afresh.\<close>

definition keeps :: "string \<Rightarrow> job_op \<Rightarrow> bool" where
  "keeps j op = (case op of OAssign a \<Rightarrow> aa_job a \<noteq> j | _ \<Rightarrow> True)"

lemma update_fenced_synced: "synced l \<Longrightarrow> synced (snd (update_fenced WriteOk k fence f l))"
  by (simp add: update_fenced_def put_job_synced split: sum.split)

lemma step_synced: "synced l \<Longrightarrow> synced (job_step (WriteOk, op) l)"
  by (cases op)
    (simp_all add: assign_job_def job_heartbeat_def record_receipt_def record_terminal_receipt_def checkpoint_job_def job_progress_def
      job_complete_def job_fail_def job_cancel_def reassign_job_def put_job_synced update_fenced_synced reap_synced load_synced persist_jobs_def
      split: option.split, simp_all add: synced_def)

lemma step_evolves:
  assumes "synced l" "keeps j op" "get_job l j = Some a"
  shows "\<exists>a'. get_job (job_step (WriteOk, op) l) j = Some a' \<and> evolves a a'"
proof (cases op)
  case (OReap t)
  then show ?thesis using assms(3) by (auto simp: reap_get lapsed_def evolves_def over_def)
next
  case ORestart
  then show ?thesis using assms by (simp add: load_synced)
next
  case (OReassign k wk m t)
  then show ?thesis using assms(3)
    by (auto simp: reassign_job_def put_job_get evolves_def over_def reassignable_def split: option.split)
next
  case (OCancel k)
  then show ?thesis using assms(3) by (auto simp: job_cancel_def put_job_get evolves_def over_def split: option.split)
next
  case (OHeartbeat k f t)
  then show ?thesis using assms(3) by (auto simp: job_heartbeat_def put_job_get evolves_def live_not_over split: option.split)
next
  case (OTerminalReceipt k f e)
  then show ?thesis using assms(3) by (auto simp: record_terminal_receipt_def put_job_get evolves_def over_def split: option.split)
next
  case (OAssign x)
  then show ?thesis using assms(2,3) by (simp add: keeps_def assign_job_def put_job_get)
qed (use assms(3) in \<open>simp_all add: record_receipt_def checkpoint_job_def job_progress_def job_complete_def job_fail_def\<close>,
  (rule update_fenced_step, assumption, simp add: evolves_def live_not_over)+)

section \<open>Runs\<close>

definition calm :: "string \<Rightarrow> (write_result \<times> job_op) list \<Rightarrow> bool" where
  "calm j ops = list_all (\<lambda>(w, op). w = WriteOk \<and> keeps j op) ops"

lemma fence_Suc: "unat (f :: u64) + n < 2 ^ 64 \<Longrightarrow> 0 < n \<Longrightarrow> unat (f + 1) = unat f + 1"
proof -
  assume a: "unat f + n < 2 ^ 64" "0 < n"
  then have "f \<noteq> - 1" using unat_max_word [where 'a = 64] by auto
  then show ?thesis by (rule unat_Suc_word)
qed

lemma run_evolves:
  assumes "synced l" "calm j ops" "get_job l j = Some a" "unat (ja_fence a) + length ops < 2 ^ 64"
  shows "synced (job_run ops l) \<and> (\<exists>a'. get_job (job_run ops l) j = Some a' \<and> unat (ja_fence a) \<le> unat (ja_fence a') \<and> prefix (ja_receipts a) (ja_receipts a')
    \<and> (over (ja_state a) \<longrightarrow> over (ja_state a') \<and> ja_worker a' = ja_worker a \<and> ja_fence a' = ja_fence a))"
  using assms
proof (induction ops arbitrary: l a)
  case (Cons op ops)
  obtain w o' where op: "op = (w, o')" by (cases op)
  with Cons.prems(2) have w: "w = WriteOk" "keeps j o'" "calm j ops" by (simp_all add: calm_def)
  let ?l = "job_step op l"
  obtain a1 where a1: "get_job ?l j = Some a1" "evolves a a1" using step_evolves [OF Cons.prems(1) w(2) Cons.prems(3)] op w(1) by blast
  have s1: "synced ?l" using step_synced [OF Cons.prems(1)] op w(1) by simp
  have f1: "unat (ja_fence a1) \<le> unat (ja_fence a) + 1" "unat (ja_fence a) \<le> unat (ja_fence a1)"
    using a1(2) fence_Suc [OF Cons.prems(4)] by (auto simp: evolves_def)
  have "unat (ja_fence a1) + length ops < 2 ^ 64" using f1(1) Cons.prems(4) by simp
  from Cons.IH [OF s1 w(3) a1(1) this] obtain a' where a': "synced (job_run ops ?l)" "get_job (job_run ops ?l) j = Some a'"
      "unat (ja_fence a1) \<le> unat (ja_fence a')" "prefix (ja_receipts a1) (ja_receipts a')"
      "over (ja_state a1) \<longrightarrow> over (ja_state a') \<and> ja_worker a' = ja_worker a1 \<and> ja_fence a' = ja_fence a1" by blast
  have "job_run (op # ops) l = job_run ops ?l" by (simp add: job_run_def)
  moreover have "prefix (ja_receipts a) (ja_receipts a')" using a1(2) a'(4) unfolding evolves_def by (meson prefix_order.trans)
  moreover have "over (ja_state a) \<longrightarrow> over (ja_state a') \<and> ja_worker a' = ja_worker a \<and> ja_fence a' = ja_fence a"
    using a1(2) a'(5) unfolding evolves_def by auto
  ultimately show ?case using a' f1(2) by auto
qed (simp add: job_run_def)

lemma stale_refused:
  assumes "get_job l j = Some a" "ja_fence a \<noteq> f"
  shows "job_complete w j f l = (Inl FStale, l)" "job_fail w j f why l = (Inl FStale, l)" "job_heartbeat w j f t l = (Inl FStale, l)"
    "record_receipt w j f e l = (Inl FStale, l)" "record_terminal_receipt w j f e l = (Inl FStale, l)" "checkpoint_job w j f es l = (Inl FStale, l)"
    "job_progress w j f n l = (Inl FStale, l)"
  using assms by (simp_all add: job_complete_def job_fail_def job_heartbeat_def record_receipt_def record_terminal_receipt_def checkpoint_job_def
    job_progress_def update_fenced_def fenced_def)


definition demo_job :: assignment where
  "demo_job = \<lparr>ja_job = ''T-1'', ja_worker = ''w2'', ja_model = ''m'', ja_worktree = ''/w'', ja_lease = 9, ja_state = JRunning, ja_fence = 2,
     ja_receipts = [], ja_edits = [], ja_progress = []\<rparr>"

definition demo_ledger :: job_ledger where
  "demo_ledger = \<lparr>jl_jobs = [(''T-1'', demo_job)], jl_persisted = True, jl_file = JobFile [(''T-1'', demo_job)]\<rparr>"


text \<open>C37. Two ways back for a superseded worker. Assigning a job that is already in the ledger, as every dispatch round does for
  the tasks it claims, starts over at fence 1 and forgets the receipts, so the first worker of the earlier round may complete the
  job. And when the write after a reassignment fails, which is not reported, a restart brings the old fence back, and the worker
  that lost the job may complete it.\<close>

theorem superseded_worker_returns:
  "fst (job_complete w (aa_job x) 1 (snd (assign_job w' x l))) = Inr ()
   \<and> map_option ja_receipts (get_job (snd (assign_job w' x l)) (aa_job x)) = Some []
   \<and> (synced l \<and> get_job l j = Some a \<and> ja_state a = JAwaiting \<longrightarrow>
        fst (reassign_job WriteFails j wk m t l) = Some (ja_fence a + 1)
        \<and> fst (job_complete w j (ja_fence a) (job_step (WriteOk, ORestart) (snd (reassign_job WriteFails j wk m t l)))) = Inr ())"
proof (intro conjI impI)
  show "fst (job_complete w (aa_job x) 1 (snd (assign_job w' x l))) = Inr ()"
    by (simp add: job_complete_def update_fenced_def fenced_def assign_job_def put_job_get terminal_state_def)
  show "map_option ja_receipts (get_job (snd (assign_job w' x l)) (aa_job x)) = Some []" by (simp add: assign_job_def put_job_get)
next
  assume l: "synced l \<and> get_job l j = Some a \<and> ja_state a = JAwaiting"
  then show "fst (reassign_job WriteFails j wk m t l) = Some (ja_fence a + 1)" by (simp add: reassign_job_def reassignable_def)
  let ?l = "snd (reassign_job WriteFails j wk m t l)"
  have "jl_file ?l = jl_file l" using l by (simp add: reassign_job_def reassignable_def put_job_def persist_jobs_def)
  then have "job_step (WriteOk, ORestart) ?l = l" using l load_synced [of l] by simp
  then show "fst (job_complete w j (ja_fence a) (job_step (WriteOk, ORestart) ?l)) = Inr ()"
    using l by (simp add: job_complete_def update_fenced_def fenced_def terminal_state_def)
qed

theorem superseded_worker_returns_witness:
  "fst (job_complete WriteOk ''T-1'' 2 (job_step (WriteOk, ORestart)
     (snd (reassign_job WriteFails ''T-1'' ''w3'' ''m'' 30 (snd (reap_expired WriteOk 20 demo_ledger)))))) = Inr ()"
proof -
  let ?a = "demo_job\<lparr>ja_state := JAwaiting\<rparr>"
  have "synced (snd (reap_expired WriteOk 20 demo_ledger))" by (rule reap_synced) (simp add: synced_def demo_ledger_def)
  moreover have "get_job (snd (reap_expired WriteOk 20 demo_ledger)) ''T-1'' = Some ?a"
    unfolding reap_get by (simp add: demo_ledger_def get_job_def bt_get_def lapsed_def demo_job_def)
  ultimately show ?thesis using superseded_worker_returns [where j = "''T-1''" and a = ?a and wk = "''w3''" and m = "''m''" and t = 30] by (simp add: demo_job_def)
qed

end
