(* ===== verification/Integration.thy ===== *)
theory Integration
  imports Job_Ledger_Run Mac_Tools Claims
begin

text \<open>
  The closure of finished jobs: review receipts (\<open>independent_verify.rs\<close>) and the gate a job passes before its task is finished
  (\<open>agent_integration.rs\<close> of \<open>crates/susi-gawd-swarm/src\<close>). The answers of the queue, the revision probe, the acceptance
  runner, the reviewer, the merger and the publisher are fields of the environment; what the gate tells the queue is a list of
  effects. SHA-256 is the argument \<open>sha\<close>.
\<close>

section \<open>Review receipts\<close>

record review_receipt =
  rv_reviewer :: string
  rv_implementer :: string
  rv_task :: string
  rv_tool :: string
  rv_arguments :: string
  rv_result :: string
  rv_commit :: string
  rv_digest :: string

definition has_whitespace :: "string \<Rightarrow> bool" where
  "has_whitespace s = list_ex (\<lambda>i. list_ex (\<lambda>w. prefix w (drop i s)) ws_seqs) [0..<length s]"

definition valid_identity :: "string \<Rightarrow> bool" where
  "valid_identity s = (s \<noteq> [] \<and> trim s = s \<and> \<not> has_whitespace s)"

definition is_digest :: "string \<Rightarrow> bool" where
  "is_digest s =
     (case strip_prefix ''sha256:'' s of None \<Rightarrow> False | Some h \<Rightarrow> length h = 64 \<and> list_all is_ascii_hexdigit h)"

definition digest_fields :: "(string \<Rightarrow> string) \<Rightarrow> string list \<Rightarrow> string" where
  "digest_fields sha fs = ''sha256:'' @ hex_encode (sha (hash_fields fs))"

definition acceptance_arguments_digest :: "(string \<Rightarrow> string) \<Rightarrow> string list \<Rightarrow> string" where
  "acceptance_arguments_digest sha command = digest_fields sha command"

definition acceptance_success_digest :: "(string \<Rightarrow> string) \<Rightarrow> string" where
  "acceptance_success_digest sha = digest_fields sha [''exit_code'', ''0'', ''tests'', ''nonzero'']"

definition expected_digest :: "(string \<Rightarrow> string) \<Rightarrow> review_receipt \<Rightarrow> string" where
  "expected_digest sha r =
     digest_fields sha [rv_reviewer r, rv_implementer r, rv_task r, rv_tool r, rv_arguments r, rv_result r, rv_commit r]"

definition receipt_new :: "(string \<Rightarrow> string) \<Rightarrow> string \<Rightarrow> string \<Rightarrow> string \<Rightarrow> string \<Rightarrow> string \<Rightarrow> string \<Rightarrow> string \<Rightarrow> review_receipt" where
  "receipt_new sha reviewer implementer task tool arguments result commit =
     (let r = \<lparr>rv_reviewer = reviewer, rv_implementer = implementer, rv_task = task, rv_tool = tool, rv_arguments = arguments,
               rv_result = result, rv_commit = commit, rv_digest = []\<rparr>
      in r\<lparr>rv_digest := expected_digest sha r\<rparr>)"

definition receipt_verifies ::
  "(string \<Rightarrow> string) \<Rightarrow> review_receipt \<Rightarrow> string \<Rightarrow> string \<Rightarrow> string \<Rightarrow> string \<Rightarrow> string \<Rightarrow> string \<Rightarrow> string \<Rightarrow> bool" where
  "receipt_verifies sha r reviewer implementer task tool arguments result commit =
     (valid_identity (rv_reviewer r) \<and> valid_identity (rv_implementer r) \<and> valid_identity (rv_task r) \<and> valid_identity (rv_tool r)
      \<and> valid_identity (rv_commit r) \<and> rv_reviewer r = reviewer \<and> rv_implementer r = implementer \<and> rv_task r = task
      \<and> rv_tool r = tool \<and> rv_arguments r = arguments \<and> rv_result r = result \<and> rv_commit r = commit
      \<and> is_digest (rv_arguments r) \<and> is_digest (rv_result r) \<and> is_digest (rv_digest r) \<and> rv_digest r = expected_digest sha r)"

record tool_receipt =
  tr_tool :: string
  tr_digest :: string

record review_conclusion =
  co_reviewer :: string
  co_pass :: bool
  co_receipts :: "tool_receipt list"
  co_implementer :: string

definition verification_satisfied :: "review_conclusion \<Rightarrow> string \<Rightarrow> bool" where
  "verification_satisfied c implementer =
     (if \<not> valid_identity implementer \<or> \<not> valid_identity (co_reviewer c) \<or> \<not> valid_identity (co_implementer c)
         \<or> co_implementer c \<noteq> implementer \<or> co_reviewer c = implementer then False
      else if \<not> co_pass c then False
      else if co_receipts c = [] then False
      else length (remdups (map tr_digest (filter (\<lambda>r. valid_identity (tr_tool r) \<and> is_digest (tr_digest r)) (co_receipts c))))
             = length (co_receipts c))"

section \<open>The gate\<close>

record acceptance_observation =
  ao_tool :: string
  ao_arguments :: string
  ao_result :: string
  ao_tests :: nat

definition observation_successful :: "(string \<Rightarrow> string) \<Rightarrow> string list \<Rightarrow> acceptance_observation" where
  "observation_successful sha cmd =
     \<lparr>ao_tool = (case cmd of [] \<Rightarrow> [] | c # _ \<Rightarrow> c), ao_arguments = acceptance_arguments_digest sha cmd,
      ao_result = acceptance_success_digest sha, ao_tests = 1\<rparr>"

record roadmap_task =
  rt_id :: string
  rt_class :: string
  rt_accept :: "string list"
  rt_title :: string

datatype review_verdict = Approve | Reject "string list"

record verifier =
  vf_verify :: "string \<Rightarrow> roadmap_task \<Rightarrow> review_verdict"
  vf_identity :: "string option"
  vf_receipt :: "string \<Rightarrow> roadmap_task \<Rightarrow> string \<Rightarrow> string \<Rightarrow> acceptance_observation \<Rightarrow> review_receipt option"

datatype merge_result = MergeClean string | MergeConflict "string list"

datatype publication_status = Published | Awaiting string | Uncertain string

datatype integrate_outcome =
    Integrated string string | AwaitingPublication string string | PublicationUncertain string string | AcceptanceFailed string
  | WorkerFailed | VerifyRejected "string list" | ConflictReview "string list" | BlockedByDeps "string list"
  | NotCompleted "job_state option"

datatype queue_effect = QFinish string | QReopen string string

text \<open>The revision is probed twice, before the acceptance run and before the merge.\<close>

record gate_env =
  ge_deps :: "string \<Rightarrow> string list"
  ge_is_done :: "string \<Rightarrow> bool"
  ge_head_before :: "string \<Rightarrow> string \<Rightarrow> string + string"
  ge_accept :: "string \<Rightarrow> string list \<Rightarrow> string + acceptance_observation"
  ge_verifier :: "verifier option"
  ge_head_after :: "string \<Rightarrow> string \<Rightarrow> string + string"
  ge_integrate :: "string \<Rightarrow> string \<Rightarrow> string + merge_result"
  ge_publish :: "string \<Rightarrow> string \<Rightarrow> string \<Rightarrow> string + publication_status"
  ge_write :: write_result

fun split_where :: "(char \<Rightarrow> bool) \<Rightarrow> string \<Rightarrow> string list" where
  "split_where P [] = [[]]"
| "split_where P (c # s) = (if P c then [] # split_where P s else (case split_where P s of [] \<Rightarrow> [[c]] | t # ts \<Rightarrow> (c # t) # ts))"

definition is_test_acceptance :: "string list \<Rightarrow> bool" where
  "is_test_acceptance command =
     (command \<noteq> []
      \<and> list_ex (\<lambda>part. list_ex (\<lambda>token. token = ''test'' \<or> token = ''nextest'')
           (split_where (\<lambda>c. \<not> is_ascii_alphanumeric c \<and> c \<noteq> CHR ''_'') (to_ascii_lowercase part))) command)"

definition fence_text :: "fence_error \<Rightarrow> string" where
  "fence_text e = (case e of FStale \<Rightarrow> ''Stale'' | FTerminal \<Rightarrow> ''Terminal'' | FMissing \<Rightarrow> ''Missing'')"

text \<open>The end of the gate: the merge and its publication.\<close>

definition merge_and_publish :: "gate_env \<Rightarrow> string \<Rightarrow> string \<Rightarrow> string \<Rightarrow> string \<Rightarrow> integrate_outcome \<times> queue_effect list" where
  "merge_and_publish env job worktree branch source_sha =
     (case ge_integrate env worktree branch of
        Inr (MergeClean merge_sha) \<Rightarrow>
          (case ge_publish env worktree branch merge_sha of
             Inr Published \<Rightarrow> (Integrated merge_sha source_sha, [QFinish job])
           | Inr (Awaiting reason) \<Rightarrow> (AwaitingPublication merge_sha reason, [])
           | Inr (Uncertain reason) \<Rightarrow> (PublicationUncertain merge_sha reason, [])
           | Inl reason \<Rightarrow> (PublicationUncertain merge_sha reason, []))
      | Inr (MergeConflict names) \<Rightarrow> (ConflictReview names, [])
      | Inl why \<Rightarrow> (ConflictReview [''integrator error: '' @ why], []))"

definition review_and_merge ::
  "(string \<Rightarrow> string) \<Rightarrow> gate_env \<Rightarrow> string \<Rightarrow> string \<Rightarrow> roadmap_task \<Rightarrow> assignment \<Rightarrow> string \<Rightarrow> acceptance_observation \<Rightarrow> job_ledger
    \<Rightarrow> (integrate_outcome \<times> queue_effect list) \<times> job_ledger" where
  "review_and_merge sha env job branch task a source_sha acceptance l =
     (let rejected = (\<lambda>why reasons. ((VerifyRejected reasons, [QReopen job why]), l))
      in case ge_verifier env of
        None \<Rightarrow> rejected ''independent authenticated verifier required'' [''no independent authenticated verifier'']
      | Some v \<Rightarrow>
        (case vf_verify v (ja_worktree a) task of
           Reject reasons \<Rightarrow> rejected ''independent verification rejected'' reasons
         | Approve \<Rightarrow>
           (case vf_identity v of
              None \<Rightarrow> rejected ''reviewer identity is not authenticated'' [''reviewer identity is not authenticated'']
            | Some reviewer \<Rightarrow>
              (case vf_receipt v (ja_worktree a) task (ja_worker a) source_sha acceptance of
                 None \<Rightarrow> rejected ''independent review receipt missing'' [''independent review receipt missing'']
               | Some receipt \<Rightarrow>
                 if \<not> receipt_verifies sha receipt reviewer (ja_worker a) (rt_id task) (ao_tool acceptance) (ao_arguments acceptance)
                        (ao_result acceptance) source_sha
                 then rejected ''independent review receipt is not bound''
                        [''review receipt does not bind reviewer, acceptance, task, or commit'']
                 else
                   (case record_terminal_receipt (ge_write env) job (ja_fence a) (''verified review '' @ rv_digest receipt) l of
                      (Inl error, l1) \<Rightarrow>
                        ((VerifyRejected [''review receipt persistence failed: '' @ fence_text error],
                          [QReopen job ''could not persist independent review receipt'']), l1)
                    | (Inr _, l1) \<Rightarrow>
                        (case ge_head_after env (ja_worktree a) branch of
                           Inr s \<Rightarrow>
                             if s = source_sha then (merge_and_publish env job (ja_worktree a) branch source_sha, l1)
                             else ((VerifyRejected [''branch revision drifted '' @ source_sha @ '' '' @ [CHR 0xE2, CHR 0x86, CHR 0x92] @ '' ''
                                      @ s @ '' under verification''], [QReopen job ''branch moved under verification'']), l1)
                         | Inl why \<Rightarrow>
                             ((VerifyRejected [''revision probe failed post-verify: '' @ why], [QReopen job ''revision provenance lost'']), l1)))))))"

definition integrate_job ::
  "(string \<Rightarrow> string) \<Rightarrow> gate_env \<Rightarrow> string \<Rightarrow> string \<Rightarrow> roadmap_task \<Rightarrow> job_ledger \<Rightarrow> (integrate_outcome \<times> queue_effect list) \<times> job_ledger" where
  "integrate_job sha env job branch task l =
     (case get_job l job of
        None \<Rightarrow> ((NotCompleted None, []), l)
      | Some a \<Rightarrow>
          if ja_state a \<noteq> JCompleted then ((NotCompleted (Some (ja_state a)), []), l)
          else let still_open = filter (\<lambda>d. \<not> ge_is_done env d) (ge_deps env job)
               in if still_open \<noteq> [] then ((BlockedByDeps still_open, []), l)
          else (case ge_head_before env (ja_worktree a) branch of
                  Inl why \<Rightarrow>
                    ((VerifyRejected [''cannot bind acceptance to a revision: '' @ why], [QReopen job ''no revision provenance'']), l)
                | Inr source_sha \<Rightarrow>
                    if \<not> is_test_acceptance (rt_accept task)
                    then ((AcceptanceFailed ''acceptance must execute a test command'',
                           [QReopen job ''acceptance is not a nonzero test command'']), l)
                    else (case ge_accept env (ja_worktree a) (rt_accept task) of
                            Inl out \<Rightarrow> ((AcceptanceFailed out, [QReopen job ''acceptance failed'']), l)
                          | Inr acceptance \<Rightarrow>
                              if ao_tests acceptance = 0
                              then ((AcceptanceFailed ''acceptance ran zero tests'', [QReopen job ''acceptance ran zero tests'']), l)
                              else review_and_merge sha env job branch task a source_sha acceptance l)))"

section \<open>A dispatch round\<close>

record claimed_work =
  cw_task :: roadmap_task
  cw_worker :: string
  cw_worktree :: string

record job_outcome =
  jo_job :: string
  jo_output :: "string option"
  jo_stop :: "string option"

fun assign_fences :: "write_result \<Rightarrow> claimed_work list \<Rightarrow> u64 \<Rightarrow> (string, u64) btree_map \<Rightarrow> job_ledger \<Rightarrow> (string, u64) btree_map \<times> job_ledger" where
  "assign_fences w [] lease fences l = (fences, l)"
| "assign_fences w (cw # cws) lease fences l =
     (case assign_job w \<lparr>aa_job = rt_id (cw_task cw), aa_worker = cw_worker cw, aa_model = [], aa_worktree = cw_worktree cw, aa_lease = lease\<rparr> l of
        (fence, l1) \<Rightarrow> assign_fences w cws lease (bt_insert (rt_id (cw_task cw)) fence fences) l1)"

record closure =
  cl_gated :: "(string \<times> integrate_outcome) list"
  cl_failed :: "string list"
  cl_effects :: "queue_effect list"

definition close_one ::
  "(string \<Rightarrow> string) \<Rightarrow> gate_env \<Rightarrow> claimed_work list \<Rightarrow> (string, u64) btree_map \<Rightarrow> u64 \<Rightarrow> job_outcome \<Rightarrow> closure \<times> job_ledger \<Rightarrow> closure \<times> job_ledger" where
  "close_one sha env claimed fences lease out cl =
     (case cl of (c, l) \<Rightarrow>
        let job = jo_job out;
            fence = (case bt_get fences job of None \<Rightarrow> 0 | Some f \<Rightarrow> f);
            w = ge_write env
        in case jo_output out of
             Some model \<Rightarrow>
               let l1 = snd (job_heartbeat w job fence lease l);
                   l2 = snd (record_receipt w job fence (''executed on '' @ model) l1);
                   l3 = snd (job_complete w job fence l2);
                   mine = List.find (\<lambda>cw. rt_id (cw_task cw) = job) claimed;
                   branch = (case mine of None \<Rightarrow> job | Some cw \<Rightarrow> cw_worker cw);
                   task = (case mine of Some cw \<Rightarrow> cw_task cw
                           | None \<Rightarrow> \<lparr>rt_id = job, rt_class = ''general'', rt_accept = [], rt_title = []\<rparr>)
               in (case integrate_job sha env job branch task l3 of
                     ((o', qs), l4) \<Rightarrow> (c\<lparr>cl_gated := cl_gated c @ [(job, o')], cl_effects := cl_effects c @ qs\<rparr>, l4))
           | None \<Rightarrow>
               (c\<lparr>cl_failed := cl_failed c @ [job]\<rparr>,
                snd (job_fail w job fence (case jo_stop out of None \<Rightarrow> ''no output'' | Some s \<Rightarrow> s) l)))"

text \<open>Each outcome meets the environment of its own moment.\<close>

definition verified_closure ::
  "(string \<Rightarrow> string) \<Rightarrow> (gate_env \<times> job_outcome) list \<Rightarrow> claimed_work list \<Rightarrow> (string, u64) btree_map \<Rightarrow> u64 \<Rightarrow> job_ledger \<Rightarrow> closure \<times> job_ledger" where
  "verified_closure sha outs claimed fences lease l =
     fold (\<lambda>(env, out). close_one sha env claimed fences lease out) outs (\<lparr>cl_gated = [], cl_failed = [], cl_effects = []\<rparr>, l)"

section \<open>Union merges\<close>

fun keep_first :: "'a list \<Rightarrow> 'a list \<Rightarrow> 'a list" where
  "keep_first seen [] = []"
| "keep_first seen (x # xs) = (if x \<in> set seen then keep_first seen xs else x # keep_first (x # seen) xs)"

definition union_merge_lines :: "string \<Rightarrow> string \<Rightarrow> string \<Rightarrow> string" where
  "union_merge_lines base ours theirs =
     (let out = keep_first [] (filter (\<lambda>line. trim line \<noteq> []) (concat (map str_lines [base, ours, theirs])));
          s = join [newline_char] out
      in if s = [] then [] else s @ [newline_char])"

definition item_key :: "(json \<Rightarrow> string) \<Rightarrow> json \<Rightarrow> string" where
  "item_key to_string item = (case str_field item ''id'' of Some i \<Rightarrow> i | None \<Rightarrow> to_string item)"

fun as_array :: "json \<Rightarrow> json list" where
  "as_array (JArray xs) = xs"
| "as_array _ = []"

fun keep_first_key :: "(json \<Rightarrow> string) \<Rightarrow> string list \<Rightarrow> json list \<Rightarrow> json list" where
  "keep_first_key key seen [] = []"
| "keep_first_key key seen (x # xs) =
     (if key x \<in> set seen then keep_first_key key seen xs else x # keep_first_key key (key x # seen) xs)"

definition union_merge_json_array :: "(json \<Rightarrow> string) \<Rightarrow> json \<Rightarrow> json \<Rightarrow> json \<Rightarrow> json" where
  "union_merge_json_array to_string base ours theirs =
     JArray (keep_first_key (item_key to_string) [] (concat (map as_array [base, ours, theirs])))"

end
