(* ===== verification/Writer_Isolation.thy ===== *)
theory Writer_Isolation
  imports Ordered_Map Susi_Strings
begin

text \<open>
  \<open>crates/susi-gawd-swarm/src/writer_isolation.rs\<close>: workers of a mission write into private copies of the workspace, which are
  folded back one after the other. A directory tree maps the path of an entry (its names from the root) to a file or a directory.
  Manifests are keyed by the text of a path, as in the code. The argument \<open>bad\<close> says which disk operations fail, \<open>sha\<close> is
  SHA-256; symbolic links count as what they point to. The scope directories are kept beside the workspace, of which the walk
  leaves them out.
\<close>

section \<open>Trees\<close>

datatype fs_node = NFile string | NDir

type_synonym tree = "(string list, fs_node) btree_map"

datatype disk_op =
    DList "string list" | DRead "string list" | DMkdir "string list" | DCopy "string list" | DRemove "string list"
  | SList "string list" | SRead "string list" | SMkdir "string list" | SCopy "string list" | SReset | SRename string

datatype isolation_error = WStale | WMissing | WIo

definition EXCLUDED :: "string list" where "EXCLUDED = [''.git'', ''target'', ''node_modules'']"
definition EXCLUDED_SUSI :: "string list" where "EXCLUDED_SUSI = [''dag-scopes'', ''missions'']"

type_synonym sig = "u64 \<times> string"

definition content_sig :: "(string \<Rightarrow> string) \<Rightarrow> string \<Rightarrow> sig" where
  "content_sig sha bytes = (of_nat (length bytes), sha bytes)"

definition file_sig_of :: "(string \<Rightarrow> string) \<Rightarrow> (string list \<Rightarrow> bool) \<Rightarrow> tree \<Rightarrow> string list \<Rightarrow> isolation_error + sig" where
  "file_sig_of sha unread t p =
     (if unread p then Inl WIo
      else (case bt_get t p of Some (NFile c) \<Rightarrow> Inr (content_sig sha c) | _ \<Rightarrow> Inl WIo))"

definition wi_excluded :: "string list \<Rightarrow> bool \<Rightarrow> bool" where
  "wi_excluded rel skip_all_susi =
     (case rel of
        [] \<Rightarrow> False
      | first # rest \<Rightarrow>
          if first \<in> set EXCLUDED then True
          else if first = ''.susi'' then
            (if skip_all_susi then True
             else (case rest of [] \<Rightarrow> False | second # _ \<Rightarrow> second \<in> set EXCLUDED_SUSI))
          else False)"

text \<open>The recursion enters a directory unless it is excluded, so it reaches an entry when no entry on the way to it is.\<close>

definition visited :: "bool \<Rightarrow> string list \<Rightarrow> bool" where
  "visited skip_all_susi p = list_all (\<lambda>k. \<not> wi_excluded (take k p) skip_all_susi) [1..<Suc (length p)]"

definition walk :: "(string list \<Rightarrow> bool) \<Rightarrow> tree \<Rightarrow> bool \<Rightarrow> isolation_error + string list list" where
  "walk unlisted t skip_all_susi =
     (if unlisted [] \<or> list_ex (\<lambda>(p, n). n = NDir \<and> visited skip_all_susi p \<and> unlisted p) t then Inl WIo
      else Inr (map fst (filter (\<lambda>(p, n). n \<noteq> NDir \<and> visited skip_all_susi p) t)))"

definition rel_key :: "string list \<Rightarrow> string" where
  "rel_key rel = replace_char (CHR 0x5C) (CHR ''/'') (join ''/'' rel)"

definition key_path :: "string \<Rightarrow> string list" where
  "key_path key = filter (\<lambda>c. c \<noteq> [] \<and> c \<noteq> ''.'') (split_on CHR ''/'' key)"

fun sign_files ::
  "(string \<Rightarrow> string) \<Rightarrow> (string list \<Rightarrow> bool) \<Rightarrow> tree \<Rightarrow> string list list \<Rightarrow> (string, sig) btree_map \<Rightarrow> isolation_error + (string, sig) btree_map" where
  "sign_files sha unread t [] m = Inr m"
| "sign_files sha unread t (rel # rels) m =
     (case file_sig_of sha unread t rel of
        Inl e \<Rightarrow> Inl e
      | Inr g \<Rightarrow> sign_files sha unread t rels (bt_insert (rel_key rel) g m))"

definition manifest_of ::
  "(string \<Rightarrow> string) \<Rightarrow> (string list \<Rightarrow> bool) \<Rightarrow> (string list \<Rightarrow> bool) \<Rightarrow> tree \<Rightarrow> isolation_error + (string, sig) btree_map" where
  "manifest_of sha unlisted unread t =
     (case walk unlisted t False of Inl e \<Rightarrow> Inl e | Inr files \<Rightarrow> sign_files sha unread t files [])"

section \<open>Revisions\<close>

definition le_bytes :: "u64 \<Rightarrow> string" where
  "le_bytes n = map (\<lambda>i. char_of (unat n div 256 ^ i mod 256)) [0..<8]"

fun revision_text ::
  "(string \<Rightarrow> string) \<Rightarrow> (string list \<Rightarrow> bool) \<Rightarrow> tree \<Rightarrow> string list list \<Rightarrow> isolation_error + string" where
  "revision_text sha unread t [] = Inr []"
| "revision_text sha unread t (rel # rels) =
     (case file_sig_of sha unread t rel of
        Inl e \<Rightarrow> Inl e
      | Inr (len, h) \<Rightarrow>
          (case revision_text sha unread t rels of
             Inl e \<Rightarrow> Inl e
           | Inr rest \<Rightarrow> Inr (rel_key rel @ [char_of (0::nat)] @ le_bytes len @ h @ rest)))"

definition revision_input ::
  "(string \<Rightarrow> string) \<Rightarrow> (string list \<Rightarrow> bool) \<Rightarrow> (string list \<Rightarrow> bool) \<Rightarrow> tree \<Rightarrow> isolation_error + string" where
  "revision_input sha unlisted unread t =
     (case walk unlisted t True of Inl e \<Rightarrow> Inl e | Inr files \<Rightarrow> revision_text sha unread t (sort files))"

definition revision ::
  "(string \<Rightarrow> string) \<Rightarrow> (string list \<Rightarrow> bool) \<Rightarrow> (string list \<Rightarrow> bool) \<Rightarrow> tree \<Rightarrow> isolation_error + string" where
  "revision sha unlisted unread t = map_sum id (\<lambda>s. hex_encode (sha s)) (revision_input sha unlisted unread t)"

section \<open>Disk operations\<close>

definition create_dir_all :: "(string list \<Rightarrow> bool) \<Rightarrow> string list \<Rightarrow> tree \<Rightarrow> isolation_error + tree" where
  "create_dir_all fails p t =
     (let dirs = map (\<lambda>k. take k p) [1..<Suc (length p)]
      in if fails p \<or> list_ex (\<lambda>d. bt_get t d \<notin> {None, Some NDir}) dirs then Inl WIo
         else Inr (fold (\<lambda>d. bt_insert d NDir) dirs t))"

definition copy_file :: "(string list \<Rightarrow> bool) \<Rightarrow> tree \<Rightarrow> string list \<Rightarrow> tree \<Rightarrow> isolation_error + tree" where
  "copy_file fails src p dst =
     (case bt_get src p of
        Some (NFile c) \<Rightarrow> if fails p \<or> bt_get dst p = Some NDir then Inl WIo else Inr (bt_insert p (NFile c) dst)
      | _ \<Rightarrow> Inl WIo)"

text \<open>Copying the listed files from one tree into another, parents first; the copies made before a failure stay.\<close>

fun copy_files ::
  "(string list \<Rightarrow> bool) \<Rightarrow> (string list \<Rightarrow> bool) \<Rightarrow> tree \<Rightarrow> string list \<Rightarrow> tree \<Rightarrow> isolation_error option \<times> tree" where
  "copy_files no_dir no_copy src [] dst = (None, dst)"
| "copy_files no_dir no_copy src (key # keys) dst =
     (case create_dir_all no_dir (butlast (key_path key)) dst of
        Inl e \<Rightarrow> (Some e, dst)
      | Inr dst1 \<Rightarrow>
          (case copy_file no_copy src (key_path key) dst1 of
             Inl e \<Rightarrow> (Some e, dst1)
           | Inr dst2 \<Rightarrow> copy_files no_dir no_copy src keys dst2))"

fun remove_files :: "(string list \<Rightarrow> bool) \<Rightarrow> string list \<Rightarrow> tree \<Rightarrow> isolation_error option \<times> tree" where
  "remove_files fails [] t = (None, t)"
| "remove_files fails (key # keys) t =
     (case bt_get t (key_path key) of
        None \<Rightarrow> remove_files fails keys t
      | Some NDir \<Rightarrow> (Some WIo, t)
      | Some (NFile _) \<Rightarrow>
          if fails (key_path key) then (Some WIo, t) else remove_files fails keys (bt_remove (key_path key) t))"

section \<open>Scopes\<close>

record isolation =
  wi_base :: tree
  wi_scopes :: "(string, tree) btree_map"

record worker_scope =
  ws_owner :: string
  ws_dir :: string
  ws_manifest :: "(string, sig) btree_map"

datatype fold_outcome = Clean "string list" "string list" | Conflict "string list"

definition stale_name :: "string \<Rightarrow> string \<Rightarrow> string" where
  "stale_name generation name = ''stale-'' @ generation @ ''-'' @ name"

text \<open>A rename replaces a directory only if it is empty.\<close>

fun retire_names ::
  "(disk_op \<Rightarrow> bool) \<Rightarrow> string \<Rightarrow> string list \<Rightarrow> string list \<Rightarrow> isolation \<Rightarrow> (isolation_error + string list) \<times> isolation" where
  "retire_names bad generation [] retired st = (Inr retired, st)"
| "retire_names bad generation (name # names) retired st =
     (if prefix ''stale-'' name then retire_names bad generation names retired st
      else case bt_get (wi_scopes st) name of
             None \<Rightarrow> retire_names bad generation names retired st
           | Some t \<Rightarrow>
               let target = stale_name generation name
               in if bad (SRename name) \<or> bt_get (wi_scopes st) target \<notin> {None, Some []} then (Inl WIo, st)
                  else retire_names bad generation names (retired @ [target])
                         (st\<lparr>wi_scopes := bt_insert target t (bt_remove name (wi_scopes st))\<rparr>))"

definition retire_stale_scopes :: "(disk_op \<Rightarrow> bool) \<Rightarrow> string \<Rightarrow> isolation \<Rightarrow> (isolation_error + string list) \<times> isolation" where
  "retire_stale_scopes bad generation st = retire_names bad generation (map fst (wi_scopes st)) [] st"

definition make_scope ::
  "(string \<Rightarrow> string) \<Rightarrow> (disk_op \<Rightarrow> bool) \<Rightarrow> string \<Rightarrow> isolation \<Rightarrow> (isolation_error + worker_scope) \<times> isolation" where
  "make_scope sha bad owner st =
     (if bad SReset \<or> bad (SMkdir []) then (Inl WIo, st)
      else
        let st1 = st\<lparr>wi_scopes := bt_insert owner [] (wi_scopes st)\<rparr>
        in case manifest_of sha (\<lambda>p. bad (DList p)) (\<lambda>p. bad (DRead p)) (wi_base st) of
             Inl e \<Rightarrow> (Inl e, st1)
           | Inr m \<Rightarrow>
               (case copy_files (\<lambda>p. bad (SMkdir p)) (\<lambda>p. bad (SCopy p)) (wi_base st) (map fst m) [] of
                  (r, t) \<Rightarrow>
                    let st2 = st1\<lparr>wi_scopes := bt_insert owner t (wi_scopes st1)\<rparr>
                    in case r of
                         Some e \<Rightarrow> (Inl e, st2)
                       | None \<Rightarrow> (Inr \<lparr>ws_owner = owner, ws_dir = owner, ws_manifest = m\<rparr>, st2)))"

section \<open>Folding a scope back\<close>

datatype merge_choice = MApply | MSkip | MClash

definition judge_write :: "sig option \<Rightarrow> sig option \<Rightarrow> sig \<Rightarrow> merge_choice" where
  "judge_write old base_sig new_sig =
     (case (old, base_sig) of
        (None, None) \<Rightarrow> MApply
      | (None, Some b) \<Rightarrow> if b = new_sig then MSkip else MClash
      | (Some o', Some b) \<Rightarrow> if b = o' then MApply else if b = new_sig then MSkip else MClash
      | (Some _, None) \<Rightarrow> MClash)"

definition judge_delete :: "sig option \<Rightarrow> sig option \<Rightarrow> merge_choice" where
  "judge_delete old base_sig =
     (case (old, base_sig) of
        (Some o', Some b) \<Rightarrow> if b = o' then MApply else MClash
      | _ \<Rightarrow> MSkip)"

definition base_sig_of :: "(string \<Rightarrow> string) \<Rightarrow> (string list \<Rightarrow> bool) \<Rightarrow> tree \<Rightarrow> string \<Rightarrow> isolation_error + sig option" where
  "base_sig_of sha unread base key =
     (if bt_get base (key_path key) = None then Inr None else map_sum id Some (file_sig_of sha unread base (key_path key)))"

text \<open>One loop of the first pass: the keys to apply and the keys in conflict.\<close>

fun classify_keys ::
  "(string \<Rightarrow> isolation_error + sig option) \<Rightarrow> (string \<Rightarrow> sig option \<Rightarrow> merge_choice) \<Rightarrow> string list \<Rightarrow> isolation_error + string list \<times> string list" where
  "classify_keys base_sig judge [] = Inr ([], [])"
| "classify_keys base_sig judge (key # keys) =
     (case base_sig key of
        Inl e \<Rightarrow> Inl e
      | Inr b \<Rightarrow>
          (case classify_keys base_sig judge keys of
             Inl e \<Rightarrow> Inl e
           | Inr (apply_keys, conflicts) \<Rightarrow>
               Inr (case judge key b of
                      MApply \<Rightarrow> (key # apply_keys, conflicts)
                    | MSkip \<Rightarrow> (apply_keys, conflicts)
                    | MClash \<Rightarrow> (apply_keys, key # conflicts))))"

definition changed_keys :: "(string, sig) btree_map \<Rightarrow> (string, sig) btree_map \<Rightarrow> string list" where
  "changed_keys old now = map fst (filter (\<lambda>(key, g). bt_get old key \<noteq> Some g) now)"

definition deleted_keys :: "(string, sig) btree_map \<Rightarrow> (string, sig) btree_map \<Rightarrow> string list" where
  "deleted_keys old now = filter (\<lambda>key. bt_get now key = None) (map fst old)"

definition is_retired :: "string \<Rightarrow> isolation \<Rightarrow> bool" where
  "is_retired owner st = list_ex (\<lambda>name. suffix (''-'' @ owner) name \<and> prefix ''stale-'' name) (map fst (wi_scopes st))"

definition apply_changes ::
  "(disk_op \<Rightarrow> bool) \<Rightarrow> tree \<Rightarrow> string list \<Rightarrow> string list \<Rightarrow> tree \<Rightarrow> isolation_error option \<times> tree" where
  "apply_changes bad work writes deletes base =
     (case copy_files (\<lambda>p. bad (DMkdir p)) (\<lambda>p. bad (DCopy p)) work writes base of
        (Some e, base1) \<Rightarrow> (Some e, base1)
      | (None, base1) \<Rightarrow> remove_files (\<lambda>p. bad (DRemove p)) deletes base1)"

definition fold_scope ::
  "(string \<Rightarrow> string) \<Rightarrow> (disk_op \<Rightarrow> bool) \<Rightarrow> worker_scope \<Rightarrow> isolation \<Rightarrow> (isolation_error + fold_outcome) \<times> isolation" where
  "fold_scope sha bad ws st =
     (if prefix ''stale-'' (ws_dir ws) then (Inl WStale, st)
      else case bt_get (wi_scopes st) (ws_dir ws) of
        None \<Rightarrow> (Inl (if is_retired (ws_dir ws) st then WStale else WMissing), st)
      | Some work \<Rightarrow>
          (case manifest_of sha (\<lambda>p. bad (SList p)) (\<lambda>p. bad (SRead p)) work of
             Inl e \<Rightarrow> (Inl e, st)
           | Inr now \<Rightarrow>
               let old = ws_manifest ws;
                   base_sig = base_sig_of sha (\<lambda>p. bad (DRead p)) (wi_base st)
               in (case classify_keys base_sig (\<lambda>key b. judge_write (bt_get old key) b (the (bt_get now key))) (changed_keys old now) of
                     Inl e \<Rightarrow> (Inl e, st)
                   | Inr (writes, clashes) \<Rightarrow>
                       (case classify_keys base_sig (\<lambda>key b. judge_delete (bt_get old key) b) (deleted_keys old now) of
                          Inl e \<Rightarrow> (Inl e, st)
                        | Inr (deletes, clashes') \<Rightarrow>
                            (case apply_changes bad work writes deletes (wi_base st) of
                               (r, base') \<Rightarrow>
                                 ((case r of
                                     Some e \<Rightarrow> Inl e
                                   | None \<Rightarrow> Inr (if clashes @ clashes' = [] then Clean writes deletes
                                                  else Conflict (sort (remdups (clashes @ clashes'))))),
                                  st\<lparr>wi_base := base'\<rparr>)))))) "

definition cleanup_scope :: "(disk_op \<Rightarrow> bool) \<Rightarrow> worker_scope \<Rightarrow> isolation \<Rightarrow> isolation" where
  "cleanup_scope bad ws st = (if bad SReset then st else st\<lparr>wi_scopes := bt_remove (ws_dir ws) (wi_scopes st)\<rparr>)"

section \<open>The folds of a batch\<close>

text \<open>
  The loop of \<open>dag.rs\<close> over the finished runs of a batch. \<open>nr_stale\<close> is its test of the lease: the run lost its fence, or the
  lease table no longer accepts it. The result lists the conflicts by node, and the stale nodes.
\<close>

record node_run =
  nr_idx :: nat
  nr_scope :: worker_scope
  nr_cancelled :: bool
  nr_stale :: bool

definition abandon_batch :: "(disk_op \<Rightarrow> bool) \<Rightarrow> nat list \<Rightarrow> node_run list \<Rightarrow> isolation \<Rightarrow> isolation" where
  "abandon_batch bad stale runs st =
     fold (\<lambda>r. cleanup_scope bad (nr_scope r)) (filter (\<lambda>r. \<not> nr_cancelled r \<and> nr_idx r \<notin> set stale) runs) st"

fun fold_runs ::
  "(string \<Rightarrow> string) \<Rightarrow> (nat \<Rightarrow> disk_op \<Rightarrow> bool) \<Rightarrow> node_run list \<Rightarrow> node_run list \<Rightarrow> (nat \<times> string list) list \<Rightarrow> nat list \<Rightarrow> isolation
    \<Rightarrow> (isolation_error + (nat \<times> string list) list \<times> nat list) \<times> isolation" where
  "fold_runs sha bad batch [] conflicts stale st = (Inr (conflicts, stale), st)"
| "fold_runs sha bad batch (r # rs) conflicts stale st =
     (if nr_cancelled r then fold_runs sha bad batch rs conflicts stale (cleanup_scope (bad (nr_idx r)) (nr_scope r) st)
      else if nr_stale r
      then fold_runs sha bad batch rs conflicts (stale @ [nr_idx r]) (cleanup_scope (bad (nr_idx r)) (nr_scope r) st)
      else (case fold_scope sha (bad (nr_idx r)) (nr_scope r) st of
              (Inl e, st1) \<Rightarrow> (Inl e, abandon_batch (bad (nr_idx r)) stale batch st1)
            | (Inr (Clean _ _), st1) \<Rightarrow> fold_runs sha bad batch rs conflicts stale st1
            | (Inr (Conflict keys), st1) \<Rightarrow> fold_runs sha bad batch rs (conflicts @ [(nr_idx r, keys)]) stale st1))"

definition fold_batch ::
  "(string \<Rightarrow> string) \<Rightarrow> (nat \<Rightarrow> disk_op \<Rightarrow> bool) \<Rightarrow> node_run list \<Rightarrow> isolation
    \<Rightarrow> (isolation_error + (nat \<times> string list) list \<times> nat list) \<times> isolation" where
  "fold_batch sha bad runs st = fold_runs sha bad runs runs [] [] st"

end
