(* ===== verification/Writer_Isolation_Run.thy ===== *)
theory Writer_Isolation_Run
  imports Writer_Isolation
begin

text \<open>
  Folding a scope is a three-way merge of the snapshot, the workspace and the private copy, path by path, and a batch of folds
  loses no write: what a worker changed is in the workspace or reported.
\<close>

section \<open>Paths and manifests\<close>

definition plain_path :: "string list \<Rightarrow> bool" where
  "plain_path p \<longleftrightarrow> p \<noteq> [] \<and> (\<forall>c \<in> set p. c \<noteq> [] \<and> c \<noteq> ''.'' \<and> CHR ''/'' \<notin> set c \<and> CHR 0x5C \<notin> set c)"

definition plain_tree :: "tree \<Rightarrow> bool" where
  "plain_tree t \<longleftrightarrow> bt_inv t \<and> (\<forall>p \<in> fst ` set t. plain_path p)"

definition files :: "tree \<Rightarrow> string list \<Rightarrow> string option" where
  "files t p = (case bt_get t p of Some (NFile c) \<Rightarrow> Some c | _ \<Rightarrow> None)"

definition payload :: "bool \<Rightarrow> tree \<Rightarrow> string list \<Rightarrow> string option" where
  "payload skip_susi t p = (if wi_excluded p skip_susi then None else files t p)"

lemma wi_excluded_take: "wi_excluded (take k p) b \<Longrightarrow> wi_excluded p b"
  by (cases p; cases k; cases "tl p"; cases "k - 1") (auto simp: wi_excluded_def split: if_splits list.splits)

lemma visited_iff: "p \<noteq> [] \<Longrightarrow> visited b p \<longleftrightarrow> \<not> wi_excluded p b"
proof
  assume p: "p \<noteq> []" and v: "visited b p"
  have "length p \<in> set [1..<Suc (length p)]" using p by (cases p) auto
  with v show "\<not> wi_excluded p b" unfolding visited_def list_all_iff by (metis order_refl take_all)
next
  assume "\<not> wi_excluded p b"
  then show "visited b p" unfolding visited_def list_all_iff using wi_excluded_take by blast
qed

lemma replace_char_plain: "a \<notin> set s \<Longrightarrow> replace_char a b s = s"
  by (auto simp: replace_char_def intro!: map_idI)

lemma join_set: "x \<in> set (join sep ps) \<Longrightarrow> x \<in> set sep \<or> (\<exists>p \<in> set ps. x \<in> set p)"
  by (induction sep ps rule: join.induct) auto

lemma rel_key_plain: "plain_path p \<Longrightarrow> rel_key p = join ''/'' p"
  unfolding rel_key_def by (rule replace_char_plain) (auto simp: plain_path_def dest: join_set)

lemma key_path_rel: "plain_path p \<Longrightarrow> key_path (rel_key p) = p"
  unfolding key_path_def rel_key_plain by (subst split_on_join) (auto simp: plain_path_def filter_id_conv)

lemma rel_key_inj: "plain_path p \<Longrightarrow> plain_path q \<Longrightarrow> rel_key p = rel_key q \<longleftrightarrow> p = q"
  by (metis key_path_rel)

lemma files_insert: "files (bt_insert q n t) p = (if p = q then (case n of NFile c \<Rightarrow> Some c | NDir \<Rightarrow> None) else files t p)"
  by (simp add: files_def btree split: fs_node.split)

lemma files_remove: "files (bt_remove q t) p = (if p = q then None else files t p)"
  by (simp add: files_def btree)

lemma plain_tree_insert: "plain_tree t \<Longrightarrow> plain_path p \<Longrightarrow> plain_tree (bt_insert p n t)"
  by (simp add: plain_tree_def set_bt_insert btree)

lemma plain_tree_remove: "plain_tree t \<Longrightarrow> plain_tree (bt_remove p t)"
  unfolding plain_tree_def using bt_inv_remove [of t p] by (auto simp: bt_remove_def)

lemma files_plain: "plain_tree t \<Longrightarrow> files t p \<noteq> None \<Longrightarrow> plain_path p"
  by (force simp: files_def plain_tree_def bt_get_mem split: option.splits fs_node.splits)

lemma file_sig_of_Inr: "file_sig_of sha u t p = Inr g \<longleftrightarrow> \<not> u p \<and> (\<exists>c. files t p = Some c \<and> g = content_sig sha c)"
  by (auto simp: file_sig_of_def files_def split: option.splits fs_node.splits)

lemma sign_files_Cons:
  assumes "sign_files sha u t (rel # rels) m0 = Inr m"
  shows "\<exists>c. files t rel = Some c \<and> sign_files sha u t rels (bt_insert (rel_key rel) (content_sig sha c) m0) = Inr m"
proof (cases "file_sig_of sha u t rel")
  case (Inr g)
  with assms have "sign_files sha u t rels (bt_insert (rel_key rel) g m0) = Inr m" by simp
  with Inr show ?thesis using file_sig_of_Inr by metis
qed (use assms in simp)

lemma sign_files_get:
  assumes "sign_files sha u t rels m0 = Inr m" "\<forall>r \<in> set rels. plain_path r" "plain_path p"
  shows "bt_get m (rel_key p) = (if p \<in> set rels then map_option (content_sig sha) (files t p) else bt_get m0 (rel_key p))"
  using assms
proof (induction rels arbitrary: m0)
  case (Cons r rels)
  then obtain c where c: "files t r = Some c" "sign_files sha u t rels (bt_insert (rel_key r) (content_sig sha c) m0) = Inr m"
    using sign_files_Cons by blast
  then show ?case using Cons.IH [OF c(2)] Cons.prems(2,3) by (simp add: btree rel_key_inj)
qed simp

lemma sign_files_keys:
  "sign_files sha u t rels m0 = Inr m \<Longrightarrow> bt_get m k \<noteq> None \<Longrightarrow> bt_get m0 k \<noteq> None \<or> k \<in> rel_key ` set rels"
proof (induction rels arbitrary: m0)
  case (Cons r rels)
  obtain c where "sign_files sha u t rels (bt_insert (rel_key r) (content_sig sha c) m0) = Inr m"
    using sign_files_Cons [OF Cons.prems(1)] by blast
  from Cons.IH [OF this Cons.prems(2)] show ?case by (simp add: btree split: if_splits)
qed simp

lemma sign_files_inv: "sign_files sha u t rels m0 = Inr m \<Longrightarrow> bt_inv m0 \<Longrightarrow> bt_inv m"
proof (induction rels arbitrary: m0)
  case (Cons r rels)
  obtain c where c: "sign_files sha u t rels (bt_insert (rel_key r) (content_sig sha c) m0) = Inr m"
    using sign_files_Cons [OF Cons.prems(1)] by blast
  show ?case by (rule Cons.IH [OF c bt_inv_insert [OF Cons.prems(2)]])
qed simp

lemma if_Inl_eq: "(if c then Inl e else Inr x) = Inr y \<longleftrightarrow> \<not> c \<and> y = x"
  by auto

lemma walk_files:
  assumes "plain_tree t" "walk u t b = Inr fs"
  shows "p \<in> set fs \<longleftrightarrow> payload b t p \<noteq> None" and "\<forall>r \<in> set fs. plain_path r"
proof -
  have mem: "p \<in> set fs \<longleftrightarrow> (\<exists>n. bt_get t p = Some n \<and> n \<noteq> NDir \<and> visited b p)" for p
  proof -
    have "fs = map fst (filter (\<lambda>(p, n). n \<noteq> NDir \<and> visited b p) t)" using assms(2) unfolding walk_def if_Inl_eq by (rule conjunct2)
    then have "p \<in> set fs \<longleftrightarrow> (\<exists>n. (p, n) \<in> set t \<and> n \<noteq> NDir \<and> visited b p)" by force
    then show ?thesis using assms(1) by (simp add: plain_tree_def bt_get_mem)
  qed
  have plain: "plain_path p" if "bt_get t p = Some n" for p n
    using assms(1) that by (force simp: plain_tree_def bt_get_mem)
  then have vis: "visited b p \<longleftrightarrow> \<not> wi_excluded p b" if "bt_get t p = Some n" for p n
    using that by (metis plain_path_def visited_iff)
  show "p \<in> set fs \<longleftrightarrow> payload b t p \<noteq> None"
    unfolding mem payload_def files_def using vis by (cases "bt_get t p") (auto split: fs_node.splits)
  show "\<forall>r \<in> set fs. plain_path r" using mem plain by blast
qed

text \<open>A manifest records the signatures of the files of a tree that are not excluded.\<close>

definition signs :: "(string \<Rightarrow> string) \<Rightarrow> (string, sig) btree_map \<Rightarrow> (string list \<Rightarrow> string option) \<Rightarrow> bool" where
  "signs sha m f \<longleftrightarrow> bt_inv m \<and> (\<forall>p. plain_path p \<longrightarrow> bt_get m (rel_key p) = map_option (content_sig sha) (f p))
     \<and> (\<forall>k. bt_get m k \<noteq> None \<longrightarrow> k \<in> rel_key ` {p. plain_path p})"

lemma manifest_signs:
  assumes "plain_tree t" "manifest_of sha ul ur t = Inr m"
  shows "signs sha m (payload False t)"
proof -
  obtain fs where fs: "walk ul t False = Inr fs" "sign_files sha ur t fs [] = Inr m"
    using assms(2) by (auto simp: manifest_of_def split: sum.splits)
  note w = walk_files [OF assms(1) fs(1)]
  have "bt_get m (rel_key p) = map_option (content_sig sha) (payload False t p)" if "plain_path p" for p
    using sign_files_get [OF fs(2) w(2) that] w(1) [of p] by (auto simp: btree payload_def split: if_splits)
  moreover have "bt_inv m" using sign_files_inv [OF fs(2)] by (simp add: btree)
  moreover have "k \<in> rel_key ` {p. plain_path p}" if "bt_get m k \<noteq> None" for k
    using sign_files_keys [OF fs(2) that] w(2) by (auto simp: btree)
  ultimately show ?thesis by (simp add: signs_def)
qed

section \<open>The passes of a fold\<close>

lemma classify_keys_sets:
  assumes "classify_keys base_sig judge keys = Inr (ok, clash)"
  shows "set ok = {k \<in> set keys. \<exists>b. base_sig k = Inr b \<and> judge k b = MApply}"
    and "set clash = {k \<in> set keys. \<exists>b. base_sig k = Inr b \<and> judge k b = MClash}"
    and "\<forall>k \<in> set keys. \<exists>b. base_sig k = Inr b"
  using assms
proof (induction keys arbitrary: ok clash)
  case (Cons k keys)
  {
    case 1
    then show ?case using Cons.IH(1) by (auto split: sum.splits merge_choice.splits)
  next
    case 2
    then show ?case using Cons.IH(2) by (auto split: sum.splits merge_choice.splits)
  next
    case 3
    then show ?case using Cons.IH(3) by (auto split: sum.splits)
  }
qed simp_all

lemma classify_keys_at:
  assumes "classify_keys base_sig judge keys = Inr (ok, clash)" "\<And>b. base_sig k = Inr b \<Longrightarrow> b = v"
  shows "k \<in> set ok \<longleftrightarrow> k \<in> set keys \<and> judge k v = MApply" and "k \<in> set clash \<longleftrightarrow> k \<in> set keys \<and> judge k v = MClash"
  using classify_keys_sets [OF assms(1)] assms(2) by blast+

lemma create_dirs:
  assumes "create_dir_all fails p t = Inr t'"
  shows "files t' = files t" and "plain_tree t \<Longrightarrow> (\<forall>k \<in> {1..length p}. plain_path (take k p)) \<Longrightarrow> plain_tree t'"
proof -
  have t': "t' = fold (\<lambda>d. bt_insert d NDir) (map (\<lambda>k. take k p) [1..<Suc (length p)]) t"
    and free: "\<forall>d \<in> set (map (\<lambda>k. take k p) [1..<Suc (length p)]). files t d = None"
    using assms unfolding create_dir_all_def Let_def if_Inl_eq list_ex_iff files_def by (auto split: option.split)
  have "files (fold (\<lambda>d. bt_insert d NDir) ds t) = files t" if "\<forall>d \<in> set ds. files t d = None" for ds
    using that
  proof (induction ds arbitrary: t)
    case (Cons d ds)
    have "files (bt_insert d NDir t) = files t" using Cons.prems by (auto simp: files_insert)
    with Cons show ?case by simp
  qed simp
  with free t' show "files t' = files t" by blast
  have fold_plain: "plain_tree (fold (\<lambda>d. bt_insert d NDir) ds t)" if "plain_tree t" "\<forall>d \<in> set ds. plain_path d" for ds
    using that by (induction ds arbitrary: t) (auto simp: plain_tree_insert)
  show "plain_tree t'" if "plain_tree t" "\<forall>k \<in> {1..length p}. plain_path (take k p)"
    unfolding t' by (rule fold_plain) (use that in auto)
qed

lemma plain_take: "plain_path p \<Longrightarrow> 0 < k \<Longrightarrow> plain_path (take k (butlast p)) \<or> butlast p = []"
  unfolding plain_path_def using set_take_subset [of k "butlast p"] in_set_butlastD [of _ p] by auto

lemma copy_files_get:
  assumes "copy_files nd nc src keys dst = (None, dst')" "\<forall>k \<in> set keys. plain_path (key_path k)" "plain_tree dst"
  shows "plain_tree dst' \<and> (\<forall>p. files dst' p = (if p \<in> key_path ` set keys then files src p else files dst p))"
  using assms
proof (induction keys arbitrary: dst)
  case (Cons k keys)
  let ?p = "key_path k"
  obtain dst1 where d1: "create_dir_all nd (butlast ?p) dst = Inr dst1"
    using Cons.prems(1) by (cases "create_dir_all nd (butlast ?p) dst") simp_all
  obtain dst2 where d2: "copy_file nc src ?p dst1 = Inr dst2" "copy_files nd nc src keys dst2 = (None, dst')"
    using Cons.prems(1) d1 by (cases "copy_file nc src ?p dst1") simp_all
  obtain c where c: "files src ?p = Some c" "dst2 = bt_insert ?p (NFile c) dst1"
    using d2(1) by (auto simp: copy_file_def files_def split: option.splits fs_node.splits if_splits)
  have "plain_path (take j (butlast ?p))" if "j \<in> {1..length (butlast ?p)}" for j
    using plain_take [of ?p j] Cons.prems(2) that by (cases "butlast ?p = []") auto
  then have "plain_tree dst1" using create_dirs(2) [OF d1 Cons.prems(3)] by blast
  then have "plain_tree dst2" using c(2) Cons.prems(2) by (simp add: plain_tree_insert)
  from Cons.IH [OF d2(2) _ this] Cons.prems(2) show ?case
    using c create_dirs(1) [OF d1] by (auto simp: files_insert)
qed simp

lemma remove_files_get:
  assumes "remove_files fails keys t = (None, t')" "plain_tree t"
  shows "plain_tree t' \<and> (\<forall>p. files t' p = (if p \<in> key_path ` set keys then None else files t p))"
  using assms
proof (induction keys arbitrary: t)
  case (Cons k keys)
  show ?case
  proof (cases "bt_get t (key_path k)")
    case None
    then have "files t (key_path k) = None" by (simp add: files_def)
    with Cons None show ?thesis by auto
  next
    case (Some n)
    then obtain c where "n = NFile c" "remove_files fails keys (bt_remove (key_path k) t) = (None, t')"
      using Cons.prems(1) by (cases n) (auto split: if_splits)
    with Cons.IH [OF this(2) plain_tree_remove [OF Cons.prems(2)]] show ?thesis by (auto simp: files_remove)
  qed
qed simp

lemma apply_changes_get:
  assumes "apply_changes bad work writes deletes base = (None, base')" "\<forall>k \<in> set writes. plain_path (key_path k)" "plain_tree base"
  shows "plain_tree base' \<and> (\<forall>p. files base' p =
    (if p \<in> key_path ` set deletes then None else if p \<in> key_path ` set writes then files work p else files base p))"
proof -
  obtain b1 where b1: "copy_files (\<lambda>p. bad (DMkdir p)) (\<lambda>p. bad (DCopy p)) work writes base = (None, b1)"
      "remove_files (\<lambda>p. bad (DRemove p)) deletes b1 = (None, base')"
    using assms(1) by (auto simp: apply_changes_def split: prod.splits option.splits)
  from copy_files_get [OF b1(1) assms(2,3)] remove_files_get [OF b1(2)] show ?thesis by simp
qed

text \<open>A fresh scope holds exactly the files of the workspace that are not excluded, with their manifest.\<close>

lemma scope_is_snapshot:
  assumes "make_scope sha bad owner st = (Inr ws, st')" "plain_tree (wi_base st)"
  shows "\<exists>t. bt_get (wi_scopes st') (ws_dir ws) = Some t \<and> plain_tree t \<and> files t = payload False (wi_base st) \<and> wi_base st' = wi_base st
    \<and> manifest_of sha (\<lambda>p. bad (DList p)) (\<lambda>p. bad (DRead p)) (wi_base st) = Inr (ws_manifest ws)"
proof -
  obtain m t where m: "manifest_of sha (\<lambda>p. bad (DList p)) (\<lambda>p. bad (DRead p)) (wi_base st) = Inr m"
    and t: "copy_files (\<lambda>p. bad (SMkdir p)) (\<lambda>p. bad (SCopy p)) (wi_base st) (map fst m) [] = (None, t)"
    and ws: "ws = \<lparr>ws_owner = owner, ws_dir = owner, ws_manifest = m\<rparr>"
    and st': "st' = st\<lparr>wi_scopes := bt_insert owner t (bt_insert owner [] (wi_scopes st))\<rparr>"
    using assms(1) unfolding make_scope_def Let_def by (auto split: if_splits sum.splits prod.splits option.splits)
  note sg = manifest_signs [OF assms(2) m]
  have key: "k \<in> set (map fst m) \<longleftrightarrow> (\<exists>p. plain_path p \<and> k = rel_key p \<and> payload False (wi_base st) p \<noteq> None)" for k
  proof -
    have "k \<in> set (map fst m) \<longleftrightarrow> bt_get m k \<noteq> None" by (auto simp: bt_get_None)
    then show ?thesis using sg unfolding signs_def by (metis (no_types, lifting) imageE mem_Collect_eq option.map_disc_iff)
  qed
  have img: "p \<in> key_path ` set (map fst m) \<longleftrightarrow> payload False (wi_base st) p \<noteq> None" for p
  proof -
    have "payload False (wi_base st) p \<noteq> None \<Longrightarrow> plain_path p" using files_plain [OF assms(2), of p] by (metis payload_def)
    then show ?thesis using key key_path_rel by (metis (no_types, lifting) image_iff)
  qed
  have "\<forall>k \<in> set (map fst m). plain_path (key_path k)" using key key_path_rel by metis
  from copy_files_get [OF t this] have "plain_tree t" "\<And>p. files t p = (if payload False (wi_base st) p \<noteq> None then files (wi_base st) p else None)"
    unfolding img by (simp_all add: plain_tree_def btree files_def)
  moreover have "(if payload False (wi_base st) p \<noteq> None then files (wi_base st) p else None) = payload False (wi_base st) p" for p
    by (simp add: payload_def)
  ultimately show ?thesis using m by (auto simp: ws st' btree fun_eq_iff)
qed

section \<open>A fold is a three-way merge\<close>

definition merge3 :: "'a option \<Rightarrow> 'a option \<Rightarrow> 'a option \<Rightarrow> 'a option" where
  "merge3 old base new = (if base = old then new else base)"

definition clash3 :: "'a option \<Rightarrow> 'a option \<Rightarrow> 'a option \<Rightarrow> bool" where
  "clash3 old base new \<longleftrightarrow> new \<noteq> old \<and> base \<noteq> old \<and> new \<noteq> base"

definition conflict_keys :: "fold_outcome \<Rightarrow> string set" where
  "conflict_keys out = (case out of Clean _ _ \<Rightarrow> {} | Conflict ks \<Rightarrow> set ks)"

lemma judge_write_choice:
  assumes "inj_on sha C" "set_option old \<union> set_option base \<subseteq> C" "new \<in> C" "old \<noteq> Some new"
  shows "judge_write (map_option (content_sig sha) old) (map_option (content_sig sha) base) (content_sig sha new) =
    (if base = old then MApply else if base = Some new then MSkip else MClash)"
  using assms by (auto simp: judge_write_def content_sig_def inj_on_eq_iff split: option.splits)

lemma judge_delete_choice:
  assumes "inj_on sha C" "set_option old \<union> set_option base \<subseteq> C" "old \<noteq> None"
  shows "judge_delete (map_option (content_sig sha) old) (map_option (content_sig sha) base) =
    (if base = old then MApply else if base = None then MSkip else MClash)"
  using assms by (auto simp: judge_delete_def content_sig_def inj_on_eq_iff split: option.splits)

lemma sig_option_eq:
  assumes "inj_on sha C" "set_option x \<union> set_option y \<subseteq> C"
  shows "map_option (content_sig sha) x = map_option (content_sig sha) y \<longleftrightarrow> x = y"
  using assms by (cases x; cases y) (auto simp: content_sig_def inj_on_eq_iff)

lemma base_sig_files:
  "base_sig_of sha u base key = Inr b \<Longrightarrow> b = map_option (content_sig sha) (files base (key_path key))"
proof (cases "bt_get base (key_path key)")
  case (Some n)
  moreover assume "base_sig_of sha u base key = Inr b"
  ultimately obtain g where "file_sig_of sha u base (key_path key) = Inr g" "b = Some g"
    by (cases "file_sig_of sha u base (key_path key)") (simp_all add: base_sig_of_def)
  then show ?thesis using file_sig_of_Inr by fastforce
qed (simp add: base_sig_of_def files_def)

lemma changed_keys_iff:
  assumes "signs sha old snap" "signs sha now work" "plain_path p"
  shows "rel_key p \<in> set (changed_keys old now) \<longleftrightarrow> work p \<noteq> None \<and> map_option (content_sig sha) (snap p) \<noteq> map_option (content_sig sha) (work p)"
proof -
  have "rel_key p \<in> set (changed_keys old now) \<longleftrightarrow> (\<exists>g. bt_get now (rel_key p) = Some g \<and> bt_get old (rel_key p) \<noteq> Some g)"
    using assms(2) by (force simp: changed_keys_def signs_def bt_get_mem)
  moreover have "bt_get now (rel_key p) = map_option (content_sig sha) (work p)" "bt_get old (rel_key p) = map_option (content_sig sha) (snap p)"
    using assms by (simp_all add: signs_def)
  ultimately show ?thesis by (cases "work p") simp_all
qed

lemma deleted_keys_iff:
  assumes "signs sha old snap" "signs sha now work" "plain_path p"
  shows "rel_key p \<in> set (deleted_keys old now) \<longleftrightarrow> snap p \<noteq> None \<and> work p = None"
proof -
  have "rel_key p \<in> set (deleted_keys old now) \<longleftrightarrow> bt_get old (rel_key p) \<noteq> None \<and> bt_get now (rel_key p) = None"
    by (auto simp: deleted_keys_def bt_get_None)
  then show ?thesis using assms by (auto simp: signs_def)
qed

lemma signed_keys:
  assumes "signs sha old snap" "signs sha now work"
  shows "set (changed_keys old now) \<union> set (deleted_keys old now) \<subseteq> rel_key ` {p. plain_path p}"
proof -
  have "fst ` set old \<subseteq> rel_key ` {p. plain_path p}" "fst ` set now \<subseteq> rel_key ` {p. plain_path p}"
    using assms by (auto simp: signs_def bt_get_None subset_iff)
  then show ?thesis by (auto simp: changed_keys_def deleted_keys_def)
qed

lemma fold_scope_passes:
  assumes "fold_scope sha bad ws st = (Inr out, st')" "bt_get (wi_scopes st) (ws_dir ws) = Some work"
  obtains now writes clashes deletes clashes' base' where
    "manifest_of sha (\<lambda>p. bad (SList p)) (\<lambda>p. bad (SRead p)) work = Inr now"
    "classify_keys (base_sig_of sha (\<lambda>p. bad (DRead p)) (wi_base st))
       (\<lambda>key b. judge_write (bt_get (ws_manifest ws) key) b (the (bt_get now key))) (changed_keys (ws_manifest ws) now) = Inr (writes, clashes)"
    "classify_keys (base_sig_of sha (\<lambda>p. bad (DRead p)) (wi_base st))
       (\<lambda>key b. judge_delete (bt_get (ws_manifest ws) key) b) (deleted_keys (ws_manifest ws) now) = Inr (deletes, clashes')"
    "apply_changes bad work writes deletes (wi_base st) = (None, base')"
    "st' = st\<lparr>wi_base := base'\<rparr>" "conflict_keys out = set clashes \<union> set clashes'"
  using assms unfolding fold_scope_def
  by (auto simp: Let_def conflict_keys_def split: if_splits sum.splits prod.splits option.splits)

lemma fold_merges:
  assumes ok: "fold_scope sha bad ws st = (Inr out, st')" and work: "bt_get (wi_scopes st) (ws_dir ws) = Some work"
    and plain: "plain_tree work" "plain_tree (wi_base st)" and snap: "signs sha (ws_manifest ws) snap" "\<And>p. snap p \<noteq> None \<Longrightarrow> plain_path p"
    and inj: "inj_on sha C" and C: "\<And>p. set_option (snap p) \<union> set_option (files (wi_base st) p) \<union> set_option (files work p) \<subseteq> C"
  shows "wi_scopes st' = wi_scopes st" and "plain_tree (wi_base st')"
    and "files (wi_base st') p = merge3 (snap p) (files (wi_base st) p) (payload False work p)"
    and "conflict_keys out = rel_key ` {p. plain_path p \<and> clash3 (snap p) (files (wi_base st) p) (payload False work p)}"
proof -
  let ?b = "files (wi_base st)" and ?n = "payload False work" and ?old = "ws_manifest ws"
  obtain now writes clashes deletes clashes' base' where now: "manifest_of sha (\<lambda>p. bad (SList p)) (\<lambda>p. bad (SRead p)) work = Inr now"
    and cw: "classify_keys (base_sig_of sha (\<lambda>p. bad (DRead p)) (wi_base st)) (\<lambda>key b. judge_write (bt_get ?old key) b (the (bt_get now key))) (changed_keys ?old now) = Inr (writes, clashes)"
    and cd: "classify_keys (base_sig_of sha (\<lambda>p. bad (DRead p)) (wi_base st)) (\<lambda>key b. judge_delete (bt_get ?old key) b) (deleted_keys ?old now) = Inr (deletes, clashes')"
    and ap: "apply_changes bad work writes deletes (wi_base st) = (None, base')" and st': "st' = st\<lparr>wi_base := base'\<rparr>"
    and out: "conflict_keys out = set clashes \<union> set clashes'"
    by (rule fold_scope_passes [OF ok work])
  note sg = snap(1) manifest_signs [OF plain(1) now]
  have Cn: "set_option (?n p) \<subseteq> C" for p using C [of p] by (simp add: payload_def)
  have keys: "set (changed_keys ?old now) \<union> set (deleted_keys ?old now) \<subseteq> rel_key ` {p. plain_path p}" by (rule signed_keys [OF sg])
  have changed: "rel_key p \<in> set (changed_keys ?old now) \<longleftrightarrow> ?n p \<noteq> None \<and> ?n p \<noteq> snap p" if "plain_path p" for p
    using changed_keys_iff [OF sg that] sig_option_eq [OF inj, of "snap p" "?n p"] C [of p] Cn [of p] by auto
  have old: "bt_get ?old (rel_key p) = map_option (content_sig sha) (snap p)" if "plain_path p" for p using snap(1) that by (simp add: signs_def)
  have new: "bt_get now (rel_key p) = map_option (content_sig sha) (?n p)" if "plain_path p" for p using sg(2) that by (simp add: signs_def)
  have bs: "b = map_option (content_sig sha) (?b p)" if "plain_path p" "base_sig_of sha (\<lambda>p. bad (DRead p)) (wi_base st) (rel_key p) = Inr b" for p b
    using base_sig_files [OF that(2)] key_path_rel [OF that(1)] by simp
  have jw: "judge_write (bt_get ?old (rel_key p)) (map_option (content_sig sha) (?b p)) (the (bt_get now (rel_key p))) =
      (if ?b p = snap p then MApply else if ?b p = ?n p then MSkip else MClash)" if "plain_path p" "?n p \<noteq> None" "?n p \<noteq> snap p" for p
  proof -
    from that(2) obtain c where c: "?n p = Some c" by auto
    with that(3) C [of p] Cn [of p] show ?thesis
      using judge_write_choice [OF inj, of "snap p" "?b p" c] by (simp add: old [OF that(1)] new [OF that(1)])
  qed
  have jd: "judge_delete (bt_get ?old (rel_key p)) (map_option (content_sig sha) (?b p)) =
      (if ?b p = snap p then MApply else if ?b p = None then MSkip else MClash)" if "plain_path p" "snap p \<noteq> None" for p
    using judge_delete_choice [OF inj, of "snap p" "?b p"] C [of p] that(2) by (simp add: old [OF that(1)])
  have W: "rel_key p \<in> set writes \<longleftrightarrow> ?n p \<noteq> None \<and> ?n p \<noteq> snap p \<and> ?b p = snap p" if "plain_path p" for p
    using classify_keys_at(1) [OF cw bs [OF that], of "rel_key p"] changed [OF that] jw [OF that] by (auto split: if_splits)
  have X: "rel_key p \<in> set clashes \<longleftrightarrow> ?n p \<noteq> None \<and> ?n p \<noteq> snap p \<and> ?b p \<noteq> snap p \<and> ?b p \<noteq> ?n p" if "plain_path p" for p
    using classify_keys_at(2) [OF cw bs [OF that], of "rel_key p"] changed [OF that] jw [OF that] by (auto split: if_splits)
  have D: "rel_key p \<in> set deletes \<longleftrightarrow> snap p \<noteq> None \<and> ?n p = None \<and> ?b p = snap p" if "plain_path p" for p
    using classify_keys_at(1) [OF cd bs [OF that], of "rel_key p"] deleted_keys_iff [OF sg that] jd [OF that] by (auto split: if_splits)
  have Y: "rel_key p \<in> set clashes' \<longleftrightarrow> snap p \<noteq> None \<and> ?n p = None \<and> ?b p \<noteq> snap p \<and> ?b p \<noteq> None" if "plain_path p" for p
    using classify_keys_at(2) [OF cd bs [OF that], of "rel_key p"] deleted_keys_iff [OF sg that] jd [OF that] by (auto split: if_splits)
  have sub: "set writes \<subseteq> rel_key ` {p. plain_path p}" "set deletes \<subseteq> rel_key ` {p. plain_path p}"
      "set clashes \<union> set clashes' \<subseteq> rel_key ` {p. plain_path p}"
    using classify_keys_sets(1,2) [OF cw] classify_keys_sets(1,2) [OF cd] keys by auto
  have img: "p \<in> key_path ` K \<longleftrightarrow> plain_path p \<and> rel_key p \<in> K" if "K \<subseteq> rel_key ` {p. plain_path p}" for p K
    using that key_path_rel by force
  show "wi_scopes st' = wi_scopes st" by (simp add: st')
  have "\<forall>k \<in> set writes. plain_path (key_path k)" using sub(1) key_path_rel by fastforce
  note app = apply_changes_get [OF ap this plain(2)]
  then show "plain_tree (wi_base st')" by (simp add: st')
  show "files (wi_base st') p = merge3 (snap p) (?b p) (?n p)"
  proof (cases "plain_path p")
    case True
    then have nw: "?n p \<noteq> None \<Longrightarrow> files work p = ?n p" by (auto simp: payload_def)
    show ?thesis using app W [OF True] D [OF True] True nw by (auto simp: st' img [OF sub(1)] img [OF sub(2)] merge3_def)
  next
    case False
    then have "snap p = None" "?b p = None" "?n p = None" using snap(2) [of p] files_plain [OF plain(1), of p] files_plain [OF plain(2), of p]
      unfolding payload_def by (blast, blast, metis)
    then show ?thesis using app False by (auto simp: st' img [OF sub(1)] img [OF sub(2)] merge3_def)
  qed
  have cl: "rel_key p \<in> set clashes \<union> set clashes' \<longleftrightarrow> clash3 (snap p) (?b p) (?n p)" if "plain_path p" for p
    using X [OF that] Y [OF that] by (cases "?n p") (auto simp: clash3_def)
  show "conflict_keys out = rel_key ` {p. plain_path p \<and> clash3 (snap p) (?b p) (?n p)}"
  proof
    show "conflict_keys out \<subseteq> rel_key ` {p. plain_path p \<and> clash3 (snap p) (?b p) (?n p)}"
    proof
      fix k assume k: "k \<in> conflict_keys out"
      then obtain p where "plain_path p" "k = rel_key p" using sub(3) out by blast
      with k cl out show "k \<in> rel_key ` {p. plain_path p \<and> clash3 (snap p) (?b p) (?n p)}" by blast
    qed
  qed (use cl out in blast)
qed

section \<open>A batch of folds\<close>

definition live_run :: "node_run \<Rightarrow> bool" where
  "live_run r \<longleftrightarrow> \<not> nr_cancelled r \<and> \<not> nr_stale r"

definition live_runs :: "node_run list \<Rightarrow> node_run set" where
  "live_runs runs = {r \<in> set runs. live_run r}"

definition work_of :: "isolation \<Rightarrow> node_run \<Rightarrow> string list \<Rightarrow> string option" where
  "work_of st r = (case bt_get (wi_scopes st) (ws_dir (nr_scope r)) of None \<Rightarrow> (\<lambda>_. None) | Some t \<Rightarrow> payload False t)"

definition reported :: "(nat \<times> string list) list \<Rightarrow> node_run \<Rightarrow> string list \<Rightarrow> bool" where
  "reported conflicts r p \<longleftrightarrow> (\<exists>keys. (nr_idx r, keys) \<in> set conflicts \<and> rel_key p \<in> set keys)"

text \<open>Two live runs, the first of node \<open>i\<close>, changed the path of the key to different contents.\<close>

definition overlap :: "isolation \<Rightarrow> node_run list \<Rightarrow> nat \<Rightarrow> string \<Rightarrow> bool" where
  "overlap st runs i k \<longleftrightarrow> (\<exists>p. \<exists>r \<in> live_runs runs. \<exists>r' \<in> live_runs runs. nr_idx r = i \<and> k = rel_key p
     \<and> work_of st r p \<noteq> payload False (wi_base st) p \<and> work_of st r' p \<noteq> payload False (wi_base st) p \<and> work_of st r p \<noteq> work_of st r' p)"

lemma overlap_mono: "overlap st runs i k \<Longrightarrow> live_runs runs \<subseteq> live_runs runs' \<Longrightarrow> overlap st runs' i k"
  unfolding overlap_def by blast

text \<open>Where the workspace of a batch stands after the runs \<open>done\<close>, relative to the state \<open>st\<close> it started from.\<close>

definition batch_inv :: "string set \<Rightarrow> isolation \<Rightarrow> node_run list \<Rightarrow> (nat \<times> string list) list \<Rightarrow> isolation \<Rightarrow> bool" where
  "batch_inv C st runs conflicts now \<longleftrightarrow>
     (let snap = payload False (wi_base st); b = files (wi_base now); n = work_of st; rs = live_runs runs
      in (\<forall>d t. bt_get (wi_scopes now) d = Some t \<longrightarrow> bt_get (wi_scopes st) d = Some t) \<and> plain_tree (wi_base now)
       \<and> (\<forall>p. set_option (b p) \<subseteq> C)
       \<and> (\<forall>p. b p = files (wi_base st) p \<or> (\<exists>r \<in> rs. b p = n r p \<and> n r p \<noteq> snap p))
       \<and> (\<forall>r \<in> rs. \<forall>p. n r p = snap p \<or> b p = n r p \<or> reported conflicts r p)
       \<and> (\<forall>(i, keys) \<in> set conflicts. \<forall>k \<in> set keys. overlap st runs i k))"

lemma fold_scope_needs_dir: "fold_scope sha bad ws st = (Inr out, st') \<Longrightarrow> \<exists>t. bt_get (wi_scopes st) (ws_dir ws) = Some t"
  by (auto simp: fold_scope_def split: if_splits option.splits)

lemma batch_inv_cleanup: "batch_inv C st runs conflicts now \<Longrightarrow> \<not> live_run r \<Longrightarrow> batch_inv C st (runs @ [r]) conflicts (cleanup_scope bad ws now)"
proof -
  assume inv: "batch_inv C st runs conflicts now" and r: "\<not> live_run r"
  have same: "wi_base (cleanup_scope bad ws now) = wi_base now" by (simp add: cleanup_scope_def)
  have "live_runs (runs @ [r]) = live_runs runs" using r by (auto simp: live_runs_def)
  moreover from this have "overlap st (runs @ [r]) = overlap st runs" by (simp add: overlap_def fun_eq_iff)
  moreover have "\<forall>d t. bt_get (wi_scopes (cleanup_scope bad ws now)) d = Some t \<longrightarrow> bt_get (wi_scopes now) d = Some t"
    by (simp add: cleanup_scope_def btree)
  ultimately show ?thesis using inv unfolding batch_inv_def Let_def same by simp
qed

lemma batch_inv_fold:
  assumes inv: "batch_inv C st runs conflicts now" and ok: "fold_scope sha bad (nr_scope r) now = (Inr out, now')" and r: "live_run r"
    and base: "plain_tree (wi_base st)" and plain: "\<And>t. bt_get (wi_scopes st) (ws_dir (nr_scope r)) = Some t \<Longrightarrow> plain_tree t \<and> (\<forall>p. set_option (files t p) \<subseteq> C)"
    and snap: "signs sha (ws_manifest (nr_scope r)) (payload False (wi_base st))" and inj: "inj_on sha C"
    and C: "\<And>p. set_option (files (wi_base st) p) \<subseteq> C"
    and conf: "conflicts' = conflicts @ (case out of Clean _ _ \<Rightarrow> [] | Conflict ks \<Rightarrow> [(nr_idx r, ks)])"
  shows "batch_inv C st (runs @ [r]) conflicts' now'"
proof -
  let ?snap = "payload False (wi_base st)" and ?b = "files (wi_base now)" and ?b' = "files (wi_base now')" and ?n = "work_of st"
  let ?rs = "live_runs runs"
  obtain t where t: "bt_get (wi_scopes now) (ws_dir (nr_scope r)) = Some t" using fold_scope_needs_dir [OF ok] by blast
  with inv have t0: "bt_get (wi_scopes st) (ws_dir (nr_scope r)) = Some t" by (simp add: batch_inv_def Let_def)
  then have nr: "?n r = payload False t" by (simp add: work_of_def)
  have pl: "plain_path p" if "?snap p \<noteq> None" for p using that files_plain [OF base, of p] by (auto simp: payload_def split: if_splits)
  have pt: "plain_path p" if "?n r p \<noteq> None" for p using that files_plain [of t p] plain [OF t0] by (auto simp: nr payload_def split: if_splits)
  have sub: "set_option (?snap p) \<union> set_option (?b p) \<union> set_option (files t p) \<subseteq> C" for p
    using C [of p] inv plain [OF t0] by (auto simp: payload_def batch_inv_def Let_def)
  have "plain_tree (wi_base now)" using inv by (simp add: batch_inv_def Let_def)
  note merge = fold_merges [OF ok t _ this snap pl inj sub, folded nr]
  have pt': "plain_tree t" using plain [OF t0] by simp
  have b': "?b' p = merge3 (?snap p) (?b p) (?n r p)" for p by (rule merge(3) [OF pt'])
  have ck: "conflict_keys out = rel_key ` {p. plain_path p \<and> clash3 (?snap p) (?b p) (?n r p)}" by (rule merge(4) [OF pt'])
  have old: "?b p = files (wi_base st) p \<or> (\<exists>r \<in> ?rs. ?b p = ?n r p \<and> ?n r p \<noteq> ?snap p)" for p using inv by (simp add: batch_inv_def Let_def)
  have kept: "?n r' p = ?snap p \<or> ?b p = ?n r' p \<or> reported conflicts r' p" if "r' \<in> ?rs" for r' p using inv that by (simp add: batch_inv_def Let_def)
  have rep: "reported conflicts r' p \<Longrightarrow> reported conflicts' r' p" for r' p by (auto simp: reported_def conf)
  have new: "reported conflicts' r p" if "clash3 (?snap p) (?b p) (?n r p)" for p
  proof -
    have "plain_path p" using that pl [of p] pt [of p] unfolding clash3_def by metis
    with that ck have "rel_key p \<in> conflict_keys out" by auto
    then show ?thesis by (cases out) (auto simp: conflict_keys_def reported_def conf)
  qed
  have set': "live_runs (runs @ [r]) = insert r ?rs" using r by (auto simp: live_runs_def)
  have 1: "\<forall>d t. bt_get (wi_scopes now') d = Some t \<longrightarrow> bt_get (wi_scopes st) d = Some t" using merge(1) [OF pt'] inv by (simp add: batch_inv_def Let_def)
  have 2: "\<forall>p. set_option (?b' p) \<subseteq> C" unfolding b' using sub by (auto simp: merge3_def nr payload_def)
  have 3: "\<forall>p. ?b' p = files (wi_base st) p \<or> (\<exists>x \<in> insert r ?rs. ?b' p = ?n x p \<and> ?n x p \<noteq> ?snap p)"
  proof
    fix p show "?b' p = files (wi_base st) p \<or> (\<exists>x \<in> insert r ?rs. ?b' p = ?n x p \<and> ?n x p \<noteq> ?snap p)"
      using old [of p] unfolding b' merge3_def by (cases "?n r p = ?snap p"; cases "?b p = ?snap p") auto
  qed
  have 4: "\<forall>x \<in> insert r ?rs. \<forall>p. ?n x p = ?snap p \<or> ?b' p = ?n x p \<or> reported conflicts' x p"
    unfolding b' merge3_def using kept rep new by (auto simp: clash3_def) metis+
  have hit: "\<exists>r' \<in> ?rs. ?n r' p \<noteq> ?snap p \<and> ?n r p \<noteq> ?n r' p" if "clash3 (?snap p) (?b p) (?n r p)" for p
  proof -
    have "?b p \<noteq> files (wi_base st) p" using that by (auto simp: clash3_def payload_def nr split: if_splits)
    with old [of p] that show ?thesis by (auto simp: clash3_def)
  qed
  have 5: "\<forall>(i, keys) \<in> set conflicts'. \<forall>k \<in> set keys. overlap st (runs @ [r]) i k"
  proof (intro ballI, clarify)
    fix i keys k assume mem: "(i, keys) \<in> set conflicts'" and k: "k \<in> set keys"
    show "overlap st (runs @ [r]) i k"
    proof (cases "(i, keys) \<in> set conflicts")
      case True
      with inv k have "overlap st runs i k" by (auto simp: batch_inv_def Let_def)
      then show ?thesis by (rule overlap_mono) (auto simp: set')
    next
      case False
      with mem have i: "i = nr_idx r" and "k \<in> conflict_keys out" using k by (auto simp: conf conflict_keys_def split: fold_outcome.splits)
      with ck obtain p where p: "k = rel_key p" "clash3 (?snap p) (?b p) (?n r p)" by auto
      with hit [OF p(2)] i show ?thesis unfolding overlap_def set' by (auto simp: clash3_def)
    qed
  qed
  show ?thesis unfolding batch_inv_def Let_def set' using 1 2 3 4 5 merge(2) [OF pt'] by blast
qed

lemma fold_runs_inv:
  assumes "fold_runs sha bad batch rs conflicts stale now = (Inr (conflicts', stale'), now')" and "batch_inv C st runs conflicts now"
    and base: "plain_tree (wi_base st)" and inj: "inj_on sha C" and C: "\<And>p. set_option (files (wi_base st) p) \<subseteq> C"
    and plain: "\<And>r t. r \<in> set rs \<Longrightarrow> live_run r \<Longrightarrow> bt_get (wi_scopes st) (ws_dir (nr_scope r)) = Some t \<Longrightarrow> plain_tree t \<and> (\<forall>p. set_option (files t p) \<subseteq> C)"
    and snap: "\<And>r. r \<in> set rs \<Longrightarrow> live_run r \<Longrightarrow> signs sha (ws_manifest (nr_scope r)) (payload False (wi_base st))"
  shows "batch_inv C st (runs @ rs) conflicts' now' \<and> stale' = stale @ map nr_idx (filter (\<lambda>r. \<not> nr_cancelled r \<and> nr_stale r) rs)"
  using assms(1,2) plain snap
proof (induction rs arbitrary: runs conflicts stale now)
  case (Cons r rs)
  have step: "batch_inv C st (runs @ r # rs) conflicts' now' \<and> stale' = stale1 @ map nr_idx (filter (\<lambda>r. \<not> nr_cancelled r \<and> nr_stale r) rs)"
    if "fold_runs sha bad batch rs conf1 stale1 now1 = (Inr (conflicts', stale'), now')" "batch_inv C st (runs @ [r]) conf1 now1" for conf1 stale1 now1
    using Cons.IH [OF that] Cons.prems(3,4) by fastforce
  consider (off) "nr_cancelled r" | (stale) "\<not> nr_cancelled r" "nr_stale r" | (live) "live_run r" by (auto simp: live_run_def)
  then show ?case
  proof cases
    case off
    then have "batch_inv C st (runs @ [r]) conflicts (cleanup_scope (bad (nr_idx r)) (nr_scope r) now)"
      using Cons.prems(2) by (intro batch_inv_cleanup) (simp_all add: live_run_def)
    with off show ?thesis using step Cons.prems(1) by simp
  next
    case stale
    then have "batch_inv C st (runs @ [r]) conflicts (cleanup_scope (bad (nr_idx r)) (nr_scope r) now)"
      using Cons.prems(2) by (intro batch_inv_cleanup) (simp_all add: live_run_def)
    from step [OF _ this, of "stale @ [nr_idx r]"] stale Cons.prems(1) show ?thesis by simp
  next
    case live
    obtain x now1 where f: "fold_scope sha (bad (nr_idx r)) (nr_scope r) now = (x, now1)" by (metis prod.collapse)
    with Cons.prems(1) live obtain out where x: "x = Inr out" by (cases x) (auto simp: live_run_def)
    let ?c = "conflicts @ (case out of Clean _ _ \<Rightarrow> [] | Conflict ks \<Rightarrow> [(nr_idx r, ks)])"
    have "fold_runs sha bad batch rs ?c stale now1 = (Inr (conflicts', stale'), now')"
      using Cons.prems(1) live f x by (cases out) (auto simp: live_run_def)
    moreover have "batch_inv C st (runs @ [r]) ?c now1"
      by (rule batch_inv_fold [OF Cons.prems(2) f [unfolded x] live base _ _ inj C refl]) (use Cons.prems(3,4) live in auto)
    ultimately show ?thesis using step live by (simp add: live_run_def)
  qed
qed simp

definition contents :: "tree \<Rightarrow> string set" where
  "contents t = ran (files t)"

lemma contents_sub: "set_option (files t p) \<subseteq> contents t"
  unfolding contents_def by (cases "files t p") (auto intro: ranI)

text \<open>C12. No worker's write is lost. The finished runs of a batch are folded back in order, each against the snapshot all of them
  were given. If no disk operation fails, then afterwards every file of the workspace is as it was or as some live worker left
  it; whatever a live worker changed is in the workspace or reported as a conflict of that worker; and a path is reported only if
  two live workers changed it to different contents. So a batch without conflicts ends with every worker's changes, whatever the
  order. Cancelled and stale workers contribute nothing. (Names contain no backslash, and SHA-256 has no collision among
  the contents at hand.)\<close>

theorem batch_no_lost_write:
  assumes run: "fold_batch sha bad runs st = (Inr (conflicts, stale), st')" and base: "plain_tree (wi_base st)"
    and scopes: "\<And>r. r \<in> set runs \<Longrightarrow> live_run r \<Longrightarrow> \<exists>ul ur. manifest_of sha ul ur (wi_base st) = Inr (ws_manifest (nr_scope r))"
    and work: "\<And>d t. bt_get (wi_scopes st) d = Some t \<Longrightarrow> plain_tree t"
    and inj: "inj_on sha (contents (wi_base st) \<union> (\<Union>t \<in> snd ` set (wi_scopes st). contents t))"
  shows "(files (wi_base st') p = files (wi_base st) p
      \<or> (\<exists>r \<in> live_runs runs. files (wi_base st') p = work_of st r p \<and> work_of st r p \<noteq> payload False (wi_base st) p))
   \<and> (\<forall>r \<in> live_runs runs. work_of st r p = payload False (wi_base st) p \<or> files (wi_base st') p = work_of st r p \<or> reported conflicts r p)
   \<and> (\<forall>(i, keys) \<in> set conflicts. \<forall>k \<in> set keys. overlap st runs i k)
   \<and> stale = map nr_idx (filter (\<lambda>r. \<not> nr_cancelled r \<and> nr_stale r) runs)"
proof -
  let ?C = "contents (wi_base st) \<union> (\<Union>t \<in> snd ` set (wi_scopes st). contents t)"
  have C: "set_option (files (wi_base st) q) \<subseteq> ?C" for q using contents_sub by blast
  have start: "batch_inv ?C st [] [] st" using base C by (simp add: batch_inv_def live_runs_def Let_def)
  have "plain_tree t \<and> (\<forall>q. set_option (files t q) \<subseteq> ?C)" if "bt_get (wi_scopes st) d = Some t" for d t
  proof -
    from that have "t \<in> snd ` set (wi_scopes st)" unfolding bt_get_def by (force dest: map_of_SomeD)
    then have "contents t \<subseteq> ?C" by blast
    then show ?thesis using work [OF that] contents_sub by blast
  qed
  moreover have "signs sha (ws_manifest (nr_scope r)) (payload False (wi_base st))" if "r \<in> set runs" "live_run r" for r
    using scopes [OF that] manifest_signs [OF base] by blast
  ultimately have inv: "batch_inv ?C st runs conflicts st'" and st: "stale = map nr_idx (filter (\<lambda>r. \<not> nr_cancelled r \<and> nr_stale r) runs)"
    using fold_runs_inv [OF run [unfolded fold_batch_def] start base inj C] by simp_all
  then show ?thesis by (simp add: batch_inv_def Let_def)
qed

definition demo_base :: tree where "demo_base = [([''a''], NFile ''0'')]"

definition demo_state :: isolation where
  "demo_state = \<lparr>wi_base = demo_base, wi_scopes = [(''w1'', [([''a''], NFile ''1'')]), (''w2'', [([''a''], NFile ''0''), ([''b''], NFile ''2'')])]\<rparr>"

definition demo_run :: "nat \<Rightarrow> string \<Rightarrow> node_run" where
  "demo_run i owner = \<lparr>nr_idx = i, nr_scope = \<lparr>ws_owner = owner, ws_dir = owner, ws_manifest = [(''a'', content_sig id ''0'')]\<rparr>, nr_cancelled = False, nr_stale = False\<rparr>"

lemma demo_fold: "fold_batch id (\<lambda>_ _. False) [demo_run 1 ''w1'', demo_run 2 ''w2''] demo_state =
  (Inr ([], []), demo_state\<lparr>wi_base := [([''a''], NFile ''1''), ([''b''], NFile ''2'')]\<rparr>)"
  by code_simp

theorem batch_no_lost_write_witness:
  "files [([''a''], NFile ''1''), ([''b''], NFile ''2'')] [''b''] = work_of demo_state (demo_run 2 ''w2'') [''b'']"
proof -
  let ?runs = "[demo_run 1 ''w1'', demo_run 2 ''w2'']"
  have plain: "plain_tree demo_base" "\<And>d t. bt_get (wi_scopes demo_state) d = Some t \<Longrightarrow> plain_tree t"
    by (auto simp: demo_base_def demo_state_def plain_tree_def plain_path_def bt_inv_def bt_get_def split: if_splits)
  have "manifest_of id (\<lambda>_. False) (\<lambda>_. False) demo_base = Inr (ws_manifest (nr_scope (demo_run i d)))" for i d
  proof -
    have "manifest_of id (\<lambda>_. False) (\<lambda>_. False) demo_base = Inr [(''a'', content_sig id ''0'')]" by code_simp
    then show ?thesis by (simp add: demo_run_def)
  qed
  then have scopes: "r \<in> set ?runs \<Longrightarrow> \<exists>ul ur. manifest_of id ul ur (wi_base demo_state) = Inr (ws_manifest (nr_scope r))" for r
    by (auto simp: demo_state_def)
  have mem: "demo_run 2 ''w2'' \<in> live_runs ?runs" by (simp add: live_runs_def live_run_def demo_run_def)
  have ch: "work_of demo_state (demo_run 2 ''w2'') [''b''] \<noteq> payload False (wi_base demo_state) [''b'']" by code_simp
  have no: "\<not> reported [] r p" for r p by (simp add: reported_def)
  have "plain_tree (wi_base demo_state)" using plain(1) by (simp add: demo_state_def)
  note all = batch_no_lost_write [OF demo_fold this scopes plain(2) inj_on_id, where p = "[''b'']"]
  from bspec [OF all [THEN conjunct2, THEN conjunct1] mem] ch no show ?thesis by simp
qed

text \<open>Writes are applied before deletions, so a worker that replaces a file by a directory cannot be folded: the directory cannot
  be created while the file is there. The error is found in the middle of the second pass, after earlier writes were applied,
  and ends the mission.\<close>

lemma file_to_directory_aborts:
  "fold_scope id (\<lambda>_. False) \<lparr>ws_owner = ''w'', ws_dir = ''w'', ws_manifest = [(''a'', content_sig id ''0'')]\<rparr>
     \<lparr>wi_base = demo_base, wi_scopes = [(''w'', [([''A''], NFile ''1''), ([''a''], NDir), ([''a'', ''b''], NFile ''2'')])]\<rparr>
   = (Inl WIo, \<lparr>wi_base = bt_insert [''A''] (NFile ''1'') demo_base, wi_scopes = [(''w'', [([''A''], NFile ''1''), ([''a''], NDir), ([''a'', ''b''], NFile ''2'')])]\<rparr>)"
  by code_simp

section \<open>Revisions\<close>

definition nul_free :: "tree \<Rightarrow> bool" where
  "nul_free t \<longleftrightarrow> (\<forall>p \<in> fst ` set t. \<forall>c \<in> set p. char_of (0::nat) \<notin> set c)"

lemma rel_key_nul:
  assumes "plain_path p" "\<forall>c \<in> set p. char_of (0::nat) \<notin> set c"
  shows "char_of (0::nat) \<notin> set (rel_key p)"
proof -
  have "char_of (0::nat) \<notin> set ''/''" by code_simp
  then show ?thesis unfolding rel_key_plain [OF assms(1)] using assms(2) join_set [of "char_of (0::nat)" "''/''" p] by blast
qed

lemma revision_text_Cons:
  assumes "revision_text sha u t (r # rs) = Inr s"
  shows "\<exists>c s'. files t r = Some c \<and> revision_text sha u t rs = Inr s' \<and> s = rel_key r @ char_of (0::nat) # le_bytes (of_nat (length c)) @ sha c @ s'"
proof (cases "file_sig_of sha u t r")
  case (Inr g)
  then obtain c where c: "files t r = Some c" "g = (of_nat (length c), sha c)" using file_sig_of_Inr by (metis content_sig_def)
  with assms Inr show ?thesis by (cases "revision_text sha u t rs") auto
qed (use assms in simp)

lemma revision_text_inj:
  assumes "revision_text sha u t rs = Inr s" "revision_text sha u' t' rs' = Inr s"
    and "\<forall>r \<in> set rs \<union> set rs'. plain_path r \<and> (\<forall>c \<in> set r. char_of (0::nat) \<notin> set c)"
    and "\<And>x. length (sha x) = 32" "inj_on sha (contents t \<union> contents t')"
  shows "rs = rs' \<and> (\<forall>r \<in> set rs. files t r = files t' r)"
  using assms(1-3)
proof (induction rs arbitrary: rs' s)
  case Nil
  then show ?case using revision_text_Cons [of sha u' t' "hd rs'" "tl rs'" s] by (cases rs') auto
next
  case (Cons r rs)
  obtain c s1 where s1: "files t r = Some c" "revision_text sha u t rs = Inr s1" "s = rel_key r @ char_of (0::nat) # le_bytes (of_nat (length c)) @ sha c @ s1"
    using revision_text_Cons [OF Cons.prems(1)] by blast
  with Cons.prems(2) obtain q qs where rs': "rs' = q # qs" by (cases rs') auto
  obtain d s2 where s2: "files t' q = Some d" "revision_text sha u' t' qs = Inr s2" "s = rel_key q @ char_of (0::nat) # le_bytes (of_nat (length d)) @ sha d @ s2"
    using revision_text_Cons [OF Cons.prems(2) [unfolded rs']] by blast
  have nul: "char_of (0::nat) \<notin> set (rel_key r)" "char_of (0::nat) \<notin> set (rel_key q)" using Cons.prems(3) rs' rel_key_nul by simp_all
  from s1(3) s2(3) have "Some (rel_key r, le_bytes (of_nat (length c)) @ sha c @ s1) = Some (rel_key q, le_bytes (of_nat (length d)) @ sha d @ s2)"
    by (metis split_once_append nul)
  then have eq: "rel_key r = rel_key q" "sha c = sha d" "s1 = s2" using assms(4) by (auto simp: le_bytes_def)
  have "r = q" using eq(1) Cons.prems(3) rs' rel_key_inj by auto
  moreover have "c = d" using inj_onD [OF assms(5) eq(2)] contents_sub [of t r] contents_sub [of t' q] s1(1) s2(1) by auto
  ultimately show ?case using Cons.IH [OF s1(2)] s2 eq(3) Cons.prems(3) rs' s1(1) by auto
qed

lemma revision_text_cong: "(\<And>r. r \<in> set rs \<Longrightarrow> files t r = files t' r) \<Longrightarrow> revision_text sha u t rs = Inr s \<Longrightarrow> revision_text sha u' t' rs = Inr s'
   \<Longrightarrow> s = s'"
proof (induction rs arbitrary: s s')
  case (Cons r rs)
  then show ?case using revision_text_Cons [OF Cons.prems(2)] revision_text_Cons [OF Cons.prems(3)] by force
qed simp

lemma revision_input_files:
  assumes "plain_tree t" "revision_input sha ul ur t = Inr s"
  obtains rs where "revision_text sha ur t rs = Inr s" "sorted rs" "distinct rs" "set rs = {p. payload True t p \<noteq> None}" "\<forall>r \<in> set rs. plain_path r"
proof -
  obtain fs where fs: "walk ul t True = Inr fs" "revision_text sha ur t (sort fs) = Inr s"
    using assms(2) by (auto simp: revision_input_def split: sum.splits)
  have "fs = map fst (filter (\<lambda>(p, n). n \<noteq> NDir \<and> visited True p) t)" using fs(1) unfolding walk_def if_Inl_eq by (rule conjunct2)
  moreover have "distinct (map fst t)" using assms(1) by (simp add: plain_tree_def bt_inv_distinct)
  ultimately have "distinct fs" by (simp add: distinct_map_filter)
  then show ?thesis using that [of "sort fs"] fs(2) walk_files [OF assms(1) fs(1)] by auto
qed

text \<open>A revision identifies the payload. Two readable workspaces have the same revision exactly when they have the same
  files with the same contents, apart from version control, build output and the orchestrator's own state. (Names contain no
  backslash and no NUL, digests have 32 bytes, and SHA-256 has no collision among the contents and the two manifests.)\<close>

theorem revision_binds_payload:
  assumes x: "revision sha ul ur t = Inr x" "revision_input sha ul ur t = Inr i" and y: "revision sha ul' ur' t' = Inr y" "revision_input sha ul' ur' t' = Inr i'"
    and plain: "plain_tree t" "plain_tree t'" "nul_free t" "nul_free t'" and len: "\<And>z. length (sha z) = 32"
    and inj: "inj_on sha (contents t \<union> contents t' \<union> {i, i'})"
  shows "x = y \<longleftrightarrow> payload True t = payload True t'"
proof -
  obtain rs where rs: "revision_text sha ur t rs = Inr i" "sorted rs" "distinct rs" "set rs = {p. payload True t p \<noteq> None}" "\<forall>r \<in> set rs. plain_path r"
    by (rule revision_input_files [OF plain(1) x(2)])
  obtain rs' where rs': "revision_text sha ur' t' rs' = Inr i'" "sorted rs'" "distinct rs'" "set rs' = {p. payload True t' p \<noteq> None}" "\<forall>r \<in> set rs'. plain_path r"
    by (rule revision_input_files [OF plain(2) y(2)])
  have fl: "files t p = payload True t p" if "p \<in> set rs" for p using that rs(4) by (auto simp: payload_def split: if_splits)
  have fl': "files t' p = payload True t' p" if "p \<in> set rs'" for p using that rs'(4) by (auto simp: payload_def split: if_splits)
  have nul: "c \<in> set r \<Longrightarrow> char_of (0::nat) \<notin> set c" if "r \<in> set rs \<union> set rs'" for r c
  proof -
    from that have "r \<in> fst ` set t \<or> r \<in> fst ` set t'"
      using rs(4) rs'(4) bt_get_None [of t r] bt_get_None [of t' r] by (auto simp: payload_def files_def split: if_splits option.splits)
    then show "c \<in> set r \<Longrightarrow> char_of (0::nat) \<notin> set c" using plain(3,4) unfolding nul_free_def by blast
  qed
  have "x = y \<longleftrightarrow> sha i = sha i'" using x y hex_encode_inj by (auto simp: revision_def)
  also have "\<dots> \<longleftrightarrow> i = i'" using inj by (auto simp: inj_on_def)
  also have "\<dots> \<longleftrightarrow> payload True t = payload True t'"
  proof
    assume "i = i'"
    with rs(1) rs'(1) have "rs = rs' \<and> (\<forall>r \<in> set rs. files t r = files t' r)"
      using nul rs(5) rs'(5) len inj by (intro revision_text_inj) (auto simp: inj_on_Un)
    moreover have "p \<notin> set rs \<Longrightarrow> payload True t p = None" "p \<notin> set rs' \<Longrightarrow> payload True t' p = None" for p
      using rs(4) rs'(4) by blast+
    ultimately have "payload True t p = payload True t' p" for p using fl [of p] fl' [of p] by metis
    then show "payload True t = payload True t'" by blast
  next
    assume eq: "payload True t = payload True t'"
    with rs rs' have "rs = rs'" by (simp add: sorted_distinct_set_unique)
    with eq show "i = i'" using revision_text_cong [of rs t t' sha ur i ur' i'] rs(1) rs'(1) fl fl' by simp
  qed
  finally show ?thesis .
qed

definition pad_sha :: "string \<Rightarrow> string" where
  "pad_sha s = take 32 (s @ replicate 32 CHR ''z'')"

lemma demo_input:
  assumes "c \<noteq> CHR 0x5C" "c \<noteq> CHR ''.''" "c \<noteq> CHR ''/''"
  shows "revision_input pad_sha (\<lambda>_. False) (\<lambda>_. False) [([[c]], NFile ''0'')] = Inr (c # char_of (0::nat) # le_bytes 1 @ pad_sha ''0'')"
proof -
  have "walk (\<lambda>_. False) [([[c]], NFile ''0'')] True = Inr [[[c]]]"
    by (simp add: walk_def visited_def wi_excluded_def EXCLUDED_def)
  then show ?thesis using assms(1)
    by (simp add: revision_input_def file_sig_of_def bt_get_def content_sig_def rel_key_def replace_char_def)
qed

theorem revision_binds_payload_witness:
  "revision pad_sha (\<lambda>_. False) (\<lambda>_. False) [([''a''], NFile ''0'')] \<noteq> revision pad_sha (\<lambda>_. False) (\<lambda>_. False) [([''b''], NFile ''0'')]"
proof -
  let ?t = "[([''a''], NFile ''0'')]" and ?u = "[([''b''], NFile ''0'')]"
  let ?i = "\<lambda>c. c # char_of (0::nat) # le_bytes 1 @ pad_sha ''0''"
  note inp = demo_input [of "CHR ''a''"] demo_input [of "CHR ''b''"]
  have rev: "revision pad_sha (\<lambda>_. False) (\<lambda>_. False) ?t = Inr (hex_encode (pad_sha (?i CHR ''a'')))"
      "revision pad_sha (\<lambda>_. False) (\<lambda>_. False) ?u = Inr (hex_encode (pad_sha (?i CHR ''b'')))"
    using inp by (simp_all add: revision_def)
  have "char_of (0::nat) \<noteq> CHR ''a''" "char_of (0::nat) \<noteq> CHR ''b''" by code_simp+
  then have plain: "plain_tree ?t" "plain_tree ?u" "nul_free ?t" "nul_free ?u"
    by (simp_all add: plain_tree_def plain_path_def bt_inv_def nul_free_def)
  have c: "contents ?t \<union> contents ?u = {''0''}" by (auto simp: contents_def files_def bt_get_def ran_def split: if_splits)
  have "\<And>c d s s'. c \<noteq> d \<Longrightarrow> pad_sha (c # s) \<noteq> pad_sha (d # s')" by (simp add: pad_sha_def)
  then have inj: "inj_on pad_sha (contents ?t \<union> contents ?u \<union> {?i CHR ''a'', ?i CHR ''b''})" unfolding c by (simp add: inj_on_def)
  have len: "length (pad_sha z) = 32" for z by (simp add: pad_sha_def)
  have "payload True ?t [''a''] \<noteq> payload True ?u [''a'']" by code_simp
  then have "payload True ?t \<noteq> payload True ?u" by metis
  then show ?thesis using revision_binds_payload [OF rev(1) _ rev(2) _ plain len inj] inp rev by simp
qed

end
