(* ===== verification/Integration_Run.thy ===== *)
theory Integration_Run
  imports Integration Writer_Isolation_Run
begin

text \<open>When the gate finishes a task, that what was tested is what is merged, and that a superseded worker closes nothing.\<close>

section \<open>The gate\<close>

definition gate_passes ::
  "(string \<Rightarrow> string) \<Rightarrow> gate_env \<Rightarrow> string \<Rightarrow> string \<Rightarrow> roadmap_task \<Rightarrow> assignment \<Rightarrow> string \<Rightarrow> acceptance_observation \<Rightarrow> string \<Rightarrow> review_receipt \<Rightarrow> bool" where
  "gate_passes sha env job branch task a commit obs reviewer rc \<longleftrightarrow>
     ja_state a = JCompleted \<and> (\<forall>d \<in> set (ge_deps env job). ge_is_done env d)
     \<and> ge_head_before env (ja_worktree a) branch = Inr commit \<and> ge_head_after env (ja_worktree a) branch = Inr commit
     \<and> is_test_acceptance (rt_accept task) \<and> ge_accept env (ja_worktree a) (rt_accept task) = Inr obs \<and> 0 < ao_tests obs
     \<and> (\<exists>v. ge_verifier env = Some v \<and> vf_verify v (ja_worktree a) task = Approve \<and> vf_identity v = Some reviewer
          \<and> vf_receipt v (ja_worktree a) task (ja_worker a) commit obs = Some rc)
     \<and> receipt_verifies sha rc reviewer (ja_worker a) (rt_id task) (ao_tool obs) (ao_arguments obs) (ao_result obs) commit"

lemma terminal_receipt_ok:
  "get_job l j = Some a \<Longrightarrow> ja_state a = JCompleted \<Longrightarrow>
     record_terminal_receipt w j (ja_fence a) e l =
       (Inr (), put_job w j (a\<lparr>ja_receipts := ja_receipts a @ [\<lparr>jr_effect = e, jr_fence = ja_fence a\<rparr>]\<rparr>) l)"
  by (simp add: record_terminal_receipt_def)

lemma review_finish:
  assumes "review_and_merge sha env job branch task a commit obs l = ((out, qs), l')" "get_job l job = Some a" "ja_state a = JCompleted"
  shows "QFinish job \<in> set qs \<longleftrightarrow>
     (\<exists>v reviewer rc m. ge_verifier env = Some v \<and> vf_verify v (ja_worktree a) task = Approve \<and> vf_identity v = Some reviewer
        \<and> vf_receipt v (ja_worktree a) task (ja_worker a) commit obs = Some rc
        \<and> receipt_verifies sha rc reviewer (ja_worker a) (rt_id task) (ao_tool obs) (ao_arguments obs) (ao_result obs) commit
        \<and> ge_head_after env (ja_worktree a) branch = Inr commit
        \<and> ge_integrate env (ja_worktree a) branch = Inr (MergeClean m) \<and> ge_publish env (ja_worktree a) branch m = Inr Published
        \<and> out = Integrated m commit \<and> qs = [QFinish job]
        \<and> l' = put_job (ge_write env) job (a\<lparr>ja_receipts := ja_receipts a @ [\<lparr>jr_effect = ''verified review '' @ rv_digest rc, jr_fence = ja_fence a\<rparr>]\<rparr>) l)"
  using assms(1) unfolding review_and_merge_def merge_and_publish_def terminal_receipt_ok [OF assms(2,3)] Let_def
  by (auto split: option.splits review_verdict.splits sum.splits if_splits merge_result.splits publication_status.splits)

lemma integrate_reaches_review:
  assumes "integrate_job sha env job branch task l = ((out, qs), l')" "QFinish job \<in> set qs"
  obtains a commit obs where "get_job l job = Some a" "ja_state a = JCompleted" "\<forall>d \<in> set (ge_deps env job). ge_is_done env d"
    "ge_head_before env (ja_worktree a) branch = Inr commit" "is_test_acceptance (rt_accept task)"
    "ge_accept env (ja_worktree a) (rt_accept task) = Inr obs" "0 < ao_tests obs"
    "review_and_merge sha env job branch task a commit obs l = ((out, qs), l')"
proof -
  obtain a where a: "get_job l job = Some a" using assms by (auto simp: integrate_job_def split: option.splits)
  have st: "ja_state a = JCompleted" using assms a by (auto simp: integrate_job_def split: if_splits)
  have deps: "filter (\<lambda>d. \<not> ge_is_done env d) (ge_deps env job) = []" using assms a st by (auto simp: integrate_job_def Let_def split: if_splits)
  obtain commit where c: "ge_head_before env (ja_worktree a) branch = Inr commit"
    using assms a st deps by (auto simp: integrate_job_def Let_def split: sum.splits)
  have t: "is_test_acceptance (rt_accept task)" using assms a st deps c by (auto simp: integrate_job_def Let_def split: if_splits)
  obtain obs where o: "ge_accept env (ja_worktree a) (rt_accept task) = Inr obs"
    using assms a st deps c t by (auto simp: integrate_job_def Let_def split: sum.splits)
  have n: "ao_tests obs \<noteq> 0" using assms a st deps c t o by (auto simp: integrate_job_def Let_def split: if_splits)
  have "review_and_merge sha env job branch task a commit obs l = ((out, qs), l')" using assms(1) a st deps c t o n by (simp add: integrate_job_def Let_def)
  then show ?thesis using that [of a commit obs] a st deps c t o n by (simp add: filter_empty_conv)
qed

lemma integrate_review:
  assumes "get_job l job = Some a" "ja_state a = JCompleted" "\<forall>d \<in> set (ge_deps env job). ge_is_done env d"
    "ge_head_before env (ja_worktree a) branch = Inr commit" "is_test_acceptance (rt_accept task)"
    "ge_accept env (ja_worktree a) (rt_accept task) = Inr obs" "0 < ao_tests obs"
  shows "integrate_job sha env job branch task l = review_and_merge sha env job branch task a commit obs l"
  using assms by (simp add: integrate_job_def Let_def filter_empty_conv)

text \<open>C14. What closing a task rests on. The gate tells the queue to finish a task exactly when the ledger has its job completed,
  every dependency is done, the acceptance is a test command that ran at least one test, an authenticated reviewer approved and
  left a receipt bound to that reviewer, the worker, the task, the acceptance result and the revision, the revision did not move
  in between, and the merge was clean and is published; then that is all it tells the queue, and the receipt is in the ledger
  under the job's fence, before the merge. Nothing in the list makes the reviewer a different party than the worker.\<close>

theorem gate_finishes_iff:
  assumes run: "integrate_job sha env job branch task l = ((out, qs), l')"
  shows "(QFinish job \<in> set qs \<longleftrightarrow> (\<exists>a commit obs reviewer rc m. get_job l job = Some a \<and> gate_passes sha env job branch task a commit obs reviewer rc
       \<and> ge_integrate env (ja_worktree a) branch = Inr (MergeClean m) \<and> ge_publish env (ja_worktree a) branch m = Inr Published))
   \<and> (get_job l job = Some a \<and> gate_passes sha env job branch task a commit obs reviewer rc
       \<and> ge_integrate env (ja_worktree a) branch = Inr (MergeClean m) \<and> ge_publish env (ja_worktree a) branch m = Inr Published \<longrightarrow>
      out = Integrated m commit \<and> qs = [QFinish job]
      \<and> l' = put_job (ge_write env) job (a\<lparr>ja_receipts := ja_receipts a @ [\<lparr>jr_effect = ''verified review '' @ rv_digest rc, jr_fence = ja_fence a\<rparr>]\<rparr>) l)"
proof -
  have fwd: "\<exists>a commit obs reviewer rc m. get_job l job = Some a \<and> gate_passes sha env job branch task a commit obs reviewer rc
       \<and> ge_integrate env (ja_worktree a) branch = Inr (MergeClean m) \<and> ge_publish env (ja_worktree a) branch m = Inr Published"
    if fin: "QFinish job \<in> set qs"
  proof -
    obtain a commit obs where r: "get_job l job = Some a" "ja_state a = JCompleted" "\<forall>d \<in> set (ge_deps env job). ge_is_done env d"
      "ge_head_before env (ja_worktree a) branch = Inr commit" "is_test_acceptance (rt_accept task)"
      "ge_accept env (ja_worktree a) (rt_accept task) = Inr obs" "0 < ao_tests obs"
      "review_and_merge sha env job branch task a commit obs l = ((out, qs), l')"
      by (rule integrate_reaches_review [OF run fin])
    from review_finish [OF r(8,1,2)] fin r(1-7) show ?thesis unfolding gate_passes_def by blast
  qed
  have bwd: "out = Integrated m commit \<and> qs = [QFinish job]
      \<and> l' = put_job (ge_write env) job (a\<lparr>ja_receipts := ja_receipts a @ [\<lparr>jr_effect = ''verified review '' @ rv_digest rc, jr_fence = ja_fence a\<rparr>]\<rparr>) l"
    if a: "get_job l job = Some a" and g: "gate_passes sha env job branch task a commit obs reviewer rc"
      and m: "ge_integrate env (ja_worktree a) branch = Inr (MergeClean m)" "ge_publish env (ja_worktree a) branch m = Inr Published"
    for a commit obs reviewer rc m
  proof -
    have "review_and_merge sha env job branch task a commit obs l = ((out, qs), l')"
      using integrate_review [OF a, of env branch commit task obs sha] g run by (simp add: gate_passes_def)
    then show ?thesis using g m a
      by (auto simp: review_and_merge_def gate_passes_def Let_def merge_and_publish_def terminal_receipt_ok)
  qed
  show ?thesis
  proof (intro conjI impI)
    show "QFinish job \<in> set qs \<longleftrightarrow> (\<exists>a commit obs reviewer rc m. get_job l job = Some a \<and> gate_passes sha env job branch task a commit obs reviewer rc
       \<and> ge_integrate env (ja_worktree a) branch = Inr (MergeClean m) \<and> ge_publish env (ja_worktree a) branch m = Inr Published)"
    proof (rule iffI [OF fwd], assumption)
      assume "\<exists>a commit obs reviewer rc m. get_job l job = Some a \<and> gate_passes sha env job branch task a commit obs reviewer rc
       \<and> ge_integrate env (ja_worktree a) branch = Inr (MergeClean m) \<and> ge_publish env (ja_worktree a) branch m = Inr Published"
      then obtain a commit obs reviewer rc m where "get_job l job = Some a" "gate_passes sha env job branch task a commit obs reviewer rc"
        "ge_integrate env (ja_worktree a) branch = Inr (MergeClean m)" "ge_publish env (ja_worktree a) branch m = Inr Published" by blast
      from bwd [OF this] show "QFinish job \<in> set qs" by simp
    qed
  qed (use bwd in blast)+
qed

definition demo_task :: roadmap_task where
  "demo_task = \<lparr>rt_id = ''T-1'', rt_class = ''general'', rt_accept = [''cargo'', ''test''], rt_title = []\<rparr>"

definition demo_obs :: acceptance_observation where
  "demo_obs = observation_successful pad_sha (rt_accept demo_task)"

definition demo_receipt :: review_receipt where
  "demo_receipt = receipt_new pad_sha ''w2'' ''w2'' ''T-1'' ''cargo'' (ao_arguments demo_obs) (ao_result demo_obs) ''c0ffee''"

definition demo_env :: gate_env where
  "demo_env = \<lparr>ge_deps = \<lambda>_. [], ge_is_done = \<lambda>_. True, ge_head_before = \<lambda>_ _. Inr ''c0ffee'', ge_accept = \<lambda>_ _. Inr demo_obs,
     ge_verifier = Some \<lparr>vf_verify = \<lambda>_ _. Approve, vf_identity = Some ''w2'', vf_receipt = \<lambda>_ _ _ _ _. Some demo_receipt\<rparr>,
     ge_head_after = \<lambda>_ _. Inr ''c0ffee'', ge_integrate = \<lambda>_ _. Inr (MergeClean ''m''), ge_publish = \<lambda>_ _ _. Inr Published, ge_write = WriteOk\<rparr>"

lemma hex_digit_hexdigit: "n < 16 \<Longrightarrow> is_ascii_hexdigit (hex_digit n)"
  by (auto simp: hex_digit_def is_ascii_hexdigit_def is_ascii_digit_def of_char_of)

lemma hexdigit_hex_encode: "list_all is_ascii_hexdigit (hex_encode s)"
  using byte_halves by (auto simp: hex_encode_def list_all_iff hex_digit_hexdigit)

lemma graphic_identity:
  assumes "s \<noteq> []" "list_all is_ascii_graphic s"
  shows "valid_identity s"
proof -
  have "\<not> prefix w (drop i s)" if "w \<in> set ws_seqs" "i < length s" for w i
  proof
    assume "prefix w (drop i s)"
    moreover have ng: "w \<noteq> []" "\<not> is_ascii_graphic (hd w)" using ws_seqs_first [OF that(1)] by auto
    ultimately have "hd w = s ! i" using that(2) by (cases w) (auto simp: prefix_def Cons_nth_drop_Suc [symmetric] hd_drop_conv_nth)
    then show False using ng(2) assms(2) that(2) by (simp add: list_all_iff)
  qed
  moreover have "trim s = s" using assms by (intro trim_graphic) (simp add: list_all_iff)
  ultimately show ?thesis using assms(1) by (auto simp: valid_identity_def has_whitespace_def list_ex_iff)
qed

lemma length_hex_encode: "length (hex_encode s) = 2 * length s"
  by (induction s) (simp_all add: hex_encode_def)

lemma digest_fields_digest: "length (sha (hash_fields fs)) = 32 \<Longrightarrow> is_digest (digest_fields sha fs)"
  by (simp add: is_digest_def digest_fields_def strip_prefix_def hexdigit_hex_encode length_hex_encode)

lemma pad_sha_length [simp]: "length (pad_sha s) = 32"
  by (simp add: pad_sha_def)

lemma gate_passes_finishes:
  assumes "get_job l job = Some a" "gate_passes sha env job branch task a commit obs reviewer rc"
    and "ge_integrate env (ja_worktree a) branch = Inr (MergeClean m)" "ge_publish env (ja_worktree a) branch m = Inr Published"
  shows "fst (integrate_job sha env job branch task l) = (Integrated m commit, [QFinish job])"
proof -
  have "integrate_job sha env job branch task l = review_and_merge sha env job branch task a commit obs l"
    using integrate_review [OF assms(1), of env branch commit task obs sha] assms(2) by (simp add: gate_passes_def)
  then show ?thesis using assms by (auto simp: review_and_merge_def gate_passes_def Let_def merge_and_publish_def terminal_receipt_ok)
qed


definition demo_done :: job_ledger where
  "demo_done = demo_ledger\<lparr>jl_jobs := [(''T-1'', demo_job\<lparr>ja_state := JCompleted\<rparr>)]\<rparr>"

lemma demo_passes:
  "gate_passes pad_sha demo_env ''T-1'' ''w2'' demo_task (demo_job\<lparr>ja_state := JCompleted\<rparr>) ''c0ffee'' demo_obs ''w2'' demo_receipt"
  "get_job demo_done ''T-1'' = Some (demo_job\<lparr>ja_state := JCompleted\<rparr>)"
proof -
  have ids: "valid_identity ''w2''" "valid_identity ''T-1''" "valid_identity ''cargo''" "valid_identity ''c0ffee''"
    by (rule graphic_identity; simp add: is_ascii_graphic_def)+
  have test: "is_test_acceptance [''cargo'', ''test'']"
    by (simp add: is_test_acceptance_def to_ascii_lowercase_def to_ascii_lower_char_def is_ascii_upper_def is_ascii_alphanumeric_def is_ascii_lower_def is_ascii_digit_def)
  have dig: "is_digest (ao_arguments demo_obs)" "is_digest (ao_result demo_obs)" "is_digest (rv_digest demo_receipt)"
    by (simp_all add: demo_obs_def observation_successful_def acceptance_arguments_digest_def acceptance_success_digest_def demo_receipt_def
        receipt_new_def expected_digest_def Let_def digest_fields_digest)
  have tool: "ao_tool demo_obs = ''cargo''" "ao_tests demo_obs = 1" by (simp_all add: demo_obs_def observation_successful_def demo_task_def)
  have "receipt_verifies pad_sha demo_receipt ''w2'' ''w2'' ''T-1'' (ao_tool demo_obs) (ao_arguments demo_obs) (ao_result demo_obs) ''c0ffee''"
    using ids dig unfolding receipt_verifies_def by (simp add: demo_receipt_def receipt_new_def Let_def expected_digest_def tool)
  then show "gate_passes pad_sha demo_env ''T-1'' ''w2'' demo_task (demo_job\<lparr>ja_state := JCompleted\<rparr>) ''c0ffee'' demo_obs ''w2'' demo_receipt"
    using test tool by (simp add: gate_passes_def demo_env_def demo_job_def demo_task_def)
  show "get_job demo_done ''T-1'' = Some (demo_job\<lparr>ja_state := JCompleted\<rparr>)" by (simp add: demo_done_def get_job_def bt_get_def)
qed

lemma demo_merge: "ge_integrate demo_env w b = Inr (MergeClean ''m'')" "ge_publish demo_env w b m = Inr Published"
  by (simp_all add: demo_env_def)

theorem gate_finishes_iff_witness:
  "QFinish ''T-1'' \<in> set (snd (fst (integrate_job pad_sha demo_env ''T-1'' ''w2'' demo_task demo_done)))"
  using gate_finishes_iff [of pad_sha demo_env "''T-1''" "''w2''" demo_task demo_done
      "fst (fst (integrate_job pad_sha demo_env ''T-1'' ''w2'' demo_task demo_done))" "snd (fst (integrate_job pad_sha demo_env ''T-1'' ''w2'' demo_task demo_done))"
      "snd (integrate_job pad_sha demo_env ''T-1'' ''w2'' demo_task demo_done)"] demo_passes demo_merge
  by (metis prod.collapse)


section \<open>What was tested is what is merged\<close>

text \<open>C15. With the content probe for worktrees outside version control, a task is finished only if the files of the worktree are
  the same before the acceptance run and at the merge: the tested payload is the merged payload, and the receipt names its
  revision. (Names are plain and digests do not collide, as for the revision itself.)\<close>

theorem tested_payload_is_merged:
  assumes run: "integrate_job sha env job branch task l = ((out, qs), l')" and fin: "QFinish job \<in> set qs" and a: "get_job l job = Some a"
    and before: "ge_head_before env (ja_worktree a) branch = map_sum show_err id (revision sha ul ur t)" "revision_input sha ul ur t = Inr i"
    and after: "ge_head_after env (ja_worktree a) branch = map_sum show_err id (revision sha ul' ur' t')" "revision_input sha ul' ur' t' = Inr i'"
    and plain: "plain_tree t" "plain_tree t'" "nul_free t" "nul_free t'" and len: "\<And>z. length (sha z) = 32"
    and inj: "inj_on sha (contents t \<union> contents t' \<union> {i, i'})"
  shows "payload True t = payload True t' \<and> (\<exists>m reviewer rc. out = Integrated m (hex_encode (sha i)) \<and> rv_commit rc = hex_encode (sha i)
    \<and> receipt_verifies sha rc reviewer (ja_worker a) (rt_id task) (rv_tool rc) (rv_arguments rc) (rv_result rc) (rv_commit rc))"
proof -
  obtain a' commit obs where r: "get_job l job = Some a'" "ja_state a' = JCompleted" "ge_head_before env (ja_worktree a') branch = Inr commit"
    "review_and_merge sha env job branch task a' commit obs l = ((out, qs), l')"
    by (rule integrate_reaches_review [OF run fin]) auto
  have [simp]: "a' = a" using r(1) a by simp
  obtain v reviewer rc m where v: "ge_head_after env (ja_worktree a) branch = Inr commit" "out = Integrated m commit"
      "receipt_verifies sha rc reviewer (ja_worker a) (rt_id task) (ao_tool obs) (ao_arguments obs) (ao_result obs) commit"
    using review_finish [OF r(4,1,2)] fin by auto
  have x: "revision sha ul ur t = Inr commit" and y: "revision sha ul' ur' t' = Inr commit"
    using r(3) v(1) before(1) after(1) by (cases "revision sha ul ur t"; cases "revision sha ul' ur' t'"; simp)+
  have "payload True t = payload True t'" using revision_binds_payload [OF x before(2) y after(2) plain len inj] by simp
  moreover have "commit = hex_encode (sha i)" using x before(2) by (simp add: revision_def)
  ultimately show ?thesis using v(2,3) by (auto simp: receipt_verifies_def)
qed

definition demo_tree :: tree where "demo_tree = [([''a''], NFile ''0'')]"

definition demo_commit :: string where
  "demo_commit = hex_encode (pad_sha (CHR ''a'' # char_of (0::nat) # le_bytes 1 @ pad_sha ''0''))"

definition content_receipt :: review_receipt where
  "content_receipt = receipt_new pad_sha ''w9'' ''w2'' ''T-1'' ''cargo'' (ao_arguments demo_obs) (ao_result demo_obs) demo_commit"

definition content_env :: gate_env where
  "content_env = demo_env\<lparr>ge_head_before := \<lambda>_ _. map_sum (\<lambda>_. ''io'') id (revision pad_sha (\<lambda>_. False) (\<lambda>_. False) demo_tree),
     ge_head_after := \<lambda>_ _. map_sum (\<lambda>_. ''io'') id (revision pad_sha (\<lambda>_. False) (\<lambda>_. False) demo_tree),
     ge_verifier := Some \<lparr>vf_verify = \<lambda>_ _. Approve, vf_identity = Some ''w9'', vf_receipt = \<lambda>_ _ _ _ _. Some content_receipt\<rparr>\<rparr>"

lemma hexdigit_graphic: "is_ascii_hexdigit c \<Longrightarrow> is_ascii_graphic c"
  by (auto simp: is_ascii_hexdigit_def is_ascii_graphic_def is_ascii_digit_def)

lemma demo_revision: "revision pad_sha (\<lambda>_. False) (\<lambda>_. False) demo_tree = Inr demo_commit"
  "revision_input pad_sha (\<lambda>_. False) (\<lambda>_. False) demo_tree = Inr (CHR ''a'' # char_of (0::nat) # le_bytes 1 @ pad_sha ''0'')"
  using demo_input [of "CHR ''a''"] by (simp_all add: revision_def demo_tree_def demo_commit_def)

lemma content_passes:
  "gate_passes pad_sha content_env ''T-1'' ''w2'' demo_task (demo_job\<lparr>ja_state := JCompleted\<rparr>) demo_commit demo_obs ''w9'' content_receipt"
proof -
  have ids: "valid_identity ''w9''" "valid_identity ''w2''" "valid_identity ''T-1''" "valid_identity ''cargo''"
    by (rule graphic_identity; simp add: is_ascii_graphic_def)+
  have "demo_commit \<noteq> []" by (simp add: demo_commit_def hex_encode_def pad_sha_def)
  then have com: "valid_identity demo_commit"
    by (rule graphic_identity) (use hexdigit_hex_encode hexdigit_graphic in \<open>auto simp: demo_commit_def list_all_iff\<close>)
  have dig: "is_digest (ao_arguments demo_obs)" "is_digest (ao_result demo_obs)" "is_digest (rv_digest content_receipt)"
    by (simp_all add: demo_obs_def observation_successful_def acceptance_arguments_digest_def acceptance_success_digest_def content_receipt_def
        receipt_new_def expected_digest_def Let_def digest_fields_digest)
  have tool: "ao_tool demo_obs = ''cargo''" "ao_tests demo_obs = 1" by (simp_all add: demo_obs_def observation_successful_def demo_task_def)
  have "receipt_verifies pad_sha content_receipt ''w9'' ''w2'' ''T-1'' (ao_tool demo_obs) (ao_arguments demo_obs) (ao_result demo_obs) demo_commit"
    using ids com dig unfolding receipt_verifies_def by (simp add: content_receipt_def receipt_new_def Let_def expected_digest_def tool)
  then show ?thesis using demo_passes(1) demo_revision(1) by (simp add: gate_passes_def content_env_def demo_env_def demo_job_def demo_task_def)
qed

theorem tested_payload_is_merged_witness:
  "\<exists>m. fst (fst (integrate_job pad_sha content_env ''T-1'' ''w2'' demo_task demo_done)) = Integrated m demo_commit"
proof -
  let ?r = "integrate_job pad_sha content_env ''T-1'' ''w2'' demo_task demo_done"
  have eq: "?r = ((fst (fst ?r), snd (fst ?r)), snd ?r)" by simp
  have "fst ?r = (Integrated ''m'' demo_commit, [QFinish ''T-1''])"
    by (rule gate_passes_finishes [OF demo_passes(2) content_passes]) (simp_all add: content_env_def demo_env_def)
  then have fin: "QFinish ''T-1'' \<in> set (snd (fst ?r))" by simp
  have plain: "plain_tree demo_tree" "nul_free demo_tree"
  proof -
    have "char_of (0::nat) \<noteq> CHR ''a''" by code_simp
    then show "plain_tree demo_tree" "nul_free demo_tree" by (simp_all add: demo_tree_def plain_tree_def plain_path_def bt_inv_def nul_free_def)
  qed
  have "contents demo_tree = {''0''}" by (auto simp: demo_tree_def contents_def files_def bt_get_def ran_def split: if_splits)
  then have inj: "inj_on pad_sha (contents demo_tree \<union> contents demo_tree \<union> {CHR ''a'' # char_of (0::nat) # le_bytes 1 @ pad_sha ''0'', CHR ''a'' # char_of (0::nat) # le_bytes 1 @ pad_sha ''0''})"
    by (simp add: pad_sha_def)
  have "ge_head_before content_env x y = map_sum (\<lambda>_. ''io'') id (revision pad_sha (\<lambda>_. False) (\<lambda>_. False) demo_tree)"
       "ge_head_after content_env x y = map_sum (\<lambda>_. ''io'') id (revision pad_sha (\<lambda>_. False) (\<lambda>_. False) demo_tree)" for x y by (simp_all add: content_env_def)
  from tested_payload_is_merged [OF eq fin demo_passes(2) this(1) demo_revision(2) this(2) demo_revision(2) plain(1,1,2,2) pad_sha_length inj]
  show ?thesis unfolding demo_commit_def by blast
qed

section \<open>A superseded worker closes nothing\<close>

definition about_job :: "string \<Rightarrow> queue_effect \<Rightarrow> bool" where
  "about_job job q = (case q of QFinish j \<Rightarrow> j = job | QReopen j _ \<Rightarrow> j = job)"

lemma merge_effects: "list_all (about_job job) (snd (merge_and_publish env job worktree branch source_sha))"
  by (simp add: merge_and_publish_def about_job_def split: sum.split merge_result.split publication_status.split)

lemma terminal_receipt_other: "j \<noteq> job \<Longrightarrow> get_job (snd (record_terminal_receipt w job f e l)) j = get_job l j"
  by (simp add: record_terminal_receipt_def put_job_get split: option.split)

lemma review_effects:
  "list_all (about_job job) (snd (fst (review_and_merge sha env job branch task a commit obs l)))
   \<and> (j \<noteq> job \<longrightarrow> get_job (snd (review_and_merge sha env job branch task a commit obs l)) j = get_job l j)"
proof -
  have "list_all (about_job job) [QReopen job why]" for why by (simp add: about_job_def)
  moreover have "list_all (about_job job) (snd (merge_and_publish env job (ja_worktree a) branch commit))" by (rule merge_effects)
  moreover have "record_terminal_receipt (ge_write env) job (ja_fence a) e l = (x, l1) \<Longrightarrow> j \<noteq> job \<Longrightarrow> get_job l1 j = get_job l j" for e x l1
    using terminal_receipt_other [of j job "ge_write env" "ja_fence a" e l] by simp
  ultimately show ?thesis unfolding review_and_merge_def Let_def
    by (simp split: option.split review_verdict.split prod.split sum.split)
qed

lemma integrate_effects:
  "list_all (about_job job) (snd (fst (integrate_job sha env job branch task l)))
   \<and> (j \<noteq> job \<longrightarrow> get_job (snd (integrate_job sha env job branch task l)) j = get_job l j)"
proof -
  have "list_all (about_job job) [QReopen job why]" for why by (simp add: about_job_def)
  then show ?thesis using review_effects unfolding integrate_job_def Let_def by (simp split: option.split sum.split)
qed

lemma fenced_other: "j \<noteq> job \<Longrightarrow> get_job (snd (update_fenced w job f g l)) j = get_job l j"
  by (simp add: update_fenced_def put_job_get split: sum.split)

lemma heartbeat_other: "j \<noteq> job \<Longrightarrow> get_job (snd (job_heartbeat w job f t l)) j = get_job l j"
  by (simp add: job_heartbeat_def put_job_get split: option.split)

lemma close_one_other:
  assumes "j \<noteq> jo_job out"
  shows "get_job (snd (close_one sha env claimed fences lease out (c, l))) j = get_job l j
    \<and> (\<exists>qs. cl_effects (fst (close_one sha env claimed fences lease out (c, l))) = cl_effects c @ qs \<and> list_all (about_job (jo_job out)) qs)"
proof (cases "jo_output out")
  case None
  then show ?thesis using assms by (simp add: close_one_def Let_def job_fail_def fenced_other)
next
  case (Some model)
  let ?f = "case bt_get fences (jo_job out) of None \<Rightarrow> 0 | Some f \<Rightarrow> f"
  let ?l = "snd (job_complete (ge_write env) (jo_job out) ?f (snd (record_receipt (ge_write env) (jo_job out) ?f (''executed on '' @ model)
      (snd (job_heartbeat (ge_write env) (jo_job out) ?f lease l)))))"
  have same: "get_job ?l j = get_job l j" using assms by (simp add: job_complete_def record_receipt_def fenced_other heartbeat_other)
  obtain branch task where eq: "close_one sha env claimed fences lease out (c, l) =
      (case integrate_job sha env (jo_job out) branch task ?l of ((o', qs), l4) \<Rightarrow> (c\<lparr>cl_gated := cl_gated c @ [(jo_job out, o')], cl_effects := cl_effects c @ qs\<rparr>, l4))"
    using Some unfolding close_one_def Let_def by simp
  obtain o' qs l4 where i: "integrate_job sha env (jo_job out) branch task ?l = ((o', qs), l4)" by (metis prod.collapse)
  have "list_all (about_job (jo_job out)) qs \<and> (j \<noteq> jo_job out \<longrightarrow> get_job l4 j = get_job ?l j)"
    using integrate_effects [of "jo_job out" sha env branch task ?l j] unfolding i fst_conv snd_conv .
  then show ?thesis using assms unfolding eq i same by simp
qed

lemma close_one_stale:
  assumes a: "get_job l j = Some a" "ja_state a \<noteq> JCompleted" and f: "(case bt_get fences j of None \<Rightarrow> 0 | Some f \<Rightarrow> f) \<noteq> ja_fence a"
    and j: "jo_job out = j"
  shows "get_job (snd (close_one sha env claimed fences lease out (c, l))) j = Some a
    \<and> cl_effects (fst (close_one sha env claimed fences lease out (c, l))) = cl_effects c"
proof -
  note st = stale_refused [OF a(1) f [symmetric]]
  have "integrate_job sha env j branch task l = ((NotCompleted (Some (ja_state a)), []), l)" for branch task
    using a by (simp add: integrate_job_def)
  then show ?thesis using a(1) by (cases "jo_output out") (simp_all add: close_one_def j Let_def st)
qed



section \<open>Union merges\<close>

lemma keep_first_set: "set (keep_first seen xs) = set xs - set seen" "distinct (keep_first seen xs)"
  by (induction xs arbitrary: seen) auto

lemma join_ne: "ls \<noteq> [] \<Longrightarrow> (\<And>l. l \<in> set ls \<Longrightarrow> l \<noteq> []) \<Longrightarrow> join sep ls \<noteq> []"
  by (cases ls; cases "tl ls") (auto simp: join_Cons)

text \<open>A union merge of text records loses no line: reading the result back gives each non-blank line of the three sources, once.\<close>

lemma union_merge_keeps_lines:
  assumes "\<forall>s \<in> {base, ours, theirs}. list_all plain_line (str_lines s)"
  shows "set (str_lines (union_merge_lines base ours theirs)) = {line. (\<exists>s \<in> {base, ours, theirs}. line \<in> set (str_lines s)) \<and> trim line \<noteq> []}"
    and "distinct (str_lines (union_merge_lines base ours theirs))"
proof -
  let ?ls = "keep_first [] (filter (\<lambda>line. trim line \<noteq> []) (concat (map str_lines [base, ours, theirs])))"
  have plain: "list_all plain_line ?ls" using assms by (auto simp: list_all_iff keep_first_set)
  have ne: "l \<noteq> []" if "l \<in> set ?ls" for l
  proof
    assume "l = []"
    then have "trim l = []" using trim_graphic [of "[]"] by simp
    then show False using that by (simp add: keep_first_set)
  qed
  have "str_lines (union_merge_lines base ours theirs) = ?ls"
  proof (cases "?ls = []")
    case True
    then show ?thesis by (simp add: union_merge_lines_def Let_def str_lines_def)
  next
    case False
    have "join [newline_char] ?ls \<noteq> []" by (rule join_ne [OF False]) (use ne in blast)
    then have "union_merge_lines base ours theirs = join [newline_char] ?ls @ [newline_char]" unfolding union_merge_lines_def Let_def by simp
    then show ?thesis using join_terminated [OF False] str_lines_terminated [OF plain] by simp
  qed
  then show "set (str_lines (union_merge_lines base ours theirs)) = {line. (\<exists>s \<in> {base, ours, theirs}. line \<in> set (str_lines s)) \<and> trim line \<noteq> []}"
    "distinct (str_lines (union_merge_lines base ours theirs))" by (auto simp: keep_first_set)
qed

text \<open>The merge of JSON records does lose entries: of two with one id the later is dropped, though the comment says both are kept.\<close>

lemma json_union_drops_collision:
  "union_merge_json_array show_json (JArray []) (JArray [JObject [(''id'', JString ''x''), (''by'', JString ''a'')]])
     (JArray [JObject [(''id'', JString ''x''), (''by'', JString ''b'')]])
   = JArray [JObject [(''id'', JString ''x''), (''by'', JString ''a'')]]"
  by (simp add: union_merge_json_array_def item_key_def str_field_def)

end
