(* ===== verification/Commit_Sync.thy ===== *)
theory Commit_Sync
  imports Commit_Seal Job_Ledger
begin

text \<open>
  Catching up with a peer: \<open>crates/susi-gawd-swarm/src/anti_entropy.rs\<close> (cursors and the bounded sweep),
  \<open>sync_commit_ledger_from\<close> of \<open>amas.rs\<close> (the callbacks of the sweep over the commit ledger, and the push of what the peer
  lacks) and the tool \<open>commit_log_fetch\<close> of \<open>crates/susi-gmcp/src/tools/core.rs\<close>, which serves the pages. Offsets and counts are
  \<open>nat\<close>; the text of a record (\<open>serde_json\<close>) is an argument, and so is what the network does to each call.
\<close>

section \<open>Cursors\<close>

record catch_up_cursor =
  cc_offset :: nat
  cc_applied :: u64
  cc_complete :: bool

type_synonym catch_up_book = "(string, catch_up_cursor) btree_map"

definition cursor_default :: catch_up_cursor where
  "cursor_default = \<lparr>cc_offset = 0, cc_applied = 0, cc_complete = False\<rparr>"

definition resume_offset :: "catch_up_book \<Rightarrow> string \<Rightarrow> nat" where
  "resume_offset book peer =
     (case bt_get book peer of Some c \<Rightarrow> if \<not> cc_complete c then cc_offset c else 0 | None \<Rightarrow> 0)"

definition mark_batch :: "string \<Rightarrow> nat \<Rightarrow> u64 \<Rightarrow> bool \<Rightarrow> catch_up_book \<Rightarrow> catch_up_book" where
  "mark_batch peer offset applied tip book =
     (let c = (case bt_get book peer of None \<Rightarrow> cursor_default | Some c \<Rightarrow> c)
      in bt_insert peer (c\<lparr>cc_offset := offset, cc_applied := cc_applied c + applied, cc_complete := tip\<rparr>) book)"

text \<open>The file of the cursors: a file that is absent or does not parse is an empty book, and a failed write is not reported.\<close>

datatype book_file = NoBook | BookFile catch_up_book

definition load_book :: "book_file \<Rightarrow> catch_up_book" where
  "load_book f = (case f of NoBook \<Rightarrow> [] | BookFile b \<Rightarrow> b)"

definition save_book :: "write_result \<Rightarrow> catch_up_book \<Rightarrow> book_file \<Rightarrow> book_file" where
  "save_book w book f = (case w of WriteOk \<Rightarrow> BookFile book | WriteFails \<Rightarrow> f | WriteTears \<Rightarrow> NoBook)"

section \<open>The bounded sweep\<close>

record catch_up_bounds =
  cb_batch :: nat
  cb_apply :: nat
  cb_scan :: nat

definition bounds_default :: catch_up_bounds where
  "bounds_default = \<lparr>cb_batch = 256, cb_apply = 512, cb_scan = 4096\<rparr>"

record sweep_outcome =
  so_scanned :: nat
  so_applied :: nat
  so_converged :: bool
  so_needs_more :: bool

text \<open>The callbacks of a sweep over records \<open>'r\<close>, acting on the state \<open>'s\<close> they share.\<close>

record ('r, 's) sweep_io =
  io_fetch :: "nat \<Rightarrow> nat \<Rightarrow> 's \<Rightarrow> 'r list \<times> 's"
  io_admit :: "'r \<Rightarrow> 's \<Rightarrow> bool \<times> 's"
  io_apply :: "'r list \<Rightarrow> 's \<Rightarrow> 's"
  io_note :: "'r \<Rightarrow> 's \<Rightarrow> 's"

fun scan_page :: "('r, 's) sweep_io \<Rightarrow> 'r list \<Rightarrow> 's \<Rightarrow> 'r list \<times> 's" where
  "scan_page io [] s = ([], s)"
| "scan_page io (r # rs) s =
     (case io_admit io r (io_note io r s) of
        (ok, s1) \<Rightarrow> (case scan_page io rs s1 of (batch, s2) \<Rightarrow> ((if ok then r # batch else batch), s2)))"

definition land_page :: "('r, 's) sweep_io \<Rightarrow> 'r list \<Rightarrow> 's \<Rightarrow> nat \<times> 's" where
  "land_page io page s =
     (case scan_page io page s of (batch, s1) \<Rightarrow> (length batch, if batch \<noteq> [] then io_apply io batch s1 else s1))"

function sweep_loop ::
  "('r, 's) sweep_io \<Rightarrow> catch_up_bounds \<Rightarrow> string \<Rightarrow> nat \<Rightarrow> nat \<Rightarrow> nat \<Rightarrow> catch_up_book \<Rightarrow> 's \<Rightarrow> sweep_outcome \<times> catch_up_book \<times> 's" where
  "sweep_loop io b peer offset scanned applied book s =
     (case io_fetch io offset (cb_batch b) s of
        (page, s1) \<Rightarrow>
          if page = [] then
            (\<lparr>so_scanned = scanned, so_applied = applied, so_converged = True, so_needs_more = False\<rparr>,
             mark_batch peer offset 0 True book, s1)
          else
            (case land_page io page s1 of
               (n, s2) \<Rightarrow>
                 let offset' = offset + length page;
                     scanned' = scanned + length page;
                     applied' = applied + n;
                     book' = mark_batch peer offset' (of_nat n) False book;
                     tip = length page < cb_batch b
                 in if tip \<or> cb_apply b \<le> applied' \<or> cb_scan b \<le> scanned' then
                      (\<lparr>so_scanned = scanned', so_applied = applied', so_converged = tip, so_needs_more = \<not> tip\<rparr>,
                       mark_batch peer offset' 0 tip book', s2)
                    else sweep_loop io b peer offset' scanned' applied' book' s2))"
  by pat_completeness auto
termination
  by (relation "measure (\<lambda>(io, b, peer, offset, scanned, applied, book, s). cb_scan b - scanned)")
    (auto simp flip: length_greater_0_conv)

definition bounded_sweep ::
  "('r, 's) sweep_io \<Rightarrow> catch_up_bounds \<Rightarrow> string \<Rightarrow> catch_up_book \<Rightarrow> 's \<Rightarrow> sweep_outcome \<times> catch_up_book \<times> 's" where
  "bounded_sweep io b peer book s = sweep_loop io b peer (resume_offset book peer) 0 0 book s"

section \<open>The sweep over a commit ledger\<close>

definition commit_log_fetch :: "string option \<Rightarrow> u64 option \<Rightarrow> nat option \<Rightarrow> nat option \<Rightarrow> node \<Rightarrow> commit_record list" where
  "commit_log_fetch coordinator from_seq limit offset nd =
     take (min (case limit of None \<Rightarrow> 500 | Some n \<Rightarrow> n) 1000)
       (drop (case offset of None \<Rightarrow> 0 | Some n \<Rightarrow> n)
         (filter (\<lambda>r. (case coordinator of None \<Rightarrow> True | Some c \<Rightarrow> cr_coordinator r = c)
                     \<and> (case from_seq of None \<Rightarrow> 1 | Some n \<Rightarrow> n) \<le> cr_seq r)
           (nd_ledger nd @ nd_archive nd)))"

definition newest_first :: "commit_record list \<Rightarrow> commit_record list" where
  "newest_first = sort_key (\<lambda>r. - uint (cr_seq r))"

record sync_state =
  sy_node :: node
  sy_seen :: "string set"

definition held_keys :: "(commit_record \<Rightarrow> string option) \<Rightarrow> node \<Rightarrow> string set" where
  "held_keys json nd = set (List.map_filter json (nd_ledger nd @ nd_archive nd))"

definition record_key :: "(commit_record \<Rightarrow> string option) \<Rightarrow> commit_record \<Rightarrow> string" where
  "record_key json r = (case json r of None \<Rightarrow> [] | Some k \<Rightarrow> k)"

definition sync_fetch :: "(nat \<Rightarrow> nat \<Rightarrow> commit_record list option) \<Rightarrow> nat \<Rightarrow> nat \<Rightarrow> commit_record list" where
  "sync_fetch reply offset limit = (case reply offset limit of None \<Rightarrow> [] | Some rs \<Rightarrow> newest_first rs)"

definition sync_admit ::
  "cluster_env \<Rightarrow> locks \<Rightarrow> u64 \<Rightarrow> (commit_record \<Rightarrow> string option) \<Rightarrow> string set \<Rightarrow> commit_record \<Rightarrow> node \<Rightarrow> bool \<times> node" where
  "sync_admit E lk now json held r nd =
     (if \<not> verify_record E now (nd_keys nd) r then (False, nd)
      else let nd1 = (if coordinator_known E nd r then nd\<lparr>nd_term := snd (check_term_at (lk_term lk) now r (nd_term nd))\<rparr> else nd)
           in if \<not> member_coordinator_known E nd1 r then (False, nd1) else (record_key json r \<notin> held, nd1))"

definition sync_io ::
  "cluster_env \<Rightarrow> locks \<Rightarrow> u64 \<Rightarrow> (commit_record \<Rightarrow> string option) \<Rightarrow> string set \<Rightarrow> (nat \<Rightarrow> nat \<Rightarrow> commit_record list option)
    \<Rightarrow> (commit_record, sync_state) sweep_io" where
  "sync_io E lk now json held reply =
     \<lparr>io_fetch = (\<lambda>offset limit s. (sync_fetch reply offset limit, s)),
      io_admit = (\<lambda>r s. map_prod id (\<lambda>nd. s\<lparr>sy_node := nd\<rparr>) (sync_admit E lk now json held r (sy_node s))),
      io_apply = (\<lambda>batch s. s\<lparr>sy_node := snd (append_many_to E lk now batch (sy_node s))\<rparr>),
      io_note = (\<lambda>r s. case json r of None \<Rightarrow> s | Some k \<Rightarrow> s\<lparr>sy_seen := insert k (sy_seen s)\<rparr>)\<rparr>"

section \<open>The push of what the peer lacks\<close>

text \<open>A call reaches the peer or not, and its answer comes back or not.\<close>

datatype call_fate = CallLost | CallUnanswered | CallAnswered

definition to_push :: "catch_up_bounds \<Rightarrow> (commit_record \<Rightarrow> string option) \<Rightarrow> string set \<Rightarrow> node \<Rightarrow> commit_record list" where
  "to_push b json seen nd =
     take (cb_apply b) (sort_key cr_seq (filter (\<lambda>r. record_key json r \<notin> seen) (nd_ledger nd @ nd_archive nd)))"

definition push_batch :: "cluster_env \<Rightarrow> locks \<Rightarrow> u64 \<Rightarrow> call_fate \<Rightarrow> commit_record list \<Rightarrow> node \<Rightarrow> bool \<times> node" where
  "push_batch E lk now fate rs nd =
     (if fate = CallLost then (False, nd)
      else case commit_records_tool E lk now rs nd of
             (res, nd') \<Rightarrow> (fate = CallAnswered \<and> (case res of Inl _ \<Rightarrow> False | Inr _ \<Rightarrow> True), nd'))"

definition push_one ::
  "cluster_env \<Rightarrow> locks \<Rightarrow> u64 \<Rightarrow> (commit_record \<Rightarrow> string option) \<Rightarrow> (commit_record \<Rightarrow> call_fate) \<Rightarrow> commit_record \<Rightarrow> node \<Rightarrow> node" where
  "push_one E lk now json fate r nd =
     (if json r = None \<or> fate r = CallLost then nd else snd (commit_record_tool E lk now r nd))"

definition push_repair ::
  "cluster_env \<Rightarrow> locks \<Rightarrow> u64 \<Rightarrow> (commit_record \<Rightarrow> string option) \<Rightarrow> call_fate \<Rightarrow> (commit_record \<Rightarrow> call_fate) \<Rightarrow> commit_record list \<Rightarrow> node \<Rightarrow> node" where
  "push_repair E lk now json batch_fate fate rs nd =
     (let (ok, nd1) = (if rs \<noteq> [] \<and> length rs \<le> 1000 then push_batch E lk now batch_fate rs nd else (False, nd))
      in if ok then nd1 else fold (push_one E lk now json fate) rs nd1)"

section \<open>One sync with a peer\<close>

record sync_world =
  sw_book :: book_file
  sw_local :: node
  sw_peer :: node

record sync_call =
  sc_now :: u64
  sc_peer_now :: u64
  sc_fetch :: "nat \<Rightarrow> bool"
  sc_batch :: call_fate
  sc_push :: "commit_record \<Rightarrow> call_fate"
  sc_save :: write_result

definition peer_reply :: "sync_call \<Rightarrow> node \<Rightarrow> nat \<Rightarrow> nat \<Rightarrow> commit_record list option" where
  "peer_reply call peer offset limit =
     (if sc_fetch call offset then Some (commit_log_fetch None None (Some limit) (Some offset) peer) else None)"

definition sync_commit_ledger_from ::
  "cluster_env \<Rightarrow> locks \<Rightarrow> cluster_env \<Rightarrow> locks \<Rightarrow> (commit_record \<Rightarrow> string option) \<Rightarrow> string \<Rightarrow> sync_call \<Rightarrow> sync_world \<Rightarrow> sync_world" where
  "sync_commit_ledger_from E lk E' lk' json addr call w =
     (let held = held_keys json (sw_local w);
          bounds = bounds_default;
          (out, book, s) = bounded_sweep (sync_io E lk (sc_now call) json held (peer_reply call (sw_peer w))) bounds addr
                             (load_book (sw_book w)) \<lparr>sy_node = sw_local w, sy_seen = {}\<rparr>;
          rs = to_push bounds json (sy_seen s) (sy_node s)
      in \<lparr>sw_book = save_book (sc_save call) book (sw_book w), sw_local = sy_node s,
          sw_peer = push_repair E' lk' (sc_peer_now call) json (sc_batch call) (sc_push call) rs (sw_peer w)\<rparr>)"

end
