(* ===== verification/Commit_Sync_Run.thy ===== *)
theory Commit_Sync_Run
  imports Commit_Sync
begin

text \<open>
  What catching up with a peer achieves: a sweep stays within its bounds and leaves a cursor behind which every record has been
  seen to, and a sequence of syncs from a fresh cursor ends with every numbered record of the peer held.
\<close>

section \<open>A sweep over a source that serves pages\<close>

lemma mark_batch_get:
  "bt_get (mark_batch peer offset n tip book) p =
     (if p = peer
      then Some \<lparr>cc_offset = offset, cc_applied = cc_applied (case bt_get book peer of None \<Rightarrow> cursor_default | Some c \<Rightarrow> c) + n, cc_complete = tip\<rparr>
      else bt_get book p)"
  by (cases "case bt_get book peer of None \<Rightarrow> cursor_default | Some c \<Rightarrow> c") (auto simp: mark_batch_def Let_def bt_get_insert)

lemma scan_page_length: "scan_page io page s = (batch, s') \<Longrightarrow> length batch \<le> length page"
  by (induction page arbitrary: s batch) (auto split: prod.splits simp: le_SucI)

lemma land_page_count: "land_page io page s = (n, s') \<Longrightarrow> n \<le> length page"
  using scan_page_length by (fastforce simp: land_page_def split: prod.splits)

locale paged_source =
  fixes io :: "('r, 's) sweep_io" and b :: catch_up_bounds and rs :: "'r list"
    and inv :: "'s \<Rightarrow> bool" and settled :: "'r \<Rightarrow> 's \<Rightarrow> bool"
  assumes batch: "0 < cb_batch b"
    and serves: "inv s \<Longrightarrow> \<exists>page. io_fetch io offset (cb_batch b) s = (page, s) \<and> length page = min (cb_batch b) (length rs - offset)
      \<and> set page = set (take (cb_batch b) (drop offset rs))"
    and lands: "inv s \<Longrightarrow> set page \<subseteq> set rs \<Longrightarrow> inv (snd (land_page io page s))"
    and settles: "inv s \<Longrightarrow> set page \<subseteq> set rs \<Longrightarrow> r \<in> set page \<Longrightarrow> settled r (snd (land_page io page s))"
    and keeps: "inv s \<Longrightarrow> set page \<subseteq> set rs \<Longrightarrow> settled r s \<Longrightarrow> settled r (snd (land_page io page s))"
begin

definition behind :: "nat \<Rightarrow> 's \<Rightarrow> bool" where
  "behind offset s \<longleftrightarrow> (\<forall>r\<in>set (take offset rs). settled r s)"

lemma sweep_loop_sound:
  assumes "sweep_loop io b peer offset scanned applied book s = (out, book', s')"
    and "inv s" "behind offset s" "offset \<le> length rs" "scanned < max 1 (cb_scan b)" "applied < max 1 (cb_apply b)"
  shows "inv s' \<and> (\<exists>c. bt_get book' peer = Some c \<and> cc_offset c \<le> length rs \<and> behind (cc_offset c) s' \<and> cc_complete c = so_converged out
      \<and> (cc_complete c \<longrightarrow> cc_offset c = length rs) \<and> (\<not> cc_complete c \<longrightarrow> offset + cb_batch b \<le> cc_offset c))
    \<and> (\<forall>p. p \<noteq> peer \<longrightarrow> bt_get book' p = bt_get book p)
    \<and> so_scanned out < max 1 (cb_scan b) + cb_batch b \<and> so_applied out < max 1 (cb_apply b) + cb_batch b
    \<and> so_needs_more out = (\<not> so_converged out)"
  using assms
proof (induction "cb_scan b - scanned" arbitrary: offset scanned applied book s rule: less_induct)
  case less
  obtain page where page: "io_fetch io offset (cb_batch b) s = (page, s)" "length page = min (cb_batch b) (length rs - offset)"
    "set page = set (take (cb_batch b) (drop offset rs))"
    using serves [OF less.prems(2)] by blast
  show ?case
  proof (cases "page = []")
    case True
    then have "offset = length rs" using page(2) batch less.prems(4) by simp
    moreover have "out = \<lparr>so_scanned = scanned, so_applied = applied, so_converged = True, so_needs_more = False\<rparr>"
      "book' = mark_batch peer offset 0 True book" "s' = s" using less.prems(1) True page(1) by auto
    ultimately show ?thesis using less.prems batch by (simp add: mark_batch_get)
  next
    case False
    obtain n s2 where land: "land_page io page s = (n, s2)" by (metis surj_pair)
    let ?o = "offset + length page" and ?tip = "length page < cb_batch b"
    have sub: "set page \<subseteq> set rs" unfolding page(3) by (meson set_drop_subset set_take_subset subset_trans)
    have tk: "set (take ?o rs) = set (take offset rs) \<union> set page"
      unfolding page(2,3) take_add set_append
      by (cases "cb_batch b \<le> length rs - offset") (simp_all add: min_def)
    have inv: "inv s2" and bh: "behind ?o s2"
      using lands [OF less.prems(2) sub] settles [OF less.prems(2) sub] keeps [OF less.prems(2) sub] less.prems(3) land
      unfolding behind_def tk by auto
    have n: "n \<le> length page" by (rule land_page_count [OF land])
    have le: "?o \<le> length rs" "length page \<le> cb_batch b" "?tip \<longrightarrow> ?o = length rs" using page(2) less.prems(4) by auto
    let ?book = "mark_batch peer ?o (of_nat n) False book"
    show ?thesis
    proof (cases "?tip \<or> cb_apply b \<le> applied + n \<or> cb_scan b \<le> scanned + length page")
      case True
      then have r: "out = \<lparr>so_scanned = scanned + length page, so_applied = applied + n, so_converged = ?tip, so_needs_more = \<not> ?tip\<rparr>"
        "book' = mark_batch peer ?o 0 ?tip ?book" "s' = s2"
        using less.prems(1) page(1) False land by (auto simp: Let_def)
      show ?thesis using r inv bh le n less.prems(5,6) by (simp add: mark_batch_get max_def split: if_splits)
    next
      case False
      then have r: "sweep_loop io b peer ?o (scanned + length page) (applied + n) ?book s2 = (out, book', s')"
        using less.prems(1) page(1) \<open>page \<noteq> []\<close> land by (subst (asm) sweep_loop.simps) (simp add: Let_def)
      have "0 < length page" using \<open>page \<noteq> []\<close> by simp
      then have dec: "cb_scan b - (scanned + length page) < cb_scan b - scanned" using False by linarith
      have lt: "scanned + length page < max 1 (cb_scan b)" "applied + n < max 1 (cb_apply b)" using False by auto
      from less.hyps [OF dec r inv bh le(1) lt] show ?thesis by (auto simp: mark_batch_get)
    qed
  qed
qed

lemma bounded_sweep_sound:
  assumes "bounded_sweep io b peer book s = (out, book', s')" and "inv s" "behind (resume_offset book peer) s" "resume_offset book peer \<le> length rs"
  shows "inv s'" "behind (resume_offset book' peer) s'" "resume_offset book' peer \<le> length rs"
    "so_converged out \<Longrightarrow> resume_offset book' peer = 0 \<and> behind (length rs) s'"
    "\<not> so_converged out \<Longrightarrow> resume_offset book peer + cb_batch b \<le> resume_offset book' peer"
    "p \<noteq> peer \<Longrightarrow> bt_get book' p = bt_get book p"
    "so_scanned out < max 1 (cb_scan b) + cb_batch b" "so_applied out < max 1 (cb_apply b) + cb_batch b" "so_needs_more out = (\<not> so_converged out)"
proof -
  have pos: "(0::nat) < max 1 m" for m by simp
  note S = sweep_loop_sound [OF assms(1) [unfolded bounded_sweep_def] assms(2-4) pos pos]
  from S obtain c where c: "bt_get book' peer = Some c" "cc_offset c \<le> length rs" "behind (cc_offset c) s'" "cc_complete c = so_converged out"
    "cc_complete c \<longrightarrow> cc_offset c = length rs" "\<not> cc_complete c \<longrightarrow> resume_offset book peer + cb_batch b \<le> cc_offset c" by blast
  have r: "resume_offset book' peer = (if so_converged out then 0 else cc_offset c)" by (simp add: resume_offset_def c)
  show "inv s'" "p \<noteq> peer \<Longrightarrow> bt_get book' p = bt_get book p" "so_scanned out < max 1 (cb_scan b) + cb_batch b"
    "so_applied out < max 1 (cb_apply b) + cb_batch b" "so_needs_more out = (\<not> so_converged out)" using S by blast+
  show "behind (resume_offset book' peer) s'" "resume_offset book' peer \<le> length rs"
    "so_converged out \<Longrightarrow> resume_offset book' peer = 0 \<and> behind (length rs) s'"
    "\<not> so_converged out \<Longrightarrow> resume_offset book peer + cb_batch b \<le> resume_offset book' peer"
    using c unfolding r by (auto simp: behind_def)
qed

end

section \<open>Pages of the commit ledger\<close>

definition node_records :: "node \<Rightarrow> commit_record set" where
  "node_records nd = set (nd_ledger nd) \<union> set (nd_archive nd)"

text \<open>Records that fit into one history: a number of a coordinator stands for one record, and a record that names its predecessor
  names the one of the number before it.\<close>

definition one_history :: "commit_record set \<Rightarrow> bool" where
  "one_history U \<longleftrightarrow> (\<forall>r\<in>U. \<forall>s\<in>U. (slot r = slot s \<and> 0 < cr_seq r \<longrightarrow> r = s)
     \<and> (slot s = (cr_coordinator r, cr_seq r - 1) \<and> 1 < cr_seq r \<and> cr_prev_epoch r \<noteq> [] \<longrightarrow> cr_epoch s = cr_prev_epoch r))"

lemma one_historyD:
  assumes "one_history U" "r \<in> U" "s \<in> U"
  shows "slot r = slot s \<Longrightarrow> 0 < cr_seq r \<Longrightarrow> r = s"
    "slot s = (cr_coordinator r, cr_seq r - 1) \<Longrightarrow> 1 < cr_seq r \<Longrightarrow> cr_prev_epoch r \<noteq> [] \<Longrightarrow> cr_epoch s = cr_prev_epoch r"
  using assms by (simp_all add: one_history_def)

text \<open>A decision (not a change of membership or key) that verifies under the current key and is attributed as its coordinator's
  bound key demands.\<close>

definition sound_decision :: "cluster_env \<Rightarrow> u64 \<Rightarrow> node \<Rightarrow> commit_record \<Rightarrow> bool" where
  "sound_decision E now nd r \<longleftrightarrow> cr_kind r = [] \<and> verify_key_epoch E now (nd_keys nd) r = Some Current \<and> attribution_valid E nd r"

definition same_authority :: "node \<Rightarrow> node \<Rightarrow> bool" where
  "same_authority nd nd' \<longleftrightarrow> nd_keys nd' = nd_keys nd \<and> nd_peers nd' = nd_peers nd"

lemma sound_decision_cong: "same_authority nd nd' \<Longrightarrow> sound_decision E now nd' r = sound_decision E now nd r"
  by (simp add: sound_decision_def same_authority_def attribution_valid_def bound_pubkey_at_def peer_rows_def)

lemma decision_unprivileged:
  assumes "cr_kind r = []"
  shows "member_delta r = None" "rekey_fingerprint C r = None" "\<not> privileged_kind_name (cr_kind r)" "cr_kind r \<noteq> KIND_CLUSTER_REKEY_ACTIVATE"
  using assms by (simp_all add: member_delta_def rekey_fingerprint_def kinds privileged_kind_name_def)

lemma decision_written: "cr_kind r = [] \<Longrightarrow> write_record E locked now r nd = nd\<lparr>nd_ledger := nd_ledger nd @ [r]\<rparr>"
  by (simp add: write_record_def Let_def decision_unprivileged apply_member_delta_def)

lemma find_slot: "List.find (in_slot c n) xs = Some x \<Longrightarrow> x \<in> set xs \<and> slot x = (c, n)"
  by (auto simp: find_Some_iff in_slot_iff)

lemma append_decision:
  assumes hist: "one_history U" and sub: "node_records nd \<subseteq> U" "r \<in> U" and snd: "sound_decision E now nd r"
  shows "node_records (snd (append_checked E locked now r nd)) = insert r (node_records nd)"
    "same_authority nd (snd (append_checked E locked now r nd))"
proof -
  have same: "x = r" if "x \<in> node_records nd" "slot x = slot r" "0 < cr_seq r" for x
    using one_historyD(1) [OF hist sub(2), of x] sub(1) that by auto
  have h: "v = Inr () \<and> r \<in> node_records nd" if v: "held_verdict nd r = Some v" for v
  proof (cases "0 < cr_seq r")
    case True
    then obtain x where x: "List.find (in_slot (cr_coordinator r) (cr_seq r)) (nd_ledger nd) = Some x" "v = (if x = r then Inr () else Inl EquivocationHeld)"
      using v by (auto simp: held_verdict_def split: option.splits)
    from find_slot [OF x(1)] have "x \<in> node_records nd" "slot x = slot r" by (simp_all add: node_records_def slot_def)
    then show ?thesis using same True x(2) by auto
  qed (use v in \<open>auto simp: held_verdict_def node_records_def split: if_splits\<close>)
  have a: "v = Inr () \<and> r \<in> node_records nd" if v: "archive_verdict nd r = Some v" for v
  proof -
    obtain x where x: "0 < cr_seq r" "List.find (in_slot (cr_coordinator r) (cr_seq r)) (nd_archive nd) = Some x"
      "v = (if x = r then Inr () else Inl EquivocationArchived)"
      using v by (auto simp: archive_verdict_def find_in_archive_def split: option.splits if_splits)
    from find_slot [OF x(2)] have "x \<in> node_records nd" "slot x = slot r" by (simp_all add: node_records_def slot_def)
    then show ?thesis using same x(1,3) by auto
  qed
  have "chain_ok (nd_ledger nd) r"
  proof (cases "List.find (in_slot (cr_coordinator r) (cr_seq r - 1)) (nd_ledger nd)")
    case (Some x)
    from find_slot [OF this] have x: "x \<in> U" "slot x = (cr_coordinator r, cr_seq r - 1)" using sub(1) by (auto simp: node_records_def)
    show ?thesis unfolding chain_ok_def using Some one_historyD(2) [OF hist sub(2) x] by simp
  qed (simp add: chain_ok_def)
  then have g: "gate E now nd r = None"
    using snd by (simp add: gate_def sound_decision_def endorsements_satisfied_at_tip_def decision_unprivileged privileged_kind_name_def kinds subject_attestation_valid_def)
  have k: "cr_kind r = []" using snd by (simp add: sound_decision_def)
  consider (held) "snd (append_checked E locked now r nd) = nd" "r \<in> node_records nd"
    | (new) "snd (append_checked E locked now r nd) = write_record E locked now r nd"
  proof (cases "held_verdict nd r")
    case (Some v)
    then show thesis using h [OF Some] that(1) by (simp add: append_checked_def)
  next
    case None
    then show thesis using a g that by (cases "archive_verdict nd r") (simp_all add: append_checked_def)
  qed
  then show "node_records (snd (append_checked E locked now r nd)) = insert r (node_records nd)"
    "same_authority nd (snd (append_checked E locked now r nd))"
    by (cases; auto simp: decision_written [OF k] node_records_def same_authority_def)+
qed

lemma append_decisions:
  assumes "one_history U" "node_records nd \<subseteq> U" "set rs \<subseteq> U" "\<forall>r\<in>set rs. sound_decision E now nd r"
  shows "node_records (snd (append_loop E locked now rs nd)) = set rs \<union> node_records nd \<and> same_authority nd (snd (append_loop E locked now rs nd))"
  using assms(2-)
proof (induction rs arbitrary: nd)
  case Nil
  then show ?case by (simp add: same_authority_def)
next
  case (Cons r rs)
  obtain res nd1 where step: "append_checked E locked now r nd = (res, nd1)" by (metis surj_pair)
  have 1: "node_records nd1 = insert r (node_records nd)" "same_authority nd nd1"
    using append_decision [OF assms(1) Cons.prems(1), of r E now locked] Cons.prems(2,3) step by simp_all
  have "node_records (snd (append_loop E locked now rs nd1)) = set rs \<union> node_records nd1 \<and> same_authority nd1 (snd (append_loop E locked now rs nd1))"
    by (rule Cons.IH) (use 1 Cons.prems in \<open>auto simp: sound_decision_cong\<close>)
  moreover have "snd (append_loop E locked now (r # rs) nd) = snd (append_loop E locked now rs nd1)" by (simp add: step split: prod.split)
  ultimately show ?case using 1 by (simp add: same_authority_def)
qed

definition served :: "node \<Rightarrow> commit_record list" where
  "served peer = filter (\<lambda>r. 1 \<le> cr_seq r) (nd_ledger peer @ nd_archive peer)"

text \<open>What holds while node \<open>nd0\<close> pulls from the peer: all records fit into one history, and those the node did not hold at
  the start are sound decisions.\<close>

definition pulling ::
  "cluster_env \<Rightarrow> locks \<Rightarrow> (commit_record \<Rightarrow> string option) \<Rightarrow> node \<Rightarrow> sync_call \<Rightarrow> node \<Rightarrow> commit_record set \<Rightarrow> sync_state \<Rightarrow> bool" where
  "pulling E lk json nd0 call peer U s \<longleftrightarrow>
     lk_ledger lk \<and> (\<forall>n. sc_fetch call n) \<and> one_history U \<and> (\<forall>r\<in>U. json r \<noteq> None) \<and> inj_on json U \<and> set (served peer) \<subseteq> U
   \<and> (\<forall>r\<in>set (served peer). r \<in> node_records nd0 \<or> sound_decision E (sc_now call) nd0 r)
   \<and> node_records nd0 \<subseteq> node_records (sy_node s) \<and> node_records (sy_node s) \<subseteq> U \<and> same_authority nd0 (sy_node s)"

lemma key_held:
  assumes "\<forall>r\<in>U. json r \<noteq> None" "inj_on json U" "node_records nd \<subseteq> U" "r \<in> U"
  shows "record_key json r \<in> held_keys json nd \<longleftrightarrow> r \<in> node_records nd"
proof -
  obtain k where k: "json r = Some k" using assms(1,4) by auto
  have "(\<exists>x\<in>node_records nd. json x = Some k) \<longleftrightarrow> r \<in> node_records nd"
    using k assms inj_onD [OF assms(2), of r] by (metis subsetD)
  then show ?thesis unfolding held_keys_def record_key_def List.map_filter_def k node_records_def by (force simp: image_iff)
qed

lemma same_authority_refl [simp]: "same_authority nd nd"
  by (simp add: same_authority_def)

lemma same_authority_trans [trans]: "same_authority a b \<Longrightarrow> same_authority b c \<Longrightarrow> same_authority a c"
  by (simp add: same_authority_def)

lemma term_frame [simp]: "node_records (nd\<lparr>nd_term := t\<rparr>) = node_records nd" "same_authority nd0 (nd\<lparr>nd_term := t\<rparr>) = same_authority nd0 nd"
  by (simp_all add: node_records_def same_authority_def)

lemma sync_admit_frame:
  "node_records (snd (sync_admit E lk now json held r nd)) = node_records nd" "same_authority nd (snd (sync_admit E lk now json held r nd))"
  by (simp_all add: sync_admit_def Let_def)

lemma sync_admit_iff:
  assumes "pulling E lk json nd0 call peer U s" "r \<in> set (served peer)"
  shows "fst (sync_admit E lk (sc_now call) json (held_keys json nd0) r (sy_node s)) \<longleftrightarrow> r \<notin> node_records nd0"
proof -
  have r: "r \<in> U" "node_records nd0 \<subseteq> U" "\<forall>r\<in>U. json r \<noteq> None" "inj_on json U" "r \<in> node_records nd0 \<or> sound_decision E (sc_now call) nd0 r"
    "same_authority nd0 (sy_node s)"
    using assms unfolding pulling_def by blast+
  note key = key_held [OF r(3,4,2,1)]
  have "verify_record E (sc_now call) (nd_keys (sy_node s)) r \<and> \<not> privileged_kind (ev_crypto E) r" if "sound_decision E (sc_now call) nd0 r"
    using that r(6) by (simp add: sound_decision_def verify_epoch_iff same_authority_def privileged_kind_def decision_unprivileged)
  then show ?thesis using key r(5) by (auto simp: sync_admit_def Let_def member_coordinator_known_def)
qed

lemma sync_io_simps [simp]:
  "io_fetch (sync_io E lk now json held reply) n m s = (sync_fetch reply n m, s)"
  "io_admit (sync_io E lk now json held reply) r s =
     (fst (sync_admit E lk now json held r (sy_node s)), s\<lparr>sy_node := snd (sync_admit E lk now json held r (sy_node s))\<rparr>)"
  "io_apply (sync_io E lk now json held reply) batch s = s\<lparr>sy_node := snd (append_many_to E lk now batch (sy_node s))\<rparr>"
  "sy_node (io_note (sync_io E lk now json held reply) r s) = sy_node s"
  by (simp_all add: sync_io_def map_prod_def split: prod.split option.split)

lemma pulling_step:
  assumes "pulling E lk json nd0 call peer U s" "node_records nd' = node_records (sy_node s) \<union> X" "X \<subseteq> U" "same_authority (sy_node s) nd'"
  shows "pulling E lk json nd0 call peer U (s'\<lparr>sy_node := nd'\<rparr>)"
  using assms unfolding pulling_def by (auto simp: same_authority_def)

lemma scan_pulls:
  assumes "pulling E lk json nd0 call peer U s" "set page \<subseteq> set (served peer)"
    and "scan_page (sync_io E lk (sc_now call) json (held_keys json nd0) reply) page s = (batch, s')"
  shows "pulling E lk json nd0 call peer U s' \<and> node_records (sy_node s') = node_records (sy_node s) \<and> set batch = set page - node_records nd0"
  using assms
proof (induction page arbitrary: s batch)
  case (Cons r page)
  let ?io = "sync_io E lk (sc_now call) json (held_keys json nd0) reply"
  let ?a = "sync_admit E lk (sc_now call) json (held_keys json nd0) r (sy_node s)"
  let ?s = "(io_note ?io r s)\<lparr>sy_node := snd ?a\<rparr>"
  obtain b where b: "scan_page ?io page ?s = (b, s')" "batch = (if fst ?a then r # b else b)"
    using Cons.prems(3) by (auto split: prod.splits)
  have "node_records (sy_node ?s) = node_records (sy_node s) \<union> {}" by (simp add: sync_admit_frame)
  moreover have "pulling E lk json nd0 call peer U ?s"
    by (rule pulling_step [OF Cons.prems(1), where X = "{}"]) (simp_all add: sync_admit_frame)
  ultimately show ?case
    using Cons.IH [OF _ _ b(1)] Cons.prems(2) sync_admit_iff [OF Cons.prems(1), of r] b(2) by auto
qed simp

lemma land_pulls:
  assumes s: "pulling E lk json nd0 call peer U s" and page: "set page \<subseteq> set (served peer)"
    and io: "io = sync_io E lk (sc_now call) json (held_keys json nd0) reply"
  shows "pulling E lk json nd0 call peer U (snd (land_page io page s))"
    "node_records (sy_node (snd (land_page io page s))) = node_records (sy_node s) \<union> set page"
proof -
  obtain batch s1 where b: "scan_page io page s = (batch, s1)" by (metis surj_pair)
  have 1: "pulling E lk json nd0 call peer U s1" "node_records (sy_node s1) = node_records (sy_node s)" "set batch = set page - node_records nd0"
    using scan_pulls [OF s page b [unfolded io]] by simp_all
  let ?nd = "snd (append_many_to E lk (sc_now call) batch (sy_node s1))"
  have p: "lk_ledger lk" "one_history U" "node_records (sy_node s1) \<subseteq> U" "set (served peer) \<subseteq> U" "same_authority nd0 (sy_node s1)"
      "node_records nd0 \<subseteq> node_records (sy_node s)" "\<forall>r\<in>set (served peer). r \<in> node_records nd0 \<or> sound_decision E (sc_now call) nd0 r"
    using 1(1) s by (simp_all add: pulling_def)
  have q: "set batch \<subseteq> U" "\<forall>r\<in>set batch. sound_decision E (sc_now call) nd0 r" using p(4,7) page 1(3) by auto
  have "\<forall>r\<in>set batch. sound_decision E (sc_now call) (sy_node s1) r" using p(5) q(2) by (simp add: sound_decision_cong)
  from append_decisions [OF p(2,3) q(1) this, of "lk_peers lk"] p(1)
  have a: "node_records ?nd = node_records (sy_node s1) \<union> set batch" "same_authority (sy_node s1) ?nd"
    by (simp_all add: append_many_to_def Un_commute)
  have l: "snd (land_page io page s) = (if batch = [] then s1 else s1\<lparr>sy_node := ?nd\<rparr>)" by (simp add: land_page_def b) (simp add: io)
  show "pulling E lk json nd0 call peer U (snd (land_page io page s))"
    unfolding l using 1(1) pulling_step [OF 1(1) a(1) q(1) a(2)] by simp
  have "node_records (sy_node (snd (land_page io page s))) = node_records (sy_node s) \<union> set batch" unfolding l using a(1) 1(2) by auto
  then show "node_records (sy_node (snd (land_page io page s))) = node_records (sy_node s) \<union> set page" using 1(3) p(6) by blast
qed

lemma ledger_page:
  assumes "\<forall>n. sc_fetch call n" "limit \<le> 1000"
  shows "length (sync_fetch (peer_reply call peer) offset limit) = min limit (length (served peer) - offset)
    \<and> set (sync_fetch (peer_reply call peer) offset limit) = set (take limit (drop offset (served peer)))"
proof -
  have "commit_log_fetch None None (Some limit) (Some offset) peer = take limit (drop offset (served peer))"
    using assms(2) by (simp add: commit_log_fetch_def served_def min_def)
  then show ?thesis using assms(1) by (simp add: sync_fetch_def peer_reply_def newest_first_def min.commute)
qed

interpretation ledger: paged_source "sync_io E lk (sc_now call) json (held_keys json nd0) (peer_reply call peer)" bounds_default "served peer"
  "pulling E lk json nd0 call peer U" "\<lambda>r s. r \<in> node_records (sy_node s)" for E lk json nd0 call peer U
proof (unfold_locales, goal_cases)
  case 1
  show ?case by (simp add: bounds_default_def)
next
  case (2 s offset)
  then have up: "\<forall>n. sc_fetch call n" by (simp add: pulling_def)
  show ?case using ledger_page [OF up, of "cb_batch bounds_default" peer offset] by (simp add: bounds_default_def)
next
  case (3 s page)
  then show ?case by (rule land_pulls [OF _ _ refl])
next
  case (4 s page r)
  then show ?case using land_pulls(2) [OF 4(1,2) refl, of "peer_reply call peer"] by blast
next
  case (5 s page r)
  then show ?case using land_pulls(2) [OF 5(1,2) refl, of "peer_reply call peer"] by blast
qed

section \<open>What a push does to the peer\<close>

text \<open>The ledger grows at its end by some of the records, and holds none twice if it did not before.\<close>

definition grows_by :: "commit_record set \<Rightarrow> node \<Rightarrow> node \<Rightarrow> bool" where
  "grows_by X nd nd' \<longleftrightarrow> nd_archive nd' = nd_archive nd \<and> (distinct (nd_ledger nd) \<longrightarrow> distinct (nd_ledger nd'))
     \<and> (\<exists>new. nd_ledger nd' = nd_ledger nd @ new \<and> set new \<subseteq> X)"

lemma grows_refl [simp]: "nd_ledger nd' = nd_ledger nd \<Longrightarrow> nd_archive nd' = nd_archive nd \<Longrightarrow> grows_by X nd nd'"
  by (simp add: grows_by_def)

lemma grows_trans: "grows_by X nd nd1 \<Longrightarrow> grows_by Y nd1 nd2 \<Longrightarrow> X \<subseteq> Z \<Longrightarrow> Y \<subseteq> Z \<Longrightarrow> grows_by Z nd nd2"
proof -
  assume g: "grows_by X nd nd1" "grows_by Y nd1 nd2" and sub: "X \<subseteq> Z" "Y \<subseteq> Z"
  then obtain a c where "nd_ledger nd1 = nd_ledger nd @ a" "set a \<subseteq> X" "nd_ledger nd2 = nd_ledger nd1 @ c" "set c \<subseteq> Y" by (auto simp: grows_by_def)
  then have "\<exists>new. nd_ledger nd2 = nd_ledger nd @ new \<and> set new \<subseteq> Z" using sub by (intro exI [of _ "a @ c"]) auto
  then show ?thesis using g by (simp add: grows_by_def)
qed

lemma grows_mono: "grows_by X nd nd' \<Longrightarrow> X \<subseteq> Y \<Longrightarrow> grows_by Y nd nd'"
  by (rule grows_trans [OF _ grows_refl, of X nd nd' nd' Y Y]) simp_all

lemma append_checked_grows: "grows_by {r} nd (snd (append_checked E locked now r nd))"
proof (cases rule: append_checked_cases [of E locked now r nd])
  case 2
  have "r \<notin> set (nd_ledger nd)"
    using 2(1) held_None [OF 2(1)] by (cases "0 < cr_seq r") (auto simp: held_verdict_def split: if_splits)
  then show ?thesis by (simp add: 2(4) grows_by_def)
qed simp

lemma append_loop_grows: "grows_by (set rs) nd (snd (append_loop E locked now rs nd))"
proof (induction rs arbitrary: nd)
  case (Cons r rs)
  have "snd (append_loop E locked now (r # rs) nd) = snd (append_loop E locked now rs (snd (append_checked E locked now r nd)))"
    by (simp split: prod.split)
  then show ?case using grows_trans [OF append_checked_grows Cons.IH, of r "set (r # rs)"] by auto
qed simp

lemma push_gate_frame [simp]:
  "nd_ledger (snd (push_gate E lk now r nd)) = nd_ledger nd" "nd_archive (snd (push_gate E lk now r nd)) = nd_archive nd"
  by (simp_all add: push_gate_def split: prod.split)

lemma push_filter_frame:
  "push_filter E lk now rs nd = (acc, n, nd') \<Longrightarrow> nd_ledger nd' = nd_ledger nd \<and> nd_archive nd' = nd_archive nd \<and> set acc \<subseteq> set rs"
proof (induction rs arbitrary: nd acc n)
  case (Cons r rs)
  obtain res nd1 where g: "push_gate E lk now r nd = (res, nd1)" by (metis surj_pair)
  obtain acc1 n1 where f: "push_filter E lk now rs nd1 = (acc1, n1, nd')" "acc = acc1 \<or> acc = r # acc1"
    using Cons.prems g by (auto split: prod.splits option.splits)
  show ?case using Cons.IH [OF f(1)] f(2) push_gate_frame [of E lk now r nd] g by auto
qed simp

lemma commit_record_tool_grows: "grows_by {r} nd (snd (commit_record_tool E lk now r nd))"
proof -
  obtain res nd1 where g: "push_gate E lk now r nd = (res, nd1)" by (metis surj_pair)
  have f: "nd_ledger nd1 = nd_ledger nd" "nd_archive nd1 = nd_archive nd" using push_gate_frame [of E lk now r nd] g by simp_all
  have a: "grows_by {r} nd1 (snd (append_to E lk now r nd1))"
    using append_checked_grows [of r nd1 E "lk_peers lk" now] by (auto simp: append_to_def split: prod.split sum.split)
  have "snd (commit_record_tool E lk now r nd) \<in> {nd1, snd (append_to E lk now r nd1)}"
    by (simp add: commit_record_tool_def g Let_def split: option.split prod.split sum.split)
  then show ?thesis using a f by (auto simp: grows_by_def)
qed

lemma commit_records_tool_grows: "grows_by (set rs) nd (snd (commit_records_tool E lk now rs nd))"
proof -
  obtain acc n nd1 where f: "push_filter E lk now rs nd = (acc, n, nd1)" by (metis surj_pair)
  note F = push_filter_frame [OF f]
  have a: "grows_by (set acc) nd1 (snd (append_many_to E lk now acc nd1))" by (simp add: append_many_to_def append_loop_grows)
  have "snd (commit_records_tool E lk now rs nd) \<in> {nd, snd (append_many_to E lk now acc nd1)}"
    by (simp add: commit_records_tool_def f split: prod.split)
  then show ?thesis using a F by (auto simp: grows_by_def)
qed

lemma push_one_grows: "grows_by {r} nd (push_one E lk now json fate r nd)"
  using commit_record_tool_grows by (simp add: push_one_def)

lemma push_each_grows: "set rs \<subseteq> X \<Longrightarrow> grows_by X nd (fold (push_one E lk now json fate) rs nd)"
  by (induction rs arbitrary: nd) (auto intro: grows_trans [OF push_one_grows])

lemma push_repair_grows: "grows_by (set rs) nd (push_repair E lk now json bf fate rs nd)"
proof -
  obtain ok nd1 where b: "(if rs \<noteq> [] \<and> length rs \<le> 1000 then push_batch E lk now bf rs nd else (False, nd)) = (ok, nd1)" by (metis surj_pair)
  have "grows_by (set rs) nd nd1"
    using b commit_records_tool_grows [of rs nd E lk now] by (auto simp: push_batch_def split: if_splits prod.splits)
  then show ?thesis
    using grows_trans [OF _ push_each_grows [OF order_refl]] by (simp add: push_repair_def b)
qed

section \<open>A sequence of syncs\<close>

definition cursor :: "string \<Rightarrow> sync_world \<Rightarrow> nat" where
  "cursor addr w = resume_offset (load_book (sw_book w)) addr"

definition ready ::
  "cluster_env \<Rightarrow> locks \<Rightarrow> (commit_record \<Rightarrow> string option) \<Rightarrow> commit_record set \<Rightarrow> sync_call list \<Rightarrow> sync_world \<Rightarrow> bool" where
  "ready E lk json U calls w \<longleftrightarrow>
     lk_ledger lk \<and> one_history U \<and> (\<forall>r\<in>U. json r \<noteq> None) \<and> inj_on json U \<and> node_records (sw_local w) \<subseteq> U \<and> node_records (sw_peer w) \<subseteq> U
   \<and> nd_archive (sw_peer w) = [] \<and> distinct (nd_ledger (sw_peer w))
   \<and> (\<forall>r\<in>set (nd_ledger (sw_peer w)). r \<in> node_records (sw_local w) \<or> (\<forall>call\<in>set calls. sound_decision E (sc_now call) (sw_local w) r))"

lemma served_ledger: "nd_archive peer = [] \<Longrightarrow> served peer = filter (\<lambda>r. 1 \<le> cr_seq r) (nd_ledger peer)"
  by (simp add: served_def)

lemma sync_step:
  assumes r: "ready E lk json U calls w" and call: "call \<in> set calls" "\<forall>n. sc_fetch call n" "sc_save call = WriteOk"
    and cur: "cursor addr w \<le> length (served (sw_peer w))" "set (take (cursor addr w) (served (sw_peer w))) \<subseteq> node_records (sw_local w)"
    and w': "w' = sync_commit_ledger_from E lk E' lk' json addr call w"
  shows "ready E lk json U calls w'" "cursor addr w' \<le> length (served (sw_peer w'))"
    "set (take (cursor addr w') (served (sw_peer w'))) \<subseteq> node_records (sw_local w')" "node_records (sw_local w) \<subseteq> node_records (sw_local w')"
    "set (served (sw_peer w)) \<subseteq> node_records (sw_local w') \<or> cursor addr w + 256 \<le> cursor addr w'"
    "set (served (sw_peer w)) \<subseteq> set (served (sw_peer w'))"
proof -
  let ?io = "sync_io E lk (sc_now call) json (held_keys json (sw_local w)) (peer_reply call (sw_peer w))"
  let ?s = "\<lparr>sy_node = sw_local w, sy_seen = {}\<rparr>"
  obtain out book s where sw: "bounded_sweep ?io bounds_default addr (load_book (sw_book w)) ?s = (out, book, s)" by (metis surj_pair)
  let ?rs = "to_push bounds_default json (sy_seen s) (sy_node s)"
  let ?peer = "push_repair E' lk' (sc_peer_now call) json (sc_batch call) (sc_push call) ?rs (sw_peer w)"
  have eq: "w' = \<lparr>sw_book = BookFile book, sw_local = sy_node s, sw_peer = ?peer\<rparr>"
    by (simp add: w' sync_commit_ledger_from_def Let_def sw call(3) save_book_def)
  have r': "lk_ledger lk" "one_history U" "\<forall>r\<in>U. json r \<noteq> None" "inj_on json U" "node_records (sw_local w) \<subseteq> U" "node_records (sw_peer w) \<subseteq> U"
    "nd_archive (sw_peer w) = []" "distinct (nd_ledger (sw_peer w))"
    "\<forall>r\<in>set (nd_ledger (sw_peer w)). r \<in> node_records (sw_local w) \<or> (\<forall>call\<in>set calls. sound_decision E (sc_now call) (sw_local w) r)"
    using r by (simp_all add: ready_def)
  have p0: "pulling E lk json (sw_local w) call (sw_peer w) U ?s"
    using r' call(1,2) by (auto simp: pulling_def served_ledger node_records_def)
  note S = ledger.bounded_sweep_sound [OF sw p0, folded cursor_def, unfolded ledger.behind_def, OF _ cur(1)]
  have bh: "\<forall>r\<in>set (take (cursor addr w) (served (sw_peer w))). r \<in> node_records (sy_node ?s)" using cur(2) by auto
  have c': "cursor addr w' = resume_offset book addr" by (simp add: cursor_def eq load_book_def)
  have l: "node_records (sw_local w) \<subseteq> node_records (sy_node s)" "node_records (sy_node s) \<subseteq> U" "same_authority (sw_local w) (sy_node s)"
    using S(1) [OF bh] by (simp_all add: pulling_def)
  have g: "grows_by (node_records (sy_node s)) (sw_peer w) ?peer"
    by (rule grows_mono [OF push_repair_grows])
      (auto simp: to_push_def node_records_def dest!: in_set_takeD)
  then obtain new where new: "nd_ledger ?peer = nd_ledger (sw_peer w) @ new" "set new \<subseteq> node_records (sy_node s)" by (auto simp: grows_by_def)
  have peer: "nd_archive ?peer = []" "distinct (nd_ledger ?peer)" using g r'(7,8) by (simp_all add: grows_by_def)
  have sv: "served ?peer = served (sw_peer w) @ filter (\<lambda>r. 1 \<le> cr_seq r) new" by (simp add: served_ledger peer(1) r'(7) new(1))
  show "ready E lk json U calls w'"
    using r' l new peer by (auto simp: ready_def eq node_records_def sound_decision_cong [OF l(3)])
  show "node_records (sw_local w) \<subseteq> node_records (sw_local w')" using l(1) by (simp add: eq)
  show "cursor addr w' \<le> length (served (sw_peer w'))" unfolding c' using S(3) [OF bh] by (simp add: eq sv)
  show "set (take (cursor addr w') (served (sw_peer w'))) \<subseteq> node_records (sw_local w')"
    unfolding c' using S(2,3) [OF bh] by (auto simp: eq sv)
  show "set (served (sw_peer w)) \<subseteq> node_records (sw_local w') \<or> cursor addr w + 256 \<le> cursor addr w'"
    unfolding c' using S(4,5) [OF bh] by (cases "so_converged out") (auto simp: eq bounds_default_def)
  show "set (served (sw_peer w)) \<subseteq> set (served (sw_peer w'))" by (simp add: eq sv)
qed

lemma syncs_hold:
  assumes "ready E lk json U all w" "finite U" "set calls \<subseteq> set all" "\<forall>call\<in>set all. (\<forall>n. sc_fetch call n) \<and> sc_save call = WriteOk"
    and "cursor addr w \<le> length (served (sw_peer w))" "set (take (cursor addr w) (served (sw_peer w))) \<subseteq> node_records (sw_local w)"
    and "w' = fold (sync_commit_ledger_from E lk E' lk' json addr) calls w"
  shows "node_records (sw_local w) \<subseteq> node_records (sw_local w')
    \<and> (card U < 256 * length calls + cursor addr w \<longrightarrow> set (served (sw_peer w)) \<subseteq> node_records (sw_local w'))"
  using assms(1,3,5-)
proof (induction calls arbitrary: w)
  case Nil
  have "length (served (sw_peer w)) = card (set (served (sw_peer w)))"
    using Nil.prems(1) by (intro distinct_card [symmetric]) (simp add: ready_def served_ledger)
  also have "\<dots> \<le> card U"
    by (rule card_mono [OF assms(2)]) (use Nil.prems(1) in \<open>auto simp: ready_def served_ledger node_records_def\<close>)
  finally show ?case using Nil.prems by simp
next
  case (Cons call calls)
  let ?w = "sync_commit_ledger_from E lk E' lk' json addr call w"
  have call: "call \<in> set all" "\<forall>n. sc_fetch call n" "sc_save call = WriteOk" using Cons.prems(2) assms(4) by auto
  note S = sync_step [OF Cons.prems(1) call Cons.prems(3,4) refl, of E' lk']
  have "set calls \<subseteq> set all" "w' = fold (sync_commit_ledger_from E lk E' lk' json addr) calls ?w" using Cons.prems(2,5) by simp_all
  note IH = Cons.IH [OF S(1) this(1) S(2,3) this(2)]
  show ?case
  proof (cases "set (served (sw_peer w)) \<subseteq> node_records (sw_local ?w)")
    case True
    then show ?thesis using IH S(4) by blast
  next
    case False
    then have "card U < 256 * length (call # calls) + cursor addr w \<Longrightarrow> card U < 256 * length calls + cursor addr ?w" using S(5) by auto
    then show ?thesis using IH S(4,6) by blast
  qed
qed


definition sync_once :: sync_call where
  "sync_once = \<lparr>sc_now = 5, sc_peer_now = 5, sc_fetch = (\<lambda>_. True), sc_batch = CallAnswered, sc_push = (\<lambda>_. CallLost), sc_save = WriteOk\<rparr>"

definition sync_pair :: sync_world where
  "sync_pair = \<lparr>sw_book = NoBook, sw_local = toy_node [toy_record 1 [] ''x''], sw_peer = toy_node [toy_record 2 [] ''y'', toy_record 1 [] ''x'']\<rparr>"


section \<open>Bounds, and how progress is lost\<close>

lemma sweep_within_bounds:
  assumes "scanned < max 1 (cb_scan b)" "applied < max 1 (cb_apply b)"
    and "sweep_loop io b peer offset scanned applied book s = (out, book', s')"
  shows "((\<forall>n m s. length (fst (io_fetch io n m s)) \<le> m) \<longrightarrow>
      so_scanned out < max 1 (cb_scan b) + cb_batch b \<and> so_applied out < max 1 (cb_apply b) + cb_batch b)
    \<and> (\<forall>p. p \<noteq> peer \<longrightarrow> bt_get book' p = bt_get book p)"
  using assms
proof (induction "cb_scan b - scanned" arbitrary: offset scanned applied book s rule: less_induct)
  case less
  obtain page s1 where page: "io_fetch io offset (cb_batch b) s = (page, s1)" by (metis surj_pair)
  obtain n s2 where land: "land_page io page s1 = (n, s2)" by (metis surj_pair)
  have le: "(\<forall>n m s. length (fst (io_fetch io n m s)) \<le> m) \<longrightarrow> length page \<le> cb_batch b" "n \<le> length page"
    using land_page_count [OF land] page by (auto, metis fst_conv)
  let ?stop = "length page < cb_batch b \<or> cb_apply b \<le> applied + n \<or> cb_scan b \<le> scanned + length page"
  show ?case
  proof (cases "page = [] \<or> ?stop")
    case True
    then show ?thesis using less.prems page land le by (auto simp: Let_def mark_batch_get split: if_splits)
  next
    case False
    have r: "sweep_loop io b peer (offset + length page) (scanned + length page) (applied + n)
        (mark_batch peer (offset + length page) (of_nat n) False book) s2 = (out, book', s')"
      using False less.prems(3) page land by (subst (asm) sweep_loop.simps) (simp add: Let_def)
    have "0 < length page" using False by simp
    then have "cb_scan b - (scanned + length page) < cb_scan b - scanned" using False by linarith
    from less.hyps [OF this _ _ r] False show ?thesis by (auto simp: mark_batch_get)
  qed
qed

text \<open>C40. Two ways a sweep loses its place. A fetch that fails, is refused or does not parse counts as the end of the peer's ledger:
  the sweep reports that it converged and the next one starts over. And when two peers are swept in parallel, as each round does,
  each saves the whole book it loaded at its start, so the cursor of the one that saves first is as it was before.\<close>

theorem catch_up_progress_lost:
  "(reply (resume_offset book peer) 256 = None \<longrightarrow>
     (case bounded_sweep (sync_io E lk now json held reply) bounds_default peer book s of
        (out, book', s') \<Rightarrow> so_converged out \<and> \<not> so_needs_more out \<and> resume_offset book' peer = 0 \<and> s' = s))
   \<and> (p1 \<noteq> p2 \<and> bounded_sweep io1 bounds_default p1 (load_book f) s1 = (out1, book1, s1')
       \<and> bounded_sweep io2 bounds_default p2 (load_book f) s2 = (out2, book2, s2') \<longrightarrow>
        bt_get (load_book (save_book WriteOk book2 (save_book WriteOk book1 f))) p1 = bt_get (load_book f) p1)"
proof (intro conjI impI)
  assume "reply (resume_offset book peer) 256 = None"
  then show "case bounded_sweep (sync_io E lk now json held reply) bounds_default peer book s of
        (out, book', s') \<Rightarrow> so_converged out \<and> \<not> so_needs_more out \<and> resume_offset book' peer = 0 \<and> s' = s"
    by (simp add: bounded_sweep_def bounds_default_def sync_fetch_def resume_offset_def [of "mark_batch _ _ _ _ _"] mark_batch_get)
next
  assume a: "p1 \<noteq> p2 \<and> bounded_sweep io1 bounds_default p1 (load_book f) s1 = (out1, book1, s1')
       \<and> bounded_sweep io2 bounds_default p2 (load_book f) s2 = (out2, book2, s2')"
  then have "sweep_loop io2 bounds_default p2 (resume_offset (load_book f) p2) 0 0 (load_book f) s2 = (out2, book2, s2')" by (simp add: bounded_sweep_def)
  from sweep_within_bounds [OF _ _ this] a show "bt_get (load_book (save_book WriteOk book2 (save_book WriteOk book1 f))) p1 = bt_get (load_book f) p1"
    by (simp add: load_book_def save_book_def bounds_default_def)
qed

definition stopped_book :: catch_up_book where
  "stopped_book = [(''p'', \<lparr>cc_offset = 4096, cc_applied = 4096, cc_complete = False\<rparr>)]"

definition silent_io :: "(commit_record, sync_state) sweep_io" where
  "silent_io = sync_io toy_env all_locks 5 (\<lambda>r. Some (cr_value r)) {} (\<lambda>_ _. None)"

theorem catch_up_progress_lost_witness:
  "resume_offset (fst (snd (bounded_sweep silent_io bounds_default ''p'' stopped_book \<lparr>sy_node = toy_node [], sy_seen = {}\<rparr>))) ''p'' = 0
   \<and> bt_get (load_book (save_book WriteOk (fst (snd (bounded_sweep silent_io bounds_default ''q'' stopped_book \<lparr>sy_node = toy_node [], sy_seen = {}\<rparr>)))
        (save_book WriteOk (fst (snd (bounded_sweep silent_io bounds_default ''p'' stopped_book \<lparr>sy_node = toy_node [], sy_seen = {}\<rparr>))) (BookFile stopped_book)))) ''p''
      = Some \<lparr>cc_offset = 4096, cc_applied = 4096, cc_complete = False\<rparr>"
proof -
  let ?s = "\<lparr>sy_node = toy_node [], sy_seen = {}\<rparr>"
  obtain o1 b1 s1 where 1: "bounded_sweep silent_io bounds_default ''p'' stopped_book ?s = (o1, b1, s1)" by (metis surj_pair)
  obtain o2 b2 s2 where 2: "bounded_sweep silent_io bounds_default ''q'' stopped_book ?s = (o2, b2, s2)" by (metis surj_pair)
  have l: "load_book (BookFile stopped_book) = stopped_book" by (simp add: load_book_def)
  note T = catch_up_progress_lost [where reply = "\<lambda>_ _. None" and book = stopped_book and peer = "''p''" and E = toy_env and lk = all_locks and now = 5
      and json = "\<lambda>r. Some (cr_value r)" and held = "{}" and s = ?s and ?p1.0 = "''p''" and ?p2.0 = "''q''" and ?io1.0 = silent_io and ?io2.0 = silent_io
      and f = "BookFile stopped_book" and ?s1.0 = ?s and ?s2.0 = ?s and ?out1.0 = o1 and ?out2.0 = o2 and ?book1.0 = b1 and ?book2.0 = b2 and s1' = s1 and s2' = s2,
      folded silent_io_def, unfolded l]
  from T 1 2 show ?thesis by (simp add: stopped_book_def [symmetric], simp add: stopped_book_def bt_get_def)
qed

end
