(* ===== verification/Spec2Isabelle.thy ===== *)
theory Spec2Isabelle
  imports Budget_Run Ratelimit_Run Coordinator_Inv Policy_Facts Scheduler Supervisor_Inv Queue Admission_Run Commit_Seal Commit_Roster Mission_Restart Cloud_Failover_Run Mac_Confine Integration_Run Commit_Sync_Run
begin

text \<open>
  \<^bold>\<open>A verification library for susi\<close>, an agent operating system written in Rust. The library covers the
  parts that decide what runs, what it may cost, who may touch which files and who belongs to the cluster: the
  harness (\<open>crates/susi-harness/src\<close>), the claims of the native coordinator (\<open>xtask/src/bin/local-workflow.rs\<close>),
  the admission of parallel workers (\<open>crates/susi-gawd-swarm/src\<close>) and the commit ledger of the swarm
  (\<open>crates/susi-core/src/commit_log.rs\<close>) with its cluster key (\<open>crates/susi-config/src/cluster_key.rs\<close>).

  \<^bold>\<open>The parts and how they interact.\<close> A mission is a plan of tasks with dependencies and reserved scopes
  (\<open>supervisor.rs\<close>), taken from the roadmap queue (\<open>queue.rs\<close>) or written by hand. The supervisor takes the
  plan wave by wave (\<open>workflow.rs\<close>): a wave holds tasks whose dependencies landed and whose scopes are
  disjoint. Each task claims its scopes at the coordinator, which refuses overlapping claims, and is tried
  model by model along an escalation ladder (\<open>policy.rs\<close>, \<open>scheduler.rs\<close>) under a shared budget guard
  (\<open>budget.rs\<close>), paced per provider (\<open>ratelimit.rs\<close>). What a call cost (\<open>pricing.rs\<close>, \<open>usage.rs\<close>,
  \<open>money.rs\<close>) is appended to the ledger (\<open>ledger.rs\<close>), from which the budget reads the spend and the policy
  reads which models work. The operator pauses and aborts through the control log (\<open>control.rs\<close>, \<open>api.rs\<close>).
  Workers that run in parallel hold tickets of the admission controller. Nodes of a cluster seal their quorum
  decisions and membership changes into commit records, push them to each other and append what passes the gates;
  the replay of the ledger is the cluster state, and member records change the roster that the gates read.

  \<^bold>\<open>Theories.\<close>
  \<^item> \<open>Susi_Prelude\<close>: machine integers (saturating, checked and ceiling operations read through \<open>unat\<close>),
    collections of simplification rules, generic list lemmas. \<open>Susi_Strings\<close>: strings as UTF-8 bytes,
    \<open>trim\<close>, splitting, decimal numbers. \<open>Ordered_Map\<close>: \<open>BTreeMap\<close> as a sorted association list, with the
    interface \<open>keyed_store\<close> interpreted on it.
  \<^item> \<open>Money\<close>, \<open>Pricing\<close>, \<open>Usage\<close>, \<open>Ledger\<close>: amounts, the price of a call, token counts from provider
    JSON, the ledger file. Round trips of amounts and rows, the price as an exact ceiling, integrity.
  \<^item> \<open>Budget\<close>, \<open>Budget_Run\<close>: the guard, and every interleaving of concurrent attempts as a step relation
    with the bound on the mission's spend.
  \<^item> \<open>Ratelimit\<close>, \<open>Ratelimit_Run\<close>: the pacer, and runs of callers that hold, drop and complete calls.
  \<^item> \<open>Scopes\<close>, \<open>Dependencies\<close>, \<open>Workflow\<close>: the scope algebra against ownership of paths, the depth-first
    cycle check against acyclicity, waves and schedules. The interface \<open>batch_selection\<close> (choose a
    conflict-free subsequence) is interpreted on the waves and on the queue.
  \<^item> \<open>Claims\<close>, \<open>Coordinator\<close>, \<open>Coordinator_Inv\<close>: claim files as the harness and the coordinator read them,
    the operations that change the claim store, and the invariant that no path has two owners.
  \<^item> \<open>Policy\<close>, \<open>Policy_Facts\<close>, \<open>Ladder\<close>, \<open>Scheduler\<close>: what the ledger says about models, the order they are
    tried in, the ladder's state machine, one task along its ladder and the mission report.
  \<^item> \<open>Control\<close>, \<open>Supervisor\<close>, \<open>Supervisor_Inv\<close>, \<open>Queue\<close>: the operator's intent, plans, the supervisor's
    loop with its resume state, batches of the roadmap queue.
  \<^item> \<open>Admission\<close>, \<open>Admission_Inv\<close>, \<open>Admission_Run\<close>: tickets for parallel model workers (\<open>parallel_admission.rs\<close>)
    with leases, restarts and the accelerator pool. The controller refines a specification that keeps the live
    tickets only and decides over the naturals, and the tickets stay within the limits.
  \<^item> \<open>Cluster_Key\<close>: the key files, their two-phase rotation, HMAC and member signatures. \<open>Commit_Log\<close>,
    \<open>Commit_Node\<close>: commit records, terms, replay and compaction, and the files of one node with the gates a record
    passes. \<open>Commit_Fold\<close>, \<open>Commit_Compact\<close>: the replay splits into effects and marks, and compaction keeps it.
    \<open>Commit_Run\<close>: every history of a node, and that its ledger never forks. \<open>Commit_Authority\<close>, \<open>Commit_Seal\<close>: who
    can write the ledger. \<open>Commit_Roster\<close>: the roster files refine the replay.
  \<^item> \<open>Side_Effects\<close>, \<open>Side_Effects_Run\<close>: the journal of intents (\<open>side_effect_journal.rs\<close>) and its run against the
    world, in which no operation takes effect twice. \<open>Task_Lease\<close>, \<open>Task_Lease_Run\<close>: leases with fences and epochs
    (\<open>task_lease.rs\<close>); a permit that was refused stays refused. \<open>Mission_Persist\<close>, \<open>Mission_Restart\<close>: the durable
    record of a mission, its snapshots, and the DAG that is rebuilt and resumed from it (\<open>mission_persist.rs\<close>,
    \<open>dag.rs\<close>).
  \<^item> \<open>Cloud_Eligibility\<close>, \<open>Cloud_Lockout\<close>, \<open>Cloud_Spend\<close>, \<open>Cloud_Intent\<close>, \<open>Cloud_Failover\<close>: the dispatch of a prompt to
    cloud models: what past calls prove about a key and a model (\<open>cloud_eligibility.rs\<close>), cooldowns and circuits
    (\<open>cloud_lockout.rs\<close>), reservations of spend per account (\<open>cloud_budget.rs\<close>), the ranking of candidates
    (\<open>cloud_intent.rs\<close>) and the loop over them (\<open>cloud_failover.rs\<close>). \<open>Cloud_Lockout_Run\<close> has the backoff and the runs of the
    tracker, \<open>Cloud_Failover_Run\<close> the composition: a run returns, attempts in order, settles what it reserved and leaves
    locked scopes alone.
  \<^item> \<open>Mac_Token\<close>, \<open>Mac_Policy\<close>, \<open>Mac_Tools\<close>: mandatory access control (\<open>mac_policy.rs\<close>): capability tokens and what they
    cover, the grant store that processes share, mode switches, what each tool call needs and how socket paths are confined.
    \<open>Mac_Run\<close> interprets a reference monitor on the policy, \<open>Mac_Modes\<close> follows the switch of the mode through the shared store,
    \<open>Mac_Confine\<close> shows that a confined path is granted. The digest, the parser of addresses, the resolution of paths and the
    failures of the disk are arguments.
  \<^item> \<open>Writer_Isolation\<close>, \<open>Writer_Isolation_Run\<close>: private copies of the workspace for parallel workers and their folds
    (\<open>writer_isolation.rs\<close> and the loop of \<open>dag.rs\<close>): a fold is a three-way merge, and a batch of folds loses no write.
    \<open>Job_Ledger\<close>, \<open>Job_Ledger_Run\<close>: the fenced ledger of jobs (\<open>worker_recovery.rs\<close>) and its runs with crashes.
    \<open>Integration\<close>, \<open>Integration_Run\<close>: review receipts and the gate that closes a task (\<open>independent_verify.rs\<close>,
    \<open>agent_integration.rs\<close>), composed with the ledger and with the content revision of a worktree.
  \<^item> \<open>Commit_Sync\<close>, \<open>Commit_Sync_Run\<close>: catching up with a peer's ledger (\<open>anti_entropy.rs\<close>, \<open>sync_commit_ledger_from\<close> of
    \<open>amas.rs\<close>, the tool \<open>commit_log_fetch\<close>): a sweep is bounded, its loop ends because each page counts against the scan bound,
    and a locale of sources that serve pages, interpreted on the ledger, gives that syncs converge.
  \<^item> This theory: the properties that span components: a claim file written by the coordinator is read back
    by both programs as the same claim, and the coordinator accepts the claims of every planned wave.

  \<^bold>\<open>Correspondence.\<close> A Rust struct is a record (fields with a short prefix), an enum a datatype, \<open>Result\<close> a
  sum with the error left, \<open>u32\<close>, \<open>u64\<close> and \<open>u128\<close> are words of that width, \<open>usize\<close> counters that cannot
  overflow are natural numbers, strings are lists of bytes. A function keeps its name where HOL allows it.
  Loops are recursive functions with a termination proof; there is no fuel. Threads are step relations
  (\<open>Budget_Run\<close>, \<open>Ratelimit_Run\<close>, \<open>Coordinator_Inv\<close>, \<open>Admission_Run\<close>, \<open>Commit_Run\<close>,
  \<open>Side_Effects_Run\<close>, \<open>Task_Lease_Run\<close>) or one record of answers per attempt (\<open>Scheduler\<close>).

  \<^bold>\<open>Arguments of the model.\<close> \<open>serde_json\<close> (encoders and decoders, with the round trip as a hypothesis where it
  is used), the cryptographic primitives (\<open>crypto\<close>), the model registry's \<open>canonical\<close>, the configured limits of a provider, the clock, what git and
  the file system answer, the runner of an attempt and the executor of a task.

  \<^bold>\<open>Not modelled.\<close> Code whose work is input and output or a foreign protocol: the gateway and the provider
  clients, the adapter that drives git and the agent processes, the cockpit, MCP and HTTP servers, secrets,
  the daemon and the CLI, the sandbox back ends, the inference engines and the vendored crates. The
  coordinator's gates, candidates and shipping. Floating-point estimates (\<open>provider_cost_from_json\<close>,
  reported costs). The event feeds, which nothing reads back.
\<close>

section \<open>The harness reads what the coordinator writes\<close>

lemma drop_seqs_keeps_last:
  "(\<And>w. w \<in> set ws \<Longrightarrow> \<not> is_ascii_graphic (last w)) \<Longrightarrow> s \<noteq> [] \<Longrightarrow> is_ascii_graphic (last s) \<Longrightarrow>
     drop_seqs ws s \<noteq> [] \<and> last (drop_seqs ws s) = last s"
proof (induction ws s rule: drop_seqs.induct)
  case (1 ws s)
  show ?case
  proof (cases "find (\<lambda>w. w \<noteq> [] \<and> prefix w s) ws")
    case None
    then show ?thesis using "1.prems" by (subst (1 2) drop_seqs.simps) simp
  next
    case (Some w)
    then have w: "w \<in> set ws" "w \<noteq> []" "prefix w s" by (auto simp: find_Some_iff)
    have "drop (length w) s \<noteq> []"
    proof
      assume "drop (length w) s = []"
      then have "s = w" using w(3) by (auto simp: prefix_def)
      with "1.prems" w(1) show False by blast
    qed
    moreover from this have "last (drop (length w) s) = last s" by (simp add: last_drop)
    ultimately have "drop_seqs ws (drop (length w) s) \<noteq> [] \<and> last (drop_seqs ws (drop (length w) s)) = last s"
      using "1.IH" [OF Some] "1.prems" by simp
    then show ?thesis using Some by (subst (1 2) drop_seqs.simps) simp
  qed
qed

lemma graphic_last_not_blank: "s \<noteq> [] \<Longrightarrow> is_ascii_graphic (last s) \<Longrightarrow> \<not> blank s"
  using drop_seqs_keeps_last [of ws_seqs s] ws_seqs_last
  by (auto simp: blank_def trim_def trim_start_def trim_end_graphic)

lemma coord_canonical_not_blank:
  assumes "coord_canonical s"
  shows "\<not> blank s"
proof (rule graphic_last_not_blank)
  have "last (split_on slash s) \<in> set (split_on slash s)" using split_on_ne by (rule last_in_set)
  then have "last (split_on slash s) \<noteq> []" "last (last (split_on slash s)) \<noteq> CHR '' ''"
    using assms by (auto simp: coord_canonical_def list_ex_iff unsafe_component_def)
  then have "last s \<noteq> CHR '' ''" using last_split_on [of slash s] by simp
  moreover show "s \<noteq> []" using assms by (simp add: coord_canonical_def)
  ultimately show "is_ascii_graphic (last s)"
    using assms coord_canonical_no_control [OF assms, of "last s"]
    by (intro canonical_byte_graphic) (auto simp: coord_canonical_def list_all_iff)
qed

lemma coord_name_not_blank:
  assumes "coord_name n = Inr ()"
  shows "\<not> blank n"
proof (rule graphic_last_not_blank)
  show ne: "n \<noteq> []" using assms by (auto simp: coord_name_def split: if_splits)
  have "is_ascii_lower (last n) \<or> is_ascii_digit (last n) \<or> last n = CHR ''-''"
    using assms ne by (auto simp: coord_name_def list_all_iff split: if_splits)
  then show "is_ascii_graphic (last n)"
    by (auto simp: is_ascii_lower_def is_ascii_digit_def is_ascii_graphic_def)
qed

text \<open>The two ends of the claim file agree: the file the coordinator writes for a valid claim is
  read back by the coordinator, and read by the harness, as that very claim.\<close>

theorem claim_file_round_trip:
  assumes "claim_ok a c" and "\<not> blank (cl_worktree c)"
  shows "read_claim a (cl_name c) (claim_text c) = Inr c
    \<and> parse_claim \<lparr>de_extension = Some ''claim'', de_name = Some (cl_name c @ ''.claim''), de_stem = Some (cl_name c),
                  de_symlink = Some False, de_text = Some (claim_text c)\<rparr> = Inr c"
proof -
  have ok: "coord_name (cl_name c) = Inr ()" "valid_oid (cl_base c)" "cl_scopes c \<noteq> []"
    "list_all coord_canonical (cl_scopes c)"
    using assms(1) by (simp_all add: claim_ok_def)
  have "is_oid (cl_base c)" using ok(2) by (simp add: valid_oid_def is_oid_def)
  moreover have "filter (\<lambda>l. \<not> blank l) (cl_scopes c) = cl_scopes c"
    using ok(4) coord_canonical_not_blank by (simp add: filter_id_conv list_all_iff)
  ultimately have "parse_claim_lines (Some (cl_name c)) (str_lines (claim_text c)) = Inr c"
    using ok assms(2) coord_name_not_blank [OF ok(1)]
    by (simp add: claim_lines [OF assms(1)] parse_claim_lines_def CLAIM_HEADER_def)
  then show ?thesis using read_claim_text [OF assms(1)] by (simp add: parse_claim_def)
qed

theorem claim_file_round_trip_witness:
  "read_claim (\<lambda>_. True) ''a'' (claim_text sample_claim) = Inr sample_claim
    \<and> parse_claim \<lparr>de_extension = Some ''claim'', de_name = Some ''a.claim'', de_stem = Some ''a'',
                  de_symlink = Some False, de_text = Some (claim_text sample_claim)\<rparr> = Inr sample_claim"
proof -
  have "claim_ok (\<lambda>_. True) sample_claim"
    using coord_scope_canonical [OF coord_scope_docs]
    by (simp add: claim_ok_def sample_claim_def coord_name_a plain_line_def newline_char_def carriage_return_def
        valid_oid_def list_all_iff is_ascii_hexdigit_def is_ascii_digit_def)
  moreover have "\<not> blank (cl_worktree sample_claim)"
    by (rule graphic_last_not_blank) (simp_all add: sample_claim_def is_ascii_graphic_def)
  ultimately show ?thesis using claim_file_round_trip [of "\<lambda>_. True" sample_claim] by (simp add: sample_claim_def)
qed

section \<open>The coordinator accepts what the harness plans\<close>

text \<open>A batch of starts, one after another.\<close>

fun start_all :: "(string \<Rightarrow> bool) \<Rightarrow> (start_env \<times> string \<times> string list) list \<Rightarrow> claim_store
    \<Rightarrow> (coord_error + string) list \<times> claim_store" where
  "start_all a [] store = ([], store)"
| "start_all a ((env, n, raw) # rest) store =
     (let (r, store1) = start a env n raw store; (rs, store2) = start_all a rest store1 in (r # rs, store2))"

definition started :: "coord_error + string \<Rightarrow> bool" where
  "started r = (case r of Inl _ \<Rightarrow> False | Inr _ \<Rightarrow> True)"

text \<open>A host where git works and the destination is new.\<close>

definition good_env :: "(string \<Rightarrow> bool) \<Rightarrow> start_env \<Rightarrow> bool" where
  "good_env a env \<longleftrightarrow>
     se_history_ok env \<and> \<not> se_exists env \<and> se_git_ok env \<and> se_target_ok env
     \<and> (case se_worktree env of None \<Rightarrow> False | Some w \<Rightarrow> a w \<and> \<not> has_control w)
     \<and> (case se_base env of None \<Rightarrow> False | Some b \<Rightarrow> valid_oid b)"

text \<open>The scopes of a task that a claim can hold, none with a blank in front.\<close>

definition claimable :: "string list \<Rightarrow> bool" where
  "claimable raws \<longleftrightarrow> raws \<noteq> [] \<and> list_all (\<lambda>s. hd s \<noteq> CHR '' '') raws
     \<and> (case coord_scopes raws of Inl _ \<Rightarrow> False | Inr _ \<Rightarrow> True)"

definition parsed :: "string list \<Rightarrow> string list" where
  "parsed raws = (case coord_scopes raws of Inl _ \<Rightarrow> [] | Inr ss \<Rightarrow> ss)"

lemma coord_scopes_normalize:
  "coord_scopes raws = Inr ss \<Longrightarrow> list_all (\<lambda>s. hd s \<noteq> CHR '' '') raws \<Longrightarrow> normalize_all raws = Inr ss"
  by (induction raws arbitrary: ss) (auto simp: coord_scope_normalize split: sum.splits)

lemma claimable_parsed:
  assumes "claimable raws"
  shows "coord_scopes raws = Inr (parsed raws) \<and> normalize_all raws = Inr (parsed raws) \<and> parsed raws \<noteq> []"
proof -
  obtain ss where ss: "coord_scopes raws = Inr ss" using assms by (auto simp: claimable_def split: sum.splits)
  then show ?thesis
    using assms coord_scopes_normalize [OF ss] coord_scopes_canonical [OF ss]
    by (simp add: claimable_def parsed_def)
qed

lemma first_conflict_free:
  "(\<And>c. c \<in> set cs \<Longrightarrow> cl_name c \<noteq> n \<and> disjoint_scopes scopes (cl_scopes c)) \<Longrightarrow> first_conflict n scopes cs = None"
  by (induction cs)
    (auto simp: find_None_iff disjoint_scopes_def list_ex_iff overlaps_scopes_overlap split: option.splits)

lemma start_succeeds:
  assumes inv: "coord_inv a store" and env: "good_env a env" and n: "coord_name n = Inr ()" and raw: "claimable raw"
    and free: "\<And>d. live a store d \<Longrightarrow> cl_name d \<noteq> n \<and> disjoint_scopes (parsed raw) (cl_scopes d)"
  shows "\<exists>r store'. start a env n raw store = (r, store') \<and> started r \<and> coord_inv a store'
    \<and> (\<forall>d. live a store' d \<longrightarrow> live a store d \<or> cl_name d = n \<and> set (cl_scopes d) = set (parsed raw))"
proof -
  note p = claimable_parsed [OF raw]
  obtain cs where cs: "claims a store = Inr cs" "set cs = {c. live a store c}" using claims_live [OF inv] by blast
  have none: "first_conflict n (sort_dedup (parsed raw)) cs = None"
    using free cs(2) by (intro first_conflict_free) (simp add: disjoint_sort_dedup)
  obtain w b where wb: "se_worktree env = Some w" "se_base env = Some b" "\<not> has_control w" "a w" "valid_oid b"
    using env by (auto simp: good_env_def split: option.splits)
  let ?c = "\<lparr>cl_name = n, cl_worktree = w, cl_base = b, cl_scopes = sort_dedup (parsed raw)\<rparr>"
  let ?s = "bt_insert n (claim_text ?c) store"
  have st: "start a env n raw store = (Inr w, ?s)"
    using env n p cs(1) none wb by (simp add: start_def good_env_def Let_def)
  have "env_ok a env" using wb by (simp add: env_ok_def)
  then have inv': "coord_inv a ?s" using coord_inv_start [OF inv _ st] by blast
  have "plain_line w" by (rule no_control_plain) (rule has_control_bytes [OF wb(3)])
  then have "live a ?s ?c"
    using n p wb coord_scopes_canonical [of raw "parsed raw"]
    by (simp add: live_def claim_ok_def list_all_sort_dedup btree)
  then have "d = ?c" if "live a ?s d" "cl_name d = n" for d using live_unique that by fastforce
  moreover have "live a store d" if "live a ?s d" "cl_name d \<noteq> n" for d
    using that by (simp add: live_def btree)
  ultimately have "\<forall>d. live a ?s d \<longrightarrow> live a store d \<or> cl_name d = n \<and> set (cl_scopes d) = set (parsed raw)"
    by (metis claim_record.select_convs(4) set_sort_dedup)
  with st inv' show ?thesis by (intro exI [of _ "Inr w"] exI [of _ ?s]) (simp add: started_def)
qed

lemma start_all_succeeds:
  assumes "coord_inv a store"
    and "\<And>x. x \<in> set xs \<Longrightarrow> good_env a (fst x) \<and> coord_name (fst (snd x)) = Inr () \<and> claimable (snd (snd x))"
    and "\<And>x d. x \<in> set xs \<Longrightarrow> live a store d \<Longrightarrow>
       cl_name d \<noteq> fst (snd x) \<and> disjoint_scopes (parsed (snd (snd x))) (cl_scopes d)"
    and "distinct (map (fst \<circ> snd) xs)"
    and "sorted_wrt (\<lambda>x y. disjoint_scopes (parsed (snd (snd x))) (parsed (snd (snd y)))) xs"
  shows "list_all started (fst (start_all a xs store))"
  using assms
proof (induction xs arbitrary: store)
  case (Cons x xs)
  obtain env n raw where x: "x = (env, n, raw)" by (cases x)
  obtain r store' where st: "start a env n raw store = (r, store')" "started r" "coord_inv a store'"
    and live': "\<And>d. live a store' d \<Longrightarrow> live a store d \<or> cl_name d = n \<and> set (cl_scopes d) = set (parsed raw)"
    using start_succeeds [OF Cons.prems(1), of env n raw] Cons.prems(2,3) [of x] x by auto
  have "cl_name d \<noteq> fst (snd y) \<and> disjoint_scopes (parsed (snd (snd y))) (cl_scopes d)"
    if y: "y \<in> set xs" and d: "live a store' d" for y d
  proof (cases "live a store d")
    case True
    then show ?thesis using Cons.prems(3) [of y d] y by simp
  next
    case False
    then have new: "cl_name d = n" "set (cl_scopes d) = set (parsed raw)" using live' [OF d] by auto
    have "n \<noteq> fst (snd y)" using Cons.prems(4) y x by force
    moreover have "disjoint_scopes (parsed raw) (parsed (snd (snd y)))" using Cons.prems(5) y x by simp
    then have "disjoint_scopes (parsed (snd (snd y))) (cl_scopes d)"
      unfolding disjoint_scopes_iff new(2) using scopes_overlap_sym by blast
    ultimately show ?thesis using new(1) by blast
  qed
  then have "list_all started (fst (start_all a xs store'))"
    using Cons.prems(2,4,5) by (intro Cons.IH [OF st(3)]) auto
  then show ?case using st by (simp add: x case_prod_beta)
qed simp


lemma coord_scope_x: "coord_scope ''x'' = Inr ''x''"
  by (simp add: coord_scope_def replace_char_def slash_def backslash_def is_ascii_byte_def unsafe_component_def
      eq_ignore_ascii_case_def reserved_def unsafe_char_def is_control_byte_def to_ascii_lowercase_def
      to_ascii_lower_char_def is_ascii_upper_def)


end
